(* ===== verification/Go_Prelude.thy ===== *)
theory Go_Prelude
  imports Complex_Main "HOL-Library.Monad_Syntax"
begin

text \<open>
  Shared ground of the development: Go's fixed-width integers with their wrap-around, error
  results as sums, the parts of the Go standard library the sources call (\<open>strconv\<close> decimal
  conversion, \<open>strings.Cut\<close>, \<open>strings.LastIndexByte\<close>, \<open>strings.LastIndex\<close>), and the generic
  list lemmas the components use. Go strings are byte sequences, so a HOL \<^typ>\<open>string\<close> (a list
  of 8-bit characters) models them exactly.
\<close>

named_theorems go_simps \<open>rewrites that unfold the Go primitives\<close>

section \<open>Results\<close>

text \<open>A fallible Go call \<open>(v, err)\<close> is \<open>Inl err\<close> when the error is not nil and \<open>Inr v\<close> otherwise.\<close>

type_synonym ('e, 'a) result = "'e + 'a"

fun res_bind :: "('e, 'a) result \<Rightarrow> ('a \<Rightarrow> ('e, 'b) result) \<Rightarrow> ('e, 'b) result" where
  "res_bind (Inl e) f = Inl e"
| "res_bind (Inr v) f = f v"

fun is_ok :: "('e, 'a) result \<Rightarrow> bool" where
  "is_ok (Inl e) = False"
| "is_ok (Inr v) = True"

section \<open>Fixed-width integers\<close>

text \<open>Two's-complement wrap-around of \<open>int64\<close> (also Go's \<open>int\<close> on the 64-bit targets) and
  \<open>int32\<close>.\<close>

definition wrap64 :: "int \<Rightarrow> int" where
  "wrap64 x = (x + 2 ^ 63) mod 2 ^ 64 - 2 ^ 63"

definition wrap32 :: "int \<Rightarrow> int" where
  "wrap32 x = (x + 2 ^ 31) mod 2 ^ 32 - 2 ^ 31"

definition max_int64 :: int where
  "max_int64 = 2 ^ 63 - 1"

definition min_int64 :: int where
  "min_int64 = - (2 ^ 63)"

text \<open>\<open>math/big\<close>: \<open>Int.Div\<close> is Euclidean division (the remainder is never negative), and
  division by zero panics there; every caller in scope divides by a non-zero number.\<close>

definition big_div :: "int \<Rightarrow> int \<Rightarrow> int" where
  "big_div x y = (if 0 < y then x div y else - (x div (- y)))"

section \<open>Decimal text: strconv\<close>

definition digit_char :: "nat \<Rightarrow> char" where
  "digit_char d = ''0123456789'' ! d"

definition digit_val :: "char \<Rightarrow> nat" where
  "digit_val c = of_char c - 48"

definition is_digit :: "char \<Rightarrow> bool" where
  "is_digit c = (48 \<le> (of_char c :: nat) \<and> (of_char c :: nat) \<le> 57)"

fun nat_text :: "nat \<Rightarrow> string" where
  "nat_text n = (if n < 10 then [digit_char n] else nat_text (n div 10) @ [digit_char (n mod 10)])"

declare nat_text.simps [simp del]

definition text_nat :: "string \<Rightarrow> nat" where
  "text_nat s = foldl (\<lambda>a c. 10 * a + digit_val c) 0 s"

text \<open>\<open>strconv.Itoa\<close> and \<open>strconv.FormatInt(_, 10)\<close>.\<close>

definition itoa :: "int \<Rightarrow> string" where
  "itoa i = (if i < 0 then CHR ''-'' # nat_text (nat (- i)) else nat_text (nat i))"

text \<open>\<open>strconv.ParseInt(s, 10, 64)\<close> and \<open>strconv.Atoi\<close>: an optional sign, then at least one
  digit and nothing else; out-of-range values are an error. \<open>None\<close> is the error.\<close>

definition parse_uint :: "string \<Rightarrow> nat option" where
  "parse_uint s = (if s \<noteq> [] \<and> list_all is_digit s then Some (text_nat s) else None)"

definition parse_int64 :: "string \<Rightarrow> int option" where
  "parse_int64 s =
     (case s of
        [] \<Rightarrow> None
      | c # cs \<Rightarrow>
          (let r = (if c = CHR ''-'' then map_option (\<lambda>n. - int n) (parse_uint cs)
                    else if c = CHR ''+'' then map_option int (parse_uint cs)
                    else map_option int (parse_uint s))
           in case r of
                None \<Rightarrow> None
              | Some v \<Rightarrow> if min_int64 \<le> v \<and> v \<le> max_int64 then Some v else None))"

section \<open>Strings: the strings package\<close>

text \<open>\<open>strings.HasPrefix\<close>, \<open>strings.Cut\<close> with a one-byte separator, \<open>strings.LastIndexByte\<close>
  and \<open>strings.LastIndex\<close> (\<open>None\<close> is Go's \<open>-1\<close>).\<close>

definition has_prefix :: "string \<Rightarrow> string \<Rightarrow> bool" where
  "has_prefix s p = (take (length p) s = p)"

fun str_cut :: "string \<Rightarrow> char \<Rightarrow> string \<times> string \<times> bool" where
  "str_cut [] c = ([], [], False)"
| "str_cut (x # xs) c =
     (if x = c then ([], xs, True) else (case str_cut xs c of (a, b, ok) \<Rightarrow> (x # a, b, ok)))"

fun last_index_byte :: "string \<Rightarrow> char \<Rightarrow> nat option" where
  "last_index_byte [] c = None"
| "last_index_byte (x # xs) c =
     (case last_index_byte xs c of
        Some i \<Rightarrow> Some (Suc i)
      | None \<Rightarrow> if x = c then Some 0 else None)"

fun last_index :: "string \<Rightarrow> string \<Rightarrow> nat option" where
  "last_index [] p = (if p = [] then Some 0 else None)"
| "last_index (x # xs) p =
     (case last_index xs p of
        Some i \<Rightarrow> Some (Suc i)
      | None \<Rightarrow> if has_prefix (x # xs) p then Some 0 else None)"

section \<open>Lemmas\<close>

lemma res_bind_Inr_iff [simp]:
  "res_bind r f = Inr v \<longleftrightarrow> (\<exists>u. r = Inr u \<and> f u = Inr v)"
  by (cases r) auto

lemma is_ok_iff: "is_ok r \<longleftrightarrow> (\<exists>v. r = Inr v)"
  by (cases r) auto

lemma wrap64_id [simp]: "- (2 ^ 63) \<le> x \<Longrightarrow> x < 2 ^ 63 \<Longrightarrow> wrap64 x = x"
  by (simp add: wrap64_def)

lemma wrap64_range: "- (2 ^ 63) \<le> wrap64 x \<and> wrap64 x < 2 ^ 63"
proof -
  have "0 \<le> (x + 2 ^ 63) mod 2 ^ 64 \<and> (x + 2 ^ 63) mod 2 ^ 64 < (2 ^ 64 :: int)"
    by simp
  then show ?thesis by (simp add: wrap64_def)
qed

lemma wrap32_id [simp]: "- (2 ^ 31) \<le> x \<Longrightarrow> x < 2 ^ 31 \<Longrightarrow> wrap32 x = x"
  by (simp add: wrap32_def)

lemma big_div_pos [simp]: "0 < y \<Longrightarrow> big_div x y = x div y"
  by (simp add: big_div_def)

lemma digit_char_val [simp]: "d < 10 \<Longrightarrow> digit_val (digit_char d) = d"
  and is_digit_digit_char [simp]: "d < 10 \<Longrightarrow> is_digit (digit_char d)"
proof -
  assume "d < 10"
  then have "d \<in> {0, 1, 2, 3, 4, 5, 6, 7, 8, 9}" by auto
  then show "digit_val (digit_char d) = d" and "is_digit (digit_char d)"
    by (auto simp: digit_val_def digit_char_def is_digit_def)
qed

lemma nat_text_digits [simp]: "list_all is_digit (nat_text n)"
proof (induction n rule: nat_text.induct)
  case (1 n)
  then show ?case by (subst nat_text.simps) auto
qed

lemma nat_text_nonempty [simp]: "nat_text n \<noteq> []"
  by (subst nat_text.simps) simp

lemma text_nat_append: "text_nat (xs @ [c]) = 10 * text_nat xs + digit_val c"
  by (simp add: text_nat_def)

lemma text_nat_nat_text [simp]: "text_nat (nat_text n) = n"
proof (induction n rule: nat_text.induct)
  case (1 n)
  show ?case
  proof (cases "n < 10")
    case True
    then show ?thesis by (subst nat_text.simps) (simp add: text_nat_def)
  next
    case False
    then have "text_nat (nat_text n) = 10 * text_nat (nat_text (n div 10)) + n mod 10"
      by (subst nat_text.simps) (simp add: text_nat_append)
    with 1 False show ?thesis by simp
  qed
qed

lemma parse_uint_nat_text [simp]: "parse_uint (nat_text n) = Some n"
  by (simp add: parse_uint_def)

lemma is_digit_not_sign: "is_digit c \<Longrightarrow> c \<noteq> CHR ''-'' \<and> c \<noteq> CHR ''+''"
  by (auto simp: is_digit_def)

lemma is_digit_neq [simp]:
  "is_digit c \<Longrightarrow> c \<noteq> CHR ''-''" "is_digit c \<Longrightarrow> c \<noteq> CHR ''.''" "is_digit c \<Longrightarrow> c \<noteq> CHR '' ''"
  by (auto simp: is_digit_def)

text \<open>Printing then parsing an \<open>int64\<close> gives it back: the codec of the numeric record headers.\<close>

lemma parse_int64_itoa:
  assumes "min_int64 \<le> i" "i \<le> max_int64"
  shows "parse_int64 (itoa i) = Some i"
proof (cases "i < 0")
  case True
  then show ?thesis using assms by (simp add: itoa_def parse_int64_def)
next
  case False
  obtain c cs where c: "nat_text (nat i) = c # cs"
    by (cases "nat_text (nat i)") auto
  have "is_digit c" using nat_text_digits [of "nat i"] c by simp
  then have "c \<noteq> CHR ''-'' \<and> c \<noteq> CHR ''+''" by (rule is_digit_not_sign)
  moreover have "parse_uint (c # cs) = Some (nat i)"
    using parse_uint_nat_text [of "nat i"] c by simp
  ultimately show ?thesis
    using assms False c by (simp add: itoa_def parse_int64_def)
qed

lemma parse_int64_range: "parse_int64 s = Some v \<Longrightarrow> min_int64 \<le> v \<and> v \<le> max_int64"
  by (auto simp: parse_int64_def Let_def split: list.splits option.splits if_splits)

lemma last_index_byte_None [simp]: "last_index_byte s c = None \<longleftrightarrow> c \<notin> set s"
  by (induction s) (auto split: option.splits)

lemma last_index_byte_append:
  "c \<notin> set t \<Longrightarrow> last_index_byte (s @ c # t) c = Some (length s)"
  by (induction s) (auto simp: option.case_eq_if)

lemma last_index_byte_Some:
  "last_index_byte s c = Some i \<Longrightarrow>
     i < length s \<and> s = take i s @ c # drop (Suc i) s \<and> c \<notin> set (drop (Suc i) s)"
proof (induction s arbitrary: i)
  case Nil
  then show ?case by simp
next
  case (Cons x xs)
  then show ?case by (cases "last_index_byte xs c") (auto split: if_splits)
qed

lemma str_cut_append: "c \<notin> set a \<Longrightarrow> str_cut (a @ c # b) c = (a, b, True)"
  by (induction a) auto

lemma str_cut_none: "c \<notin> set a \<Longrightarrow> str_cut a c = (a, [], False)"
  by (induction a) auto

lemma sum_list_update:
  "i < length xs \<Longrightarrow> sum_list (xs[i := v]) = sum_list xs - xs ! i + (v :: int)"
  by (induction xs arbitrary: i) (auto split: nat.splits)

lemma sum_list_map_uminus: "(\<Sum>x\<leftarrow>xs. - f x) = - (\<Sum>x\<leftarrow>xs. (f x :: 'a :: ab_group_add))"
  by (induction xs) auto

declare wrap64_def [go_simps] wrap32_def [go_simps]

end
