(* ===== verification/Decimal_Lib.thy ===== *)
theory Decimal_Lib
  imports Go_Prelude
begin

text \<open>
  \<open>platform/money\<close> computes on \<open>github.com/shopspring/decimal\<close>, which is not part of the
  repository. Here that package is a parameter: a record of the operations the sources call
  (\<open>decimal_ops\<close>), and the locale \<open>decimal_lib\<close> with what the package documents of each of
  them, stated over the rational number \<open>dval d\<close> a decimal denotes. Nothing else of the
  package is used. The last section instantiates the parameter with a decimal that is a
  coefficient and a power-of-ten exponent, which shows that the laws hold together.
\<close>

section \<open>The operations the sources call\<close>

record 'd decimal_ops =
  d_add :: "'d \<Rightarrow> 'd \<Rightarrow> 'd"
  d_sub :: "'d \<Rightarrow> 'd \<Rightarrow> 'd"
  d_mul :: "'d \<Rightarrow> 'd \<Rightarrow> 'd"
  d_div_round :: "'d \<Rightarrow> 'd \<Rightarrow> int \<Rightarrow> 'd"
  d_mod :: "'d \<Rightarrow> 'd \<Rightarrow> 'd"
  d_neg :: "'d \<Rightarrow> 'd"
  d_abs :: "'d \<Rightarrow> 'd"
  d_cmp :: "'d \<Rightarrow> 'd \<Rightarrow> int"
  d_sign :: "'d \<Rightarrow> int"
  d_shift :: "'d \<Rightarrow> int \<Rightarrow> 'd"
  d_truncate :: "'d \<Rightarrow> int \<Rightarrow> 'd"
  d_round :: "'d \<Rightarrow> int \<Rightarrow> 'd"
  d_round_bank :: "'d \<Rightarrow> int \<Rightarrow> 'd"
  d_round_up :: "'d \<Rightarrow> int \<Rightarrow> 'd"
  d_round_ceil :: "'d \<Rightarrow> int \<Rightarrow> 'd"
  d_round_floor :: "'d \<Rightarrow> int \<Rightarrow> 'd"
  d_big_int :: "'d \<Rightarrow> int"
  d_from_big_int :: "int \<Rightarrow> int \<Rightarrow> 'd"
  d_from_string :: "string \<Rightarrow> (string, 'd) result"
  d_to_string :: "'d \<Rightarrow> string"
  d_num_digits :: "'d \<Rightarrow> int"
  d_exponent :: "'d \<Rightarrow> int"

text \<open>\<open>IsZero\<close>, \<open>IsNegative\<close>, \<open>IsPositive\<close> and \<open>Equal\<close> are the package's names for the sign
  and comparison tests.\<close>

definition d_is_zero :: "'d decimal_ops \<Rightarrow> 'd \<Rightarrow> bool" where
  "d_is_zero D x = (d_sign D x = 0)"

definition d_is_negative :: "'d decimal_ops \<Rightarrow> 'd \<Rightarrow> bool" where
  "d_is_negative D x = (d_sign D x < 0)"

definition d_is_positive :: "'d decimal_ops \<Rightarrow> 'd \<Rightarrow> bool" where
  "d_is_positive D x = (0 < d_sign D x)"

definition d_equal :: "'d decimal_ops \<Rightarrow> 'd \<Rightarrow> 'd \<Rightarrow> bool" where
  "d_equal D x y = (d_cmp D x y = 0)"

section \<open>Rounding of rational numbers to a scale\<close>

definition rat_trunc :: "rat \<Rightarrow> int" where
  "rat_trunc q = (if 0 \<le> q then \<lfloor>q\<rfloor> else \<lceil>q\<rceil>)"

definition rat_away :: "rat \<Rightarrow> int" where
  "rat_away q = (if 0 \<le> q then \<lceil>q\<rceil> else \<lfloor>q\<rfloor>)"

definition rat_half_away :: "rat \<Rightarrow> int" where
  "rat_half_away q = (if 0 \<le> q then \<lfloor>q + 1 / 2\<rfloor> else \<lceil>q - 1 / 2\<rceil>)"

definition rat_half_even :: "rat \<Rightarrow> int" where
  "rat_half_even q =
     (let f = \<lfloor>q\<rfloor>; r = q - of_int f
      in if r < 1 / 2 then f else if 1 / 2 < r then f + 1 else if even f then f else f + 1)"

definition at_scale :: "(rat \<Rightarrow> int) \<Rightarrow> int \<Rightarrow> rat \<Rightarrow> rat" where
  "at_scale rnd n q = of_int (rnd (q * 10 powi n)) * 10 powi (- n)"

text \<open>The fixed-point text of a number: an optional minus sign, at least one digit, and when
  there are fractional digits a point and those digits.\<close>

definition dec_parts :: "string \<Rightarrow> string \<Rightarrow> string \<Rightarrow> rat \<Rightarrow> bool" where
  "dec_parts ip fp s v =
     (ip \<noteq> [] \<and> list_all is_digit ip \<and> list_all is_digit fp \<and>
        s = (if v < 0 then ''-'' else []) @ ip @ (if fp = [] then [] else CHR ''.'' # fp) \<and>
        \<bar>v\<bar> = of_nat (text_nat (ip @ fp)) / 10 ^ length fp)"

definition dec_text :: "string \<Rightarrow> rat \<Rightarrow> bool" where
  "dec_text s v = (\<exists>ip fp. dec_parts ip fp s v)"

section \<open>What the package documents\<close>

locale decimal_lib =
  fixes D :: "'d decimal_ops"
    and dval :: "'d \<Rightarrow> rat"
  assumes add: "dval (d_add D x y) = dval x + dval y"
    and sub: "dval (d_sub D x y) = dval x - dval y"
    and mul: "dval (d_mul D x y) = dval x * dval y"
    and div_round: "dval y \<noteq> 0 \<Longrightarrow>
          dval (d_div_round D x y p) = at_scale rat_half_away p (dval x / dval y)"
    and mod_rem: "dval y \<noteq> 0 \<Longrightarrow>
          dval (d_mod D x y) = dval x - dval y * of_int (rat_trunc (dval x / dval y))"
    and neg: "dval (d_neg D x) = - dval x"
    and abs_val: "dval (d_abs D x) = \<bar>dval x\<bar>"
    and cmp: "d_cmp D x y = (if dval x < dval y then -1 else if dval x = dval y then 0 else 1)"
    and sign: "d_sign D x = (if dval x < 0 then -1 else if dval x = 0 then 0 else 1)"
    and shift: "dval (d_shift D x n) = dval x * 10 powi n"
    and truncate: "0 \<le> n \<Longrightarrow> dval (d_truncate D x n) = at_scale rat_trunc n (dval x)"
    and round_away: "dval (d_round D x n) = at_scale rat_half_away n (dval x)"
    and round_bank: "dval (d_round_bank D x n) = at_scale rat_half_even n (dval x)"
    and round_up: "dval (d_round_up D x n) = at_scale rat_away n (dval x)"
    and round_ceil: "dval (d_round_ceil D x n) = at_scale ceiling n (dval x)"
    and round_floor: "dval (d_round_floor D x n) = at_scale floor n (dval x)"
    and big_int: "d_big_int D x = rat_trunc (dval x)"
    and from_big_int: "dval (d_from_big_int D c e) = of_int c * 10 powi e"
    and to_string: "dec_text (d_to_string D x) (dval x)"
    and from_string: "dec_parts ip fp s v \<Longrightarrow>
          \<exists>x. d_from_string D s = Inr x \<and> dval x = v \<and> d_exponent D x = - int (length fp)
            \<and> d_num_digits D x \<le> int (length ip + length fp)"
    and coefficient: "\<exists>c. dval x = of_int c * 10 powi (d_exponent D x)
          \<and> \<bar>c\<bar> < 10 ^ nat (d_num_digits D x)"
begin

lemmas value_laws = add sub mul neg abs_val shift round_away round_bank round_up round_ceil
  round_floor from_big_int big_int

lemma is_zero: "d_is_zero D x \<longleftrightarrow> dval x = 0"
  by (simp add: d_is_zero_def sign)

lemma is_negative: "d_is_negative D x \<longleftrightarrow> dval x < 0"
  by (simp add: d_is_negative_def sign)

lemma is_positive: "d_is_positive D x \<longleftrightarrow> 0 < dval x"
  by (auto simp: d_is_positive_def sign)

lemma equal_val: "d_equal D x y \<longleftrightarrow> dval x = dval y"
  by (simp add: d_equal_def cmp)

lemmas test_laws = is_zero is_negative is_positive equal_val cmp sign

text \<open>Text is lossless: printing and re-reading a decimal keeps its value.\<close>

lemma string_roundtrip: "\<exists>y. d_from_string D (d_to_string D x) = Inr y \<and> dval y = dval x"
  using to_string [of x] from_string unfolding dec_text_def by blast

end

section \<open>Lemmas on rounding\<close>

lemma rat_trunc_of_int [simp]: "rat_trunc (of_int i) = i"
  by (simp add: rat_trunc_def)

lemma rat_trunc_abs: "\<bar>rat_trunc q\<bar> = \<lfloor>\<bar>q\<bar>\<rfloor>"
  unfolding rat_trunc_def by (cases "0 \<le> q") (auto simp: abs_if floor_minus, linarith+)

lemma rat_trunc_sign: "rat_trunc q < 0 \<Longrightarrow> q < 0"
  by (auto simp: rat_trunc_def split: if_splits)

lemma powi_cancel [simp]: "(10 :: rat) powi n * 10 powi (- n) = 1" "(10 :: rat) powi (- n) * 10 powi n = 1"
  by (simp_all add: power_int_minus)

lemma powi_pos [simp]: "0 < (10 :: rat) powi n"
  by simp

lemma powi_not_neg [simp]: "\<not> (10 :: rat) powi n < 0"
  using powi_pos [of n] by (simp only: not_less less_imp_le)

lemma at_scale_exact: "q * 10 powi n = of_int i \<Longrightarrow> rnd (of_int i) = i \<Longrightarrow> at_scale rnd n q = q"
proof -
  assume h: "q * 10 powi n = of_int i" "rnd (of_int i) = i"
  then have "at_scale rnd n q = (q * 10 powi n) * 10 powi (- n)"
    by (simp add: at_scale_def)
  also have "\<dots> = q" by (simp add: mult.assoc)
  finally show ?thesis .
qed

lemma at_scale_on_grid: "at_scale rnd n q * 10 powi n = of_int (rnd (q * 10 powi n))"
  by (simp add: at_scale_def mult.assoc)

text \<open>Each rounding function picks one of the two grid points around the number, so it moves
  the number by less than one grid step.\<close>

lemma rat_trunc_step: "\<bar>of_int (rat_trunc q) - q\<bar> < 1"
  unfolding rat_trunc_def by (cases "0 \<le> q"; simp; linarith)

lemma rat_away_step: "\<bar>of_int (rat_away q) - q\<bar> < 1"
  unfolding rat_away_def by (cases "0 \<le> q"; simp; linarith)

lemma rat_half_away_step: "\<bar>of_int (rat_half_away q) - q\<bar> \<le> 1 / 2"
  unfolding rat_half_away_def by (cases "0 \<le> q") (simp only: if_True if_False abs_le_iff, linarith)+

lemma rat_half_even_step: "\<bar>of_int (rat_half_even q) - q\<bar> \<le> 1 / 2"
proof -
  have "of_int \<lfloor>q\<rfloor> \<le> q" "q < of_int \<lfloor>q\<rfloor> + 1" by linarith+
  then show ?thesis
    unfolding rat_half_even_def Let_def abs_le_iff
    by (simp only: of_int_add of_int_1 split: if_split) linarith
qed

lemma ceiling_step: "\<bar>of_int \<lceil>q\<rceil> - (q :: rat)\<bar> < 1"
  by linarith

lemma floor_step: "\<bar>of_int \<lfloor>q\<rfloor> - (q :: rat)\<bar> < 1"
  by linarith

lemma rat_away_of_int [simp]: "rat_away (of_int i) = i"
  by (simp add: rat_away_def)

lemma rat_half_away_of_int [simp]: "rat_half_away (of_int i) = i"
  unfolding rat_half_away_def by (cases "0 \<le> i"; simp; linarith)

lemma rat_half_even_of_int [simp]: "rat_half_even (of_int i) = i"
  by (simp add: rat_half_even_def)

section \<open>A decimal as coefficient and exponent\<close>

text \<open>The instance: \<open>coef * 10 powi expo\<close>, with the text form of the package (fixed point,
  trailing zeros of the fraction trimmed).\<close>

record bigdec =
  coef :: int
  expo :: int

definition bd_val :: "bigdec \<Rightarrow> rat" where
  "bd_val x = of_int (coef x) * 10 powi (expo x)"

definition bd_make :: "int \<Rightarrow> int \<Rightarrow> bigdec" where
  "bd_make c e = \<lparr>coef = c, expo = e\<rparr>"

definition bd_rescale :: "bigdec \<Rightarrow> int \<Rightarrow> int" where
  "bd_rescale x e = coef x * 10 ^ nat (expo x - e)"

definition bd_combine :: "(int \<Rightarrow> int \<Rightarrow> int) \<Rightarrow> bigdec \<Rightarrow> bigdec \<Rightarrow> bigdec" where
  "bd_combine f x y =
     (let e = min (expo x) (expo y) in bd_make (f (bd_rescale x e) (bd_rescale y e)) e)"

definition bd_round :: "(rat \<Rightarrow> int) \<Rightarrow> bigdec \<Rightarrow> int \<Rightarrow> bigdec" where
  "bd_round rnd x n = bd_make (rnd (bd_val x * 10 powi n)) (- n)"

definition trim_zeros :: "string \<Rightarrow> string" where
  "trim_zeros s = rev (dropWhile (\<lambda>c. c = CHR ''0'') (rev s))"

definition bd_digits :: "bigdec \<Rightarrow> string \<times> string" where
  "bd_digits x =
     (if 0 \<le> expo x then (nat_text (nat \<bar>coef x\<bar> * 10 ^ nat (expo x)), [])
      else (let k = nat (- expo x);
                t = nat_text (nat \<bar>coef x\<bar>);
                s = replicate (Suc k - length t) CHR ''0'' @ t
            in (take (length s - k) s, trim_zeros (drop (length s - k) s))))"

definition bd_to_string :: "bigdec \<Rightarrow> string" where
  "bd_to_string x =
     (case bd_digits x of (ip, fp) \<Rightarrow>
        (if coef x < 0 then ''-'' else []) @ ip @ (if fp = [] then [] else CHR ''.'' # fp))"

definition bd_from_string :: "string \<Rightarrow> (string, bigdec) result" where
  "bd_from_string s =
     (let neg = has_prefix s ''-''; m = (if neg then drop 1 s else s)
      in case str_cut m CHR ''.'' of (ip, fp, _) \<Rightarrow>
        (if ip \<noteq> [] \<and> list_all is_digit (ip @ fp)
         then Inr (bd_make ((if neg then -1 else 1) * int (text_nat (ip @ fp))) (- int (length fp)))
         else Inl ''can't convert to decimal''))"

definition bd_num_digits :: "bigdec \<Rightarrow> int" where
  "bd_num_digits x = int (length (nat_text (nat \<bar>coef x\<bar>)))"

definition bd_ops :: "bigdec decimal_ops" where
  "bd_ops = \<lparr>
     d_add = bd_combine (+),
     d_sub = bd_combine (-),
     d_mul = (\<lambda>x y. bd_make (coef x * coef y) (expo x + expo y)),
     d_div_round = (\<lambda>x y p. bd_make (rat_half_away (bd_val x / bd_val y * 10 powi p)) (- p)),
     d_mod = (\<lambda>x y. bd_combine (\<lambda>a b. a - b * rat_trunc (bd_val x / bd_val y)) x y),
     d_neg = (\<lambda>x. bd_make (- coef x) (expo x)),
     d_abs = (\<lambda>x. bd_make \<bar>coef x\<bar> (expo x)),
     d_cmp = (\<lambda>x y. if bd_val x < bd_val y then -1 else if bd_val x = bd_val y then 0 else 1),
     d_sign = (\<lambda>x. sgn (coef x)),
     d_shift = (\<lambda>x n. bd_make (coef x) (expo x + n)),
     d_truncate = bd_round rat_trunc,
     d_round = bd_round rat_half_away,
     d_round_bank = bd_round rat_half_even,
     d_round_up = bd_round rat_away,
     d_round_ceil = bd_round ceiling,
     d_round_floor = bd_round floor,
     d_big_int = (\<lambda>x. rat_trunc (bd_val x)),
     d_from_big_int = bd_make,
     d_from_string = bd_from_string,
     d_to_string = bd_to_string,
     d_num_digits = bd_num_digits,
     d_exponent = expo\<rparr>"

lemma bd_make_sel [simp]: "coef (bd_make c e) = c" "expo (bd_make c e) = e"
  by (simp_all add: bd_make_def)

lemma bd_make_val: "bd_val (bd_make c e) = of_int c * 10 powi e"
  by (simp add: bd_val_def)

lemma bd_rescale_val: "e \<le> expo x \<Longrightarrow> of_int (bd_rescale x e) * (10 :: rat) powi e = bd_val x"
proof -
  assume e: "e \<le> expo x"
  then have "(10 :: rat) ^ nat (expo x - e) = 10 powi (expo x - e)"
    by (simp add: power_int_def)
  then have "(10 :: rat) ^ nat (expo x - e) * 10 powi e = 10 powi (expo x)"
    by (simp flip: power_int_add)
  then show ?thesis
    by (simp add: bd_rescale_def bd_val_def mult.assoc)
qed

lemma bd_combine_val:
  assumes "\<And>a b. of_int (f a b) = g (of_int a) (of_int b :: rat)"
    and "\<And>u v k. g u v * k = g (u * k) (v * (k :: rat))"
  shows "bd_val (bd_combine f x y) = g (bd_val x) (bd_val y)"
  by (simp add: bd_combine_def Let_def bd_make_val assms bd_rescale_val)

lemma bd_round_val: "bd_val (bd_round rnd x n) = at_scale rnd n (bd_val x)"
  by (simp add: bd_round_def bd_make_val at_scale_def)

lemma bd_sign_val: "bd_val x < 0 \<longleftrightarrow> coef x < 0" "bd_val x = 0 \<longleftrightarrow> coef x = 0"
  by (auto simp: bd_val_def mult_less_0_iff)

lemma text_nat_acc: "foldl (\<lambda>a c. 10 * a + digit_val c) b s = b * 10 ^ length s + text_nat s"
proof (induction s rule: rev_induct)
  case Nil
  then show ?case by (simp add: text_nat_def)
next
  case (snoc c s)
  then show ?case by (simp add: text_nat_append algebra_simps)
qed

lemma text_nat_concat: "text_nat (a @ b) = text_nat a * 10 ^ length b + text_nat b"
  using text_nat_acc [of "text_nat a" b] by (simp add: text_nat_def)

lemma text_nat_zeros [simp]: "text_nat (replicate k CHR ''0'') = 0"
  by (induction k) (simp_all add: text_nat_def digit_val_def)

lemma text_nat_bound: "list_all is_digit s \<Longrightarrow> text_nat s < 10 ^ length s"
proof (induction s rule: rev_induct)
  case Nil
  then show ?case by (simp add: text_nat_def)
next
  case (snoc c s)
  then have "text_nat s + 1 \<le> 10 ^ length s" "digit_val c \<le> 9"
    by (simp_all add: is_digit_def digit_val_def le_diff_conv)
  then show ?case by (simp add: text_nat_append)
qed

lemma trim_zeros_split: "\<exists>j. s = trim_zeros s @ replicate j CHR ''0''"
proof -
  define z where "z = takeWhile (\<lambda>c. c = CHR ''0'') (rev s)"
  have "s = rev (z @ dropWhile (\<lambda>c. c = CHR ''0'') (rev s))"
    by (simp add: z_def)
  moreover have "replicate (length z) CHR ''0'' = z"
    by (rule replicate_length_same) (auto simp: z_def dest: set_takeWhileD)
  then have "rev z = replicate (length z) CHR ''0''"
    by (metis rev_replicate)
  ultimately have "s = trim_zeros s @ replicate (length z) CHR ''0''"
    by (simp add: trim_zeros_def)
  then show ?thesis by (rule exI)
qed

lemma bd_digits_val:
  assumes "bd_digits x = (ip, fp)"
  shows "ip \<noteq> [] \<and> list_all is_digit ip \<and> list_all is_digit fp
    \<and> \<bar>bd_val x\<bar> = of_nat (text_nat (ip @ fp)) / 10 ^ length fp"
proof (cases "0 \<le> expo x")
  case True
  then show ?thesis using assms
    by (auto simp: bd_digits_def bd_val_def abs_mult power_int_def)
next
  case False
  define k where "k = nat (- expo x)"
  define t where "t = nat_text (nat \<bar>coef x\<bar>)"
  define s where "s = replicate (Suc k - length t) CHR ''0'' @ t"
  have dig: "list_all is_digit s"
    by (simp add: s_def t_def is_digit_def list_all_iff set_replicate_conv_if)
       (use nat_text_digits [of "nat \<bar>coef x\<bar>"] in \<open>simp add: list_all_iff is_digit_def\<close>)
  have len: "k < length s" by (auto simp: s_def)
  have ip: "ip = take (length s - k) s" and fp: "fp = trim_zeros (drop (length s - k) s)"
    using assms False by (auto simp: bd_digits_def Let_def k_def t_def s_def)
  obtain j where j: "drop (length s - k) s = fp @ replicate j CHR ''0''"
    using trim_zeros_split [of "drop (length s - k) s"] fp by auto
  have split: "s = ip @ fp @ replicate j CHR ''0''"
    using j ip by (metis append_take_drop_id)
  have kk: "k = length fp + j"
    using arg_cong [OF j, of length] len by simp
  have "nat \<bar>coef x\<bar> = text_nat s"
    by (simp add: s_def t_def text_nat_concat)
  also have "\<dots> = text_nat (ip @ fp) * 10 ^ j"
    by (subst split) (simp add: text_nat_concat algebra_simps power_add)
  finally have c: "nat \<bar>coef x\<bar> = text_nat (ip @ fp) * 10 ^ j" .
  have "\<bar>bd_val x\<bar> = of_nat (nat \<bar>coef x\<bar>) / 10 ^ k"
  proof -
    have "expo x = - int k" using False by (simp add: k_def)
    then have "\<bar>bd_val x\<bar> = \<bar>of_int (coef x)\<bar> * (1 / 10 ^ k)"
      by (simp only: bd_val_def abs_mult power_int_minus power_int_of_nat) (simp add: divide_inverse)
    then show ?thesis by simp
  qed
  then have "\<bar>bd_val x\<bar> = of_nat (text_nat (ip @ fp)) / 10 ^ length fp"
    by (simp add: c kk power_add)
  moreover have "ip \<noteq> []" using len ip by auto
  moreover have "list_all is_digit ip" "list_all is_digit fp"
    using dig by (subst (asm) split, simp)+
  ultimately show ?thesis by simp
qed

lemma bd_to_string_text: "dec_text (bd_to_string x) (bd_val x)"
proof (cases "bd_digits x")
  case (Pair ip fp)
  then show ?thesis
    using bd_digits_val [OF Pair] by (auto simp: dec_text_def dec_parts_def bd_to_string_def bd_sign_val)
qed

lemma digits_no_char: "list_all is_digit s \<Longrightarrow> \<not> is_digit c \<Longrightarrow> c \<notin> set s"
  by (auto simp: list_all_iff)

lemma nat_text_length: "n < 10 ^ k \<Longrightarrow> 0 < k \<Longrightarrow> length (nat_text n) \<le> k"
proof (induction n arbitrary: k rule: nat_text.induct)
  case (1 n)
  show ?case
  proof (cases "n < 10")
    case True
    then show ?thesis using 1 by (subst nat_text.simps) simp
  next
    case False
    obtain j where k: "k = Suc j" using 1(3) by (cases k) auto
    have "0 < j" using 1(2) False k by (cases j) auto
    moreover have "n div 10 < 10 ^ j" using 1(2) k by (simp add: less_mult_imp_div_less mult.commute)
    ultimately show ?thesis using 1(1) False k by (subst nat_text.simps) simp
  qed
qed

lemma bd_from_string_text:
  assumes "dec_parts ip fp s v"
  shows "\<exists>x. bd_from_string s = Inr x \<and> bd_val x = v \<and> expo x = - int (length fp)
    \<and> bd_num_digits x \<le> int (length ip + length fp)"
proof -
  have d: "ip \<noteq> []" "list_all is_digit ip" "list_all is_digit fp"
    and s: "s = (if v < 0 then ''-'' else []) @ ip @ (if fp = [] then [] else CHR ''.'' # fp)"
    and v: "\<bar>v\<bar> = of_nat (text_nat (ip @ fp)) / 10 ^ length fp"
    using assms unfolding dec_parts_def by blast+
  have dot: "CHR ''.'' \<notin> set ip" using d(2) by (rule digits_no_char) (simp add: is_digit_def)
  have pre: "has_prefix s ''-'' \<longleftrightarrow> v < 0"
    using d by (cases ip) (auto simp: s has_prefix_def)
  have cut: "\<exists>b. str_cut (ip @ (if fp = [] then [] else CHR ''.'' # fp)) CHR ''.'' = (ip, fp, b)"
    using str_cut_append [OF dot] str_cut_none [OF dot] by auto
  define x where "x = bd_make ((if v < 0 then -1 else 1) * int (text_nat (ip @ fp))) (- int (length fp))"
  have neg_len: "(10 :: rat) powi (- int (length fp)) = 1 / 10 ^ length fp"
    by (simp add: power_int_minus divide_inverse)
  have "bd_from_string s = Inr x"
    unfolding bd_from_string_def Let_def pre x_def using cut d by (auto simp: s)
  moreover have "bd_val x = (if v < 0 then -1 else 1) * \<bar>v\<bar>"
    by (simp add: x_def bd_make_val v neg_len)
  moreover have "(if v < 0 then -1 else 1) * \<bar>v\<bar> = v" by simp
  moreover have "length (nat_text (text_nat (ip @ fp))) \<le> length (ip @ fp)"
    by (rule nat_text_length) (use d text_nat_bound [of "ip @ fp"] in auto)
  then have "bd_num_digits x \<le> int (length ip + length fp)"
    by (simp add: bd_num_digits_def x_def)
  moreover have "expo x = - int (length fp)" by (simp add: x_def)
  ultimately show ?thesis by (intro exI [of _ x]) simp
qed

lemma bd_coefficient:
  "\<exists>c. bd_val x = of_int c * 10 powi (expo x) \<and> \<bar>c\<bar> < 10 ^ nat (bd_num_digits x)"
proof -
  have "nat \<bar>coef x\<bar> < 10 ^ length (nat_text (nat \<bar>coef x\<bar>))"
    using text_nat_bound [OF nat_text_digits [of "nat \<bar>coef x\<bar>"]] by simp
  then have "int (nat \<bar>coef x\<bar>) < int (10 ^ length (nat_text (nat \<bar>coef x\<bar>)))"
    by (simp only: of_nat_less_iff)
  then show ?thesis
    by (intro exI [of _ "coef x"]) (simp add: bd_val_def bd_num_digits_def)
qed

interpretation bd: decimal_lib bd_ops bd_val
proof unfold_locales
  fix x y :: bigdec and p n :: int
  show "bd_val (d_add bd_ops x y) = bd_val x + bd_val y"
    by (simp add: bd_ops_def bd_combine_val [where g = "(+)"] algebra_simps)
  show "bd_val (d_sub bd_ops x y) = bd_val x - bd_val y"
    by (simp add: bd_ops_def bd_combine_val [where g = "(-)"] algebra_simps)
  show "bd_val (d_mul bd_ops x y) = bd_val x * bd_val y"
    by (simp add: bd_ops_def bd_make_val bd_val_def power_int_add)
  show "bd_val (d_div_round bd_ops x y p) = at_scale rat_half_away p (bd_val x / bd_val y)"
    by (simp add: bd_ops_def bd_make_val at_scale_def)
  show "bd_val (d_mod bd_ops x y) = bd_val x - bd_val y * of_int (rat_trunc (bd_val x / bd_val y))"
    by (simp add: bd_ops_def algebra_simps
        bd_combine_val [where g = "\<lambda>a b. a - b * of_int (rat_trunc (bd_val x / bd_val y))"])
  show "bd_val (d_neg bd_ops x) = - bd_val x" "bd_val (d_abs bd_ops x) = \<bar>bd_val x\<bar>"
    "bd_val (d_shift bd_ops x n) = bd_val x * 10 powi n"
    by (simp_all add: bd_ops_def bd_make_val bd_val_def abs_mult power_int_add)
  show "d_sign bd_ops x = (if bd_val x < 0 then - 1 else if bd_val x = 0 then 0 else 1)"
    by (simp add: bd_ops_def bd_sign_val sgn_if)
  show "\<exists>c. bd_val x = of_int c * 10 powi d_exponent bd_ops x \<and> \<bar>c\<bar> < 10 ^ nat (d_num_digits bd_ops x)"
    using bd_coefficient [of x] by (simp add: bd_ops_def)
qed (simp_all add: bd_ops_def bd_round_val bd_make_val bd_to_string_text
      bd_from_string_text [simplified])

end
