(* ===== verification/Money_Core.thy ===== *)
theory Money_Core
  imports Decimal_Lib
begin

text \<open>
  \<open>platform/money\<close>: the structured error (\<open>error.go\<close>), the asset registry (\<open>asset.go\<close>), the
  value type and its constructors (\<open>money.go\<close>, \<open>dec.go\<close>), exact arithmetic and the one rounding
  division (\<open>arith.go\<close>), comparison (\<open>compare.go\<close>), rounding (\<open>round.go\<close>) and conversion
  (\<open>convert.go\<close>). The package-level registry is the argument \<open>reg\<close>; the decimal package is the
  argument \<open>D\<close>. \<open>Money{}\<close> beside a non-nil error is the \<open>Inl\<close> branch. Methods carry the prefix of
  their receiver. The lemmas are proved in the context of \<open>decimal_lib\<close>, over the rational value
  of an amount.
\<close>

section \<open>error.go\<close>

datatype error_code =
    CodeCurrencyMismatch | CodeUnknownAsset | CodeDivByZero | CodeInvalidAmount | CodeParseFailed
  | CodeOutOfRange | CodeScaleExceeded | CodeAssetNotAllowed | CodeNotMultiple | CodeInvalidRatio
  | CodeAmountTooLarge | CodeInexactMinor | CodeInvalidRate | CodeOther int

fun error_code_String :: "error_code \<Rightarrow> string" where
  "error_code_String CodeCurrencyMismatch = ''currency mismatch''"
| "error_code_String CodeUnknownAsset = ''unknown asset''"
| "error_code_String CodeDivByZero = ''division by zero''"
| "error_code_String CodeInvalidAmount = ''invalid amount''"
| "error_code_String CodeParseFailed = ''parse failed''"
| "error_code_String CodeOutOfRange = ''out of range''"
| "error_code_String CodeScaleExceeded = ''scale exceeded''"
| "error_code_String CodeAssetNotAllowed = ''asset not allowed''"
| "error_code_String CodeNotMultiple = ''not a multiple''"
| "error_code_String CodeInvalidRatio = ''invalid ratio''"
| "error_code_String CodeAmountTooLarge = ''amount too large''"
| "error_code_String CodeInexactMinor = ''inexact minor units''"
| "error_code_String CodeInvalidRate = ''invalid rate''"
| "error_code_String (CodeOther _) = ''unknown error''"

text \<open>\<open>wrapped\<close> is the text of the underlying cause, if there is one.\<close>

record money_error =
  Code :: error_code
  Op :: string
  Asset1 :: string
  Asset2 :: string
  Detail :: string
  wrapped :: "string option"

definition error_Error :: "money_error \<Rightarrow> string" where
  "error_Error e =
     ''money: '' @ (if Op e \<noteq> [] then Op e @ '': '' else []) @ error_code_String (Code e) @
     (if Asset1 e \<noteq> [] \<and> Asset2 e \<noteq> [] then '' ('' @ Asset1 e @ '' vs '' @ Asset2 e @ '')''
      else if Asset1 e \<noteq> [] then '' ('' @ Asset1 e @ '')'' else []) @
     (if Detail e \<noteq> [] then '': '' @ Detail e else []) @
     (case wrapped e of None \<Rightarrow> [] | Some w \<Rightarrow> '': '' @ w)"

text \<open>\<open>Is\<close>: the target is given by the first \<open>*Error\<close> of its chain (\<open>errors.As\<close>), if any.\<close>

definition error_Is :: "money_error \<Rightarrow> money_error option \<Rightarrow> bool" where
  "error_Is e target = (case target of None \<Rightarrow> False | Some t \<Rightarrow> Code t = Code e)"

definition codeErr :: "error_code \<Rightarrow> string \<Rightarrow> money_error" where
  "codeErr c op = \<lparr>Code = c, Op = op, Asset1 = [], Asset2 = [], Detail = [], wrapped = None\<rparr>"

definition withAssets :: "money_error \<Rightarrow> string \<Rightarrow> string \<Rightarrow> money_error" where
  "withAssets e a b = e\<lparr>Asset1 := a, Asset2 := b\<rparr>"

definition withAsset :: "money_error \<Rightarrow> string \<Rightarrow> money_error" where
  "withAsset e a = e\<lparr>Asset1 := a\<rparr>"

definition withDetail :: "money_error \<Rightarrow> string \<Rightarrow> money_error" where
  "withDetail e d = e\<lparr>Detail := d\<rparr>"

definition wrap_cause :: "money_error \<Rightarrow> string \<Rightarrow> money_error" where
  "wrap_cause e c = e\<lparr>wrapped := Some c\<rparr>"

definition ErrDivByZero :: money_error where
  "ErrDivByZero = codeErr CodeDivByZero []"

lemma code_of_builders [simp]:
  "Code (codeErr c op) = c" "Code (withAssets e a b) = Code e" "Code (withAsset e a) = Code e"
  "Code (withDetail e d) = Code e" "Code (wrap_cause e w) = Code e" "Code ErrDivByZero = CodeDivByZero"
  by (simp_all add: codeErr_def withAssets_def withAsset_def withDetail_def wrap_cause_def ErrDivByZero_def)

section \<open>asset.go\<close>

datatype kind = Fiat | Crypto

record asset_def =
  ACode :: string
  Exponent :: int
  Kind :: kind

type_synonym registry = "string \<rightharpoonup> asset_def"

datatype register_error =
    EmptyCode
  | NegativeExponent string int
  | ConflictingDefinition string asset_def

definition Register :: "registry \<Rightarrow> asset_def \<Rightarrow> (register_error, registry) result" where
  "Register reg a =
     (if ACode a = [] then Inl EmptyCode
      else if Exponent a < 0 then Inl (NegativeExponent (ACode a) (Exponent a))
      else case reg (ACode a) of
          Some existing \<Rightarrow>
            if existing \<noteq> a then Inl (ConflictingDefinition (ACode a) existing)
            else Inr (reg(ACode a \<mapsto> a))
        | None \<Rightarrow> Inr (reg(ACode a \<mapsto> a)))"

definition Lookup :: "registry \<Rightarrow> string \<Rightarrow> asset_def option" where
  "Lookup reg code = reg code"

text \<open>\<open>a, _ := Lookup(code)\<close>: the zero \<open>Asset\<close> when the code is unknown.\<close>

definition Lookup_zero :: "registry \<Rightarrow> string \<Rightarrow> asset_def" where
  "Lookup_zero reg code =
     (case Lookup reg code of Some a \<Rightarrow> a | None \<Rightarrow> \<lparr>ACode = [], Exponent = 0, Kind = Fiat\<rparr>)"

definition exp0_codes :: "string list" where
  "exp0_codes =
     [''BIF'', ''CLP'', ''DJF'', ''GNF'', ''ISK'', ''JPY'', ''KMF'', ''KRW'',
      ''PYG'', ''RWF'', ''UGX'', ''UYI'', ''VND'', ''VUV'', ''XAF'', ''XOF'', ''XPF'']"

definition exp3_codes :: "string list" where
  "exp3_codes = [''BHD'', ''IQD'', ''JOD'', ''KWD'', ''LYD'', ''OMR'', ''TND'']"

definition exp4_codes :: "string list" where
  "exp4_codes = [''CLF'', ''UYW'']"

definition exp2_codes :: "string list" where
  "exp2_codes =
     [''AED'', ''AFN'', ''ALL'', ''AMD'', ''ANG'', ''AOA'', ''ARS'', ''AUD'', ''AWG'', ''AZN'',
      ''BAM'', ''BBD'', ''BDT'', ''BGN'', ''BMD'', ''BND'', ''BOB'', ''BOV'', ''BRL'', ''BSD'',
      ''BTN'', ''BWP'', ''BYN'', ''BZD'', ''CAD'', ''CDF'', ''CHE'', ''CHF'', ''CHW'', ''CNY'',
      ''COP'', ''COU'', ''CRC'', ''CUP'', ''CVE'', ''CZK'', ''DKK'', ''DOP'', ''DZD'', ''EGP'',
      ''ERN'', ''ETB'', ''EUR'', ''FJD'', ''FKP'', ''GBP'', ''GEL'', ''GHS'', ''GIP'', ''GMD'',
      ''GTQ'', ''GYD'', ''HKD'', ''HNL'', ''HRK'', ''HTG'', ''HUF'', ''IDR'', ''ILS'', ''INR'',
      ''IRR'', ''JMD'', ''KES'', ''KGS'', ''KHR'', ''KPW'', ''KYD'', ''KZT'', ''LAK'', ''LBP'',
      ''LKR'', ''LRD'', ''LSL'', ''MAD'', ''MDL'', ''MGA'', ''MKD'', ''MMK'', ''MNT'', ''MOP'',
      ''MRU'', ''MUR'', ''MVR'', ''MWK'', ''MXN'', ''MXV'', ''MYR'', ''MZN'', ''NAD'', ''NGN'',
      ''NIO'', ''NOK'', ''NPR'', ''NZD'', ''PAB'', ''PEN'', ''PGK'', ''PHP'', ''PKR'', ''PLN'',
      ''QAR'', ''RON'', ''RSD'', ''RUB'', ''SAR'', ''SBD'', ''SCR'', ''SDG'', ''SEK'', ''SGD'',
      ''SHP'', ''SLE'', ''SOS'', ''SRD'', ''SSP'', ''STN'', ''SVC'', ''SYP'', ''SZL'', ''THB'',
      ''TJS'', ''TMT'', ''TOP'', ''TRY'', ''TTD'', ''TWD'', ''TZS'', ''UAH'', ''USD'', ''USN'',
      ''UYU'', ''UZS'', ''VED'', ''VES'', ''WST'', ''YER'', ''ZAR'', ''ZMW'', ''ZWG'', ''ZWL'']"

definition crypto_assets :: "asset_def list" where
  "crypto_assets = map (\<lambda>(c, e). \<lparr>ACode = c, Exponent = e, Kind = Crypto\<rparr>)
     [(''BTC'', 8), (''ETH'', 18), (''USDT'', 6), (''USDC'', 6), (''SOL'', 9),
      (''BNB'', 18), (''XRP'', 6), (''ADA'', 6), (''DOGE'', 8), (''LTC'', 8)]"

definition fiat_assets :: "string list \<Rightarrow> int \<Rightarrow> asset_def list" where
  "fiat_assets codes e = map (\<lambda>c. \<lparr>ACode = c, Exponent = e, Kind = Fiat\<rparr>) codes"

definition builtinAssets :: "asset_def list" where
  "builtinAssets =
     fiat_assets exp0_codes 0 @ fiat_assets exp2_codes 2 @ fiat_assets exp3_codes 3 @
     fiat_assets exp4_codes 4 @ crypto_assets"

definition init_registry :: registry where
  "init_registry = foldl (\<lambda>m a. m(ACode a \<mapsto> a)) Map.empty builtinAssets"

text \<open>What every registry the package can hold satisfies: a definition sits under its own
  non-empty code and its exponent is not negative.\<close>

definition registry_wf :: "registry \<Rightarrow> bool" where
  "registry_wf reg =
     (\<forall>c a. reg c = Some a \<longrightarrow> ACode a = c \<and> c \<noteq> [] \<and> 0 \<le> Exponent a)"

section \<open>dec.go\<close>

text \<open>\<open>Dec\<close> wraps one decimal; it is that decimal here. The zero value of the decimal type is
  the number 0.\<close>

definition d_zero :: "'d decimal_ops \<Rightarrow> 'd" where
  "d_zero D = d_from_big_int D 0 0"

definition DecFromString :: "'d decimal_ops \<Rightarrow> string \<Rightarrow> (money_error, 'd) result" where
  "DecFromString D s =
     (case d_from_string D s of
        Inl err \<Rightarrow> Inl (wrap_cause (withDetail (codeErr CodeParseFailed ''DecFromString'') s) err)
      | Inr d \<Rightarrow> Inr d)"

definition DecFromInt :: "'d decimal_ops \<Rightarrow> int \<Rightarrow> 'd" where
  "DecFromInt D n = d_from_big_int D n 0"

datatype rounding_mode = HalfEven | HalfUp | Down | Up | Ceil | Floor | OtherMode int

fun mode_apply :: "'d decimal_ops \<Rightarrow> rounding_mode \<Rightarrow> 'd \<Rightarrow> int \<Rightarrow> 'd" where
  "mode_apply D HalfEven d scale = d_round_bank D d scale"
| "mode_apply D HalfUp d scale = d_round D d scale"
| "mode_apply D Down d scale = d_truncate D d scale"
| "mode_apply D Up d scale = d_round_up D d scale"
| "mode_apply D Ceil d scale = d_round_ceil D d scale"
| "mode_apply D Floor d scale = d_round_floor D d scale"
| "mode_apply D (OtherMode _) d scale = d_round_bank D d scale"

section \<open>money.go\<close>

record 'd money =
  amount :: 'd
  asset :: string

definition mk_money :: "'d \<Rightarrow> string \<Rightarrow> 'd money" where
  "mk_money d a = \<lparr>amount = d, asset = a\<rparr>"

definition zero_money :: "'d decimal_ops \<Rightarrow> 'd money" where
  "zero_money D = mk_money (d_zero D) []"

definition maxParseDigits :: int where
  "maxParseDigits = 1000"

definition maxParseExp :: int where
  "maxParseExp = 256"

definition guardMagnitude :: "'d decimal_ops \<Rightarrow> 'd \<Rightarrow> string \<Rightarrow> money_error option" where
  "guardMagnitude D d op =
     (if maxParseDigits < d_num_digits D d
      then Some (withDetail (codeErr CodeAmountTooLarge op) ''coefficient exceeds digit bound'')
      else if maxParseExp < d_exponent D d \<or> d_exponent D d < - maxParseExp
      then Some (withDetail (codeErr CodeAmountTooLarge op) ''exponent out of bounds'')
      else None)"

definition Parse :: "'d decimal_ops \<Rightarrow> registry \<Rightarrow> string \<Rightarrow> string \<Rightarrow> (money_error, 'd money) result" where
  "Parse D reg s ast =
     (case Lookup reg ast of
        None \<Rightarrow> Inl (withAsset (codeErr CodeUnknownAsset ''Parse'') ast)
      | Some _ \<Rightarrow>
          (case d_from_string D s of
             Inl err \<Rightarrow> Inl (wrap_cause (withDetail (codeErr CodeParseFailed ''Parse'') s) err)
           | Inr d \<Rightarrow>
               (case guardMagnitude D d ''Parse'' of
                  Some err \<Rightarrow> Inl err
                | None \<Rightarrow> Inr (mk_money d ast))))"

definition FromMajor :: "'d decimal_ops \<Rightarrow> registry \<Rightarrow> string \<Rightarrow> string \<Rightarrow> (money_error, 'd money) result" where
  "FromMajor D reg s ast = Parse D reg s ast"

text \<open>\<open>None\<close> is a nil \<open>*big.Int\<close>.\<close>

definition FromMinor :: "'d decimal_ops \<Rightarrow> registry \<Rightarrow> int option \<Rightarrow> string \<Rightarrow> (money_error, 'd money) result" where
  "FromMinor D reg minor ast =
     (case minor of
        None \<Rightarrow> Inl (withDetail (codeErr CodeInvalidAmount ''FromMinor'') ''nil amount'')
      | Some i \<Rightarrow>
          (case Lookup reg ast of
             None \<Rightarrow> Inl (withAsset (codeErr CodeUnknownAsset ''FromMinor'') ast)
           | Some a \<Rightarrow> Inr (mk_money (d_from_big_int D i (- Exponent a)) ast)))"

definition Zero :: "'d decimal_ops \<Rightarrow> registry \<Rightarrow> string \<Rightarrow> (money_error, 'd money) result" where
  "Zero D reg ast = Parse D reg ''0'' ast"

definition Minor :: "'d decimal_ops \<Rightarrow> registry \<Rightarrow> 'd money \<Rightarrow> (money_error, int) result" where
  "Minor D reg m =
     (case Lookup reg (asset m) of
        None \<Rightarrow> Inl (withAsset (codeErr CodeUnknownAsset ''Minor'') (asset m))
      | Some a \<Rightarrow>
          (let shifted = d_shift D (amount m) (Exponent a)
           in if \<not> d_equal D shifted (d_truncate D shifted 0)
              then Inl (withDetail (withAsset (codeErr CodeInexactMinor ''Minor'') (asset m))
                          ''amount has sub-smallest-unit precision'')
              else Inr (d_big_int D shifted)))"

definition HasSubMinor :: "'d decimal_ops \<Rightarrow> registry \<Rightarrow> 'd money \<Rightarrow> bool" where
  "HasSubMinor D reg m =
     (case Lookup reg (asset m) of
        None \<Rightarrow> False
      | Some a \<Rightarrow>
          (let shifted = d_shift D (amount m) (Exponent a)
           in \<not> d_equal D shifted (d_truncate D shifted 0)))"

definition money_String :: "'d decimal_ops \<Rightarrow> 'd money \<Rightarrow> string" where
  "money_String D m = d_to_string D (amount m) @ '' '' @ asset m"

section \<open>arith.go\<close>

definition divGuardDigits :: int where
  "divGuardDigits = 16"

definition sameAsset :: "'d money \<Rightarrow> 'd money \<Rightarrow> money_error option" where
  "sameAsset m n =
     (if asset m = [] \<or> asset n = []
      then Some (withDetail (codeErr CodeCurrencyMismatch []) ''zero-value Money is not a valid operand'')
      else if asset m \<noteq> asset n
      then Some (withAssets (codeErr CodeCurrencyMismatch []) (asset m) (asset n))
      else None)"

definition money_Add :: "'d decimal_ops \<Rightarrow> 'd money \<Rightarrow> 'd money \<Rightarrow> (money_error, 'd money) result" where
  "money_Add D m n =
     (case sameAsset m n of
        Some err \<Rightarrow> Inl err
      | None \<Rightarrow> Inr (mk_money (d_add D (amount m) (amount n)) (asset m)))"

fun sum_loop :: "'d decimal_ops \<Rightarrow> 'd money \<Rightarrow> 'd money list \<Rightarrow> (money_error, 'd money) result" where
  "sum_loop D tot [] = Inr tot"
| "sum_loop D tot (m # ms) =
     (case money_Add D tot m of Inl err \<Rightarrow> Inl err | Inr t \<Rightarrow> sum_loop D t ms)"

fun money_Sum :: "'d decimal_ops \<Rightarrow> 'd money list \<Rightarrow> (money_error, 'd money) result" where
  "money_Sum D [] = Inl (withDetail (codeErr CodeInvalidAmount ''Sum'') ''needs at least one operand'')"
| "money_Sum D (m # ms) = sum_loop D m ms"

definition money_Sub :: "'d decimal_ops \<Rightarrow> 'd money \<Rightarrow> 'd money \<Rightarrow> (money_error, 'd money) result" where
  "money_Sub D m n =
     (case sameAsset m n of
        Some err \<Rightarrow> Inl err
      | None \<Rightarrow> Inr (mk_money (d_sub D (amount m) (amount n)) (asset m)))"

definition money_Mul :: "'d decimal_ops \<Rightarrow> 'd money \<Rightarrow> 'd \<Rightarrow> 'd money" where
  "money_Mul D m factor = mk_money (d_mul D (amount m) factor) (asset m)"

text \<open>\<open>scale + divGuardDigits\<close> is an \<open>int32\<close> sum.\<close>

definition money_DivRound ::
  "'d decimal_ops \<Rightarrow> 'd money \<Rightarrow> 'd \<Rightarrow> int \<Rightarrow> rounding_mode \<Rightarrow> (money_error, 'd money) result" where
  "money_DivRound D m divisor scale mode =
     (if d_is_zero D divisor then Inl ErrDivByZero
      else (let q = d_div_round D (amount m) divisor (wrap32 (scale + divGuardDigits))
            in Inr (mk_money (mode_apply D mode q scale) (asset m))))"

definition money_Neg :: "'d decimal_ops \<Rightarrow> 'd money \<Rightarrow> 'd money" where
  "money_Neg D m = mk_money (d_neg D (amount m)) (asset m)"

definition money_Abs :: "'d decimal_ops \<Rightarrow> 'd money \<Rightarrow> 'd money" where
  "money_Abs D m = mk_money (d_abs D (amount m)) (asset m)"

section \<open>compare.go\<close>

definition money_Cmp :: "'d decimal_ops \<Rightarrow> 'd money \<Rightarrow> 'd money \<Rightarrow> (money_error, int) result" where
  "money_Cmp D m n =
     (case sameAsset m n of Some err \<Rightarrow> Inl err | None \<Rightarrow> Inr (d_cmp D (amount m) (amount n)))"

definition LessThan :: "'d decimal_ops \<Rightarrow> 'd money \<Rightarrow> 'd money \<Rightarrow> (money_error, bool) result" where
  "LessThan D m n = map_sum id (\<lambda>c. c < 0) (money_Cmp D m n)"

definition LessThanOrEqual :: "'d decimal_ops \<Rightarrow> 'd money \<Rightarrow> 'd money \<Rightarrow> (money_error, bool) result" where
  "LessThanOrEqual D m n = map_sum id (\<lambda>c. c \<le> 0) (money_Cmp D m n)"

definition GreaterThan :: "'d decimal_ops \<Rightarrow> 'd money \<Rightarrow> 'd money \<Rightarrow> (money_error, bool) result" where
  "GreaterThan D m n = map_sum id (\<lambda>c. 0 < c) (money_Cmp D m n)"

definition GreaterThanOrEqual :: "'d decimal_ops \<Rightarrow> 'd money \<Rightarrow> 'd money \<Rightarrow> (money_error, bool) result" where
  "GreaterThanOrEqual D m n = map_sum id (\<lambda>c. 0 \<le> c) (money_Cmp D m n)"

definition money_Min :: "'d decimal_ops \<Rightarrow> 'd money \<Rightarrow> 'd money \<Rightarrow> (money_error, 'd money) result" where
  "money_Min D m n =
     (case money_Cmp D m n of Inl err \<Rightarrow> Inl err | Inr c \<Rightarrow> Inr (if c \<le> 0 then m else n))"

definition money_Max :: "'d decimal_ops \<Rightarrow> 'd money \<Rightarrow> 'd money \<Rightarrow> (money_error, 'd money) result" where
  "money_Max D m n =
     (case money_Cmp D m n of Inl err \<Rightarrow> Inl err | Inr c \<Rightarrow> Inr (if 0 \<le> c then m else n))"

definition money_Equal :: "'d decimal_ops \<Rightarrow> 'd money \<Rightarrow> 'd money \<Rightarrow> bool" where
  "money_Equal D m n = (asset m = asset n \<and> d_equal D (amount m) (amount n))"

definition money_IsZero :: "'d decimal_ops \<Rightarrow> 'd money \<Rightarrow> bool" where
  "money_IsZero D m = d_is_zero D (amount m)"

definition money_IsNegative :: "'d decimal_ops \<Rightarrow> 'd money \<Rightarrow> bool" where
  "money_IsNegative D m = d_is_negative D (amount m)"

definition money_IsPositive :: "'d decimal_ops \<Rightarrow> 'd money \<Rightarrow> bool" where
  "money_IsPositive D m = d_is_positive D (amount m)"

definition money_Sign :: "'d decimal_ops \<Rightarrow> 'd money \<Rightarrow> int" where
  "money_Sign D m = d_sign D (amount m)"

section \<open>round.go\<close>

definition RoundTo :: "'d decimal_ops \<Rightarrow> 'd money \<Rightarrow> int \<Rightarrow> rounding_mode \<Rightarrow> 'd money" where
  "RoundTo D m scale mode = mk_money (mode_apply D mode (amount m) scale) (asset m)"

definition money_Round :: "'d decimal_ops \<Rightarrow> registry \<Rightarrow> 'd money \<Rightarrow> rounding_mode \<Rightarrow> 'd money" where
  "money_Round D reg m mode = RoundTo D m (Exponent (Lookup_zero reg (asset m))) mode"

definition money_Truncate :: "'d decimal_ops \<Rightarrow> 'd money \<Rightarrow> int \<Rightarrow> 'd money" where
  "money_Truncate D m scale = mk_money (d_truncate D (amount m) scale) (asset m)"

definition Whole :: "'d decimal_ops \<Rightarrow> 'd money \<Rightarrow> 'd money" where
  "Whole D m = money_Truncate D m 0"

definition Fraction :: "'d decimal_ops \<Rightarrow> 'd money \<Rightarrow> 'd money" where
  "Fraction D m = (case money_Sub D m (Whole D m) of Inl _ \<Rightarrow> zero_money D | Inr f \<Rightarrow> f)"

definition Percent :: "'d decimal_ops \<Rightarrow> 'd money \<Rightarrow> 'd \<Rightarrow> 'd money" where
  "Percent D m p = money_Mul D m (d_shift D p (-2))"

section \<open>convert.go\<close>

record 'd rate =
  From :: string
  To :: string
  Factor :: 'd

definition Convert :: "'d decimal_ops \<Rightarrow> registry \<Rightarrow> 'd money \<Rightarrow> 'd rate \<Rightarrow> (money_error, 'd money) result" where
  "Convert D reg m r =
     (if asset m \<noteq> From r
      then Inl (withAssets (codeErr CodeCurrencyMismatch ''Convert'') (asset m) (From r))
      else case Lookup reg (To r) of
          None \<Rightarrow> Inl (withAsset (codeErr CodeUnknownAsset ''Convert'') (To r))
        | Some _ \<Rightarrow>
            if d_sign D (Factor r) \<le> 0
            then Inl (withDetail (withAssets (codeErr CodeInvalidRate ''Convert'') (From r) (To r))
                        ''rate factor must be > 0'')
            else Inr (mk_money (d_mul D (amount m) (Factor r)) (To r)))"

section \<open>Lemmas\<close>

lemma mk_money_sel [simp]: "amount (mk_money d a) = d" "asset (mk_money d a) = a"
  by (simp_all add: mk_money_def)

lemma sameAsset_None [simp]: "sameAsset m n = None \<longleftrightarrow> asset m \<noteq> [] \<and> asset n = asset m"
  by (auto simp: sameAsset_def)

lemma sameAsset_Some: "sameAsset m n = Some e \<Longrightarrow> Code e = CodeCurrencyMismatch"
  by (auto simp: sameAsset_def split: if_splits)

lemma money_Add_Inr:
  "money_Add D m n = Inr r \<longleftrightarrow>
     asset m \<noteq> [] \<and> asset n = asset m \<and> r = mk_money (d_add D (amount m) (amount n)) (asset m)"
  by (auto simp: money_Add_def split: option.split) (metis option.distinct(1) sameAsset_None)+

lemma money_Add_Inl: "money_Add D m n = Inl e \<Longrightarrow> Code e = CodeCurrencyMismatch"
  by (auto simp: money_Add_def split: option.splits dest: sameAsset_Some)

lemma money_Sub_Inr:
  "money_Sub D m n = Inr r \<longleftrightarrow>
     asset m \<noteq> [] \<and> asset n = asset m \<and> r = mk_money (d_sub D (amount m) (amount n)) (asset m)"
  by (auto simp: money_Sub_def split: option.split) (metis option.distinct(1) sameAsset_None)+

lemma money_Cmp_Inr:
  "money_Cmp D m n = Inr c \<longleftrightarrow>
     asset m \<noteq> [] \<and> asset n = asset m \<and> c = d_cmp D (amount m) (amount n)"
  by (auto simp: money_Cmp_def split: option.split) (metis option.distinct(1) sameAsset_None)+

lemma guardMagnitude_None:
  "guardMagnitude D d op = None \<longleftrightarrow>
     d_num_digits D d \<le> 1000 \<and> - 256 \<le> d_exponent D d \<and> d_exponent D d \<le> 256"
  by (auto simp: guardMagnitude_def maxParseDigits_def maxParseExp_def)

lemma Parse_Inr:
  "Parse D reg s ast = Inr m \<longleftrightarrow>
     (\<exists>a d. reg ast = Some a \<and> d_from_string D s = Inr d \<and> guardMagnitude D d ''Parse'' = None
       \<and> m = mk_money d ast)"
  by (auto simp: Parse_def Lookup_def split: option.splits sum.splits)

text \<open>The rounding function on rational numbers each mode stands for.\<close>

fun mode_fun :: "rounding_mode \<Rightarrow> rat \<Rightarrow> int" where
  "mode_fun HalfEven = rat_half_even"
| "mode_fun HalfUp = rat_half_away"
| "mode_fun Down = rat_trunc"
| "mode_fun Up = rat_away"
| "mode_fun Ceil = ceiling"
| "mode_fun Floor = floor"
| "mode_fun (OtherMode _) = rat_half_even"

lemma mode_fun_of_int [simp]: "mode_fun mode (of_int i) = i"
  by (cases mode) simp_all

lemma mode_fun_step: "\<bar>of_int (mode_fun mode q) - q\<bar> < 1"
  using rat_half_even_step [of q] rat_half_away_step [of q] rat_trunc_step [of q] rat_away_step [of q]
    ceiling_step [of q] floor_step [of q]
  by (cases mode) (simp_all add: abs_if split: if_splits)

lemma at_scale_step:
  assumes "\<And>q. \<bar>of_int (rnd q) - q\<bar> \<le> b"
  shows "\<bar>at_scale rnd n q - q\<bar> \<le> b * 10 powi (- n)"
proof -
  have "at_scale rnd n q - q = (of_int (rnd (q * 10 powi n)) - q * 10 powi n) * 10 powi (- n)"
    by (simp add: at_scale_def algebra_simps)
  then have "\<bar>at_scale rnd n q - q\<bar> = \<bar>of_int (rnd (q * 10 powi n)) - q * 10 powi n\<bar> * 10 powi (- n)"
    by (simp add: abs_mult)
  also have "\<dots> \<le> b * 10 powi (- n)"
    by (intro mult_right_mono assms) simp
  finally show ?thesis .
qed

lemma at_scale_step_less:
  assumes "\<And>q. \<bar>of_int (rnd q) - q\<bar> < 1"
  shows "\<bar>at_scale rnd n q - q\<bar> < 10 powi (- n)"
proof -
  have "at_scale rnd n q - q = (of_int (rnd (q * 10 powi n)) - q * 10 powi n) * 10 powi (- n)"
    by (simp add: at_scale_def algebra_simps)
  then have "\<bar>at_scale rnd n q - q\<bar> = \<bar>of_int (rnd (q * 10 powi n)) - q * 10 powi n\<bar> * 10 powi (- n)"
    by (simp add: abs_mult)
  also have "\<dots> < 1 * 10 powi (- n)"
    by (intro mult_strict_right_mono assms) simp
  finally show ?thesis by simp
qed

context decimal_lib
begin

lemma zero_val [simp]: "dval (d_zero D) = 0"
  by (simp add: d_zero_def from_big_int)

lemma mode_apply_val: "0 \<le> scale \<Longrightarrow> dval (mode_apply D mode d scale) = at_scale (mode_fun mode) scale (dval d)"
  by (cases mode) (simp_all add: value_laws truncate)

lemma sum_loop_ok:
  assumes "asset t \<noteq> []" "\<And>m. m \<in> set ms \<Longrightarrow> asset m = asset t"
  shows "\<exists>r. sum_loop D t ms = Inr r \<and> asset r = asset t
    \<and> dval (amount r) = dval (amount t) + (\<Sum>m\<leftarrow>ms. dval (amount m))"
  using assms
proof (induction ms arbitrary: t)
  case Nil
  then show ?case by simp
next
  case (Cons m ms)
  define u where "u = mk_money (d_add D (amount t) (amount m)) (asset t)"
  have "money_Add D t m = Inr u" using Cons.prems by (simp add: money_Add_Inr u_def)
  moreover have "\<exists>r. sum_loop D u ms = Inr r \<and> asset r = asset u
    \<and> dval (amount r) = dval (amount u) + (\<Sum>m\<leftarrow>ms. dval (amount m))"
    by (rule Cons.IH) (use Cons.prems in \<open>auto simp: u_def\<close>)
  ultimately show ?case by (auto simp: u_def add)
qed

lemma sum_loop_bad:
  assumes "m \<in> set ms" "asset m \<noteq> asset t \<or> asset t = []"
  shows "\<exists>e. sum_loop D t ms = Inl e \<and> Code e = CodeCurrencyMismatch"
  using assms
proof (induction ms arbitrary: t)
  case Nil
  then show ?case by simp
next
  case (Cons n ms)
  show ?case
  proof (cases "money_Add D t n")
    case (Inl e)
    then show ?thesis by (auto dest: money_Add_Inl)
  next
    case (Inr u)
    then have "asset u = asset t" "asset t \<noteq> []" "asset n = asset t"
      by (auto simp: money_Add_Inr)
    then show ?thesis using Cons Inr by auto
  qed
qed

lemma minor_value:
  assumes "reg (asset m) = Some a"
  shows "Minor D reg m = Inr i \<longleftrightarrow> dval (amount m) * 10 powi (Exponent a) = of_int i"
proof -
  let ?s = "dval (amount m) * 10 powi (Exponent a)"
  have eq: "d_equal D (d_shift D (amount m) (Exponent a)) (d_truncate D (d_shift D (amount m) (Exponent a)) 0)
      \<longleftrightarrow> ?s = of_int (rat_trunc ?s)"
    by (simp add: equal_val truncate shift at_scale_def)
  show ?thesis
    using assms by (auto simp: Minor_def Lookup_def Let_def eq big_int shift)
qed

lemma parse_bounds:
  assumes "Parse D reg s ast = Inr m"
  shows "\<bar>dval (amount m)\<bar> < 10 ^ 1256 \<and> (\<exists>i. dval (amount m) * 10 ^ 256 = of_int i)"
proof -
  obtain d where d: "amount m = d" "d_num_digits D d \<le> 1000" "- 256 \<le> d_exponent D d" "d_exponent D d \<le> 256"
    using assms by (auto simp: Parse_Inr guardMagnitude_None)
  obtain c where c: "dval d = of_int c * 10 powi (d_exponent D d)" "\<bar>c\<bar> < 10 ^ nat (d_num_digits D d)"
    using coefficient by blast
  have "\<bar>c\<bar> < 10 ^ nat (d_num_digits D d)" by fact
  also have "\<dots> \<le> (10 :: int) ^ 1000" by (rule power_increasing) (use d in auto)
  finally have "\<bar>of_int c :: rat\<bar> < 10 ^ 1000"
    by (metis of_int_abs of_int_less_iff of_int_numeral of_int_power)
  moreover have "(10 :: rat) powi (d_exponent D d) \<le> 10 powi 256"
    by (rule power_int_increasing) (use d in auto)
  ultimately have "\<bar>of_int c :: rat\<bar> * 10 powi (d_exponent D d) < 10 ^ 1000 * 10 powi 256"
    by (rule mult_less_le_imp_less) (simp_all only: abs_ge_zero powi_pos)
  moreover have "(10 :: rat) ^ 1000 * 10 powi 256 = 10 ^ 1256"
    by (simp only: power_int_numeral power_add [symmetric] numeral_plus_numeral semiring_norm)
  moreover have "\<bar>dval d\<bar> = \<bar>of_int c\<bar> * 10 powi (d_exponent D d)"
    by (simp only: c abs_mult) simp
  ultimately have "\<bar>dval d\<bar> < 10 ^ 1256" by (simp only:)
  moreover have "dval d * 10 ^ 256 = of_int (c * 10 ^ nat (d_exponent D d + 256))"
  proof -
    have "(10 :: rat) powi (d_exponent D d) * 10 ^ 256 = 10 powi (d_exponent D d) * 10 powi 256"
      by (simp only: power_int_numeral)
    also have "\<dots> = 10 powi (d_exponent D d + 256)" by (rule power_int_add [symmetric]) simp
    also have "\<dots> = 10 ^ nat (d_exponent D d + 256)" using d by (simp add: power_int_def)
    finally show ?thesis by (simp only: c mult.assoc of_int_mult of_int_power of_int_numeral)
  qed
  ultimately show ?thesis using d(1) by blast
qed

end

text \<open>The registries a process can come to hold: the seeded one, grown by \<open>Register\<close>.\<close>

inductive reachable_registry :: "registry \<Rightarrow> bool" where
  reg_init: "reachable_registry init_registry"
| reg_step: "reachable_registry reg \<Longrightarrow> Register reg a = Inr reg' \<Longrightarrow> reachable_registry reg'"

lemma Register_Inr:
  "Register reg a = Inr reg' \<longleftrightarrow>
     ACode a \<noteq> [] \<and> 0 \<le> Exponent a \<and> (reg (ACode a) = None \<or> reg (ACode a) = Some a)
       \<and> reg' = reg(ACode a \<mapsto> a)"
  by (auto simp: Register_def not_less split: option.splits)

lemma registry_wf_upd:
  "registry_wf reg \<Longrightarrow> ACode a \<noteq> [] \<Longrightarrow> 0 \<le> Exponent a \<Longrightarrow> registry_wf (reg(ACode a \<mapsto> a))"
  by (simp add: registry_wf_def)

lemma Register_wf: "registry_wf reg \<Longrightarrow> Register reg a = Inr reg' \<Longrightarrow> registry_wf reg'"
  by (simp add: Register_Inr registry_wf_upd)

lemma Register_extends: "Register reg a = Inr reg' \<Longrightarrow> reg \<subseteq>\<^sub>m reg'"
  by (auto simp: Register_Inr map_le_def)

lemma fiat_assets_ok:
  "0 \<le> e \<Longrightarrow> list_all (\<lambda>c. c \<noteq> []) cs \<Longrightarrow>
     list_all (\<lambda>a. ACode a \<noteq> [] \<and> 0 \<le> Exponent a) (fiat_assets cs e)"
  by (auto simp: fiat_assets_def list_all_iff)

lemma fiat_assets_codes: "ACode ` set (fiat_assets cs e) = set cs"
  by (auto simp: fiat_assets_def image_image)

lemma builtin_codes:
  "ACode ` set builtinAssets =
     set exp0_codes \<union> set exp2_codes \<union> set exp3_codes \<union> set exp4_codes \<union> ACode ` set crypto_assets"
  by (auto simp: builtinAssets_def image_Un fiat_assets_codes)

lemma codes_nonempty:
  "list_all (\<lambda>c. c \<noteq> []) exp0_codes" "list_all (\<lambda>c. c \<noteq> []) exp2_codes"
  "list_all (\<lambda>c. c \<noteq> []) exp3_codes" "list_all (\<lambda>c. c \<noteq> []) exp4_codes"
  "list_all (\<lambda>a. ACode a \<noteq> [] \<and> 0 \<le> Exponent a) crypto_assets"
  by code_simp+

lemma seed_dom: "dom (foldl (\<lambda>m a. m(ACode a \<mapsto> a)) reg as) = dom reg \<union> ACode ` set as"
  by (induction as arbitrary: reg) auto

lemma seed_wf:
  "registry_wf reg \<Longrightarrow> list_all (\<lambda>a. ACode a \<noteq> [] \<and> 0 \<le> Exponent a) as \<Longrightarrow>
     registry_wf (foldl (\<lambda>m a. m(ACode a \<mapsto> a)) reg as)"
  by (induction as arbitrary: reg) (simp_all add: registry_wf_upd)

lemma init_registry_wf: "registry_wf init_registry"
  unfolding init_registry_def
proof (rule seed_wf)
  show "registry_wf Map.empty" by (simp add: registry_wf_def)
  show "list_all (\<lambda>a. ACode a \<noteq> [] \<and> 0 \<le> Exponent a) builtinAssets"
    by (simp add: builtinAssets_def fiat_assets_ok codes_nonempty)
qed

section \<open>Properties\<close>

text \<open>Addition and subtraction of money are exact and never mix assets: the operation
  succeeds exactly when both operands carry the same non-empty asset code, and then the value of
  the result is the exact sum or difference in that asset; otherwise it is a currency-mismatch
  error.\<close>

theorem money_add_sub_exact:
  assumes "decimal_lib D dval"
  shows "(if asset m \<noteq> [] \<and> asset n = asset m
          then (\<exists>r s. money_Add D m n = Inr r \<and> money_Sub D m n = Inr s
                 \<and> asset r = asset m \<and> asset s = asset m
                 \<and> dval (amount r) = dval (amount m) + dval (amount n)
                 \<and> dval (amount s) = dval (amount m) - dval (amount n))
          else (\<exists>e. money_Add D m n = Inl e \<and> money_Sub D m n = Inl e \<and> Code e = CodeCurrencyMismatch))"
proof (cases "asset m \<noteq> [] \<and> asset n = asset m")
  case True
  then show ?thesis
    using decimal_lib.add [OF assms] decimal_lib.sub [OF assms]
    by (auto simp: money_Add_Inr money_Sub_Inr)
next
  case False
  then obtain e where "sameAsset m n = Some e" by (cases "sameAsset m n") auto
  then show ?thesis using False by (auto simp: money_Add_def money_Sub_def dest: sameAsset_Some)
qed

theorem money_add_sub_exact_witness:
  "\<exists>r s. money_Add bd_ops (mk_money (bd_make 1234 (-2)) ''USD'') (mk_money (bd_make 1 0) ''USD'') = Inr r
     \<and> money_Sub bd_ops (mk_money (bd_make 1234 (-2)) ''USD'') (mk_money (bd_make 1 0) ''USD'') = Inr s
     \<and> bd_val (amount r) = 1334 / 100 \<and> bd_val (amount s) = 1134 / 100"
  using money_add_sub_exact [OF bd.decimal_lib_axioms,
      of "mk_money (bd_make 1234 (-2)) ''USD''" "mk_money (bd_make 1 0) ''USD''"]
  by (auto simp: bd_make_val power_int_def power2_eq_square)

text \<open>\<open>Sum\<close> of one or more operands is their exact total when they all carry the asset of
  the first, and a currency-mismatch error as soon as one of them does not; with no operand it is
  an invalid-amount error.\<close>

theorem money_sum_exact:
  assumes "decimal_lib D dval"
  shows "(case ms of
            [] \<Rightarrow> \<exists>e. money_Sum D ms = Inl e \<and> Code e = CodeInvalidAmount
          | m # rest \<Rightarrow>
              if rest = [] \<or> asset m \<noteq> [] \<and> list_all (\<lambda>n. asset n = asset m) rest
              then (\<exists>r. money_Sum D ms = Inr r \<and> asset r = asset m
                     \<and> dval (amount r) = (\<Sum>n\<leftarrow>ms. dval (amount n)))
              else (\<exists>e. money_Sum D ms = Inl e \<and> Code e = CodeCurrencyMismatch))"
proof (cases ms)
  case Nil
  then show ?thesis by simp
next
  case (Cons m rest)
  consider (one) "rest = []" | (ok) "asset m \<noteq> []" "\<And>n. n \<in> set rest \<Longrightarrow> asset n = asset m"
    | (bad) n where "n \<in> set rest" "asset n \<noteq> asset m \<or> asset m = []"
    by (metis list.set_intros(1) neq_Nil_conv)
  then show ?thesis
  proof cases
    case one
    then show ?thesis using Cons by simp
  next
    case ok
    then show ?thesis
      using Cons decimal_lib.sum_loop_ok [OF assms ok(1), of rest] by (simp add: list_all_iff)
  next
    case bad
    then have "\<not> (rest = [] \<or> asset m \<noteq> [] \<and> list_all (\<lambda>n. asset n = asset m) rest)"
      by (auto simp: list_all_iff)
    then show ?thesis
      using Cons decimal_lib.sum_loop_bad [OF assms bad] by auto
  qed
qed

theorem money_sum_exact_witness:
  "\<exists>r. money_Sum bd_ops (map (\<lambda>c. mk_money (bd_make c (-2)) ''EUR'') [150, 275, 1]) = Inr r
     \<and> bd_val (amount r) = 426 / 100"
  using money_sum_exact [OF bd.decimal_lib_axioms,
      of "map (\<lambda>c. mk_money (bd_make c (-2)) ''EUR'') [150, 275, 1]"]
  by (auto simp: bd_make_val power_int_def power2_eq_square)

text \<open>\<open>Minor\<close> inverts \<open>FromMinor\<close>: for every registered asset and every integer, building
  the money from that many smallest units and asking for its minor units gives the integer back;
  and whenever \<open>Minor\<close> answers, rebuilding from its answer gives an equal amount.\<close>

theorem minor_roundtrip:
  assumes "decimal_lib D dval" and "reg ast = Some a"
  shows "(\<exists>m. FromMinor D reg (Some i) ast = Inr m \<and> asset m = ast \<and> Minor D reg m = Inr i)
    \<and> (\<forall>m j. asset m = ast \<and> Minor D reg m = Inr j \<longrightarrow>
         (\<exists>m'. FromMinor D reg (Some j) ast = Inr m' \<and> money_Equal D m' m))"
proof
  note lib = assms(1)
  let ?m = "\<lambda>j. mk_money (d_from_big_int D j (- Exponent a)) ast"
  have from_eq: "FromMinor D reg (Some j) ast = Inr (?m j)" for j
    using assms(2) by (simp add: FromMinor_def Lookup_def)
  have val: "dval (amount (?m j)) * 10 powi (Exponent a) = of_int j" for j
    using decimal_lib.from_big_int [OF lib] by (simp add: mult.assoc)
  have "Minor D reg (?m i) = Inr i"
    using decimal_lib.minor_value [OF lib, of reg "?m i" a i] assms(2) val by simp
  with from_eq show "\<exists>m. FromMinor D reg (Some i) ast = Inr m \<and> asset m = ast \<and> Minor D reg m = Inr i"
    by (intro exI [of _ "?m i"]) simp
  show "\<forall>m j. asset m = ast \<and> Minor D reg m = Inr j \<longrightarrow>
         (\<exists>m'. FromMinor D reg (Some j) ast = Inr m' \<and> money_Equal D m' m)"
  proof (intro allI impI)
    fix m j assume m: "asset m = ast \<and> Minor D reg m = Inr j"
    then have "dval (amount m) * 10 powi (Exponent a) = of_int j"
      using decimal_lib.minor_value [OF lib, of reg m a j] assms(2) by simp
    with val [of j] have "dval (amount (?m j)) * 10 powi (Exponent a) = dval (amount m) * 10 powi (Exponent a)"
      by (simp only:)
    then have "dval (amount (?m j)) = dval (amount m)"
      by (simp only: mult_cancel_right) simp
    then show "\<exists>m'. FromMinor D reg (Some j) ast = Inr m' \<and> money_Equal D m' m"
      using m from_eq by (simp add: money_Equal_def decimal_lib.equal_val [OF lib])
  qed
qed

lemma init_registry_USD: "init_registry ''USD'' = Some \<lparr>ACode = ''USD'', Exponent = 2, Kind = Fiat\<rparr>"
  by code_simp

theorem minor_roundtrip_witness:
  "\<exists>m. FromMinor bd_ops init_registry (Some 1999) ''USD'' = Inr m \<and> Minor bd_ops init_registry m = Inr 1999"
  using minor_roundtrip [where reg = init_registry and ast = "''USD''" and i = 1999,
      OF bd.decimal_lib_axioms init_registry_USD] by blast

text \<open>The magnitude guard bounds every parsed amount: what \<open>Parse\<close> accepts is in a registered
  asset, is smaller than \<open>10 ^ 1256\<close> in absolute value and is a multiple of \<open>10 ^ -256\<close>, so no
  accepted text denotes a number that takes more than 1512 digits to write out.\<close>

theorem parse_accepts_bounded:
  assumes "decimal_lib D dval" and "Parse D reg s ast = Inr m"
  shows "asset m = ast \<and> reg ast \<noteq> None \<and> \<bar>dval (amount m)\<bar> < 10 ^ 1256
    \<and> (\<exists>i. dval (amount m) * 10 ^ 256 = of_int i)"
proof -
  have "asset m = ast \<and> reg ast \<noteq> None" using assms(2) by (auto simp: Parse_Inr)
  then show ?thesis using decimal_lib.parse_bounds [OF assms] by blast
qed

theorem parse_accepts_bounded_witness:
  "Parse bd_ops init_registry ''12.34'' ''USD'' = Inr (mk_money (bd_make 1234 (-2)) ''USD'')
   \<and> \<bar>bd_val (amount (mk_money (bd_make 1234 (-2)) ''USD''))\<bar> < 10 ^ 1256"
proof -
  have p: "Parse bd_ops init_registry ''12.34'' ''USD'' = Inr (mk_money (bd_make 1234 (-2)) ''USD'')"
    by (simp add: Parse_def Lookup_def init_registry_USD) code_simp
  show ?thesis
    using parse_accepts_bounded [OF bd.decimal_lib_axioms p] p by blast
qed

text \<open>Rounding to a scale gives an amount with at most that many fractional digits, less than
  one unit of the last digit away from the original (at most half a unit for the two half modes),
  and does not change an amount that already has that scale; so rounding twice is rounding once.\<close>

theorem round_to_correct:
  assumes "decimal_lib D dval" and "0 \<le> scale"
  shows "asset (RoundTo D m scale mode) = asset m
    \<and> (\<exists>i. dval (amount (RoundTo D m scale mode)) = of_int i * 10 powi (- scale))
    \<and> \<bar>dval (amount (RoundTo D m scale mode)) - dval (amount m)\<bar> < 10 powi (- scale)
    \<and> (mode = HalfEven \<or> mode = HalfUp \<longrightarrow>
         \<bar>dval (amount (RoundTo D m scale mode)) - dval (amount m)\<bar> \<le> 10 powi (- scale) / 2)
    \<and> ((\<exists>i. dval (amount m) = of_int i * 10 powi (- scale)) \<longrightarrow>
         dval (amount (RoundTo D m scale mode)) = dval (amount m))"
proof -
  have v: "dval (amount (RoundTo D m scale mode)) = at_scale (mode_fun mode) scale (dval (amount m))"
    using decimal_lib.mode_apply_val [OF assms] by (simp add: RoundTo_def)
  let ?q = "dval (amount m)"
  have "\<bar>at_scale (mode_fun mode) scale ?q - ?q\<bar> < 10 powi (- scale)"
    using at_scale_step_less [of "mode_fun mode"] mode_fun_step by blast
  moreover have "mode = HalfEven \<or> mode = HalfUp \<longrightarrow>
      \<bar>at_scale (mode_fun mode) scale ?q - ?q\<bar> \<le> 10 powi (- scale) / 2"
    using at_scale_step [of rat_half_even "1 / 2" scale ?q, OF rat_half_even_step]
      at_scale_step [of rat_half_away "1 / 2" scale ?q, OF rat_half_away_step] by auto
  moreover have "?q = of_int i * 10 powi (- scale) \<Longrightarrow> at_scale (mode_fun mode) scale ?q = ?q" for i
    by (rule at_scale_exact [where i = i]) (simp_all add: mult.assoc)
  moreover have "asset (RoundTo D m scale mode) = asset m" by (simp add: RoundTo_def)
  moreover have "\<exists>i. at_scale (mode_fun mode) scale ?q = of_int i * 10 powi (- scale)"
    unfolding at_scale_def by blast
  ultimately show ?thesis unfolding v by blast
qed

theorem round_to_correct_witness:
  "(0 :: int) \<le> 2 \<and> \<bar>bd_val (amount (RoundTo bd_ops (mk_money (bd_make 1005 (-3)) ''USD'') 2 HalfEven))
      - bd_val (bd_make 1005 (-3))\<bar> \<le> 10 powi (-2) / 2"
  using round_to_correct [OF bd.decimal_lib_axioms, of 2 "mk_money (bd_make 1005 (-3)) ''USD''" HalfEven]
  by simp

text \<open>\<open>DivRound\<close> never divides by zero (it returns \<open>ErrDivByZero\<close>); for every other divisor
  the result has at most \<open>scale\<close> fractional digits and differs from the true quotient by less than
  one unit of the last digit plus half a guard digit; and when the true quotient has at most
  \<open>scale + 16\<close> fractional digits the mode is applied to the true quotient itself.\<close>

theorem div_round_correct:
  assumes "decimal_lib D dval" and "0 \<le> scale" and "scale < 2 ^ 31 - 16"
  shows "(if dval d = 0 then money_DivRound D m d scale mode = Inl ErrDivByZero
          else \<exists>r. money_DivRound D m d scale mode = Inr r \<and> asset r = asset m
            \<and> (\<exists>i. dval (amount r) = of_int i * 10 powi (- scale))
            \<and> \<bar>dval (amount r) - dval (amount m) / dval d\<bar>
                < 10 powi (- scale) + 10 powi (- (scale + 16)) / 2
            \<and> ((\<exists>i. dval (amount m) / dval d = of_int i * 10 powi (- (scale + 16))) \<longrightarrow>
                 dval (amount r) = at_scale (mode_fun mode) scale (dval (amount m) / dval d)))"
proof (cases "dval d = 0")
  case True
  then show ?thesis by (simp add: money_DivRound_def decimal_lib.is_zero [OF assms(1)])
next
  case False
  let ?q = "dval (amount m) / dval d"
  let ?g = "at_scale rat_half_away (scale + 16) ?q"
  define p where "p = mode_apply D mode (d_div_round D (amount m) d (scale + 16)) scale"
  have w: "wrap32 (scale + divGuardDigits) = scale + 16"
    using assms(2,3) by (simp add: divGuardDigits_def)
  have r: "money_DivRound D m d scale mode = Inr (mk_money p (asset m))"
    using False w by (simp add: money_DivRound_def decimal_lib.is_zero [OF assms(1)] Let_def p_def)
  have v: "dval p = at_scale (mode_fun mode) scale ?g"
    using decimal_lib.div_round [OF assms(1) False] decimal_lib.mode_apply_val [OF assms(1,2)]
    by (simp add: p_def)
  have "\<bar>?g - ?q\<bar> \<le> 10 powi (- (scale + 16)) / 2"
    using at_scale_step [of rat_half_away "1 / 2" "scale + 16" ?q, OF rat_half_away_step] by simp
  moreover have "\<bar>dval p - ?g\<bar> < 10 powi (- scale)"
    unfolding v using at_scale_step_less [of "mode_fun mode"] mode_fun_step by blast
  ultimately have "\<bar>dval p - ?q\<bar> < 10 powi (- scale) + 10 powi (- (scale + 16)) / 2"
    by linarith
  moreover have "?q = of_int i * 10 powi (- (scale + 16)) \<Longrightarrow> ?g = ?q" for i
    by (rule at_scale_exact [where i = i]) (simp_all only: mult.assoc powi_cancel mult_1_right rat_half_away_of_int)
  moreover have "\<exists>i. dval p = of_int i * 10 powi (- scale)"
    unfolding v at_scale_def by blast
  ultimately show ?thesis using False v by (auto simp: r)
qed

theorem div_round_correct_witness:
  "(0 :: int) \<le> 2 \<and> (\<exists>r. money_DivRound bd_ops (mk_money (bd_make 10 0) ''USD'') (bd_make 3 0) 2 HalfUp = Inr r
     \<and> \<bar>bd_val (amount r) - 10 / 3\<bar> < 10 powi (-2) + 10 powi (-18) / 2)"
  using div_round_correct [OF bd.decimal_lib_axioms, of 2 "bd_make 3 0" "mk_money (bd_make 10 0) ''USD''" HalfUp]
  by (auto simp: bd_make_val)

text \<open>The guard digits do not make the rounding single: the quotient is first rounded half
  away from zero at \<open>scale + 16\<close> digits. With every decimal package that meets its documentation,
  dividing \<open>10^20 + 1\<close> by \<open>10^20\<close> at scale 0 towards positive infinity gives 1, which is below the
  true quotient.\<close>

theorem div_round_ceil_rounds_down:
  assumes "decimal_lib D dval" and "dval (amount m) = 10 ^ 20 + 1" and "dval d = 10 ^ 20"
  shows "\<exists>r. money_DivRound D m d 0 Ceil = Inr r \<and> dval (amount r) = 1
    \<and> dval (amount r) < dval (amount m) / dval d"
proof -
  have w: "wrap32 (0 + divGuardDigits) = 16" by (simp add: divGuardDigits_def)
  have nz: "dval d \<noteq> 0" by (simp add: assms)
  have "(10 ^ 20 + 1) / 10 ^ 20 * 10 powi 16 + 1 / 2 = 10 ^ 16 + 1 / 10 ^ 4 + (1 / 2 :: rat)"
    by (simp add: power_int_def field_simps)
  then have "rat_half_away ((10 ^ 20 + 1) / 10 ^ 20 * 10 powi 16) = 10 ^ 16"
    unfolding rat_half_away_def by (simp add: floor_eq_iff power_int_def)
  then have "dval (d_div_round D (amount m) d 16) = 1"
    using decimal_lib.div_round [OF assms(1) nz, of "amount m" 16] assms(2,3)
    by (simp only: at_scale_def) (simp add: power_int_def power_divide)
  then have "dval (d_round_ceil D (d_div_round D (amount m) d 16) 0) = 1"
    by (simp add: decimal_lib.round_ceil [OF assms(1)] at_scale_def)
  then show ?thesis
    using nz w by (simp add: money_DivRound_def decimal_lib.is_zero [OF assms(1)] Let_def assms(2,3))
qed

theorem div_round_ceil_rounds_down_witness:
  "\<exists>r. money_DivRound bd_ops (mk_money (bd_make (10 ^ 20 + 1) 0) ''USD'') (bd_make (10 ^ 20) 0) 0 Ceil = Inr r
     \<and> bd_val (amount r) = 1"
  using div_round_ceil_rounds_down [OF bd.decimal_lib_axioms,
      of "mk_money (bd_make (10 ^ 20 + 1) 0) ''USD''" "bd_make (10 ^ 20) 0"]
  by (auto simp: bd_make_val)

text \<open>Conversion multiplies by the rate exactly and moves to the target asset; it succeeds
  exactly when the money is in the source asset of the rate, the target is registered and the
  factor is strictly positive, so it never changes the sign of an amount and never makes zero out
  of something.\<close>

theorem convert_correct:
  assumes "decimal_lib D dval"
  shows "(if asset m = From r \<and> reg (To r) \<noteq> None \<and> 0 < dval (Factor r)
          then \<exists>n. Convert D reg m r = Inr n \<and> asset n = To r
                 \<and> dval (amount n) = dval (amount m) * dval (Factor r)
                 \<and> money_Sign D n = money_Sign D m
          else \<exists>e. Convert D reg m r = Inl e
                 \<and> Code e = (if asset m \<noteq> From r then CodeCurrencyMismatch
                             else if reg (To r) = None then CodeUnknownAsset else CodeInvalidRate))"
proof -
  have s: "d_sign D (Factor r) \<le> 0 \<longleftrightarrow> \<not> 0 < dval (Factor r)"
    by (auto simp: decimal_lib.sign [OF assms])
  have sgn_mul: "0 < f \<Longrightarrow> (x * f < 0 \<longleftrightarrow> x < 0) \<and> (x * f = 0 \<longleftrightarrow> x = 0)" for x f :: rat
    by (simp add: mult_less_0_iff)
  show ?thesis
  proof (cases "asset m = From r \<and> reg (To r) \<noteq> None \<and> 0 < dval (Factor r)")
    case True
    then have "Convert D reg m r = Inr (mk_money (d_mul D (amount m) (Factor r)) (To r))"
      by (auto simp: Convert_def Lookup_def s)
    then show ?thesis
      using True sgn_mul [of "dval (Factor r)" "dval (amount m)"]
      by (simp add: money_Sign_def decimal_lib.sign [OF assms] decimal_lib.mul [OF assms])
  next
    case False
    then show ?thesis by (cases "reg (To r)") (simp_all add: Convert_def Lookup_def s)
  qed
qed

theorem convert_correct_witness:
  "\<exists>n. Convert bd_ops init_registry (mk_money (bd_make 250 (-2)) ''EUR'')
         \<lparr>From = ''EUR'', To = ''USD'', Factor = bd_make 11 (-1)\<rparr> = Inr n
     \<and> asset n = ''USD'' \<and> bd_val (amount n) = 275 / 100"
  using convert_correct [OF bd.decimal_lib_axioms, of "mk_money (bd_make 250 (-2)) ''EUR''"
      "\<lparr>From = ''EUR'', To = ''USD'', Factor = bd_make 11 (-1)\<rparr>" init_registry]
  by (auto simp: init_registry_USD bd_make_val power_int_def power2_eq_square)

text \<open>Asset definitions are immutable: in every registry reached from the seeded one by any
  sequence of successful registrations each definition sits under its own non-empty code with a
  non-negative exponent, the built-in definitions are all still there unchanged, and registering a
  registered definition again succeeds and changes nothing.\<close>

theorem registry_immutable:
  assumes "reachable_registry reg"
  shows "registry_wf reg \<and> init_registry \<subseteq>\<^sub>m reg
    \<and> (\<forall>c a. reg c = Some a \<longrightarrow> Register reg a = Inr reg
         \<and> (\<forall>b. ACode b = c \<and> b \<noteq> a \<longrightarrow> \<not> is_ok (Register reg b)))"
proof -
  have "registry_wf reg \<and> init_registry \<subseteq>\<^sub>m reg"
    using assms
    by induction (auto simp: init_registry_wf intro: Register_wf map_le_trans Register_extends)
  then show ?thesis
    by (auto simp: registry_wf_def Register_Inr is_ok_iff intro: map_upd_triv)
qed

theorem registry_immutable_witness:
  "\<exists>reg. Register init_registry \<lparr>ACode = ''PTS'', Exponent = 0, Kind = Crypto\<rparr> = Inr reg
     \<and> registry_wf reg \<and> init_registry \<subseteq>\<^sub>m reg"
proof -
  have "''PTS'' \<notin> set exp0_codes" "''PTS'' \<notin> set exp2_codes" "''PTS'' \<notin> set exp3_codes"
    "''PTS'' \<notin> set exp4_codes" "''PTS'' \<notin> ACode ` set crypto_assets"
    by code_simp+
  then have "''PTS'' \<notin> dom init_registry"
    unfolding init_registry_def seed_dom builtin_codes by simp
  then have "init_registry ''PTS'' = None" by (simp add: domIff)
  then obtain reg where r: "Register init_registry \<lparr>ACode = ''PTS'', Exponent = 0, Kind = Crypto\<rparr> = Inr reg"
    by (simp add: Register_Inr)
  then have "reachable_registry reg" by (rule reg_step [OF reg_init])
  then show ?thesis using registry_immutable r by blast
qed

end
