(* ===== verification/Money_Alloc.thy ===== *)
theory Money_Alloc
  imports Money_Core
begin

text \<open>
  \<open>platform/money/alloc.go\<close>: dividing an amount by integer ratios in the asset's smallest unit.
  The running total of the ratios is a Go \<open>int\<close> and wraps; the shares are \<open>math/big\<close> integers; the
  loop that hands out the remainder walks the shares cyclically, one unit a step. The main lemmas
  say where the handed-out units land and bound the remainder, from which conservation and fairness
  of \<open>Allocate\<close> and \<open>Split\<close> follow.
\<close>

section \<open>alloc.go\<close>

fun ratio_total :: "int list \<Rightarrow> int \<Rightarrow> (money_error, int) result" where
  "ratio_total [] tot = Inr tot"
| "ratio_total (r # rs) tot =
     (if r < 0 then Inl (withDetail (codeErr CodeInvalidRatio ''Allocate'') (''negative ratio '' @ itoa r))
      else ratio_total rs (wrap64 (tot + r)))"

function hand_out :: "int list \<Rightarrow> nat \<Rightarrow> int \<Rightarrow> int list" where
  "hand_out shares i remainder =
     (if 0 < remainder
      then hand_out (shares[i := shares ! i + 1]) ((i + 1) mod length shares) (remainder - 1)
      else shares)"
  by pat_completeness auto
termination by (relation "measure (\<lambda>(_, _, r). nat r)") auto

declare hand_out.simps [simp del]

definition minor_shares :: "int \<Rightarrow> int list \<Rightarrow> int \<Rightarrow> int list" where
  "minor_shares mag ratios tot =
     (let shares = map (\<lambda>r. big_div (mag * r) tot) ratios
      in hand_out shares 0 (mag - sum_list shares))"

definition Allocate ::
  "'d decimal_ops \<Rightarrow> registry \<Rightarrow> 'd money \<Rightarrow> int list \<Rightarrow> (money_error, 'd money list) result" where
  "Allocate D reg m ratios =
     (if ratios = [] then Inl (withDetail (codeErr CodeInvalidRatio ''Allocate'') ''needs at least one ratio'')
      else case ratio_total ratios 0 of
          Inl err \<Rightarrow> Inl err
        | Inr tot \<Rightarrow>
            if tot = 0 then Inl (withDetail (codeErr CodeInvalidRatio ''Allocate'') ''ratios sum to zero'')
            else (let e = Exponent (Lookup_zero reg (asset m));
                      minor = d_big_int D (d_shift D (amount m) e);
                      shares = minor_shares \<bar>minor\<bar> ratios tot
                  in Inr (map (\<lambda>s. mk_money (d_from_big_int D (if minor < 0 then - s else s) (- e)) (asset m))
                            shares)))"

definition Split :: "'d decimal_ops \<Rightarrow> registry \<Rightarrow> 'd money \<Rightarrow> int \<Rightarrow> (money_error, 'd money list) result" where
  "Split D reg m n =
     (if n \<le> 0 then Inl (withDetail (codeErr CodeInvalidRatio ''Split'') (''needs n > 0, got '' @ itoa n))
      else Allocate D reg m (replicate (nat n) 1))"

section \<open>Lemmas\<close>

lemma ratio_total_ok:
  "list_all (\<lambda>r. 0 \<le> r) rs \<Longrightarrow> 0 \<le> tot \<Longrightarrow> tot + sum_list rs \<le> max_int64 \<Longrightarrow>
     ratio_total rs tot = Inr (tot + sum_list rs)"
proof (induction rs arbitrary: tot)
  case Nil
  then show ?case by simp
next
  case (Cons r rs)
  have "0 \<le> sum_list rs" using Cons.prems by (auto intro: sum_list_nonneg simp: list_all_iff)
  then have "wrap64 (tot + r) = tot + r" using Cons.prems by (intro wrap64_id) (auto simp: max_int64_def)
  then show ?case using Cons by (simp add: add.assoc)
qed

lemma ratio_total_err:
  "ratio_total rs tot = Inl e \<Longrightarrow> Code e = CodeInvalidRatio"
  by (induction rs arbitrary: tot) (auto split: if_splits)

lemma ratio_total_negative:
  "\<exists>r \<in> set rs. r < 0 \<Longrightarrow> \<exists>e. ratio_total rs tot = Inl e"
  by (induction rs arbitrary: tot) auto

lemma length_hand_out [simp]: "length (hand_out shares i r) = length shares"
proof (induction shares i r rule: hand_out.induct)
  case (1 shares i r)
  then show ?case by (subst hand_out.simps) simp
qed

lemma sum_hand_out:
  "i < length shares \<Longrightarrow> 0 \<le> r \<Longrightarrow> sum_list (hand_out shares i r) = sum_list shares + r"
proof (induction shares i r rule: hand_out.induct)
  case (1 shares i r)
  show ?case
  proof (cases "0 < r")
    case True
    have "(i + 1) mod length shares < length shares" using 1(2) by (intro mod_less_divisor) auto
    then have "sum_list (hand_out (shares[i := shares ! i + 1]) ((i + 1) mod length shares) (r - 1))
        = sum_list (shares[i := shares ! i + 1]) + (r - 1)"
      using 1 True by simp
    then show ?thesis
      using True 1(2) by (subst hand_out.simps) (simp add: sum_list_update)
  next
    case False
    then show ?thesis using 1 by (subst hand_out.simps) simp
  qed
qed

text \<open>Starting at position \<open>i\<close> with at most one unit per remaining position, the units go to the
  positions \<open>i, i + 1, ...\<close>, one each.\<close>

lemma hand_out_nth:
  "i + nat r \<le> length shares \<Longrightarrow> j < length shares \<Longrightarrow>
     hand_out shares i r ! j = shares ! j + (if i \<le> j \<and> j < i + nat r then 1 else 0)"
proof (induction shares i r rule: hand_out.induct)
  case (1 shares i r)
  show ?case
  proof (cases "0 < r")
    case False
    then show ?thesis by (subst hand_out.simps) auto
  next
    case True
    let ?s = "shares[i := shares ! i + 1]"
    have i: "i < length shares" and n: "nat r = Suc (nat (r - 1))" using 1(2) True by auto
    show ?thesis
    proof (cases "Suc i < length shares")
      case True
      then have "hand_out ?s (Suc i) (r - 1) ! j
          = ?s ! j + (if Suc i \<le> j \<and> j < Suc i + nat (r - 1) then 1 else 0)"
        using 1 \<open>0 < r\<close> n by simp
      then show ?thesis
        using True \<open>0 < r\<close> n i by (subst hand_out.simps) (auto simp: nth_list_update)
    next
      case False
      then have "nat (r - 1) = 0" "Suc i = length shares" using 1(2) n i by auto
      moreover have "hand_out ?s 0 (r - 1) = ?s"
        using \<open>nat (r - 1) = 0\<close> by (subst hand_out.simps) simp
      ultimately show ?thesis
        using \<open>0 < r\<close> n i 1(3) by (subst hand_out.simps) (auto simp: nth_list_update)
    qed
  qed
qed

text \<open>The remainder after the proportional shares is less than the number of parts.\<close>

lemma floor_shares_sum:
  "0 < T \<Longrightarrow> T * (\<Sum>r\<leftarrow>rs. (x * r) div T) = x * sum_list rs - (\<Sum>r\<leftarrow>rs. (x * r) mod (T :: int))"
  by (induction rs) (simp_all add: algebra_simps minus_mod_eq_mult_div [symmetric])

lemma mod_sum_bound:
  "0 < (T :: int) \<Longrightarrow> rs \<noteq> [] \<Longrightarrow>
     0 \<le> (\<Sum>r\<leftarrow>rs. (x * r) mod T) \<and> (\<Sum>r\<leftarrow>rs. (x * r) mod T) < T * int (length rs)"
proof (induction rs)
  case Nil
  then show ?case by simp
next
  case (Cons r rs)
  then show ?case
    by (cases "rs = []") (auto simp: algebra_simps intro: add_strict_mono add_nonneg_nonneg)
qed

lemma remainder_bounds:
  fixes x :: int
  assumes "0 < sum_list rs" "rs \<noteq> []"
  defines "rem \<equiv> x - (\<Sum>r\<leftarrow>rs. (x * r) div sum_list rs)"
  shows "0 \<le> rem" and "rem < int (length rs)"
proof -
  let ?T = "sum_list rs"
  let ?M = "\<Sum>r\<leftarrow>rs. (x * r) mod ?T"
  have "?T * rem = ?M"
    using floor_shares_sum [OF assms(1), of x rs] by (simp add: rem_def algebra_simps)
  then have "0 \<le> ?T * rem" "?T * rem < ?T * int (length rs)"
    using mod_sum_bound [OF assms(1,2), of x] by simp_all
  then show "0 \<le> rem" "rem < int (length rs)"
    using assms(1) by (simp_all add: zero_le_mult_iff mult_less_cancel_left_pos)
qed

text \<open>The allocation of a magnitude: it conserves it, and part \<open>i\<close> is the proportional share
  rounded down, plus one unit for the parts before the remainder.\<close>

lemma minor_shares_correct:
  fixes x :: int
  assumes "list_all (\<lambda>r. 0 \<le> r) ratios" "0 < sum_list ratios" "ratios \<noteq> []"
  defines "rem \<equiv> x - (\<Sum>r\<leftarrow>ratios. (x * r) div sum_list ratios)"
  shows "sum_list (minor_shares x ratios (sum_list ratios)) = x"
    and "length (minor_shares x ratios (sum_list ratios)) = length ratios"
    and "i < length ratios \<Longrightarrow> minor_shares x ratios (sum_list ratios) ! i
      = (x * ratios ! i) div sum_list ratios + (if int i < rem then 1 else 0)"
proof -
  let ?sh = "map (\<lambda>r. big_div (x * r) (sum_list ratios)) ratios"
  have sh: "?sh = map (\<lambda>r. (x * r) div sum_list ratios) ratios" using assms(2) by simp
  have r: "0 \<le> rem" "rem < int (length ratios)"
    unfolding rem_def using remainder_bounds [OF assms(2,3)] by blast+
  have ms: "minor_shares x ratios (sum_list ratios) = hand_out ?sh 0 rem"
    by (simp add: minor_shares_def Let_def rem_def sh)
  show "sum_list (minor_shares x ratios (sum_list ratios)) = x"
    unfolding ms using r assms(3) by (subst sum_hand_out) (auto simp: rem_def sh)
  show "length (minor_shares x ratios (sum_list ratios)) = length ratios" by (simp add: ms)
  show "i < length ratios \<Longrightarrow> minor_shares x ratios (sum_list ratios) ! i
      = (x * ratios ! i) div sum_list ratios + (if int i < rem then 1 else 0)"
    unfolding ms using r assms(2) by (subst hand_out_nth) auto
qed

lemma Allocate_Inr:
  assumes "list_all (\<lambda>r. 0 \<le> r) ratios" "0 < sum_list ratios" "sum_list ratios \<le> max_int64"
    and "e = Exponent (Lookup_zero reg (asset m))"
    and "minor = d_big_int D (d_shift D (amount m) e)"
  shows "Allocate D reg m ratios =
    Inr (map (\<lambda>s. mk_money (d_from_big_int D (if minor < 0 then - s else s) (- e)) (asset m))
           (minor_shares \<bar>minor\<bar> ratios (sum_list ratios)))"
  using assms ratio_total_ok [of ratios 0] by (auto simp: Allocate_def Let_def)

lemma sum_list_of_int_scale: "(\<Sum>x\<leftarrow>xs. of_int (f x) * c) = of_int (\<Sum>x\<leftarrow>xs. f x) * (c :: rat)"
  by (induction xs) (simp_all add: algebra_simps)

context decimal_lib
begin

lemma allocate_correct:
  fixes reg :: registry and m :: "'d money"
  assumes ok: "list_all (\<lambda>r. 0 \<le> r) ratios" "0 < sum_list ratios" "sum_list ratios \<le> max_int64"
  defines "e \<equiv> Exponent (Lookup_zero reg (asset m))"
  defines "minor \<equiv> rat_trunc (dval (amount m) * 10 powi e)"
  shows "\<exists>parts. Allocate D reg m ratios = Inr parts \<and> length parts = length ratios
    \<and> list_all (\<lambda>p. asset p = asset m) parts
    \<and> (\<Sum>p\<leftarrow>parts. dval (amount p)) = of_int minor * 10 powi (- e)
    \<and> (\<forall>i < length ratios. \<exists>k \<in> {0, 1}. dval (amount (parts ! i))
         = of_int (sgn minor * ((\<bar>minor\<bar> * ratios ! i) div sum_list ratios + k)) * 10 powi (- e))"
proof -
  let ?sh = "minor_shares \<bar>minor\<bar> ratios (sum_list ratios)"
  let ?f = "\<lambda>s. if minor < 0 then - s else s"
  let ?parts = "map (\<lambda>s. mk_money (d_from_big_int D (?f s) (- e)) (asset m)) ?sh"
  have ne: "ratios \<noteq> []" using ok(2) by auto
  note sh = minor_shares_correct [OF ok(1,2) ne, where x = "\<bar>minor\<bar>"]
  have alloc: "Allocate D reg m ratios = Inr ?parts"
    by (rule Allocate_Inr [OF ok]) (simp_all add: e_def minor_def big_int shift)
  have "(\<Sum>p\<leftarrow>?parts. dval (amount p)) = (\<Sum>s\<leftarrow>?sh. of_int (?f s) * 10 powi (- e))"
    by (simp add: comp_def from_big_int)
  also have "\<dots> = of_int (\<Sum>s\<leftarrow>?sh. ?f s) * 10 powi (- e)"
    by (rule sum_list_of_int_scale)
  also have "(\<Sum>s\<leftarrow>?sh. ?f s) = minor"
    using sh(1) sum_list_map_uminus [of "\<lambda>s. s" ?sh] by (cases "minor < 0") simp_all
  finally have total: "(\<Sum>p\<leftarrow>?parts. dval (amount p)) = of_int minor * 10 powi (- e)" .
  have part: "\<exists>k \<in> {0, 1}. dval (amount (?parts ! i))
      = of_int (sgn minor * ((\<bar>minor\<bar> * ratios ! i) div sum_list ratios + k)) * 10 powi (- e)"
    if i: "i < length ratios" for i
  proof -
    define k where "k = ?sh ! i - (\<bar>minor\<bar> * ratios ! i) div sum_list ratios"
    have k: "k \<in> {0, 1 :: int}" "?sh ! i = (\<bar>minor\<bar> * ratios ! i) div sum_list ratios + k"
      unfolding k_def sh(3) [OF i] by simp_all
    have z: "?sh ! i = 0" if "minor = 0"
    proof -
      have "sum_list ?sh = 0" using sh(1) that by simp
      then show ?thesis using sh(3) [OF i] that by simp
    qed
    have "?f (?sh ! i) = sgn minor * (?sh ! i)" using z by (cases "minor = 0") (auto simp: sgn_if)
    then show ?thesis using k i sh(2) by (intro bexI [of _ k]) (simp_all add: from_big_int)
  qed
  show ?thesis
    by (intro exI [of _ ?parts] conjI alloc total allI impI part)
      (simp_all add: sh(2) list_all_iff)
qed

end

section \<open>Properties\<close>

text \<open>C11. Allocation neither creates nor loses money: for non-negative ratios whose sum is positive
  and fits an \<open>int\<close>, \<open>Allocate\<close> returns one part per ratio, all in the asset of the whole, and the
  parts sum exactly to the whole truncated to the asset's smallest unit (to the whole itself when it
  has no sub-unit precision). Part \<open>i\<close> is its proportional share rounded towards zero, or one
  smallest unit more, with the sign of the whole.\<close>

theorem allocate_conserves:
  assumes "decimal_lib D dval"
    and "list_all (\<lambda>r. 0 \<le> r) ratios" and "0 < sum_list ratios" and "sum_list ratios \<le> max_int64"
    and "e = Exponent (Lookup_zero reg (asset m))"
    and "minor = rat_trunc (dval (amount m) * 10 powi e)"
  shows "\<exists>parts. Allocate D reg m ratios = Inr parts \<and> length parts = length ratios
    \<and> list_all (\<lambda>p. asset p = asset m) parts
    \<and> (\<Sum>p\<leftarrow>parts. dval (amount p)) = of_int minor * 10 powi (- e)
    \<and> (dval (amount m) * 10 powi e = of_int minor \<longrightarrow>
         (\<Sum>p\<leftarrow>parts. dval (amount p)) = dval (amount m))
    \<and> (\<forall>i < length ratios. \<exists>k \<in> {0, 1}. dval (amount (parts ! i))
         = of_int (sgn minor * ((\<bar>minor\<bar> * ratios ! i) div sum_list ratios + k)) * 10 powi (- e))"
proof -
  have "dval (amount m) * 10 powi e = of_int minor \<Longrightarrow> of_int minor * 10 powi (- e) = dval (amount m)"
    by (metis mult.assoc mult_1_right powi_cancel(1))
  then show ?thesis
    using decimal_lib.allocate_correct [OF assms(1-4), of reg m] unfolding assms(5,6) by auto
qed

text \<open>The sum of the ratios is not checked for overflow: with ratios \<open>2^63-1, 2^63-1, 3\<close> the
  wrapped total is 1, and allocating one smallest unit returns parts worth \<open>2^64 + 1\<close> of them.\<close>

theorem allocate_overflow_creates_money:
  assumes "decimal_lib D dval"
    and "e = Exponent (Lookup_zero reg (asset m))"
    and "dval (amount m) * 10 powi e = 1"
  shows "\<exists>parts. Allocate D reg m [2 ^ 63 - 1, 2 ^ 63 - 1, 3] = Inr parts
    \<and> (\<Sum>p\<leftarrow>parts. dval (amount p)) = (2 ^ 64 + 1) * dval (amount m)"
proof -
  have minor: "d_big_int D (d_shift D (amount m) e) = 1"
    using assms(3) rat_trunc_of_int [of 1]
    by (simp add: decimal_lib.big_int [OF assms(1)] decimal_lib.shift [OF assms(1)])
  have tot: "ratio_total [2 ^ 63 - 1, 2 ^ 63 - 1, 3] 0 = Inr 1"
    by (simp add: wrap64_def)
  have sh: "minor_shares 1 [2 ^ 63 - 1, 2 ^ 63 - 1, 3] 1 = [2 ^ 63 - 1, 2 ^ 63 - 1, 3]"
    by (simp add: minor_shares_def hand_out.simps)
  have inv: "dval (amount m) = 10 powi (- e)"
    using assms(3) by (metis mult.assoc mult_1 mult_1_right powi_cancel(1))
  show ?thesis
    unfolding Allocate_def Let_def tot using minor sh
    by (simp add: assms(2) [symmetric] decimal_lib.from_big_int [OF assms(1)] inv algebra_simps)
qed

text \<open>\<open>Split\<close> into \<open>n\<close> parts, \<open>n\<close> positive, returns \<open>n\<close> parts that sum to the whole truncated to
  the smallest unit and differ from each other by at most one smallest unit; a non-positive \<open>n\<close> is
  an invalid-ratio error.\<close>

theorem split_even:
  assumes "decimal_lib D dval" and "n \<le> max_int64"
    and "e = Exponent (Lookup_zero reg (asset m))"
  shows "(if n \<le> 0 then \<exists>err. Split D reg m n = Inl err \<and> Code err = CodeInvalidRatio
          else \<exists>parts. Split D reg m n = Inr parts \<and> int (length parts) = n
            \<and> (\<Sum>p\<leftarrow>parts. dval (amount p)) = at_scale rat_trunc e (dval (amount m))
            \<and> (\<forall>i < length parts. \<forall>j < length parts.
                 \<bar>dval (amount (parts ! i)) - dval (amount (parts ! j))\<bar> \<le> 10 powi (- e)))"
proof (cases "n \<le> 0")
  case True
  then show ?thesis by (simp add: Split_def)
next
  case False
  let ?rs = "replicate (nat n) (1 :: int)"
  define minor where "minor = rat_trunc (dval (amount m) * 10 powi e)"
  have rs: "list_all (\<lambda>r. 0 \<le> r) ?rs" "sum_list ?rs = n" "length ?rs = nat n"
    using False by (auto simp: list_all_iff sum_list_replicate)
  obtain parts where p: "Allocate D reg m ?rs = Inr parts" "length parts = nat n"
    "(\<Sum>p\<leftarrow>parts. dval (amount p)) = of_int minor * 10 powi (- e)"
    "\<And>i. i < nat n \<Longrightarrow> \<exists>k \<in> {0, 1}. dval (amount (parts ! i))
         = of_int (sgn minor * (\<bar>minor\<bar> div n + k)) * 10 powi (- e)"
    using decimal_lib.allocate_correct [OF assms(1) rs(1), of reg m] False assms(2)
    by (auto simp: rs(2,3) assms(3) minor_def)
  have "\<bar>dval (amount (parts ! i)) - dval (amount (parts ! j))\<bar> \<le> 10 powi (- e)"
    if ij: "i < nat n" "j < nat n" for i j
  proof -
    obtain k l where k: "k \<in> {0, 1}" "dval (amount (parts ! i)) = of_int (sgn minor * (\<bar>minor\<bar> div n + k)) * 10 powi (- e)"
      and l: "l \<in> {0, 1}" "dval (amount (parts ! j)) = of_int (sgn minor * (\<bar>minor\<bar> div n + l)) * 10 powi (- e)"
      using p(4) [OF ij(1)] p(4) [OF ij(2)] by blast
    have "dval (amount (parts ! i)) - dval (amount (parts ! j)) = of_int (sgn minor * (k - l)) * 10 powi (- e)"
      unfolding k(2) l(2) by (simp add: algebra_simps)
    moreover have "\<bar>of_int (sgn minor * (k - l))\<bar> \<le> (1 :: rat)"
      using k(1) l(1) by (auto simp: sgn_if)
    ultimately show ?thesis by (simp add: abs_mult mult_le_cancel_right1)
  qed
  then show ?thesis
    using False p(1-3) by (simp add: Split_def at_scale_def minor_def)
qed

theorem allocate_conserves_witness:
  "list_all (\<lambda>r. 0 \<le> r) [70, 30, 1 :: int] \<and> (0 :: int) < sum_list [70, 30, 1]
   \<and> (\<exists>parts. Allocate bd_ops init_registry (mk_money (bd_make 1000 (-2)) ''USD'') [70, 30, 1] = Inr parts
        \<and> (\<Sum>p\<leftarrow>parts. bd_val (amount p)) = bd_val (bd_make 1000 (-2)))"
proof -
  have e: "2 = Exponent (Lookup_zero init_registry (asset (mk_money (bd_make 1000 (-2)) ''USD'')))"
    by (simp add: Lookup_zero_def Lookup_def init_registry_USD)
  have v: "bd_val (bd_make 1000 (-2)) * 10 powi 2 = of_int 1000"
    by (simp add: bd_make_val power_int_def power2_eq_square)
  show ?thesis
    using allocate_conserves [OF bd.decimal_lib_axioms _ _ _ e refl, of "[70, 30, 1]"] v rat_trunc_of_int [of 1000]
    by (auto simp: max_int64_def)
qed

theorem allocate_overflow_creates_money_witness:
  "\<exists>parts. Allocate bd_ops init_registry (mk_money (bd_make 1 (-2)) ''USD'') [2 ^ 63 - 1, 2 ^ 63 - 1, 3] = Inr parts
     \<and> (\<Sum>p\<leftarrow>parts. bd_val (amount p)) = (2 ^ 64 + 1) * bd_val (bd_make 1 (-2))"
proof -
  have e: "2 = Exponent (Lookup_zero init_registry (asset (mk_money (bd_make 1 (-2)) ''USD'')))"
    by (simp add: Lookup_zero_def Lookup_def init_registry_USD)
  have v: "bd_val (amount (mk_money (bd_make 1 (-2)) ''USD'')) * 10 powi 2 = 1"
    by (simp add: bd_make_val power_int_def power2_eq_square)
  show ?thesis
    using allocate_overflow_creates_money [OF bd.decimal_lib_axioms e v] by simp
qed

theorem split_even_witness:
  "\<exists>parts. Split bd_ops init_registry (mk_money (bd_make 1000 (-2)) ''USD'') 3 = Inr parts
     \<and> int (length parts) = 3
     \<and> (\<forall>i < length parts. \<forall>j < length parts.
          \<bar>bd_val (amount (parts ! i)) - bd_val (amount (parts ! j))\<bar> \<le> 10 powi (-2))"
proof -
  have e: "2 = Exponent (Lookup_zero init_registry (asset (mk_money (bd_make 1000 (-2)) ''USD'')))"
    by (simp add: Lookup_zero_def Lookup_def init_registry_USD)
  show ?thesis
    using split_even [OF bd.decimal_lib_axioms _ e, of 3] by (auto simp: max_int64_def)
qed

end
