(* ===== verification/Money_Codec.thy ===== *)
theory Money_Codec
  imports Money_Core
begin

text \<open>
  The edges of \<open>platform/money\<close>: validation rules (\<open>validate.go\<close>), the nullable wrapper
  (\<open>null.go\<close>), the database scan (\<open>sql.go\<close>), the text and protobuf forms (\<open>text.go\<close>, \<open>proto.go\<close>)
  and display formatting (\<open>format.go\<close>). A \<open>Rule\<close> is a function to an optional error. A protobuf
  message is the pair of its two string fields. \<open>Decimal.Scan\<close> belongs to the decimal package and is
  the argument \<open>scan\<close>.
\<close>

section \<open>validate.go\<close>

type_synonym 'd rule = "'d money \<Rightarrow> money_error option"

fun Validate :: "'d money \<Rightarrow> 'd rule list \<Rightarrow> money_error option" where
  "Validate m [] = None"
| "Validate m (r # rules) = (case r m of Some e \<Rightarrow> Some e | None \<Rightarrow> Validate m rules)"

definition Positive :: "'d decimal_ops \<Rightarrow> 'd rule" where
  "Positive D m =
     (if 0 < money_Sign D m then None
      else Some (withDetail (codeErr CodeOutOfRange ''Validate.Positive'') ''must be > 0''))"

definition NonNegative :: "'d decimal_ops \<Rightarrow> 'd rule" where
  "NonNegative D m =
     (if 0 \<le> money_Sign D m then None
      else Some (withDetail (codeErr CodeOutOfRange ''Validate.NonNegative'') ''must be >= 0''))"

definition NonZero :: "'d decimal_ops \<Rightarrow> 'd rule" where
  "NonZero D m =
     (if \<not> money_IsZero D m then None
      else Some (withDetail (codeErr CodeInvalidAmount ''Validate.NonZero'') ''must be non-zero''))"

definition Min_rule :: "'d decimal_ops \<Rightarrow> 'd money \<Rightarrow> 'd rule" where
  "Min_rule D lo m =
     (case money_Cmp D m lo of
        Inl err \<Rightarrow> Some err
      | Inr c \<Rightarrow>
          if 0 \<le> c then None
          else Some (withDetail (withAsset (codeErr CodeOutOfRange ''Validate.Min'') (asset m))
                       (''must be >= '' @ d_to_string D (amount lo))))"

definition Max_rule :: "'d decimal_ops \<Rightarrow> 'd money \<Rightarrow> 'd rule" where
  "Max_rule D hi m =
     (case money_Cmp D m hi of
        Inl err \<Rightarrow> Some err
      | Inr c \<Rightarrow>
          if c \<le> 0 then None
          else Some (withDetail (withAsset (codeErr CodeOutOfRange ''Validate.Max'') (asset m))
                       (''must be <= '' @ d_to_string D (amount hi))))"

definition Between :: "'d decimal_ops \<Rightarrow> 'd money \<Rightarrow> 'd money \<Rightarrow> 'd rule" where
  "Between D lo hi m =
     (case Min_rule D lo m of
        Some e \<Rightarrow> Some (e\<lparr>Op := ''Validate.Between''\<rparr>)
      | None \<Rightarrow>
          (case Max_rule D hi m of
             Some e \<Rightarrow> Some (e\<lparr>Op := ''Validate.Between''\<rparr>)
           | None \<Rightarrow> None))"

definition scaleOf :: "'d decimal_ops \<Rightarrow> 'd money \<Rightarrow> int" where
  "scaleOf D m = (let e = d_exponent D (amount m) in if e < 0 then wrap32 (- e) else 0)"

definition scaleAtMost :: "'d decimal_ops \<Rightarrow> 'd money \<Rightarrow> int \<Rightarrow> string \<Rightarrow> money_error option" where
  "scaleAtMost D m n op =
     (let s = scaleOf D m
      in if n < s
         then Some (withDetail (withAsset (codeErr CodeScaleExceeded op) (asset m))
                      (''scale '' @ itoa s @ '' exceeds max '' @ itoa n))
         else None)"

definition MaxScale :: "'d decimal_ops \<Rightarrow> registry \<Rightarrow> 'd rule" where
  "MaxScale D reg m =
     (case Lookup reg (asset m) of
        None \<Rightarrow> Some (withAsset (codeErr CodeUnknownAsset ''Validate.MaxScale'') (asset m))
      | Some a \<Rightarrow> scaleAtMost D m (Exponent a) ''Validate.MaxScale'')"

definition ScaleAtMost :: "'d decimal_ops \<Rightarrow> int \<Rightarrow> 'd rule" where
  "ScaleAtMost D n m = scaleAtMost D m n ''Validate.ScaleAtMost''"

definition AllowedAssets :: "string list \<Rightarrow> 'd rule" where
  "AllowedAssets codes m =
     (if list_ex (\<lambda>c. asset m = c) codes then None
      else Some (withAsset (codeErr CodeAssetNotAllowed ''Validate.AllowedAssets'') (asset m)))"

definition MultipleOf :: "'d decimal_ops \<Rightarrow> 'd money \<Rightarrow> 'd rule" where
  "MultipleOf D step m =
     (case sameAsset m step of
        Some err \<Rightarrow> Some err
      | None \<Rightarrow>
          if d_is_zero D (amount step)
          then Some (withDetail (withAsset (codeErr CodeInvalidAmount ''Validate.MultipleOf'') (asset m))
                       ''step must be non-zero'')
          else if \<not> d_is_zero D (d_mod D (amount m) (amount step))
          then Some (withDetail (withAsset (codeErr CodeNotMultiple ''Validate.MultipleOf'') (asset m))
                       (''must be a multiple of '' @ d_to_string D (amount step)))
          else None)"

section \<open>sql.go and null.go\<close>

definition ScanRow ::
  "'d decimal_ops \<Rightarrow> registry \<Rightarrow> ('v \<Rightarrow> (string, 'd) result) \<Rightarrow> 'v \<Rightarrow> string \<Rightarrow> (money_error, 'd money) result" where
  "ScanRow D reg scan amountSrc assetSrc =
     (case Lookup reg assetSrc of
        None \<Rightarrow> Inl (withAsset (codeErr CodeUnknownAsset ''ScanRow'') assetSrc)
      | Some _ \<Rightarrow>
          (case scan amountSrc of
             Inl err \<Rightarrow> Inl (wrap_cause (codeErr CodeParseFailed ''ScanRow'') err)
           | Inr d \<Rightarrow>
               (case guardMagnitude D d ''ScanRow'' of
                  Some err \<Rightarrow> Inl err
                | None \<Rightarrow> Inr (mk_money d assetSrc))))"

record 'd null_money =
  NMoney :: "'d money"
  Valid :: bool

definition ValidMoney :: "'d money \<Rightarrow> 'd null_money" where
  "ValidMoney m = \<lparr>NMoney = m, Valid = True\<rparr>"

definition absent_money :: "'d decimal_ops \<Rightarrow> 'd null_money" where
  "absent_money D = \<lparr>NMoney = zero_money D, Valid = False\<rparr>"

definition NullMoney_Get :: "'d null_money \<Rightarrow> 'd money \<times> bool" where
  "NullMoney_Get n = (NMoney n, Valid n)"

definition NullMoney_Or :: "'d null_money \<Rightarrow> 'd money \<Rightarrow> 'd money" where
  "NullMoney_Or n def = (if Valid n then NMoney n else def)"

text \<open>The values of a column: SQL NULL, text, or any other driver value.\<close>

datatype 'v column = ColNull | ColText string | ColOther 'v

definition AmountValue :: "'d null_money \<Rightarrow> 'd column" where
  "AmountValue n = (if \<not> Valid n then ColNull else ColOther (amount (NMoney n)))"

definition AssetValue :: "'d null_money \<Rightarrow> 'd column" where
  "AssetValue n = (if \<not> Valid n then ColNull else ColText (asset (NMoney n)))"

definition ScanNullRow ::
  "'d decimal_ops \<Rightarrow> registry \<Rightarrow> ('v column \<Rightarrow> (string, 'd) result) \<Rightarrow> 'v column \<Rightarrow> 'v column
     \<Rightarrow> (money_error, 'd null_money) result" where
  "ScanNullRow D reg scan amountSrc assetSrc =
     (let amountNull = (amountSrc = ColNull); assetNull = (assetSrc = ColNull)
      in if amountNull \<and> assetNull then Inr (absent_money D)
         else if amountNull \<noteq> assetNull
         then Inl (withDetail (codeErr CodeInvalidAmount ''ScanNullRow'')
                     ''half-null row: amount and asset must both be null or both be set'')
         else case assetSrc of
             ColText ast \<Rightarrow>
               (case ScanRow D reg scan amountSrc ast of
                  Inl err \<Rightarrow> Inl err
                | Inr m \<Rightarrow> Inr \<lparr>NMoney = m, Valid = True\<rparr>)
           | _ \<Rightarrow> Inl (withDetail (codeErr CodeParseFailed ''ScanNullRow'') ''asset column is not text''))"

section \<open>text.go and proto.go\<close>

definition MarshalText :: "'d decimal_ops \<Rightarrow> 'd money \<Rightarrow> string" where
  "MarshalText D m = d_to_string D (amount m) @ '' '' @ asset m"

definition UnmarshalText :: "'d decimal_ops \<Rightarrow> registry \<Rightarrow> string \<Rightarrow> (money_error, 'd money) result" where
  "UnmarshalText D reg s =
     (case last_index_byte s CHR '' '' of
        None \<Rightarrow> Inl (withDetail (codeErr CodeParseFailed ''UnmarshalText'')
                       (''bad text '' @ s @ '', want '' @ [CHR 0x22] @ ''<amount> <asset>'' @ [CHR 0x22]))
      | Some i \<Rightarrow> Parse D reg (take i s) (drop (i + 1) s))"

type_synonym proto_money = "string \<times> string"

definition ToProto :: "'d decimal_ops \<Rightarrow> 'd money \<Rightarrow> proto_money" where
  "ToProto D m = (d_to_string D (amount m), asset m)"

definition FromProto :: "'d decimal_ops \<Rightarrow> registry \<Rightarrow> proto_money option \<Rightarrow> (money_error option, 'd money) result" where
  "FromProto D reg pb =
     (case pb of
        None \<Rightarrow> Inl None
      | Some (am, ast) \<Rightarrow> map_sum Some id (Parse D reg am ast))"

section \<open>format.go\<close>

datatype position = SymbolNone | SymbolPrefix | SymbolSuffix
datatype negative_style = NegMinus | NegParens
datatype scale_mode = ScaleAsset | ScaleFull | ScaleFixed

record format_options =
  DecimalSep :: string
  GroupSep :: string
  GroupSize :: int
  Symbol :: string
  SymbolPos :: position
  UseCode :: bool
  Negative :: negative_style
  Scale :: scale_mode
  FixedScale :: int

definition US :: format_options where
  "US = \<lparr>DecimalSep = ''.'', GroupSep = '','', GroupSize = 3, Symbol = [], SymbolPos = SymbolPrefix,
     UseCode = False, Negative = NegMinus, Scale = ScaleAsset, FixedScale = 0\<rparr>"

definition EU :: format_options where
  "EU = \<lparr>DecimalSep = '','', GroupSep = ''.'', GroupSize = 3, Symbol = [], SymbolPos = SymbolSuffix,
     UseCode = False, Negative = NegMinus, Scale = ScaleAsset, FixedScale = 0\<rparr>"

definition RU :: format_options where
  "RU = \<lparr>DecimalSep = '','', GroupSep = '' '', GroupSize = 3, Symbol = [], SymbolPos = SymbolSuffix,
     UseCode = False, Negative = NegMinus, Scale = ScaleAsset, FixedScale = 0\<rparr>"

definition CryptoFmt :: format_options where
  "CryptoFmt = \<lparr>DecimalSep = ''.'', GroupSep = [], GroupSize = 0, Symbol = [], SymbolPos = SymbolNone,
     UseCode = True, Negative = NegMinus, Scale = ScaleFull, FixedScale = 0\<rparr>"

text \<open>The symbols are the UTF-8 bytes of the dollar, euro, pound, yen and rouble signs.\<close>

definition symbolFor :: "string \<Rightarrow> string" where
  "symbolFor ast =
     (if ast = ''USD'' then ''$''
      else if ast = ''EUR'' then [CHR 0xE2, CHR 0x82, CHR 0xAC]
      else if ast = ''GBP'' then [CHR 0xC2, CHR 0xA3]
      else if ast = ''JPY'' then [CHR 0xC2, CHR 0xA5]
      else if ast = ''RUB'' then [CHR 0xE2, CHR 0x82, CHR 0xBD]
      else [])"

text \<open>The loop of \<open>groupDigits\<close>: \<open>s\<close> is the rest of the digits, taken \<open>sz\<close> at a time.\<close>

function group_loop :: "string \<Rightarrow> string \<Rightarrow> nat \<Rightarrow> string" where
  "group_loop s sep sz =
     (if s = [] \<or> sz = 0 then [] else sep @ take sz s @ group_loop (drop sz s) sep sz)"
  by pat_completeness auto
termination by (relation "measure (\<lambda>(s, _, _). length s)") auto

declare group_loop.simps [simp del]

definition groupDigits :: "string \<Rightarrow> string \<Rightarrow> int \<Rightarrow> string" where
  "groupDigits intPart sep sz =
     (if sep = [] \<or> sz \<le> 0 \<or> int (length intPart) \<le> sz then intPart
      else (let n = length intPart; k = nat sz;
                first = (if n mod k = 0 then k else n mod k)
            in take first intPart @ group_loop (drop first intPart) sep k))"

definition display_value :: "'d decimal_ops \<Rightarrow> registry \<Rightarrow> 'd money \<Rightarrow> format_options \<Rightarrow> 'd" where
  "display_value D reg m o' =
     (case Scale o' of
        ScaleAsset \<Rightarrow> mode_apply D HalfEven (amount m) (Exponent (Lookup_zero reg (asset m)))
      | ScaleFixed \<Rightarrow> mode_apply D HalfEven (amount m) (FixedScale o')
      | ScaleFull \<Rightarrow> amount m)"

definition target_scale :: "registry \<Rightarrow> 'd money \<Rightarrow> format_options \<Rightarrow> int" where
  "target_scale reg m o' =
     (case Scale o' of
        ScaleAsset \<Rightarrow> Exponent (Lookup_zero reg (asset m))
      | ScaleFixed \<Rightarrow> FixedScale o'
      | ScaleFull \<Rightarrow> -1)"

definition format_number :: "'d decimal_ops \<Rightarrow> registry \<Rightarrow> 'd money \<Rightarrow> format_options \<Rightarrow> string" where
  "format_number D reg m o' =
     (let txt = d_to_string D (display_value D reg m o');
          mag = (if has_prefix txt ''-'' then drop 1 txt else txt)
      in case str_cut mag CHR ''.'' of (intPart, fracPart, _) \<Rightarrow>
        (let t = target_scale reg m o';
             frac = (if 0 < t \<and> int (length fracPart) < t
                     then fracPart @ replicate (nat t - length fracPart) CHR ''0'' else fracPart)
         in groupDigits intPart (GroupSep o') (GroupSize o') @
            (if frac \<noteq> [] then DecimalSep o' @ frac else [])))"

definition Format :: "'d decimal_ops \<Rightarrow> registry \<Rightarrow> 'd money \<Rightarrow> format_options \<Rightarrow> string" where
  "Format D reg m o' =
     (let num = format_number D reg m o';
          sym = (if Symbol o' = [] then symbolFor (asset m) else Symbol o');
          body = (case SymbolPos o' of
                    SymbolPrefix \<Rightarrow> sym @ num
                  | SymbolSuffix \<Rightarrow> num @ (if sym \<noteq> [] then '' '' @ sym else [])
                  | SymbolNone \<Rightarrow> num);
          token = body @ (if UseCode o' then '' '' @ asset m else [])
      in if has_prefix (d_to_string D (display_value D reg m o')) ''-''
         then (case Negative o' of NegParens \<Rightarrow> ''('' @ token @ '')'' | NegMinus \<Rightarrow> ''-'' @ token)
         else token)"

section \<open>Lemmas\<close>

text \<open>Removing the separators from grouped digits gives the digits back.\<close>

lemma group_loop_strip:
  "c \<notin> set s \<Longrightarrow> 0 < sz \<Longrightarrow> filter (\<lambda>x. x \<noteq> c) (group_loop s [c] sz) = s"
proof (induction s "[c]" sz rule: group_loop.induct)
  case (1 s sz)
  have keep: "filter (\<lambda>x. x \<noteq> c) (take sz s) = take sz s"
    using 1(2) by (auto intro!: filter_True dest: in_set_takeD)
  have "c \<notin> set (drop sz s)" using 1(2) by (auto dest: in_set_dropD)
  then show ?case
    using 1 keep by (subst group_loop.simps) auto
qed

lemma groupDigits_strip:
  assumes "c \<notin> set s"
  shows "filter (\<lambda>x. x \<noteq> c) (groupDigits s [c] sz) = s"
proof -
  have keep: "filter (\<lambda>x. x \<noteq> c) t = t" if "c \<notin> set t" for t
    using that by (auto intro!: filter_True)
  define f where "f = (if length s mod nat sz = 0 then nat sz else length s mod nat sz)"
  have "c \<notin> set (take f s)" "c \<notin> set (drop f s)"
    using assms by (auto dest: in_set_takeD in_set_dropD)
  then show ?thesis
    using assms by (auto simp: groupDigits_def Let_def f_def [symmetric] group_loop_strip keep)
qed

context decimal_lib
begin

text \<open>An amount whose exponent passes \<open>MaxScale\<close> is a whole number of smallest units.\<close>

lemma scale_bound_exact:
  assumes "- d_exponent D (amount m) \<le> n" "0 \<le> n"
  shows "\<exists>i. dval (amount m) * 10 powi n = of_int i"
proof -
  obtain c where c: "dval (amount m) = of_int c * 10 powi (d_exponent D (amount m))"
    using coefficient by blast
  have "(10 :: rat) powi (d_exponent D (amount m)) * 10 powi n = 10 powi (d_exponent D (amount m) + n)"
    by (rule power_int_add [symmetric]) simp
  also have "\<dots> = of_int (10 ^ nat (d_exponent D (amount m) + n))"
    using assms by (simp add: power_int_def)
  finally have "dval (amount m) * 10 powi n = of_int (c * 10 ^ nat (d_exponent D (amount m) + n))"
    by (simp add: c mult.assoc)
  then show ?thesis by (rule exI)
qed

lemma mod_zero_iff:
  assumes "dval y \<noteq> 0"
  shows "dval (d_mod D x y) = 0 \<longleftrightarrow> (\<exists>k :: int. dval x = of_int k * dval y)"
proof
  assume "dval (d_mod D x y) = 0"
  then show "\<exists>k :: int. dval x = of_int k * dval y"
    using mod_rem [OF assms, of x] by (intro exI [of _ "rat_trunc (dval x / dval y)"]) (simp add: mult.commute)
next
  assume "\<exists>k :: int. dval x = of_int k * dval y"
  then show "dval (d_mod D x y) = 0"
    using mod_rem [OF assms, of x] assms by auto
qed

text \<open>The text of an amount whose printed form stays within the parse bounds is read back to an
  equal amount.\<close>

lemma parse_printed:
  assumes "reg ast = Some a" "dec_parts ip fp (d_to_string D d) (dval d)"
    and "length ip + length fp \<le> 1000" "length fp \<le> 256"
  shows "\<exists>m. Parse D reg (d_to_string D d) ast = Inr m \<and> asset m = ast \<and> dval (amount m) = dval d"
proof -
  obtain x where "d_from_string D (d_to_string D d) = Inr x" "dval x = dval d"
    "d_exponent D x = - int (length fp)" "d_num_digits D x \<le> int (length ip + length fp)"
    using from_string [OF assms(2)] by blast
  then show ?thesis using assms by (auto simp: Parse_Inr guardMagnitude_None)
qed

end

section \<open>Properties\<close>

text \<open>The scale rule is what exact minor units need: an amount that passes \<open>MaxScale\<close> (with an
  exponent in the \<open>int32\<close> range) is never rejected by \<open>Minor\<close> and has no sub-minor precision, and the
  integer \<open>Minor\<close> returns is exactly the amount in smallest units.\<close>

theorem max_scale_minor_exact:
  assumes "decimal_lib D dval" and "registry_wf reg"
    and "- (2 ^ 31) < d_exponent D (amount m)" and "d_exponent D (amount m) < 2 ^ 31"
    and "MaxScale D reg m = None"
  shows "\<exists>a i. reg (asset m) = Some a \<and> Minor D reg m = Inr i \<and> \<not> HasSubMinor D reg m
    \<and> of_int i = dval (amount m) * 10 powi (Exponent a)"
proof -
  obtain a where a: "reg (asset m) = Some a" "scaleOf D m \<le> Exponent a"
    using assms(5) by (auto simp: MaxScale_def Lookup_def scaleAtMost_def Let_def split: option.splits if_splits)
  have "0 \<le> Exponent a" using assms(2) a(1) by (auto simp: registry_wf_def)
  moreover have "- d_exponent D (amount m) \<le> scaleOf D m"
    using assms(3,4) by (auto simp: scaleOf_def Let_def)
  ultimately obtain i where i: "dval (amount m) * 10 powi (Exponent a) = of_int i"
    using decimal_lib.scale_bound_exact [OF assms(1), of m "Exponent a"] a(2) by auto
  then have "Minor D reg m = Inr i" using decimal_lib.minor_value [where reg = reg and m = m, OF assms(1) a(1)] by blast
  moreover from this have "\<not> HasSubMinor D reg m"
    using a(1) by (auto simp: Minor_def HasSubMinor_def Lookup_def Let_def split: if_splits)
  ultimately show ?thesis using a(1) i by (intro exI [of _ a] exI [of _ i]) simp
qed

theorem max_scale_minor_exact_witness:
  "MaxScale bd_ops init_registry (mk_money (bd_make 1995 (-2)) ''USD'') = None
   \<and> (\<exists>i. Minor bd_ops init_registry (mk_money (bd_make 1995 (-2)) ''USD'') = Inr i)"
proof -
  let ?m = "mk_money (bd_make 1995 (-2)) ''USD''"
  have ok: "MaxScale bd_ops init_registry ?m = None"
    by (simp add: MaxScale_def Lookup_def init_registry_USD scaleAtMost_def scaleOf_def bd_ops_def)
  have "- (2 ^ 31) < d_exponent bd_ops (amount ?m)" "d_exponent bd_ops (amount ?m) < 2 ^ 31"
    by (simp_all add: bd_ops_def)
  from max_scale_minor_exact [OF bd.decimal_lib_axioms init_registry_wf this ok] ok
  show ?thesis by blast
qed

text \<open>\<open>MultipleOf\<close> decides divisibility: it passes exactly when the amount is in the asset of the
  step, the step is not zero and the amount is an integer number of steps.\<close>

theorem multiple_of_correct:
  assumes "decimal_lib D dval"
  shows "MultipleOf D step m = None \<longleftrightarrow>
    asset m \<noteq> [] \<and> asset step = asset m \<and> dval (amount step) \<noteq> 0
    \<and> (\<exists>k :: int. dval (amount m) = of_int k * dval (amount step))"
proof (cases "sameAsset m step")
  case None
  have "MultipleOf D step m = None \<longleftrightarrow>
      dval (amount step) \<noteq> 0 \<and> dval (d_mod D (amount m) (amount step)) = 0"
    unfolding MultipleOf_def None by (simp add: decimal_lib.is_zero [OF assms])
  then show ?thesis
    using None decimal_lib.mod_zero_iff [OF assms, of "amount step" "amount m"] by auto
next
  case (Some e)
  then have "\<not> (asset m \<noteq> [] \<and> asset step = asset m)"
    by (metis option.distinct(1) sameAsset_None)
  with Some show ?thesis by (auto simp: MultipleOf_def)
qed

theorem multiple_of_correct_witness:
  "MultipleOf bd_ops (mk_money (bd_make 5 (-2)) ''CHF'') (mk_money (bd_make 135 (-2)) ''CHF'') = None"
proof -
  have "bd_val (bd_make 135 (-2)) = of_int 27 * bd_val (bd_make 5 (-2))"
    by (simp add: bd_make_val)
  then show ?thesis
    using multiple_of_correct [OF bd.decimal_lib_axioms,
        of "mk_money (bd_make 5 (-2)) ''CHF''" "mk_money (bd_make 135 (-2)) ''CHF''"]
    by (auto simp: bd_make_val)
qed

text \<open>C39. Text and protobuf forms are lossless: money in a registered asset whose code has no space,
  printed by \<open>MarshalText\<close> or \<open>ToProto\<close>, is read back as equal money, for every amount whose decimal
  text has at most 1000 digits, 256 of them fractional.\<close>

theorem codec_roundtrip:
  assumes "decimal_lib D dval" and "reg (asset m) = Some a" and "CHR '' '' \<notin> set (asset m)"
    and "dec_parts ip fp (d_to_string D (amount m)) (dval (amount m))"
    and "length ip + length fp \<le> 1000" and "length fp \<le> 256"
  shows "\<exists>n. UnmarshalText D reg (MarshalText D m) = Inr n
    \<and> FromProto D reg (Some (ToProto D m)) = Inr n \<and> money_Equal D n m"
proof -
  obtain n where n: "Parse D reg (d_to_string D (amount m)) (asset m) = Inr n"
    "asset n = asset m" "dval (amount n) = dval (amount m)"
    using decimal_lib.parse_printed [where reg = reg and ast = "asset m", OF assms(1,2,4,5,6)] by blast
  have "last_index_byte (MarshalText D m) CHR '' '' = Some (length (d_to_string D (amount m)))"
    using last_index_byte_append [OF assms(3)] by (simp add: MarshalText_def)
  then have "UnmarshalText D reg (MarshalText D m) = Inr n"
    using n(1) by (simp add: UnmarshalText_def MarshalText_def)
  moreover have "FromProto D reg (Some (ToProto D m)) = Inr n"
    using n(1) by (simp add: FromProto_def ToProto_def)
  ultimately show ?thesis
    using n by (auto simp: money_Equal_def decimal_lib.equal_val [OF assms(1)])
qed

theorem codec_roundtrip_witness:
  "\<exists>n. UnmarshalText bd_ops init_registry (MarshalText bd_ops (mk_money (bd_make (-1250) (-2)) ''USD'')) = Inr n
     \<and> money_Equal bd_ops n (mk_money (bd_make (-1250) (-2)) ''USD'')"
proof -
  let ?m = "mk_money (bd_make (-1250) (-2)) ''USD''"
  have t: "d_to_string bd_ops (bd_make (-1250) (-2)) = ''-12.5''" by code_simp
  have parts: "dec_parts ''12'' ''5'' (d_to_string bd_ops (amount ?m)) (bd_val (amount ?m))"
    by (simp add: t dec_parts_def bd_make_val power_int_def power2_eq_square is_digit_def text_nat_def digit_val_def)
  have reg: "init_registry (asset ?m) = Some \<lparr>ACode = ''USD'', Exponent = 2, Kind = Fiat\<rparr>"
    by (simp add: init_registry_USD)
  show ?thesis
    using codec_roundtrip [where reg = init_registry and m = ?m, OF bd.decimal_lib_axioms reg _ parts]
    by auto
qed

text \<open>Grouping is presentation only: whatever the group size, deleting the one-character
  separator from the grouped digits gives the digits back, when the separator is not itself one of
  them.\<close>

theorem group_digits_lossless:
  assumes "list_all is_digit s" and "\<not> is_digit c"
  shows "filter (\<lambda>x. x \<noteq> c) (groupDigits s [c] sz) = s"
  using assms by (intro groupDigits_strip digits_no_char)

theorem group_digits_lossless_witness:
  "groupDigits ''1234567'' '','' 3 = ''1,234,567''
   \<and> filter (\<lambda>x. x \<noteq> CHR '','') (groupDigits ''1234567'' '','' 3) = ''1234567''"
  using group_digits_lossless [of "''1234567''" "CHR '',''" 3]
  by (simp add: is_digit_def) code_simp

text \<open>Nullable columns: what \<open>AmountValue\<close> and \<open>AssetValue\<close> write, \<open>ScanNullRow\<close> reads back, for
  an absent amount and for every present one within the parse bounds in a registered asset, given a
  scan that accepts the driver's decimals; and a row with exactly one NULL column is never
  accepted.\<close>

theorem null_row_roundtrip:
  assumes "\<And>d. scan (ColOther d) = Inr d"
    and "Valid n \<Longrightarrow> reg (asset (NMoney n)) \<noteq> None \<and> guardMagnitude D (amount (NMoney n)) ''ScanRow'' = None"
    and "(am = ColNull) \<noteq> (as = ColNull)"
  shows "(\<exists>n'. ScanNullRow D reg scan (AmountValue n) (AssetValue n) = Inr n'
           \<and> Valid n' = Valid n \<and> (Valid n \<longrightarrow> n' = n))
    \<and> \<not> is_ok (ScanNullRow D reg scan am as)"
proof -
  have "ScanNullRow D reg scan (AmountValue n) (AssetValue n) = Inr n" if v: "Valid n"
  proof -
    obtain a where "reg (asset (NMoney n)) = Some a" using assms(2) [OF v] by auto
    then have "ScanRow D reg scan (ColOther (amount (NMoney n))) (asset (NMoney n)) = Inr (NMoney n)"
      using assms(1) assms(2) [OF v] by (simp add: ScanRow_def Lookup_def mk_money_def)
    then show ?thesis using v by (simp add: ScanNullRow_def AmountValue_def AssetValue_def)
  qed
  moreover have "\<not> Valid n \<Longrightarrow> ScanNullRow D reg scan (AmountValue n) (AssetValue n) = Inr (absent_money D)"
    by (simp add: ScanNullRow_def AmountValue_def AssetValue_def)
  moreover have "\<not> is_ok (ScanNullRow D reg scan am as)"
    using assms(3) by (auto simp: ScanNullRow_def)
  ultimately show ?thesis by (cases "Valid n") (auto simp: absent_money_def)
qed

theorem null_row_roundtrip_witness:
  "\<exists>n'. ScanNullRow bd_ops init_registry (\<lambda>c. case c of ColOther d \<Rightarrow> Inr d | _ \<Rightarrow> Inl ''unsupported'')
       (AmountValue (ValidMoney (mk_money (bd_make 5 0) ''USD'')))
       (AssetValue (ValidMoney (mk_money (bd_make 5 0) ''USD''))) = Inr n' \<and> Valid n'"
proof -
  have g: "guardMagnitude bd_ops (bd_make 5 0) ''ScanRow'' = None" by code_simp
  show ?thesis
    using null_row_roundtrip [of "\<lambda>c. case c of ColOther d \<Rightarrow> Inr d | _ \<Rightarrow> Inl ''unsupported''"
        "ValidMoney (mk_money (bd_make 5 0) ''USD'')" init_registry bd_ops ColNull "ColText []"]
    by (auto simp: ValidMoney_def init_registry_USD g)
qed

end
