(* ===== verification/Pg_Tx.thy ===== *)
theory Pg_Tx
  imports Go_Prelude
begin

text \<open>
  \<open>platform/storage/pg/tx.go\<close>: the unit of work. A database function maps a database state to a state
  and an optional error; \<open>RunInTx\<close> keeps its state only when the function returned nil and the commit
  succeeded. The outcomes of \<open>Begin\<close> and \<open>Commit\<close> are the driver's, so they are arguments. A nested
  call runs on a savepoint of the same transaction and has the same effect on the state it is
  given.
\<close>

definition RunInTx :: "'e option \<Rightarrow> 'e option \<Rightarrow> ('s \<Rightarrow> 's \<times> 'e option) \<Rightarrow> 's \<Rightarrow> 's \<times> 'e option" where
  "RunInTx begin_err commit_err fn s =
     (case begin_err of
        Some e \<Rightarrow> (s, Some e)
      | None \<Rightarrow>
          (case fn s of
             (_, Some e) \<Rightarrow> (s, Some e)
           | (s', None) \<Rightarrow> (case commit_err of Some e \<Rightarrow> (s, Some e) | None \<Rightarrow> (s', None))))"

lemma RunInTx_None:
  "RunInTx b c fn s = (s', None) \<longleftrightarrow> b = None \<and> c = None \<and> fn s = (s', None)"
  by (auto simp: RunInTx_def split: option.splits prod.splits)

lemma RunInTx_Some: "RunInTx b c fn s = (s', Some e) \<Longrightarrow> s' = s"
  by (auto simp: RunInTx_def split: option.splits prod.splits)

lemma RunInTx_fst: "fst (RunInTx b c fn s) = s \<or> fst (RunInTx b c fn s) = fst (fn s)"
  by (auto simp: RunInTx_def split: option.splits prod.splits)

lemma RunInTx_no_fault:
  "RunInTx None None fn s = (case fn s of (s', None) \<Rightarrow> (s', None) | (_, Some e) \<Rightarrow> (s, Some e))"
  by (auto simp: RunInTx_def split: option.splits prod.splits)

text \<open>The function may also write Go variables it captured: those keep what was written, whether or not
  the transaction commits.\<close>

definition RunInTx_mem ::
  "'e option \<Rightarrow> 'e option \<Rightarrow> ('s \<Rightarrow> 'c \<Rightarrow> 's \<times> 'c \<times> 'e option) \<Rightarrow> 's \<Rightarrow> 'c \<Rightarrow> 's \<times> 'c \<times> 'e option" where
  "RunInTx_mem begin_err commit_err fn s c =
     (case begin_err of
        Some e \<Rightarrow> (s, c, Some e)
      | None \<Rightarrow>
          (case fn s c of
             (_, c', Some e) \<Rightarrow> (s, c', Some e)
           | (s', c', None) \<Rightarrow> (case commit_err of Some e \<Rightarrow> (s, c', Some e) | None \<Rightarrow> (s', c', None))))"

lemma RunInTx_mem_None:
  "RunInTx_mem b k fn s c = (s', c', None) \<longleftrightarrow> b = None \<and> k = None \<and> fn s c = (s', c', None)"
  by (auto simp: RunInTx_mem_def split: option.splits prod.splits)

lemma RunInTx_mem_Some: "RunInTx_mem b k fn s c = (s', c', Some e) \<Longrightarrow> s' = s"
  by (auto simp: RunInTx_mem_def split: option.splits prod.splits)

lemma RunInTx_mem_state:
  "RunInTx b k (\<lambda>s. case fn s of (s', e) \<Rightarrow> (s', e)) s
     = (case RunInTx_mem b k (\<lambda>s c. case fn s of (s', e) \<Rightarrow> (s', c, e)) s () of (s', _, e) \<Rightarrow> (s', e))"
  by (auto simp: RunInTx_def RunInTx_mem_def split: option.splits prod.splits)

end
