(* ===== verification/Ledger.thy ===== *)
theory Ledger
  imports Money_Codec Pg_Tx
begin

text \<open>
  \<open>platform/ledger\<close>: the double-entry ledger. The posting check (\<open>validate.go\<close>), the in-memory store
  (\<open>mem.go\<close>) and the Postgres store (\<open>pg.go\<close>) are modelled operation by operation; a panic of
  \<open>mustAdd\<close> or \<open>mustZero\<close> is the error value \<open>Panic\<close>, so that its absence can be proved. The locale
  \<open>ledger_store\<close> states the contract of the \<open>Store\<close> interface over an abstract view of a store (its
  accounts, its applied keys and its legs); conservation, idempotence and the derived balance are
  proved there once and hold for both stores by interpretation.
\<close>

section \<open>ledger.go\<close>

text \<open>\<open>Side\<close> is a Go \<open>int\<close>: values other than the two constants are \<open>OtherSide\<close>.\<close>

datatype side = Debit | Credit | OtherSide int

fun side_String :: "side \<Rightarrow> string" where
  "side_String Debit = ''debit''"
| "side_String Credit = ''credit''"
| "side_String (OtherSide _) = ''unknown''"

definition opposite :: "side \<Rightarrow> side" where
  "opposite s = (if s = Debit then Credit else Debit)"

record account =
  ID :: string
  AAsset :: string
  Normal :: side

record 'd entry =
  AccountID :: string
  Direction :: side
  Amount :: "'d money"

record 'd posting =
  IdempotencyKey :: string
  Entries :: "'d entry list"

datatype ledger_error =
    ErrNoIdempotencyKey | ErrEmptyPosting | ErrNonPositiveAmount | ErrUnbalanced
  | ErrUnknownAccount string
  | ErrAccountAssetMismatch string string string
  | UnknownAssetOf string string
  | AlreadyRegistered string
  | BalanceScan money_error
  | StoreError string
  | Panic string

section \<open>internal.go and validate.go\<close>

definition mustAdd :: "'d decimal_ops \<Rightarrow> 'd money \<Rightarrow> 'd money \<Rightarrow> (ledger_error, 'd money) result" where
  "mustAdd D a b =
     (case money_Add D a b of
        Inl err \<Rightarrow> Inl (Panic (''ledger: same-asset add failed (bug): '' @ error_Error err))
      | Inr s \<Rightarrow> Inr s)"

definition mustZero :: "'d decimal_ops \<Rightarrow> registry \<Rightarrow> string \<Rightarrow> (ledger_error, 'd money) result" where
  "mustZero D reg ast =
     (case Zero D reg ast of
        Inl err \<Rightarrow> Inl (Panic (''ledger: zero of unregistered asset (bug): '' @ error_Error err))
      | Inr z \<Rightarrow> Inr z)"

definition signed_amount :: "'d decimal_ops \<Rightarrow> 'd entry \<Rightarrow> 'd money" where
  "signed_amount D e = (if Direction e = Credit then money_Neg D (Amount e) else Amount e)"

fun net_loop ::
  "'d decimal_ops \<Rightarrow> (string \<rightharpoonup> 'd money) \<Rightarrow> 'd entry list \<Rightarrow> (ledger_error, string \<rightharpoonup> 'd money) result" where
  "net_loop D net [] = Inr net"
| "net_loop D net (e # es) =
     (if \<not> money_IsPositive D (Amount e) then Inl ErrNonPositiveAmount
      else (let sgnd = signed_amount D e; ast = asset (Amount e)
            in case net ast of
                 None \<Rightarrow> net_loop D (net(ast \<mapsto> sgnd)) es
               | Some cur \<Rightarrow>
                   (case mustAdd D cur sgnd of
                      Inl p \<Rightarrow> Inl p
                    | Inr s \<Rightarrow> net_loop D (net(ast \<mapsto> s)) es)))"

text \<open>The keys of the Go map \<open>net\<close> are the assets of the entries; the final loop looks at each.\<close>

definition posting_Validate :: "'d decimal_ops \<Rightarrow> 'd posting \<Rightarrow> ledger_error option" where
  "posting_Validate D p =
     (if IdempotencyKey p = [] then Some ErrNoIdempotencyKey
      else if Entries p = [] then Some ErrEmptyPosting
      else case net_loop D Map.empty (Entries p) of
          Inl err \<Rightarrow> Some err
        | Inr net \<Rightarrow>
            if list_all (\<lambda>e. case net (asset (Amount e)) of None \<Rightarrow> True | Some n \<Rightarrow> money_IsZero D n) (Entries p)
            then None else Some ErrUnbalanced)"

section \<open>mem.go\<close>

record 'd mem_store =
  accounts :: "string \<rightharpoonup> account"
  entries :: "'d entry list"
  seen :: "string set"

definition NewMemStore :: "'d mem_store" where
  "NewMemStore = \<lparr>accounts = Map.empty, entries = [], seen = {}\<rparr>"

definition mem_RegisterAccount ::
  "registry \<Rightarrow> 'd mem_store \<Rightarrow> account \<Rightarrow> 'd mem_store \<times> ledger_error option" where
  "mem_RegisterAccount reg m a =
     (case Lookup reg (AAsset a) of
        None \<Rightarrow> (m, Some (UnknownAssetOf (ID a) (AAsset a)))
      | Some _ \<Rightarrow>
          (case accounts m (ID a) of
             Some _ \<Rightarrow> (m, Some (AlreadyRegistered (ID a)))
           | None \<Rightarrow> (m\<lparr>accounts := (accounts m)(ID a \<mapsto> a)\<rparr>, None)))"

fun check_accounts :: "(string \<rightharpoonup> account) \<Rightarrow> 'd entry list \<Rightarrow> ledger_error option" where
  "check_accounts acs [] = None"
| "check_accounts acs (e # es) =
     (case acs (AccountID e) of
        None \<Rightarrow> Some (ErrUnknownAccount (AccountID e))
      | Some a \<Rightarrow>
          if AAsset a \<noteq> asset (Amount e)
          then Some (ErrAccountAssetMismatch (AccountID e) (AAsset a) (asset (Amount e)))
          else check_accounts acs es)"

definition mem_Post :: "'d decimal_ops \<Rightarrow> 'd mem_store \<Rightarrow> 'd posting \<Rightarrow> 'd mem_store \<times> ledger_error option" where
  "mem_Post D m p =
     (case posting_Validate D p of
        Some err \<Rightarrow> (m, Some err)
      | None \<Rightarrow>
          if IdempotencyKey p \<in> seen m then (m, None)
          else case check_accounts (accounts m) (Entries p) of
              Some err \<Rightarrow> (m, Some err)
            | None \<Rightarrow>
                (m\<lparr>seen := insert (IdempotencyKey p) (seen m), entries := entries m @ Entries p\<rparr>, None))"

fun balance_loop ::
  "'d decimal_ops \<Rightarrow> string \<Rightarrow> side \<Rightarrow> 'd money \<Rightarrow> 'd entry list \<Rightarrow> (ledger_error, 'd money) result" where
  "balance_loop D acc normal bal [] = Inr bal"
| "balance_loop D acc normal bal (e # es) =
     (if AccountID e \<noteq> acc then balance_loop D acc normal bal es
      else case mustAdd D bal (if Direction e \<noteq> normal then money_Neg D (Amount e) else Amount e) of
          Inl p \<Rightarrow> Inl p
        | Inr b \<Rightarrow> balance_loop D acc normal b es)"

definition mem_Balance ::
  "'d decimal_ops \<Rightarrow> registry \<Rightarrow> 'd mem_store \<Rightarrow> string \<Rightarrow> (ledger_error, 'd money) result" where
  "mem_Balance D reg m acc =
     (case accounts m acc of
        None \<Rightarrow> Inl (ErrUnknownAccount acc)
      | Some a \<Rightarrow>
          (case mustZero D reg (AAsset a) of
             Inl p \<Rightarrow> Inl p
           | Inr z \<Rightarrow> balance_loop D acc (Normal a) z (entries m)))"

section \<open>pg.go\<close>

text \<open>The three tables of \<open>migrations/0001_ledger.sql\<close>, with their check constraints, and the
  statements of \<open>pg.go\<close> over them. \<open>io k\<close> says that statement number \<open>k\<close> of a call fails in the driver
  or the server. \<open>NUMERIC\<close> is the server's: \<open>num_in\<close> reads the amount text into its exact value and
  \<open>num_out\<close> is the cast of a sum to text. The generated uuid of a transaction row is never read.\<close>

record pg_row =
  account_id :: string
  direction :: string
  row_amount :: rat
  row_asset :: string

record pg_ledger =
  ledger_accounts :: "string \<rightharpoonup> string \<times> string"
  ledger_transactions :: "string set"
  ledger_entries :: "pg_row list"

definition empty_pg_ledger :: pg_ledger where
  "empty_pg_ledger = \<lparr>ledger_accounts = Map.empty, ledger_transactions = {}, ledger_entries = []\<rparr>"

definition side_check :: "string \<Rightarrow> bool" where
  "side_check t = (t = ''debit'' \<or> t = ''credit'')"

definition pg_RegisterAccount ::
  "registry \<Rightarrow> (nat \<Rightarrow> bool) \<Rightarrow> pg_ledger \<Rightarrow> account \<Rightarrow> pg_ledger \<times> ledger_error option" where
  "pg_RegisterAccount reg io db a =
     (case Lookup reg (AAsset a) of
        None \<Rightarrow> (db, Some (UnknownAssetOf (ID a) (AAsset a)))
      | Some _ \<Rightarrow>
          if io 0 \<or> \<not> side_check (side_String (Normal a)) then (db, Some (StoreError ''register account''))
          else case ledger_accounts db (ID a) of
              Some _ \<Rightarrow> (db, None)
            | None \<Rightarrow>
                (db\<lparr>ledger_accounts := (ledger_accounts db)(ID a \<mapsto> (AAsset a, side_String (Normal a)))\<rparr>, None))"

fun pg_insert_entries ::
  "'d decimal_ops \<Rightarrow> (string \<Rightarrow> rat) \<Rightarrow> (nat \<Rightarrow> bool) \<Rightarrow> nat \<Rightarrow> pg_ledger \<Rightarrow> 'd entry list
     \<Rightarrow> pg_ledger \<times> ledger_error option" where
  "pg_insert_entries D num_in io k db [] = (db, None)"
| "pg_insert_entries D num_in io k db (e # es) =
     (if io k then (db, Some (StoreError ''lookup account''))
      else case ledger_accounts db (AccountID e) of
          None \<Rightarrow> (db, Some (ErrUnknownAccount (AccountID e)))
        | Some (ast, _) \<Rightarrow>
            if ast \<noteq> asset (Amount e)
            then (db, Some (ErrAccountAssetMismatch (AccountID e) ast (asset (Amount e))))
            else (let v = num_in (d_to_string D (amount (Amount e)))
                  in if io (k + 1) \<or> \<not> side_check (side_String (Direction e)) \<or> \<not> 0 < v
                     then (db, Some (StoreError ''insert entry''))
                     else pg_insert_entries D num_in io (k + 2)
                            (db\<lparr>ledger_entries := ledger_entries db @
                                 [\<lparr>account_id = AccountID e, direction = side_String (Direction e),
                                   row_amount = v, row_asset = asset (Amount e)\<rparr>]\<rparr>) es))"

definition pg_Post ::
  "'d decimal_ops \<Rightarrow> (string \<Rightarrow> rat) \<Rightarrow> (nat \<Rightarrow> bool) \<Rightarrow> 'd posting \<Rightarrow> pg_ledger \<Rightarrow> pg_ledger \<times> ledger_error option" where
  "pg_Post D num_in io p db =
     (case posting_Validate D p of
        Some err \<Rightarrow> (db, Some err)
      | None \<Rightarrow>
          if io 0 then (db, Some (StoreError ''insert transaction''))
          else if IdempotencyKey p \<in> ledger_transactions db then (db, None)
          else pg_insert_entries D num_in io 1
                 (db\<lparr>ledger_transactions := insert (IdempotencyKey p) (ledger_transactions db)\<rparr>) (Entries p))"

definition pg_sum :: "pg_ledger \<Rightarrow> string \<Rightarrow> string \<Rightarrow> rat" where
  "pg_sum db acc normal =
     (\<Sum>r\<leftarrow>filter (\<lambda>r. account_id r = acc) (ledger_entries db).
        if direction r = normal then row_amount r else - row_amount r)"

definition pg_Balance ::
  "'d decimal_ops \<Rightarrow> registry \<Rightarrow> (rat \<Rightarrow> string) \<Rightarrow> (nat \<Rightarrow> bool) \<Rightarrow> pg_ledger \<Rightarrow> string
     \<Rightarrow> (ledger_error, 'd money) result" where
  "pg_Balance D reg num_out io db acc =
     (if io 0 then Inl (StoreError ''lookup account'')
      else case ledger_accounts db acc of
          None \<Rightarrow> Inl (ErrUnknownAccount acc)
        | Some (ast, normal) \<Rightarrow>
            if io 1 then Inl (StoreError ''balance'')
            else map_sum BalanceScan id
                   (ScanRow D reg (d_from_string D) (num_out (pg_sum db acc normal)) ast))"

section \<open>Legs and the Store contract\<close>

text \<open>The abstract view: a leg is an account, a side and a rational magnitude with its asset.\<close>

record leg =
  l_acc :: string
  l_side :: side
  l_val :: rat
  l_asset :: string

definition entry_leg :: "('d \<Rightarrow> rat) \<Rightarrow> 'd entry \<Rightarrow> leg" where
  "entry_leg dval e = \<lparr>l_acc = AccountID e, l_side = Direction e,
     l_val = dval (amount (Amount e)), l_asset = asset (Amount e)\<rparr>"

definition posting_legs :: "('d \<Rightarrow> rat) \<Rightarrow> 'd posting \<Rightarrow> leg list" where
  "posting_legs dval p = map (entry_leg dval) (Entries p)"

text \<open>The signed value of a leg: debit positive, credit negative; and its contribution to the
  balance of an account with a given normal side.\<close>

definition leg_signed :: "leg \<Rightarrow> rat" where
  "leg_signed l = (if l_side l = Credit then - l_val l else l_val l)"

definition leg_delta :: "side \<Rightarrow> leg \<Rightarrow> rat" where
  "leg_delta normal l = (if l_side l \<noteq> normal then - l_val l else l_val l)"

definition asset_net :: "leg list \<Rightarrow> string \<Rightarrow> rat" where
  "asset_net ls a = (\<Sum>l\<leftarrow>filter (\<lambda>l. l_asset l = a) ls. leg_signed l)"

definition legs_balance :: "leg list \<Rightarrow> string \<Rightarrow> side \<Rightarrow> rat" where
  "legs_balance ls acc normal = (\<Sum>l\<leftarrow>filter (\<lambda>l. l_acc l = acc) ls. leg_delta normal l)"

definition two_sided :: "leg list \<Rightarrow> bool" where
  "two_sided ls = list_all (\<lambda>l. l_side l = Debit \<or> l_side l = Credit) ls"

lemma asset_net_append [simp]: "asset_net (xs @ ys) a = asset_net xs a + asset_net ys a"
  by (simp add: asset_net_def)

lemma legs_balance_append [simp]:
  "legs_balance (xs @ ys) acc n = legs_balance xs acc n + legs_balance ys acc n"
  by (simp add: legs_balance_def)

lemma two_sided_append [simp]: "two_sided (xs @ ys) \<longleftrightarrow> two_sided xs \<and> two_sided ys"
  by (simp add: two_sided_def)

text \<open>With only debits and credits, the balances of the accounts of an asset, each with the sign of
  its normal side, add up to the net of the asset.\<close>

definition normal_sign :: "side \<Rightarrow> rat" where
  "normal_sign s = (if s = Debit then 1 else -1)"

lemma sum_balances_net:
  assumes "finite (dom acs)" "two_sided ls"
    and "\<forall>l \<in> set ls. \<exists>a. acs (l_acc l) = Some a \<and> AAsset a = l_asset l"
    and "\<forall>a \<in> ran acs. Normal a = Debit \<or> Normal a = Credit"
  shows "(\<Sum>i | i \<in> dom acs \<and> AAsset (the (acs i)) = A.
            normal_sign (Normal (the (acs i))) * legs_balance ls i (Normal (the (acs i)))) = asset_net ls A"
  using assms(2,3)
proof (induction ls)
  case Nil
  then show ?case by (simp add: legs_balance_def asset_net_def)
next
  case (Cons l ls)
  let ?S = "{i. i \<in> dom acs \<and> AAsset (the (acs i)) = A}"
  let ?n = "\<lambda>i. Normal (the (acs i))"
  obtain a where a: "acs (l_acc l) = Some a" "AAsset a = l_asset l" using Cons.prems by auto
  have fin: "finite ?S" using assms(1) by (rule rev_finite_subset) auto
  have n: "Normal a = Debit \<or> Normal a = Credit" using assms(4) a by (auto simp: ran_def)
  have l: "l_side l = Debit \<or> l_side l = Credit" "two_sided ls" using Cons.prems by (auto simp: two_sided_def)
  have one: "normal_sign (?n i) * legs_balance [l] i (?n i) = (if i = l_acc l then leg_signed l else 0)"
    if "i \<in> ?S" for i
    using a n l that by (auto simp: legs_balance_def leg_delta_def leg_signed_def normal_sign_def)
  have "(\<Sum>i\<in>?S. normal_sign (?n i) * legs_balance (l # ls) i (?n i))
      = (\<Sum>i\<in>?S. normal_sign (?n i) * legs_balance [l] i (?n i))
        + (\<Sum>i\<in>?S. normal_sign (?n i) * legs_balance ls i (?n i))"
    using legs_balance_append [of "[l]" ls] by (simp add: distrib_left sum.distrib)
  also have "(\<Sum>i\<in>?S. normal_sign (?n i) * legs_balance [l] i (?n i))
      = (\<Sum>i\<in>?S. if i = l_acc l then leg_signed l else 0)"
    by (rule sum.cong [OF refl one])
  also have "\<dots> = (if l_asset l = A then leg_signed l else 0)"
    using fin a by (auto simp: sum.delta)
  also have "\<dots> = asset_net [l] A" by (simp add: asset_net_def)
  finally show ?case
    using Cons l asset_net_append [of "[l]" ls A] by simp
qed

text \<open>The states a store can be in: any sequence of postings and account registrations, successful
  or not, from the empty store.\<close>

inductive store_reach ::
  "('s \<Rightarrow> 'p \<Rightarrow> 's \<times> 'e option) \<Rightarrow> ('s \<Rightarrow> 'r \<Rightarrow> 's \<times> 'e option) \<Rightarrow> 's \<Rightarrow> 's \<Rightarrow> bool"
  for post register s0 where
  start: "store_reach post register s0 s0"
| posted: "store_reach post register s0 s \<Longrightarrow> post s p = (s', r) \<Longrightarrow> store_reach post register s0 s'"
| registered: "store_reach post register s0 s \<Longrightarrow> register s a = (s', r) \<Longrightarrow> store_reach post register s0 s'"

locale ledger_store =
  fixes post :: "'s \<Rightarrow> 'p \<Rightarrow> 's \<times> ledger_error option"
    and register :: "'s \<Rightarrow> 'r \<Rightarrow> 's \<times> ledger_error option"
    and empty_store :: 's
    and accts :: "'s \<Rightarrow> string \<rightharpoonup> account"
    and keys :: "'s \<Rightarrow> string set"
    and legs :: "'s \<Rightarrow> leg list"
    and p_key :: "'p \<Rightarrow> string"
    and p_legs :: "'p \<Rightarrow> leg list"
    and r_account :: "'r \<Rightarrow> account"
  assumes empty_view: "accts empty_store = Map.empty" "keys empty_store = {}" "legs empty_store = []"
    and post_fail: "post s p = (s', Some e) \<Longrightarrow> s' = s"
    and post_balanced: "post s p = (s', None) \<Longrightarrow> asset_net (p_legs p) A = 0"
    and post_seen: "post s p = (s', None) \<Longrightarrow> p_key p \<in> keys s \<Longrightarrow> s' = s"
    and post_new: "post s p = (s', None) \<Longrightarrow> p_key p \<notin> keys s \<Longrightarrow>
          accts s' = accts s \<and> keys s' = insert (p_key p) (keys s) \<and> legs s' = legs s @ p_legs p
          \<and> (\<forall>l \<in> set (p_legs p). \<exists>a. accts s (l_acc l) = Some a \<and> AAsset a = l_asset l)"
    and register_view: "register s a = (s', r) \<Longrightarrow>
          legs s' = legs s \<and> keys s' = keys s
          \<and> (accts s' = accts s \<or> accts s (ID (r_account a)) = None
               \<and> accts s' = (accts s)(ID (r_account a) \<mapsto> r_account a))"
begin

definition consistent :: "'s \<Rightarrow> bool" where
  "consistent s \<longleftrightarrow> finite (dom (accts s)) \<and> (\<forall>A. asset_net (legs s) A = 0)
     \<and> (\<forall>l \<in> set (legs s). \<exists>a. accts s (l_acc l) = Some a \<and> AAsset a = l_asset l)"

lemma consistent_empty: "consistent empty_store"
  by (simp add: consistent_def empty_view asset_net_def)

lemma consistent_post:
  assumes "consistent s" "post s p = (s', r)"
  shows "consistent s'"
proof (cases r)
  case None
  show ?thesis
  proof (cases "p_key p \<in> keys s")
    case True
    then show ?thesis using post_seen assms None by auto
  next
    case False
    have p: "post s p = (s', None)" using assms(2) None by simp
    show ?thesis
      using post_new [OF p False] post_balanced [OF p] assms(1) by (auto simp: consistent_def)
  qed
next
  case (Some e)
  then show ?thesis using post_fail assms by auto
qed

lemma consistent_register: "consistent s \<Longrightarrow> register s a = (s', r) \<Longrightarrow> consistent s'"
  using register_view [of s a s' r] unfolding consistent_def
  by (elim conjE disjE) (auto, metis option.distinct(1))

lemma reach_consistent: "store_reach post register empty_store s \<Longrightarrow> consistent s"
  by (induction rule: store_reach.induct)
    (auto intro: consistent_empty consistent_post consistent_register)

text \<open>The conservation law of the package documentation.\<close>

lemma conservation:
  assumes "store_reach post register empty_store s" "two_sided (legs s)"
    and "\<forall>a \<in> ran (accts s). Normal a = Debit \<or> Normal a = Credit"
  shows "(\<Sum>i | i \<in> dom (accts s) \<and> AAsset (the (accts s i)) = A.
      normal_sign (Normal (the (accts s i))) * legs_balance (legs s) i (Normal (the (accts s i)))) = 0"
  using sum_balances_net [OF _ assms(2) _ assms(3), of A] reach_consistent [OF assms(1)]
  by (simp add: consistent_def)

text \<open>A key is applied at most once: after a successful post no posting with its key changes the
  store, and no reachable continuation forgets the key.\<close>

lemma post_records_key: "post s p = (s', None) \<Longrightarrow> p_key p \<in> keys s'"
  using post_seen post_new by (cases "p_key p \<in> keys s") auto

lemma replay_unchanged:
  assumes "p_key q \<in> keys s"
  shows "fst (post s q) = s"
  using assms post_seen [of s q] post_fail [of s q] by (cases "post s q"; cases "snd (post s q)") auto

lemma keys_grow: "store_reach post register s s' \<Longrightarrow> keys s \<subseteq> keys s'"
proof (induction rule: store_reach.induct)
  case start
  then show ?case by simp
next
  case (posted s1 p s2 r)
  then show ?case
    using post_fail [of s1 p s2] post_seen [of s1 p s2] post_new [of s1 p s2]
    by (cases r; cases "p_key p \<in> keys s1") auto
next
  case (registered s1 a s2 r)
  then show ?case using register_view by blast
qed

lemma exactly_once:
  assumes "post s p = (s1, None)" "store_reach post register s1 s2" "p_key q = p_key p"
  shows "fst (post s2 q) = s2"
  using post_records_key [OF assms(1)] keys_grow [OF assms(2)] assms(3) by (intro replay_unchanged) auto

text \<open>Append-only: legs are never removed or changed.\<close>

lemma legs_grow: "store_reach post register s s' \<Longrightarrow> \<exists>new. legs s' = legs s @ new"
proof (induction rule: store_reach.induct)
  case start
  then show ?case by simp
next
  case (posted s1 p s2 r)
  then show ?case
    using post_fail [of s1 p s2] post_seen [of s1 p s2] post_new [of s1 p s2]
    by (cases r; cases "p_key p \<in> keys s1") auto
next
  case (registered s1 a s2 r)
  then show ?case using register_view [of s1 a s2 r] by simp
qed

end

section \<open>Lemmas on the posting check\<close>

lemma mustAdd_Inr:
  "mustAdd D a b = Inr s \<longleftrightarrow>
     asset a \<noteq> [] \<and> asset b = asset a \<and> s = mk_money (d_add D (amount a) (amount b)) (asset a)"
  by (auto simp: mustAdd_def money_Add_Inr split: sum.split) (metis money_Add_Inr sum.distinct(1))+

lemma signed_amount_asset [simp]: "asset (signed_amount D e) = asset (Amount e)"
  by (simp add: signed_amount_def money_Neg_def)

definition net_val :: "('d \<Rightarrow> rat) \<Rightarrow> (string \<rightharpoonup> 'd money) \<Rightarrow> string \<Rightarrow> rat" where
  "net_val dval net a = (case net a of None \<Rightarrow> 0 | Some m \<Rightarrow> dval (amount m))"

lemma asset_net_Cons: "asset_net (l # ls) a = (if l_asset l = a then leg_signed l else 0) + asset_net ls a"
  by (simp add: asset_net_def)

lemma asset_net_absent: "a \<notin> l_asset ` set ls \<Longrightarrow> asset_net ls a = 0"
  by (induction ls) (auto simp: asset_net_Cons, simp add: asset_net_def)

lemma entry_leg_sel [simp]:
  "l_asset (entry_leg dval e) = asset (Amount e)" "l_acc (entry_leg dval e) = AccountID e"
  "l_side (entry_leg dval e) = Direction e" "l_val (entry_leg dval e) = dval (amount (Amount e))"
  by (simp_all add: entry_leg_def)

context decimal_lib
begin

lemma signed_amount_val: "dval (amount (signed_amount D e)) = leg_signed (entry_leg dval e)"
  by (simp add: signed_amount_def leg_signed_def entry_leg_def money_Neg_def neg)

lemma net_step:
  assumes "net_loop D net (e # es) = Inr net'" "\<And>a m. net a = Some m \<Longrightarrow> asset m = a"
  shows "\<exists>n1. net_loop D n1 es = Inr net' \<and> 0 < dval (amount (Amount e))
    \<and> dom n1 = insert (asset (Amount e)) (dom net)
    \<and> (\<forall>a m. n1 a = Some m \<longrightarrow> asset m = a)
    \<and> (\<forall>a. net_val dval n1 a = net_val dval net a
         + (if asset (Amount e) = a then leg_signed (entry_leg dval e) else 0))
    \<and> (asset (Amount e) = [] \<longrightarrow> net [] = None)
    \<and> (\<forall>a. a \<noteq> asset (Amount e) \<longrightarrow> n1 a = net a)"
proof (cases "net (asset (Amount e))")
  case None
  then have "net_loop D (net(asset (Amount e) \<mapsto> signed_amount D e)) es = Inr net'"
    and "0 < dval (amount (Amount e))"
    using assms(1) by (auto simp: money_IsPositive_def is_positive Let_def split: if_splits)
  then show ?thesis
    using None assms(2) signed_amount_val [of e]
    by (intro exI [of _ "net(asset (Amount e) \<mapsto> signed_amount D e)"]) (auto simp: net_val_def)
next
  case (Some cur)
  then obtain t where t: "mustAdd D cur (signed_amount D e) = Inr t"
    and l: "net_loop D (net(asset (Amount e) \<mapsto> t)) es = Inr net'" "0 < dval (amount (Amount e))"
    using assms(1) by (auto simp: money_IsPositive_def is_positive Let_def split: if_splits sum.splits)
  have "asset cur = asset (Amount e)" using assms(2) Some by auto
  then show ?thesis
    using Some t l assms(2) signed_amount_val [of e]
    by (intro exI [of _ "net(asset (Amount e) \<mapsto> t)"]) (auto simp: net_val_def mustAdd_Inr add)
qed

lemma net_loop_sound:
  assumes "net_loop D net es = Inr net'" "\<And>a m. net a = Some m \<Longrightarrow> asset m = a"
  shows "list_all (\<lambda>e. 0 < dval (amount (Amount e))) es
    \<and> dom net' = dom net \<union> (\<lambda>e. asset (Amount e)) ` set es
    \<and> (\<forall>a. net_val dval net' a = net_val dval net a + asset_net (map (entry_leg dval) es) a)"
  using assms
proof (induction es arbitrary: net)
  case Nil
  then show ?case by (simp add: asset_net_def)
next
  case (Cons e es)
  obtain n1 where n1: "net_loop D n1 es = Inr net'" "0 < dval (amount (Amount e))"
    "dom n1 = insert (asset (Amount e)) (dom net)" "\<And>a m. n1 a = Some m \<Longrightarrow> asset m = a"
    "\<And>a. net_val dval n1 a = net_val dval net a
         + (if asset (Amount e) = a then leg_signed (entry_leg dval e) else 0)"
    using net_step [OF Cons.prems] by blast
  then show ?case using Cons.IH [OF n1(1,4)] by (simp add: asset_net_Cons)
qed

text \<open>An entry of the empty asset code can occur only once, and then its net is not zero.\<close>

lemma net_loop_zero_value:
  assumes "net_loop D net es = Inr net'" "\<And>a m. net a = Some m \<Longrightarrow> asset m = a"
    and "[] \<in> (\<lambda>e. asset (Amount e)) ` set es"
  shows "net [] = None \<and> net_val dval net' [] \<noteq> 0"
  using assms
proof (induction es arbitrary: net)
  case Nil
  then show ?case by simp
next
  case (Cons e es)
  obtain n1 where n1: "net_loop D n1 es = Inr net'" "0 < dval (amount (Amount e))"
    "dom n1 = insert (asset (Amount e)) (dom net)" "\<And>a m. n1 a = Some m \<Longrightarrow> asset m = a"
    "\<And>a. net_val dval n1 a = net_val dval net a
         + (if asset (Amount e) = a then leg_signed (entry_leg dval e) else 0)"
    "asset (Amount e) = [] \<Longrightarrow> net [] = None" "\<And>a. a \<noteq> asset (Amount e) \<Longrightarrow> n1 a = net a"
    using net_step [OF Cons.prems(1,2)] by blast
  show ?case
  proof (cases "[] \<in> (\<lambda>e. asset (Amount e)) ` set es")
    case True
    then have "n1 [] = None \<and> net_val dval net' [] \<noteq> 0" using Cons.IH [OF n1(1,4)] by blast
    moreover from this have "asset (Amount e) \<noteq> []" using n1(3) by (metis domIff insertI1)
    ultimately show ?thesis using n1(7) by auto
  next
    case False
    then have e: "asset (Amount e) = []" using Cons.prems(3) by auto
    have "net_val dval net' [] = net_val dval n1 []"
      using net_loop_sound [OF n1(1,4)] asset_net_absent [of "[]" "map (entry_leg dval) es"] False
      by (auto simp: image_image)
    moreover have "leg_signed (entry_leg dval e) \<noteq> 0"
      using n1(2) by (simp add: leg_signed_def entry_leg_def)
    ultimately show ?thesis using n1(5,6) e by (simp add: net_val_def)
  qed
qed

lemma net_loop_complete:
  assumes "list_all (\<lambda>e. 0 < dval (amount (Amount e)) \<and> asset (Amount e) \<noteq> []) es"
    and "\<And>a m. net a = Some m \<Longrightarrow> asset m = a"
  shows "\<exists>net'. net_loop D net es = Inr net'"
  using assms
proof (induction es arbitrary: net)
  case Nil
  then show ?case by simp
next
  case (Cons e es)
  have pos: "money_IsPositive D (Amount e)" and ne: "asset (Amount e) \<noteq> []"
    using Cons.prems(1) by (auto simp: money_IsPositive_def is_positive)
  have step: "\<exists>net'. net_loop D (net(asset (Amount e) \<mapsto> t)) es = Inr net'" if "asset t = asset (Amount e)" for t
    by (rule Cons.IH) (use Cons.prems that in \<open>auto split: if_splits\<close>)
  show ?case
  proof (cases "net (asset (Amount e))")
    case None
    then show ?thesis using pos step [of "signed_amount D e"] by simp
  next
    case (Some cur)
    then have "asset cur = asset (Amount e)" using Cons.prems(2) by blast
    then have "mustAdd D cur (signed_amount D e)
        = Inr (mk_money (d_add D (amount cur) (amount (signed_amount D e))) (asset (Amount e)))"
      using ne by (simp add: mustAdd_Inr)
    then show ?thesis using pos Some step by simp
  qed
qed

lemma validate_None:
  "posting_Validate D p = None \<longleftrightarrow>
     IdempotencyKey p \<noteq> [] \<and> Entries p \<noteq> []
     \<and> list_all (\<lambda>e. 0 < dval (amount (Amount e)) \<and> asset (Amount e) \<noteq> []) (Entries p)
     \<and> (\<forall>a. asset_net (posting_legs dval p) a = 0)" (is "?V \<longleftrightarrow> ?R")
proof -
  have emp: "\<And>a m. Map.empty a = Some m \<Longrightarrow> asset m = a" by simp
  have zero_iff: "(case net' a of None \<Rightarrow> True | Some n \<Rightarrow> money_IsZero D n) \<longleftrightarrow> net_val dval net' a = 0" for net' a
    by (auto simp: net_val_def money_IsZero_def is_zero split: option.splits)
  show ?thesis
  proof
    assume v: ?V
    then obtain net' where n: "net_loop D Map.empty (Entries p) = Inr net'"
      and z: "\<And>e. e \<in> set (Entries p) \<Longrightarrow> net_val dval net' (asset (Amount e)) = 0"
      and k: "IdempotencyKey p \<noteq> []" "Entries p \<noteq> []"
      by (auto simp: posting_Validate_def zero_iff list_all_iff split: if_splits sum.splits)
    note sound = net_loop_sound [OF n emp]
    have "asset (Amount e) \<noteq> []" if "e \<in> set (Entries p)" for e
      using net_loop_zero_value [OF n emp] z [OF that] that by force
    moreover have "asset_net (posting_legs dval p) a = 0" for a
    proof (cases "a \<in> (\<lambda>e. asset (Amount e)) ` set (Entries p)")
      case True
      then show ?thesis using sound z by (auto simp: net_val_def posting_legs_def)
    next
      case False
      then show ?thesis
        using asset_net_absent [of a "map (entry_leg dval) (Entries p)"]
        by (auto simp: posting_legs_def image_image)
    qed
    ultimately show ?R using k sound by (simp add: list_all_iff)
  next
    assume r: ?R
    then obtain net' where n: "net_loop D Map.empty (Entries p) = Inr net'"
      using net_loop_complete [of "Entries p" Map.empty] by auto
    then show ?V
      using r net_loop_sound [OF n emp]
      by (auto simp: posting_Validate_def zero_iff list_all_iff net_val_def posting_legs_def)
  qed
qed

end

section \<open>The in-memory store\<close>

definition mem_legs :: "('d \<Rightarrow> rat) \<Rightarrow> 'd mem_store \<Rightarrow> leg list" where
  "mem_legs dval m = map (entry_leg dval) (entries m)"

lemma check_accounts_None:
  "check_accounts acs es = None \<longleftrightarrow>
     (\<forall>e \<in> set es. \<exists>a. acs (AccountID e) = Some a \<and> AAsset a = asset (Amount e))"
  by (induction es) (auto split: option.splits)

lemma mem_Post_None:
  "mem_Post D m p = (m', None) \<longleftrightarrow> posting_Validate D p = None \<and>
     (if IdempotencyKey p \<in> seen m then m' = m
      else check_accounts (accounts m) (Entries p) = None \<and>
        m' = m\<lparr>seen := insert (IdempotencyKey p) (seen m), entries := entries m @ Entries p\<rparr>)"
  by (auto simp: mem_Post_def split: option.splits)

lemma mem_Post_fail: "mem_Post D m p = (m', Some e) \<Longrightarrow> m' = m"
  by (auto simp: mem_Post_def split: option.splits if_splits)

lemma mem_RegisterAccount_view:
  "mem_RegisterAccount reg m a = (m', r) \<Longrightarrow> entries m' = entries m \<and> seen m' = seen m
     \<and> (accounts m' = accounts m \<or> accounts m (ID a) = None \<and> accounts m' = (accounts m)(ID a \<mapsto> a)
          \<and> reg (AAsset a) \<noteq> None)"
  by (auto simp: mem_RegisterAccount_def Lookup_def split: option.splits)

sublocale decimal_lib \<subseteq> mem: ledger_store "mem_Post D" "mem_RegisterAccount reg" NewMemStore
    accounts seen "mem_legs dval" IdempotencyKey "posting_legs dval" "\<lambda>a. a" for reg :: registry
proof
  fix s s' :: "'d mem_store" and p A
  show "accounts NewMemStore = Map.empty" "seen NewMemStore = {}" "mem_legs dval NewMemStore = []"
    by (simp_all add: NewMemStore_def mem_legs_def)
  assume p: "mem_Post D s p = (s', None)"
  then show "asset_net (posting_legs dval p) A = 0"
    using validate_None [of p] by (simp add: mem_Post_None)
  show "IdempotencyKey p \<in> seen s \<Longrightarrow> s' = s" using p by (simp add: mem_Post_None)
  show "IdempotencyKey p \<notin> seen s \<Longrightarrow> accounts s' = accounts s
      \<and> seen s' = insert (IdempotencyKey p) (seen s)
      \<and> mem_legs dval s' = mem_legs dval s @ posting_legs dval p
      \<and> (\<forall>l \<in> set (posting_legs dval p). \<exists>a. accounts s (l_acc l) = Some a \<and> AAsset a = l_asset l)"
    using p by (auto simp: mem_Post_None check_accounts_None mem_legs_def posting_legs_def entry_leg_def)
next
  fix s s' :: "'d mem_store" and p e
  show "mem_Post D s p = (s', Some e) \<Longrightarrow> s' = s" by (rule mem_Post_fail)
next
  fix s s' :: "'d mem_store" and a r
  show "mem_RegisterAccount reg s a = (s', r) \<Longrightarrow>
      mem_legs dval s' = mem_legs dval s \<and> seen s' = seen s
      \<and> (accounts s' = accounts s \<or> accounts s (ID a) = None \<and> accounts s' = (accounts s)(ID a \<mapsto> a))"
    using mem_RegisterAccount_view [of reg s a s' r] by (auto simp: mem_legs_def)
qed

interpretation bd_mem: ledger_store "mem_Post bd_ops" "mem_RegisterAccount init_registry" NewMemStore
  accounts seen "mem_legs bd_val" IdempotencyKey "posting_legs bd_val" "\<lambda>a. a"
  by (rule bd.mem.ledger_store_axioms)

text \<open>Accounts are only registered in registered assets, so deriving a balance never panics.\<close>

lemma mem_assets_registered:
  assumes "store_reach (mem_Post D) (mem_RegisterAccount reg) NewMemStore m" "accounts m i = Some a"
  shows "reg (AAsset a) \<noteq> None"
  using assms
proof (induction arbitrary: i a rule: store_reach.induct)
  case start
  then show ?case by (simp add: NewMemStore_def)
next
  case (posted m1 p m2 r)
  then have "accounts m2 = accounts m1"
    by (cases r) (auto simp: mem_Post_None split: if_splits dest: mem_Post_fail)
  then show ?case using posted by auto
next
  case (registered m1 b m2 r)
  then show ?case using mem_RegisterAccount_view [of reg m1 b m2 r] by (auto split: if_splits)
qed

context decimal_lib
begin

lemma zero_ok: "reg ast = Some a \<Longrightarrow> \<exists>z. Zero D reg ast = Inr z \<and> asset z = ast \<and> dval (amount z) = 0"
proof -
  assume a: "reg ast = Some a"
  have "dec_parts ''0'' [] ''0'' 0"
    by (simp add: dec_parts_def is_digit_def text_nat_def digit_val_def)
  from from_string [OF this] a show ?thesis
    by (auto simp: Zero_def Parse_Inr guardMagnitude_None)
qed

lemma balance_loop_ok:
  assumes "asset bal = ast" "ast \<noteq> []"
    and "\<forall>e \<in> set es. AccountID e = acc \<longrightarrow> asset (Amount e) = ast"
  shows "\<exists>b. balance_loop D acc normal bal es = Inr b \<and> asset b = ast
    \<and> dval (amount b) = dval (amount bal) + legs_balance (map (entry_leg dval) es) acc normal"
  using assms
proof (induction es arbitrary: bal)
  case Nil
  then show ?case by (simp add: legs_balance_def)
next
  case (Cons e es)
  show ?case
  proof (cases "AccountID e = acc")
    case False
    then show ?thesis using Cons by (simp add: legs_balance_def)
  next
    case True
    let ?d = "if Direction e \<noteq> normal then money_Neg D (Amount e) else Amount e"
    define b1 where "b1 = mk_money (d_add D (amount bal) (amount ?d)) ast"
    have "mustAdd D bal ?d = Inr b1"
      using Cons.prems True by (auto simp: mustAdd_Inr b1_def money_Neg_def)
    moreover have "dval (amount b1) = dval (amount bal) + leg_delta normal (entry_leg dval e)"
      by (simp add: b1_def add neg leg_delta_def money_Neg_def)
    moreover have "\<exists>b. balance_loop D acc normal b1 es = Inr b \<and> asset b = ast
        \<and> dval (amount b) = dval (amount b1) + legs_balance (map (entry_leg dval) es) acc normal"
      by (rule Cons.IH) (use Cons.prems in \<open>auto simp: b1_def\<close>)
    ultimately show ?thesis using True by (auto simp: legs_balance_def)
  qed
qed

lemma mem_conservation:
  assumes "store_reach (mem_Post D) (mem_RegisterAccount reg) NewMemStore m" "two_sided (mem_legs dval m)"
    and "\<forall>a \<in> ran (accounts m). Normal a = Debit \<or> Normal a = Credit"
  shows "(\<Sum>i | i \<in> dom (accounts m) \<and> AAsset (the (accounts m i)) = A.
      normal_sign (Normal (the (accounts m i)))
      * legs_balance (mem_legs dval m) i (Normal (the (accounts m i)))) = 0"
  using assms by (rule mem.conservation)

lemma mem_exactly_once:
  assumes "mem_Post D m p = (m1, None)" "store_reach (mem_Post D) (mem_RegisterAccount reg) m1 m2"
    and "IdempotencyKey q = IdempotencyKey p"
  shows "fst (mem_Post D m2 q) = m2"
  using assms by (rule mem.exactly_once)

lemma mem_balance_derived:
  assumes "registry_wf reg" "store_reach (mem_Post D) (mem_RegisterAccount reg) NewMemStore m"
    and "accounts m i = Some a"
  shows "\<exists>b. mem_Balance D reg m i = Inr b \<and> asset b = AAsset a
    \<and> dval (amount b) = legs_balance (mem_legs dval m) i (Normal a)"
proof -
  obtain x where x: "reg (AAsset a) = Some x" using mem_assets_registered [OF assms(2,3)] by auto
  then obtain z where z: "Zero D reg (AAsset a) = Inr z" "asset z = AAsset a" "dval (amount z) = 0"
    using zero_ok by blast
  have ne: "AAsset a \<noteq> []" using assms(1) x by (auto simp: registry_wf_def)
  have "\<forall>e \<in> set (entries m). AccountID e = i \<longrightarrow> asset (Amount e) = AAsset a"
    using mem.reach_consistent [OF assms(2)] assms(3)
    by (auto simp: mem.consistent_def mem_legs_def entry_leg_def)
  from balance_loop_ok [OF z(2) ne this, of "Normal a"] show ?thesis
    using z assms(3) by (auto simp: mem_Balance_def mustZero_def mem_legs_def)
qed

end

section \<open>The Postgres store\<close>

fun side_of :: "string \<Rightarrow> side" where
  "side_of t = (if t = ''credit'' then Credit else Debit)"

definition row_leg :: "pg_row \<Rightarrow> leg" where
  "row_leg r = \<lparr>l_acc = account_id r, l_side = side_of (direction r), l_val = row_amount r, l_asset = row_asset r\<rparr>"

definition pg_legs :: "pg_ledger \<Rightarrow> leg list" where
  "pg_legs db = map row_leg (ledger_entries db)"

definition pg_accts :: "pg_ledger \<Rightarrow> string \<rightharpoonup> account" where
  "pg_accts db i = map_option (\<lambda>(ast, n). \<lparr>ID = i, AAsset = ast, Normal = side_of n\<rparr>) (ledger_accounts db i)"

text \<open>One call of \<open>Post\<close> in a transaction of its own, with the faults it meets.\<close>

type_synonym 'd pg_call = "'d posting \<times> (nat \<Rightarrow> bool) \<times> ledger_error option \<times> ledger_error option"

definition pg_tx_Post ::
  "'d decimal_ops \<Rightarrow> (string \<Rightarrow> rat) \<Rightarrow> pg_ledger \<Rightarrow> 'd pg_call \<Rightarrow> pg_ledger \<times> ledger_error option" where
  "pg_tx_Post D num_in db call =
     (case call of (p, io, b, c) \<Rightarrow> RunInTx b c (pg_Post D num_in io p) db)"

lemma side_token: "side_check (side_String d) \<Longrightarrow> side_of (side_String d) = d \<and> (d = Debit \<or> d = Credit)"
  by (cases d) (auto simp: side_check_def)

declare side_of.simps [simp del]

lemma side_of_two: "side_of t = Debit \<or> side_of t = Credit"
  by (simp add: side_of.simps)

lemma pg_RegisterAccount_view:
  "pg_RegisterAccount reg io s a = (s', r) \<Longrightarrow>
     s' = s \<or> ledger_accounts s (ID a) = None \<and> side_check (side_String (Normal a))
       \<and> s' = s\<lparr>ledger_accounts := (ledger_accounts s)(ID a \<mapsto> (AAsset a, side_String (Normal a)))\<rparr>"
  by (auto simp: pg_RegisterAccount_def split: option.splits if_splits)

lemma pg_accts_upd:
  "side_check (side_String (Normal a)) \<Longrightarrow>
     pg_accts (s\<lparr>ledger_accounts := (ledger_accounts s)(ID a \<mapsto> (AAsset a, side_String (Normal a)))\<rparr>)
       = (pg_accts s)(ID a \<mapsto> a)"
  by (cases a) (auto simp: pg_accts_def fun_eq_iff dest: side_token)

locale pg_numeric = decimal_lib D dval
  for D :: "'d decimal_ops" and dval +
  fixes num_in :: "string \<Rightarrow> rat" and num_out :: "rat \<Rightarrow> string"
  assumes num_in: "dec_text s v \<Longrightarrow> num_in s = v"
    and num_out: "v = of_int i / 10 ^ n \<Longrightarrow> dec_text (num_out v) v"
begin

lemma num_in_amount [simp]: "num_in (d_to_string D x) = dval x"
  by (rule num_in [OF to_string])

lemma pg_insert_entries_None:
  assumes "pg_insert_entries D num_in io k db es = (db', None)"
  shows "ledger_accounts db' = ledger_accounts db \<and> ledger_transactions db' = ledger_transactions db
    \<and> pg_legs db' = pg_legs db @ map (entry_leg dval) es
    \<and> (\<forall>e \<in> set es. \<exists>n. ledger_accounts db (AccountID e) = Some (asset (Amount e), n))
    \<and> list_all (\<lambda>e. Direction e = Debit \<or> Direction e = Credit) es"
  using assms
proof (induction es arbitrary: k db)
  case Nil
  then show ?case by simp
next
  case (Cons e es)
  let ?db = "db\<lparr>ledger_entries := ledger_entries db @
     [\<lparr>account_id = AccountID e, direction = side_String (Direction e),
       row_amount = dval (amount (Amount e)), row_asset = asset (Amount e)\<rparr>]\<rparr>"
  obtain n where n: "ledger_accounts db (AccountID e) = Some (asset (Amount e), n)"
    and sd: "side_check (side_String (Direction e))"
    and rest: "pg_insert_entries D num_in io (k + 2) ?db es = (db', None)"
    using Cons.prems by (auto simp: Let_def split: if_splits option.splits)
  show ?case
    using Cons.IH [OF rest] n side_token [OF sd]
    by (auto simp: pg_legs_def row_leg_def entry_leg_def)
qed

lemma pg_Post_None:
  assumes "pg_Post D num_in io p db = (db', None)"
  shows "posting_Validate D p = None \<and>
    (if IdempotencyKey p \<in> ledger_transactions db then db' = db
     else ledger_accounts db' = ledger_accounts db
       \<and> ledger_transactions db' = insert (IdempotencyKey p) (ledger_transactions db)
       \<and> pg_legs db' = pg_legs db @ posting_legs dval p
       \<and> (\<forall>e \<in> set (Entries p). \<exists>n. ledger_accounts db (AccountID e) = Some (asset (Amount e), n))
       \<and> list_all (\<lambda>e. Direction e = Debit \<or> Direction e = Credit) (Entries p))"
  using assms by (auto simp: pg_Post_def posting_legs_def pg_legs_def
      split: option.splits if_splits dest!: pg_insert_entries_None)

end

lemma pg_accts_cong: "ledger_accounts db' = ledger_accounts db \<Longrightarrow> pg_accts db' = pg_accts db"
  by (simp add: pg_accts_def fun_eq_iff)

definition pg_call_register ::
  "registry \<Rightarrow> pg_ledger \<Rightarrow> account \<times> (nat \<Rightarrow> bool) \<Rightarrow> pg_ledger \<times> ledger_error option" where
  "pg_call_register reg db call = (case call of (a, io) \<Rightarrow> pg_RegisterAccount reg io db a)"

sublocale pg_numeric \<subseteq> pg: ledger_store "pg_tx_Post D num_in" "pg_call_register reg" empty_pg_ledger
    pg_accts ledger_transactions pg_legs "\<lambda>c. IdempotencyKey (fst c)" "\<lambda>c. posting_legs dval (fst c)" fst
  for reg :: registry
proof
  fix s s' :: pg_ledger and p :: "'d pg_call" and A
  show "pg_accts empty_pg_ledger = Map.empty" "ledger_transactions empty_pg_ledger = {}"
    "pg_legs empty_pg_ledger = []"
    by (auto simp: empty_pg_ledger_def pg_accts_def pg_legs_def)
  assume "pg_tx_Post D num_in s p = (s', None)"
  then obtain io b c where "fst p = fst p" and p: "pg_Post D num_in io (fst p) s = (s', None)"
    by (cases p) (auto simp: pg_tx_Post_def RunInTx_None)
  note post = pg_Post_None [OF p]
  show "asset_net (posting_legs dval (fst p)) A = 0"
    using post validate_None [of "fst p"] by simp
  show "IdempotencyKey (fst p) \<in> ledger_transactions s \<Longrightarrow> s' = s" using post by simp
  have acc: "\<exists>a. pg_accts s (AccountID e) = Some a \<and> AAsset a = asset (Amount e)"
    if "ledger_accounts s (AccountID e) = Some (asset (Amount e), n)" for e :: "'d entry" and n
    using that by (simp add: pg_accts_def)
  show "IdempotencyKey (fst p) \<notin> ledger_transactions s \<Longrightarrow> pg_accts s' = pg_accts s
      \<and> ledger_transactions s' = insert (IdempotencyKey (fst p)) (ledger_transactions s)
      \<and> pg_legs s' = pg_legs s @ posting_legs dval (fst p)
      \<and> (\<forall>l \<in> set (posting_legs dval (fst p)). \<exists>a. pg_accts s (l_acc l) = Some a \<and> AAsset a = l_asset l)"
    using post acc pg_accts_cong [of s' s] by (auto simp: posting_legs_def)
next
  fix s s' :: pg_ledger and p :: "'d pg_call" and e
  show "pg_tx_Post D num_in s p = (s', Some e) \<Longrightarrow> s' = s"
    by (cases p) (auto simp: pg_tx_Post_def dest: RunInTx_Some)
next
  fix s s' :: pg_ledger and a :: "account \<times> (nat \<Rightarrow> bool)" and r
  assume "pg_call_register reg s a = (s', r)"
  then show "pg_legs s' = pg_legs s \<and> ledger_transactions s' = ledger_transactions s
      \<and> (pg_accts s' = pg_accts s \<or> pg_accts s (ID (fst a)) = None
           \<and> pg_accts s' = (pg_accts s)(ID (fst a) \<mapsto> fst a))"
    using pg_RegisterAccount_view [of reg "snd a" s "fst a" s' r] pg_accts_upd [of "fst a" s]
    by (auto simp: pg_call_register_def pg_legs_def pg_accts_def split: prod.splits)
qed

text \<open>The check constraints keep every stored side a debit or a credit.\<close>

lemma pg_legs_two_sided: "two_sided (pg_legs db)"
  by (simp add: two_sided_def pg_legs_def row_leg_def list_all_iff side_of_two)

lemma pg_accts_two_sided: "a \<in> ran (pg_accts db) \<Longrightarrow> Normal a = Debit \<or> Normal a = Credit"
  by (auto simp: pg_accts_def ran_def side_of.simps)

section \<open>A reference NUMERIC\<close>

definition num_in_ref :: "string \<Rightarrow> rat" where
  "num_in_ref s = (case bd_from_string s of Inl _ \<Rightarrow> 0 | Inr x \<Rightarrow> bd_val x)"

definition num_scale :: "rat \<Rightarrow> nat" where
  "num_scale v = (LEAST n. \<exists>i. v = of_int i / 10 ^ n)"

definition num_out_ref :: "rat \<Rightarrow> string" where
  "num_out_ref v = bd_to_string (bd_make \<lfloor>v * 10 ^ num_scale v\<rfloor> (- int (num_scale v)))"

interpretation bd_pg: pg_numeric bd_ops bd_val num_in_ref num_out_ref
proof unfold_locales
  fix s v
  assume "dec_text s v"
  then obtain ip fp where "dec_parts ip fp s v" by (auto simp: dec_text_def)
  from bd_from_string_text [OF this] show "num_in_ref s = v" by (auto simp: num_in_ref_def)
next
  fix v :: rat and i n
  assume "v = of_int i / 10 ^ n"
  then have "\<exists>i. v = of_int i / 10 ^ num_scale v"
    unfolding num_scale_def by (intro LeastI [of "\<lambda>n. \<exists>i. v = of_int i / 10 ^ n"]) blast
  then obtain j where j: "v = of_int j / 10 ^ num_scale v" by blast
  define k where "k = num_scale v"
  have "v * 10 ^ k = of_int j" using j by (simp add: k_def [symmetric])
  then have "\<lfloor>v * 10 ^ k\<rfloor> = j" by (simp only: floor_of_int)
  then have "bd_val (bd_make \<lfloor>v * 10 ^ k\<rfloor> (- int k)) = v"
    using j by (simp only: bd_make_val k_def [symmetric] power_int_minus power_int_of_nat divide_inverse)
  then show "dec_text (num_out_ref v) v"
    unfolding num_out_ref_def k_def [symmetric] by (metis bd_to_string_text)
qed

section \<open>The two stores agree\<close>

text \<open>A Postgres ledger refines an in-memory one when both show the same accounts, keys and legs.\<close>

definition pg_refines :: "('d \<Rightarrow> rat) \<Rightarrow> pg_ledger \<Rightarrow> 'd mem_store \<Rightarrow> bool" where
  "pg_refines dval db m \<longleftrightarrow> pg_accts db = accounts m \<and> ledger_transactions db = seen m \<and> pg_legs db = mem_legs dval m"

lemma pg_accts_transactions [simp]: "pg_accts (db\<lparr>ledger_transactions := x\<rparr>) = pg_accts db"
  by (simp add: pg_accts_def fun_eq_iff)

context pg_numeric
begin

lemma pg_insert_entries_checks:
  assumes "list_all (\<lambda>e. (Direction e = Debit \<or> Direction e = Credit) \<and> 0 < dval (amount (Amount e))) es"
  shows "snd (pg_insert_entries D num_in (\<lambda>_. False) k db es) = check_accounts (pg_accts db) es"
  using assms
proof (induction es arbitrary: k db)
  case Nil
  then show ?case by simp
next
  case (Cons e es)
  have sd: "side_check (side_String (Direction e))" using Cons.prems by (auto simp: side_check_def)
  show ?case
  proof (cases "ledger_accounts db (AccountID e)")
    case None
    then show ?thesis by (simp add: pg_accts_def)
  next
    case (Some an)
    let ?row = "\<lparr>account_id = AccountID e, direction = side_String (Direction e),
        row_amount = dval (amount (Amount e)), row_asset = asset (Amount e)\<rparr>"
    let ?db = "db\<lparr>ledger_entries := ledger_entries db @ [?row]\<rparr>"
    obtain ast n where an: "an = (ast, n)" by (cases an)
    have acc: "pg_accts db (AccountID e) = Some \<lparr>ID = AccountID e, AAsset = ast, Normal = side_of n\<rparr>"
      using Some an by (simp add: pg_accts_def)
    have ih: "snd (pg_insert_entries D num_in (\<lambda>_. False) (k + 2) ?db es) = check_accounts (pg_accts db) es"
      using Cons pg_accts_cong [of ?db db] by simp
    show ?thesis
    proof (cases "ast = asset (Amount e)")
      case True
      have "pg_insert_entries D num_in (\<lambda>_. False) k db (e # es)
          = pg_insert_entries D num_in (\<lambda>_. False) (k + 2) ?db es"
        using Some an True sd Cons.prems by (simp add: Let_def)
      then show ?thesis using ih acc True by simp
    next
      case False
      then show ?thesis using Some an acc by simp
    qed
  qed
qed

lemma post_refines:
  assumes "pg_refines dval db m"
    and "list_all (\<lambda>e. Direction e = Debit \<or> Direction e = Credit) (Entries p)"
    and "pg_tx_Post D num_in db (p, (\<lambda>_. False), None, None) = (db', r1)" "mem_Post D m p = (m', r2)"
  shows "r1 = r2 \<and> pg_refines dval db' m'"
proof -
  let ?db1 = "db\<lparr>ledger_transactions := insert (IdempotencyKey p) (ledger_transactions db)\<rparr>"
  have ref: "pg_accts db = accounts m" "ledger_transactions db = seen m" "pg_legs db = mem_legs dval m"
    using assms(1) by (auto simp: pg_refines_def)
  have tx: "(db', r1) = (case pg_Post D num_in (\<lambda>_. False) p db of (s', None) \<Rightarrow> (s', None) | (_, Some e) \<Rightarrow> (db, Some e))"
    using assms(3) by (simp add: pg_tx_Post_def RunInTx_no_fault)
  have same: "snd (pg_Post D num_in (\<lambda>_. False) p db) = r2"
  proof (cases "posting_Validate D p")
    case (Some e)
    then have "r2 = Some e" using assms(4) by (simp add: mem_Post_def)
    with Some show ?thesis by (simp add: pg_Post_def)
  next
    case None
    then have "list_all (\<lambda>e. (Direction e = Debit \<or> Direction e = Credit) \<and> 0 < dval (amount (Amount e))) (Entries p)"
      using assms(2) by (auto simp: validate_None list_all_iff)
    from pg_insert_entries_checks [OF this, of 1 ?db1] None assms(4) show ?thesis
      by (auto simp: pg_Post_def mem_Post_def ref split: if_splits option.splits)
  qed
  show ?thesis
  proof (cases r2)
    case (Some e)
    then have "r1 = Some e" "db' = db" using tx same by (auto split: prod.splits)
    moreover have "m' = m" using assms(4) Some mem_Post_fail by blast
    ultimately show ?thesis using Some assms(1) by simp
  next
    case None
    then have r: "pg_Post D num_in (\<lambda>_. False) p db = (db', None)" "r1 = None"
      using tx same by (cases "pg_Post D num_in (\<lambda>_. False) p db"; simp)+
    from pg_Post_None [OF r(1)] assms(4) None r(2) show ?thesis
      using ref pg_accts_cong [of db' db]
      by (auto simp: pg_refines_def mem_Post_None mem_legs_def posting_legs_def split: if_splits)
  qed
qed

lemma row_leg_acc: "l_acc (row_leg r) = account_id r"
  by (simp add: row_leg_def)

lemma pg_sum_balance: "pg_sum db acc (side_String n) = legs_balance (pg_legs db) acc n"
  if "n = Debit \<or> n = Credit" "\<forall>r \<in> set (ledger_entries db). side_check (direction r)"
proof -
  have "direction r = side_String n \<longleftrightarrow> side_of (direction r) = n" if "side_check (direction r)" for r :: pg_row
    using that \<open>n = Debit \<or> n = Credit\<close> by (auto simp: side_check_def side_of.simps)
  then have "(if direction r = side_String n then row_amount r else - row_amount r) = leg_delta n (row_leg r)"
    if "r \<in> set (ledger_entries db)" for r
    using that \<open>\<forall>r \<in> set (ledger_entries db). side_check (direction r)\<close>
    by (simp add: leg_delta_def row_leg_def)
  then have eq: "map (\<lambda>r. if direction r = side_String n then row_amount r else - row_amount r)
        (filter (\<lambda>r. account_id r = acc) (ledger_entries db))
      = map (\<lambda>r. leg_delta n (row_leg r)) (filter (\<lambda>r. account_id r = acc) (ledger_entries db))"
    by (intro map_cong [OF refl]) simp
  show ?thesis
    by (simp only: pg_sum_def legs_balance_def pg_legs_def filter_map map_map comp_def row_leg_acc eq)
qed

end

text \<open>What the check constraints keep true of the tables.\<close>

definition tokens_ok :: "pg_ledger \<Rightarrow> bool" where
  "tokens_ok db \<longleftrightarrow> (\<forall>r \<in> set (ledger_entries db). side_check (direction r))
     \<and> (\<forall>i a n. ledger_accounts db i = Some (a, n) \<longrightarrow> side_check n)"

lemma tokens_ok_insert:
  "tokens_ok db \<Longrightarrow> tokens_ok (fst (pg_insert_entries D num_in io k db es))"
proof (induction es arbitrary: k db)
  case Nil
  then show ?case by simp
next
  case (Cons e es)
  have step: "tokens_ok (db\<lparr>ledger_entries := ledger_entries db @ [r]\<rparr>)" if "side_check (direction r)" for r
    using Cons.prems that by (auto simp: tokens_ok_def)
  show ?case
    using Cons step by (auto simp: Let_def split: option.split)
qed

lemma tokens_ok_transactions [simp]: "tokens_ok (db\<lparr>ledger_transactions := x\<rparr>) = tokens_ok db"
  by (simp add: tokens_ok_def)

lemma tokens_ok_Post:
  assumes "tokens_ok db"
  shows "tokens_ok (fst (pg_tx_Post D num_in db call))"
proof -
  obtain p io b c where call: "call = (p, io, b, c)" by (cases call) auto
  have "tokens_ok (fst (pg_Post D num_in io p db))"
    using assms by (auto simp: pg_Post_def intro!: tokens_ok_insert split: option.split)
  then show ?thesis
    using RunInTx_fst [of b c "pg_Post D num_in io p" db] assms by (auto simp: pg_tx_Post_def call)
qed

lemma tokens_ok_register: "tokens_ok db \<Longrightarrow> tokens_ok (fst (pg_call_register reg db call))"
  by (auto simp: pg_call_register_def pg_RegisterAccount_def tokens_ok_def split: prod.splits option.splits)

lemma tokens_ok_reach:
  "store_reach (pg_tx_Post D num_in) (pg_call_register reg) empty_pg_ledger db \<Longrightarrow> tokens_ok db"
proof (induction rule: store_reach.induct)
  case start
  then show ?case by (simp add: tokens_ok_def empty_pg_ledger_def)
next
  case (posted s p s' r)
  then show ?case using tokens_ok_Post [of s D num_in p] by simp
next
  case (registered s a s' r)
  then show ?case using tokens_ok_register [of s reg a] by simp
qed

context pg_numeric
begin

lemma pg_conservation:
  assumes "store_reach (pg_tx_Post D num_in) (pg_call_register reg) empty_pg_ledger db"
  shows "(\<Sum>i | i \<in> dom (ledger_accounts db) \<and> fst (the (ledger_accounts db i)) = A.
      (if snd (the (ledger_accounts db i)) = ''debit'' then 1 else -1)
      * pg_sum db i (snd (the (ledger_accounts db i)))) = 0"
proof -
  have tok: "tokens_ok db" using assms by (rule tokens_ok_reach)
  have sum: "pg_sum db i n = legs_balance (pg_legs db) i (side_of n)" if "side_check n" for i n
    using pg_sum_balance [of "side_of n" db i] tok that by (auto simp: tokens_ok_def side_check_def side_of.simps)
  have dom: "dom (pg_accts db) = dom (ledger_accounts db)" by (auto simp: pg_accts_def)
  have each: "AAsset (the (pg_accts db i)) = fst (the (ledger_accounts db i))
      \<and> normal_sign (Normal (the (pg_accts db i))) * legs_balance (pg_legs db) i (Normal (the (pg_accts db i)))
        = (if snd (the (ledger_accounts db i)) = ''debit'' then 1 else -1)
          * pg_sum db i (snd (the (ledger_accounts db i)))"
    if i: "i \<in> dom (ledger_accounts db)" for i
  proof -
    obtain a n where an: "ledger_accounts db i = Some (a, n)" using i by auto
    then have "side_check n" using tok by (auto simp: tokens_ok_def)
    then show ?thesis
      using an sum [of n i] by (auto simp: pg_accts_def normal_sign_def side_check_def side_of.simps)
  qed
  have "\<forall>a \<in> ran (pg_accts db). Normal a = Debit \<or> Normal a = Credit"
    using pg_accts_two_sided by blast
  from pg.conservation [OF assms pg_legs_two_sided this, of A] show ?thesis
    unfolding dom using each by (simp cong: conj_cong sum.cong_simp)
qed

end

section \<open>Properties\<close>

text \<open>C2. Money is conserved: in every state the in-memory ledger can reach by any sequence of
  account registrations and postings, successful or rejected, whose sides are debits and credits,
  the balance of every account can be derived, and the balances of the accounts of each asset, taken
  with the sign of their normal side, sum to exactly zero.\<close>

theorem ledger_conservation:
  assumes "decimal_lib D dval" and "registry_wf reg"
    and "store_reach (mem_Post D) (mem_RegisterAccount reg) NewMemStore m"
    and "list_all (\<lambda>e. Direction e = Debit \<or> Direction e = Credit) (entries m)"
    and "\<forall>a \<in> ran (accounts m). Normal a = Debit \<or> Normal a = Credit"
  shows "(\<forall>i \<in> dom (accounts m). is_ok (mem_Balance D reg m i))
    \<and> (\<Sum>i | i \<in> dom (accounts m) \<and> AAsset (the (accounts m i)) = A.
         (if Normal (the (accounts m i)) = Debit then 1 else -1)
         * dval (amount (projr (mem_Balance D reg m i)))) = 0"
proof -
  have bal: "is_ok (mem_Balance D reg m i)
      \<and> dval (amount (projr (mem_Balance D reg m i))) = legs_balance (mem_legs dval m) i (Normal (the (accounts m i)))"
    if "i \<in> dom (accounts m)" for i
  proof -
    obtain a where "accounts m i = Some a" using \<open>i \<in> dom (accounts m)\<close> by blast
    then show ?thesis using decimal_lib.mem_balance_derived [OF assms(1-3)] by fastforce
  qed
  have "two_sided (mem_legs dval m)"
    using assms(4) by (simp add: two_sided_def mem_legs_def list_all_iff)
  from decimal_lib.mem_conservation [OF assms(1,3) this assms(5), of A]
  have "(\<Sum>i | i \<in> dom (accounts m) \<and> AAsset (the (accounts m i)) = A.
      normal_sign (Normal (the (accounts m i)))
      * legs_balance (mem_legs dval m) i (Normal (the (accounts m i)))) = 0" .
  moreover have "(\<Sum>i | i \<in> dom (accounts m) \<and> AAsset (the (accounts m i)) = A.
      normal_sign (Normal (the (accounts m i)))
      * legs_balance (mem_legs dval m) i (Normal (the (accounts m i))))
    = (\<Sum>i | i \<in> dom (accounts m) \<and> AAsset (the (accounts m i)) = A.
         (if Normal (the (accounts m i)) = Debit then 1 else -1)
         * dval (amount (projr (mem_Balance D reg m i))))"
    by (rule sum.cong) (auto simp: bal normal_sign_def)
  ultimately show ?thesis using bal by simp
qed

text \<open>A concrete ledger for the witnesses: one USD cash account, one USD revenue account, and one sale.\<close>

definition usd :: "int \<Rightarrow> bigdec money" where
  "usd c = mk_money (bd_make c (-2)) ''USD''"

definition demo_sale :: "bigdec posting" where
  "demo_sale = \<lparr>IdempotencyKey = ''k1'', Entries =
     [\<lparr>AccountID = ''cash'', Direction = Debit, Amount = usd 1250\<rparr>,
      \<lparr>AccountID = ''sales'', Direction = Credit, Amount = usd 1250\<rparr>]\<rparr>"

definition demo_accounts :: "string \<rightharpoonup> account" where
  "demo_accounts = [''cash'' \<mapsto> \<lparr>ID = ''cash'', AAsset = ''USD'', Normal = Debit\<rparr>,
     ''sales'' \<mapsto> \<lparr>ID = ''sales'', AAsset = ''USD'', Normal = Credit\<rparr>]"

definition demo_mem :: "bigdec mem_store" where
  "demo_mem = \<lparr>accounts = demo_accounts, entries = Entries demo_sale, seen = {''k1''}\<rparr>"

lemma demo_valid: "posting_Validate bd_ops demo_sale = None"
  by code_simp

lemma demo_before:
  "store_reach (mem_Post bd_ops) (mem_RegisterAccount init_registry) NewMemStore
     \<lparr>accounts = demo_accounts, entries = [], seen = {}\<rparr>"
proof -
  let ?m1 = "\<lparr>accounts = [''cash'' \<mapsto> \<lparr>ID = ''cash'', AAsset = ''USD'', Normal = Debit\<rparr>], entries = [], seen = {}\<rparr> :: bigdec mem_store"
  have "mem_RegisterAccount init_registry (NewMemStore :: bigdec mem_store)
      \<lparr>ID = ''cash'', AAsset = ''USD'', Normal = Debit\<rparr> = (?m1, None)"
    by (simp add: mem_RegisterAccount_def Lookup_def init_registry_USD NewMemStore_def)
  then have r1: "store_reach (mem_Post bd_ops) (mem_RegisterAccount init_registry) NewMemStore ?m1"
    using start by (rule registered [rotated])
  have "mem_RegisterAccount init_registry ?m1 \<lparr>ID = ''sales'', AAsset = ''USD'', Normal = Credit\<rparr>
      = (\<lparr>accounts = demo_accounts, entries = [], seen = {}\<rparr>, None)"
    by (simp add: mem_RegisterAccount_def Lookup_def init_registry_USD demo_accounts_def)
  then show ?thesis using r1 by (rule registered [rotated])
qed

lemma demo_post:
  "mem_Post bd_ops \<lparr>accounts = demo_accounts, entries = [], seen = {}\<rparr> demo_sale = (demo_mem, None)"
proof -
  have "check_accounts demo_accounts (Entries demo_sale) = None"
    by (simp add: demo_accounts_def demo_sale_def usd_def)
  then show ?thesis
    by (simp add: mem_Post_None demo_valid demo_mem_def) (simp add: demo_sale_def)
qed

lemma demo_reach: "store_reach (mem_Post bd_ops) (mem_RegisterAccount init_registry) NewMemStore demo_mem"
  using demo_before demo_post by (rule posted)

theorem ledger_conservation_witness:
  "(\<Sum>i | i \<in> dom (accounts demo_mem) \<and> AAsset (the (accounts demo_mem i)) = ''USD''.
      (if Normal (the (accounts demo_mem i)) = Debit then 1 else -1)
      * bd_val (amount (projr (mem_Balance bd_ops init_registry demo_mem i)))) = 0"
proof -
  have "list_all (\<lambda>e. Direction e = Debit \<or> Direction e = Credit) (entries demo_mem)"
    by (simp add: demo_mem_def demo_sale_def)
  moreover have "\<forall>a \<in> ran (accounts demo_mem). Normal a = Debit \<or> Normal a = Credit"
    by (auto simp: demo_mem_def demo_accounts_def ran_def split: if_splits)
  ultimately show ?thesis
    using ledger_conservation [OF bd.decimal_lib_axioms init_registry_wf demo_reach] by blast
qed

text \<open>C35. The posting check decides exactly the documented conditions: a posting passes \<open>Validate\<close>
  if and only if it has an idempotency key and at least one entry, every amount is strictly positive
  in a non-empty asset, and within each asset debits minus credits is exactly zero.\<close>

theorem posting_validate_correct:
  assumes "decimal_lib D dval"
  shows "posting_Validate D p = None \<longleftrightarrow>
    IdempotencyKey p \<noteq> [] \<and> Entries p \<noteq> []
    \<and> list_all (\<lambda>e. 0 < dval (amount (Amount e)) \<and> asset (Amount e) \<noteq> []) (Entries p)
    \<and> (\<forall>a. (\<Sum>e\<leftarrow>filter (\<lambda>e. asset (Amount e) = a) (Entries p).
              if Direction e = Credit then - dval (amount (Amount e)) else dval (amount (Amount e))) = 0)"
proof -
  have "asset_net (posting_legs dval p) a = (\<Sum>e\<leftarrow>filter (\<lambda>e. asset (Amount e) = a) (Entries p).
      if Direction e = Credit then - dval (amount (Amount e)) else dval (amount (Amount e)))" for a
    by (simp add: asset_net_def posting_legs_def filter_map comp_def leg_signed_def cong: if_cong)
  then show ?thesis by (simp add: decimal_lib.validate_None [OF assms])
qed

theorem posting_validate_correct_witness:
  "posting_Validate bd_ops demo_sale = None \<and> IdempotencyKey demo_sale \<noteq> []"
  using posting_validate_correct [OF bd.decimal_lib_axioms, of demo_sale] demo_valid by blast

text \<open>Posting is exactly-once: after a successful post, whatever other operations follow, posting
  again under the same idempotency key leaves the ledger unchanged.\<close>

theorem ledger_exactly_once:
  assumes "decimal_lib D dval" and "mem_Post D m p = (m1, None)"
    and "store_reach (mem_Post D) (mem_RegisterAccount reg) m1 m2"
    and "IdempotencyKey q = IdempotencyKey p"
  shows "fst (mem_Post D m2 q) = m2"
  using assms by (rule decimal_lib.mem_exactly_once)

theorem ledger_exactly_once_witness: "fst (mem_Post bd_ops demo_mem demo_sale) = demo_mem"
  by (rule ledger_exactly_once [where reg = init_registry, OF bd.decimal_lib_axioms demo_post start refl])

text \<open>The Postgres store keeps the same law under faults: whatever statements, begins and commits
  fail, in every reachable database the signed sums of the accounts of each asset, as computed by the
  balance query, are zero.\<close>

theorem pg_ledger_conservation:
  assumes "pg_numeric D dval num_in num_out"
    and "store_reach (pg_tx_Post D num_in) (pg_call_register reg) empty_pg_ledger db"
  shows "(\<Sum>i | i \<in> dom (ledger_accounts db) \<and> fst (the (ledger_accounts db i)) = A.
      (if snd (the (ledger_accounts db i)) = ''debit'' then 1 else -1)
      * pg_sum db i (snd (the (ledger_accounts db i)))) = 0"
  using pg_numeric.pg_conservation [OF assms] .

text \<open>The same sale in the Postgres store.\<close>

definition no_fault :: "nat \<Rightarrow> bool" where
  "no_fault k = False"

definition demo_pg :: pg_ledger where
  "demo_pg = \<lparr>ledger_accounts = [''cash'' \<mapsto> (''USD'', ''debit''), ''sales'' \<mapsto> (''USD'', ''credit'')],
     ledger_transactions = {}, ledger_entries = []\<rparr>"

lemma demo_pg_reach:
  "store_reach (pg_tx_Post bd_ops num_in_ref) (pg_call_register init_registry) empty_pg_ledger demo_pg"
proof -
  let ?a = "\<lparr>ID = ''cash'', AAsset = ''USD'', Normal = Debit\<rparr>" and ?b = "\<lparr>ID = ''sales'', AAsset = ''USD'', Normal = Credit\<rparr>"
  let ?d1 = "\<lparr>ledger_accounts = [''cash'' \<mapsto> (''USD'', ''debit'')], ledger_transactions = {}, ledger_entries = []\<rparr>"
  have "pg_call_register init_registry empty_pg_ledger (?a, no_fault) = (?d1, None)"
    by (simp add: pg_call_register_def pg_RegisterAccount_def Lookup_def init_registry_USD no_fault_def
        side_check_def empty_pg_ledger_def)
  then have r1: "store_reach (pg_tx_Post bd_ops num_in_ref) (pg_call_register init_registry) empty_pg_ledger ?d1"
    using start by (rule registered [rotated])
  have "pg_call_register init_registry ?d1 (?b, no_fault) = (demo_pg, None)"
    by (simp add: pg_call_register_def pg_RegisterAccount_def Lookup_def init_registry_USD no_fault_def
        side_check_def demo_pg_def)
  then show ?thesis using r1 by (rule registered [rotated])
qed

theorem pg_ledger_conservation_witness:
  "\<exists>db. pg_tx_Post bd_ops num_in_ref demo_pg (demo_sale, no_fault, None, None) = (db, None)
     \<and> pg_sum db ''cash'' ''debit'' = 1250 / 100
     \<and> (\<Sum>i | i \<in> dom (ledger_accounts db) \<and> fst (the (ledger_accounts db i)) = ''USD''.
          (if snd (the (ledger_accounts db i)) = ''debit'' then 1 else -1)
          * pg_sum db i (snd (the (ledger_accounts db i)))) = 0"
proof -
  have v: "num_in_ref (bd_to_string (bd_make 1250 (-2))) = 1250 / 100"
    using bd_pg.num_in_amount [of "bd_make 1250 (-2)"]
    by (simp add: bd_ops_def bd_make_val power_int_def power2_eq_square)
  have t: "d_to_string bd_ops = bd_to_string" by (simp add: bd_ops_def)
  obtain db where post: "pg_tx_Post bd_ops num_in_ref demo_pg (demo_sale, no_fault, None, None) = (db, None)"
    and sum: "pg_sum db ''cash'' ''debit'' = 1250 / 100"
    by (simp add: pg_tx_Post_def RunInTx_no_fault pg_Post_def demo_valid no_fault_def demo_pg_def)
      (simp add: demo_sale_def usd_def t v Let_def side_check_def pg_sum_def no_fault_def)
  from demo_pg_reach post have "store_reach (pg_tx_Post bd_ops num_in_ref) (pg_call_register init_registry) empty_pg_ledger db"
    by (rule posted)
  from pg_ledger_conservation [OF bd_pg.pg_numeric_axioms this] post sum show ?thesis by blast
qed

text \<open>C17. The Postgres store refines the in-memory one: from matching states, a posting of debits and
  credits in a transaction that meets no fault ends with the same outcome, error included, in matching
  states again.\<close>

theorem pg_post_refines_mem:
  assumes "pg_numeric D dval num_in num_out" and "pg_refines dval db m"
    and "list_all (\<lambda>e. Direction e = Debit \<or> Direction e = Credit) (Entries p)"
  shows "snd (pg_tx_Post D num_in db (p, (\<lambda>_. False), None, None)) = snd (mem_Post D m p)
    \<and> pg_refines dval (fst (pg_tx_Post D num_in db (p, (\<lambda>_. False), None, None))) (fst (mem_Post D m p))"
  using pg_numeric.post_refines [OF assms(1,2,3) prod.collapse [symmetric] prod.collapse [symmetric]] by blast

theorem pg_post_refines_mem_witness:
  "snd (pg_tx_Post bd_ops num_in_ref demo_pg (demo_sale, (\<lambda>_. False), None, None)) = None"
proof -
  have "pg_refines bd_val demo_pg \<lparr>accounts = demo_accounts, entries = [], seen = {}\<rparr>"
    by (auto simp: pg_refines_def demo_pg_def pg_accts_def demo_accounts_def fun_eq_iff pg_legs_def
        mem_legs_def side_of.simps)
  moreover have "list_all (\<lambda>e. Direction e = Debit \<or> Direction e = Credit) (Entries demo_sale)"
    by (simp add: demo_sale_def)
  ultimately show ?thesis
    using pg_post_refines_mem [OF bd_pg.pg_numeric_axioms] demo_post by simp
qed

text \<open>Nothing rejects a side that is neither a debit nor a credit in memory: such an entry counts
  as a debit in \<open>Validate\<close> and against either normal side in \<open>Balance\<close>. Posted against a credit of the
  same amount it is accepted, and the two debit-normal accounts it touches end up with equal negative
  balances, so the signed sum of the balances is not zero.\<close>

theorem unknown_side_breaks_conservation:
  assumes "decimal_lib D dval" and "registry_wf reg" and "reg ast = Some x"
    and "0 < dval v" and "k \<noteq> [] " and "acc1 \<noteq> acc2"
    and "m = \<lparr>accounts = [acc1 \<mapsto> \<lparr>ID = acc1, AAsset = ast, Normal = Debit\<rparr>,
                acc2 \<mapsto> \<lparr>ID = acc2, AAsset = ast, Normal = Debit\<rparr>], entries = [], seen = {}\<rparr>"
    and "p = \<lparr>IdempotencyKey = k, Entries =
                [\<lparr>AccountID = acc1, Direction = OtherSide 2, Amount = mk_money v ast\<rparr>,
                 \<lparr>AccountID = acc2, Direction = Credit, Amount = mk_money v ast\<rparr>]\<rparr>"
  shows "\<exists>m' b1 b2. mem_Post D m p = (m', None)
    \<and> mem_Balance D reg m' acc1 = Inr b1 \<and> dval (amount b1) = - dval v
    \<and> mem_Balance D reg m' acc2 = Inr b2 \<and> dval (amount b2) = - dval v"
proof -
  have ne: "ast \<noteq> []" using assms(2,3) by (auto simp: registry_wf_def)
  have "\<forall>a. asset_net (posting_legs dval p) a = 0"
    by (auto simp: assms(8) asset_net_def posting_legs_def leg_signed_def)
  then have val: "posting_Validate D p = None"
    using ne assms(4,5) by (simp add: decimal_lib.validate_None [OF assms(1)] assms(8))
  obtain z where z: "Zero D reg ast = Inr z" "asset z = ast" "dval (amount z) = 0"
    using decimal_lib.zero_ok [where reg = reg and ast = ast, OF assms(1,3)] by blast
  let ?m = "m\<lparr>seen := {k}, entries := Entries p\<rparr>"
  have post: "mem_Post D m p = (?m, None)"
    using val assms(6) by (simp add: mem_Post_None assms(7,8))
  have bal: "\<exists>b. mem_Balance D reg ?m i = Inr b \<and> dval (amount b) = - dval v" if "i = acc1 \<or> i = acc2" for i
    using decimal_lib.balance_loop_ok [OF assms(1) z(2) ne, of "Entries p" i Debit] that assms(6) z
    by (auto simp: mem_Balance_def mustZero_def assms(7,8) legs_balance_def leg_delta_def)
  show ?thesis using post bal [of acc1] bal [of acc2] by blast
qed

theorem unknown_side_breaks_conservation_witness:
  "\<exists>m'. mem_Post bd_ops \<lparr>accounts = [''a'' \<mapsto> \<lparr>ID = ''a'', AAsset = ''USD'', Normal = Debit\<rparr>,
                ''b'' \<mapsto> \<lparr>ID = ''b'', AAsset = ''USD'', Normal = Debit\<rparr>], entries = [], seen = {}\<rparr>
        \<lparr>IdempotencyKey = ''k'', Entries =
           [\<lparr>AccountID = ''a'', Direction = OtherSide 2, Amount = mk_money (bd_make 5 0) ''USD''\<rparr>,
            \<lparr>AccountID = ''b'', Direction = Credit, Amount = mk_money (bd_make 5 0) ''USD''\<rparr>]\<rparr> = (m', None)"
proof -
  have "0 < bd_val (bd_make 5 0)" by (simp add: bd_make_val)
  from unknown_side_breaks_conservation [where reg = init_registry and ast = "''USD''" and k = "''k''"
      and ?acc1.0 = "''a''" and ?acc2.0 = "''b''", OF bd.decimal_lib_axioms init_registry_wf init_registry_USD this _ _ refl refl]
  show ?thesis by auto
qed

end
