(* ===== verification/Apperr.thy ===== *)
theory Apperr
  imports Go_Prelude
begin

text \<open>
  \<open>platform/apperr\<close>: coded application errors. A Go error value is a chain: a plain text, an
  application error with an optional cause, or a text wrapped around another error
  (\<open>fmt.Errorf("...: %w", err)\<close>). Parameter values are held as the text \<open>fmt.Fprint\<close> gives them. The
  permanence flag read through the chain is what every messaging component bases its retry decision
  on.
\<close>

section \<open>apperr.go\<close>

record app_error =
  acode :: string
  status :: int
  params :: "string \<rightharpoonup> string"
  permanent :: bool
  msg :: string

datatype go_err =
    ErrText string
  | ErrApp app_error "go_err option"
  | ErrWrap string go_err

record registration =
  reg_status :: int
  reg_permanent :: bool
  reg_message :: string
  reg_params :: "string list"

type_synonym code_registry = "string \<rightharpoonup> registration"

text \<open>\<open>Register\<close> panics on a duplicate code: \<open>None\<close>.\<close>

definition app_Register ::
  "code_registry \<Rightarrow> string \<Rightarrow> int \<Rightarrow> bool \<Rightarrow> string \<Rightarrow> string list \<Rightarrow> code_registry option" where
  "app_Register reg code st perm m ps =
     (case reg code of
        Some _ \<Rightarrow> None
      | None \<Rightarrow> Some (reg(code \<mapsto> \<lparr>reg_status = st, reg_permanent = perm, reg_message = m, reg_params = ps\<rparr>)))"

definition app_New :: "code_registry \<Rightarrow> string \<Rightarrow> app_error" where
  "app_New reg code =
     (case reg code of
        None \<Rightarrow> \<lparr>acode = code, status = 500, params = Map.empty, permanent = False, msg = code\<rparr>
      | Some r \<Rightarrow> \<lparr>acode = code, status = reg_status r, params = Map.empty,
                    permanent = reg_permanent r, msg = reg_message r\<rparr>)"

definition app_Newf :: "code_registry \<Rightarrow> string \<Rightarrow> string \<Rightarrow> app_error" where
  "app_Newf reg code rendered = (app_New reg code)\<lparr>msg := rendered\<rparr>"

definition app_Wrap :: "code_registry \<Rightarrow> go_err \<Rightarrow> string \<Rightarrow> go_err" where
  "app_Wrap reg cause code = ErrApp (app_New reg code) (Some cause)"

definition app_Wrapf :: "code_registry \<Rightarrow> go_err option \<Rightarrow> string \<Rightarrow> string \<Rightarrow> go_err" where
  "app_Wrapf reg cause code rendered = ErrApp ((app_New reg code)\<lparr>msg := rendered\<rparr>) cause"

definition WithParams :: "app_error \<Rightarrow> (string \<rightharpoonup> string) \<Rightarrow> app_error" where
  "WithParams e ps = e\<lparr>params := params e ++ ps\<rparr>"

definition WithParam :: "app_error \<Rightarrow> string \<Rightarrow> string \<Rightarrow> app_error" where
  "WithParam e k v = WithParams e [k \<mapsto> v]"

text \<open>\<open>strings.IndexByte\<close>.\<close>

fun index_byte :: "string \<Rightarrow> char \<Rightarrow> nat option" where
  "index_byte [] c = None"
| "index_byte (x # xs) c = (if x = c then Some 0 else map_option Suc (index_byte xs c))"

lemma index_byte_Some: "index_byte s c = Some i \<Longrightarrow> i < length s \<and> s ! i = c"
  by (induction s arbitrary: i) (auto split: if_splits)

text \<open>One round of the template loop: the position of the first opening brace and the distance to
  the closing brace after it.\<close>

definition next_placeholder :: "string \<Rightarrow> (nat \<times> nat) option" where
  "next_placeholder m =
     (case index_byte m CHR ''{'' of
        None \<Rightarrow> None
      | Some op \<Rightarrow> (case index_byte (drop op m) CHR ''}'' of None \<Rightarrow> None | Some cl \<Rightarrow> Some (op, cl)))"

lemma next_placeholder_Some:
  "next_placeholder m = Some (op, cl) \<Longrightarrow> op + cl < length m \<and> m ! op = CHR ''{'' \<and> m ! (op + cl) = CHR ''}''"
  by (auto simp: next_placeholder_def split: option.splits dest!: index_byte_Some)

function renderTemplate :: "string \<Rightarrow> (string \<rightharpoonup> string) \<Rightarrow> string" where
  "renderTemplate m ps =
     (case next_placeholder m of
        None \<Rightarrow> m
      | Some (op, cl) \<Rightarrow>
          (let name = take (cl - 1) (drop (op + 1) m)
           in take op m @
              (case ps name of
                 Some v \<Rightarrow> if name \<noteq> [] then v else take (cl + 1) (drop op m)
               | None \<Rightarrow> take (cl + 1) (drop op m)) @
              renderTemplate (drop (op + cl + 1) m) ps))"
  by pat_completeness auto
termination
  by (relation "measure (\<lambda>(m, _). length m)") (auto dest: next_placeholder_Some)

declare renderTemplate.simps [simp del]

text \<open>The names in order of first occurrence; the Go function sorts them afterwards.\<close>

function template_scan :: "string \<Rightarrow> string list \<Rightarrow> string list" where
  "template_scan m vars =
     (case next_placeholder m of
        None \<Rightarrow> vars
      | Some (op, cl) \<Rightarrow>
          (let name = take (cl - 1) (drop (op + 1) m)
           in template_scan (drop (op + cl + 1) m)
                (if name \<noteq> [] \<and> name \<notin> set vars then vars @ [name] else vars)))"
  by pat_completeness auto
termination
  by (relation "measure (\<lambda>(m, _). length m)") (auto dest: next_placeholder_Some)

declare template_scan.simps [simp del]

definition Message :: "app_error \<Rightarrow> string" where
  "Message e = renderTemplate (msg e) (params e)"

fun err_Error :: "go_err \<Rightarrow> string" where
  "err_Error (ErrText s) = s"
| "err_Error (ErrApp e None) = acode e @ '': '' @ Message e"
| "err_Error (ErrApp e (Some c)) = acode e @ '': '' @ Message e @ '': '' @ err_Error c"
| "err_Error (ErrWrap p e) = p @ '': '' @ err_Error e"

text \<open>\<open>errors.As(err, &ae)\<close>: the first application error of the chain.\<close>

fun as_app :: "go_err \<Rightarrow> app_error option" where
  "as_app (ErrText _) = None"
| "as_app (ErrApp e _) = Some e"
| "as_app (ErrWrap _ e) = as_app e"

definition app_Code :: "go_err option \<Rightarrow> string" where
  "app_Code err =
     (case err of
        None \<Rightarrow> ''INTERNAL''
      | Some e \<Rightarrow> (case as_app e of Some ae \<Rightarrow> acode ae | None \<Rightarrow> ''INTERNAL''))"

definition IsPermanent :: "go_err \<Rightarrow> bool" where
  "IsPermanent err = (case as_app err of Some ae \<Rightarrow> permanent ae | None \<Rightarrow> False)"

section \<open>codes.go\<close>

definition platform_codes :: "(string \<times> int \<times> bool \<times> string) list" where
  "platform_codes =
     [(''INTERNAL'', 500, False, ''internal error''),
      (''VALIDATION_FAILED'', 400, True, ''validation failed''),
      (''AUTH_UNAUTHENTICATED'', 401, True, ''authentication required''),
      (''AUTH_FORBIDDEN'', 403, True, ''permission denied''),
      (''MESSAGING_MALFORMED_PAYLOAD'', 400, True, ''malformed message payload''),
      (''RATE_LIMITED'', 429, True, ''rate limit exceeded''),
      (''RATE_LIMIT_UNAVAILABLE'', 503, False, ''rate limiter unavailable''),
      (''TENANT_REQUIRED'', 400, True, ''tenant context required'')]"

fun register_all :: "code_registry \<Rightarrow> (string \<times> int \<times> bool \<times> string) list \<Rightarrow> code_registry option" where
  "register_all reg [] = Some reg"
| "register_all reg ((c, st, perm, m) # rest) =
     (case app_Register reg c st perm m [] of None \<Rightarrow> None | Some reg' \<Rightarrow> register_all reg' rest)"

section \<open>Lemmas\<close>

text \<open>Registration at process start does not panic.\<close>

lemma register_all_distinct:
  assumes "distinct (map fst cs)" "set (map fst cs) \<inter> dom reg = {}"
  shows "\<exists>reg'. register_all reg cs = Some reg' \<and> dom reg' = dom reg \<union> set (map fst cs)"
  using assms
proof (induction cs arbitrary: reg)
  case Nil
  then show ?case by simp
next
  case (Cons x cs)
  obtain c st p m where x: "x = (c, st, p, m)" by (cases x) auto
  let ?reg = "reg(c \<mapsto> \<lparr>reg_status = st, reg_permanent = p, reg_message = m, reg_params = []\<rparr>)"
  have "reg c = None" using Cons.prems x by auto
  then have "register_all reg (x # cs) = register_all ?reg cs" by (simp add: x app_Register_def)
  moreover have "\<exists>reg'. register_all ?reg cs = Some reg' \<and> dom reg' = dom ?reg \<union> set (map fst cs)"
    by (rule Cons.IH) (use Cons.prems x in \<open>simp_all only: list.map fst_conv distinct.simps dom_fun_upd
        list.set Int_insert_left Int_insert_right option.simps if_False split: if_splits\<close>, auto)
  ultimately show ?case by (auto simp: x)
qed

text \<open>Placeholders without a parameter stay verbatim.\<close>

lemma render_no_params: "renderTemplate m Map.empty = m"
proof (induction m "Map.empty :: string \<rightharpoonup> string" rule: renderTemplate.induct)
  case (1 m)
  show ?case
  proof (cases "next_placeholder m")
    case None
    then show ?thesis by (subst renderTemplate.simps) simp
  next
    case (Some oc)
    obtain op cl where oc: "oc = (op, cl)" by (cases oc)
    have "renderTemplate (drop (op + cl + 1) m) Map.empty = drop (op + cl + 1) m"
      using 1 Some oc by blast
    moreover have "m = take op m @ take (cl + 1) (drop op m) @ drop (op + cl + 1) m"
      by (metis add.assoc append_take_drop_id add.commute drop_drop)
    ultimately show ?thesis
      using Some oc by (subst renderTemplate.simps) (simp add: Let_def)
  qed
qed

lemma IsPermanent_wrap [simp]: "IsPermanent (ErrWrap p e) = IsPermanent e"
  by (simp add: IsPermanent_def)

lemma as_app_chain: "as_app e = Some ae \<Longrightarrow> app_Code (Some e) = acode ae \<and> IsPermanent e = permanent ae"
  by (simp add: app_Code_def IsPermanent_def)

end
