(* ===== verification/Kafka_Consumer.thy ===== *)
theory Kafka_Consumer
  imports Apperr
begin

text \<open>
  \<open>platform/messaging/kafka\<close>, the consuming side: records (\<open>record.go\<close>), the in-process retry with
  dead-letter routing (\<open>dlq.go\<close>) and the poll loop with its commits, seek-backs and redelivery backoff
  (\<open>run.go\<close>). The franz-go client and the broker are outside the repository: their part is the state
  the client keeps for a partition (its fetch position, its committed offset, whether it is paused),
  changed only by the calls the loop makes, and the documented shape of a poll result. What a handler
  or a producer does is a function of a world \<open>'w\<close> that is threaded through the calls.
\<close>

section \<open>record.go\<close>

record kafka_record =
  Topic :: string
  Key :: string
  Value :: string
  Headers :: "string \<rightharpoonup> string"
  Partition :: int
  Offset :: int

record kgo_record =
  kTopic :: string
  kKey :: string
  kValue :: string
  kHeaders :: "(string \<times> string) list"
  kPartition :: int
  kOffset :: int

definition HeadersFromKGO :: "(string \<times> string) list \<Rightarrow> string \<rightharpoonup> string" where
  "HeadersFromKGO hs = foldl (\<lambda>m (k, v). m(k \<mapsto> v)) Map.empty hs"

definition RecordFromKGO :: "kgo_record \<Rightarrow> kafka_record" where
  "RecordFromKGO rec =
     \<lparr>Topic = kTopic rec, Key = kKey rec, Value = kValue rec, Headers = HeadersFromKGO (kHeaders rec),
      Partition = kPartition rec, Offset = kOffset rec\<rparr>"

section \<open>headers.go\<close>

definition HeaderMessageID :: string where "HeaderMessageID = ''message-id''"
definition HeaderEventType :: string where "HeaderEventType = ''event-type''"
definition HeaderDLTError :: string where "HeaderDLTError = ''x-error''"
definition HeaderDLTAttempts :: string where "HeaderDLTAttempts = ''x-attempts''"
definition HeaderDLTOriginalTopic :: string where "HeaderDLTOriginalTopic = ''x-original-topic''"
definition HeaderDLTErrorCode :: string where "HeaderDLTErrorCode = ''x-error-code''"

section \<open>What a handler can do\<close>

text \<open>The calls of the wrappers: the wrapped handler, the sleep between attempts (an error when the
  context ended first), \<open>ctx.Err()\<close>, \<open>Producer.Produce\<close> and \<open>time.Now\<close> (nanoseconds).\<close>

record 'w env =
  handle :: "'w \<Rightarrow> kafka_record \<Rightarrow> 'w \<times> go_err option"
  sleep :: "'w \<Rightarrow> 'w \<times> go_err option"
  ctx_err :: "'w \<Rightarrow> go_err option"
  produce :: "'w \<Rightarrow> kafka_record \<Rightarrow> 'w \<times> go_err option"
  now :: "'w \<Rightarrow> 'w \<times> int"

section \<open>dlq.go\<close>

datatype loop_result = LoopOk | LoopCancelled go_err | LoopFailed go_err int

function retry_loop :: "'w env \<Rightarrow> int \<Rightarrow> int \<Rightarrow> kafka_record \<Rightarrow> 'w \<Rightarrow> 'w \<times> loop_result" where
  "retry_loop E max_att attempt rec w =
     (case handle E w rec of
        (w1, None) \<Rightarrow> (w1, LoopOk)
      | (w1, Some e) \<Rightarrow>
          if IsPermanent e then (w1, LoopFailed e attempt)
          else if attempt < max_att then
            (case sleep E w1 of
               (w2, Some c) \<Rightarrow> (w2, LoopCancelled c)
             | (w2, None) \<Rightarrow> retry_loop E max_att (attempt + 1) rec w2)
          else (w1, LoopFailed e attempt))"
  by pat_completeness auto
termination
  by (relation "measure (\<lambda>(_, m, a, _, _). nat (m - a))") auto

declare retry_loop.simps [simp del]

definition dlt_record :: "(string \<Rightarrow> string) \<Rightarrow> kafka_record \<Rightarrow> go_err \<Rightarrow> int \<Rightarrow> kafka_record" where
  "dlt_record dlt rec e attempts =
     (let hs = (Headers rec)(HeaderDLTError \<mapsto> err_Error e, HeaderDLTAttempts \<mapsto> itoa attempts,
                             HeaderDLTOriginalTopic \<mapsto> Topic rec)
      in \<lparr>Topic = dlt (Topic rec), Key = Key rec, Value = Value rec,
          Headers = (case as_app e of Some ae \<Rightarrow> hs(HeaderDLTErrorCode \<mapsto> acode ae) | None \<Rightarrow> hs),
          Partition = 0, Offset = 0\<rparr>)"

definition default_dlt :: "string \<Rightarrow> string" where
  "default_dlt t = t @ ''.DLT''"

definition WithRetry ::
  "'w env \<Rightarrow> int \<Rightarrow> (string \<Rightarrow> string) option \<Rightarrow> 'w \<Rightarrow> kafka_record \<Rightarrow> 'w \<times> go_err option" where
  "WithRetry E maxAttempts dltTopic w rec =
     (let m = (if maxAttempts \<le> 0 then 1 else maxAttempts);
          dlt = (case dltTopic of None \<Rightarrow> default_dlt | Some f \<Rightarrow> f)
      in case retry_loop E m 1 rec w of
           (w1, LoopOk) \<Rightarrow> (w1, None)
         | (w1, LoopCancelled c) \<Rightarrow> (w1, Some c)
         | (w1, LoopFailed e n) \<Rightarrow>
             (case ctx_err E w1 of
                Some c \<Rightarrow> (w1, Some c)
              | None \<Rightarrow>
                  (case produce E w1 (dlt_record dlt rec e n) of
                     (w2, Some pe) \<Rightarrow> (w2, Some (ErrWrap (''kafka: dlq: produce to DLT '' @ dlt (Topic rec)) pe))
                   | (w2, None) \<Rightarrow> (w2, None))))"

section \<open>run.go\<close>

type_synonym tp = "string \<times> int"

record backoff_state =
  failures :: nat
  until :: "int option"

record consumer_state =
  backoffs :: "tp \<rightharpoonup> backoff_state"
  paused :: "tp set"
  position :: "tp \<Rightarrow> int"
  committed :: "tp \<Rightarrow> int"

definition redeliveryBackoffFloor :: int where "redeliveryBackoffFloor = 100000000"
definition redeliveryBackoffCap :: int where "redeliveryBackoffCap = 5000000000"

text \<open>\<open>redeliveryBackoffFloor << (failures - 1)\<close> on a 64-bit \<open>Duration\<close>, then the two guards.\<close>

definition redelivery_delay :: "nat \<Rightarrow> int" where
  "redelivery_delay f =
     (let d = wrap64 (redeliveryBackoffFloor * 2 ^ (f - 1))
      in if d \<le> 0 \<or> redeliveryBackoffCap < d then redeliveryBackoffCap else d)"

definition expired :: "int \<Rightarrow> backoff_state \<Rightarrow> bool" where
  "expired t b = (case until b of None \<Rightarrow> False | Some u \<Rightarrow> u \<le> t)"

definition resume_expired :: "int \<Rightarrow> consumer_state \<Rightarrow> consumer_state" where
  "resume_expired t st =
     st\<lparr>backoffs := (\<lambda>k. map_option (\<lambda>b. if expired t b then b\<lparr>until := None\<rparr> else b) (backoffs st k)),
        paused := {k \<in> paused st. case backoffs st k of None \<Rightarrow> True | Some b \<Rightarrow> \<not> expired t b}\<rparr>"

text \<open>A partition processor returns the last handled record and the first one that was not.\<close>

type_synonym 'w processor = "'w \<Rightarrow> kgo_record list \<Rightarrow> 'w \<times> kgo_record option \<times> kgo_record option"

fun run_records ::
  "('w \<Rightarrow> kafka_record \<Rightarrow> 'w \<times> go_err option) \<Rightarrow> 'w \<Rightarrow> kgo_record list \<Rightarrow> kgo_record option
     \<Rightarrow> 'w \<times> kgo_record option \<times> kgo_record option" where
  "run_records h w [] lst = (w, lst, None)"
| "run_records h w (rec # recs) lst =
     (case h w (RecordFromKGO rec) of
        (w1, Some e) \<Rightarrow> (w1, lst, Some rec)
      | (w1, None) \<Rightarrow> run_records h w1 recs (Some rec))"

definition Run_processor :: "('w \<Rightarrow> kafka_record \<Rightarrow> 'w \<times> go_err option) \<Rightarrow> 'w processor" where
  "Run_processor h w recs = run_records h w recs None"

type_synonym 'w batch_handler = "'w \<Rightarrow> kafka_record list \<Rightarrow> 'w \<times> int \<times> go_err option"

definition RunBatch_processor :: "'w batch_handler \<Rightarrow> 'w processor" where
  "RunBatch_processor bh w recs =
     (if recs = [] then (w, None, None)
      else case bh w (map RecordFromKGO recs) of
          (w1, n, err) \<Rightarrow>
            (let p = (if n < 0 then 0 else n);
                 processed = (if int (length recs) < p then int (length recs) else p)
             in (w1,
                 if 0 < processed then Some (recs ! (nat processed - 1)) else None,
                 if err \<noteq> None \<and> processed < int (length recs) then Some (recs ! nat processed) else None)))"

definition rec_tp :: "kgo_record \<Rightarrow> tp" where
  "rec_tp rec = (kTopic rec, kPartition rec)"

text \<open>One goroutine per fetched partition; their results are collected under the mutex.\<close>

fun process_fetches ::
  "'w processor \<Rightarrow> 'w \<Rightarrow> (tp \<times> kgo_record list) list \<Rightarrow> 'w \<times> kgo_record list \<times> (tp \<rightharpoonup> kgo_record)" where
  "process_fetches proc w [] = (w, [], Map.empty)"
| "process_fetches proc w ((k, recs) # ps) =
     (case proc w recs of
        (w1, lst, bad) \<Rightarrow>
          (case process_fetches proc w1 ps of
             (w2, good, failed) \<Rightarrow>
               (w2, (case lst of None \<Rightarrow> good | Some r \<Rightarrow> r # good),
                (case bad of None \<Rightarrow> failed | Some r \<Rightarrow> failed(rec_tp r \<mapsto> r)))))"

text \<open>\<open>PollFetches\<close> moves the position of every fetched partition past its last record, committed or
  not; \<open>CommitRecords\<close> commits the offset after each given record; \<open>SetOffsets\<close> moves the position
  back.\<close>

definition advance :: "(tp \<times> kgo_record list) list \<Rightarrow> (tp \<Rightarrow> int) \<Rightarrow> tp \<Rightarrow> int" where
  "advance ps pos = foldl (\<lambda>f (k, recs). if recs = [] then f else f(k := kOffset (last recs) + 1)) pos ps"

definition commit_offsets :: "kgo_record list \<Rightarrow> (tp \<Rightarrow> int) \<Rightarrow> tp \<Rightarrow> int" where
  "commit_offsets good com = foldl (\<lambda>f r. f(rec_tp r := kOffset r + 1)) com good"

definition seek_failed :: "(tp \<rightharpoonup> kgo_record) \<Rightarrow> (tp \<Rightarrow> int) \<Rightarrow> tp \<Rightarrow> int" where
  "seek_failed failed pos k = (case failed k of None \<Rightarrow> pos k | Some r \<Rightarrow> kOffset r)"

definition clear_backoffs :: "kgo_record list \<Rightarrow> (tp \<rightharpoonup> kgo_record) \<Rightarrow> (tp \<rightharpoonup> backoff_state) \<Rightarrow> tp \<rightharpoonup> backoff_state" where
  "clear_backoffs good failed bo k = (if k \<in> rec_tp ` set good \<and> failed k = None then None else bo k)"

definition fail_backoffs :: "int \<Rightarrow> (tp \<rightharpoonup> kgo_record) \<Rightarrow> (tp \<rightharpoonup> backoff_state) \<Rightarrow> tp \<rightharpoonup> backoff_state" where
  "fail_backoffs t failed bo k =
     (case failed k of
        None \<Rightarrow> bo k
      | Some _ \<Rightarrow>
          (let f = (case bo k of None \<Rightarrow> 0 | Some b \<Rightarrow> failures b) + 1
           in Some \<lparr>failures = f, until = Some (t + redelivery_delay f)\<rparr>))"

definition poll_iteration ::
  "'w processor \<Rightarrow> int \<Rightarrow> int \<Rightarrow> bool \<Rightarrow> (tp \<times> kgo_record list) list \<Rightarrow> 'w \<Rightarrow> consumer_state \<Rightarrow> 'w \<times> consumer_state" where
  "poll_iteration proc t1 t2 commit_ok ps w st =
     (let st1 = resume_expired t1 st
      in case process_fetches proc w ps of
           (w1, good, failed) \<Rightarrow>
             (w1, st1\<lparr>position := seek_failed failed (advance ps (position st1)),
                      committed := (if commit_ok then commit_offsets good (committed st1) else committed st1),
                      backoffs := fail_backoffs t2 failed (clear_backoffs good failed (backoffs st1)),
                      paused := paused st1 \<union> dom failed\<rparr>))"

section \<open>The contract of a partition processor\<close>

text \<open>A processor handles a prefix of the records, reports the last one of it, and reports the record
  after the prefix, if there is one, as the first bad one.\<close>

definition first_of :: "'a list \<Rightarrow> 'a option" where
  "first_of xs = (case xs of [] \<Rightarrow> None | x # _ \<Rightarrow> Some x)"

definition last_of :: "'a list \<Rightarrow> 'a option" where
  "last_of xs = (if xs = [] then None else Some (last xs))"

text \<open>What the client documents of one poll: at most one batch per partition, none of a paused one;
  a batch holds, in offset order, every record of the log from the position to the end of the batch.\<close>

definition batch_wf :: "(tp \<Rightarrow> int set) \<Rightarrow> consumer_state \<Rightarrow> tp \<Rightarrow> kgo_record list \<Rightarrow> bool" where
  "batch_wf tlog st k recs \<longleftrightarrow>
     k \<notin> paused st \<and> (\<forall>r \<in> set recs. rec_tp r = k) \<and> sorted_wrt (<) (map kOffset recs)
     \<and> (recs \<noteq> [] \<longrightarrow> {o' \<in> tlog k. position st k \<le> o' \<and> o' \<le> kOffset (last recs)} = kOffset ` set recs)"

definition fetch_wf :: "(tp \<Rightarrow> int set) \<Rightarrow> consumer_state \<Rightarrow> (tp \<times> kgo_record list) list \<Rightarrow> bool" where
  "fetch_wf tlog st ps \<longleftrightarrow> distinct (map fst ps) \<and> (\<forall>(k, recs) \<in> set ps. batch_wf tlog st k recs)"

definition handled_in :: "(tp \<rightharpoonup> kgo_record) \<Rightarrow> (tp \<times> kgo_record list) list \<Rightarrow> (tp \<times> int) set" where
  "handled_in failed ps =
     {(k, kOffset r) | k recs r. (k, recs) \<in> set ps \<and> r \<in> set (takeWhile (\<lambda>x. Some x \<noteq> failed k) recs)}"

text \<open>The runs of a consumer over a log: polls, and rebalances or restarts that put the position of
  some partitions back to what is committed. The last component collects the handled offsets.\<close>

inductive consumer_reach ::
  "'w processor \<Rightarrow> (tp \<Rightarrow> int set) \<Rightarrow> 'w \<Rightarrow> consumer_state \<Rightarrow> (tp \<times> int) set \<Rightarrow> bool"
  for proc tlog where
  begin_run: "(\<forall>k. committed st k = position st k \<and> (\<forall>o' \<in> tlog k. position st k \<le> o')) \<Longrightarrow>
     consumer_reach proc tlog w st {}"
| poll: "consumer_reach proc tlog w st H \<Longrightarrow> fetch_wf tlog (resume_expired t1 st) ps \<Longrightarrow>
     process_fetches proc w ps = (w1, good, failed) \<Longrightarrow>
     poll_iteration proc t1 t2 commit_ok ps w st = (w2, st2) \<Longrightarrow>
     consumer_reach proc tlog w2 st2 (H \<union> handled_in failed ps)"
| rebalance: "consumer_reach proc tlog w st H \<Longrightarrow>
     consumer_reach proc tlog w (st\<lparr>position := (\<lambda>k. if k \<in> S then committed st k else position st k)\<rparr>) H"

lemma sorted_offsets_split:
  assumes "sorted_wrt (<) (map kOffset (g @ r # rest))"
  shows "takeWhile (\<lambda>x. Some x \<noteq> Some r) (g @ r # rest) = g"
    and "\<And>x. x \<in> set g \<Longrightarrow> kOffset x < kOffset r"
    and "\<And>x. x \<in> set rest \<Longrightarrow> kOffset r < kOffset x"
  using assms by (auto simp: sorted_wrt_append takeWhile_append intro!: takeWhile_eq_all_conv [THEN iffD2])

lemma offsets_le_last:
  "sorted_wrt (<) (map kOffset g) \<Longrightarrow> x \<in> set g \<Longrightarrow> kOffset x \<le> kOffset (last g)"
  by (induction g rule: rev_induct) (auto simp: sorted_wrt_append)

lemma advance_other: "k \<notin> fst ` set ps \<Longrightarrow> advance ps pos k = pos k"
  unfolding advance_def by (induction ps arbitrary: pos) auto

lemma advance_at:
  "distinct (map fst ps) \<Longrightarrow> (k, recs) \<in> set ps \<Longrightarrow>
     advance ps pos k = (if recs = [] then pos k else kOffset (last recs) + 1)"
proof (induction ps arbitrary: pos)
  case Nil
  then show ?case by simp
next
  case (Cons p ps)
  obtain k' recs' where p: "p = (k', recs')" by (cases p)
  let ?pos = "if recs' = [] then pos else pos(k' := kOffset (last recs') + 1)"
  have step: "advance (p # ps) pos = advance ps ?pos" by (simp add: advance_def p)
  show ?case
  proof (cases "(k, recs) = p")
    case True
    then have "k \<notin> fst ` set ps" using Cons.prems by (auto simp: p)
    then show ?thesis using True unfolding step by (simp add: advance_other p)
  next
    case False
    then have "(k, recs) \<in> set ps" "k \<noteq> k'" using Cons.prems by (force simp: p)+
    then show ?thesis using Cons unfolding step by simp
  qed
qed

lemma commit_other: "k \<notin> rec_tp ` set good \<Longrightarrow> commit_offsets good com k = com k"
  unfolding commit_offsets_def by (induction good arbitrary: com) auto

lemma commit_at:
  "distinct (map rec_tp good) \<Longrightarrow> r \<in> set good \<Longrightarrow> commit_offsets good com (rec_tp r) = kOffset r + 1"
proof (induction good arbitrary: com)
  case Nil
  then show ?case by simp
next
  case (Cons x good)
  have step: "commit_offsets (x # good) com = commit_offsets good (com(rec_tp x := kOffset x + 1))"
    by (simp add: commit_offsets_def)
  show ?case
  proof (cases "r = x")
    case True
    then show ?thesis using Cons.prems by (simp add: step commit_other)
  next
    case False
    then show ?thesis using Cons by (simp add: step)
  qed
qed

definition keyed :: "(tp \<times> kgo_record list) list \<Rightarrow> bool" where
  "keyed ps \<longleftrightarrow> (\<forall>p \<in> set ps. \<forall>r \<in> set (snd p). rec_tp r = fst p)"

text \<open>A header list without repeated keys, read as the map.\<close>

lemma HeadersFromKGO_map_of:
  assumes "distinct (map fst hs)"
  shows "HeadersFromKGO hs = map_of hs"
proof -
  have "foldl (\<lambda>m (k, v). m(k \<mapsto> v)) m hs = m ++ map_of hs" for m
    using assms
  proof (induction hs arbitrary: m)
    case (Cons h hs)
    obtain k v where h: "h = (k, v)" by (cases h)
    have "map_of hs k = None" using Cons.prems h by (simp add: map_of_eq_None_iff)
    then have "m(k \<mapsto> v) ++ map_of hs = m ++ map_of ((k, v) # hs)"
      by (auto simp: fun_eq_iff map_add_def split: option.splits)
    moreover have "foldl (\<lambda>m (k, v). m(k \<mapsto> v)) (m(k \<mapsto> v)) hs = m(k \<mapsto> v) ++ map_of hs"
      using Cons.prems by (intro Cons.IH) simp
    ultimately show ?case by (simp only: h foldl_Cons prod.case)
  qed simp
  then show ?thesis by (simp add: HeadersFromKGO_def)
qed

lemma fetch_wf_keyed: "fetch_wf tlog st ps \<Longrightarrow> keyed ps"
  by (auto simp: fetch_wf_def batch_wf_def keyed_def)

locale partition_processor =
  fixes proc :: "'w processor"
    and accepted :: "kgo_record \<Rightarrow> bool"
  assumes prefix: "proc w recs = (w', lst, bad) \<Longrightarrow>
    \<exists>g rest. recs = g @ rest \<and> lst = last_of g \<and> bad = first_of rest \<and> list_all accepted g"
begin

lemma process_spec:
  assumes "process_fetches proc w ps = (w', good, failed)" "distinct (map fst ps)"
    and "keyed ps"
  shows "rec_tp ` set good \<subseteq> fst ` set ps \<and> dom failed \<subseteq> fst ` set ps \<and> distinct (map rec_tp good)
    \<and> (\<forall>(k, recs) \<in> set ps. \<exists>g rest. recs = g @ rest \<and> list_all accepted g \<and> failed k = first_of rest
         \<and> (if g = [] then k \<notin> rec_tp ` set good else last g \<in> set good))"
  using assms
proof (induction ps arbitrary: w w' good failed)
  case Nil
  then show ?case by simp
next
  case (Cons p ps)
  obtain k recs where p: "p = (k, recs)" by (cases p)
  obtain w1 lst bad where pr: "proc w recs = (w1, lst, bad)" by (metis prod_cases3)
  obtain w2 good2 failed2 where rest: "process_fetches proc w1 ps = (w2, good2, failed2)" by (metis prod_cases3)
  obtain g r where gr: "recs = g @ r" "lst = last_of g" "bad = first_of r" "list_all accepted g"
    using prefix [OF pr] by blast
  have tp: "\<And>x. x \<in> set recs \<Longrightarrow> rec_tp x = k" using Cons.prems(3) by (simp add: p keyed_def)
  have good: "good = (if g = [] then good2 else last g # good2)"
    and failed: "failed = (case r of [] \<Rightarrow> failed2 | x # _ \<Rightarrow> failed2(k \<mapsto> x))"
    using Cons.prems(1) pr rest gr tp
    by (auto simp: p last_of_def first_of_def split: list.splits)
  have kn: "k \<notin> fst ` set ps" using Cons.prems(2) by (simp add: p)
  have dps: "distinct (map fst ps)" using Cons.prems(2) by simp
  have "keyed ps" using Cons.prems(3) by (simp add: keyed_def)
  note ihc = Cons.IH [OF rest dps this]
  have ih: "rec_tp ` set good2 \<subseteq> fst ` set ps" "dom failed2 \<subseteq> fst ` set ps" "distinct (map rec_tp good2)"
    "\<forall>(k, recs) \<in> set ps. \<exists>g rest. recs = g @ rest \<and> list_all accepted g \<and> failed2 k = first_of rest
         \<and> (if g = [] then k \<notin> rec_tp ` set good2 else last g \<in> set good2)"
    using ihc by blast+
  have lg: "g \<noteq> [] \<Longrightarrow> rec_tp (last g) = k" using tp gr(1) by (metis UnCI last_in_set set_append)
  have kf: "failed2 k = None" using ih(2) kn by auto
  have here: "\<exists>g rest. recs = g @ rest \<and> list_all accepted g \<and> failed k = first_of rest
         \<and> (if g = [] then k \<notin> rec_tp ` set good else last g \<in> set good)"
    using gr kf ih(1) kn good failed
    by (intro exI [of _ g] exI [of _ r]) (auto simp: first_of_def split: list.splits)
  have other: "\<exists>g rest. recs' = g @ rest \<and> list_all accepted g \<and> failed k' = first_of rest
         \<and> (if g = [] then k' \<notin> rec_tp ` set good else last g \<in> set good)" if m: "(k', recs') \<in> set ps" for k' recs'
  proof -
    have "k' \<noteq> k" using kn m by force
    then have f: "failed k' = failed2 k'" by (simp add: failed split: list.splits)
    obtain g' rest' where "recs' = g' @ rest'" "list_all accepted g'" "failed2 k' = first_of rest'"
      "if g' = [] then k' \<notin> rec_tp ` set good2 else last g' \<in> set good2"
      using ih(4) m by blast
    then show ?thesis
      using f lg \<open>k' \<noteq> k\<close> by (intro exI [of _ g'] exI [of _ rest']) (auto simp: good split: if_splits)
  qed
  have "rec_tp ` set good \<subseteq> fst ` set (p # ps)" using ih(1) lg by (auto simp: good p)
  moreover have "dom failed \<subseteq> fst ` set (p # ps)"
    using ih(2) by (cases r) (auto simp: failed p)
  moreover have "k \<notin> rec_tp ` set good2" using ih(1) kn by blast
  then have "distinct (map rec_tp good)" using ih(3) lg by (simp add: good)
  moreover have "\<forall>q \<in> set (p # ps). case q of (k, recs) \<Rightarrow> \<exists>g rest. recs = g @ rest
      \<and> list_all accepted g \<and> failed k = first_of rest
      \<and> (if g = [] then k \<notin> rec_tp ` set good else last g \<in> set good)"
    using here other by (simp only: p list.set ball_simps prod.case) blast
  ultimately show ?case by blast
qed

text \<open>The invariant of the loop: everything before the position of a partition was handled, and
  nothing beyond the position is committed.\<close>

definition no_gap :: "(tp \<Rightarrow> int set) \<Rightarrow> consumer_state \<Rightarrow> (tp \<times> int) set \<Rightarrow> bool" where
  "no_gap tlog st H \<longleftrightarrow> (\<forall>k. committed st k \<le> position st k
     \<and> (\<forall>o' \<in> tlog k. o' < position st k \<longrightarrow> (k, o') \<in> H))"

lemma no_gap_poll:
  assumes inv: "no_gap tlog st H" and wf: "fetch_wf tlog (resume_expired t1 st) ps"
    and pf: "process_fetches proc w ps = (w1, good, failed)"
    and it: "poll_iteration proc t1 t2 commit_ok ps w st = (w2, st2)"
  shows "no_gap tlog st2 (H \<union> handled_in failed ps)"
proof -
  have st2: "position st2 = seek_failed failed (advance ps (position st))"
    "committed st2 = (if commit_ok then commit_offsets good (committed st) else committed st)"
    using it pf by (auto simp: poll_iteration_def resume_expired_def Let_def)
  have dist: "distinct (map fst ps)"
    and batch: "\<And>k recs. (k, recs) \<in> set ps \<Longrightarrow> batch_wf tlog (resume_expired t1 st) k recs"
    using wf by (auto simp: fetch_wf_def)
  have spec: "rec_tp ` set good \<subseteq> fst ` set ps" "dom failed \<subseteq> fst ` set ps" "distinct (map rec_tp good)"
    "\<And>k recs. (k, recs) \<in> set ps \<Longrightarrow> \<exists>g rest. recs = g @ rest \<and> list_all accepted g \<and> failed k = first_of rest
         \<and> (if g = [] then k \<notin> rec_tp ` set good else last g \<in> set good)"
    using process_spec [OF pf dist fetch_wf_keyed [OF wf]] by blast+
  have "committed st2 k \<le> position st2 k \<and> (\<forall>o' \<in> tlog k. o' < position st2 k \<longrightarrow> (k, o') \<in> H \<union> handled_in failed ps)" for k
  proof (cases "k \<in> fst ` set ps")
    case False
    then have "failed k = None" "k \<notin> rec_tp ` set good" using spec(1,2) by auto
    then have "position st2 k = position st k" "committed st2 k = committed st k"
      using False by (simp_all add: st2 seek_failed_def advance_other commit_other)
    then show ?thesis using inv [unfolded no_gap_def, rule_format, of k] by simp
  next
    case True
    then obtain recs where m: "(k, recs) \<in> set ps" by auto
    obtain g rest where gr: "recs = g @ rest" "failed k = first_of rest"
      "if g = [] then k \<notin> rec_tp ` set good else last g \<in> set good"
      using spec(4) [OF m] by blast
    have wfk: "\<forall>r \<in> set recs. rec_tp r = k" "sorted_wrt (<) (map kOffset recs)"
      "recs \<noteq> [] \<Longrightarrow> {o' \<in> tlog k. position st k \<le> o' \<and> o' \<le> kOffset (last recs)} = kOffset ` set recs"
      using batch [OF m] by (auto simp: batch_wf_def resume_expired_def)
    have adv: "advance ps (position st) k = (if recs = [] then position st k else kOffset (last recs) + 1)"
      by (rule advance_at [OF dist m])
    have com: "committed st2 k = committed st k \<or> g \<noteq> [] \<and> committed st2 k = kOffset (last g) + 1"
    proof (cases "g = []")
      case True
      then show ?thesis using gr(3) by (simp add: st2 commit_other)
    next
      case False
      then have "rec_tp (last g) = k" "last g \<in> set good" using wfk(1) gr by auto
      then show ?thesis using commit_at [OF spec(3), of "last g" "committed st"] False by (auto simp: st2)
    qed
    have hand: "(k, kOffset r) \<in> handled_in failed ps" if "r \<in> set (takeWhile (\<lambda>x. Some x \<noteq> failed k) recs)" for r
      unfolding handled_in_def using that m by blast
    have old: "committed st k \<le> position st k" "\<And>o'. o' \<in> tlog k \<Longrightarrow> o' < position st k \<Longrightarrow> (k, o') \<in> H"
      using inv [unfolded no_gap_def, rule_format, of k] by simp_all
    have ge: "position st k \<le> kOffset r" if "r \<in> set recs" for r
      using wfk(3) that by (cases "recs = []") auto
    show ?thesis
    proof (cases rest)
      case Nil
      have all: "takeWhile (\<lambda>x. Some x \<noteq> failed k) recs = recs" using gr Nil by (simp add: first_of_def)
      have pos: "position st2 k = (if recs = [] then position st k else kOffset (last recs) + 1)"
        using gr Nil adv by (simp add: st2 seek_failed_def first_of_def)
      have "(k, o') \<in> H \<union> handled_in failed ps" if "o' \<in> tlog k" "o' < position st2 k" for o'
      proof (cases "o' < position st k")
        case True
        then show ?thesis using old(2) that by blast
      next
        case False
        then have "recs \<noteq> []" "o' \<in> kOffset ` set recs" using wfk(3) that pos by (auto split: if_splits)
        then show ?thesis using hand all by auto
      qed
      moreover have "committed st2 k \<le> position st2 k"
        using com pos gr Nil old(1) ge [of "last recs"] by (auto split: if_splits)
      ultimately show ?thesis by blast
    next
      case (Cons r rest')
      have srt: "sorted_wrt (<) (map kOffset (g @ r # rest'))" using wfk(2) gr Cons by simp
      note sp = sorted_offsets_split [OF srt]
      have fk: "failed k = Some r" using gr Cons by (simp add: first_of_def)
      have pos: "position st2 k = kOffset r" by (simp add: st2 seek_failed_def fk)
      have tw: "takeWhile (\<lambda>x. Some x \<noteq> failed k) recs = g" unfolding fk using sp(1) gr(1) Cons by simp
      have r_in: "r \<in> set recs" using gr Cons by simp
      have "(k, o') \<in> H \<union> handled_in failed ps" if o: "o' \<in> tlog k" "o' < kOffset r" for o'
      proof (cases "o' < position st k")
        case True
        then show ?thesis using old(2) o by blast
      next
        case False
        have "kOffset r \<le> kOffset (last recs)" using offsets_le_last [OF wfk(2) r_in] .
        then obtain x where x: "x \<in> set recs" "kOffset x = o'" using wfk(3) o False r_in by force
        then have "x \<in> set g" using sp(3) o(2) gr(1) Cons by fastforce
        then show ?thesis using hand tw x(2) by auto
      qed
      moreover have "committed st2 k \<le> position st2 k"
        using com old(1) ge [OF r_in] sp(2) [of "last g"] pos by auto
      ultimately show ?thesis using pos by simp
    qed
  qed
  then show ?thesis by (auto simp: no_gap_def)
qed

lemma reach_no_gap: "consumer_reach proc tlog w st H \<Longrightarrow> no_gap tlog st H"
proof (induction rule: consumer_reach.induct)
  case (begin_run st w)
  then show ?case by (auto simp: no_gap_def not_less)
next
  case (poll w st H t1 ps w1 good failed t2 commit_ok w2 st2)
  then show ?case using no_gap_poll by blast
next
  case (rebalance w st H S)
  then show ?case by (force simp: no_gap_def)
qed

lemma reach_accepted:
  "consumer_reach proc tlog w st H \<Longrightarrow> (k, o') \<in> H \<Longrightarrow> \<exists>r. rec_tp r = k \<and> kOffset r = o' \<and> accepted r"
proof (induction arbitrary: k o' rule: consumer_reach.induct)
  case (begin_run st w)
  then show ?case by simp
next
  case (poll w st H t1 ps w1 good failed t2 commit_ok w2 st2)
  show ?case
  proof (cases "(k, o') \<in> H")
    case True
    then show ?thesis using poll by blast
  next
    case False
    then obtain recs r where r: "(k, recs) \<in> set ps" "o' = kOffset r" "r \<in> set (takeWhile (\<lambda>x. Some x \<noteq> failed k) recs)"
      using poll.prems by (auto simp: handled_in_def)
    have wf: "distinct (map fst ps)" "keyed ps"
      using poll.hyps(2) fetch_wf_keyed by (auto simp: fetch_wf_def)
    obtain g rest where g: "recs = g @ rest" "list_all accepted g" "failed k = first_of rest"
      using process_spec [OF poll.hyps(3) wf] r(1) by blast
    have "r \<in> set g"
    proof (cases rest)
      case Nil
      then show ?thesis using r(3) g(1) by (auto dest: set_takeWhileD)
    next
      case (Cons x xs)
      have "set (takeWhile (\<lambda>y. Some y \<noteq> Some x) (g @ x # xs)) \<subseteq> set g"
        by (induction g) auto
      then show ?thesis using r(3) g Cons by (auto simp: first_of_def)
    qed
    moreover have "rec_tp r = k" using wf(2) r(1) \<open>r \<in> set g\<close> g(1) by (force simp: keyed_def)
    ultimately show ?thesis using g(2) r(2) by (auto simp: list_all_iff)
  qed
next
  case (rebalance w st H S)
  then show ?case by simp
qed

end

section \<open>The two processors\<close>

definition handler_accepts :: "('w \<Rightarrow> kafka_record \<Rightarrow> 'w \<times> go_err option) \<Rightarrow> kgo_record \<Rightarrow> bool" where
  "handler_accepts h r \<longleftrightarrow> (\<exists>w w'. h w (RecordFromKGO r) = (w', None))"

lemma run_records_prefix:
  "run_records h w recs lst = (w', lst', bad) \<Longrightarrow>
     \<exists>g rest. recs = g @ rest \<and> lst' = (if g = [] then lst else Some (last g)) \<and> bad = first_of rest
       \<and> list_all (handler_accepts h) g"
proof (induction recs arbitrary: w lst)
  case Nil
  then show ?case by (simp add: first_of_def)
next
  case (Cons rec recs)
  obtain w1 e where h: "h w (RecordFromKGO rec) = (w1, e)" by (cases "h w (RecordFromKGO rec)")
  show ?case
  proof (cases e)
    case None
    then have "run_records h w1 recs (Some rec) = (w', lst', bad)" using Cons.prems h by simp
    from Cons.IH [OF this] obtain g rest where g: "recs = g @ rest"
      "lst' = (if g = [] then Some rec else Some (last g))" "bad = first_of rest" "list_all (handler_accepts h) g"
      by blast
    have "handler_accepts h rec" using h None by (auto simp: handler_accepts_def)
    then show ?thesis using g by (intro exI [of _ "rec # g"] exI [of _ rest]) auto
  next
    case (Some x)
    then show ?thesis using Cons.prems h
      by (intro exI [of _ "[]"] exI [of _ "rec # recs"]) (simp add: first_of_def)
  qed
qed

interpretation run: partition_processor "Run_processor h" "handler_accepts h"
  for h :: "'w \<Rightarrow> kafka_record \<Rightarrow> 'w \<times> go_err option"
proof
  fix w :: 'w and recs w' lst bad
  assume "Run_processor h w recs = (w', lst, bad)"
  from run_records_prefix [OF this [unfolded Run_processor_def]]
  show "\<exists>g rest. recs = g @ rest \<and> lst = last_of g \<and> bad = first_of rest \<and> list_all (handler_accepts h) g"
    by (simp add: last_of_def)
qed

text \<open>A batch handler is honest when it reports a nil error only for a fully applied batch.\<close>

definition batch_accepts :: "'w batch_handler \<Rightarrow> kgo_record \<Rightarrow> bool" where
  "batch_accepts bh r \<longleftrightarrow>
     (\<exists>w rs w' n err i. bh w rs = (w', n, err) \<and> i < length rs \<and> int i < n \<and> rs ! i = RecordFromKGO r)"

locale honest_batch =
  fixes bh :: "'w batch_handler"
  assumes honest: "bh w rs = (w', n, None) \<Longrightarrow> int (length rs) \<le> n"
begin

lemma batch_prefix:
  assumes "RunBatch_processor bh w recs = (w', lst, bad)"
  shows "\<exists>g rest. recs = g @ rest \<and> lst = last_of g \<and> bad = first_of rest \<and> list_all (batch_accepts bh) g"
proof (cases "recs = []")
  case True
  then show ?thesis using assms by (simp add: RunBatch_processor_def last_of_def first_of_def)
next
  case False
  obtain w1 n err where bh: "bh w (map RecordFromKGO recs) = (w1, n, err)" by (metis prod_cases3)
  define p where "p = (let q = (if n < 0 then 0 else n) in if int (length recs) < q then int (length recs) else q)"
  have p: "0 \<le> p" "p \<le> int (length recs)" by (auto simp: p_def Let_def)
  have res: "lst = (if 0 < p then Some (recs ! (nat p - 1)) else None)"
    "bad = (if err \<noteq> None \<and> p < int (length recs) then Some (recs ! nat p) else None)"
    using assms False bh by (auto simp: RunBatch_processor_def Let_def p_def)
  have full: "err = None \<Longrightarrow> p = int (length recs)"
    using honest [of w "map RecordFromKGO recs" w1 n] bh by (auto simp: p_def)
  have acc: "batch_accepts bh (recs ! i)" if "i < nat p" for i
  proof -
    have i: "i < length recs" "int i < n" using that p by (auto simp: p_def Let_def split: if_splits)
    show ?thesis unfolding batch_accepts_def
      by (rule exI [of _ w], rule exI [of _ "map RecordFromKGO recs"], rule exI [of _ w1], rule exI [of _ n],
          rule exI [of _ err], rule exI [of _ i]) (use bh i in simp)
  qed
  have "lst = last_of (take (nat p) recs)"
    using res(1) p False by (auto simp: last_of_def last_conv_nth)
  moreover have "bad = first_of (drop (nat p) recs)"
  proof (cases "p < int (length recs)")
    case True
    then have "drop (nat p) recs = recs ! nat p # drop (Suc (nat p)) recs"
      using p by (intro Cons_nth_drop_Suc [symmetric]) linarith
    then show ?thesis using res(2) full True by (auto simp: first_of_def)
  next
    case False
    then show ?thesis using res(2) p by (simp add: first_of_def)
  qed
  moreover have "list_all (batch_accepts bh) (take (nat p) recs)"
    using acc p by (auto simp: list_all_length)
  ultimately show ?thesis by (intro exI [of _ "take (nat p) recs"] exI [of _ "drop (nat p) recs"]) simp
qed

end

sublocale honest_batch \<subseteq> partition_processor "RunBatch_processor bh" "batch_accepts bh"
  by unfold_locales (rule batch_prefix)

section \<open>Lemmas on the retry wrapper\<close>

lemma retry_loop_result:
  assumes "retry_loop E m a rec w = (w', r)" "a \<le> m"
  shows "(case r of
            LoopOk \<Rightarrow> \<exists>w1. handle E w1 rec = (w', None)
          | LoopCancelled c \<Rightarrow> True
          | LoopFailed e n \<Rightarrow> a \<le> n \<and> n \<le> m \<and> (IsPermanent e \<or> n = m) \<and> (\<exists>w1. handle E w1 rec = (w', Some e)))"
  using assms
proof (induction E m a rec w rule: retry_loop.induct)
  case (1 E m a rec w)
  obtain w1 e where h: "handle E w rec = (w1, e)" by (cases "handle E w rec")
  show ?case
  proof (cases e)
    case None
    then show ?thesis using 1(2) h by (subst (asm) retry_loop.simps) auto
  next
    case (Some x)
    show ?thesis
    proof (cases "\<not> IsPermanent x \<and> a < m")
      case False
      then have "w' = w1" "r = LoopFailed x a"
        using 1(2) h Some by (subst (asm) retry_loop.simps, auto split: if_splits)+
      then show ?thesis using False h Some 1(3) by auto
    next
      case True
      obtain w2 c where s: "sleep E w1 = (w2, c)" by (cases "sleep E w1")
      show ?thesis
      proof (cases c)
        case (Some y)
        then show ?thesis
          using 1(2) h \<open>e = Some x\<close> True s by (subst (asm) retry_loop.simps) auto
      next
        case None
        then have rec: "retry_loop E m (a + 1) rec w2 = (w', r)"
          using 1(2) h \<open>e = Some x\<close> True s by (subst (asm) retry_loop.simps) auto
        have "(case r of
            LoopOk \<Rightarrow> \<exists>w1. handle E w1 rec = (w', None)
          | LoopCancelled c \<Rightarrow> True
          | LoopFailed e n \<Rightarrow> a + 1 \<le> n \<and> n \<le> m \<and> (IsPermanent e \<or> n = m) \<and> (\<exists>w1. handle E w1 rec = (w', Some e)))"
          using 1(1) [OF h [symmetric] \<open>e = Some x\<close> _ _ s [symmetric] None rec] True by auto
        then show ?thesis by (cases r) auto
      qed
    qed
  qed
qed

lemma redelivery_delay_doubles:
  assumes "0 < f"
  shows "redelivery_delay f = min redeliveryBackoffCap (redeliveryBackoffFloor * 2 ^ (f - 1))"
proof -
  define k where "k = f - 1"
  have f: "f = Suc k" using assms by (simp add: k_def)
  have small: "wrap64 (100000000 * 2 ^ k) = 100000000 * 2 ^ k" if "k < 25"
  proof -
    have le: "(2 :: int) ^ k \<le> 2 ^ 25" using that by (intro power_increasing) auto
    have in_range: "wrap64 (100000000 * x) = 100000000 * x" if "0 < x" "x \<le> 2 ^ 25" for x
      using that by (intro wrap64_id) auto
    show ?thesis by (rule in_range [OF _ le]) simp
  qed
  have big: "wrap64 (100000000 * 2 ^ k) \<le> 0 \<or> 5000000000 < wrap64 (100000000 * 2 ^ k)" if "25 \<le> k"
  proof -
    have "(2 :: int) ^ 33 dvd 100000000 * 2 ^ k"
    proof -
      have "(2 :: int) ^ k = 2 ^ 25 * 2 ^ (k - 25)"
        using that by (metis le_add_diff_inverse power_add)
      then have "100000000 * (2 :: int) ^ k = 2 ^ 33 * (390625 * 2 ^ (k - 25))" by simp
      then show ?thesis by (rule dvdI)
    qed
    then have "(2 :: int) ^ 33 dvd wrap64 (100000000 * 2 ^ k)"
      by (simp add: wrap64_def dvd_mod_iff dvd_diff dvd_add_left_iff)
    then obtain j where "wrap64 (100000000 * 2 ^ k) = 2 ^ 33 * j" by (auto elim: dvdE)
    then show ?thesis by (cases "j \<le> 0") auto
  qed
  have cap: "5000000000 \<le> 100000000 * (2 :: int) ^ k" if "25 \<le> k"
  proof -
    have "(2 :: int) ^ 25 \<le> 2 ^ k" using that by (intro power_increasing) auto
    then show ?thesis by simp
  qed
  show ?thesis
    using small big cap
    by (cases "k < 25") (auto simp: redelivery_delay_def redeliveryBackoffFloor_def redeliveryBackoffCap_def
        Let_def f min_def)
qed

section \<open>Properties\<close>


definition demo_rec :: "int \<Rightarrow> kgo_record" where
  "demo_rec n = \<lparr>kTopic = ''t'', kKey = ''k'', kValue = ''v'', kHeaders = [], kPartition = 0, kOffset = n\<rparr>"

definition demo_state :: consumer_state where
  "demo_state = \<lparr>backoffs = Map.empty, paused = {}, position = (\<lambda>_. 0), committed = (\<lambda>_. 0)\<rparr>"

definition demo_handler :: "unit \<Rightarrow> kafka_record \<Rightarrow> unit \<times> go_err option" where
  "demo_handler w rec = ((), if Offset rec = 1 then Some (ErrText ''boom'') else None)"


text \<open>A batch handler that reports fewer records than it was given without an error makes the loop
  skip the rest: nothing is sought back, and the client's position is already past them.\<close>

theorem short_batch_skips_records:
  assumes "bh w (map RecordFromKGO recs) = (w', n, None)" and "0 < n" and "n < int (length recs)"
    and "\<forall>r \<in> set recs. rec_tp r = k"
  shows "RunBatch_processor bh w recs = (w', Some (recs ! (nat n - 1)), None)
    \<and> position (snd (poll_iteration (RunBatch_processor bh) t1 t2 True [(k, recs)] w st)) k = kOffset (last recs) + 1"
proof -
  have ne: "recs \<noteq> []" using assms(2,3) by auto
  have p: "RunBatch_processor bh w recs = (w', Some (recs ! (nat n - 1)), None)"
    using assms ne by (auto simp: RunBatch_processor_def Let_def)
  then show ?thesis
    using ne by (simp add: poll_iteration_def Let_def seek_failed_def advance_def)
qed

theorem short_batch_skips_records_witness:
  "position (snd (poll_iteration (RunBatch_processor (\<lambda>w rs. (w, 1, None))) 0 0 True
      [((''t'', 0), [demo_rec 5, demo_rec 6])] () demo_state)) (''t'', 0) = 7"
  using short_batch_skips_records [of "\<lambda>w rs. (w, 1, None)" "()" "[demo_rec 5, demo_rec 6]" "()" 1 "(''t'', 0)" 0 0 demo_state]
  by (simp add: rec_tp_def demo_rec_def)

text \<open>The redelivery pause doubles with every consecutive failure from 100 ms and stops at 5 s: the
  64-bit shift, for any number of failures, gives exactly the smaller of 5 s and the doubled floor,
  although the shift itself overflows.\<close>

theorem redelivery_backoff_exact:
  assumes "0 < f"
  shows "redelivery_delay f = min 5000000000 (100000000 * 2 ^ (f - 1))
    \<and> 100000000 \<le> redelivery_delay f \<and> redelivery_delay f \<le> 5000000000"
proof -
  have "(1 :: int) \<le> 2 ^ (f - 1)" by simp
  then show ?thesis
    using redelivery_delay_doubles [OF assms]
    by (auto simp: redeliveryBackoffFloor_def redeliveryBackoffCap_def min_def)
qed

theorem redelivery_backoff_exact_witness: "redelivery_delay 3 = 400000000 \<and> redelivery_delay 1000 = 5000000000"
  using redelivery_backoff_exact [of 3] redelivery_backoff_exact [of 1000]
  by (simp add: min_def)

text \<open>\<open>WithRetry\<close> never drops a record: it returns nil only when the handler accepted the record or
  the record was produced to the dead-letter topic with its key, value, original topic and error;
  it makes at most \<open>MaxAttempts\<close> attempts and stops early only on a permanent error.\<close>

theorem with_retry_no_loss:
  assumes "WithRetry E maxAttempts dltTopic w rec = (w', None)"
  shows "(\<exists>w1. handle E w1 rec = (w', None))
    \<or> (\<exists>w1 e n out. produce E w1 out = (w', None) \<and> Key out = Key rec \<and> Value out = Value rec
         \<and> Topic out = (case dltTopic of None \<Rightarrow> Topic rec @ ''.DLT'' | Some f \<Rightarrow> f (Topic rec))
         \<and> Headers out HeaderDLTOriginalTopic = Some (Topic rec)
         \<and> Headers out HeaderDLTError = Some (err_Error e)
         \<and> 1 \<le> n \<and> n \<le> max 1 maxAttempts \<and> (IsPermanent e \<or> n = max 1 maxAttempts)
         \<and> Headers out HeaderDLTAttempts = Some (itoa n))"
proof -
  let ?m = "if maxAttempts \<le> 0 then 1 else maxAttempts"
  let ?dlt = "case dltTopic of None \<Rightarrow> default_dlt | Some f \<Rightarrow> f"
  obtain w1 r where loop: "retry_loop E ?m 1 rec w = (w1, r)" by (cases "retry_loop E ?m 1 rec w")
  have res: "(case r of
            LoopOk \<Rightarrow> \<exists>w0. handle E w0 rec = (w1, None)
          | LoopCancelled c \<Rightarrow> True
          | LoopFailed e n \<Rightarrow> 1 \<le> n \<and> n \<le> ?m \<and> (IsPermanent e \<or> n = ?m) \<and> (\<exists>w0. handle E w0 rec = (w1, Some e)))"
    by (rule retry_loop_result [OF loop]) simp
  show ?thesis
  proof (cases r)
    case LoopOk
    then show ?thesis using assms loop res by (auto simp: WithRetry_def Let_def)
  next
    case (LoopCancelled c)
    then show ?thesis using assms loop by (simp add: WithRetry_def Let_def)
  next
    case (LoopFailed e n)
    have out: "produce E w1 (dlt_record ?dlt rec e n) = (w', None)"
      using assms loop LoopFailed
      by (auto simp: WithRetry_def Let_def split: option.splits prod.splits if_splits)
    have "Headers (dlt_record ?dlt rec e n) HeaderDLTOriginalTopic = Some (Topic rec)"
      "Headers (dlt_record ?dlt rec e n) HeaderDLTError = Some (err_Error e)"
      "Headers (dlt_record ?dlt rec e n) HeaderDLTAttempts = Some (itoa n)"
      by (auto simp: dlt_record_def Let_def HeaderDLTOriginalTopic_def HeaderDLTError_def
          HeaderDLTAttempts_def HeaderDLTErrorCode_def split: option.splits)
    moreover have "Topic (dlt_record ?dlt rec e n) = (case dltTopic of None \<Rightarrow> Topic rec @ ''.DLT'' | Some f \<Rightarrow> f (Topic rec))"
      by (simp add: dlt_record_def Let_def default_dlt_def split: option.split)
    moreover have "Key (dlt_record ?dlt rec e n) = Key rec" "Value (dlt_record ?dlt rec e n) = Value rec"
      by (simp_all add: dlt_record_def Let_def)
    moreover have "1 \<le> n" "n \<le> max 1 maxAttempts" "IsPermanent e \<or> n = max 1 maxAttempts"
      using res LoopFailed by (auto simp: max_def split: if_splits)
    ultimately show ?thesis using out by blast
  qed
qed

theorem with_retry_no_loss_witness:
  "WithRetry \<lparr>handle = (\<lambda>w r. (w, Some (ErrText ''x''))), sleep = (\<lambda>w. (w, None)), ctx_err = (\<lambda>_. None),
       produce = (\<lambda>w r. (w, None)), now = (\<lambda>w. (w, 0))\<rparr> 3 None () (RecordFromKGO (demo_rec 1)) = ((), None)
   \<and> (\<exists>n. 1 \<le> n \<and> n \<le> (3 :: int))"
proof -
  let ?E = "\<lparr>handle = (\<lambda>w r. (w, Some (ErrText ''x''))), sleep = (\<lambda>w. (w, None)), ctx_err = (\<lambda>_. None),
       produce = (\<lambda>w r. (w, None)), now = (\<lambda>w. (w, 0))\<rparr> :: unit env"
  have r: "WithRetry ?E 3 None () (RecordFromKGO (demo_rec 1)) = ((), None)"
    by (simp add: WithRetry_def retry_loop.simps IsPermanent_def)
  from with_retry_no_loss [OF r] r show ?thesis by auto
qed

end
