(* ===== verification/Retry_Topics.thy ===== *)
theory Retry_Topics
  imports Kafka_Consumer
begin

text \<open>
  \<open>platform/messaging/retry\<close>: tiered retry topics. Topic names and the retry headers (\<open>retry.go\<close>), the
  escalator that routes a failed record to the next tier or to the dead-letter topic and optionally
  parks its key (\<open>escalate.go\<close>), and the consumer of the tier topics that holds records until they are
  due (\<open>consumer.go\<close>). Times are nanoseconds. A Go panic (an index out of range) is a value of the
  result types. Timers are the set of partitions with an armed timer; the wake channel is the list of
  events a drain finds in it.
\<close>

section \<open>unicode/utf8\<close>

definition byte :: "char \<Rightarrow> nat" where
  "byte c = of_char c"

definition cont :: "char \<Rightarrow> bool" where
  "cont c = (128 \<le> byte c \<and> byte c \<le> 191)"

text \<open>The length of the well-formed encoding a string starts with (\<open>None\<close> if there is none): the
  standard table of first and second bytes.\<close>

fun rune_len :: "string \<Rightarrow> nat option" where
  "rune_len [] = None"
| "rune_len (a # s) =
     (if byte a < 128 then Some 1
      else if 194 \<le> byte a \<and> byte a \<le> 223 then
        (case s of b # _ \<Rightarrow> if cont b then Some 2 else None | _ \<Rightarrow> None)
      else if 224 \<le> byte a \<and> byte a \<le> 239 then
        (case s of b # c # _ \<Rightarrow>
           if cont b \<and> cont c \<and> (byte a = 224 \<longrightarrow> 160 \<le> byte b) \<and> (byte a = 237 \<longrightarrow> byte b \<le> 159)
           then Some 3 else None
         | _ \<Rightarrow> None)
      else if 240 \<le> byte a \<and> byte a \<le> 244 then
        (case s of b # c # d # _ \<Rightarrow>
           if cont b \<and> cont c \<and> cont d \<and> (byte a = 240 \<longrightarrow> 144 \<le> byte b) \<and> (byte a = 244 \<longrightarrow> byte b \<le> 143)
           then Some 4 else None
         | _ \<Rightarrow> None)
      else None)"

lemma rune_len_pos: "rune_len s = Some n \<Longrightarrow> 0 < n"
  by (cases s) (auto split: if_splits list.splits)

function rune_count :: "string \<Rightarrow> nat" where
  "rune_count s =
     (if s = [] then 0 else Suc (rune_count (drop (case rune_len s of Some n \<Rightarrow> n | None \<Rightarrow> 1) s)))"
  by pat_completeness auto
termination
  by (relation "measure length") (auto split: option.split dest: rune_len_pos)

function utf8_valid :: "string \<Rightarrow> bool" where
  "utf8_valid s =
     (if s = [] then True else case rune_len s of Some n \<Rightarrow> utf8_valid (drop n s) | None \<Rightarrow> False)"
  by pat_completeness auto
termination
  by (relation "measure length") (auto dest: rune_len_pos)

declare rune_count.simps [simp del] utf8_valid.simps [simp del]

section \<open>retry.go\<close>

definition HeaderAttempt :: string where "HeaderAttempt = ''retry-attempt''"
definition HeaderOrigTopic :: string where "HeaderOrigTopic = ''retry-orig-topic''"
definition HeaderDueAt :: string where "HeaderDueAt = ''retry-due-at''"
definition HeaderLastError :: string where "HeaderLastError = ''retry-last-error''"

record policy =
  Tiers :: "int list"
  FastAttempts :: int
  FastBackoff :: int
  KeyParkingWindow :: int

definition DefaultPolicy :: policy where
  "DefaultPolicy = \<lparr>Tiers = [5000000000, 30000000000, 300000000000], FastAttempts = 1,
     FastBackoff = 100000000, KeyParkingWindow = 0\<rparr>"

definition TierTopic :: "string \<Rightarrow> int \<Rightarrow> string" where
  "TierTopic base idx = base @ ''.retry.'' @ itoa idx"

definition DLTTopic :: "string \<Rightarrow> string" where
  "DLTTopic base = base @ ''.DLT''"

fun walk_back :: "nat \<Rightarrow> string \<Rightarrow> string" where
  "walk_back 0 b = b"
| "walk_back (Suc n) b = (if utf8_valid b then b else walk_back n (butlast b))"

definition last_error_text :: "string \<Rightarrow> string" where
  "last_error_text errStr =
     (if 512 < rune_count errStr
      then (if 512 < length errStr then walk_back 512 (take 512 errStr) else errStr)
      else errStr)"

definition SetRetryHeaders ::
  "(string \<rightharpoonup> string) \<Rightarrow> int \<Rightarrow> string \<Rightarrow> int \<Rightarrow> go_err \<Rightarrow> string \<rightharpoonup> string" where
  "SetRetryHeaders hs attempt origTopic due cause =
     hs(HeaderAttempt \<mapsto> itoa attempt, HeaderOrigTopic \<mapsto> origTopic,
        HeaderDueAt \<mapsto> itoa (due div 1000000), HeaderLastError \<mapsto> last_error_text (err_Error cause))"

definition BaseTopic :: "string \<Rightarrow> string option" where
  "BaseTopic retryTopic =
     (case last_index retryTopic ''.retry.'' of
        None \<Rightarrow> None
      | Some idx \<Rightarrow>
          if idx = 0 then None
          else (let suffix = drop (idx + 7) retryTopic
                in if suffix = [] then None
                   else if list_all is_digit suffix then Some (take idx retryTopic) else None))"

definition ParseRetryHeaders :: "(string \<rightharpoonup> string) \<Rightarrow> (int \<times> string \<times> int) option" where
  "ParseRetryHeaders hs =
     (case (hs HeaderAttempt, hs HeaderOrigTopic, hs HeaderDueAt) of
        (Some attemptStr, Some origTopic, Some dueAtStr) \<Rightarrow>
          (case parse_int64 attemptStr of
             None \<Rightarrow> None
           | Some a \<Rightarrow>
               (case parse_int64 dueAtStr of
                  None \<Rightarrow> None
                | Some ms \<Rightarrow> Some (a, origTopic, ms * 1000000)))
      | _ \<Rightarrow> None)"

section \<open>escalate.go\<close>

definition parkSweepEvery :: int where "parkSweepEvery = 256"

record escalator =
  parkWindow :: int
  parked :: "string \<times> string \<rightharpoonup> int"
  parkOps :: int

definition NewEscalator :: "policy \<Rightarrow> int option \<Rightarrow> escalator" where
  "NewEscalator pol withKeyParking =
     \<lparr>parkWindow = (case withKeyParking of None \<Rightarrow> KeyParkingWindow pol | Some win \<Rightarrow> win),
      parked = Map.empty, parkOps = 0\<rparr>"

text \<open>The loop that drops trailing continuation bytes.\<close>

definition truncate_text :: "string \<Rightarrow> nat \<Rightarrow> string" where
  "truncate_text s maxBytes =
     (if length s \<le> maxBytes then s else rev (dropWhile cont (rev (take maxBytes s))))"

datatype escalate_error = EscProduce go_err | EscPanic

definition errKeyParked :: go_err where
  "errKeyParked = ErrText (''retry: key parked '' @ [CHR 0xE2, CHR 0x80, CHR 0x94] @ '' diverted to preserve per-key order'')"

definition dlt_headers :: "(string \<rightharpoonup> string) \<Rightarrow> string \<Rightarrow> go_err \<Rightarrow> string \<rightharpoonup> string" where
  "dlt_headers hs origTopic cause =
     (let h = hs(HeaderLastError \<mapsto> truncate_text (err_Error cause) 512, HeaderDLTOriginalTopic \<mapsto> origTopic)
      in case as_app cause of Some ae \<Rightarrow> h(HeaderDLTErrorCode \<mapsto> acode ae) | None \<Rightarrow> h)"

definition publishNext ::
  "'w env \<Rightarrow> policy \<Rightarrow> 'w \<Rightarrow> string \<Rightarrow> kafka_record \<Rightarrow> go_err \<Rightarrow> 'w \<times> (escalate_error, string) result" where
  "publishNext E pol w origTopic rec cause =
     (let attempt = (case ParseRetryHeaders (Headers rec) of Some (a, _, _) \<Rightarrow> a | None \<Rightarrow> 0);
          toDLT = (int (length (Tiers pol)) \<le> attempt \<or> IsPermanent cause);
          dest = (if toDLT then DLTTopic origTopic else TierTopic origTopic attempt);
          send = (\<lambda>w1 hs. case produce E w1 \<lparr>Topic = dest, Key = Key rec, Value = Value rec, Headers = hs,
                                             Partition = 0, Offset = 0\<rparr> of
                    (w2, Some e) \<Rightarrow> (w2, Inl (EscProduce (ErrWrap (''retry: escalate to '' @ dest) e)))
                  | (w2, None) \<Rightarrow> (w2, Inr dest))
      in if toDLT then send w (dlt_headers (Headers rec) origTopic cause)
         else case now E w of
             (w1, t) \<Rightarrow>
               if attempt < 0 then (w1, Inl EscPanic)
               else send w1 (SetRetryHeaders (Headers rec) (attempt + 1) origTopic
                               (t + Tiers pol ! nat attempt) cause))"

definition park :: "'w env \<Rightarrow> 'w \<Rightarrow> escalator \<Rightarrow> string \<Rightarrow> string \<Rightarrow> 'w \<times> escalator" where
  "park E w esc topic key =
     (if parkWindow esc \<le> 0 \<or> key = [] then (w, esc)
      else case now E w of
          (w1, t) \<Rightarrow>
            (let pk = (parked esc)((topic, key) \<mapsto> t + parkWindow esc); ops = parkOps esc + 1
             in (w1, if parkSweepEvery \<le> ops
                     then esc\<lparr>parked := (\<lambda>k. case pk k of Some u \<Rightarrow> if u < t then None else Some u | None \<Rightarrow> None),
                              parkOps := 0\<rparr>
                     else esc\<lparr>parked := pk, parkOps := ops\<rparr>)))"

definition Escalate ::
  "'w env \<Rightarrow> policy \<Rightarrow> 'w \<Rightarrow> escalator \<Rightarrow> string \<Rightarrow> kafka_record \<Rightarrow> go_err
     \<Rightarrow> 'w \<times> escalator \<times> (escalate_error, string) result" where
  "Escalate E pol w esc origTopic rec cause =
     (case publishNext E pol w origTopic rec cause of
        (w1, Inl e) \<Rightarrow> (w1, esc, Inl e)
      | (w1, Inr dest) \<Rightarrow> (case park E w1 esc origTopic (Key rec) of (w2, esc2) \<Rightarrow> (w2, esc2, Inr dest)))"

definition Divert ::
  "'w env \<Rightarrow> policy \<Rightarrow> 'w \<Rightarrow> string \<Rightarrow> kafka_record \<Rightarrow> 'w \<times> (escalate_error, string) result" where
  "Divert E pol w origTopic rec = publishNext E pol w origTopic rec errKeyParked"

definition KeyParked :: "'w env \<Rightarrow> 'w \<Rightarrow> escalator \<Rightarrow> string \<Rightarrow> string \<Rightarrow> 'w \<times> escalator \<times> bool" where
  "KeyParked E w esc topic key =
     (if parkWindow esc \<le> 0 \<or> key = [] then (w, esc, False)
      else case parked esc (topic, key) of
          None \<Rightarrow> (w, esc, False)
        | Some u \<Rightarrow>
            (case now E w of
               (w1, t) \<Rightarrow>
                 if u < t then (w1, esc\<lparr>parked := (parked esc)((topic, key) := None)\<rparr>, False)
                 else (w1, esc, True)))"

datatype wrap_error = WrapErr go_err | WrapPanic

fun esc_outcome :: "(escalate_error, string) result \<Rightarrow> wrap_error option" where
  "esc_outcome (Inr _) = None"
| "esc_outcome (Inl (EscProduce e)) = Some (WrapErr e)"
| "esc_outcome (Inl EscPanic) = Some WrapPanic"

text \<open>The in-process loop of \<open>WrapHandler\<close> is the one of \<open>WithRetry\<close>.\<close>

definition WrapHandler ::
  "'w env \<Rightarrow> policy \<Rightarrow> policy \<Rightarrow> 'w \<Rightarrow> escalator \<Rightarrow> kafka_record \<Rightarrow> 'w \<times> escalator \<times> wrap_error option" where
  "WrapHandler E escPol pol w esc rec =
     (let fastAttempts = (if FastAttempts pol \<le> 0 then 1 else FastAttempts pol)
      in case KeyParked E w esc (Topic rec) (Key rec) of
           (w1, esc1, True) \<Rightarrow>
             (case Divert E escPol w1 (Topic rec) rec of (w2, r) \<Rightarrow> (w2, esc1, esc_outcome r))
         | (w1, esc1, False) \<Rightarrow>
             (case retry_loop E fastAttempts 1 rec w1 of
                (w2, LoopOk) \<Rightarrow> (w2, esc1, None)
              | (w2, LoopCancelled c) \<Rightarrow> (w2, esc1, Some (WrapErr c))
              | (w2, LoopFailed e _) \<Rightarrow>
                  (case Escalate E escPol w2 esc1 (Topic rec) rec e of
                     (w3, esc3, r) \<Rightarrow> (w3, esc3, esc_outcome r))))"

section \<open>consumer.go\<close>

definition escalateRetryDelay :: int where "escalateRetryDelay = 1000000000"

record held_batch =
  h_records :: "kgo_record list"
  h_dueAt :: int
  h_seq :: nat

record retry_consumer =
  held :: "tp \<rightharpoonup> held_batch"
  timers :: "tp set"
  fetch_paused :: "tp set"
  nextSeq :: nat

definition tier_topics :: "string list \<Rightarrow> policy \<Rightarrow> string list" where
  "tier_topics baseTopics pol =
     concat (map (\<lambda>base. map (\<lambda>i. TierTopic base (int i)) [0..<length (Tiers pol)]) baseTopics)"

definition onRevoked :: "retry_consumer \<Rightarrow> tp set \<Rightarrow> retry_consumer" where
  "onRevoked c m =
     c\<lparr>held := (held c) |` (- m), timers := timers c - m, fetch_paused := fetch_paused c - m\<rparr>"

definition holdRecords :: "retry_consumer \<Rightarrow> tp \<Rightarrow> kgo_record list \<Rightarrow> int \<Rightarrow> retry_consumer" where
  "holdRecords c k recs due =
     (let sq = nextSeq c + 1
      in c\<lparr>nextSeq := sq, held := (held c)(k \<mapsto> \<lparr>h_records = recs, h_dueAt = due, h_seq = sq\<rparr>),
           timers := insert k (timers c), fetch_paused := insert k (fetch_paused c)\<rparr>)"

datatype handle_outcome = HandledOk | EscalationFailed | HandlerPanic

definition handleRecord ::
  "'w env \<Rightarrow> policy \<Rightarrow> 'w \<Rightarrow> escalator \<Rightarrow> kgo_record \<Rightarrow> 'w \<times> escalator \<times> handle_outcome" where
  "handleRecord E pol w esc rec =
     (let r = RecordFromKGO rec;
          orig = (case ParseRetryHeaders (Headers r) of Some (_, ot, _) \<Rightarrow> ot | None \<Rightarrow> kTopic rec)
      in case handle E w r of
           (w1, None) \<Rightarrow> (w1, esc, HandledOk)
         | (w1, Some e) \<Rightarrow>
             (case Escalate E pol w1 esc orig r e of
                (w2, esc2, Inr _) \<Rightarrow> (w2, esc2, HandledOk)
              | (w2, esc2, Inl (EscProduce _)) \<Rightarrow> (w2, esc2, EscalationFailed)
              | (w2, esc2, Inl EscPanic) \<Rightarrow> (w2, esc2, HandlerPanic)))"

definition malformed_dlt :: "kgo_record \<Rightarrow> kafka_record" where
  "malformed_dlt rec =
     (let base = (case BaseTopic (kTopic rec) of Some b \<Rightarrow> b | None \<Rightarrow> kTopic rec)
      in \<lparr>Topic = DLTTopic base, Key = kKey rec, Value = kValue rec,
          Headers = (HeadersFromKGO (kHeaders rec))(HeaderLastError \<mapsto> ''malformed: missing retry headers'',
                       HeaderDLTOriginalTopic \<mapsto> base),
          Partition = 0, Offset = 0\<rparr>)"

datatype batch_outcome = BatchDone | BatchHeld | BatchPanic

fun processRecords ::
  "'w env \<Rightarrow> policy \<Rightarrow> tp \<Rightarrow> kgo_record list \<Rightarrow> 'w \<Rightarrow> escalator \<Rightarrow> retry_consumer \<Rightarrow> kgo_record list
     \<Rightarrow> 'w \<times> escalator \<times> retry_consumer \<times> kgo_record list \<times> batch_outcome" where
  "processRecords E pol k [] w esc c toCommit = (w, esc, c, toCommit, BatchDone)"
| "processRecords E pol k (rec # recs) w esc c toCommit =
     (case ParseRetryHeaders (Headers (RecordFromKGO rec)) of
        None \<Rightarrow>
          (case produce E w (malformed_dlt rec) of
             (w1, Some e) \<Rightarrow>
               (case now E w1 of
                  (w2, t) \<Rightarrow> (w2, esc, holdRecords c k (rec # recs) (t + escalateRetryDelay), toCommit, BatchHeld))
           | (w1, None) \<Rightarrow> processRecords E pol k recs w1 esc c (toCommit @ [rec]))
      | Some (_, _, due) \<Rightarrow>
          (case now E w of
             (w1, t) \<Rightarrow>
               if t < due then (w1, esc, holdRecords c k (rec # recs) due, toCommit, BatchHeld)
               else
                 (case handleRecord E pol w1 esc rec of
                    (w2, esc2, HandledOk) \<Rightarrow> processRecords E pol k recs w2 esc2 c (toCommit @ [rec])
                  | (w2, esc2, EscalationFailed) \<Rightarrow>
                      (case now E w2 of
                         (w3, t3) \<Rightarrow> (w3, esc2, holdRecords c k (rec # recs) (t3 + escalateRetryDelay), toCommit, BatchHeld))
                  | (w2, esc2, HandlerPanic) \<Rightarrow> (w2, esc2, c, toCommit, BatchPanic))))"

fun drainWakes ::
  "'w env \<Rightarrow> policy \<Rightarrow> (tp \<times> nat) list \<Rightarrow> 'w \<Rightarrow> escalator \<Rightarrow> retry_consumer \<Rightarrow> kgo_record list
     \<Rightarrow> 'w \<times> escalator \<times> retry_consumer \<times> kgo_record list" where
  "drainWakes E pol [] w esc c toCommit = (w, esc, c, toCommit)"
| "drainWakes E pol ((k, sq) # evs) w esc c toCommit =
     (case held c k of
        None \<Rightarrow> drainWakes E pol evs w esc c toCommit
      | Some batch \<Rightarrow>
          if h_seq batch \<noteq> sq then drainWakes E pol evs w esc c toCommit
          else
            (let c1 = c\<lparr>held := (held c)(k := None), timers := timers c - {k}\<rparr>
             in case processRecords E pol k (h_records batch) w esc c1 toCommit of
                  (w2, esc2, c2, tc2, BatchHeld) \<Rightarrow> drainWakes E pol evs w2 esc2 c2 tc2
                | (w2, esc2, c2, tc2, BatchDone) \<Rightarrow>
                    drainWakes E pol evs w2 esc2 (c2\<lparr>fetch_paused := fetch_paused c2 - {k}\<rparr>) tc2
                | (w2, esc2, c2, tc2, BatchPanic) \<Rightarrow> (w2, esc2, c2, tc2)))"

section \<open>Lemmas\<close>

lemma last_index_absent: "(\<And>m. \<not> has_prefix (drop m s) p) \<Longrightarrow> last_index s p = None"
proof (induction s)
  case Nil
  from Nil [of 0] show ?case by (auto simp: has_prefix_def)
next
  case (Cons x xs)
  have "last_index xs p = None" by (rule Cons.IH) (use Cons.prems [of "Suc m" for m] in simp)
  then show ?case using Cons.prems [of 0] by simp
qed

lemma last_index_at:
  "has_prefix (drop n s) p \<Longrightarrow> p \<noteq> [] \<Longrightarrow> (\<And>m. n < m \<Longrightarrow> \<not> has_prefix (drop m s) p) \<Longrightarrow> last_index s p = Some n"
proof (induction s arbitrary: n)
  case Nil
  then show ?case by (auto simp: has_prefix_def)
next
  case (Cons x xs)
  show ?case
  proof (cases n)
    case 0
    have "last_index xs p = None"
      by (rule last_index_absent) (use Cons.prems(3) [of "Suc m" for m] 0 in simp)
    then show ?thesis using Cons.prems(1) 0 by simp
  next
    case (Suc n')
    have "last_index xs p = Some n'"
      by (rule Cons.IH) (use Cons.prems(1,2) Cons.prems(3) [of "Suc m" for m] Suc in auto)
    then show ?thesis using Suc by simp
  qed
qed

lemma retry_marker_unique:
  assumes "list_all is_digit ds" "length base < m"
  shows "\<not> has_prefix (drop m (base @ ''.retry.'' @ ds)) ''.retry.''"
proof -
  define k where "k = m - length base"
  have d: "drop m (base @ ''.retry.'' @ ds) = drop k (''.retry.'' @ ds)"
    using assms(2) by (simp add: k_def)
  have dot: "CHR ''.'' \<notin> set ds" "CHR ''r'' \<notin> set ds"
    using assms(1) by (auto simp: list_all_iff is_digit_def)
  consider "k = 1" | "k = 2" | "k = 3" | "k = 4" | "k = 5" | "k = 6" | "7 \<le> k"
    using assms(2) by (force simp: k_def)
  then show ?thesis
  proof cases
    case 6
    then show ?thesis unfolding d using dot by (cases ds) (auto simp: has_prefix_def)
  next
    case 7
    have "drop k (''.retry.'' @ ds) = drop (k - 7) (drop 7 (''.retry.'' @ ds))"
      using 7 by (simp only: drop_drop) simp
    then have "set (drop k (''.retry.'' @ ds)) \<subseteq> set ds"
      using set_drop_subset [of "k - 7" ds] by simp
    then show ?thesis unfolding d using dot(1)
      by (cases "drop k (''.retry.'' @ ds)") (auto simp: has_prefix_def)
  qed (unfold d, simp_all add: has_prefix_def)
qed

lemma ParseRetryHeaders_Set:
  assumes "min_int64 \<le> a" "a \<le> max_int64" "min_int64 \<le> due div 1000000" "due div 1000000 \<le> max_int64"
  shows "ParseRetryHeaders (SetRetryHeaders hs a orig due cause) = Some (a, orig, due div 1000000 * 1000000)"
  using assms
  by (simp add: ParseRetryHeaders_def SetRetryHeaders_def HeaderAttempt_def HeaderOrigTopic_def HeaderDueAt_def
      HeaderLastError_def parse_int64_itoa)

text \<open>A batch is split into what may be committed and what is held.\<close>

lemma processRecords_split:
  assumes "processRecords E pol k recs w esc c tc = (w', esc', c', tc', out)"
  shows "\<exists>done tail. recs = done @ tail \<and> tc' = tc @ done
    \<and> (case out of
         BatchDone \<Rightarrow> tail = [] \<and> c' = c
       | BatchHeld \<Rightarrow> tail \<noteq> [] \<and> (\<exists>due. c' = holdRecords c k tail due)
       | BatchPanic \<Rightarrow> tail \<noteq> [] \<and> c' = c)"
  using assms
proof (induction recs arbitrary: w esc tc)
  case Nil
  then show ?case by auto
next
  case (Cons rec recs)
  have step: ?case if "processRecords E pol k recs w1 esc1 c (tc @ [rec]) = (w', esc', c', tc', out)" for w1 esc1
  proof -
    note rest = that
    obtain dn tail where "recs = dn @ tail" "tc' = (tc @ [rec]) @ dn"
      "case out of
         BatchDone \<Rightarrow> tail = [] \<and> c' = c
       | BatchHeld \<Rightarrow> tail \<noteq> [] \<and> (\<exists>due. c' = holdRecords c k tail due)
       | BatchPanic \<Rightarrow> tail \<noteq> [] \<and> c' = c"
      using Cons.IH [OF rest] by blast
    then show ?thesis by (intro exI [of _ "rec # dn"] exI [of _ tail]) simp
  qed
  have stop: ?case if "tc' = tc" "out = BatchHeld \<and> c' = holdRecords c k (rec # recs) d \<or> out = BatchPanic \<and> c' = c" for d
    using that by (intro exI [of _ "[]"] exI [of _ "rec # recs"]) auto
  show ?case
    using Cons.prems
    by (auto split: option.splits prod.splits if_splits handle_outcome.splits intro: step stop)
qed

text \<open>Well-formedness of the consumer: a partition with held records is paused and has its timer armed,
  and sequence tags never exceed the counter.\<close>

definition retry_inv :: "retry_consumer \<Rightarrow> bool" where
  "retry_inv c \<longleftrightarrow> dom (held c) \<subseteq> fetch_paused c \<and> dom (held c) \<subseteq> timers c
     \<and> (\<forall>k b. held c k = Some b \<longrightarrow> h_seq b \<le> nextSeq c \<and> h_records b \<noteq> [])"

lemma retry_inv_hold: "retry_inv c \<Longrightarrow> recs \<noteq> [] \<Longrightarrow> retry_inv (holdRecords c k recs due)"
  by (auto simp: retry_inv_def holdRecords_def Let_def intro: le_SucI)

lemma retry_inv_revoke: "retry_inv c \<Longrightarrow> retry_inv (onRevoked c m)"
  by (auto simp: retry_inv_def onRevoked_def restrict_map_def split: if_splits)

lemma retry_inv_process:
  assumes "retry_inv c" "processRecords E pol k recs w esc c tc = (w', esc', c', tc', out)"
  shows "retry_inv c'"
  using processRecords_split [OF assms(2)] assms(1)
  by (cases out) (auto intro: retry_inv_hold)

lemma process_held:
  assumes "processRecords E pol k recs w esc c tc = (w', esc', c', tc', out)" "held c k = None"
  shows "out = BatchHeld \<or> held c' k = None"
  using processRecords_split [OF assms(1)] assms(2) by (cases out) auto

lemma retry_inv_drain:
  assumes "retry_inv c" "drainWakes E pol evs w esc c tc = (w', esc', c', tc')"
  shows "retry_inv c'"
  using assms
proof (induction E pol evs w esc c tc rule: drainWakes.induct)
  case (1 E pol w esc c tc)
  then show ?case by simp
next
  case (2 E pol k sq evs w esc c tc)
  show ?case
  proof (cases "\<exists>b. held c k = Some b \<and> h_seq b = sq")
    case False
    then show ?thesis using 2 by (cases "held c k") auto
  next
    case True
    then obtain b where b: "held c k = Some b" "h_seq b = sq" by blast
    let ?c1 = "c\<lparr>held := (held c)(k := None), timers := timers c - {k}\<rparr>"
    have inv1: "retry_inv ?c1" using 2(5) by (auto simp: retry_inv_def dom_def split: if_splits)
    obtain w2 esc2 c2 tc2 out where p: "processRecords E pol k (h_records b) w esc ?c1 tc = (w2, esc2, c2, tc2, out)"
      by (metis prod_cases5)
    have inv2: "retry_inv c2" by (rule retry_inv_process [OF inv1 p])
    have "out = BatchHeld \<or> held c2 k = None" by (rule process_held [OF p]) simp
    then have inv3: "out = BatchDone \<Longrightarrow> retry_inv (c2\<lparr>fetch_paused := fetch_paused c2 - {k}\<rparr>)"
      using inv2 by (auto simp: retry_inv_def dom_def)
    show ?thesis
      using 2 b p inv2 inv3 by (cases out) (auto simp: Let_def)
  qed
qed

section \<open>Properties\<close>

text \<open>A tier topic leads back to its base: for every non-empty base topic, even one that itself
  looks like a tier topic, and every tier index, \<open>BaseTopic\<close> of the tier topic is the base; and a topic
  \<open>BaseTopic\<close> accepts is the accepted base followed by the marker and digits.\<close>

theorem tier_topic_roundtrip:
  assumes "base \<noteq> []" and "0 \<le> i"
  shows "BaseTopic (TierTopic base i) = Some base"
proof -
  have ds: "list_all is_digit (itoa i)" "itoa i \<noteq> []" using assms(2) by (simp_all add: itoa_def)
  let ?s = "base @ ''.retry.'' @ itoa i"
  have "has_prefix (drop (length base) ?s) ''.retry.''" by (simp add: has_prefix_def)
  then have "last_index ?s ''.retry.'' = Some (length base)"
    by (rule last_index_at) (use retry_marker_unique [OF ds(1)] in blast)+
  then show ?thesis using assms(1) ds by (simp add: BaseTopic_def TierTopic_def)
qed

theorem tier_topic_roundtrip_witness:
  "BaseTopic ''orders.commands.retry.12'' = Some ''orders.commands'' \<and> BaseTopic (TierTopic ''a.retry.0'' 3) = Some ''a.retry.0''"
proof -
  have "TierTopic ''orders.commands'' 12 = ''orders.commands.retry.12''" by code_simp
  then show ?thesis
    using tier_topic_roundtrip [of "''orders.commands''" 12] tier_topic_roundtrip [of "''a.retry.0''" 3] by simp
qed

text \<open>The retry headers carry the routing state losslessly: reading what \<open>SetRetryHeaders\<close> wrote
  gives the attempt number, the original topic and the due time to the millisecond, whatever headers
  the record had before.\<close>

theorem retry_headers_roundtrip:
  assumes "min_int64 \<le> a" and "a \<le> max_int64"
    and "min_int64 \<le> due div 1000000" and "due div 1000000 \<le> max_int64"
  shows "\<exists>due'. ParseRetryHeaders (SetRetryHeaders hs a orig due cause) = Some (a, orig, due')
    \<and> due' \<le> due \<and> due < due' + 1000000"
proof -
  have "due div 1000000 * 1000000 \<le> due" "due < due div 1000000 * 1000000 + 1000000"
    using minus_mod_eq_div_mult [of due 1000000] pos_mod_bound [of 1000000 due] pos_mod_sign [of 1000000 due]
    by linarith+
  then show ?thesis using ParseRetryHeaders_Set [OF assms] by auto
qed

theorem retry_headers_roundtrip_witness:
  "\<exists>due'. ParseRetryHeaders (SetRetryHeaders Map.empty 2 ''t'' 1700000000123456789 (ErrText ''x'')) = Some (2, ''t'', due')"
  using retry_headers_roundtrip [of 2 1700000000123456789 Map.empty "''t''" "ErrText ''x''"]
  by (auto simp: min_int64_def max_int64_def)

text \<open>Escalation routes a failed record to exactly one place and keeps its content: with a
  non-negative attempt count the record goes to the tier of that index when there is one and the
  error is not permanent, with the attempt count raised by one, and to the dead-letter topic of the
  original topic otherwise; key and value are unchanged, and the call succeeds exactly when the
  produce does.\<close>

theorem escalation_routes:
  assumes "a = (case ParseRetryHeaders (Headers rec) of Some (n, _, _) \<Rightarrow> n | None \<Rightarrow> 0)" and "0 \<le> a"
    and "publishNext E pol w orig rec cause = (w', r)"
  shows "\<exists>out w1. Key out = Key rec \<and> Value out = Value rec
    \<and> fst (produce E w1 out) = w' \<and> (is_ok r \<longleftrightarrow> snd (produce E w1 out) = None)
    \<and> (is_ok r \<longrightarrow> r = Inr (Topic out))
    \<and> (if a < int (length (Tiers pol)) \<and> \<not> IsPermanent cause
       then Topic out = TierTopic orig a \<and> Headers out HeaderAttempt = Some (itoa (a + 1))
            \<and> Headers out HeaderOrigTopic = Some orig
       else Topic out = DLTTopic orig \<and> Headers out HeaderDLTOriginalTopic = Some orig)"
proof (cases "a < int (length (Tiers pol)) \<and> \<not> IsPermanent cause")
  case True
  obtain w1 t where n: "now E w = (w1, t)" by (cases "now E w")
  define out where "out = \<lparr>Topic = TierTopic orig a, Key = Key rec, Value = Value rec,
      Headers = SetRetryHeaders (Headers rec) (a + 1) orig (t + Tiers pol ! nat a) cause, Partition = 0, Offset = 0\<rparr>"
  have hs: "Headers out HeaderAttempt = Some (itoa (a + 1))" "Headers out HeaderOrigTopic = Some orig"
    by (auto simp: out_def SetRetryHeaders_def HeaderAttempt_def HeaderOrigTopic_def HeaderDueAt_def HeaderLastError_def)
  have "publishNext E pol w orig rec cause = (case produce E w1 out of
      (w2, Some e) \<Rightarrow> (w2, Inl (EscProduce (ErrWrap (''retry: escalate to '' @ TierTopic orig a) e)))
    | (w2, None) \<Rightarrow> (w2, Inr (TierTopic orig a)))"
    using True n assms(2) unfolding publishNext_def Let_def assms(1) [symmetric] out_def
    by (simp split: prod.split option.split)
  then show ?thesis
    using True assms(3) hs by (intro exI [of _ out] exI [of _ w1]) (auto simp: out_def split: prod.splits option.splits)
next
  case False
  define out where "out = \<lparr>Topic = DLTTopic orig, Key = Key rec, Value = Value rec,
      Headers = dlt_headers (Headers rec) orig cause, Partition = 0, Offset = 0\<rparr>"
  have hs: "Headers out HeaderDLTOriginalTopic = Some orig"
    by (auto simp: out_def dlt_headers_def Let_def HeaderDLTOriginalTopic_def HeaderDLTErrorCode_def split: option.splits)
  have "publishNext E pol w orig rec cause = (case produce E w out of
      (w2, Some e) \<Rightarrow> (w2, Inl (EscProduce (ErrWrap (''retry: escalate to '' @ DLTTopic orig) e)))
    | (w2, None) \<Rightarrow> (w2, Inr (DLTTopic orig)))"
    using False unfolding publishNext_def Let_def assms(1) [symmetric] out_def
    by (auto split: prod.split option.split)
  then show ?thesis
    using False assms(3) hs by (intro exI [of _ out] exI [of _ w]) (auto simp: out_def split: prod.splits option.splits)
qed

definition demo_env :: "unit env" where
  "demo_env = \<lparr>handle = (\<lambda>w r. (w, Some (ErrText ''boom''))), sleep = (\<lambda>w. (w, None)), ctx_err = (\<lambda>_. None),
     produce = (\<lambda>w r. (w, None)), now = (\<lambda>w. (w, 1000000000))\<rparr>"

definition demo_retry_rec :: "(string \<times> string) list \<Rightarrow> int \<Rightarrow> kgo_record" where
  "demo_retry_rec hs n = \<lparr>kTopic = ''o.retry.0'', kKey = ''k'', kValue = ''v'', kHeaders = hs, kPartition = 0, kOffset = n\<rparr>"

theorem escalation_routes_witness:
  "\<exists>r. publishNext demo_env DefaultPolicy () ''o'' (RecordFromKGO (demo_rec 7)) (ErrText ''boom'') = ((), r) \<and> is_ok r"
proof -
  have a: "0 = (case ParseRetryHeaders (Headers (RecordFromKGO (demo_rec 7))) of Some (n, _, _) \<Rightarrow> n | None \<Rightarrow> 0)"
    by (simp add: RecordFromKGO_def demo_rec_def HeadersFromKGO_def ParseRetryHeaders_def)
  obtain r where r: "publishNext demo_env DefaultPolicy () ''o'' (RecordFromKGO (demo_rec 7)) (ErrText ''boom'') = ((), r)"
    by (metis (full_types) old.unit.exhaust prod.exhaust)
  from escalation_routes [OF a _ r] have "is_ok r" by (auto simp: demo_env_def)
  then show ?thesis using r by blast
qed

text \<open>A negative attempt header is not rejected: \<open>ParseRetryHeaders\<close> accepts it and \<open>publishNext\<close>
  then indexes the tiers with it, a panic, for every policy and every error that is not permanent.\<close>

theorem negative_attempt_panics:
  assumes "a < 0" and "ParseRetryHeaders (Headers rec) = Some (a, ot, due)" and "\<not> IsPermanent cause"
  shows "snd (publishNext E pol w orig rec cause) = Inl EscPanic"
  using assms by (auto simp: publishNext_def Let_def split: prod.splits)

theorem negative_attempt_panics_witness:
  "snd (publishNext demo_env DefaultPolicy () ''o''
     (RecordFromKGO (demo_retry_rec [(''retry-attempt'', ''-1''), (''retry-orig-topic'', ''o''), (''retry-due-at'', ''0'')] 3))
     (ErrText ''boom'')) = Inl EscPanic"
proof -
  have "ParseRetryHeaders (Headers (RecordFromKGO
      (demo_retry_rec [(''retry-attempt'', ''-1''), (''retry-orig-topic'', ''o''), (''retry-due-at'', ''0'')] 3))) = Some (-1, ''o'', 0)"
    by code_simp
  then show ?thesis by (intro negative_attempt_panics [where a = "-1"]) (simp_all add: IsPermanent_def)
qed



text \<open>The bookkeeping of the retry consumer stays consistent: draining any sequence of wake events,
  stale ones included, and revoking any set of partitions keep every held partition paused, with its
  timer armed and a non-empty batch.\<close>

theorem retry_consumer_invariant:
  assumes "retry_inv c" and "drainWakes E pol evs w esc c tc = (w', esc', c', tc')"
  shows "retry_inv c' \<and> retry_inv (onRevoked c' m)"
  using retry_inv_drain [OF assms] retry_inv_revoke by blast

theorem retry_consumer_invariant_witness:
  "retry_inv (onRevoked \<lparr>held = [(''t'', 0) \<mapsto> \<lparr>h_records = [demo_rec 1], h_dueAt = 0, h_seq = 1\<rparr>],
     timers = {(''t'', 0)}, fetch_paused = {(''t'', 0)}, nextSeq = 1\<rparr> {(''u'', 0)})"
proof -
  let ?c = "\<lparr>held = [(''t'', 0) \<mapsto> \<lparr>h_records = [demo_rec 1], h_dueAt = 0, h_seq = 1\<rparr>],
     timers = {(''t'', 0)}, fetch_paused = {(''t'', 0)}, nextSeq = 1\<rparr>"
  have i: "retry_inv ?c" by (auto simp: retry_inv_def)
  have d: "drainWakes demo_env DefaultPolicy [((''t'', 0), 9)] () (NewEscalator DefaultPolicy None) ?c []
      = ((), NewEscalator DefaultPolicy None, ?c, [])" by simp
  from retry_consumer_invariant [OF i d] show ?thesis by blast
qed

text \<open>The three bytes of the euro sign.\<close>

definition euro :: string where
  "euro = [CHR 0xE2, CHR 0x82, CHR 0xAC]"

lemma rune_len_euro [simp]: "rune_len (euro @ t) = Some 3"
  by (simp add: euro_def byte_def cont_def)

lemma utf8_valid_ascii: "list_all (\<lambda>c. byte c < 128) p \<Longrightarrow> utf8_valid (p @ t) = utf8_valid t"
proof (induction p)
  case Nil
  then show ?case by simp
next
  case (Cons c p)
  then show ?case by (subst utf8_valid.simps) simp
qed

lemma utf8_valid_euro: "utf8_valid (euro @ t) = utf8_valid t"
  by (subst utf8_valid.simps) (simp, simp add: euro_def)

lemma rune_count_euros: "rune_count (concat (replicate n euro)) = n"
proof (induction n)
  case 0
  then show ?case by (simp add: rune_count.simps)
next
  case (Suc n)
  then show ?case by (subst rune_count.simps) (simp, simp add: euro_def)
qed

text \<open>Truncation of the last-error text does not respect character boundaries: for every ASCII text
  of 511 bytes followed by a three-byte character, well-formed as a whole, \<open>truncate\<close> to 512 bytes keeps
  the lead byte of the cut character, and the result is not valid UTF-8.\<close>

theorem truncate_splits_character:
  assumes "list_all (\<lambda>c. byte c < 128) p" and "length p = 511" and "utf8_valid t"
  shows "utf8_valid (p @ euro @ t) \<and> \<not> utf8_valid (truncate_text (p @ euro @ t) 512)"
proof -
  have "take 512 (p @ euro @ t) = p @ [CHR 0xE2]" using assms(2) by (simp add: euro_def)
  then have "truncate_text (p @ euro @ t) 512 = p @ [CHR 0xE2]"
    using assms(2) by (simp add: truncate_text_def euro_def cont_def byte_def)
  moreover have "\<not> utf8_valid [CHR 0xE2]" by (simp add: utf8_valid.simps byte_def)
  ultimately show ?thesis
    using assms utf8_valid_ascii [OF assms(1)] by (simp add: utf8_valid_euro)
qed

theorem truncate_splits_character_witness:
  "\<not> utf8_valid (truncate_text (replicate 511 CHR ''a'' @ euro) 512)"
  using truncate_splits_character [of "replicate 511 CHR ''a''" "[]"]
  by (simp add: list_all_iff byte_def utf8_valid.simps)

text \<open>The last-error header is not bounded by 512 bytes: the guard counts characters, so a text of 512
  three-byte characters, 1536 bytes, is written to the header unshortened.\<close>

theorem last_error_exceeds_bound:
  "\<exists>s. length s = 1536 \<and> SetRetryHeaders hs a orig due (ErrText s) HeaderLastError = Some s"
proof -
  let ?s = "concat (replicate 512 euro)"
  have "length ?s = 1536" by (simp add: length_concat sum_list_replicate euro_def)
  moreover have "last_error_text ?s = ?s" by (simp add: last_error_text_def rune_count_euros)
  ultimately show ?thesis
    by (intro exI [of _ ?s]) (simp add: SetRetryHeaders_def HeaderLastError_def)
qed

end
