(* ===== verification/Pg_Shards.thy ===== *)
theory Pg_Shards
  imports Pg_Tx Apperr "HOL-Library.Word"
begin

unbundle bit_operations_syntax

text \<open>
  \<open>platform/storage/pg\<close>, the sharded side: the FNV-1a router (\<open>sharded_router.go\<close>), the shard pool
  (\<open>sharded_pool.go\<close>: a pool is the index of its physical shard, a sharded database a list of shard
  states) and the keyed unit of work (\<open>sharded_tx.go\<close>). The values a request context carries through
  the messaging packages (\<open>msgctx\<close>, \<open>security/tenant\<close>, the shard key) are a record.
\<close>

section \<open>Values carried by a context\<close>

record go_ctx =
  corr_id :: "string option"
  parent_id :: "string option"
  shard_key :: "string option"
  tenant_id :: "string option"
  principal :: "(string \<times> string list) option"

definition background :: go_ctx where
  "background = \<lparr>corr_id = None, parent_id = None, shard_key = None, tenant_id = None, principal = None\<rparr>"

definition WithCorrelationID :: "go_ctx \<Rightarrow> string \<Rightarrow> go_ctx" where
  "WithCorrelationID ctx i = ctx\<lparr>corr_id := Some i\<rparr>"

definition CorrelationID :: "go_ctx \<Rightarrow> string" where
  "CorrelationID ctx = (case corr_id ctx of None \<Rightarrow> '''' | Some i \<Rightarrow> i)"

definition WithParentMessageID :: "go_ctx \<Rightarrow> string \<Rightarrow> go_ctx" where
  "WithParentMessageID ctx i = ctx\<lparr>parent_id := Some i\<rparr>"

definition ParentMessageID :: "go_ctx \<Rightarrow> string" where
  "ParentMessageID ctx = (case parent_id ctx of None \<Rightarrow> '''' | Some i \<Rightarrow> i)"

definition HeaderCorrelationID :: string where "HeaderCorrelationID = ''correlation-id''"
definition HeaderCausationID :: string where "HeaderCausationID = ''causation-id''"

definition HeaderTenantID :: string where "HeaderTenantID = ''tenant-id''"

text \<open>Reading an absent key of a Go map gives the zero value.\<close>

definition hdr :: "(string \<rightharpoonup> string) \<Rightarrow> string \<Rightarrow> string" where
  "hdr hs k = (case hs k of None \<Rightarrow> '''' | Some v \<Rightarrow> v)"

definition tenant_WithContext :: "go_ctx \<Rightarrow> string \<Rightarrow> go_ctx" where
  "tenant_WithContext ctx i = (if i = '''' then ctx else ctx\<lparr>tenant_id := Some i\<rparr>)"

definition tenant_FromContext :: "go_ctx \<Rightarrow> string option" where
  "tenant_FromContext ctx = (case tenant_id ctx of None \<Rightarrow> None | Some i \<Rightarrow> if i = '''' then None else Some i)"

definition tenant_InjectHeaders :: "go_ctx \<Rightarrow> (string \<rightharpoonup> string) \<Rightarrow> string \<rightharpoonup> string" where
  "tenant_InjectHeaders ctx hs = (case tenant_FromContext ctx of None \<Rightarrow> hs | Some i \<Rightarrow> hs(HeaderTenantID \<mapsto> i))"

definition tenant_ExtractToContext :: "go_ctx \<Rightarrow> (string \<rightharpoonup> string) \<Rightarrow> go_ctx" where
  "tenant_ExtractToContext ctx hs = tenant_WithContext ctx (hdr hs HeaderTenantID)"

section \<open>sharded_router.go\<close>

definition defaultLogicalShards :: nat where "defaultLogicalShards = 256"

record router =
  logicalShards :: nat
  assign :: "nat list"
  shards_m :: nat

definition NewRouter :: "int \<Rightarrow> router" where
  "NewRouter m0 =
     (let m = (if m0 < 1 then 1 else nat m0)
      in \<lparr>logicalShards = defaultLogicalShards, assign = map (\<lambda>l. l mod m) [0..<defaultLogicalShards],
          shards_m = m\<rparr>)"

text \<open>\<open>hash/fnv\<close>, 64-bit FNV-1a: exclusive or with the byte, then multiply by the prime.\<close>

definition fnv_offset64 :: "64 word" where "fnv_offset64 = 14695981039346656037"
definition fnv_prime64 :: "64 word" where "fnv_prime64 = 1099511628211"

definition fnv64a :: "string \<Rightarrow> 64 word" where
  "fnv64a s = foldl (\<lambda>h c. (h XOR of_nat (of_char c)) * fnv_prime64) fnv_offset64 s"

definition Physical :: "router \<Rightarrow> string \<Rightarrow> nat" where
  "Physical r key = assign r ! unat (fnv64a key mod of_nat defaultLogicalShards)"

section \<open>sharded_pool.go and sharded_tx.go\<close>

text \<open>A sharded pool over \<open>m\<close> pools; the pool that owns a key is the index of its shard.\<close>

definition Resolve :: "'s list \<Rightarrow> string \<Rightarrow> nat" where
  "Resolve shards key = Physical (NewRouter (int (length shards))) key"

definition WithShardKey :: "go_ctx \<Rightarrow> string \<Rightarrow> go_ctx" where
  "WithShardKey ctx k = ctx\<lparr>shard_key := Some k\<rparr>"

definition shardKeyFrom :: "go_ctx \<Rightarrow> string option" where
  "shardKeyFrom ctx = (case shard_key ctx of None \<Rightarrow> None | Some k \<Rightarrow> if k = '''' then None else Some k)"

definition errNoShardKey :: go_err where
  "errNoShardKey = ErrText ''pg: no shard key in context (use WithShardKey before a sharded operation)''"

definition sharded_RunInTx ::
  "go_err option \<Rightarrow> go_err option \<Rightarrow> go_ctx \<Rightarrow> ('s \<Rightarrow> 's \<times> go_err option) \<Rightarrow> 's list \<Rightarrow> 's list \<times> go_err option" where
  "sharded_RunInTx b c ctx fn shards =
     (case shardKeyFrom ctx of
        None \<Rightarrow> (shards, Some errNoShardKey)
      | Some key \<Rightarrow>
          (let i = Resolve shards key
           in case RunInTx b c fn (shards ! i) of (s', e) \<Rightarrow> (shards[i := s'], e)))"

text \<open>\<open>ForEachShard\<close>: every shard is visited, every error is reported with its shard.\<close>

definition ForEachShard :: "go_err option \<Rightarrow> (nat \<Rightarrow> 's \<Rightarrow> 's \<times> go_err option) \<Rightarrow> 's list \<Rightarrow> 's list \<times> go_err list" where
  "ForEachShard ctx_error fn shards =
     (case ctx_error of
        Some e \<Rightarrow> (shards, [e])
      | None \<Rightarrow>
          (let rs = map (\<lambda>(i, s). (i, fn i s)) (zip [0..<length shards] shards)
           in (map (\<lambda>(i, s, _). s) rs,
               concat (map (\<lambda>(i, _, e). case e of None \<Rightarrow> []
                        | Some e' \<Rightarrow> [ErrWrap (''pg: shard '' @ itoa (int i)) e']) rs))))"

section \<open>Lemmas\<close>

lemma Physical_eq:
  "Physical (NewRouter m) key = unat (fnv64a key) mod 256 mod (if m < 1 then 1 else nat m)"
  by (simp add: Physical_def NewRouter_def Let_def defaultLogicalShards_def unat_mod)

text \<open>The route computed in binary, without the table: the code equation of the evaluations below.\<close>

lemma Resolve_code [code]:
  "Resolve shards key =
     nat (uint (fnv64a key mod 256) mod (if shards = [] then 1 else int (length shards)))"
proof -
  have "uint (fnv64a key mod 256) = int (unat (fnv64a key) mod 256)"
    by (simp add: unat_mod uint_nat)
  then show ?thesis
    by (cases shards) (simp_all add: Resolve_def Physical_eq nat_mod_distrib)
qed

lemma Resolve_less: "shards \<noteq> [] \<Longrightarrow> Resolve shards key < length shards"
  by (simp add: Resolve_def Physical_eq)

lemma Resolve_less256: "Resolve shards key < 256"
  unfolding Resolve_def Physical_eq
  by (rule le_less_trans [OF mod_less_eq_dividend]) simp

lemma Resolve_length: "length shards = length shards' \<Longrightarrow> Resolve shards key = Resolve shards' key"
  by (simp add: Resolve_def)

lemma sharded_RunInTx_other:
  assumes "shardKeyFrom ctx = Some key" "j \<noteq> Resolve shards key"
  shows "fst (sharded_RunInTx b c ctx fn shards) ! j = shards ! j"
  using assms by (simp add: sharded_RunInTx_def Let_def split: prod.split)



end
