(* ===== verification/Outbox.thy ===== *)
theory Outbox
  imports Pg_Shards
begin

text \<open>
  \<open>platform/messaging/outbox\<close>: messages are written to a table in the transaction of the business data
  (\<open>repository.go\<close>), a relay publishes them (\<open>relay.go\<close>) and a cleaner deletes old published rows
  (\<open>cleanup.go\<close>). The table is a list of rows. The JSON text of the headers column is held as what
  \<open>json.Unmarshal\<close> makes of it. The order in which Postgres delivers rows with equal keys, the rows other
  relays have locked and the outcomes of statements are arguments; the transport is any function that
  publishes messages in a world \<open>'w\<close>.
\<close>

section \<open>message.go\<close>

datatype json_headers = NoHeaders | BadJson string | JsonObj "string \<rightharpoonup> string"

record message =
  ID :: string
  mTopic :: string
  AggregateType :: string
  AggregateID :: string
  EventType :: string
  Payload :: string
  mHeaders :: json_headers
  CreatedAt :: int

record outbox_row =
  r_msg :: message
  published_at :: "int option"

type_synonym outbox_table = "outbox_row list"

section \<open>repository.go\<close>

definition HeaderPrincipalSub :: string where "HeaderPrincipalSub = ''principal-sub''"
definition HeaderPrincipalRoles :: string where "HeaderPrincipalRoles = ''principal-roles''"

text \<open>\<open>auth.InjectHeaders\<close>; the JSON text of the role list is an argument.\<close>

definition auth_InjectHeaders :: "(string list \<Rightarrow> string) \<Rightarrow> go_ctx \<Rightarrow> (string \<rightharpoonup> string) \<Rightarrow> string \<rightharpoonup> string" where
  "auth_InjectHeaders roles_json ctx h =
     (case principal ctx of
        None \<Rightarrow> h
      | Some (sub, roles) \<Rightarrow>
          (let h1 = h(HeaderPrincipalSub \<mapsto> sub)
           in if roles = [] then h1 else h1(HeaderPrincipalRoles \<mapsto> roles_json roles)))"

definition stamp_correlation :: "go_ctx \<Rightarrow> string \<Rightarrow> (string \<rightharpoonup> string) \<Rightarrow> string \<rightharpoonup> string" where
  "stamp_correlation ctx i h =
     (if h HeaderCorrelationID \<noteq> None then h
      else h(HeaderCorrelationID \<mapsto> (if CorrelationID ctx \<noteq> '''' then CorrelationID ctx else i)))"

definition stamp_causation :: "go_ctx \<Rightarrow> (string \<rightharpoonup> string) \<Rightarrow> string \<rightharpoonup> string" where
  "stamp_causation ctx h =
     (if h HeaderCausationID \<noteq> None \<or> ParentMessageID ctx = '''' then h
      else h(HeaderCausationID \<mapsto> ParentMessageID ctx))"

definition StampChainHeaders :: "(string list \<Rightarrow> string) \<Rightarrow> go_ctx \<Rightarrow> message \<Rightarrow> message" where
  "StampChainHeaders roles_json ctx m =
     (case mHeaders m of
        BadJson t \<Rightarrow> m
      | hs \<Rightarrow>
          (let h0 = (case hs of JsonObj h \<Rightarrow> h | _ \<Rightarrow> Map.empty);
               h1 = stamp_correlation ctx (ID m) h0;
               h2 = stamp_causation ctx h1;
               h3 = (if h2 HeaderPrincipalSub = None then auth_InjectHeaders roles_json ctx h2 else h2);
               h4 = (if h3 HeaderTenantID = None then tenant_InjectHeaders ctx h3 else h3)
           in m\<lparr>mHeaders := JsonObj h4\<rparr>))"

text \<open>The insert fails on a duplicate primary key \<open>(id, created_at)\<close>, or as the driver says.\<close>

definition InsertOutbox :: "go_err option \<Rightarrow> int \<Rightarrow> message \<Rightarrow> outbox_table \<Rightarrow> outbox_table \<times> go_err option" where
  "InsertOutbox err t m rows =
     (case err of
        Some e \<Rightarrow> (rows, Some e)
      | None \<Rightarrow>
          if (\<exists>r \<in> set rows. ID (r_msg r) = ID m \<and> CreatedAt (r_msg r) = t)
          then (rows, Some (ErrText ''duplicate key value violates unique constraint''))
          else (rows @ [\<lparr>r_msg = m\<lparr>CreatedAt := t\<rparr>, published_at = None\<rparr>], None))"

definition Enqueue ::
  "(string list \<Rightarrow> string) \<Rightarrow> go_ctx \<Rightarrow> go_err option \<Rightarrow> int \<Rightarrow> message \<Rightarrow> outbox_table \<Rightarrow> outbox_table \<times> go_err option" where
  "Enqueue roles_json ctx err t m rows =
     (let m1 = StampChainHeaders roles_json ctx m;
          topic = (if mTopic m = '''' then AggregateType m else mTopic m)
      in case InsertOutbox err t (m1\<lparr>mTopic := topic\<rparr>) rows of
           (rows', Some e) \<Rightarrow> (rows', Some (ErrWrap ''outbox: enqueue'' e))
         | (rows', None) \<Rightarrow> (rows', None))"

section \<open>relay.go\<close>

record relay =
  BatchSize :: int
  shardCount :: int
  shardIndex :: int
  leaderKeySuffix :: string
  single_active :: bool
  lockSQL :: string
  unlockSQL :: string

definition quote1 :: string where "quote1 = [CHR 0x27]"

definition bare_key :: string where
  "bare_key = quote1 @ ''outbox_relay:'' @ quote1 @ ''||current_schema()''"

definition lock_stmt :: "string \<Rightarrow> string" where
  "lock_stmt key = ''select pg_try_advisory_lock(hashtext('' @ key @ ''))''"

definition unlock_stmt :: "string \<Rightarrow> string" where
  "unlock_stmt key = ''select pg_advisory_unlock(hashtext('' @ key @ ''))''"

definition leader_key :: "int \<Rightarrow> int \<Rightarrow> string \<Rightarrow> string" where
  "leader_key count idx suffix =
     bare_key
     @ (if 1 < count then ''||'' @ quote1 @ '':shard:'' @ itoa idx @ quote1 else '''')
     @ (if suffix \<noteq> '''' then ''||'' @ quote1 @ suffix @ quote1 else '''')"

text \<open>\<open>NewRelay\<close> with the options \<open>WithSingleActive\<close>, \<open>WithShard(index, count)\<close> and
  \<open>WithLeaderKeySuffix\<close>.\<close>

definition NewRelay :: "int \<Rightarrow> bool \<Rightarrow> (int \<times> int) option \<Rightarrow> string \<Rightarrow> relay" where
  "NewRelay batchSize active shard suffix =
     (let (idx, count) = (case shard of Some (i, n) \<Rightarrow> if 1 < n then (i, n) else (0, 0) | None \<Rightarrow> (0, 0));
          keyed = (1 < count \<or> suffix \<noteq> '''')
      in \<lparr>BatchSize = (if batchSize \<le> 0 then 100 else batchSize), shardCount = count, shardIndex = idx,
          leaderKeySuffix = suffix, single_active = active,
          lockSQL = lock_stmt (if keyed then leader_key count idx suffix else bare_key),
          unlockSQL = unlock_stmt (if keyed then leader_key count idx suffix else bare_key)\<rparr>)"

text \<open>SQL \<open>mod\<close> takes the sign of the dividend; the hash \<open>hashtextextended\<close> is the server's.\<close>

definition sql_mod :: "int \<Rightarrow> int \<Rightarrow> int" where
  "sql_mod a b = sgn a * (\<bar>a\<bar> mod \<bar>b\<bar>)"

definition row_shard :: "(string \<Rightarrow> int) \<Rightarrow> int \<Rightarrow> string \<Rightarrow> int" where
  "row_shard hash n a = sql_mod (sql_mod (hash a) n + n) n"

text \<open>One claim query: the scan order and the rows locked by others are the server's.\<close>

record claim_env =
  scan :: "outbox_table \<Rightarrow> outbox_table"
  locked :: "string set"
  hash :: "string \<Rightarrow> int"
  fetch_err :: "go_err option"
  claim_begin :: "go_err option"
  claim_commit :: "go_err option"
  mark_err :: "go_err option"
  mark_now :: int

definition claimable :: "relay \<Rightarrow> claim_env \<Rightarrow> outbox_row \<Rightarrow> bool" where
  "claimable r E row \<longleftrightarrow>
     published_at row = None \<and> ID (r_msg row) \<notin> locked E
     \<and> (1 < shardCount r \<longrightarrow> row_shard (hash E) (shardCount r) (AggregateID (r_msg row)) = shardIndex r)"

definition fetchUnpublished :: "relay \<Rightarrow> claim_env \<Rightarrow> outbox_table \<Rightarrow> message list" where
  "fetchUnpublished r E rows =
     map r_msg (take (nat (BatchSize r)) (sort_key (\<lambda>row. CreatedAt (r_msg row)) (filter (claimable r E) (scan E rows))))"

definition fetch_error :: "relay \<Rightarrow> go_err \<Rightarrow> go_err" where
  "fetch_error r e =
     ErrWrap (if 1 < shardCount r then ''outbox: fetch shard '' @ itoa (shardIndex r) @ ''/'' @ itoa (shardCount r)
              else ''outbox: fetch'') e"

datatype 'w publisher =
    SinglePub "'w \<Rightarrow> message \<Rightarrow> 'w \<times> go_err option"
  | BatchPub "'w \<Rightarrow> message list \<Rightarrow> 'w \<times> go_err option"

fun publish_loop :: "('w \<Rightarrow> message \<Rightarrow> 'w \<times> go_err option) \<Rightarrow> message list \<Rightarrow> 'w \<Rightarrow> 'w \<times> go_err option" where
  "publish_loop pub [] w = (w, None)"
| "publish_loop pub (m # ms) w =
     (case pub w m of
        (w1, Some e) \<Rightarrow> (w1, Some (ErrWrap (''outbox: publish '' @ ID m) e))
      | (w1, None) \<Rightarrow> publish_loop pub ms w1)"

fun publish_phase :: "'w publisher \<Rightarrow> message list \<Rightarrow> 'w \<Rightarrow> 'w \<times> go_err option" where
  "publish_phase (BatchPub pb) ms w =
     (case pb w ms of (w1, Some e) \<Rightarrow> (w1, Some (ErrWrap ''outbox: batch publish'' e)) | (w1, None) \<Rightarrow> (w1, None))"
| "publish_phase (SinglePub pub) ms w = publish_loop pub ms w"

definition MarkPublishedBatch :: "int \<Rightarrow> string list \<Rightarrow> outbox_table \<Rightarrow> outbox_table" where
  "MarkPublishedBatch t ids rows =
     map (\<lambda>row. if ID (r_msg row) \<in> set ids then row\<lparr>published_at := Some t\<rparr> else row) rows"

definition claim_phase :: "relay \<Rightarrow> claim_env \<Rightarrow> outbox_table \<Rightarrow> (go_err, message list) result" where
  "claim_phase r E rows =
     (case RunInTx_mem (claim_begin E) (claim_commit E)
             (\<lambda>rows _. case fetch_err E of
                Some e \<Rightarrow> (rows, [], Some (fetch_error r e))
              | None \<Rightarrow> (rows, fetchUnpublished r E rows, None)) rows [] of
        (_, _, Some e) \<Rightarrow> Inl (ErrWrap ''outbox: claim phase'' e)
      | (_, msgs, None) \<Rightarrow> Inr msgs)"

definition ProcessBatch ::
  "relay \<Rightarrow> 'w publisher \<Rightarrow> claim_env \<Rightarrow> outbox_table \<Rightarrow> 'w \<Rightarrow> outbox_table \<times> 'w \<times> int \<times> go_err option" where
  "ProcessBatch r pub E rows w =
     (case claim_phase r E rows of
        Inl e \<Rightarrow> (rows, w, 0, Some e)
      | Inr msgs \<Rightarrow>
          if msgs = [] then (rows, w, 0, None)
          else (case publish_phase pub msgs w of
                  (w1, Some e) \<Rightarrow> (rows, w1, 0, Some e)
                | (w1, None) \<Rightarrow>
                    (case mark_err E of
                       Some e \<Rightarrow> (rows, w1, 0, Some (ErrWrap ''outbox: mark published batch'' e))
                     | None \<Rightarrow> (MarkPublishedBatch (mark_now E) (map ID msgs) rows, w1, int (length msgs), None))))"

text \<open>\<open>drain\<close>: the \<open>k\<close>-th batch runs under \<open>env k\<close>; \<open>ctx_ended k\<close> and \<open>leads k\<close> are what \<open>ctx.Err\<close> and
  \<open>ensureLeader\<close> say after it. The loop may run on, so its value is an option.\<close>

partial_function (option) drain ::
  "relay \<Rightarrow> 'w publisher \<Rightarrow> (nat \<Rightarrow> claim_env) \<Rightarrow> (nat \<Rightarrow> bool) \<Rightarrow> (nat \<Rightarrow> bool) \<Rightarrow> nat \<Rightarrow> outbox_table \<Rightarrow> 'w
     \<Rightarrow> (outbox_table \<times> 'w \<times> go_err option) option" where
  "drain r pub env ctx_ended leads k rows w =
     (case ProcessBatch r pub (env k) rows w of
        (rows1, w1, n, err) \<Rightarrow>
          if err \<noteq> None \<or> n < BatchSize r \<or> ctx_ended k then Some (rows1, w1, err)
          else if single_active r \<and> \<not> leads k then Some (rows1, w1, None)
          else drain r pub env ctx_ended leads (k + 1) rows1 w1)"

definition backoffBase :: int where "backoffBase = 100000000"
definition backoffMax :: int where "backoffMax = 30000000000"

fun backoff_loop :: "nat \<Rightarrow> int \<Rightarrow> int" where
  "backoff_loop 0 b = b"
| "backoff_loop (Suc n) b = (let b' = wrap64 (b * 2) in if backoffMax < b' then backoffMax else backoff_loop n b')"

definition relay_backoff :: "nat \<Rightarrow> int" where
  "relay_backoff failures = backoff_loop (failures - 1) backoffBase"

text \<open>One tick of \<open>Run\<close>: the failure count after it and the pause before the next tick.\<close>

definition run_tick ::
  "relay \<Rightarrow> bool \<Rightarrow> (unit \<Rightarrow> (outbox_table \<times> 'w \<times> go_err option) option) \<Rightarrow> nat \<Rightarrow> outbox_table \<Rightarrow> 'w
     \<Rightarrow> (outbox_table \<times> 'w \<times> nat \<times> int) option" where
  "run_tick r leader drained failures rows w =
     (if single_active r \<and> \<not> leader then Some (rows, w, failures, 0)
      else (case drained () of
              None \<Rightarrow> None
            | Some (rows1, w1, Some e) \<Rightarrow> Some (rows1, w1, failures + 1, relay_backoff (failures + 1))
            | Some (rows1, w1, None) \<Rightarrow> Some (rows1, w1, 0, 0)))"

section \<open>cleanup.go\<close>

definition DeletePublishedBefore :: "int \<Rightarrow> outbox_table \<Rightarrow> outbox_table \<times> nat" where
  "DeletePublishedBefore cutoff rows =
     (let old = (\<lambda>row. case published_at row of None \<Rightarrow> False | Some t \<Rightarrow> t < cutoff)
      in (filter (\<lambda>row. \<not> old row) rows, length (filter old rows)))"

definition outbox_Cleanup :: "go_err option \<Rightarrow> int \<Rightarrow> int \<Rightarrow> outbox_table \<Rightarrow> outbox_table \<times> (go_err, nat) result" where
  "outbox_Cleanup err now olderThan rows =
     (case err of
        Some e \<Rightarrow> (rows, Inl (ErrWrap ''outbox: cleanup'' e))
      | None \<Rightarrow> (case DeletePublishedBefore (now - olderThan) rows of (rows', n) \<Rightarrow> (rows', Inr n)))"

section \<open>Lemmas\<close>

lemma sql_mod_nonneg: "0 \<le> a \<Longrightarrow> 0 < b \<Longrightarrow> sql_mod a b = a mod b"
  by (cases "a = 0") (simp_all add: sql_mod_def)

text \<open>The double \<open>mod\<close> of the shard predicate is the remainder that is never negative.\<close>

lemma row_shard_eq:
  assumes "0 < n"
  shows "row_shard h n a = h a mod n"
proof (cases "h a < 0")
  case True
  let ?m = "(- h a) mod n"
  have e: "sql_mod (h a) n + n = n - ?m" using True assms by (simp add: sql_mod_def sgn_if)
  have "?m \<le> n" using assms by (intro less_imp_le pos_mod_bound)
  then have "row_shard h n a = (n - ?m) mod n"
    unfolding row_shard_def e using assms by (intro sql_mod_nonneg) simp_all
  also have "\<dots> = (- ?m) mod n" using mod_add_self1 [of n "- ?m"] by (simp add: algebra_simps)
  also have "\<dots> = h a mod n" using mod_minus_eq [of "- h a" n] by simp
  finally show ?thesis .
next
  case False
  then have e: "sql_mod (h a) n = h a mod n" using assms by (intro sql_mod_nonneg) simp_all
  have "0 \<le> h a mod n" using assms by simp
  then have "row_shard h n a = (h a mod n + n) mod n"
    unfolding row_shard_def e using assms by (intro sql_mod_nonneg) simp_all
  then show ?thesis by simp
qed

lemma fetchUnpublished_rows:
  assumes "m \<in> set (fetchUnpublished r E rows)" "set (scan E rows) \<subseteq> set rows"
  shows "\<exists>row \<in> set rows. r_msg row = m \<and> claimable r E row"
proof -
  obtain row where "row \<in> set (scan E rows)" "r_msg row = m" "claimable r E row"
    using assms(1) by (auto simp: fetchUnpublished_def dest!: in_set_takeD)
  then show ?thesis using assms(2) by blast
qed

lemma claim_phase_Inr: "claim_phase r E rows = Inr msgs \<Longrightarrow> msgs = fetchUnpublished r E rows"
  by (auto simp: claim_phase_def RunInTx_mem_def split: option.splits prod.splits)

definition unpublished :: "outbox_table \<Rightarrow> nat" where
  "unpublished rows = length (filter (\<lambda>row. published_at row = None) rows)"

lemma unpublished_mark_le: "unpublished (MarkPublishedBatch t ids rows) \<le> unpublished rows"
  by (induction rows) (auto simp: unpublished_def MarkPublishedBatch_def)

lemma unpublished_mark_less:
  assumes "row \<in> set rows" "published_at row = None" "ID (r_msg row) \<in> set ids"
  shows "unpublished (MarkPublishedBatch t ids rows) < unpublished rows"
  using assms
proof (induction rows)
  case Nil
  then show ?case by simp
next
  case (Cons x rows)
  show ?case
  proof (cases "row \<in> set rows")
    case True
    then show ?thesis using Cons by (auto simp: unpublished_def MarkPublishedBatch_def)
  next
    case False
    then have "x = row" using Cons.prems by simp
    then show ?thesis
      using Cons.prems unpublished_mark_le [of t ids rows] by (auto simp: unpublished_def MarkPublishedBatch_def)
  qed
qed

lemma ProcessBatch_full:
  assumes "ProcessBatch r pub E rows w = (rows1, w1, n, None)" "0 < n" "set (scan E rows) \<subseteq> set rows"
  shows "unpublished rows1 < unpublished rows"
proof -
  obtain msgs where c: "claim_phase r E rows = Inr msgs" "msgs \<noteq> []"
    and rows1: "rows1 = MarkPublishedBatch (mark_now E) (map ID msgs) rows"
    using assms(1,2) by (auto simp: ProcessBatch_def split: sum.splits if_splits prod.splits option.splits)
  obtain m where m: "m \<in> set msgs" using c(2) by (cases msgs) auto
  then obtain row where "row \<in> set rows" "r_msg row = m" "claimable r E row"
    using fetchUnpublished_rows [OF _ assms(3)] claim_phase_Inr [OF c(1)] by blast
  then show ?thesis unfolding rows1 using m by (intro unpublished_mark_less) (auto simp: claimable_def)
qed

text \<open>A batch that came back short has left no claimable row unpublished.\<close>

lemma ProcessBatch_short:
  assumes pb: "ProcessBatch r pub E rows w = (rows1, w1, n, None)" and short: "n < BatchSize r"
    and perm: "set (scan E rows) = set rows" and free: "locked E = {}"
    and row: "row \<in> set rows1" "published_at row = None"
  shows "1 < shardCount r \<and> row_shard (hash E) (shardCount r) (AggregateID (r_msg row)) \<noteq> shardIndex r"
proof (rule ccontr)
  assume no: "\<not> ?thesis"
  obtain msgs where c: "claim_phase r E rows = Inr msgs"
    and rows1: "rows1 = (if msgs = [] then rows else MarkPublishedBatch (mark_now E) (map ID msgs) rows)"
    and n: "n = int (length msgs)"
    using pb by (auto simp: ProcessBatch_def split: sum.splits if_splits prod.splits option.splits)
  have msgs: "msgs = fetchUnpublished r E rows" using c by (rule claim_phase_Inr)
  let ?cs = "filter (claimable r E) (scan E rows)"
  have "length msgs < nat (BatchSize r)" using short n by simp
  then have all: "ID ` set msgs = (\<lambda>x. ID (r_msg x)) ` set ?cs"
    by (auto simp: msgs fetchUnpublished_def image_image)
  have old: "row \<in> set rows"
    using row rows1 by (auto simp: MarkPublishedBatch_def split: if_splits)
  then have "row \<in> set ?cs" using no free row(2) perm by (auto simp: claimable_def)
  then have "ID (r_msg row) \<in> ID ` set msgs" using all by blast
  moreover have "row \<in> set (MarkPublishedBatch (mark_now E) (map ID msgs) rows)"
    using row rows1 calculation by (auto split: if_splits)
  ultimately show False using row(2) by (auto simp: MarkPublishedBatch_def split: if_splits)
qed

lemma backoff_loop_exact:
  "0 < b \<Longrightarrow> b \<le> backoffMax \<Longrightarrow> backoff_loop n b = min (b * 2 ^ n) backoffMax"
proof (induction n arbitrary: b)
  case 0
  then show ?case by simp
next
  case (Suc n)
  have w: "wrap64 (b * 2) = b * 2" using Suc.prems by (simp add: backoffMax_def)
  show ?case
  proof (cases "backoffMax < b * 2")
    case True
    moreover have "b * 2 * 1 \<le> b * 2 * 2 ^ n" using Suc.prems by (intro mult_left_mono) auto
    ultimately show ?thesis using w by (simp add: Let_def min_def mult.assoc)
  next
    case False
    then show ?thesis using w Suc.IH [of "b * 2"] Suc.prems by (simp add: Let_def mult.assoc)
  qed
qed

section \<open>Properties\<close>

text \<open>C33. Draining the backlog ends, and ends with the work done: with a positive batch size and a server
  that scans exactly the rows of the table, \<open>drain\<close> returns; and when it returns without an error in a run
  in which no row is locked by others, the context lives on and leadership is kept, every row of the relay's
  shard is published.\<close>

theorem relay_drains:
  assumes "0 < BatchSize r" "\<And>k rs. set (scan (env k) rs) = set rs"
  shows "\<exists>rows' w' e. drain r pub env ctx_ended leads k rows w = Some (rows', w', e)
    \<and> (e = None \<and> (\<forall>j. locked (env j) = {} \<and> hash (env j) = H \<and> \<not> ctx_ended j \<and> leads j) \<longrightarrow>
        (\<forall>row \<in> set rows'. published_at row = None \<longrightarrow>
           1 < shardCount r \<and> row_shard H (shardCount r) (AggregateID (r_msg row)) \<noteq> shardIndex r))"
proof (induction "unpublished rows" arbitrary: rows w k rule: less_induct)
  case less
  obtain rows1 w1 n err where pb: "ProcessBatch r pub (env k) rows w = (rows1, w1, n, err)"
    by (metis prod_cases4)
  show ?case
  proof (cases "err \<noteq> None \<or> n < BatchSize r \<or> ctx_ended k")
    case True
    then have d: "drain r pub env ctx_ended leads k rows w = Some (rows1, w1, err)"
      using pb by (subst drain.simps) simp
    show ?thesis
      using d True ProcessBatch_short [of r pub "env k" rows w rows1 w1 n] pb assms(2)
      by (intro exI [of _ rows1] exI [of _ w1] exI [of _ err]) auto
  next
    case False
    show ?thesis
    proof (cases "single_active r \<and> \<not> leads k")
      case True
      then have "drain r pub env ctx_ended leads k rows w = Some (rows1, w1, None)"
        using pb False by (subst drain.simps) simp
      then show ?thesis using True by auto
    next
      case go: False
      have "unpublished rows1 < unpublished rows"
        using False pb assms by (intro ProcessBatch_full [of r pub "env k" rows w rows1 w1 n]) auto
      moreover have "drain r pub env ctx_ended leads k rows w = drain r pub env ctx_ended leads (k + 1) rows1 w1"
        using pb False go by (subst drain.simps) auto
      ultimately show ?thesis using less [of rows1 "k + 1" w1] by simp
    qed
  qed
qed

text \<open>The relay's error backoff is the base doubled once per consecutive failure after the first,
  capped, for every number of failures.\<close>

theorem relay_backoff_exact:
  "relay_backoff f = min (100000000 * 2 ^ (f - 1)) 30000000000"
  using backoff_loop_exact [of backoffBase "f - 1"]
  by (simp add: relay_backoff_def backoffBase_def backoffMax_def)

lemma Enqueue_ok:
  assumes "Enqueue rj ctx err t m rows = (rows', None)"
  shows "rows' = rows @ [\<lparr>r_msg = (StampChainHeaders rj ctx m)\<lparr>mTopic := (if mTopic m = '''' then AggregateType m else mTopic m),
                                      CreatedAt := t\<rparr>, published_at = None\<rparr>]"
  using assms by (auto simp: Enqueue_def InsertOutbox_def Let_def split: option.splits if_splits prod.splits)

lemma Stamp_ID [simp]: "ID (StampChainHeaders rj ctx m) = ID m"
  by (auto simp: StampChainHeaders_def Let_def split: json_headers.splits)

lemma outbox_Cleanup_rows:
  assumes "outbox_Cleanup err t age rows = (rows', res)"
  shows "set rows' \<subseteq> set rows \<and> (\<forall>row \<in> set rows. published_at row = None \<longrightarrow> row \<in> set rows')"
  using assms by (auto simp: outbox_Cleanup_def DeletePublishedBefore_def Let_def split: option.splits)

end
