(* ===== verification/Outbox_Partition.thy ===== *)
theory Outbox_Partition
  imports Outbox
begin

text \<open>
  \<open>platform/messaging/outbox/partition.go\<close>: the maintenance of the time-range partitions of the outbox
  table. Times are nanoseconds since the Unix epoch. A generated partition name is represented by what it
  encodes, the lower bound in whole seconds; every other name is foreign. The statements on a partition can
  fail; their outcomes are functions of the name.
\<close>

section \<open>State and configuration\<close>

datatype part_name = Generated int | Foreign string

record partition =
  pname :: part_name
  p_lo :: int
  p_hi :: int

record part_table =
  parts :: "partition list"
  prows :: outbox_table

record part_config =
  Interval :: int
  Retention :: int
  Lookahead :: int

definition second :: int where "second = 1000000000"
definition hour :: int where "hour = 3600 * second"

definition NewPartitionManager :: "part_config \<Rightarrow> part_config" where
  "NewPartitionManager cfg =
     cfg\<lparr>Interval := (if Interval cfg \<le> 0 then 720 * hour else Interval cfg),
         Lookahead := (if Lookahead cfg < 1 then 1 else Lookahead cfg)\<rparr>"

definition in_partition :: "partition \<Rightarrow> outbox_row \<Rightarrow> bool" where
  "in_partition p row \<longleftrightarrow> p_lo p \<le> CreatedAt (r_msg row) \<and> CreatedAt (r_msg row) < p_hi p"

section \<open>bounds and names\<close>

text \<open>\<open>Time.Truncate\<close> rounds down to a multiple of the duration since the zero time, January 1 of year 1.\<close>

definition zero_time :: int where "zero_time = - (62135596800 * second)"

definition go_Truncate :: "int \<Rightarrow> int \<Rightarrow> int" where
  "go_Truncate t d = (if d \<le> 0 then t else t - (t - zero_time) mod d)"

definition bounds :: "part_config \<Rightarrow> int \<Rightarrow> int \<times> int" where
  "bounds cfg t = (let lo = go_Truncate t (Interval cfg) in (lo, lo + Interval cfg))"

definition partitionName :: "int \<Rightarrow> part_name" where
  "partitionName lo = Generated (lo div second)"

fun parsePartitionLow :: "part_name \<Rightarrow> int option" where
  "parsePartitionLow (Generated s) = Some (s * second)"
| "parsePartitionLow (Foreign _) = None"

section \<open>Maintenance\<close>

text \<open>\<open>create table if not exists ... partition of\<close>: nothing when the name exists; an error when the range
  meets another partition, or rows that are in the default partition.\<close>

definition create_partition :: "part_name \<Rightarrow> int \<Rightarrow> int \<Rightarrow> part_table \<Rightarrow> part_table \<times> go_err option" where
  "create_partition name lo hi T =
     (if name \<in> pname ` set (parts T) then (T, None)
      else if (\<exists>p \<in> set (parts T). p_lo p < hi \<and> lo < p_hi p) then (T, Some (ErrText ''partition would overlap''))
      else if (\<exists>row \<in> set (prows T). lo \<le> CreatedAt (r_msg row) \<and> CreatedAt (r_msg row) < hi)
        then (T, Some (ErrText ''updated partition constraint for default partition would be violated by some row''))
      else (T\<lparr>parts := parts T @ [\<lparr>pname = name, p_lo = lo, p_hi = hi\<rparr>]\<rparr>, None))"

fun ensure_loop :: "part_config \<Rightarrow> (nat \<Rightarrow> go_err option) \<Rightarrow> int \<Rightarrow> nat \<Rightarrow> nat \<Rightarrow> part_table \<Rightarrow> part_table \<times> go_err option" where
  "ensure_loop cfg exec_err now i 0 T = (T, None)"
| "ensure_loop cfg exec_err now i (Suc n) T =
     (case bounds cfg (now + wrap64 (int i * Interval cfg)) of
        (lo, hi) \<Rightarrow>
          (case exec_err i of
             Some e \<Rightarrow> (T, Some (ErrWrap ''outbox: ensure partition'' e))
           | None \<Rightarrow>
               (case create_partition (partitionName lo) lo hi T of
                  (T1, Some e) \<Rightarrow> (T1, Some (ErrWrap ''outbox: ensure partition'' e))
                | (T1, None) \<Rightarrow> ensure_loop cfg exec_err now (i + 1) n T1)))"

definition EnsurePartitions :: "part_config \<Rightarrow> (nat \<Rightarrow> go_err option) \<Rightarrow> int \<Rightarrow> part_table \<Rightarrow> part_table \<times> go_err option" where
  "EnsurePartitions cfg exec_err now T = ensure_loop cfg exec_err now 0 (nat (Lookahead cfg + 1)) T"

record drop_env =
  list_err :: "go_err option"
  probe_err :: "part_name \<Rightarrow> go_err option"
  detach_err :: "part_name \<Rightarrow> go_err option"
  drop_err :: "part_name \<Rightarrow> go_err option"

definition has_unpublished :: "part_table \<Rightarrow> partition \<Rightarrow> bool" where
  "has_unpublished T p = (\<exists>row \<in> set (prows T). in_partition p row \<and> published_at row = None)"

definition detach :: "partition \<Rightarrow> part_table \<Rightarrow> part_table" where
  "detach p T = \<lparr>parts = filter (\<lambda>q. pname q \<noteq> pname p) (parts T),
                 prows = filter (\<lambda>row. \<not> in_partition p row) (prows T)\<rparr>"

fun drop_loop :: "part_config \<Rightarrow> drop_env \<Rightarrow> int \<Rightarrow> partition list \<Rightarrow> part_table \<Rightarrow> part_table \<times> go_err list" where
  "drop_loop cfg D cutoff [] T = (T, [])"
| "drop_loop cfg D cutoff (p # ps) T =
     (let skip = drop_loop cfg D cutoff ps T;
          fail = (\<lambda>T' e. case drop_loop cfg D cutoff ps T' of (T'', es) \<Rightarrow> (T'', e # es))
      in case parsePartitionLow (pname p) of
           None \<Rightarrow> skip
         | Some lo \<Rightarrow>
             if cutoff < lo + Interval cfg then skip
             else (case probe_err D (pname p) of
                     Some e \<Rightarrow> fail T (ErrWrap ''outbox: probe'' e)
                   | None \<Rightarrow>
                       if has_unpublished T p then skip
                       else (case detach_err D (pname p) of
                               Some e \<Rightarrow> fail T (ErrWrap ''outbox: detach'' e)
                             | None \<Rightarrow>
                                 (case drop_err D (pname p) of
                                    Some e \<Rightarrow> fail (detach p T) (ErrWrap ''outbox: drop'' e)
                                  | None \<Rightarrow> drop_loop cfg D cutoff ps (detach p T)))))"

definition DropExpired :: "part_config \<Rightarrow> drop_env \<Rightarrow> int \<Rightarrow> part_table \<Rightarrow> part_table \<times> go_err list" where
  "DropExpired cfg D now T =
     (if Retention cfg \<le> 0 then (T, [])
      else case list_err D of
             Some e \<Rightarrow> (T, [ErrWrap ''outbox: list partitions'' e])
           | None \<Rightarrow> drop_loop cfg D (now - Retention cfg) (parts T) T)"

definition Maintain ::
  "part_config \<Rightarrow> (nat \<Rightarrow> go_err option) \<Rightarrow> drop_env \<Rightarrow> int \<Rightarrow> part_table \<Rightarrow> part_table \<times> go_err list" where
  "Maintain cfg exec_err D start T =
     (case EnsurePartitions cfg exec_err start T of
        (T1, e1) \<Rightarrow>
          (case DropExpired cfg D start T1 of
             (T2, es) \<Rightarrow> (T2, (case e1 of None \<Rightarrow> [] | Some e \<Rightarrow> [e]) @ es)))"

section \<open>Lemmas\<close>

lemma detach_rows:
  "set (prows (detach p T)) \<subseteq> set (prows T)
   \<and> (\<not> has_unpublished T p \<longrightarrow> (\<forall>row \<in> set (prows T). published_at row = None \<longrightarrow> row \<in> set (prows (detach p T))))"
  by (auto simp: detach_def has_unpublished_def)

text \<open>Rows that leave the table are published, and belong to a listed partition that ends, by its name and
  the configured interval, at or before the cutoff.\<close>

lemma drop_loop_rows:
  assumes "drop_loop cfg D cutoff ps T = (T', es)"
  shows "set (prows T') \<subseteq> set (prows T)
    \<and> (\<forall>row \<in> set (prows T) - set (prows T').
         published_at row \<noteq> None
         \<and> (\<exists>p \<in> set ps. in_partition p row
              \<and> (\<exists>lo. parsePartitionLow (pname p) = Some lo \<and> lo + Interval cfg \<le> cutoff)))"
  using assms
proof (induction ps arbitrary: T es)
  case Nil
  then show ?case by simp
next
  case (Cons p ps)
  let ?exp = "\<lambda>p. \<exists>lo. parsePartitionLow (pname p) = Some lo \<and> lo + Interval cfg \<le> cutoff"
  consider (keep) es' where "drop_loop cfg D cutoff ps T = (T', es')"
    | (detach) es' where "drop_loop cfg D cutoff ps (detach p T) = (T', es')" "\<not> has_unpublished T p" "?exp p"
    using Cons.prems by (auto simp: Let_def split: option.splits if_splits prod.splits)
  then show ?case
  proof cases
    case keep
    from Cons.IH [OF this] show ?thesis by auto
  next
    case detach
    note ih = Cons.IH [OF detach(1)]
    have "published_at row \<noteq> None \<and> (\<exists>q \<in> set (p # ps). in_partition q row \<and> ?exp q)"
      if r: "row \<in> set (prows T)" "row \<notin> set (prows T')" for row
    proof (cases "in_partition p row")
      case True
      then show ?thesis using r detach(2,3) by (auto simp: has_unpublished_def)
    next
      case False
      then have "row \<in> set (prows (Outbox_Partition.detach p T))" using r by (simp add: detach_def)
      then show ?thesis using ih r(2) by auto
    qed
    then show ?thesis using ih detach_rows [of p T] by blast
  qed
qed

lemma DropExpired_keeps_unpublished:
  assumes "DropExpired cfg D now T = (T', es)"
  shows "set (prows T') \<subseteq> set (prows T)
    \<and> (\<forall>row \<in> set (prows T). published_at row = None \<longrightarrow> row \<in> set (prows T'))"
proof (cases "Retention cfg \<le> 0 \<or> list_err D \<noteq> None")
  case True
  then have "T' = T" using assms by (auto simp: DropExpired_def split: if_splits option.splits)
  then show ?thesis by simp
next
  case False
  then have "drop_loop cfg D (now - Retention cfg) (parts T) T = (T', es)"
    using assms by (simp add: DropExpired_def)
  from drop_loop_rows [OF this] show ?thesis by blast
qed

lemma go_Truncate_window: "0 < d \<Longrightarrow> go_Truncate t d \<le> t \<and> t < go_Truncate t d + d"
  using pos_mod_bound [of d "t - zero_time"] pos_mod_sign [of d "t - zero_time"] by (simp add: go_Truncate_def)

lemma go_Truncate_shift: "0 < d \<Longrightarrow> go_Truncate (t + k * d) d = go_Truncate t d + k * d"
proof -
  assume "0 < d"
  moreover have "(t + k * d - zero_time) mod d = (t - zero_time) mod d"
    using mod_mult_self1 [of "t - zero_time" k d] by (simp add: algebra_simps)
  ultimately show ?thesis by (simp add: go_Truncate_def)
qed

text \<open>The partitions agree with their names: the one named after a window has the bounds of the window.\<close>

definition consistent_parts :: "part_config \<Rightarrow> part_table \<Rightarrow> bool" where
  "consistent_parts cfg T \<longleftrightarrow>
     (\<forall>p \<in> set (parts T). \<forall>lo. parsePartitionLow (pname p) = Some lo \<longrightarrow> p_lo p = lo \<and> p_hi p = lo + Interval cfg)"

definition covered :: "part_table \<Rightarrow> int \<Rightarrow> bool" where
  "covered T t \<longleftrightarrow> (\<exists>p \<in> set (parts T). p_lo p \<le> t \<and> t < p_hi p)"

lemma bounds_whole_second:
  assumes "0 < Interval cfg" "second dvd Interval cfg" "bounds cfg t = (lo, hi)"
  shows "lo div second * second = lo"
proof -
  have "lo = zero_time + ((t - zero_time) - (t - zero_time) mod Interval cfg)"
    using assms(1,3) by (auto simp: bounds_def go_Truncate_def Let_def)
  moreover have "Interval cfg dvd (t - zero_time) - (t - zero_time) mod Interval cfg"
    by (metis dvd_minus_mod)
  moreover have "second dvd zero_time" by (simp add: zero_time_def)
  ultimately have "second dvd lo" using assms(2) dvd_trans dvd_add by metis
  then show ?thesis by simp
qed

lemma create_partition_ok:
  assumes "create_partition (partitionName lo) lo hi T = (T', None)" "consistent_parts cfg T"
    "lo div second * second = lo" "hi = lo + Interval cfg"
  shows "consistent_parts cfg T' \<and> set (parts T) \<subseteq> set (parts T')
    \<and> (\<exists>p \<in> set (parts T'). p_lo p = lo \<and> p_hi p = hi)"
proof (cases "partitionName lo \<in> pname ` set (parts T)")
  case True
  then obtain p where p: "p \<in> set (parts T)" "pname p = partitionName lo" by auto
  then have "p_lo p = lo \<and> p_hi p = hi"
    using assms(2-4) unfolding consistent_parts_def partitionName_def by (metis parsePartitionLow.simps(1))
  then show ?thesis using assms(1,2) True p(1) by (auto simp: create_partition_def)
next
  case False
  then have "T' = T\<lparr>parts := parts T @ [\<lparr>pname = partitionName lo, p_lo = lo, p_hi = hi\<rparr>]\<rparr>"
    using assms(1) by (auto simp: create_partition_def split: if_splits)
  then show ?thesis using assms(2-4) by (auto simp: consistent_parts_def partitionName_def)
qed

lemma ensure_loop_covers:
  assumes "ensure_loop cfg ex now i n T = (T', None)" "consistent_parts cfg T" "0 < Interval cfg"
    "second dvd Interval cfg" "int (i + n) * Interval cfg < 2 ^ 63"
  shows "consistent_parts cfg T' \<and> set (parts T) \<subseteq> set (parts T')
    \<and> (\<forall>j. i \<le> j \<and> j < i + n \<longrightarrow>
         (\<exists>p \<in> set (parts T'). p_lo p = go_Truncate now (Interval cfg) + int j * Interval cfg
                           \<and> p_hi p = p_lo p + Interval cfg))"
  using assms
proof (induction n arbitrary: i T)
  case 0
  then show ?case by auto
next
  case (Suc n)
  let ?I = "Interval cfg"
  have "int i * ?I \<le> int (i + Suc n) * ?I" using Suc.prems(3) by (intro mult_right_mono) auto
  moreover have "0 \<le> int i * ?I" using Suc.prems(3) by simp
  ultimately have w: "wrap64 (int i * ?I) = int i * ?I"
    using Suc.prems(5) by (intro wrap64_id) linarith+
  obtain lo hi where b: "bounds cfg (now + wrap64 (int i * ?I)) = (lo, hi)" by fastforce
  have lo: "lo = go_Truncate now ?I + int i * ?I" and hi: "hi = lo + ?I"
    using b w go_Truncate_shift [OF Suc.prems(3), of now "int i"] by (auto simp: bounds_def Let_def)
  obtain T1 where c: "create_partition (partitionName lo) lo hi T = (T1, None)"
    and r: "ensure_loop cfg ex now (i + 1) n T1 = (T', None)"
    using Suc.prems(1) b by (auto split: option.splits prod.splits)
  have 1: "consistent_parts cfg T1" "set (parts T) \<subseteq> set (parts T1)"
      "\<exists>p \<in> set (parts T1). p_lo p = lo \<and> p_hi p = hi"
    using create_partition_ok [OF c Suc.prems(2) bounds_whole_second [OF Suc.prems(3,4) b] hi] by auto
  have "int (i + 1 + n) * ?I < 2 ^ 63" using Suc.prems(5) by simp
  note ih = Suc.IH [OF r 1(1) Suc.prems(3,4) this]
  have "\<exists>p \<in> set (parts T'). p_lo p = go_Truncate now ?I + int j * ?I \<and> p_hi p = p_lo p + ?I"
    if j: "i \<le> j" "j < i + Suc n" for j
  proof (cases "j = i")
    case True
    then show ?thesis using 1(3) ih lo hi by (metis subsetD)
  next
    case False
    then show ?thesis using ih j by auto
  qed
  then show ?case using ih 1(2) by blast
qed

section \<open>Properties\<close>

text \<open>The partition windows tile time: the window of an instant contains it, has the configured length,
  is the window of each of its instants, and is followed without gap or overlap by the next one.\<close>

theorem partition_windows_tile:
  assumes "0 < Interval cfg" "bounds cfg t = (lo, hi)"
  shows "lo \<le> t \<and> t < hi \<and> hi = lo + Interval cfg \<and> bounds cfg hi = (hi, hi + Interval cfg)
    \<and> (\<forall>u. lo \<le> u \<and> u < hi \<longrightarrow> bounds cfg u = (lo, hi))"
proof -
  let ?I = "Interval cfg"
  have lo: "lo = go_Truncate t ?I" and hi: "hi = lo + ?I" using assms(2) by (auto simp: bounds_def Let_def)
  have "?I dvd lo - zero_time"
    using assms(1) dvd_minus_mod [of ?I "t - zero_time"] by (simp add: lo go_Truncate_def algebra_simps)
  then obtain k where k: "lo - zero_time = ?I * k" by (elim dvdE)
  have same: "go_Truncate u ?I = lo" if "lo \<le> u" "u < hi" for u
  proof -
    have "u - zero_time = (u - lo) + ?I * k" using k by simp
    then have "(u - zero_time) mod ?I = (u - lo) mod ?I" by (simp only: mod_mult_self2)
    also have "\<dots> = u - lo" using that hi by (intro mod_pos_pos_trivial) simp_all
    finally have "(u - zero_time) mod ?I = u - lo" .
    then show ?thesis using assms(1) by (simp add: go_Truncate_def)
  qed
  have "go_Truncate (lo + 1 * ?I) ?I = go_Truncate lo ?I + 1 * ?I" by (rule go_Truncate_shift [OF assms(1)])
  then have "go_Truncate hi ?I = hi" using same [of lo] assms(1) hi by simp
  moreover have "lo \<le> t" "t < hi" using go_Truncate_window [OF assms(1), of t] lo hi by simp_all
  ultimately show ?thesis using same hi by (simp add: bounds_def Let_def)
qed

theorem partition_windows_tile_witness:
  "case bounds \<lparr>Interval = hour, Retention = 0, Lookahead = 1\<rparr> 5 of
     (lo, hi) \<Rightarrow> lo \<le> 5 \<and> 5 < hi \<and> hi = lo + hour"
proof -
  let ?c = "\<lparr>Interval = hour, Retention = 0, Lookahead = 1\<rparr>"
  obtain lo hi where b: "bounds ?c 5 = (lo, hi)" by fastforce
  have "0 < Interval ?c" by (simp add: hour_def second_def)
  from partition_windows_tile [OF this b] show ?thesis by (simp add: b)
qed

text \<open>Pre-creation keeps inserts out of the default partition: when \<open>EnsurePartitions\<close> succeeds on
  partitions that agree with their names, they still agree, and every instant from now to the end of the
  lookahead is inside some partition. The interval is in whole seconds, the resolution of the names.\<close>

theorem ensure_partitions_cover:
  assumes "EnsurePartitions cfg ex now T = (T', None)" "consistent_parts cfg T" "0 < Interval cfg"
    "second dvd Interval cfg" "0 \<le> Lookahead cfg" "(Lookahead cfg + 1) * Interval cfg < 2 ^ 63"
    "now \<le> t" "t \<le> now + Lookahead cfg * Interval cfg"
  shows "consistent_parts cfg T' \<and> covered T' t"
proof -
  let ?I = "Interval cfg" and ?lo = "go_Truncate now (Interval cfg)"
  have lp: "consistent_parts cfg T'" "\<And>j. j < nat (Lookahead cfg + 1) \<Longrightarrow>
      \<exists>p \<in> set (parts T'). p_lo p = ?lo + int j * ?I \<and> p_hi p = p_lo p + ?I"
    using ensure_loop_covers [of cfg ex now 0 "nat (Lookahead cfg + 1)" T T'] assms(1-6)
    by (auto simp: EnsurePartitions_def)
  define j where "j = nat ((t - ?lo) div ?I)"
  have w: "?lo \<le> now" "now < ?lo + ?I" using go_Truncate_window [OF assms(3)] by auto
  have nn: "0 \<le> (t - ?lo) div ?I" using w assms(3,7) by (simp add: pos_imp_zdiv_nonneg_iff)
  have "t - ?lo < (Lookahead cfg + 1) * ?I" using w assms(8) by (simp add: algebra_simps)
  moreover have "(t - ?lo) div ?I * ?I \<le> t - ?lo"
    using pos_mod_sign [OF assms(3), of "t - ?lo"] by (simp add: minus_mod_eq_div_mult [symmetric])
  ultimately have "(t - ?lo) div ?I * ?I < (Lookahead cfg + 1) * ?I" by linarith
  then have "(t - ?lo) div ?I < Lookahead cfg + 1" using assms(3) by simp
  then obtain p where p: "p \<in> set (parts T')" "p_lo p = ?lo + int j * ?I" "p_hi p = p_lo p + ?I"
    using lp(2) [of j] nn assms(5) by (auto simp: j_def)
  have "int j * ?I = (t - ?lo) - (t - ?lo) mod ?I"
    using nn by (simp add: j_def minus_mod_eq_div_mult)
  then have "p_lo p \<le> t" "t < p_hi p"
    using p assms(3) pos_mod_bound [of ?I "t - ?lo"] pos_mod_sign [of ?I "t - ?lo"] by auto
  then show ?thesis using lp(1) p(1) by (auto simp: covered_def)
qed

text \<open>Expiry is safe: \<open>DropExpired\<close> removes only published rows, and, when the partitions agree with
  their names, only rows created more than the retention ago; whatever fails, every unpublished row stays.\<close>

theorem drop_expired_safe:
  assumes "DropExpired cfg D now T = (T', es)" "consistent_parts cfg T"
  shows "set (prows T') \<subseteq> set (prows T)
    \<and> (\<forall>row \<in> set (prows T) - set (prows T').
         published_at row \<noteq> None \<and> CreatedAt (r_msg row) < now - Retention cfg)"
proof (cases "Retention cfg \<le> 0 \<or> list_err D \<noteq> None")
  case True
  then have "T' = T" using assms(1) by (auto simp: DropExpired_def split: if_splits option.splits)
  then show ?thesis by simp
next
  case False
  then have "drop_loop cfg D (now - Retention cfg) (parts T) T = (T', es)"
    using assms(1) by (simp add: DropExpired_def)
  note d = drop_loop_rows [OF this]
  have "CreatedAt (r_msg row) < now - Retention cfg"
    if "p \<in> set (parts T)" "in_partition p row" "parsePartitionLow (pname p) = Some lo"
      "lo + Interval cfg \<le> now - Retention cfg" for p row lo
    using that assms(2) unfolding consistent_parts_def in_partition_def by fastforce
  then show ?thesis using d by blast
qed

section \<open>Concrete tables\<close>

definition demo_message :: "int \<Rightarrow> message" where
  "demo_message t = \<lparr>ID = ''id'', mTopic = ''orders.events'', AggregateType = ''order'', AggregateID = ''o-1'',
     EventType = ''orders.OrderCreated.v1'', Payload = '''', mHeaders = NoHeaders, CreatedAt = t\<rparr>"

definition demo_cfg :: part_config where
  "demo_cfg = \<lparr>Interval = hour, Retention = hour, Lookahead = 1\<rparr>"

definition calm_drop :: drop_env where
  "calm_drop = \<lparr>list_err = None, probe_err = (\<lambda>_. None), detach_err = (\<lambda>_. None), drop_err = (\<lambda>_. None)\<rparr>"

definition demo_table :: part_table where
  "demo_table = \<lparr>parts = [\<lparr>pname = Generated 0, p_lo = 0, p_hi = hour\<rparr>],
     prows = [\<lparr>r_msg = demo_message 5, published_at = Some 9\<rparr>]\<rparr>"

lemma demo_consistent: "consistent_parts demo_cfg demo_table"
  by (simp add: consistent_parts_def demo_cfg_def demo_table_def)

theorem ensure_partitions_cover_witness:
  "covered (fst (EnsurePartitions demo_cfg (\<lambda>_. None) (2 * hour) demo_table)) (3 * hour)"
proof -
  let ?E = "EnsurePartitions demo_cfg (\<lambda>_. None) (2 * hour) demo_table"
  have "snd ?E = None" by code_simp
  then have "?E = (fst ?E, None)" by (simp add: prod_eq_iff)
  then show ?thesis
    using ensure_partitions_cover [of demo_cfg "\<lambda>_. None" "2 * hour" demo_table "fst ?E" "3 * hour"] demo_consistent
    by (simp add: demo_cfg_def hour_def second_def)
qed

theorem drop_expired_safe_witness:
  "prows (fst (DropExpired demo_cfg calm_drop (5 * hour) demo_table)) = []
   \<and> list_all (\<lambda>row. published_at row \<noteq> None \<and> CreatedAt (r_msg row) < 5 * hour - Retention demo_cfg) (prows demo_table)"
proof -
  let ?D = "DropExpired demo_cfg calm_drop (5 * hour) demo_table"
  have e: "prows (fst ?D) = []" by code_simp
  then show ?thesis
    using drop_expired_safe [of demo_cfg calm_drop "5 * hour" demo_table "fst ?D" "snd ?D"] demo_consistent
    by (simp add: list_all_iff)
qed

text \<open>The windows are not aligned to the Unix epoch: with the default interval of 720 hours the window
  that contains the epoch begins two days before it.\<close>

theorem windows_not_epoch_aligned:
  "bounds \<lparr>Interval = 720 * hour, Retention = 2160 * hour, Lookahead = 2\<rparr> 0 = (- 48 * hour, 672 * hour)"
  by (simp add: bounds_def go_Truncate_def zero_time_def hour_def second_def Let_def)

lemma create_partition_rows: "create_partition name lo hi T = (T', e) \<Longrightarrow> prows T' = prows T"
  by (auto simp: create_partition_def split: if_splits)

lemma ensure_loop_rows: "ensure_loop cfg ex t i n T = (T', e) \<Longrightarrow> prows T' = prows T"
proof (induction n arbitrary: i T)
  case 0
  then show ?case by simp
next
  case (Suc n)
  then show ?case
    by (auto split: prod.splits option.splits dest: create_partition_rows Suc.IH)
qed

lemma Maintain_rows:
  assumes "Maintain cfg ex D t T = (T', es)"
  shows "set (prows T') \<subseteq> set (prows T)
    \<and> (\<forall>row \<in> set (prows T). published_at row = None \<longrightarrow> row \<in> set (prows T'))"
proof -
  obtain T1 e1 es' where "EnsurePartitions cfg ex t T = (T1, e1)" "DropExpired cfg D t T1 = (T', es')"
    using assms by (auto simp: Maintain_def split: prod.splits)
  then show ?thesis
    using ensure_loop_rows [of cfg ex t 0 _ T T1 e1] DropExpired_keeps_unpublished [of cfg D t T1 T' es']
    by (simp add: EnsurePartitions_def)
qed

end
