(* ===== verification/Inbox.thy ===== *)
theory Inbox
  imports Pg_Shards
begin

text \<open>
  \<open>platform/messaging/inbox\<close>: a message is processed at most once per consumer. The table \<open>inbox\<close> is a
  list of rows (primary key \<open>(consumer, message_id)\<close>, time of processing) beside the application's
  tables, an arbitrary state \<open>'d\<close>, in one shard. The outcomes the driver decides (errors of begin, commit
  and the insert, the server's clock) are a record; Go variables written by the side effect are \<open>'c\<close>.
\<close>

section \<open>The table\<close>

type_synonym inbox_key = "string \<times> string"

record 'd shard =
  inbox :: "(inbox_key \<times> int) list"
  app :: 'd

record tx_env =
  begin_err :: "go_err option"
  commit_err :: "go_err option"
  insert_err :: "string \<Rightarrow> go_err option"
  tx_now :: int

definition calm :: tx_env where
  "calm = \<lparr>begin_err = None, commit_err = None, insert_err = (\<lambda>_. None), tx_now = 0\<rparr>"

definition inbox_keys :: "'d shard \<Rightarrow> inbox_key list" where
  "inbox_keys s = map fst (inbox s)"

text \<open>\<open>insert into inbox ... on conflict do nothing\<close>, with the number of rows affected.\<close>

definition insert_inbox :: "int \<Rightarrow> inbox_key \<Rightarrow> 'd shard \<Rightarrow> 'd shard \<times> nat" where
  "insert_inbox t k s =
     (if k \<in> set (inbox_keys s) then (s, 0) else (s\<lparr>inbox := inbox s @ [(k, t)]\<rparr>, 1))"

section \<open>inbox.go\<close>

definition once_body ::
  "tx_env \<Rightarrow> string \<Rightarrow> string \<Rightarrow> ('d \<Rightarrow> 'c \<Rightarrow> 'd \<times> 'c \<times> go_err option)
     \<Rightarrow> 'd shard \<Rightarrow> bool \<times> 'c \<Rightarrow> 'd shard \<times> (bool \<times> 'c) \<times> go_err option" where
  "once_body T consumer messageID fn s pc =
     (case insert_err T messageID of
        Some e \<Rightarrow> (s, pc, Some (ErrWrap ''inbox: insert'' e))
      | None \<Rightarrow>
          (case insert_inbox (tx_now T) (consumer, messageID) s of
             (s1, n) \<Rightarrow>
               if n = 0 then (s1, (False, snd pc), None)
               else (case fn (app s1) (snd pc) of
                       (d', c', Some e) \<Rightarrow> (s1\<lparr>app := d'\<rparr>, (fst pc, c'), Some e)
                     | (d', c', None) \<Rightarrow> (s1\<lparr>app := d'\<rparr>, (True, c'), None))))"

definition ProcessOnce ::
  "tx_env \<Rightarrow> string \<Rightarrow> string \<Rightarrow> ('d \<Rightarrow> 'c \<Rightarrow> 'd \<times> 'c \<times> go_err option)
     \<Rightarrow> 'd shard \<Rightarrow> 'c \<Rightarrow> 'd shard \<times> 'c \<times> bool \<times> go_err option" where
  "ProcessOnce T consumer messageID fn s c =
     (case RunInTx_mem (begin_err T) (commit_err T) (once_body T consumer messageID fn) s (False, c) of
        (s', (_, c'), Some e) \<Rightarrow> (s', c', False, Some e)
      | (s', (p, c'), None) \<Rightarrow> (s', c', p, None))"

record ('d, 'c) batch_item =
  MessageID :: string
  Fn :: "go_ctx \<Rightarrow> 'd \<Rightarrow> 'c \<Rightarrow> 'd \<times> 'c \<times> go_err option"

fun batch_body ::
  "tx_env \<Rightarrow> go_ctx \<Rightarrow> string \<Rightarrow> ('d, 'c) batch_item list \<Rightarrow> 'd shard \<Rightarrow> nat \<times> 'c
     \<Rightarrow> 'd shard \<times> (nat \<times> 'c) \<times> go_err option" where
  "batch_body T ctx consumer [] s nc = (s, nc, None)"
| "batch_body T ctx consumer (it # items) s nc =
     (case insert_err T (MessageID it) of
        Some e \<Rightarrow> (s, nc, Some (ErrWrap (''inbox: batch insert '' @ MessageID it) e))
      | None \<Rightarrow>
          (case insert_inbox (tx_now T) (consumer, MessageID it) s of
             (s1, n) \<Rightarrow>
               if n = 0 then batch_body T ctx consumer items s1 nc
               else (case Fn it ctx (app s1) (snd nc) of
                       (d', c', Some e) \<Rightarrow> (s1\<lparr>app := d'\<rparr>, (fst nc, c'), Some e)
                     | (d', c', None) \<Rightarrow>
                         batch_body T ctx consumer items (s1\<lparr>app := d'\<rparr>) (fst nc + 1, c'))))"

definition ProcessBatchOnce ::
  "tx_env \<Rightarrow> go_ctx \<Rightarrow> string \<Rightarrow> ('d, 'c) batch_item list \<Rightarrow> 'd shard \<Rightarrow> 'c
     \<Rightarrow> 'd shard \<times> 'c \<times> nat \<times> go_err option" where
  "ProcessBatchOnce T ctx consumer items s c =
     (case RunInTx_mem (begin_err T) (commit_err T) (batch_body T ctx consumer items) s (0, c) of
        (s', (_, c'), Some e) \<Rightarrow> (s', c', 0, Some e)
      | (s', (n, c'), None) \<Rightarrow> (s', c', n, None))"

section \<open>cleanup.go\<close>

definition inbox_Cleanup :: "go_err option \<Rightarrow> int \<Rightarrow> int \<Rightarrow> 'd shard \<Rightarrow> 'd shard \<times> (go_err, nat) result" where
  "inbox_Cleanup exec_err now olderThan s =
     (let cutoff = now - olderThan
      in case exec_err of
           Some e \<Rightarrow> (s, Inl (ErrWrap ''inbox: cleanup'' e))
         | None \<Rightarrow> (s\<lparr>inbox := filter (\<lambda>r. \<not> snd r < cutoff) (inbox s)\<rparr>,
                     Inr (length (filter (\<lambda>r. snd r < cutoff) (inbox s)))))"

section \<open>Lemmas\<close>

lemma insert_inbox_cases:
  "insert_inbox t k s = (s1, n) \<Longrightarrow>
     (k \<in> set (inbox_keys s) \<and> s1 = s \<and> n = 0)
     \<or> (k \<notin> set (inbox_keys s) \<and> s1 = s\<lparr>inbox := inbox s @ [(k, t)]\<rparr> \<and> n = 1)"
  by (auto simp: insert_inbox_def split: if_splits)

text \<open>What one call does, on each of its branches.\<close>

lemma ProcessOnce_cases:
  assumes "ProcessOnce T consumer mid fn s c = (s', c', p, e)"
  shows "(e \<noteq> None \<and> s' = s \<and> \<not> p)
    \<or> (e = None \<and> \<not> p \<and> (consumer, mid) \<in> set (inbox_keys s) \<and> s' = s \<and> c' = c)
    \<or> (e = None \<and> p \<and> (consumer, mid) \<notin> set (inbox_keys s)
        \<and> inbox s' = inbox s @ [((consumer, mid), tx_now T)] \<and> fn (app s) c = (app s', c', None))"
proof -
  obtain b where r: "RunInTx_mem (begin_err T) (commit_err T) (once_body T consumer mid fn) s (False, c)
      = (s', (b, c'), e)"
    using assms by (auto simp: ProcessOnce_def split: prod.splits option.splits)
  show ?thesis
  proof (cases e)
    case (Some x)
    then show ?thesis using assms r by (auto simp: ProcessOnce_def dest: RunInTx_mem_Some)
  next
    case None
    have "p = b" using assms r None by (simp add: ProcessOnce_def)
    moreover have "once_body T consumer mid fn s (False, c) = (s', (b, c'), None)"
      using r None by (simp add: RunInTx_mem_None)
    ultimately show ?thesis using None
      by (auto simp: once_body_def insert_inbox_def split: option.splits prod.splits if_splits)
  qed
qed

text \<open>The items of a batch that ran, in order.\<close>

fun fresh_items :: "string \<Rightarrow> ('d, 'c) batch_item list \<Rightarrow> inbox_key set \<Rightarrow> ('d, 'c) batch_item list" where
  "fresh_items consumer [] K = []"
| "fresh_items consumer (it # items) K =
     (if (consumer, MessageID it) \<in> K then fresh_items consumer items K
      else it # fresh_items consumer items (insert (consumer, MessageID it) K))"

fun run_items :: "go_ctx \<Rightarrow> ('d, 'c) batch_item list \<Rightarrow> 'd \<Rightarrow> 'c \<Rightarrow> ('d \<times> 'c) option" where
  "run_items ctx [] d c = Some (d, c)"
| "run_items ctx (it # items) d c =
     (case Fn it ctx d c of (d', c', None) \<Rightarrow> run_items ctx items d' c' | (_, _, Some e) \<Rightarrow> None)"

lemma fresh_items_distinct:
  "distinct (map MessageID (fresh_items consumer items K))
   \<and> (\<forall>it \<in> set (fresh_items consumer items K). (consumer, MessageID it) \<notin> K \<and> it \<in> set items)
   \<and> (\<forall>it \<in> set items. (consumer, MessageID it) \<in> K
        \<or> MessageID it \<in> MessageID ` set (fresh_items consumer items K))"
proof (induction consumer items K rule: fresh_items.induct)
  case (1 consumer K)
  then show ?case by simp
next
  case (2 consumer it items K)
  then show ?case by (cases "(consumer, MessageID it) \<in> K") auto
qed

lemma batch_body_ok:
  assumes "batch_body T ctx consumer items s (n, c) = (s', (n', c'), None)"
  shows "let fr = fresh_items consumer items (set (inbox_keys s)) in
    inbox s' = inbox s @ map (\<lambda>it. ((consumer, MessageID it), tx_now T)) fr
    \<and> run_items ctx fr (app s) c = Some (app s', c') \<and> n' = n + length fr"
  using assms
proof (induction items arbitrary: s n c)
  case Nil
  then show ?case by simp
next
  case (Cons it items)
  let ?k = "(consumer, MessageID it)"
  have ie: "insert_err T (MessageID it) = None" using Cons.prems by (auto split: option.splits)
  show ?case
  proof (cases "?k \<in> set (inbox_keys s)")
    case True
    then have "batch_body T ctx consumer items s (n, c) = (s', (n', c'), None)"
      using Cons.prems ie by (simp add: insert_inbox_def)
    from Cons.IH [OF this] show ?thesis using True by simp
  next
    case False
    let ?s1 = "s\<lparr>inbox := inbox s @ [(?k, tx_now T)]\<rparr>"
    obtain d1 c1 where f: "Fn it ctx (app s) c = (d1, c1, None)"
      using Cons.prems ie False by (auto simp: insert_inbox_def split: prod.splits option.splits)
    have "batch_body T ctx consumer items (?s1\<lparr>app := d1\<rparr>) (n + 1, c1) = (s', (n', c'), None)"
      using Cons.prems ie False f by (simp add: insert_inbox_def)
    moreover have "set (inbox_keys (?s1\<lparr>app := d1\<rparr>)) = insert ?k (set (inbox_keys s))"
      by (simp add: inbox_keys_def)
    ultimately show ?thesis using Cons.IH [of "?s1\<lparr>app := d1\<rparr>" "n + 1" c1] False f
      by (simp add: Let_def)
  qed
qed

lemma ProcessBatchOnce_error:
  "ProcessBatchOnce T ctx consumer items s c = (s', c', n, Some e) \<Longrightarrow> s' = s \<and> n = 0"
  by (auto simp: ProcessBatchOnce_def split: prod.splits option.splits dest: RunInTx_mem_Some)

lemma ProcessBatchOnce_ok:
  assumes "ProcessBatchOnce T ctx consumer items s c = (s', c', n, None)"
  shows "let fr = fresh_items consumer items (set (inbox_keys s)) in
    inbox s' = inbox s @ map (\<lambda>it. ((consumer, MessageID it), tx_now T)) fr
    \<and> run_items ctx fr (app s) c = Some (app s', c') \<and> n = length fr"
proof -
  have "batch_body T ctx consumer items s (0, c) = (s', (n, c'), None)"
    using assms by (auto simp: ProcessBatchOnce_def RunInTx_mem_None split: prod.splits option.splits)
  from batch_body_ok [OF this] show ?thesis by simp
qed

end
