(* ===== verification/Consume.thy ===== *)
theory Consume
  imports Inbox Kafka_Consumer
begin

text \<open>
  \<open>platform/messaging/consume\<close>: the typed consumer pipeline. A record is dispatched on its event-type
  header, its message id is the outbox-stamped header or its position in the log, and the typed handler
  runs in the inbox transaction of the shard the record key routes to. Payload decoding (protobuf and the
  schema registry serde) and the principal extraction are outside this theory: they are functions held by
  the handler and by the consumer. A post-commit hook is a value; firing one appends it, with the context
  it ran under, to a log.
\<close>

section \<open>eventtype.go\<close>

definition isVersionSegment :: "string \<Rightarrow> bool" where
  "isVersionSegment s = (2 \<le> length s \<and> s ! 0 = CHR ''v'' \<and> list_all is_digit (tl s))"

definition EventTypeFor :: "string \<Rightarrow> int \<Rightarrow> string" where
  "EventTypeFor full version =
     (let (pkg, m) = (case last_index_byte full CHR ''.'' of
                        None \<Rightarrow> ('''', full) | Some i \<Rightarrow> (take i full, drop (i + 1) full));
          pkg' = (case last_index_byte pkg CHR ''.'' of
                    None \<Rightarrow> pkg | Some i \<Rightarrow> if isVersionSegment (drop (i + 1) pkg) then take i pkg else pkg)
      in if pkg' = '''' then m @ ''.v'' @ itoa version else pkg' @ ''.'' @ m @ ''.v'' @ itoa version)"

section \<open>consume.go\<close>

definition srMagicByte :: char where "srMagicByte = CHR 0x00"
definition CodeMalformedPayload :: string where "CodeMalformedPayload = ''MESSAGING_MALFORMED_PAYLOAD''"

datatype 'm hook = Noop | Fire string 'm

record ('m, 'd) typed_handler =
  event :: string
  instantiates :: bool
  unmarshal :: "string \<Rightarrow> (go_err, 'm) result"
  sr_decode :: "string \<Rightarrow> (go_err, 'm) result"
  fn :: "go_ctx \<Rightarrow> 'm \<Rightarrow> 'd \<Rightarrow> 'd \<times> go_err option"
  has_hook :: bool

record ('m, 'd) consumer =
  group :: string
  has_dec :: bool
  noInbox :: bool
  byType :: "string \<rightharpoonup> ('m, 'd) typed_handler"
  codes :: code_registry
  auth_Extract :: "(string \<rightharpoonup> string) \<Rightarrow> (string \<times> string list) option"
  fate :: "nat \<Rightarrow> tx_env"

text \<open>The databases of the shards, the hooks that fired, how many transactions were begun (the outcome
  of the next one is \<open>fate\<close> of that number) and the fallback counter of the metrics.\<close>

record ('m, 'd) cworld =
  shards :: "'d shard list"
  fired :: "(go_ctx \<times> string \<times> 'm) list"
  txs :: nat
  fallbacks :: nat

definition em_dash :: string where "em_dash = [CHR 0xE2, CHR 0x80, CHR 0x94]"

definition decode_value :: "('m, 'd) consumer \<Rightarrow> ('m, 'd) typed_handler \<Rightarrow> string \<Rightarrow> (go_err, 'm) result" where
  "decode_value c h v =
     (if \<not> instantiates h then
        Inl (app_Wrapf (codes c) None CodeMalformedPayload (''consume: cannot instantiate message for '' @ event h))
      else if has_dec c then
        (case sr_decode h v of
           Inr m \<Rightarrow> Inr m
         | Inl e \<Rightarrow>
             if v = '''' \<or> v ! 0 \<noteq> srMagicByte then
               Inl (app_Wrapf (codes c) (Some e) CodeMalformedPayload
                 (''consume: decode '' @ event h @
                  '': value is not Confluent-SR framed (no 0x00 magic byte) '' @ em_dash @
                  '' producer publishing raw protobuf while this consumer has SERDE_SR_URL set?''))
             else Inl (app_Wrapf (codes c) (Some e) CodeMalformedPayload (''consume: decode '' @ event h @ '' failed'')))
      else if 6 \<le> length v \<and> v ! 0 = srMagicByte then
        Inl (app_Wrapf (codes c) None CodeMalformedPayload
          (''consume: unmarshal '' @ event h @
           '': value appears Confluent-SR framed (0x00 magic byte) but this consumer decodes raw protobuf '' @ em_dash @
           '' SERDE_SR_URL mismatch between producer and consumer?''))
      else (case unmarshal h v of
              Inr m \<Rightarrow> Inr m
            | Inl e \<Rightarrow> Inl (app_Wrapf (codes c) (Some e) CodeMalformedPayload
                             (''consume: unmarshal '' @ event h @ '' failed''))))"

definition typed_handle ::
  "('m, 'd) consumer \<Rightarrow> ('m, 'd) typed_handler \<Rightarrow> go_ctx \<Rightarrow> string \<Rightarrow> 'd \<Rightarrow> 'd \<times> (go_err, 'm hook) result" where
  "typed_handle c h ctx v d =
     (case decode_value c h v of
        Inl e \<Rightarrow> (d, Inl e)
      | Inr m \<Rightarrow>
          (case fn h ctx m d of
             (d', Some e) \<Rightarrow> (d', Inl e)
           | (d', None) \<Rightarrow> (d', Inr (if has_hook h then Fire (event h) m else Noop))))"

text \<open>\<open>index\<close> panics on a duplicate event type: \<open>None\<close>.\<close>

fun index_handlers ::
  "(string \<rightharpoonup> ('m, 'd) typed_handler) \<Rightarrow> ('m, 'd) typed_handler list \<Rightarrow> (string \<rightharpoonup> ('m, 'd) typed_handler) option" where
  "index_handlers m [] = Some m"
| "index_handlers m (h # hs) = (if m (event h) \<noteq> None then None else index_handlers (m(event h \<mapsto> h)) hs)"

definition index_consumer :: "('m, 'd) consumer \<Rightarrow> ('m, 'd) typed_handler list \<Rightarrow> ('m, 'd) consumer option" where
  "index_consumer c hs = map_option (\<lambda>m. c\<lparr>byType := m\<rparr>) (index_handlers Map.empty hs)"

record ('m, 'd) prepared =
  p_ctx :: go_ctx
  p_h :: "('m, 'd) typed_handler option"
  p_msgID :: string
  p_skip :: bool

definition auth_ExtractToContext :: "('m, 'd) consumer \<Rightarrow> go_ctx \<Rightarrow> (string \<rightharpoonup> string) \<Rightarrow> go_ctx" where
  "auth_ExtractToContext c ctx hs = (case auth_Extract c hs of None \<Rightarrow> ctx | Some p \<Rightarrow> ctx\<lparr>principal := Some p\<rparr>)"

definition message_id :: "kafka_record \<Rightarrow> string" where
  "message_id r =
     (let i = hdr (Headers r) HeaderMessageID
      in if i = '''' then Topic r @ '':'' @ itoa (Partition r) @ '':'' @ itoa (Offset r) else i)"

definition prepare :: "('m, 'd) consumer \<Rightarrow> go_ctx \<Rightarrow> kafka_record \<Rightarrow> ('m, 'd) prepared" where
  "prepare c ctx0 r =
     (let ctx = tenant_ExtractToContext (auth_ExtractToContext c ctx0 (Headers r)) (Headers r)
      in case byType c (hdr (Headers r) HeaderEventType) of
           None \<Rightarrow> \<lparr>p_ctx = ctx, p_h = None, p_msgID = '''', p_skip = True\<rparr>
         | Some h \<Rightarrow>
             (let msgID = message_id r;
                  corr = hdr (Headers r) HeaderCorrelationID;
                  corrID = (if corr = '''' then msgID else corr)
              in \<lparr>p_ctx = WithParentMessageID (WithCorrelationID ctx corrID) msgID, p_h = Some h,
                  p_msgID = msgID, p_skip = False\<rparr>))"

definition process_error :: "kafka_record \<Rightarrow> string \<Rightarrow> go_err \<Rightarrow> go_err" where
  "process_error r mid e =
     ErrWrap (''consume: process '' @ hdr (Headers r) HeaderEventType @ '' (id='' @ mid @ '')'') e"

definition fire :: "go_ctx \<Rightarrow> 'm hook option \<Rightarrow> ('m, 'd) cworld \<Rightarrow> ('m, 'd) cworld" where
  "fire ctx oc w =
     (case oc of
        Some (Fire ev m) \<Rightarrow> w\<lparr>fired := fired w @ [(ctx, ev, m)]\<rparr>
      | _ \<Rightarrow> w)"

text \<open>The side effect: the handler's result, with the hook stored in a captured variable.\<close>

definition side_effect ::
  "('m, 'd) consumer \<Rightarrow> ('m, 'd) typed_handler \<Rightarrow> string \<Rightarrow> ('c \<Rightarrow> 'm hook \<Rightarrow> 'c)
     \<Rightarrow> go_ctx \<Rightarrow> 'd \<Rightarrow> 'c \<Rightarrow> 'd \<times> 'c \<times> go_err option" where
  "side_effect c h v store ctx d mem =
     (case typed_handle c h ctx v d of
        (d', Inl e) \<Rightarrow> (d', mem, Some e)
      | (d', Inr oc) \<Rightarrow> (d', store mem oc, None))"

definition processRecord ::
  "('m, 'd) consumer \<Rightarrow> go_ctx \<Rightarrow> ('m, 'd) cworld \<Rightarrow> kafka_record \<Rightarrow> ('m, 'd) cworld \<times> go_err option" where
  "processRecord c ctx0 w r =
     (let p = prepare c ctx0 r
      in case p_h p of
           None \<Rightarrow> (w, None)
         | Some h \<Rightarrow>
             (let ctx = WithShardKey (p_ctx p) (Key r);
                  i = Resolve (shards w) (Key r)
              in if noInbox c then
                   (case typed_handle c h ctx (Value r) (app (shards w ! i)) of
                      (d', res) \<Rightarrow>
                        (let w1 = w\<lparr>shards := (shards w)[i := (shards w ! i)\<lparr>app := d'\<rparr>]\<rparr>
                         in case res of
                              Inl e \<Rightarrow> (w1, Some (process_error r (p_msgID p) e))
                            | Inr oc \<Rightarrow> (fire ctx (Some oc) w1, None)))
                 else
                   (case ProcessOnce (fate c (txs w)) (group c) (p_msgID p)
                           (side_effect c h (Value r) (\<lambda>_ oc. Some oc) ctx) (shards w ! i) None of
                      (s', oc, _, err) \<Rightarrow>
                        (let w1 = w\<lparr>shards := (shards w)[i := s'], txs := txs w + 1\<rparr>
                         in case err of
                              Some e \<Rightarrow> (w1, Some (process_error r (p_msgID p) e))
                            | None \<Rightarrow> (fire ctx oc w1, None)))))"

section \<open>batch.go\<close>

text \<open>The live records, and their indices grouped by shard in order of first appearance.\<close>

definition live_records ::
  "('m, 'd) consumer \<Rightarrow> go_ctx \<Rightarrow> kafka_record list \<Rightarrow> (kafka_record \<times> ('m, 'd) typed_handler \<times> string \<times> go_ctx) list" where
  "live_records c ctx records =
     concat (map (\<lambda>r. let p = prepare c ctx r in
        case p_h p of None \<Rightarrow> [] | Some h \<Rightarrow> [(r, h, p_msgID p, WithShardKey (p_ctx p) (Key r))]) records)"

fun add_group :: "nat \<Rightarrow> nat \<Rightarrow> (nat \<times> nat list) list \<Rightarrow> (nat \<times> nat list) list" where
  "add_group pool i [] = [(pool, [i])]"
| "add_group pool i ((q, idx) # gs) = (if q = pool then (q, idx @ [i]) # gs else (q, idx) # add_group pool i gs)"

definition shard_groups :: "nat list \<Rightarrow> (nat \<times> nat list) list" where
  "shard_groups pools = foldl (\<lambda>gs i. add_group (pools ! i) i gs) [] [0..<length pools]"

definition batch_item_of ::
  "('m, 'd) consumer \<Rightarrow> (kafka_record \<times> ('m, 'd) typed_handler \<times> string \<times> go_ctx) list \<Rightarrow> nat
     \<Rightarrow> ('d, nat \<rightharpoonup> 'm hook) batch_item" where
  "batch_item_of c live i =
     (case live ! i of
        (r, h, mid, _) \<Rightarrow>
          \<lparr>MessageID = mid, Fn = side_effect c h (Value r) (\<lambda>hooks oc. hooks(i \<mapsto> oc))\<rparr>)"

fun run_groups ::
  "('m, 'd) consumer \<Rightarrow> go_ctx \<Rightarrow> (kafka_record \<times> ('m, 'd) typed_handler \<times> string \<times> go_ctx) list
     \<Rightarrow> (nat \<times> nat list) list \<Rightarrow> ('m, 'd) cworld \<Rightarrow> (nat \<rightharpoonup> 'm hook) \<Rightarrow> ('m, 'd) cworld \<times> (nat \<rightharpoonup> 'm hook) \<times> bool" where
  "run_groups c ctx live [] w hooks = (w, hooks, True)"
| "run_groups c ctx live ((pool, idx) # gs) w hooks =
     (let gctx = WithShardKey ctx (Key (fst (live ! hd idx)))
      in case ProcessBatchOnce (fate c (txs w)) gctx (group c) (map (batch_item_of c live) idx) (shards w ! pool) hooks of
           (s', hooks', _, err) \<Rightarrow>
             (let w1 = w\<lparr>shards := (shards w)[pool := s'], txs := txs w + 1\<rparr>
              in if err \<noteq> None then (w1, hooks', False) else run_groups c ctx live gs w1 hooks'))"

fun fire_hooks ::
  "(nat \<rightharpoonup> 'm hook) \<Rightarrow> nat \<Rightarrow> (kafka_record \<times> ('m, 'd) typed_handler \<times> string \<times> go_ctx) list \<Rightarrow> ('m, 'd) cworld \<Rightarrow> ('m, 'd) cworld" where
  "fire_hooks hooks i [] w = w"
| "fire_hooks hooks i ((_, _, _, ctx) # live) w = fire_hooks hooks (i + 1) live (fire ctx (hooks i) w)"

fun replay ::
  "('w \<Rightarrow> kafka_record \<Rightarrow> 'w \<times> go_err option) \<Rightarrow> nat \<Rightarrow> kafka_record list \<Rightarrow> 'w \<Rightarrow> 'w \<times> int \<times> go_err option" where
  "replay fallback ri [] w = (w, int ri, None)"
| "replay fallback ri (r # records) w =
     (case fallback w r of
        (w1, Some e) \<Rightarrow> (w1, int ri, Some e)
      | (w1, None) \<Rightarrow> replay fallback (ri + 1) records w1)"

definition BatchHandler ::
  "('m, 'd) consumer \<Rightarrow> go_ctx \<Rightarrow> (('m, 'd) cworld \<Rightarrow> kafka_record \<Rightarrow> ('m, 'd) cworld \<times> go_err option) option
     \<Rightarrow> ('m, 'd) cworld \<Rightarrow> kafka_record list \<Rightarrow> ('m, 'd) cworld \<times> int \<times> go_err option" where
  "BatchHandler c ctx fb w records =
     (let fallback = (case fb of None \<Rightarrow> processRecord c ctx | Some f \<Rightarrow> f);
          live = live_records c ctx records
      in if live = [] then (w, int (length records), None)
         else
           (case run_groups c ctx live (shard_groups (map (\<lambda>(r, _). Resolve (shards w) (Key r)) live)) w Map.empty of
              (w1, hooks, allOK) \<Rightarrow>
                if allOK then (fire_hooks hooks 0 live w1, int (length records), None)
                else replay fallback 0 records (w1\<lparr>fallbacks := fallbacks w1 + 1\<rparr>)))"

section \<open>What a delivery may change\<close>

text \<open>The handler of a record, its inbox key, and the effect of handled records one after the other.\<close>

definition handler_of :: "('m, 'd) consumer \<Rightarrow> kafka_record \<Rightarrow> ('m, 'd) typed_handler option" where
  "handler_of c r = byType c (hdr (Headers r) HeaderEventType)"

definition rec_key :: "('m, 'd) consumer \<Rightarrow> kafka_record \<Rightarrow> inbox_key" where
  "rec_key c r = (group c, message_id r)"

fun apply_all :: "('m, 'd) consumer \<Rightarrow> (go_ctx \<times> kafka_record) list \<Rightarrow> 'd \<Rightarrow> 'd option" where
  "apply_all c [] d = Some d"
| "apply_all c ((ctx, r) # ms) d =
     (case handler_of c r of
        None \<Rightarrow> None
      | Some h \<Rightarrow> (case typed_handle c h ctx (Value r) d of (d', Inr _) \<Rightarrow> apply_all c ms d' | _ \<Rightarrow> None))"

text \<open>Between two states of shard \<open>j\<close>, some of the records \<open>rs\<close> that the shard owns, with pairwise
  different keys that were not in the inbox before, were applied successfully one after the other, and
  exactly their keys were added to the inbox, in that order.\<close>

definition shard_once ::
  "('m, 'd) consumer \<Rightarrow> nat \<Rightarrow> nat \<Rightarrow> kafka_record list \<Rightarrow> 'd shard \<Rightarrow> 'd shard \<Rightarrow> bool" where
  "shard_once c m j rs s s' \<longleftrightarrow>
     (\<exists>ms. (\<forall>x \<in> set ms. snd x \<in> set rs \<and> Physical (NewRouter (int m)) (Key (snd x)) = j)
         \<and> distinct (map (\<lambda>x. rec_key c (snd x)) ms)
         \<and> (\<forall>x \<in> set ms. rec_key c (snd x) \<notin> set (inbox_keys s))
         \<and> inbox_keys s' = inbox_keys s @ map (\<lambda>x. rec_key c (snd x)) ms
         \<and> apply_all c ms (app s) = Some (app s'))"

definition world_once ::
  "('m, 'd) consumer \<Rightarrow> kafka_record list \<Rightarrow> ('m, 'd) cworld \<Rightarrow> ('m, 'd) cworld \<Rightarrow> bool" where
  "world_once c rs w w' \<longleftrightarrow>
     length (shards w') = length (shards w)
     \<and> (\<forall>j < length (shards w). shard_once c (length (shards w)) j rs (shards w ! j) (shards w' ! j))"

definition recorded :: "('m, 'd) consumer \<Rightarrow> ('m, 'd) cworld \<Rightarrow> kafka_record \<Rightarrow> bool" where
  "recorded c w r \<longleftrightarrow>
     handler_of c r = None \<or> rec_key c r \<in> set (inbox_keys (shards w ! Resolve (shards w) (Key r)))"

lemma apply_all_append: "apply_all c (xs @ ys) d = Option.bind (apply_all c xs d) (apply_all c ys)"
  by (induction xs arbitrary: d) (auto split: option.splits prod.splits sum.splits)

lemma shard_once_refl [simp]: "shard_once c m j rs s s"
  unfolding shard_once_def by (rule exI [of _ "[]"]) simp

lemma shard_once_trans:
  assumes "shard_once c m j rs s s1" "shard_once c m j rs' s1 s2" "set rs \<union> set rs' \<subseteq> set rs2"
  shows "shard_once c m j rs2 s s2"
proof -
  let ?k = "\<lambda>x. rec_key c (snd x)"
  obtain xs where x: "\<forall>x \<in> set xs. snd x \<in> set rs \<and> Physical (NewRouter (int m)) (Key (snd x)) = j"
    "distinct (map ?k xs)" "\<forall>x \<in> set xs. ?k x \<notin> set (inbox_keys s)"
    "inbox_keys s1 = inbox_keys s @ map ?k xs" "apply_all c xs (app s) = Some (app s1)"
    using assms(1) unfolding shard_once_def by blast
  obtain ys where y: "\<forall>x \<in> set ys. snd x \<in> set rs' \<and> Physical (NewRouter (int m)) (Key (snd x)) = j"
    "distinct (map ?k ys)" "\<forall>x \<in> set ys. ?k x \<notin> set (inbox_keys s1)"
    "inbox_keys s2 = inbox_keys s1 @ map ?k ys" "apply_all c ys (app s1) = Some (app s2)"
    using assms(2) unfolding shard_once_def by blast
  have "\<forall>z \<in> set (xs @ ys). snd z \<in> set rs2 \<and> Physical (NewRouter (int m)) (Key (snd z)) = j"
    using x(1) y(1) assms(3) by auto
  moreover have "\<forall>k \<in> set (map ?k ys). k \<notin> set (map ?k xs)" using x(4) y(3) by simp
  then have "distinct (map ?k (xs @ ys))" using x(2) y(2) by (simp only: map_append distinct_append) blast
  moreover have "\<forall>z \<in> set (xs @ ys). ?k z \<notin> set (inbox_keys s)" using x(3,4) y(3) by auto
  moreover have "inbox_keys s2 = inbox_keys s @ map ?k (xs @ ys)" using x(4) y(4) by simp
  moreover have "apply_all c (xs @ ys) (app s) = Some (app s2)" using x(5) y(5) by (simp add: apply_all_append)
  ultimately show ?thesis unfolding shard_once_def by blast
qed

lemma shard_once_keys: "shard_once c m j rs s s' \<Longrightarrow> set (inbox_keys s) \<subseteq> set (inbox_keys s')"
  unfolding shard_once_def by auto

lemma world_once_same: "shards w' = shards w \<Longrightarrow> world_once c rs w w'"
  by (simp add: world_once_def)

lemma world_once_trans:
  assumes "world_once c rs w w1" "world_once c rs' w1 w2" "set rs \<union> set rs' \<subseteq> set rs2"
  shows "world_once c rs2 w w2"
  using assms shard_once_trans unfolding world_once_def by (metis (no_types, lifting))

lemma world_once_shard:
  assumes "shard_once c (length (shards w)) i rs (shards w ! i) s'" "i < length (shards w)"
    "shards w' = (shards w)[i := s']"
  shows "world_once c rs w w'"
  using assms by (simp add: world_once_def nth_list_update)

lemma recorded_mono:
  assumes "recorded c w r" "world_once c rs w w'" "shards w \<noteq> []"
  shows "recorded c w' r"
proof -
  have "Resolve (shards w') (Key r) = Resolve (shards w) (Key r)"
    using assms(2) by (intro Resolve_length) (simp add: world_once_def)
  moreover have "Resolve (shards w) (Key r) < length (shards w)" using assms(3) by (rule Resolve_less)
  ultimately show ?thesis
    using assms(1,2) unfolding recorded_def world_once_def by (metis shard_once_keys subsetD)
qed

lemma fire_shards [simp]: "shards (fire ctx oc w) = shards w"
  by (auto simp: fire_def split: option.splits hook.splits)

lemma fire_hooks_shards [simp]: "shards (fire_hooks hooks i live w) = shards w"
  by (induction hooks i live w rule: fire_hooks.induct) auto

lemma prepare_handler: "p_h (prepare c ctx r) = handler_of c r"
  by (simp add: prepare_def handler_of_def Let_def split: option.splits)

lemma prepare_msgID: "handler_of c r = Some h \<Longrightarrow> p_msgID (prepare c ctx r) = message_id r"
  by (simp add: prepare_def handler_of_def Let_def)

section \<open>The per-record path\<close>

lemma side_effect_ok:
  "side_effect c h v store ctx d mem = (d', mem', None) \<longleftrightarrow>
     (\<exists>oc. typed_handle c h ctx v d = (d', Inr oc) \<and> mem' = store mem oc)"
  by (auto simp: side_effect_def split: prod.splits sum.splits)

lemma processRecord_once:
  assumes "\<not> noInbox c" "shards w \<noteq> []" "processRecord c ctx w r = (w', e)"
  shows "world_once c [r] w w' \<and> (e = None \<longrightarrow> recorded c w' r)"
proof (cases "handler_of c r")
  case None
  then show ?thesis using assms(3)
    by (simp add: processRecord_def Let_def prepare_handler recorded_def world_once_same)
next
  case (Some h)
  let ?i = "Resolve (shards w) (Key r)" and ?p = "prepare c ctx r"
  let ?ctx = "WithShardKey (p_ctx ?p) (Key r)"
  obtain s' oc b err where po: "ProcessOnce (fate c (txs w)) (group c) (message_id r)
      (side_effect c h (Value r) (\<lambda>_ oc. Some oc) ?ctx) (shards w ! ?i) None = (s', oc, b, err)"
    by (metis prod_cases4)
  have i: "?i < length (shards w)" using assms(2) by (rule Resolve_less)
  have w': "shards w' = (shards w)[?i := s']" and e: "e = None \<longleftrightarrow> err = None"
    using assms(1,3) Some po
    by (auto simp: processRecord_def Let_def prepare_handler prepare_msgID split: option.splits)
  have len: "length (shards w') = length (shards w)" by (simp add: w')
  have at_i: "shards w' ! ?i = s'" using i by (simp add: w')
  have "shard_once c (length (shards w)) ?i [r] (shards w ! ?i) s'
      \<and> (err = None \<longrightarrow> rec_key c r \<in> set (inbox_keys s'))"
  proof -
    from ProcessOnce_cases [OF po] consider
      "err \<noteq> None" "s' = shards w ! ?i"
      | "err = None" "s' = shards w ! ?i" "rec_key c r \<in> set (inbox_keys (shards w ! ?i))"
      | (ran) "err = None" "rec_key c r \<notin> set (inbox_keys (shards w ! ?i))"
        "inbox s' = inbox (shards w ! ?i) @ [(rec_key c r, tx_now (fate c (txs w)))]"
        "\<exists>oc'. typed_handle c h ?ctx (Value r) (app (shards w ! ?i)) = (app s', Inr oc')"
      by (auto simp: rec_key_def side_effect_ok)
    then show ?thesis
    proof cases
      case ran
      then have "shard_once c (length (shards w)) ?i [r] (shards w ! ?i) s'"
        unfolding shard_once_def
        by (intro exI [of _ "[(?ctx, r)]"]) (auto simp: inbox_keys_def Some Resolve_def)
      then show ?thesis using ran(3) by (simp add: inbox_keys_def)
    qed auto
  qed
  then show ?thesis
    using world_once_shard [OF _ i w'] e at_i Resolve_length [OF len] by (auto simp: recorded_def)
qed

text \<open>The loop over a list of records, as the poll loop and the batch fallback run it.\<close>

definition deliver_each ::
  "('m, 'd) consumer \<Rightarrow> go_ctx \<Rightarrow> ('m, 'd) cworld \<Rightarrow> kafka_record list \<Rightarrow> ('m, 'd) cworld \<times> int \<times> go_err option" where
  "deliver_each c ctx w rs = replay (processRecord c ctx) 0 rs w"

lemma replay_count:
  assumes "replay f ri rs w = (w', n, e)"
  shows "int ri \<le> n \<and> n \<le> int (ri + length rs) \<and> (e = None \<longrightarrow> n = int (ri + length rs))"
  using assms
proof (induction rs arbitrary: ri w)
  case Nil
  then show ?case by auto
next
  case (Cons r rs)
  obtain w1 e1 where f: "f w r = (w1, e1)" by (cases "f w r")
  show ?case
  proof (cases e1)
    case None
    then have "replay f (ri + 1) rs w1 = (w', n, e)" using Cons.prems f by simp
    from Cons.IH [OF this] show ?thesis by auto
  next
    case (Some x)
    then show ?thesis using Cons.prems f by auto
  qed
qed

lemma replay_once:
  assumes "\<not> noInbox c" "shards w \<noteq> []" "replay (processRecord c ctx) ri rs w = (w', n, e)"
  shows "world_once c rs w w' \<and> (\<forall>r \<in> set (take (nat n - ri) rs). recorded c w' r)"
  using assms(2,3)
proof (induction rs arbitrary: ri w)
  case Nil
  then show ?case by (simp add: world_once_same)
next
  case (Cons r rs)
  obtain w1 e1 where f: "processRecord c ctx w r = (w1, e1)" by (cases "processRecord c ctx w r")
  have s1: "world_once c [r] w w1" "e1 = None \<longrightarrow> recorded c w1 r"
    using processRecord_once [OF assms(1) Cons.prems(1) f] by auto
  have ne: "shards w1 \<noteq> []" using s1(1) Cons.prems(1) by (auto simp: world_once_def)
  show ?case
  proof (cases e1)
    case None
    then have rest: "replay (processRecord c ctx) (ri + 1) rs w1 = (w', n, e)" using Cons.prems(2) f by simp
    note ih = Cons.IH [OF ne rest]
    have "world_once c (r # rs) w w'" using world_once_trans [OF s1(1), of rs w' "r # rs"] ih by auto
    moreover have "recorded c w' r" using recorded_mono [OF _ _ ne] s1(2) None ih by blast
    moreover have "nat n - ri = Suc (nat n - (ri + 1))" using replay_count [OF rest] by auto
    ultimately show ?thesis using ih by auto
  next
    case (Some x)
    then have "w' = w1" "n = int ri" using Cons.prems(2) f by auto
    then show ?thesis using world_once_trans [OF s1(1) world_once_same [OF refl, of c "[]"], of "r # rs"] by auto
  qed
qed

section \<open>The batch path\<close>

lemma live_record:
  assumes "(r, h, mid, x) \<in> set (live_records c ctx rs)"
  shows "r \<in> set rs \<and> handler_of c r = Some h \<and> mid = message_id r"
  using assms by (auto simp: live_records_def Let_def prepare_handler prepare_msgID [OF sym] split: option.splits)

lemma live_records_complete:
  assumes "r \<in> set rs" "handler_of c r \<noteq> None"
  shows "\<exists>i < length (live_records c ctx rs). fst (live_records c ctx rs ! i) = r"
proof -
  have "r \<in> fst ` set (live_records c ctx rs)"
    using assms by (force simp: live_records_def Let_def prepare_handler)
  then obtain y where "y \<in> set (live_records c ctx rs)" "fst y = r" by blast
  then show ?thesis by (metis in_set_conv_nth)
qed

lemma fresh_items_map:
  "\<exists>idx'. fresh_items g (map f idx) K = map f idx' \<and> set idx' \<subseteq> set idx"
proof (induction idx arbitrary: K)
  case Nil
  show ?case by simp
next
  case (Cons i idx)
  show ?case
  proof (cases "(g, MessageID (f i)) \<in> K")
    case True
    then show ?thesis using Cons.IH [of K] by auto
  next
    case False
    obtain idx' where "fresh_items g (map f idx) (insert (g, MessageID (f i)) K) = map f idx'" "set idx' \<subseteq> set idx"
      using Cons.IH by blast
    then show ?thesis using False by (intro exI [of _ "i # idx'"]) auto
  qed
qed

lemma batch_item_Fn:
  "live ! i = (r, h, mid, x) \<Longrightarrow> Fn (batch_item_of c live i) = side_effect c h (Value r) (\<lambda>hooks oc. hooks(i \<mapsto> oc))"
  by (simp add: batch_item_of_def)

lemma run_items_apply:
  assumes "run_items gctx (map (batch_item_of c live) idx) d hooks = Some (d', hooks')"
    and "\<And>i. i \<in> set idx \<Longrightarrow> handler_of c (fst (live ! i)) = Some (fst (snd (live ! i)))"
  shows "apply_all c (map (\<lambda>i. (gctx, fst (live ! i))) idx) d = Some d'"
  using assms
proof (induction idx arbitrary: d hooks)
  case Nil
  then show ?case by simp
next
  case (Cons i idx)
  obtain r h mid x where l: "live ! i = (r, h, mid, x)" by (cases "live ! i") auto
  obtain d1 res where t: "typed_handle c h gctx (Value r) d = (d1, res)" by (cases "typed_handle c h gctx (Value r) d")
  show ?case
  proof (cases res)
    case (Inl e)
    then show ?thesis using Cons.prems(1) l t by (simp add: batch_item_Fn side_effect_def)
  next
    case (Inr oc)
    then have "run_items gctx (map (batch_item_of c live) idx) d1 (hooks(i \<mapsto> oc)) = Some (d', hooks')"
      using Cons.prems(1) l t by (simp add: batch_item_Fn side_effect_def)
    from Cons.IH [OF this] show ?thesis using Cons.prems(2) [of i] Cons.prems(2) l t Inr by simp
  qed
qed

lemma batch_tx_once:
  assumes tx: "ProcessBatchOnce T gctx (group c) (map (batch_item_of c live) idx) s hooks = (s', hooks', n, None)"
    and live: "live = live_records c ctx rs" and idx: "\<And>i. i \<in> set idx \<Longrightarrow> i < length live"
    and own: "\<And>i. i \<in> set idx \<Longrightarrow> Physical (NewRouter (int m)) (Key (fst (live ! i))) = j"
  shows "shard_once c m j rs s s' \<and> (\<forall>i \<in> set idx. rec_key c (fst (live ! i)) \<in> set (inbox_keys s'))"
proof -
  let ?f = "batch_item_of c live" and ?k = "\<lambda>x. rec_key c (snd x)"
  define fr where "fr = fresh_items (group c) (map ?f idx) (set (inbox_keys s))"
  obtain idx' where fr': "fr = map ?f idx'" "set idx' \<subseteq> set idx"
    using fresh_items_map [of "group c" ?f idx "set (inbox_keys s)"] fr_def by auto
  have facts: "inbox s' = inbox s @ map (\<lambda>it. ((group c, MessageID it), tx_now T)) fr"
    "run_items gctx fr (app s) hooks = Some (app s', hooks')"
    using ProcessBatchOnce_ok [OF tx] by (auto simp: fr_def Let_def)
  have rec: "i \<in> set idx \<Longrightarrow> fst (live ! i) \<in> set rs \<and> handler_of c (fst (live ! i)) = Some (fst (snd (live ! i)))
      \<and> MessageID (?f i) = message_id (fst (live ! i))" for i
    using live_record [of "fst (live ! i)" "fst (snd (live ! i))" "fst (snd (snd (live ! i)))" "snd (snd (snd (live ! i)))" c ctx rs]
      idx [of i] live by (auto simp: batch_item_of_def split: prod.splits)
  have dist: "distinct (map MessageID fr)" "\<forall>it \<in> set fr. (group c, MessageID it) \<notin> set (inbox_keys s)"
    "\<forall>it \<in> set (map ?f idx). (group c, MessageID it) \<in> set (inbox_keys s) \<or> MessageID it \<in> MessageID ` set fr"
    using fresh_items_distinct [of "group c" "map ?f idx" "set (inbox_keys s)"] by (auto simp: fr_def)
  let ?ms = "map (\<lambda>i. (gctx, fst (live ! i))) idx'"
  have ids: "map MessageID fr = map (\<lambda>i. message_id (fst (live ! i))) idx'"
    using fr' rec by (auto simp: subset_iff)
  have keys: "inbox_keys s' = inbox_keys s @ map ?k ?ms"
    using facts(1) ids by (simp add: inbox_keys_def rec_key_def comp_def fr'(1) map_eq_conv)
  have "distinct (map ?k ?ms)"
    using dist(1) ids by (simp add: rec_key_def comp_def distinct_map inj_on_def)
  moreover have "\<forall>x \<in> set ?ms. ?k x \<notin> set (inbox_keys s)"
    using dist(2) fr' rec by (auto simp: rec_key_def subset_iff)
  moreover have "apply_all c ?ms (app s) = Some (app s')"
    using facts(2) fr' rec by (intro run_items_apply [of gctx c live idx' "app s" hooks]) (auto simp: subset_iff)
  moreover have "\<forall>x \<in> set ?ms. snd x \<in> set rs \<and> Physical (NewRouter (int m)) (Key (snd x)) = j"
    using fr'(2) rec own by (auto simp: subset_iff)
  ultimately have once: "shard_once c m j rs s s'"
    unfolding shard_once_def using keys by blast
  have "rec_key c (fst (live ! i)) \<in> set (inbox_keys s')" if "i \<in> set idx" for i
  proof -
    have "(group c, MessageID (?f i)) \<in> set (inbox_keys s) \<or> MessageID (?f i) \<in> MessageID ` set fr"
      using dist(3) that by simp
    then show ?thesis using rec [OF that] facts(1) by (auto simp: inbox_keys_def rec_key_def image_iff)
  qed
  with once show ?thesis by blast
qed

definition groups_ok :: "nat list \<Rightarrow> nat \<Rightarrow> (nat \<times> nat list) list \<Rightarrow> bool" where
  "groups_ok pools n gs \<longleftrightarrow>
     (\<forall>g \<in> set gs. snd g \<noteq> [] \<and> (\<forall>i \<in> set (snd g). i < n \<and> pools ! i = fst g))
     \<and> (\<forall>i < n. \<exists>g \<in> set gs. i \<in> set (snd g))"

lemma add_group_members:
  "g \<in> set (add_group q i gs) \<Longrightarrow>
     g \<in> set gs \<or> g = (q, [i]) \<or> (\<exists>idx. (q, idx) \<in> set gs \<and> g = (q, idx @ [i]))"
  by (induction q i gs rule: add_group.induct) (auto split: if_splits)

lemma add_group_new: "\<exists>g \<in> set (add_group q i gs). i \<in> set (snd g)"
  by (induction q i gs rule: add_group.induct) auto

lemma add_group_keep: "(p, idx) \<in> set gs \<Longrightarrow> \<exists>g \<in> set (add_group q i gs). set idx \<subseteq> set (snd g)"
  by (induction q i gs rule: add_group.induct) (fastforce split: if_splits)+

lemma add_group_ok:
  assumes "groups_ok pools n gs"
  shows "groups_ok pools (Suc n) (add_group (pools ! n) n gs)"
proof -
  have old: "\<And>q idx. (q, idx) \<in> set gs \<Longrightarrow> idx \<noteq> [] \<and> (\<forall>i \<in> set idx. i < n \<and> pools ! i = q)"
    using assms by (auto simp: groups_ok_def)
  have "snd g \<noteq> [] \<and> (\<forall>i \<in> set (snd g). i < Suc n \<and> pools ! i = fst g)"
    if "g \<in> set (add_group (pools ! n) n gs)" for g
    using add_group_members [OF that] old less_SucI by (cases g) fastforce
  moreover have "\<exists>g \<in> set (add_group (pools ! n) n gs). i \<in> set (snd g)" if i: "i < Suc n" for i
  proof (cases "i = n")
    case True
    then show ?thesis using add_group_new by simp
  next
    case False
    then obtain g where g: "g \<in> set gs" "i \<in> set (snd g)"
      using i assms by (auto simp: groups_ok_def less_Suc_eq)
    then show ?thesis using add_group_keep [of "fst g" "snd g" gs "pools ! n" n] by auto
  qed
  ultimately show ?thesis unfolding groups_ok_def by blast
qed

lemma shard_groups_ok: "groups_ok pools (length pools) (shard_groups pools)"
proof -
  have "groups_ok pools n (foldl (\<lambda>gs i. add_group (pools ! i) i gs) [] [0..<n])" for n
    by (induction n) (simp_all add: groups_ok_def [of pools 0] add_group_ok)
  then show ?thesis by (simp add: shard_groups_def)
qed

lemma run_groups_once:
  assumes "run_groups c ctx live gs w hooks = (w', hooks', ok)" "live = live_records c ctx rs" "shards w \<noteq> []"
    and "\<And>g. g \<in> set gs \<Longrightarrow> snd g \<noteq> [] \<and> (\<forall>i \<in> set (snd g). i < length live
           \<and> Physical (NewRouter (int (length (shards w)))) (Key (fst (live ! i))) = fst g)"
  shows "world_once c rs w w' \<and> (ok \<longrightarrow> (\<forall>g \<in> set gs. \<forall>i \<in> set (snd g). recorded c w' (fst (live ! i))))"
  using assms
proof (induction gs arbitrary: w hooks)
  case Nil
  then show ?case by (simp add: world_once_same)
next
  case (Cons g gs)
  obtain pool idx where g: "g = (pool, idx)" by (cases g)
  let ?m = "length (shards w)"
  let ?gctx = "WithShardKey ctx (Key (fst (live ! hd idx)))"
  obtain s' hooks1 k err where tx: "ProcessBatchOnce (fate c (txs w)) ?gctx (group c)
      (map (batch_item_of c live) idx) (shards w ! pool) hooks = (s', hooks1, k, err)"
    by (metis prod_cases4)
  define w1 where "w1 = w\<lparr>shards := (shards w)[pool := s'], txs := txs w + 1\<rparr>"
  have idx: "idx \<noteq> []" "\<And>i. i \<in> set idx \<Longrightarrow> i < length live"
    "\<And>i. i \<in> set idx \<Longrightarrow> Physical (NewRouter (int ?m)) (Key (fst (live ! i))) = pool"
    using Cons.prems(4) [of g] g by auto
  have pool: "pool < ?m"
    using idx(1) idx(3) [of "hd idx"] Resolve_less [OF Cons.prems(3)] by (auto simp: Resolve_def)
  show ?case
  proof (cases err)
    case (Some e)
    have "s' = shards w ! pool" using ProcessBatchOnce_error [OF tx [unfolded Some]] by blast
    then have "shards w1 = shards w" by (simp add: w1_def)
    moreover have "w' = w1 \<and> \<not> ok" using Cons.prems(1) g tx Some by (simp add: w1_def Let_def)
    ultimately show ?thesis by (simp add: world_once_same)
  next
    case None
    have once: "shard_once c ?m pool rs (shards w ! pool) s'"
      "\<forall>i \<in> set idx. rec_key c (fst (live ! i)) \<in> set (inbox_keys s')"
      using batch_tx_once [OF tx [unfolded None] Cons.prems(2) idx(2,3)] by auto
    have w1: "world_once c rs w w1"
      using world_once_shard [OF once(1) pool, of w1] by (simp add: w1_def)
    have len: "length (shards w1) = ?m" by (simp add: w1_def)
    have ne: "shards w1 \<noteq> []" using Cons.prems(3) by (simp add: w1_def)
    have here: "\<forall>i \<in> set idx. recorded c w1 (fst (live ! i))"
      using once(2) idx(3) pool by (simp add: recorded_def Resolve_def len) (simp add: w1_def)
    have rest: "run_groups c ctx live gs w1 hooks1 = (w', hooks', ok)"
      using Cons.prems(1) g tx None by (simp add: w1_def Let_def)
    have ih: "world_once c rs w1 w' \<and> (ok \<longrightarrow> (\<forall>g \<in> set gs. \<forall>i \<in> set (snd g). recorded c w' (fst (live ! i))))"
      by (rule Cons.IH [OF rest Cons.prems(2) ne]) (use Cons.prems(4) len in auto)
    then show ?thesis
      using world_once_trans [OF w1, of rs w' rs] recorded_mono [OF _ _ ne] here g by auto
  qed
qed

lemma BatchHandler_once:
  assumes "\<not> noInbox c" "shards w \<noteq> []" "BatchHandler c ctx None w rs = (w', n, e)"
  shows "world_once c rs w w' \<and> (\<forall>r \<in> set (take (nat n) rs). recorded c w' r)"
proof -
  define live where "live = live_records c ctx rs"
  define pools where "pools = map (\<lambda>(r, _). Resolve (shards w) (Key r)) live"
  have in_live: "recorded c v r" if rin: "r \<in> set rs" and all: "\<And>i. i < length live \<Longrightarrow> recorded c v (fst (live ! i))" for r v
  proof (cases "handler_of c r = None")
    case False
    then obtain i where "i < length live" "fst (live ! i) = r"
      using live_records_complete [OF rin] live_def by blast
    then show ?thesis using all [of i] by simp
  qed (simp add: recorded_def)
  show ?thesis
  proof (cases "live = []")
    case True
    then have "w' = w" using assms(3) by (simp add: BatchHandler_def live_def [symmetric] Let_def)
    then show ?thesis using in_live True by (auto simp: world_once_same dest: in_set_takeD)
  next
    case False
    obtain w1 hooks ok where rg: "run_groups c ctx live (shard_groups pools) w Map.empty = (w1, hooks, ok)"
      by (metis prod_cases3)
    have gok: "groups_ok pools (length live) (shard_groups pools)"
      using shard_groups_ok [of pools] by (simp add: pools_def)
    have grp: "snd g \<noteq> [] \<and> (\<forall>i \<in> set (snd g). i < length live
        \<and> Physical (NewRouter (int (length (shards w)))) (Key (fst (live ! i))) = fst g)"
      if "g \<in> set (shard_groups pools)" for g
    proof -
      have nth: "pools ! i = Physical (NewRouter (int (length (shards w)))) (Key (fst (live ! i)))"
        if "i < length live" for i
        using that by (simp add: pools_def Resolve_def split: prod.split)
      show ?thesis using gok that nth unfolding groups_ok_def by metis
    qed
    have r1: "world_once c rs w w1"
      "ok \<Longrightarrow> \<forall>g \<in> set (shard_groups pools). \<forall>i \<in> set (snd g). recorded c w1 (fst (live ! i))"
      using run_groups_once [OF rg live_def assms(2) grp] by auto
    show ?thesis
    proof (cases ok)
      case True
      then have w': "w' = fire_hooks hooks 0 live w1"
        using assms(3) False rg by (simp add: BatchHandler_def live_def [symmetric] pools_def [symmetric] Let_def)
      have "recorded c w' (fst (live ! i))" if il: "i < length live" for i
      proof -
        obtain g where "g \<in> set (shard_groups pools)" "i \<in> set (snd g)"
          using gok il unfolding groups_ok_def by blast
        then have "recorded c w1 (fst (live ! i))" using r1(2) [OF True] by blast
        then show ?thesis by (simp add: recorded_def w')
      qed
      then show ?thesis
        using in_live world_once_trans [OF r1(1) world_once_same [of w' w1 c "[]"], of rs]
        by (auto simp: w' dest: in_set_takeD)
    next
      case no: False
      let ?w2 = "w1\<lparr>fallbacks := fallbacks w1 + 1\<rparr>"
      have rp: "replay (processRecord c ctx) 0 rs ?w2 = (w', n, e)"
        using assms(3) False rg no by (simp add: BatchHandler_def live_def [symmetric] pools_def [symmetric] Let_def)
      have ne: "shards ?w2 \<noteq> []" using r1(1) assms(2) by (auto simp: world_once_def)
      have w2: "world_once c rs w ?w2"
        using world_once_trans [OF r1(1) world_once_same [of ?w2 w1 c "[]"], of rs] by simp
      from replay_once [OF assms(1) ne rp] show ?thesis
        using world_once_trans [OF w2, of rs w' rs] by auto
    qed
  qed
qed

lemma BatchHandler_count:
  assumes "BatchHandler c ctx fb w rs = (w', n, e)"
  shows "0 \<le> n \<and> n \<le> int (length rs) \<and> (e = None \<longrightarrow> n = int (length rs))"
proof -
  have "n = int (length rs) \<and> e = None
     \<or> (\<exists>f w2. replay f 0 rs w2 = (w', n, e))"
    using assms by (auto simp: BatchHandler_def Let_def split: if_splits prod.splits option.splits)
  then show ?thesis using replay_count [where ri = 0] by fastforce
qed

section \<open>The contract of a deliverer\<close>

text \<open>A deliverer takes the records of a partition to the handlers and says how many it dealt with. Its
  contract: it applies records at most once each, and whatever it reports as dealt with is in the inbox.\<close>

type_synonym ('m, 'd) deliverer =
  "('m, 'd) consumer \<Rightarrow> go_ctx \<Rightarrow> ('m, 'd) cworld \<Rightarrow> kafka_record list \<Rightarrow> ('m, 'd) cworld \<times> int \<times> go_err option"

fun deliver_all ::
  "('m, 'd) deliverer \<Rightarrow> ('m, 'd) consumer \<Rightarrow> go_ctx \<Rightarrow> ('m, 'd) cworld \<Rightarrow> kafka_record list list
     \<Rightarrow> ('m, 'd) cworld \<times> kafka_record list" where
  "deliver_all deliver c ctx w [] = (w, [])"
| "deliver_all deliver c ctx w (rs # batches) =
     (case deliver c ctx w rs of
        (w1, n, e) \<Rightarrow>
          (case deliver_all deliver c ctx w1 batches of
             (w2, acked) \<Rightarrow> (w2, take (nat n) rs @ acked)))"

locale once_deliverer =
  fixes deliver :: "('m, 'd) deliverer"
  assumes once: "\<not> noInbox c \<Longrightarrow> shards w \<noteq> [] \<Longrightarrow> deliver c ctx w rs = (w', n, e) \<Longrightarrow>
      world_once c rs w w' \<and> (\<forall>r \<in> set (take (nat n) rs). recorded c w' r)"
begin

lemma deliver_all_once:
  assumes "\<not> noInbox c" "shards w \<noteq> []" "deliver_all deliver c ctx w batches = (w', acked)"
  shows "world_once c (concat batches) w w' \<and> (\<forall>r \<in> set acked. recorded c w' r)"
  using assms(2,3)
proof (induction batches arbitrary: w w' acked)
  case Nil
  then show ?case by (auto simp: world_once_same)
next
  case (Cons rs batches)
  obtain w1 n e where d: "deliver c ctx w rs = (w1, n, e)" by (metis prod_cases3)
  obtain w2 ack2 where r: "deliver_all deliver c ctx w1 batches = (w2, ack2)" by (metis prod.exhaust)
  have eqs: "w' = w2" "acked = take (nat n) rs @ ack2" using Cons.prems(2) d r by auto
  note o1 = once [OF assms(1) Cons.prems(1) d]
  have ne: "shards w1 \<noteq> []" using o1 Cons.prems(1) by (auto simp: world_once_def)
  note ih = Cons.IH [OF ne r]
  have "world_once c (concat (rs # batches)) w w'"
    using world_once_trans [of c rs w w1 "concat batches" w2] o1 ih eqs by auto
  moreover have "recorded c w' x" if "x \<in> set (take (nat n) rs)" for x
    using recorded_mono [OF _ _ ne] o1 ih eqs that by blast
  ultimately show ?case using ih eqs by auto
qed

end

interpretation per_record: once_deliverer deliver_each
proof
  fix c :: "('m, 'd) consumer" and w ctx rs w' n e
  assume "\<not> noInbox c" "shards w \<noteq> []" "deliver_each c ctx w rs = (w', n, e)"
  then show "world_once c rs w w' \<and> (\<forall>r \<in> set (take (nat n) rs). recorded c w' r)"
    using replay_once [of c w ctx 0 rs w' n e] by (simp add: deliver_each_def)
qed

interpretation batch: once_deliverer "\<lambda>c ctx. BatchHandler c ctx None"
  by unfold_locales (rule BatchHandler_once)

interpretation batch_count: honest_batch "BatchHandler c ctx fb"
  for c :: "('m, 'd) consumer" and ctx fb
proof
  fix w :: "('m, 'd) cworld" and rs w' n
  assume "BatchHandler c ctx fb w rs = (w', n, None)"
  from BatchHandler_count [OF this] show "int (length rs) \<le> n" by simp
qed

section \<open>Concrete consumers\<close>

text \<open>A handler that records what it reads from its context, and records to feed it.\<close>

definition probe_handler :: "(string, (string option \<times> string \<times> string) list) typed_handler" where
  "probe_handler = \<lparr>event = ''e'', instantiates = True, unmarshal = Inr, sr_decode = Inr,
     fn = (\<lambda>ctx m d. (d @ [(tenant_FromContext ctx, CorrelationID ctx, m)], None)), has_hook = True\<rparr>"

definition probe_consumer :: "(nat \<Rightarrow> tx_env) \<Rightarrow> (string, (string option \<times> string \<times> string) list) consumer" where
  "probe_consumer f = \<lparr>group = ''g'', has_dec = False, noInbox = False, byType = [''e'' \<mapsto> probe_handler],
     codes = Map.empty, auth_Extract = (\<lambda>_. None), fate = f\<rparr>"

definition probe_record :: "string \<Rightarrow> string \<Rightarrow> kafka_record" where
  "probe_record k v = \<lparr>Topic = ''t'', Key = k, Value = v,
     Headers = [HeaderEventType \<mapsto> ''e'', HeaderMessageID \<mapsto> ''m-'' @ v, HeaderTenantID \<mapsto> ''acme'',
                HeaderCorrelationID \<mapsto> ''c-1''], Partition = 0, Offset = 0\<rparr>"

definition probe_world :: "nat \<Rightarrow> (string, (string option \<times> string \<times> string) list) cworld" where
  "probe_world m = \<lparr>shards = replicate m \<lparr>inbox = [], app = []\<rparr>, fired = [], txs = 0, fallbacks = 0\<rparr>"

text \<open>The second transaction fails at its commit.\<close>

definition second_fails :: "nat \<Rightarrow> tx_env" where
  "second_fails n = (if n = 1 then calm\<lparr>commit_err := Some (ErrText ''commit'')\<rparr> else calm)"

section \<open>Properties\<close>

text \<open>C4. Effectively-once processing on the per-record path: over any deliveries (redeliveries,
  duplicates and transaction faults included) each shard's state is the result of applying, one after the
  other, records of pairwise different inbox keys that were not processed before, the inbox grows by exactly
  these keys, and every record reported as processed that has a handler is in the inbox of its shard.\<close>

theorem consume_effectively_once:
  assumes "\<not> noInbox c" "shards w \<noteq> []" "deliver_all deliver_each c ctx w batches = (w', acked)"
  shows "world_once c (concat batches) w w' \<and> (\<forall>r \<in> set acked. recorded c w' r)"
  using assms by (rule per_record.deliver_all_once)

theorem consume_effectively_once_witness:
  "let c = probe_consumer (\<lambda>_. calm); w = probe_world 1; rs = [probe_record ''a'' ''x''];
       r = deliver_all deliver_each c background w [rs, rs]
   in world_once c (rs @ rs) w (fst r) \<and> (\<forall>x \<in> set (snd r). recorded c (fst r) x)
      \<and> length (snd r) = 2 \<and> map (\<lambda>s. length (app s)) (shards (fst r)) = [1]"
proof -
  let ?rs = "[probe_record ''a'' ''x'']" and ?c = "probe_consumer (\<lambda>_. calm)"
  let ?r = "deliver_all deliver_each ?c background (probe_world 1) [?rs, ?rs]"
  have "length (snd ?r) = 2 \<and> map (\<lambda>s. length (app s)) (shards (fst ?r)) = [1]" by code_simp
  moreover have "\<not> noInbox ?c" "shards (probe_world 1) \<noteq> []"
    by (simp_all add: probe_consumer_def probe_world_def)
  ultimately show ?thesis
    using consume_effectively_once [of ?c "probe_world 1" background "[?rs, ?rs]" "fst ?r" "snd ?r"]
    by (simp add: Let_def del: deliver_all.simps)
qed

text \<open>C23. The same for the batch path with its per-record fallback, across shards: a failed shard
  transaction, followed by the replay of all records, never applies a record twice and never reports one
  that is not in the inbox; and without an error the whole batch is reported.\<close>

theorem batch_effectively_once:
  assumes "\<not> noInbox c" "shards w \<noteq> []"
    "deliver_all (\<lambda>c ctx. BatchHandler c ctx None) c ctx w batches = (w', acked)"
    "BatchHandler c ctx None w rs = (w1, n, None)"
  shows "world_once c (concat batches) w w' \<and> (\<forall>r \<in> set acked. recorded c w' r) \<and> n = int (length rs)"
  using batch.deliver_all_once [OF assms(1-3)] BatchHandler_count [OF assms(4)] by simp

theorem batch_effectively_once_witness:
  "let c = probe_consumer (\<lambda>_. calm); w = probe_world 1; rs = [probe_record ''a'' ''x''];
       r = deliver_all (\<lambda>c ctx. BatchHandler c ctx None) c background w [rs, rs]
   in world_once c (rs @ rs) w (fst r) \<and> (\<forall>x \<in> set (snd r). recorded c (fst r) x)
      \<and> length (snd r) = 2 \<and> map (\<lambda>s. length (app s)) (shards (fst r)) = [1]"
proof -
  let ?rs = "[probe_record ''a'' ''x'']" and ?c = "probe_consumer (\<lambda>_. calm)"
  let ?r = "deliver_all (\<lambda>c ctx. BatchHandler c ctx None) ?c background (probe_world 1) [?rs, ?rs]"
  let ?b = "BatchHandler ?c background None (probe_world 1) []"
  have "length (snd ?r) = 2 \<and> map (\<lambda>s. length (app s)) (shards (fst ?r)) = [1]" by code_simp
  moreover have "\<not> noInbox ?c" "shards (probe_world 1) \<noteq> []"
    by (simp_all add: probe_consumer_def probe_world_def)
  moreover have "?b = (fst ?b, fst (snd ?b), None)" by (simp add: BatchHandler_def live_records_def)
  ultimately show ?thesis
    using batch_effectively_once [of ?c "probe_world 1" background "[?rs, ?rs]" "fst ?r" "snd ?r" "[]" "fst ?b" "fst (snd ?b)"]
    by (simp add: Let_def del: deliver_all.simps)
qed

text \<open>The batch path drops the context of a record: the handler of a record that carries a tenant and a
  correlation id runs under both on the per-record path, and under neither in a batch transaction.\<close>

theorem batch_drops_context:
  "let c = probe_consumer (\<lambda>_. calm); r = probe_record ''a'' ''x'';
       one = fst (processRecord c background (probe_world 1) r);
       many = fst (BatchHandler c background None (probe_world 1) [r])
   in map app (shards one) = [[(Some ''acme'', ''c-1'', ''x'')]]
      \<and> map app (shards many) = [[(None, '''', ''x'')]]"
  by code_simp

text \<open>When one shard's transaction commits and a later one fails, the replay finds the first shard's
  records in the inbox: both records take effect and are acknowledged, but the post-commit hook of the first
  never fires.\<close>

theorem batch_fallback_loses_hooks:
  "let (w, n, e) = BatchHandler (probe_consumer second_fails) background None (probe_world 2)
                     [probe_record ''a'' ''x'', probe_record ''b'' ''y'']
   in n = 2 \<and> (case e of None \<Rightarrow> True | Some _ \<Rightarrow> False)
      \<and> map (\<lambda>s. map (\<lambda>(_, _, m). m) (app s)) (shards w) = [[''x''], [''y'']]
      \<and> map (\<lambda>(_, _, m). m) (fired w) = [''y'']"
  by code_simp

end
