(* ===== verification/Outbox_Kafka.thy ===== *)
theory Outbox_Kafka
  imports Outbox_Partition Consume
begin

text \<open>
  The way of a message from the outbox table to Kafka: the producer (\<open>platform/messaging/kafka/producer.go\<close>),
  the publisher (\<open>platform/messaging/outboxkafka/publisher.go\<close>), and the whole outbox as a system of
  interleaved steps: transactions that enqueue, relays in their three phases with crashes between them,
  cleanup and partition maintenance. What the broker does with the \<open>n\<close>-th record sent to it is an argument:
  it stores it, refuses it, or stores it although the client sees an error.
\<close>

section \<open>producer.go\<close>

datatype ack = Stored | StoredLost go_err | Refused go_err

record broker =
  blog :: "kafka_record list"
  bsent :: nat

fun send_record :: "ack \<Rightarrow> kafka_record \<Rightarrow> broker \<Rightarrow> broker \<times> go_err option" where
  "send_record Stored rec b = (b\<lparr>blog := blog b @ [rec], bsent := bsent b + 1\<rparr>, None)"
| "send_record (StoredLost e) rec b = (b\<lparr>blog := blog b @ [rec], bsent := bsent b + 1\<rparr>, Some e)"
| "send_record (Refused e) rec b = (b\<lparr>bsent := bsent b + 1\<rparr>, Some e)"

definition Produce :: "(nat \<Rightarrow> ack) \<Rightarrow> broker \<Rightarrow> kafka_record \<Rightarrow> broker \<times> go_err option" where
  "Produce acks b rec =
     (case send_record (acks (bsent b)) rec b of (b', e) \<Rightarrow> (b', map_option (ErrWrap ''kafka: produce'') e))"

fun produce_all :: "(nat \<Rightarrow> ack) \<Rightarrow> kafka_record list \<Rightarrow> broker \<Rightarrow> broker \<times> go_err list" where
  "produce_all acks [] b = (b, [])"
| "produce_all acks (rec # recs) b =
     (case send_record (acks (bsent b)) rec b of
        (b1, e) \<Rightarrow>
          (case produce_all acks recs b1 of
             (b2, es) \<Rightarrow> (b2, (case e of None \<Rightarrow> es | Some x \<Rightarrow> ErrWrap ''kafka: produce batch record'' x # es))))"

text \<open>\<open>errors.Join\<close>: nil when there is nothing to join; the texts are separated by newlines.\<close>

fun join_texts :: "go_err list \<Rightarrow> string" where
  "join_texts [] = ''''"
| "join_texts [e] = err_Error e"
| "join_texts (e # es) = err_Error e @ [CHR 0x0A] @ join_texts es"

definition errors_Join :: "go_err list \<Rightarrow> go_err option" where
  "errors_Join es = (if es = [] then None else Some (ErrText (join_texts es)))"

definition ProduceBatch ::
  "(nat \<Rightarrow> ack) \<Rightarrow> (nat \<Rightarrow> go_err option) \<Rightarrow> broker \<Rightarrow> kafka_record list \<Rightarrow> broker \<times> go_err option" where
  "ProduceBatch acks flush b recs =
     (if recs = [] then (b, None)
      else case produce_all acks recs b of
             (b', errs) \<Rightarrow>
               (case flush (bsent b) of
                  Some fe \<Rightarrow> (b', errors_Join (ErrWrap ''kafka: produce batch flush'' fe # errs))
                | None \<Rightarrow> (b', errors_Join errs)))"

section \<open>publisher.go\<close>

record kafka_publisher =
  topicFor :: "message \<Rightarrow> string"
  encoder :: "(string \<Rightarrow> string \<Rightarrow> (go_err, string) result) option"

definition default_topic :: "message \<Rightarrow> string" where
  "default_topic m = (if mTopic m \<noteq> '''' then mTopic m else AggregateType m)"

definition outboxkafka_New :: kafka_publisher where
  "outboxkafka_New = \<lparr>topicFor = default_topic, encoder = None\<rparr>"

definition message_headers :: "message \<Rightarrow> string \<rightharpoonup> string" where
  "message_headers m =
     (let std = [HeaderEventType \<mapsto> EventType m, HeaderMessageID \<mapsto> ID m, ''aggregate-type'' \<mapsto> AggregateType m]
      in case mHeaders m of JsonObj custom \<Rightarrow> std ++ custom | _ \<Rightarrow> std)"

definition messageToRecord :: "kafka_publisher \<Rightarrow> message \<Rightarrow> (go_err, kafka_record) result" where
  "messageToRecord P m =
     (let value = (case encoder P of
                     None \<Rightarrow> Inr (Payload m)
                   | Some enc \<Rightarrow>
                       (case enc (EventType m) (Payload m) of
                          Inl e \<Rightarrow> Inl (ErrWrap (''outboxkafka: encode '' @ EventType m @ '' (id='' @ ID m @ '')'') e)
                        | Inr v \<Rightarrow> Inr v))
      in case value of
           Inl e \<Rightarrow> Inl e
         | Inr v \<Rightarrow> Inr \<lparr>Topic = topicFor P m, Key = AggregateID m, Value = v, Headers = message_headers m,
                          Partition = 0, Offset = 0\<rparr>)"

fun records_of :: "kafka_publisher \<Rightarrow> message list \<Rightarrow> (go_err, kafka_record list) result" where
  "records_of P [] = Inr []"
| "records_of P (m # ms) = res_bind (messageToRecord P m) (\<lambda>rec. res_bind (records_of P ms) (\<lambda>recs. Inr (rec # recs)))"

definition PublishBatch ::
  "kafka_publisher \<Rightarrow> (nat \<Rightarrow> ack) \<Rightarrow> (nat \<Rightarrow> go_err option) \<Rightarrow> broker \<Rightarrow> message list \<Rightarrow> broker \<times> go_err option" where
  "PublishBatch P acks flush b ms =
     (case records_of P ms of Inl e \<Rightarrow> (b, Some e) | Inr recs \<Rightarrow> ProduceBatch acks flush b recs)"

definition Publish :: "kafka_publisher \<Rightarrow> (nat \<Rightarrow> ack) \<Rightarrow> broker \<Rightarrow> message \<Rightarrow> broker \<times> go_err option" where
  "Publish P acks b m =
     (case messageToRecord P m of Inl e \<Rightarrow> (b, Some e) | Inr rec \<Rightarrow> Produce acks b rec)"

section \<open>The outbox as a system\<close>

record 'w relay_sys =
  tbl :: part_table
  net :: 'w
  claimed :: "nat \<rightharpoonup> message list"
  sent :: "nat \<rightharpoonup> message list"

text \<open>Steps of the services and of any number of relays. The set collects what was enqueued; the ids are
  fresh (they are random UUIDs).\<close>

inductive relay_reach :: "'w publisher \<Rightarrow> 'w relay_sys \<Rightarrow> message set \<Rightarrow> bool" for pub where
  start: "prows (tbl s) = [] \<Longrightarrow> claimed s = Map.empty \<Longrightarrow> sent s = Map.empty \<Longrightarrow> relay_reach pub s {}"
| enqueue: "relay_reach pub s E \<Longrightarrow> Enqueue rj ctx err t m (prows (tbl s)) = (rows', None) \<Longrightarrow> ID m \<notin> ID ` E \<Longrightarrow>
     relay_reach pub (s\<lparr>tbl := (tbl s)\<lparr>prows := rows'\<rparr>\<rparr>) (insert (r_msg (last rows')) E)"
| claim: "relay_reach pub s E \<Longrightarrow> set (scan env (prows (tbl s))) \<subseteq> set (prows (tbl s)) \<Longrightarrow>
     claim_phase r env (prows (tbl s)) = Inr ms \<Longrightarrow>
     relay_reach pub (s\<lparr>claimed := (claimed s)(i \<mapsto> ms)\<rparr>) E"
| publish: "relay_reach pub s E \<Longrightarrow> claimed s i = Some ms \<Longrightarrow> publish_phase pub ms (net s) = (w', e) \<Longrightarrow>
     relay_reach pub (s\<lparr>net := w', claimed := (claimed s)(i := None),
                        sent := (sent s)(i := (if e = None then Some ms else None))\<rparr>) E"
| mark: "relay_reach pub s E \<Longrightarrow> sent s i = Some ms \<Longrightarrow>
     relay_reach pub (s\<lparr>tbl := (tbl s)\<lparr>prows := MarkPublishedBatch t (map ID ms) (prows (tbl s))\<rparr>,
                        sent := (sent s)(i := None)\<rparr>) E"
| crash: "relay_reach pub s E \<Longrightarrow>
     relay_reach pub (s\<lparr>claimed := (claimed s)(i := None), sent := (sent s)(i := None)\<rparr>) E"
| cleanup: "relay_reach pub s E \<Longrightarrow> outbox_Cleanup err t age (prows (tbl s)) = (rows', res) \<Longrightarrow>
     relay_reach pub (s\<lparr>tbl := (tbl s)\<lparr>prows := rows'\<rparr>\<rparr>) E"
| maintain: "relay_reach pub s E \<Longrightarrow> Maintain cfg ex D t (tbl s) = (T', es) \<Longrightarrow>
     relay_reach pub (s\<lparr>tbl := T'\<rparr>) E"

text \<open>A transport: what a publish without an error was asked to deliver is delivered, and nothing that was
  delivered is taken back.\<close>

locale transport =
  fixes pub :: "'w publisher"
    and delivered :: "'w \<Rightarrow> message \<Rightarrow> bool"
  assumes publish_ok: "publish_phase pub ms w = (w', None) \<Longrightarrow> m \<in> set ms \<Longrightarrow> delivered w' m"
    and publish_mono: "publish_phase pub ms w = (w', e) \<Longrightarrow> delivered w m \<Longrightarrow> delivered w' m"
begin

definition sys_inv :: "'w relay_sys \<Rightarrow> message set \<Rightarrow> bool" where
  "sys_inv s E \<longleftrightarrow>
     inj_on ID E
     \<and> (\<forall>row \<in> set (prows (tbl s)). r_msg row \<in> E \<and> (published_at row \<noteq> None \<longrightarrow> delivered (net s) (r_msg row)))
     \<and> (\<forall>m \<in> E. delivered (net s) m \<or> (\<exists>row \<in> set (prows (tbl s)). r_msg row = m \<and> published_at row = None))
     \<and> (\<forall>i ms. claimed s i = Some ms \<longrightarrow> set ms \<subseteq> E)
     \<and> (\<forall>i ms. sent s i = Some ms \<longrightarrow> set ms \<subseteq> E \<and> (\<forall>m \<in> set ms. delivered (net s) m))"

lemma sys_invI:
  assumes "inj_on ID E"
    "\<And>row. row \<in> set (prows (tbl s)) \<Longrightarrow> r_msg row \<in> E \<and> (published_at row \<noteq> None \<longrightarrow> delivered (net s) (r_msg row))"
    "\<And>m. m \<in> E \<Longrightarrow> delivered (net s) m \<or> (\<exists>row \<in> set (prows (tbl s)). r_msg row = m \<and> published_at row = None)"
    "\<And>i ms. claimed s i = Some ms \<Longrightarrow> set ms \<subseteq> E"
    "\<And>i ms. sent s i = Some ms \<Longrightarrow> set ms \<subseteq> E \<and> (\<forall>m \<in> set ms. delivered (net s) m)"
  shows "sys_inv s E"
  using assms unfolding sys_inv_def by blast

text \<open>Steps that only remove published rows, or add one for a new message, keep the invariant.\<close>

lemma sys_inv_shrink:
  assumes "sys_inv s E" "set (prows T) \<subseteq> set (prows (tbl s))"
    "\<And>row. row \<in> set (prows (tbl s)) \<Longrightarrow> published_at row = None \<Longrightarrow> row \<in> set (prows T)"
  shows "sys_inv (s\<lparr>tbl := T\<rparr>) E"
  using assms(1) assms(2,3) unfolding sys_inv_def by (simp add: subset_iff) blast

lemma sys_inv_mark:
  assumes inv: "sys_inv s E" and ms: "sent s i = Some ms"
  shows "sys_inv (s\<lparr>tbl := (tbl s)\<lparr>prows := MarkPublishedBatch t (map ID ms) (prows (tbl s))\<rparr>,
                   sent := (sent s)(i := None)\<rparr>) E"
proof (rule sys_invI)
  have set_ms: "set ms \<subseteq> E" "\<forall>m \<in> set ms. delivered (net s) m" using inv ms by (auto simp: sys_inv_def)
  have inj: "inj_on ID E" using inv by (simp add: sys_inv_def)
  then show "inj_on ID E" .
  have hit: "delivered (net s) m" if "m \<in> E" "ID m \<in> ID ` set ms" for m
    using that set_ms inj by (auto simp: inj_on_def)
  fix m assume m: "m \<in> E"
  let ?s' = "s\<lparr>tbl := (tbl s)\<lparr>prows := MarkPublishedBatch t (map ID ms) (prows (tbl s))\<rparr>, sent := (sent s)(i := None)\<rparr>"
  show "delivered (net ?s') m \<or> (\<exists>row \<in> set (prows (tbl ?s')). r_msg row = m \<and> published_at row = None)"
  proof (cases "delivered (net s) m")
    case False
    then obtain row where row: "row \<in> set (prows (tbl s))" "r_msg row = m" "published_at row = None"
      using inv m unfolding sys_inv_def by blast
    then have "ID m \<notin> ID ` set ms" using False hit m by blast
    then have "row \<in> set (MarkPublishedBatch t (map ID ms) (prows (tbl s)))"
      using row by (force simp: MarkPublishedBatch_def)
    then show ?thesis using row by auto
  qed simp
next
  fix row
  assume "row \<in> set (prows (tbl (s\<lparr>tbl := (tbl s)\<lparr>prows := MarkPublishedBatch t (map ID ms) (prows (tbl s))\<rparr>, sent := (sent s)(i := None)\<rparr>)))"
  then obtain old where old: "old \<in> set (prows (tbl s))"
    and row: "row = (if ID (r_msg old) \<in> ID ` set ms then old\<lparr>published_at := Some t\<rparr> else old)"
    by (auto simp: MarkPublishedBatch_def)
  have o: "r_msg old \<in> E" "published_at old \<noteq> None \<longrightarrow> delivered (net s) (r_msg old)"
    using inv old unfolding sys_inv_def by blast+
  have "ID (r_msg old) \<in> ID ` set ms \<Longrightarrow> delivered (net s) (r_msg old)"
    using inv ms o(1) unfolding sys_inv_def inj_on_def by (metis (no_types, lifting) imageE subsetD)
  then show "r_msg row \<in> E \<and> (published_at row \<noteq> None \<longrightarrow> delivered (net (s\<lparr>tbl := (tbl s)\<lparr>prows := MarkPublishedBatch t (map ID ms) (prows (tbl s))\<rparr>, sent := (sent s)(i := None)\<rparr>)) (r_msg row))"
    using o row by auto
qed (use inv in \<open>auto simp: sys_inv_def split: if_splits\<close>)

lemma sys_inv_enqueue:
  assumes inv: "sys_inv s E" and enq: "Enqueue rj ctx err t m (prows (tbl s)) = (rows', None)"
    and fresh: "ID m \<notin> ID ` E"
  shows "sys_inv (s\<lparr>tbl := (tbl s)\<lparr>prows := rows'\<rparr>\<rparr>) (insert (r_msg (last rows')) E)"
proof -
  obtain m' where rows': "rows' = prows (tbl s) @ [\<lparr>r_msg = m', published_at = None\<rparr>]" and "ID m' = ID m"
    using Enqueue_ok [OF enq] by auto
  have id: "ID m' \<notin> ID ` E" using fresh \<open>ID m' = ID m\<close> by simp
  have old: "inj_on ID E"
    "\<forall>row \<in> set (prows (tbl s)). r_msg row \<in> E \<and> (published_at row \<noteq> None \<longrightarrow> delivered (net s) (r_msg row))"
    "\<forall>m \<in> E. delivered (net s) m \<or> (\<exists>row \<in> set (prows (tbl s)). r_msg row = m \<and> published_at row = None)"
    "\<forall>i ms. claimed s i = Some ms \<longrightarrow> set ms \<subseteq> E"
    "\<forall>i ms. sent s i = Some ms \<longrightarrow> set ms \<subseteq> E \<and> (\<forall>m \<in> set ms. delivered (net s) m)"
    using inv unfolding sys_inv_def by blast+
  have "inj_on ID (insert m' E)" using old(1) id by (auto simp only: inj_on_insert)
  moreover have "\<forall>row \<in> set rows'. r_msg row \<in> insert m' E \<and> (published_at row \<noteq> None \<longrightarrow> delivered (net s) (r_msg row))"
    using old(2) by (simp add: rows')
  moreover have "\<forall>m \<in> insert m' E. delivered (net s) m \<or> (\<exists>row \<in> set rows'. r_msg row = m \<and> published_at row = None)"
    using old(3) by (simp add: rows') blast
  moreover have "r_msg (last rows') = m'" by (simp add: rows')
  ultimately show ?thesis using old(4,5) by (simp add: sys_inv_def) blast
qed

lemma sys_inv_publish:
  assumes inv: "sys_inv s E" and ms: "claimed s i = Some ms" and p: "publish_phase pub ms (net s) = (w', e)"
  shows "sys_inv (s\<lparr>net := w', claimed := (claimed s)(i := None),
                   sent := (sent s)(i := (if e = None then Some ms else None))\<rparr>) E"
proof -
  have keep: "\<And>m. delivered (net s) m \<Longrightarrow> delivered w' m" using publish_mono [OF p] .
  have new: "e = None \<Longrightarrow> m \<in> set ms \<Longrightarrow> delivered w' m" for m using publish_ok [of ms "net s" w' m] p by simp
  have "set ms \<subseteq> E" using inv ms by (auto simp: sys_inv_def)
  then show ?thesis
    using inv keep new unfolding sys_inv_def by (auto split: if_splits)
qed

lemma reach_inv: "relay_reach pub s E \<Longrightarrow> sys_inv s E"
proof (induction rule: relay_reach.induct)
  case (start s)
  then show ?case by (simp add: sys_inv_def)
next
  case (enqueue s E rj ctx err t m rows')
  then show ?case by (intro sys_inv_enqueue)
next
  case (claim s E env r ms i)
  have "set ms \<subseteq> E"
    using claim.IH claim.hyps claim_phase_Inr [OF claim.hyps(3)] fetchUnpublished_rows [OF _ claim.hyps(2)]
    unfolding sys_inv_def by blast
  then show ?case using claim.IH by (auto simp: sys_inv_def)
next
  case (publish s E i ms w' e)
  then show ?case by (intro sys_inv_publish)
next
  case (mark s E i ms t)
  then show ?case by (intro sys_inv_mark)
next
  case (crash s E i)
  then show ?case by (auto simp: sys_inv_def)
next
  case (cleanup s E err t age rows' res)
  then show ?case using outbox_Cleanup_rows [OF cleanup.hyps(2)] by (intro sys_inv_shrink) auto
next
  case (maintain s E cfg ex D t T' es)
  then show ?case using Maintain_rows [OF maintain.hyps(2)] by (intro sys_inv_shrink) auto
qed

theorem no_loss:
  assumes "relay_reach pub s E" "m \<in> E"
  shows "delivered (net s) m \<or> (\<exists>row \<in> set (prows (tbl s)). r_msg row = m \<and> published_at row = None)"
  using reach_inv [OF assms(1)] assms(2) unfolding sys_inv_def by blast

end

section \<open>The Kafka publisher is a transport\<close>

definition kafka_delivered :: "kafka_publisher \<Rightarrow> broker \<Rightarrow> message \<Rightarrow> bool" where
  "kafka_delivered P b m \<longleftrightarrow> (\<exists>rec. messageToRecord P m = Inr rec \<and> rec \<in> set (blog b))"

lemma send_record_log: "send_record a rec b = (b', e) \<Longrightarrow> set (blog b) \<subseteq> set (blog b') \<and> (e = None \<longrightarrow> rec \<in> set (blog b'))"
  by (cases a) auto

lemma Produce_log: "Produce acks b rec = (b', e) \<Longrightarrow> set (blog b) \<subseteq> set (blog b') \<and> (e = None \<longrightarrow> rec \<in> set (blog b'))"
  using send_record_log by (fastforce simp: Produce_def split: prod.splits)

lemma produce_all_log:
  "produce_all acks recs b = (b', es) \<Longrightarrow> set (blog b) \<subseteq> set (blog b') \<and> (es = [] \<longrightarrow> set recs \<subseteq> set (blog b'))"
proof (induction recs arbitrary: b es)
  case Nil
  then show ?case by simp
next
  case (Cons rec recs)
  obtain b1 e es1 where s: "send_record (acks (bsent b)) rec b = (b1, e)" and p: "produce_all acks recs b1 = (b', es1)"
    and es: "es = (case e of None \<Rightarrow> es1 | Some x \<Rightarrow> ErrWrap ''kafka: produce batch record'' x # es1)"
    using Cons.prems by (auto split: prod.splits)
  show ?case using send_record_log [OF s] Cons.IH [OF p] es by (auto split: option.splits)
qed

lemma ProduceBatch_log:
  assumes "ProduceBatch acks flush b recs = (b', e)"
  shows "set (blog b) \<subseteq> set (blog b') \<and> (e = None \<longrightarrow> set recs \<subseteq> set (blog b'))"
proof (cases "recs = []")
  case False
  obtain b1 es where p: "produce_all acks recs b = (b1, es)" by (metis prod.exhaust)
  then have "b' = b1" "e = None \<longrightarrow> es = []"
    using assms False by (auto simp: ProduceBatch_def errors_Join_def split: option.splits if_splits)
  then show ?thesis using produce_all_log [OF p] by auto
qed (use assms in \<open>simp add: ProduceBatch_def\<close>)

lemma records_of_mem: "records_of P ms = Inr recs \<Longrightarrow> m \<in> set ms \<Longrightarrow> \<exists>rec \<in> set recs. messageToRecord P m = Inr rec"
  by (induction ms arbitrary: recs) auto

lemma PublishBatch_delivers:
  assumes "PublishBatch P acks flush b ms = (b', e)"
  shows "set (blog b) \<subseteq> set (blog b') \<and> (e = None \<longrightarrow> (\<forall>m \<in> set ms. kafka_delivered P b' m))"
proof (cases "records_of P ms")
  case (Inl x)
  then show ?thesis using assms by (auto simp: PublishBatch_def)
next
  case (Inr recs)
  then have "ProduceBatch acks flush b recs = (b', e)" using assms by (simp add: PublishBatch_def)
  from ProduceBatch_log [OF this] show ?thesis
    using records_of_mem [OF Inr] unfolding kafka_delivered_def by blast
qed

lemma kafka_delivered_mono: "kafka_delivered P b m \<Longrightarrow> set (blog b) \<subseteq> set (blog b') \<Longrightarrow> kafka_delivered P b' m"
  unfolding kafka_delivered_def by blast

lemma publish_loop_delivers:
  assumes "publish_loop (Publish P acks) ms b = (b', e)"
  shows "set (blog b) \<subseteq> set (blog b') \<and> (e = None \<longrightarrow> (\<forall>m \<in> set ms. kafka_delivered P b' m))"
  using assms
proof (induction ms arbitrary: b)
  case Nil
  then show ?case by simp
next
  case (Cons m ms)
  obtain b1 e1 where p: "Publish P acks b m = (b1, e1)" by (metis prod.exhaust)
  have one: "set (blog b) \<subseteq> set (blog b1)" "e1 = None \<Longrightarrow> kafka_delivered P b1 m"
    using p Produce_log [of acks b _ b1 e1] by (auto simp: Publish_def kafka_delivered_def split: sum.splits)
  show ?case
  proof (cases e1)
    case (Some x)
    then show ?thesis using Cons.prems p one by auto
  next
    case None
    then have "publish_loop (Publish P acks) ms b1 = (b', e)" using Cons.prems p by simp
    from Cons.IH [OF this] show ?thesis using one None kafka_delivered_mono by auto
  qed
qed

lemma publish_phase_kafka:
  assumes "publish_phase pub ms b = (b', e)" "pub = BatchPub (PublishBatch P acks flush) \<or> pub = SinglePub (Publish P acks)"
  shows "set (blog b) \<subseteq> set (blog b') \<and> (e = None \<longrightarrow> (\<forall>m \<in> set ms. kafka_delivered P b' m))"
  using assms(2)
proof
  assume "pub = BatchPub (PublishBatch P acks flush)"
  then obtain e' where "PublishBatch P acks flush b ms = (b', e')" "e = None \<longleftrightarrow> e' = None"
    using assms(1) by (auto split: prod.splits option.splits)
  then show ?thesis using PublishBatch_delivers by blast
next
  assume "pub = SinglePub (Publish P acks)"
  then show ?thesis using assms(1) publish_loop_delivers by simp
qed

interpretation kafka_batch: transport "BatchPub (PublishBatch P acks flush)" "kafka_delivered P"
  for P acks flush
  by unfold_locales (meson publish_phase_kafka kafka_delivered_mono)+

interpretation kafka_single: transport "SinglePub (Publish P acks)" "kafka_delivered P"
  for P acks
  by unfold_locales (meson publish_phase_kafka kafka_delivered_mono)+

section \<open>One batch is a run of the system\<close>

text \<open>The state after \<open>ProcessBatch\<close> is reached by the three phases as separate steps.\<close>

lemma ProcessBatch_reach:
  assumes reach: "relay_reach pub s E" and sc: "set (scan env (prows (tbl s))) \<subseteq> set (prows (tbl s))"
    and idle: "claimed s i = None" "sent s i = None"
    and pb: "ProcessBatch r pub env (prows (tbl s)) (net s) = (rows', w', n, e)"
  shows "relay_reach pub (s\<lparr>net := w', tbl := (tbl s)\<lparr>prows := rows'\<rparr>\<rparr>) E"
proof (cases "claim_phase r env (prows (tbl s))")
  case (Inl x)
  then have "rows' = prows (tbl s)" "w' = net s" using pb by (auto simp: ProcessBatch_def)
  then show ?thesis using reach by simp
next
  case (Inr ms)
  show ?thesis
  proof (cases "ms = []")
    case True
    then have "rows' = prows (tbl s)" "w' = net s" using pb Inr by (auto simp: ProcessBatch_def)
    then show ?thesis using reach by simp
  next
    case False
    obtain w1 pe where p: "publish_phase pub ms (net s) = (w1, pe)" by (metis prod.exhaust)
    have w': "w' = w1" using pb Inr False p by (auto simp: ProcessBatch_def split: option.splits)
    let ?s1 = "s\<lparr>claimed := (claimed s)(i \<mapsto> ms)\<rparr>"
    let ?s2 = "?s1\<lparr>net := w1, claimed := (claimed ?s1)(i := None), sent := (sent ?s1)(i := (if pe = None then Some ms else None))\<rparr>"
    have r2: "relay_reach pub ?s2 E"
      using relay_reach.publish [OF relay_reach.claim [OF reach sc Inr, of i], of i ms w1 pe] p by simp
    show ?thesis
    proof (cases "pe = None \<and> mark_err env = None")
      case True
      then have "rows' = MarkPublishedBatch (mark_now env) (map ID ms) (prows (tbl s))"
        using pb Inr False p by (simp add: ProcessBatch_def)
      then show ?thesis
        using relay_reach.mark [OF r2, of i ms "mark_now env"] True idle w' by (simp add: fun_upd_idem)
    next
      case no: False
      then have "rows' = prows (tbl s)"
        using pb Inr False p by (auto simp: ProcessBatch_def split: option.splits)
      then show ?thesis using relay_reach.crash [OF r2, of i] idle w' by (simp add: fun_upd_idem)
    qed
  qed
qed

section \<open>Lineage\<close>

lemma header_names:
  "HeaderMessageID \<noteq> HeaderCorrelationID" "HeaderMessageID \<noteq> HeaderCausationID" "HeaderMessageID \<noteq> HeaderTenantID"
  "HeaderMessageID \<noteq> HeaderPrincipalSub" "HeaderMessageID \<noteq> HeaderPrincipalRoles"
  "HeaderCausationID \<noteq> HeaderCorrelationID" "HeaderTenantID \<noteq> HeaderCorrelationID" "HeaderTenantID \<noteq> HeaderCausationID"
  "HeaderPrincipalSub \<noteq> HeaderCorrelationID" "HeaderPrincipalRoles \<noteq> HeaderCorrelationID"
  "HeaderPrincipalSub \<noteq> HeaderCausationID" "HeaderPrincipalRoles \<noteq> HeaderCausationID"
  "HeaderPrincipalSub \<noteq> HeaderTenantID" "HeaderPrincipalRoles \<noteq> HeaderTenantID"
  by (simp_all add: HeaderCorrelationID_def HeaderMessageID_def HeaderTenantID_def HeaderCausationID_def
      HeaderPrincipalSub_def HeaderPrincipalRoles_def)

lemmas header_names_all = header_names header_names [symmetric]

lemma auth_Inject_other:
  assumes "k \<noteq> HeaderPrincipalSub" "k \<noteq> HeaderPrincipalRoles"
  shows "auth_InjectHeaders rj ctx h k = h k"
  using assms by (auto simp: auth_InjectHeaders_def Let_def split: option.splits)

text \<open>The headers stamped on a message without own headers.\<close>

lemma stamped_headers:
  assumes "mHeaders m = NoHeaders" "CorrelationID ctx \<noteq> ''''" "ParentMessageID ctx \<noteq> ''''"
  obtains h where "mHeaders (StampChainHeaders rj ctx m) = JsonObj h" "h HeaderCorrelationID = Some (CorrelationID ctx)"
    "h HeaderCausationID = Some (ParentMessageID ctx)" "h HeaderTenantID = tenant_FromContext ctx" "h HeaderMessageID = None"
proof -
  define h2 where "h2 = stamp_causation ctx (stamp_correlation ctx (ID m) Map.empty)"
  define h3 where "h3 = (if h2 HeaderPrincipalSub = None then auth_InjectHeaders rj ctx h2 else h2)"
  define h4 where "h4 = (if h3 HeaderTenantID = None then tenant_InjectHeaders ctx h3 else h3)"
  have h2: "h2 = [HeaderCorrelationID \<mapsto> CorrelationID ctx, HeaderCausationID \<mapsto> ParentMessageID ctx]"
    using assms(2,3) by (simp add: h2_def stamp_causation_def stamp_correlation_def header_names_all)
  have h3: "h3 k = h2 k" if "k \<noteq> HeaderPrincipalSub" "k \<noteq> HeaderPrincipalRoles" for k
    using auth_Inject_other [OF that] by (simp add: h3_def)
  have h4: "h4 k = h2 k" if "k \<noteq> HeaderPrincipalSub" "k \<noteq> HeaderPrincipalRoles" "k \<noteq> HeaderTenantID" for k
    using h3 [of k] that by (simp add: h4_def tenant_InjectHeaders_def split: option.splits)
  have "h3 HeaderTenantID = None" using h3 [of HeaderTenantID] by (simp add: h2 header_names_all)
  then have "h4 HeaderTenantID = tenant_FromContext ctx"
    by (simp add: h4_def tenant_InjectHeaders_def split: option.splits)
  moreover have "mHeaders (StampChainHeaders rj ctx m) = JsonObj h4"
    unfolding StampChainHeaders_def assms(1) json_headers.simps Let_def h4_def h3_def h2_def by simp
  ultimately show ?thesis
    using that [of h4] h4 by (simp add: h2 header_names_all)
qed

lemma message_id_nonempty: "message_id r \<noteq> ''''"
  by (simp add: message_id_def Let_def)

lemma prepare_ctx:
  assumes "handler_of c r = Some h"
  shows "ParentMessageID (p_ctx (prepare c background r)) = message_id r"
    "CorrelationID (p_ctx (prepare c background r))
       = (if hdr (Headers r) HeaderCorrelationID = '''' then message_id r else hdr (Headers r) HeaderCorrelationID)"
    "tenant_FromContext (p_ctx (prepare c background r))
       = (if hdr (Headers r) HeaderTenantID = '''' then None else Some (hdr (Headers r) HeaderTenantID))"
  using assms
  by (simp_all add: prepare_def handler_of_def Let_def ParentMessageID_def CorrelationID_def WithParentMessageID_def
      WithCorrelationID_def tenant_FromContext_def tenant_ExtractToContext_def tenant_WithContext_def background_def
      auth_ExtractToContext_def split: option.splits)

section \<open>Properties\<close>


text \<open>The chain of messages keeps its lineage: what a handler enqueues without own headers while it
  processes a record reaches the next consumer with the correlation id and the tenant of that record, with
  the record's message id as its causation, and with its own id as the message id that is deduplicated on
  and becomes the parent of the next hop.\<close>

theorem chain_lineage_preserved:
  assumes "handler_of c r = Some h" "ctx = p_ctx (prepare c background r)" "mHeaders m = NoHeaders" "ID m \<noteq> ''''"
    "Enqueue rj ctx err t m rows = (rows', None)" "messageToRecord P (r_msg (last rows')) = Inr rec"
    "handler_of c' rec = Some h'" "ctx' = p_ctx (prepare c' background rec)"
  shows "CorrelationID ctx' = CorrelationID ctx \<and> tenant_FromContext ctx' = tenant_FromContext ctx
    \<and> ParentMessageID ctx' = ID m \<and> message_id rec = ID m
    \<and> Headers rec HeaderCausationID = Some (message_id r)"
proof -
  note p = prepare_ctx [OF assms(1)]
  have ne: "CorrelationID ctx \<noteq> ''''" "ParentMessageID ctx \<noteq> ''''"
    using p message_id_nonempty [of r] by (simp_all add: assms(2))
  obtain hs where hs: "mHeaders (StampChainHeaders rj ctx m) = JsonObj hs" "hs HeaderCorrelationID = Some (CorrelationID ctx)"
    "hs HeaderCausationID = Some (ParentMessageID ctx)" "hs HeaderTenantID = tenant_FromContext ctx" "hs HeaderMessageID = None"
    using stamped_headers [OF assms(3) ne] .
  let ?std = "[HeaderEventType \<mapsto> EventType (r_msg (last rows')), HeaderMessageID \<mapsto> ID m, ''aggregate-type'' \<mapsto> AggregateType (r_msg (last rows'))]"
  have "mHeaders (r_msg (last rows')) = JsonObj hs" "ID (r_msg (last rows')) = ID m"
    using Enqueue_ok [OF assms(5)] hs(1) by simp_all
  then have H: "Headers rec = ?std ++ hs"
    using assms(6) by (auto simp: messageToRecord_def message_headers_def Let_def split: option.splits sum.splits)
  have "HeaderMessageID \<noteq> ''aggregate-type''" by (simp add: HeaderMessageID_def)
  then have hdrs: "hdr (Headers rec) HeaderCorrelationID = CorrelationID ctx" "hdr (Headers rec) HeaderMessageID = ID m"
    "Headers rec HeaderCausationID = Some (ParentMessageID ctx)"
    using hs by (simp_all add: H hdr_def map_add_def)
  have ten: "Headers rec HeaderTenantID = tenant_FromContext ctx"
    using hs(4) by (cases "tenant_FromContext ctx")
      (simp_all add: H map_add_def HeaderTenantID_def HeaderEventType_def HeaderMessageID_def)
  have tne: "tenant_FromContext ctx \<noteq> Some ''''" by (auto simp: tenant_FromContext_def split: option.splits if_splits)
  have mid: "message_id rec = ID m" using hdrs(2) assms(4) by (simp add: message_id_def)
  show ?thesis
    using prepare_ctx [OF assms(7)] hdrs ten tne mid ne p(1) assms(2)
    by (auto simp: assms(8) hdr_def split: option.splits if_splits)
qed

section \<open>Concrete runs\<close>

definition calm_claim :: claim_env where
  "calm_claim = \<lparr>scan = (\<lambda>rows. rows), locked = {}, hash = (\<lambda>_. 0), fetch_err = None, claim_begin = None,
     claim_commit = None, mark_err = None, mark_now = 7\<rparr>"

theorem relay_drains_witness:
  "\<exists>rows' w' e. drain (NewRelay 0 True None '''') (BatchPub (\<lambda>w ms. (w @ ms, None))) (\<lambda>_. calm_claim)
      (\<lambda>_. False) (\<lambda>_. True) 0 [\<lparr>r_msg = demo_message 5, published_at = None\<rparr>] [] = Some (rows', w', e)"
proof -
  have "0 < BatchSize (NewRelay 0 True None '''')" by (simp add: NewRelay_def)
  moreover have "set (scan calm_claim rs) = set rs" for rs by (simp add: calm_claim_def)
  ultimately show ?thesis
    using relay_drains [of "NewRelay 0 True None ''''" "\<lambda>_. calm_claim" "BatchPub (\<lambda>w ms. (w @ ms, None))" "\<lambda>_. False"
        "\<lambda>_. True" 0 "[\<lparr>r_msg = demo_message 5, published_at = None\<rparr>]" "[]" "\<lambda>_. 0"] by blast
qed

definition demo_sys :: "broker relay_sys" where
  "demo_sys = \<lparr>tbl = \<lparr>parts = [], prows = []\<rparr>, net = \<lparr>blog = [], bsent = 0\<rparr>, claimed = Map.empty, sent = Map.empty\<rparr>"


definition demo_next :: message where
  "demo_next = (demo_message 0)\<lparr>EventType := ''e''\<rparr>"

definition demo_hop :: "(string \<rightharpoonup> string) \<Rightarrow> kafka_record" where
  "demo_hop h = \<lparr>Topic = ''orders.events'', Key = ''o-1'', Value = '''', Headers = h, Partition = 0, Offset = 0\<rparr>"

theorem chain_lineage_preserved_witness:
  "\<exists>rows' rec. Enqueue (\<lambda>_. '''') (p_ctx (prepare (probe_consumer (\<lambda>_. calm)) background (probe_record ''a'' ''x''))) None 5 demo_next [] = (rows', None)
     \<and> messageToRecord outboxkafka_New (r_msg (last rows')) = Inr rec
     \<and> CorrelationID (p_ctx (prepare (probe_consumer (\<lambda>_. calm)) background rec)) = ''c-1''
     \<and> Headers rec HeaderCausationID = Some ''m-x''"
proof -
  let ?c = "probe_consumer (\<lambda>_. calm)" and ?r = "probe_record ''a'' ''x''"
  let ?ctx = "p_ctx (prepare ?c background ?r)"
  obtain rows' where enq: "Enqueue (\<lambda>_. '''') ?ctx None 5 demo_next [] = (rows', None)"
    by (simp add: Enqueue_def InsertOutbox_def Let_def)
  let ?m = "r_msg (last rows')"
  have rec: "messageToRecord outboxkafka_New ?m = Inr \<lparr>Topic = default_topic ?m, Key = AggregateID ?m, Value = Payload ?m,
      Headers = message_headers ?m, Partition = 0, Offset = 0\<rparr>" (is "_ = Inr ?rec")
    by (simp add: messageToRecord_def outboxkafka_New_def)
  have r: "handler_of ?c ?r = Some probe_handler"
    by (simp add: handler_of_def probe_consumer_def probe_record_def hdr_def HeaderEventType_def HeaderMessageID_def
        HeaderTenantID_def HeaderCorrelationID_def)
  have ids: "CorrelationID ?ctx = ''c-1''" "ParentMessageID ?ctx = ''m-x''" "message_id ?r = ''m-x''"
    by (simp_all only: prepare_ctx [OF r]) (simp_all add: message_id_def probe_record_def hdr_def HeaderEventType_def
        HeaderMessageID_def HeaderTenantID_def HeaderCorrelationID_def)
  have nh: "mHeaders demo_next = NoHeaders" "ID demo_next \<noteq> ''''" by (simp_all add: demo_next_def demo_message_def)
  have ev: "handler_of ?c ?rec = Some probe_handler"
    using Enqueue_ok [OF enq] nh(1)
    by (simp add: handler_of_def probe_consumer_def hdr_def message_headers_def StampChainHeaders_def Let_def map_add_def
        stamp_causation_def stamp_correlation_def auth_InjectHeaders_def tenant_InjectHeaders_def demo_next_def
        demo_message_def HeaderEventType_def HeaderMessageID_def HeaderTenantID_def HeaderCorrelationID_def HeaderCausationID_def
        HeaderPrincipalSub_def HeaderPrincipalRoles_def split: option.splits)
  show ?thesis
    using chain_lineage_preserved [OF r refl nh enq rec ev refl] enq rec ids by auto
qed

text \<open>Claiming goes by age: a batch is sorted by creation time, within the batch size, and no claimable
  row that was left out is older than one that was taken.\<close>

theorem claim_oldest_first:
  assumes "set (scan E rows) = set rows" "ms = fetchUnpublished r E rows"
  shows "sorted (map CreatedAt ms) \<and> length ms \<le> nat (BatchSize r)
    \<and> (\<forall>row \<in> set rows. claimable r E row \<and> r_msg row \<notin> set ms \<longrightarrow> (\<forall>m \<in> set ms. CreatedAt m \<le> CreatedAt (r_msg row)))"
proof -
  let ?k = "\<lambda>row. CreatedAt (r_msg row)"
  let ?s = "sort_key ?k (filter (claimable r E) (scan E rows))" and ?n = "nat (BatchSize r)"
  have ms: "ms = map r_msg (take ?n ?s)" by (simp add: assms(2) fetchUnpublished_def)
  have "sorted (map ?k (take ?n ?s @ drop ?n ?s))" by simp
  then have srt: "sorted (map ?k (take ?n ?s))"
    and le: "\<And>a b. a \<in> set (take ?n ?s) \<Longrightarrow> b \<in> set (drop ?n ?s) \<Longrightarrow> ?k a \<le> ?k b"
    by (auto simp only: map_append sorted_append set_map)
  have "\<forall>m \<in> set ms. CreatedAt m \<le> ?k row" if row: "row \<in> set rows" "claimable r E row" "r_msg row \<notin> set ms" for row
  proof -
    have "row \<in> set ?s" using row(1,2) assms(1) by simp
    then have "row \<in> set (take ?n ?s) \<union> set (drop ?n ?s)" by (metis append_take_drop_id set_append)
    then show ?thesis using row(3) le by (auto simp: ms)
  qed
  moreover have "sorted (map CreatedAt ms)" using srt by (simp add: ms comp_def)
  ultimately show ?thesis by (simp add: ms)
qed

theorem claim_oldest_first_witness:
  "sorted (map CreatedAt (fetchUnpublished (NewRelay 2 True None '''') calm_claim
     [\<lparr>r_msg = demo_message 9, published_at = None\<rparr>, \<lparr>r_msg = demo_message 5, published_at = None\<rparr>]))"
  using claim_oldest_first [of calm_claim "[\<lparr>r_msg = demo_message 9, published_at = None\<rparr>, \<lparr>r_msg = demo_message 5, published_at = None\<rparr>]"]
  by (simp add: calm_claim_def)

text \<open>Creation time does not order the events of one transaction: \<open>created_at\<close> is the transaction's start
  time, so two events of one aggregate enqueued together tie, and a server that returns ties in another order
  makes the single active relay publish the second before the first.\<close>

theorem same_transaction_events_reorder:
  "let m1 = (demo_message 0)\<lparr>ID := ''first''\<rparr>; m2 = (demo_message 0)\<lparr>ID := ''second''\<rparr>;
       rows = fst (Enqueue (\<lambda>_. '''') background None 5 m2 (fst (Enqueue (\<lambda>_. '''') background None 5 m1 [])))
   in map (\<lambda>row. ID (r_msg row)) rows = [''first'', ''second'']
      \<and> map ID (fetchUnpublished (NewRelay 10 True None '''') (calm_claim\<lparr>scan := rev\<rparr>) rows) = [''second'', ''first'']"
  by code_simp

end
