(* ===== verification/Orders.thy ===== *)
theory Orders
  imports Outbox_Kafka Money_Codec
begin

text \<open>
  \<open>examples/orders\<close>: the order state machine (\<open>internal/domain/order\<close>), the Postgres repository, the domain
  service, the create command (\<open>internal/app/create_order.go\<close>) and the unpaid watcher
  (\<open>internal/app/unpaid_watcher.go\<close>). The database of the service holds the orders and the outbox. UUID
  parsing, protobuf marshalling and the outcome of every statement come from outside the repository; they
  are fields of an environment record. Statuses are the strings stored in the table.
\<close>

section \<open>statemachine.go and codes.go\<close>

definition StatusCreated :: string where "StatusCreated = ''created''"
definition StatusPaid :: string where "StatusPaid = ''paid''"
definition StatusPaymentFailed :: string where "StatusPaymentFailed = ''payment_failed''"
definition StatusPaymentTimeout :: string where "StatusPaymentTimeout = ''payment_timeout''"

definition transitions :: "string \<rightharpoonup> (string \<rightharpoonup> bool)" where
  "transitions =
     [StatusCreated \<mapsto> [StatusPaid \<mapsto> True, StatusPaymentFailed \<mapsto> True, StatusPaymentTimeout \<mapsto> True]]"

definition CanTransition :: "string \<Rightarrow> string \<Rightarrow> bool" where
  "CanTransition from to =
     (case transitions from of None \<Rightarrow> False | Some m \<Rightarrow> (case m to of None \<Rightarrow> False | Some b \<Rightarrow> b))"

definition CodeInvalidStatusTransition :: string where
  "CodeInvalidStatusTransition = ''ORDERS_INVALID_STATUS_TRANSITION''"
definition CodeInvalidOrderID :: string where "CodeInvalidOrderID = ''ORDERS_INVALID_ORDER_ID''"

definition orders_codes :: "(string \<times> int \<times> bool \<times> string \<times> string list) list" where
  "orders_codes =
     [(CodeInvalidStatusTransition, 409, True, ''order cannot transition from {from} to {to}'', [''from'', ''to'']),
      (CodeInvalidOrderID, 400, True, ''invalid order id {order_id}'', [''order_id''])]"

definition Transition :: "code_registry \<Rightarrow> string \<Rightarrow> string \<Rightarrow> go_err option" where
  "Transition reg from to =
     (if CanTransition from to then None
      else Some (ErrApp (WithParams (app_New reg CodeInvalidStatusTransition) [''from'' \<mapsto> from, ''to'' \<mapsto> to]) None))"

section \<open>repository.go and pg.go\<close>

record order_row =
  o_id :: string
  customer :: string
  o_amount :: string
  o_asset :: string
  o_status :: string
  o_created :: int
  timeout_emitted :: bool

record orders_db =
  orders :: "order_row list"
  o_outbox :: outbox_table

datatype order_event =
    OrderCreated string string int string
  | OrderPaymentTimedOut string int

record 'd orders_env =
  dec_ops :: "'d decimal_ops"
  assets :: registry
  app_codes :: code_registry
  parse_uuid :: "string \<Rightarrow> (go_err, string) result"
  marshal :: "order_event \<Rightarrow> (go_err, string) result"
  new_uuid :: string
  stmt_err :: "go_err option"
  enqueue_err :: "go_err option"
  db_now :: int
  roles_json :: "string list \<Rightarrow> string"
  svc_ctx :: go_ctx

record 'd new_order =
  no_id :: string
  no_customer :: string
  no_amount :: "'d money"

definition repo_Insert :: "'d orders_env \<Rightarrow> string \<Rightarrow> string \<Rightarrow> 'd money \<Rightarrow> string \<Rightarrow> orders_db \<Rightarrow> orders_db \<times> go_err option" where
  "repo_Insert E i cust amt st db =
     (case stmt_err E of
        Some e \<Rightarrow> (db, Some e)
      | None \<Rightarrow>
          if i \<in> o_id ` set (orders db) then (db, Some (ErrText ''duplicate key value violates unique constraint''))
          else (db\<lparr>orders := orders db @ [\<lparr>o_id = i, customer = cust, o_amount = d_to_string (dec_ops E) (amount amt),
                  o_asset = asset amt, o_status = st, o_created = db_now E, timeout_emitted = False\<rparr>]\<rparr>, None))"

definition repo_Get ::
  "'d orders_env \<Rightarrow> (string \<Rightarrow> (string, 'd) result) \<Rightarrow> string \<Rightarrow> orders_db \<Rightarrow> (go_err, order_row \<times> 'd money) result" where
  "repo_Get E numeric i db =
     (case stmt_err E of
        Some e \<Rightarrow> Inl (ErrWrap (''order: get '' @ i) e)
      | None \<Rightarrow>
          (case find (\<lambda>o'. o_id o' = i) (orders db) of
             None \<Rightarrow> Inl (ErrWrap (''order: get '' @ i) (ErrText ''no rows in result set''))
           | Some o' \<Rightarrow>
               (case ScanRow (dec_ops E) (assets E) numeric (o_amount o') (o_asset o') of
                  Inl e \<Rightarrow> Inl (ErrWrap (''order: get '' @ i) (ErrText (error_Error e)))
                | Inr m \<Rightarrow> Inr (o', m))))"

definition update_where :: "('r \<Rightarrow> bool) \<Rightarrow> ('r \<Rightarrow> 'r) \<Rightarrow> 'r list \<Rightarrow> 'r list \<times> nat" where
  "update_where P f rs = (map (\<lambda>r. if P r then f r else r) rs, length (filter P rs))"

definition MarkPaymentOutcome :: "'d orders_env \<Rightarrow> string \<Rightarrow> string \<Rightarrow> orders_db \<Rightarrow> orders_db \<times> (go_err, bool) result" where
  "MarkPaymentOutcome E i to db =
     (case stmt_err E of
        Some e \<Rightarrow> (db, Inl e)
      | None \<Rightarrow>
          (case update_where (\<lambda>r. o_id r = i \<and> o_status r = ''created'') (\<lambda>r. r\<lparr>o_status := to\<rparr>) (orders db) of
             (os, n) \<Rightarrow> (db\<lparr>orders := os\<rparr>, Inr (0 < n))))"

definition MarkTimeoutEmitted :: "'d orders_env \<Rightarrow> string \<Rightarrow> orders_db \<Rightarrow> orders_db \<times> (go_err, bool) result" where
  "MarkTimeoutEmitted E i db =
     (case stmt_err E of
        Some e \<Rightarrow> (db, Inl e)
      | None \<Rightarrow>
          (case update_where (\<lambda>r. o_id r = i \<and> \<not> timeout_emitted r \<and> o_status r = ''created'')
                  (\<lambda>r. r\<lparr>timeout_emitted := True, o_status := ''payment_timeout''\<rparr>) (orders db) of
             (os, n) \<Rightarrow> (db\<lparr>orders := os\<rparr>, Inr (0 < n))))"

definition unpaid_expired :: "int \<Rightarrow> int \<Rightarrow> order_row \<Rightarrow> bool" where
  "unpaid_expired t unpaidFor r = (o_status r = ''created'' \<and> \<not> timeout_emitted r \<and> o_created r < t - unpaidFor)"

definition repo_ListUnpaidExpired :: "'d orders_env \<Rightarrow> int \<Rightarrow> int \<Rightarrow> orders_db \<Rightarrow> (go_err, (string \<times> int) list) result" where
  "repo_ListUnpaidExpired E unpaidFor limit db =
     (case stmt_err E of
        Some e \<Rightarrow> Inl e
      | None \<Rightarrow> Inr (map (\<lambda>r. (o_id r, o_created r))
                  (take (nat limit) (sort_key o_created (filter (unpaid_expired (db_now E) unpaidFor) (orders db))))))"

section \<open>service.go\<close>

definition EventsTopic :: string where "EventsTopic = ''orders.events''"
definition OrderCreatedEventType :: string where
  "OrderCreatedEventType = EventTypeFor ''orders.v1.OrderCreated'' 1"
definition OrderPaymentTimedOutEventType :: string where
  "OrderPaymentTimedOutEventType = EventTypeFor ''orders.v1.OrderPaymentTimedOut'' 1"

definition svc_enqueue :: "'d orders_env \<Rightarrow> string \<Rightarrow> string \<Rightarrow> order_event \<Rightarrow> orders_db \<Rightarrow> orders_db \<times> go_err option" where
  "svc_enqueue E orderID eventType ev db =
     (case marshal E ev of
        Inl e \<Rightarrow> (db, Some (ErrWrap (''order: marshal '' @ eventType) e))
      | Inr payload \<Rightarrow>
          (case Enqueue (roles_json E) (svc_ctx E) (enqueue_err E) (db_now E)
                  \<lparr>ID = new_uuid E, mTopic = EventsTopic, AggregateType = ''order'', AggregateID = orderID,
                   EventType = eventType, Payload = payload, mHeaders = NoHeaders, CreatedAt = 0\<rparr> (o_outbox db) of
             (ob, Some e) \<Rightarrow> (db\<lparr>o_outbox := ob\<rparr>, Some (ErrWrap (''order: enqueue '' @ eventType) e))
           | (ob, None) \<Rightarrow> (db\<lparr>o_outbox := ob\<rparr>, None)))"

definition invalid_order_id :: "'d orders_env \<Rightarrow> go_err \<Rightarrow> string \<Rightarrow> go_err" where
  "invalid_order_id E cause raw =
     ErrApp (WithParam (app_New (app_codes E) CodeInvalidOrderID) ''order_id'' raw) (Some cause)"

definition svc_Create :: "'d orders_env \<Rightarrow> 'd new_order \<Rightarrow> orders_db \<Rightarrow> orders_db \<times> go_err option" where
  "svc_Create E p db =
     (case parse_uuid E (no_id p) of
        Inl e \<Rightarrow> (db, Some (invalid_order_id E e (no_id p)))
      | Inr i \<Rightarrow>
          (case repo_Insert E i (no_customer p) (no_amount p) StatusCreated db of
             (db1, Some e) \<Rightarrow> (db1, Some (ErrWrap ''order: insert'' e))
           | (db1, None) \<Rightarrow>
               (case Minor (dec_ops E) (assets E) (no_amount p) of
                  Inl e \<Rightarrow> (db1, Some (ErrWrap (''order: amount '' @ money_String (dec_ops E) (no_amount p) @ '' to minor units'')
                                        (ErrText (error_Error e))))
                | Inr minor \<Rightarrow>
                    svc_enqueue E (no_id p) OrderCreatedEventType
                      (OrderCreated (no_id p) (no_customer p) (wrap64 minor) (asset (no_amount p))) db1)))"

text \<open>The boolean is the warning that an outcome arrived for an order that is no longer open.\<close>

definition ApplyPaymentOutcome :: "'d orders_env \<Rightarrow> string \<Rightarrow> string \<Rightarrow> orders_db \<Rightarrow> orders_db \<times> bool \<times> go_err option" where
  "ApplyPaymentOutcome E raw outcome db =
     (case parse_uuid E raw of
        Inl e \<Rightarrow> (db, False, Some (invalid_order_id E e raw))
      | Inr i \<Rightarrow>
          (case Transition (app_codes E) StatusCreated outcome of
             Some e \<Rightarrow> (db, False, Some e)
           | None \<Rightarrow>
               (case MarkPaymentOutcome E i outcome db of
                  (db1, Inl e) \<Rightarrow> (db1, False, Some (ErrWrap (''order: mark payment outcome '' @ i @ ''='' @ outcome) e))
                | (db1, Inr applied) \<Rightarrow> (db1, \<not> applied, None))))"

definition svc_ListUnpaidExpired :: "'d orders_env \<Rightarrow> int \<Rightarrow> int \<Rightarrow> orders_db \<Rightarrow> (go_err, (string \<times> int) list) result" where
  "svc_ListUnpaidExpired E paymentDeadline limit db =
     map_sum (ErrWrap ''order: list unpaid expired'') id (repo_ListUnpaidExpired E paymentDeadline limit db)"

definition EmitPaymentTimeout :: "'d orders_env \<Rightarrow> int \<Rightarrow> string \<Rightarrow> int \<Rightarrow> orders_db \<Rightarrow> orders_db \<times> go_err option" where
  "EmitPaymentTimeout E paymentDeadline orderID createdAt db =
     (case MarkTimeoutEmitted E orderID db of
        (db1, Inl e) \<Rightarrow> (db1, Some (ErrWrap (''order: mark timeout emitted '' @ orderID) e))
      | (db1, Inr won) \<Rightarrow>
          if \<not> won then (db1, None)
          else svc_enqueue E orderID OrderPaymentTimedOutEventType
                 (OrderPaymentTimedOut orderID (createdAt + paymentDeadline)) db1)"

section \<open>create_order.go\<close>

record create_order =
  co_id :: string
  co_customer :: string
  co_cents :: int
  co_currency :: string

definition CreateOrderHandler :: "'d orders_env \<Rightarrow> create_order \<Rightarrow> orders_db \<Rightarrow> orders_db \<times> go_err option" where
  "CreateOrderHandler E cmd db =
     (case FromMinor (dec_ops E) (assets E) (Some (co_cents cmd)) (co_currency cmd) of
        Inl e \<Rightarrow> (db, Some (ErrWrap (''create order: amount '' @ itoa (co_cents cmd) @ '' '' @ co_currency cmd)
                          (ErrText (error_Error e))))
      | Inr amt \<Rightarrow> svc_Create E \<lparr>no_id = co_id cmd, no_customer = co_customer cmd, no_amount = amt\<rparr> db)"

section \<open>unpaid_watcher.go\<close>

definition unpaidBatchLimit :: int where "unpaidBatchLimit = 100"

text \<open>One transaction per candidate; the \<open>n\<close>-th transaction of the poll runs under \<open>env n\<close> and begins and
  commits as \<open>tx n\<close> says.\<close>

fun emit_all ::
  "(nat \<Rightarrow> 'd orders_env) \<Rightarrow> (nat \<Rightarrow> go_err option \<times> go_err option) \<Rightarrow> int \<Rightarrow> nat \<Rightarrow> (string \<times> int) list \<Rightarrow> orders_db
     \<Rightarrow> nat \<times> orders_db \<times> go_err option" where
  "emit_all env tx dl n [] db = (n, db, None)"
| "emit_all env tx dl n ((i, t) # rows) db =
     (case RunInTx (fst (tx n)) (snd (tx n)) (EmitPaymentTimeout (env n) dl i t) db of
        (db1, Some e) \<Rightarrow> (n + 1, db1, Some (ErrWrap ''unpaid_watcher'' e))
      | (db1, None) \<Rightarrow> emit_all env tx dl (n + 1) rows db1)"

definition list_tx ::
  "'d orders_env \<Rightarrow> go_err option \<times> go_err option \<Rightarrow> int \<Rightarrow> orders_db \<Rightarrow> (go_err, (string \<times> int) list) result" where
  "list_tx E be dl db =
     (case RunInTx_mem (fst be) (snd be)
             (\<lambda>db _. case svc_ListUnpaidExpired E dl unpaidBatchLimit db of
                Inl e \<Rightarrow> (db, [], Some e) | Inr rows \<Rightarrow> (db, rows, None)) db [] of
        (_, _, Some e) \<Rightarrow> Inl (ErrWrap ''unpaid_watcher'' e)
      | (_, rows, None) \<Rightarrow> Inr rows)"

partial_function (option) pollShard ::
  "(nat \<Rightarrow> 'd orders_env) \<Rightarrow> (nat \<Rightarrow> go_err option \<times> go_err option) \<Rightarrow> int \<Rightarrow> nat \<Rightarrow> orders_db
     \<Rightarrow> (orders_db \<times> go_err option) option" where
  "pollShard env tx dl n db =
     (case list_tx (env n) (tx n) dl db of
        Inl e \<Rightarrow> Some (db, Some e)
      | Inr rows \<Rightarrow>
          (case emit_all env tx dl (n + 1) rows db of
             (n', db1, Some e) \<Rightarrow> Some (db1, Some e)
           | (n', db1, None) \<Rightarrow>
               if int (length rows) < unpaidBatchLimit then Some (db1, None)
               else pollShard env tx dl n' db1))"

section \<open>Transactions of the service\<close>

text \<open>The entry points, each in its own transaction: the create command, the two payment events
  (\<open>internal/transport/payments_consumer.go\<close>) and the watcher's claim of one order.\<close>

datatype order_op = OpCreate create_order | PaymentProcessed string | PaymentFailed string | OpTimeout string int

fun run_op :: "'d orders_env \<Rightarrow> int \<Rightarrow> order_op \<Rightarrow> orders_db \<Rightarrow> orders_db \<times> go_err option" where
  "run_op E dl (OpCreate cmd) db = CreateOrderHandler E cmd db"
| "run_op E dl (PaymentProcessed raw) db = (case ApplyPaymentOutcome E raw StatusPaid db of (db', _, e) \<Rightarrow> (db', e))"
| "run_op E dl (PaymentFailed raw) db = (case ApplyPaymentOutcome E raw StatusPaymentFailed db of (db', _, e) \<Rightarrow> (db', e))"
| "run_op E dl (OpTimeout i t) db = EmitPaymentTimeout E dl i t db"

inductive orders_reach :: "'d itself \<Rightarrow> int \<Rightarrow> orders_db \<Rightarrow> bool" for ty :: "'d itself" and dl where
  empty_db: "orders db = [] \<Longrightarrow> o_outbox db = [] \<Longrightarrow> orders_reach ty dl db"
| op: "orders_reach ty dl db \<Longrightarrow> RunInTx b c (run_op (E :: 'd orders_env) dl op) db = (db', e) \<Longrightarrow> orders_reach ty dl db'"

section \<open>Lemmas\<close>

lemma status_names:
  "StatusCreated = ''created''" "StatusPaid \<noteq> StatusCreated" "StatusPaymentFailed \<noteq> StatusCreated"
  "StatusPaymentTimeout \<noteq> StatusCreated" "StatusPaid \<noteq> StatusPaymentTimeout" "StatusPaymentFailed \<noteq> StatusPaymentTimeout"
  "StatusPaid \<noteq> StatusPaymentFailed" "StatusPaymentTimeout = ''payment_timeout''"
  by (simp_all add: StatusCreated_def StatusPaid_def StatusPaymentFailed_def StatusPaymentTimeout_def)

lemma CanTransition_iff:
  "CanTransition from to \<longleftrightarrow> from = StatusCreated \<and> to \<in> {StatusPaid, StatusPaymentFailed, StatusPaymentTimeout}"
  by (auto simp: CanTransition_def transitions_def split: option.splits if_splits)

lemma event_types:
  "OrderCreatedEventType = ''orders.OrderCreated.v1''"
  "OrderPaymentTimedOutEventType = ''orders.OrderPaymentTimedOut.v1''"
  by code_simp+

lemma event_types_differ: "OrderCreatedEventType \<noteq> OrderPaymentTimedOutEventType"
  by (simp add: event_types)

lemma Stamp_fields [simp]:
  "EventType (StampChainHeaders rj ctx m) = EventType m" "AggregateID (StampChainHeaders rj ctx m) = AggregateID m"
  "Payload (StampChainHeaders rj ctx m) = Payload m"
  by (auto simp: StampChainHeaders_def Let_def split: json_headers.splits)

lemma svc_enqueue_ok:
  assumes "svc_enqueue E i et ev db = (db', None)"
  shows "\<exists>row. db' = db\<lparr>o_outbox := o_outbox db @ [row]\<rparr> \<and> EventType (r_msg row) = et \<and> AggregateID (r_msg row) = i
    \<and> marshal E ev = Inr (Payload (r_msg row)) \<and> published_at row = None"
proof -
  obtain payload ob where m: "marshal E ev = Inr payload"
    and q: "Enqueue (roles_json E) (svc_ctx E) (enqueue_err E) (db_now E)
       \<lparr>ID = new_uuid E, mTopic = EventsTopic, AggregateType = ''order'', AggregateID = i,
        EventType = et, Payload = payload, mHeaders = NoHeaders, CreatedAt = 0\<rparr> (o_outbox db) = (ob, None)"
    and db': "db' = db\<lparr>o_outbox := ob\<rparr>"
    using assms by (auto simp: svc_enqueue_def split: sum.splits prod.splits option.splits)
  show ?thesis using Enqueue_ok [OF q] m db' by auto
qed

lemma update_where_none: "update_where P f rs = (rs', 0) \<Longrightarrow> rs' = rs"
  by (auto simp: update_where_def filter_empty_conv map_idI)

text \<open>What a committed operation did.\<close>

inductive op_effect :: "orders_db \<Rightarrow> orders_db \<Rightarrow> bool" where
  none: "op_effect db db"
| created: "orders db' = orders db @ [r] \<Longrightarrow> o_id r \<notin> o_id ` set (orders db) \<Longrightarrow> o_status r = StatusCreated \<Longrightarrow>
     \<not> timeout_emitted r \<Longrightarrow> o_outbox db' = o_outbox db @ [row] \<Longrightarrow> EventType (r_msg row) = OrderCreatedEventType \<Longrightarrow>
     op_effect db db'"
| outcome: "st \<in> {StatusPaid, StatusPaymentFailed} \<Longrightarrow> o_outbox db' = o_outbox db \<Longrightarrow>
     orders db' = map (\<lambda>r. if o_id r = i \<and> o_status r = StatusCreated then r\<lparr>o_status := st\<rparr> else r) (orders db) \<Longrightarrow>
     op_effect db db'"
| timed_out: "r0 \<in> set (orders db) \<Longrightarrow> o_id r0 = i \<Longrightarrow> \<not> timeout_emitted r0 \<Longrightarrow> o_status r0 = StatusCreated \<Longrightarrow>
     orders db' = map (\<lambda>r. if o_id r = i \<and> \<not> timeout_emitted r \<and> o_status r = StatusCreated
                        then r\<lparr>timeout_emitted := True, o_status := StatusPaymentTimeout\<rparr> else r) (orders db) \<Longrightarrow>
     o_outbox db' = o_outbox db @ [row] \<Longrightarrow> EventType (r_msg row) = OrderPaymentTimedOutEventType \<Longrightarrow>
     AggregateID (r_msg row) = i \<Longrightarrow> op_effect db db'"

lemma create_effect:
  assumes "CreateOrderHandler E cmd db = (db', None)"
  shows "op_effect db db'"
proof -
  obtain amt where "svc_Create E \<lparr>no_id = co_id cmd, no_customer = co_customer cmd, no_amount = amt\<rparr> db = (db', None)"
    using assms by (auto simp: CreateOrderHandler_def split: sum.splits)
  then obtain i db1 minor where ins: "repo_Insert E i (co_customer cmd) amt StatusCreated db = (db1, None)"
    and enq: "svc_enqueue E (co_id cmd) OrderCreatedEventType
        (OrderCreated (co_id cmd) (co_customer cmd) (wrap64 minor) (asset amt)) db1 = (db', None)"
    by (auto simp: svc_Create_def split: sum.splits prod.splits option.splits)
  obtain row where row: "db' = db1\<lparr>o_outbox := o_outbox db1 @ [row]\<rparr>" "EventType (r_msg row) = OrderCreatedEventType"
    using svc_enqueue_ok [OF enq] by blast
  obtain r where r: "db1 = db\<lparr>orders := orders db @ [r]\<rparr>" "o_id r \<notin> o_id ` set (orders db)" "o_status r = StatusCreated"
    "\<not> timeout_emitted r"
    using ins by (auto simp: repo_Insert_def split: option.splits if_splits)
  show ?thesis by (rule op_effect.created [of _ _ r row]) (simp_all add: r row)
qed

lemma outcome_effect:
  assumes "ApplyPaymentOutcome E raw st db = (db', wn, None)" "st \<in> {StatusPaid, StatusPaymentFailed}"
  shows "op_effect db db'"
proof -
  obtain i appl where "MarkPaymentOutcome E i st db = (db', Inr appl)"
    using assms(1) by (auto simp: ApplyPaymentOutcome_def split: sum.splits option.splits prod.splits)
  then have "db' = db\<lparr>orders := map (\<lambda>r. if o_id r = i \<and> o_status r = StatusCreated then r\<lparr>o_status := st\<rparr> else r) (orders db)\<rparr>"
    by (auto simp: MarkPaymentOutcome_def update_where_def status_names split: option.splits)
  then show ?thesis using assms(2) by (intro op_effect.outcome [of st _ _ i]) simp_all
qed

lemma timeout_effect:
  assumes "EmitPaymentTimeout E dl i t db = (db', None)"
  shows "op_effect db db'"
proof -
  let ?P = "\<lambda>r. o_id r = i \<and> \<not> timeout_emitted r \<and> o_status r = StatusCreated"
  let ?f = "\<lambda>r. r\<lparr>timeout_emitted := True, o_status := StatusPaymentTimeout\<rparr>"
  obtain os n where u: "update_where ?P ?f (orders db) = (os, n)" by fastforce
  have mark: "MarkTimeoutEmitted E i db = (db\<lparr>orders := os\<rparr>, Inr (0 < n))"
    using assms u by (auto simp: MarkTimeoutEmitted_def EmitPaymentTimeout_def status_names split: option.splits)
  show ?thesis
  proof (cases "n = 0")
    case True
    then have "db' = db" using assms mark update_where_none [of ?P ?f "orders db" os] u
      by (simp add: EmitPaymentTimeout_def)
    then show ?thesis by (simp add: op_effect.none)
  next
    case False
    then have enq: "svc_enqueue E i OrderPaymentTimedOutEventType (OrderPaymentTimedOut i (t + dl)) (db\<lparr>orders := os\<rparr>) = (db', None)"
      using assms mark by (simp add: EmitPaymentTimeout_def)
    obtain row where row: "db' = db\<lparr>orders := os, o_outbox := o_outbox db @ [row]\<rparr>"
      "EventType (r_msg row) = OrderPaymentTimedOutEventType" "AggregateID (r_msg row) = i"
      using svc_enqueue_ok [OF enq] by auto
    have "filter ?P (orders db) \<noteq> []" using False u by (auto simp: update_where_def)
    then obtain r0 where "r0 \<in> set (orders db)" "?P r0" by (auto simp: filter_empty_conv)
    moreover have "os = map (\<lambda>r. if ?P r then ?f r else r) (orders db)" using u by (simp add: update_where_def)
    ultimately show ?thesis by (intro op_effect.timed_out [of r0 _ i _ row]) (simp_all add: row)
  qed
qed

lemma op_effect_run:
  assumes "RunInTx b c (run_op E dl op) db = (db', e)"
  shows "op_effect db db'"
proof (cases e)
  case (Some x)
  then show ?thesis using assms RunInTx_Some op_effect.none by fastforce
next
  case None
  then have "run_op E dl op db = (db', None)" using assms by (simp add: RunInTx_None)
  then show ?thesis
    by (cases op) (auto split: prod.splits intro: create_effect outcome_effect timeout_effect)
qed

definition timeout_events :: "orders_db \<Rightarrow> string \<Rightarrow> nat" where
  "timeout_events db i = length (filter (\<lambda>row. EventType (r_msg row) = OrderPaymentTimedOutEventType
     \<and> AggregateID (r_msg row) = i) (o_outbox db))"

definition created_events :: "orders_db \<Rightarrow> nat" where
  "created_events db = length (filter (\<lambda>row. EventType (r_msg row) = OrderCreatedEventType) (o_outbox db))"

definition orders_inv :: "orders_db \<Rightarrow> bool" where
  "orders_inv db \<longleftrightarrow>
     distinct (map o_id (orders db))
     \<and> (\<forall>r \<in> set (orders db). o_status r \<in> {StatusCreated, StatusPaid, StatusPaymentFailed, StatusPaymentTimeout}
           \<and> (timeout_emitted r \<longleftrightarrow> o_status r = StatusPaymentTimeout))
     \<and> (\<forall>i. timeout_events db i = (if \<exists>r \<in> set (orders db). o_id r = i \<and> timeout_emitted r then 1 else 0))
     \<and> created_events db = length (orders db)"

lemma map_update_ids: "(\<And>r. o_id (f r) = o_id r) \<Longrightarrow> map o_id (map (\<lambda>r. if P r then f r else r) rs) = map o_id rs"
  by simp

lemma inv_created:
  assumes "orders_inv db" "orders db' = orders db @ [r]" "o_id r \<notin> o_id ` set (orders db)" "o_status r = StatusCreated"
    "\<not> timeout_emitted r" "o_outbox db' = o_outbox db @ [row]" "EventType (r_msg row) = OrderCreatedEventType"
  shows "orders_inv db'"
  using assms event_types_differ
  by (simp add: orders_inv_def timeout_events_def created_events_def status_names [symmetric] status_names(4) [symmetric])

lemma inv_outcome:
  assumes inv: "orders_inv db" and st: "st \<in> {StatusPaid, StatusPaymentFailed}" and ob: "o_outbox db' = o_outbox db"
    and os: "orders db' = map (\<lambda>r. if o_id r = i \<and> o_status r = StatusCreated then r\<lparr>o_status := st\<rparr> else r) (orders db)"
  shows "orders_inv db'"
proof -
  have ids: "map o_id (orders db') = map o_id (orders db)" unfolding os by (rule map_update_ids) simp
  have rows: "\<forall>r \<in> set (orders db'). o_status r \<in> {StatusCreated, StatusPaid, StatusPaymentFailed, StatusPaymentTimeout}
           \<and> (timeout_emitted r \<longleftrightarrow> o_status r = StatusPaymentTimeout)"
    using inv st status_names(4-6) unfolding orders_inv_def os by auto
  have em: "(\<exists>r \<in> set (orders db'). o_id r = j \<and> timeout_emitted r) \<longleftrightarrow> (\<exists>r \<in> set (orders db). o_id r = j \<and> timeout_emitted r)" for j
    unfolding os set_map bex_simps(7) by (rule bex_cong [OF refl]) simp
  show ?thesis
    using inv rows unfolding orders_inv_def ids em timeout_events_def created_events_def ob
    by (simp add: os del: map_map)
qed

lemma inv_timed_out:
  assumes inv: "orders_inv db" and r0: "r0 \<in> set (orders db)" "o_id r0 = i" "\<not> timeout_emitted r0" "o_status r0 = StatusCreated"
    and os: "orders db' = map (\<lambda>r. if o_id r = i \<and> \<not> timeout_emitted r \<and> o_status r = StatusCreated
               then r\<lparr>timeout_emitted := True, o_status := StatusPaymentTimeout\<rparr> else r) (orders db)"
    and ob: "o_outbox db' = o_outbox db @ [row]" "EventType (r_msg row) = OrderPaymentTimedOutEventType" "AggregateID (r_msg row) = i"
  shows "orders_inv db'"
proof -
  have ids: "map o_id (orders db') = map o_id (orders db)" unfolding os by (rule map_update_ids) simp
  have rows: "\<forall>r \<in> set (orders db'). o_status r \<in> {StatusCreated, StatusPaid, StatusPaymentFailed, StatusPaymentTimeout}
           \<and> (timeout_emitted r \<longleftrightarrow> o_status r = StatusPaymentTimeout)"
    using inv unfolding orders_inv_def os by auto
  have "inj_on o_id (set (orders db))" using inv by (simp add: orders_inv_def distinct_map)
  then have only: "r \<in> set (orders db) \<Longrightarrow> o_id r = i \<Longrightarrow> r = r0" for r using r0 by (auto dest: inj_onD)
  have em: "(\<exists>r \<in> set (orders db'). o_id r = j \<and> timeout_emitted r) \<longleftrightarrow>
      j = i \<or> (\<exists>r \<in> set (orders db). o_id r = j \<and> timeout_emitted r)" for j
  proof
    assume "\<exists>r \<in> set (orders db'). o_id r = j \<and> timeout_emitted r"
    then show "j = i \<or> (\<exists>r \<in> set (orders db). o_id r = j \<and> timeout_emitted r)"
      unfolding os by (auto split: if_splits)
  next
    assume "j = i \<or> (\<exists>r \<in> set (orders db). o_id r = j \<and> timeout_emitted r)"
    then consider "j = i" | r where "r \<in> set (orders db)" "o_id r = j" "timeout_emitted r" by blast
    then show "\<exists>r \<in> set (orders db'). o_id r = j \<and> timeout_emitted r"
    proof cases
      case 1
      then show ?thesis unfolding os using r0 by (intro bexI [of _ "r0\<lparr>timeout_emitted := True, o_status := StatusPaymentTimeout\<rparr>"]) auto
    next
      case 2
      then show ?thesis unfolding os by (intro bexI [of _ r]) auto
    qed
  qed
  have none: "\<not> (\<exists>r \<in> set (orders db). o_id r = i \<and> timeout_emitted r)" using only r0(3) by blast
  have te: "timeout_events db' j = timeout_events db j + (if j = i then 1 else 0)" for j
    using ob by (simp add: timeout_events_def)
  have "timeout_events db' j = (if \<exists>r \<in> set (orders db'). o_id r = j \<and> timeout_emitted r then 1 else 0)" for j
    using inv none unfolding te em orders_inv_def by auto
  moreover have "created_events db' = length (orders db')"
    using inv ob event_types_differ by (simp add: created_events_def orders_inv_def os)
  ultimately show ?thesis using inv ids rows by (simp add: orders_inv_def)
qed

lemma op_effect_inv: "op_effect db db' \<Longrightarrow> orders_inv db \<Longrightarrow> orders_inv db'"
  by (induction rule: op_effect.induct) (auto intro: inv_created inv_outcome inv_timed_out)

section \<open>Properties\<close>


text \<open>C30. Orders follow the state machine and the first outcome wins: a transaction of the service leaves
  every order in place with its customer, amount and creation time, and its status either stays or takes a
  transition of the machine, so a terminal status never changes; a failed transaction changes nothing.\<close>

theorem order_status_machine:
  assumes "RunInTx b c (run_op E dl op) db = (db', e)" "r \<in> set (orders db)"
  shows "(\<exists>r' \<in> set (orders db'). r' = r\<lparr>o_status := o_status r', timeout_emitted := timeout_emitted r'\<rparr>
            \<and> (o_status r' = o_status r \<or> CanTransition (o_status r) (o_status r'))
            \<and> (o_status r \<noteq> StatusCreated \<longrightarrow> r' = r))
    \<and> (e \<noteq> None \<longrightarrow> db' = db)"
proof
  show "e \<noteq> None \<longrightarrow> db' = db" using assms(1) RunInTx_Some by fastforce
  from op_effect_run [OF assms(1)]
  show "\<exists>r' \<in> set (orders db'). r' = r\<lparr>o_status := o_status r', timeout_emitted := timeout_emitted r'\<rparr>
            \<and> (o_status r' = o_status r \<or> CanTransition (o_status r) (o_status r'))
            \<and> (o_status r \<noteq> StatusCreated \<longrightarrow> r' = r)"
  proof cases
    case none
    then show ?thesis using assms(2) by (intro bexI [of _ r]) auto
  next
    case created
    then show ?thesis using assms(2) by (intro bexI [of _ r]) auto
  next
    case (outcome st i)
    let ?r = "if o_id r = i \<and> o_status r = StatusCreated then r\<lparr>o_status := st\<rparr> else r"
    have "?r \<in> set (orders db')" unfolding outcome(3) using assms(2) by auto
    moreover have "CanTransition StatusCreated st" using outcome(1) by (auto simp: CanTransition_iff)
    ultimately show ?thesis by (intro bexI [of _ ?r]) auto
  next
    case (timed_out r0 i row)
    let ?P = "o_id r = i \<and> \<not> timeout_emitted r \<and> o_status r = StatusCreated"
    let ?r = "if ?P then r\<lparr>timeout_emitted := True, o_status := StatusPaymentTimeout\<rparr> else r"
    have "?r \<in> set (orders db')" unfolding timed_out(5) using assms(2) by auto
    moreover have "CanTransition StatusCreated StatusPaymentTimeout" by (simp add: CanTransition_iff)
    ultimately show ?thesis by (intro bexI [of _ ?r]) auto
  qed
qed

section \<open>The watcher terminates and drains\<close>

definition open_order :: "order_row \<Rightarrow> bool" where
  "open_order r \<longleftrightarrow> \<not> timeout_emitted r \<and> o_status r = StatusCreated"

definition claim_ids :: "string set \<Rightarrow> order_row \<Rightarrow> order_row" where
  "claim_ids S r = (if o_id r \<in> S \<and> open_order r
     then r\<lparr>timeout_emitted := True, o_status := StatusPaymentTimeout\<rparr> else r)"

lemma svc_enqueue_orders: "svc_enqueue E i et ev db = (db', e) \<Longrightarrow> orders db' = orders db"
  by (auto simp: svc_enqueue_def split: sum.splits prod.splits option.splits)

lemma emit_orders:
  assumes "EmitPaymentTimeout E dl i t db = (db', None)"
  shows "orders db' = map (claim_ids {i}) (orders db)"
proof -
  have "stmt_err E = None"
    using assms by (auto simp: EmitPaymentTimeout_def MarkTimeoutEmitted_def split: option.splits)
  then show ?thesis using assms
    by (auto simp: EmitPaymentTimeout_def MarkTimeoutEmitted_def update_where_def claim_ids_def open_order_def status_names
        dest: svc_enqueue_orders split: if_splits)
qed

lemma claim_ids_Un: "claim_ids S (claim_ids T r) = claim_ids (T \<union> S) r"
  by (auto simp: claim_ids_def open_order_def)

lemma claim_ids_open: "open_order (claim_ids S r) \<longleftrightarrow> open_order r \<and> o_id r \<notin> S"
  by (auto simp: claim_ids_def open_order_def)

lemma claim_ids_id [simp]: "claim_ids {} r = r"
  by (simp add: claim_ids_def)

lemma emit_all_orders:
  "emit_all env tx dl n rows db = (n', db', None) \<Longrightarrow> orders db' = map (claim_ids (fst ` set rows)) (orders db)"
proof (induction env tx dl n rows db rule: emit_all.induct)
  case (1 env tx dl n db)
  then show ?case by (simp add: map_idI)
next
  case (2 env tx dl n i t rows db)
  then obtain db1 where r: "RunInTx (fst (tx n)) (snd (tx n)) (EmitPaymentTimeout (env n) dl i t) db = (db1, None)"
    and rest: "emit_all env tx dl (n + 1) rows db1 = (n', db', None)"
    by (auto split: prod.splits option.splits)
  have "orders db1 = map (claim_ids {i}) (orders db)" using r emit_orders by (auto simp: RunInTx_None)
  then show ?case using 2(1) [OF r [symmetric] refl rest] by (simp add: claim_ids_Un comp_def)
qed

lemma list_tx_rows:
  assumes "list_tx E be dl db = Inr rows"
  shows "rows = map (\<lambda>r. (o_id r, o_created r))
     (take 100 (sort_key o_created (filter (unpaid_expired (db_now E) dl) (orders db))))"
  using assms
  by (auto simp: list_tx_def RunInTx_mem_def svc_ListUnpaidExpired_def repo_ListUnpaidExpired_def unpaidBatchLimit_def
      split: option.splits sum.splits prod.splits)

lemma expired_open: "unpaid_expired t dl r \<Longrightarrow> open_order r"
  by (simp add: unpaid_expired_def open_order_def status_names)

lemma short_batch_complete:
  assumes "list_tx E be dl db = Inr rows" "length rows < 100"
  shows "r \<in> set (orders db) \<Longrightarrow> unpaid_expired (db_now E) dl r \<Longrightarrow> o_id r \<in> fst ` set rows"
proof -
  assume r: "r \<in> set (orders db)" "unpaid_expired (db_now E) dl r"
  let ?l = "sort_key o_created (filter (unpaid_expired (db_now E) dl) (orders db))"
  have "length ?l < 100" using assms list_tx_rows [OF assms(1)] by (simp split: if_splits)
  then have "rows = map (\<lambda>r. (o_id r, o_created r)) ?l" using list_tx_rows [OF assms(1)] by simp
  moreover have "r \<in> set ?l" using r by simp
  ultimately show ?thesis by force
qed

lemma claims_decrease:
  assumes "r \<in> set rs" "open_order r" "o_id r \<in> S"
  shows "length (filter open_order (map (claim_ids S) rs)) < length (filter open_order rs)"
proof -
  have "filter open_order (map (claim_ids S) rs) = map (claim_ids S) (filter (\<lambda>r. open_order r \<and> o_id r \<notin> S) rs)"
    by (simp add: filter_map comp_def claim_ids_open)
  then have "length (filter open_order (map (claim_ids S) rs)) = length (filter (\<lambda>r. o_id r \<notin> S) (filter open_order rs))"
    by (simp add: conj_commute)
  also have "\<dots> < length (filter open_order rs)" using assms by (intro length_filter_less [of r]) auto
  finally show ?thesis .
qed

definition outbox_ids :: "orders_db \<Rightarrow> string set" where
  "outbox_ids db = (\<lambda>row. ID (r_msg row)) ` set (o_outbox db)"

text \<open>No transaction from the \<open>n\<close>-th on fails, and the event ids generated from there on are fresh.\<close>

definition calm_poll :: "(nat \<Rightarrow> 'd orders_env) \<Rightarrow> (nat \<Rightarrow> go_err option \<times> go_err option) \<Rightarrow> nat \<Rightarrow> orders_db \<Rightarrow> bool" where
  "calm_poll env tx n db \<longleftrightarrow>
     (\<forall>k \<ge> n. tx k = (None, None) \<and> stmt_err (env k) = None \<and> enqueue_err (env k) = None
        \<and> (\<forall>ev. \<exists>p. marshal (env k) ev = Inr p) \<and> new_uuid (env k) \<notin> outbox_ids db)
     \<and> inj_on (\<lambda>k. new_uuid (env k)) {n..}"

lemma Enqueue_fresh:
  assumes "\<forall>row \<in> set rows. ID (r_msg row) \<noteq> ID m"
  shows "\<exists>rows'. Enqueue rj ctx None t m rows = (rows', None)"
proof -
  have "\<not> (\<exists>row \<in> set rows. ID (r_msg row) = ID m \<and> CreatedAt (r_msg row) = t)" using assms by blast
  then show ?thesis unfolding Enqueue_def InsertOutbox_def Let_def by auto
qed

lemma svc_enqueue_fresh:
  assumes "enqueue_err E = None" "marshal E ev = Inr p" "new_uuid E \<notin> outbox_ids db"
  shows "\<exists>db'. svc_enqueue E i et ev db = (db', None) \<and> outbox_ids db' = insert (new_uuid E) (outbox_ids db)"
proof -
  let ?m = "\<lparr>ID = new_uuid E, mTopic = EventsTopic, AggregateType = ''order'', AggregateID = i,
        EventType = et, Payload = p, mHeaders = NoHeaders, CreatedAt = 0\<rparr>"
  obtain ob where ob: "Enqueue (roles_json E) (svc_ctx E) None (db_now E) ?m (o_outbox db) = (ob, None)"
    using Enqueue_fresh [of "o_outbox db" ?m] assms(3) by (force simp: outbox_ids_def)
  then have "svc_enqueue E i et ev db = (db\<lparr>o_outbox := ob\<rparr>, None)" using assms by (simp add: svc_enqueue_def)
  then show ?thesis using Enqueue_ok [OF ob] by (simp add: outbox_ids_def)
qed

lemma calm_Suc: "calm_poll env tx n db \<Longrightarrow> calm_poll env tx (Suc n) db"
  by (auto simp: calm_poll_def inj_on_def)

lemma calm_emit:
  assumes calm: "calm_poll env tx n db"
  shows "\<exists>db1. EmitPaymentTimeout (env n) dl i t db = (db1, None) \<and> calm_poll env tx (Suc n) db1"
proof -
  have c: "stmt_err (env n) = None" "enqueue_err (env n) = None" "new_uuid (env n) \<notin> outbox_ids db"
    using calm by (auto simp: calm_poll_def)
  obtain p where p: "marshal (env n) (OrderPaymentTimedOut i (t + dl)) = Inr p"
    using calm unfolding calm_poll_def by blast
  obtain os won where m: "MarkTimeoutEmitted (env n) i db = (db\<lparr>orders := os\<rparr>, Inr won)"
    using c(1) by (simp add: MarkTimeoutEmitted_def update_where_def)
  show ?thesis
  proof (cases won)
    case False
    then show ?thesis using m calm_Suc [OF calm] by (simp add: EmitPaymentTimeout_def calm_poll_def outbox_ids_def)
  next
    case True
    obtain db1 where e: "svc_enqueue (env n) i OrderPaymentTimedOutEventType (OrderPaymentTimedOut i (t + dl)) (db\<lparr>orders := os\<rparr>) = (db1, None)"
      and o1: "outbox_ids db1 = insert (new_uuid (env n)) (outbox_ids db)"
      using svc_enqueue_fresh [OF c(2) p, of "db\<lparr>orders := os\<rparr>" i OrderPaymentTimedOutEventType] c(3) by (auto simp: outbox_ids_def)
    have "calm_poll env tx (Suc n) db1"
      using calm unfolding calm_poll_def o1 inj_on_def by (metis Suc_leD atLeast_iff insertE not_less_eq_eq order_refl)
    then show ?thesis using True m e by (simp add: EmitPaymentTimeout_def)
  qed
qed

lemma calm_emit_all:
  "calm_poll env tx n db \<Longrightarrow> \<exists>n' db'. emit_all env tx dl n rows db = (n', db', None) \<and> calm_poll env tx n' db'"
proof (induction rows arbitrary: n db)
  case Nil
  then show ?case by simp
next
  case (Cons r rows)
  obtain i t where r: "r = (i, t)" by fastforce
  obtain db1 where e: "EmitPaymentTimeout (env n) dl i t db = (db1, None)" and c: "calm_poll env tx (Suc n) db1"
    using calm_emit [OF Cons.prems] by blast
  have "tx n = (None, None)" using Cons.prems by (auto simp: calm_poll_def)
  then have "RunInTx (fst (tx n)) (snd (tx n)) (EmitPaymentTimeout (env n) dl i t) db = (db1, None)"
    using e by (simp add: RunInTx_None)
  then show ?case using Cons.IH [OF c] r by simp
qed

lemma calm_list: "calm_poll env tx n db \<Longrightarrow> \<exists>rows. list_tx (env n) (tx n) dl db = Inr rows"
  by (auto simp: calm_poll_def list_tx_def RunInTx_mem_def svc_ListUnpaidExpired_def repo_ListUnpaidExpired_def)

definition poll_result :: "(nat \<Rightarrow> 'd orders_env) \<Rightarrow> int \<Rightarrow> bool \<Rightarrow> (orders_db \<times> go_err option) option \<Rightarrow> bool" where
  "poll_result env dl quiet res \<longleftrightarrow> (\<exists>db' e. res = Some (db', e) \<and> (quiet \<longrightarrow> e = None)
     \<and> (e = None \<longrightarrow> (\<forall>t. (\<forall>k. t \<le> db_now (env k)) \<longrightarrow> (\<forall>r \<in> set (orders db'). \<not> unpaid_expired t dl r))))"

lemma expired_mono: "unpaid_expired t dl r \<Longrightarrow> t \<le> t' \<Longrightarrow> unpaid_expired t' dl r"
  by (simp add: unpaid_expired_def)

lemma short_batch_drained:
  assumes l: "list_tx (env n) (tx n) dl db = Inr rows" and len: "length rows < 100"
    and e: "orders db1 = map (claim_ids (fst ` set rows)) (orders db)" and r: "r \<in> set (orders db1)"
    and t: "t \<le> db_now (env n)"
  shows "\<not> unpaid_expired t dl r"
proof
  assume x: "unpaid_expired t dl r"
  obtain r0 where r0: "r0 \<in> set (orders db)" "r = claim_ids (fst ` set rows) r0" using r e by auto
  have "open_order r" using x by (rule expired_open)
  then have "o_id r0 \<notin> fst ` set rows" using r0 claim_ids_open by blast
  moreover from this have "r = r0" using r0(2) by (simp add: claim_ids_def)
  ultimately show False using short_batch_complete [OF l len r0(1)] expired_mono [OF x t] by blast
qed

lemma full_batch_decreases:
  assumes l: "list_tx E be dl db = Inr rows" and len: "rows \<noteq> []"
    and e: "orders db1 = map (claim_ids (fst ` set rows)) (orders db)"
  shows "length (filter open_order (orders db1)) < length (filter open_order (orders db))"
proof -
  obtain r where "r \<in> set (take 100 (sort_key o_created (filter (unpaid_expired (db_now E) dl) (orders db))))"
    "o_id r \<in> fst ` set rows"
    using list_tx_rows [OF l] len by (cases rows) force+
  then have "r \<in> set (orders db)" "open_order r" "o_id r \<in> fst ` set rows"
    by (auto dest!: in_set_takeD intro: expired_open)
  then show ?thesis unfolding e by (rule claims_decrease)
qed

lemma pollShard_result: "poll_result env dl (calm_poll env tx n db) (pollShard env tx dl n db)"
proof (induction "length (filter open_order (orders db))" arbitrary: n db rule: less_induct)
  case less
  show ?case
  proof (cases "list_tx (env n) (tx n) dl db")
    case (Inl e)
    then have "\<not> calm_poll env tx n db" using calm_list [where env = env and tx = tx and n = n and db = db and dl = dl] by force
    then show ?thesis using Inl by (subst pollShard.simps) (simp add: poll_result_def)
  next
    case (Inr rows)
    obtain n' db1 e where em: "emit_all env tx dl (n + 1) rows db = (n', db1, e)" by (metis prod_cases3)
    have calm: "calm_poll env tx n db \<Longrightarrow> e = None \<and> calm_poll env tx n' db1"
      using calm_emit_all [of env tx "n + 1" db dl rows] calm_Suc em by fastforce
    show ?thesis
    proof (cases e)
      case (Some x)
      then show ?thesis using Inr em calm by (subst pollShard.simps) (auto simp: poll_result_def)
    next
      case None
      have os: "orders db1 = map (claim_ids (fst ` set rows)) (orders db)" using emit_all_orders em None by blast
      show ?thesis
      proof (cases "length rows < 100")
        case True
        have "pollShard env tx dl n db = Some (db1, None)"
          using Inr em None True by (subst pollShard.simps) (simp add: unpaidBatchLimit_def)
        moreover have "\<not> unpaid_expired t dl r" if "\<forall>k. t \<le> db_now (env k)" "r \<in> set (orders db1)" for t r
          using short_batch_drained [where env = env and tx = tx and n = n, OF Inr True os] that by blast
        ultimately show ?thesis by (simp add: poll_result_def)
      next
        case False
        then have "rows \<noteq> []" by auto
        from less [OF full_batch_decreases [OF Inr this os], of n']
        have "poll_result env dl (calm_poll env tx n db) (pollShard env tx dl n' db1)"
          using calm by (auto simp: poll_result_def)
        moreover have "pollShard env tx dl n db = pollShard env tx dl n' db1"
          using Inr em None False by (subst pollShard.simps) (simp add: unpaidBatchLimit_def)
        ultimately show ?thesis by simp
      qed
    qed
  qed
qed
text \<open>C24. The watcher's loop over a shard ends whatever fails, and drains: it returns after finitely many
  batches for every sequence of transaction outcomes; when it returns nil no order is left that was already
  expired at the earliest time of the poll; and it does return nil when no transaction fails and the
  generated event ids are fresh.\<close>

theorem unpaid_watcher_drains:
  "\<exists>db' e. pollShard env tx dl n db = Some (db', e)
     \<and> (calm_poll env tx n db \<longrightarrow> e = None)
     \<and> (e = None \<longrightarrow> (\<forall>t. (\<forall>k. t \<le> db_now (env k)) \<longrightarrow> (\<forall>r \<in> set (orders db'). \<not> unpaid_expired t dl r)))"
  using pollShard_result [of env dl tx n db] unfolding poll_result_def by blast

definition demo_oenv :: "nat \<Rightarrow> bigdec orders_env" where
  "demo_oenv k = \<lparr>dec_ops = bd_ops, assets = init_registry, app_codes = Map.empty, parse_uuid = Inr,
     marshal = (\<lambda>_. Inr ''payload''), new_uuid = replicate k (CHR ''x''), stmt_err = None, enqueue_err = None, db_now = 100,
     roles_json = (\<lambda>_. ''''), svc_ctx = background\<rparr>"

definition demo_order :: order_row where
  "demo_order = \<lparr>o_id = ''o-1'', customer = ''c'', o_amount = ''19.99'', o_asset = ''USD'', o_status = ''created'', o_created = 5,
     timeout_emitted = False\<rparr>"

lemma demo_calm: "calm_poll demo_oenv (\<lambda>_. (None, None)) 0 \<lparr>orders = [demo_order], o_outbox = []\<rparr>"
  by (auto simp: calm_poll_def demo_oenv_def outbox_ids_def inj_on_def dest: arg_cong [of _ _ length])

theorem unpaid_watcher_drains_witness:
  "\<exists>db'. pollShard demo_oenv (\<lambda>_. (None, None)) 30 0 \<lparr>orders = [demo_order], o_outbox = []\<rparr> = Some (db', None)
     \<and> list_all (\<lambda>r. \<not> unpaid_expired 100 30 r) (orders db')"
proof -
  have "\<forall>k. 100 \<le> db_now (demo_oenv k)" by (simp add: demo_oenv_def)
  then show ?thesis unfolding list_all_iff
    using unpaid_watcher_drains [of demo_oenv "\<lambda>_. (None, None)" 30 0 "\<lparr>orders = [demo_order], o_outbox = []\<rparr>"] demo_calm by blast
qed

definition demo_cmd :: create_order where
  "demo_cmd = \<lparr>co_id = ''o-1'', co_customer = ''c'', co_cents = 1999, co_currency = ''USD''\<rparr>"

lemma demo_create:
  "snd (CreateOrderHandler (demo_oenv 0) demo_cmd \<lparr>orders = [], o_outbox = []\<rparr>) = None"
  "length (o_outbox (fst (CreateOrderHandler (demo_oenv 0) demo_cmd \<lparr>orders = [], o_outbox = []\<rparr>))) = 1"
  by code_simp+

text \<open>What a successful create command appended: the row with the canonical id and the amount, and the
  event with the id as it was given.\<close>

lemma create_appends:
  assumes "CreateOrderHandler E cmd db = (db', None)"
  obtains i amt minor r row where
    "parse_uuid E (co_id cmd) = Inr i" "FromMinor (dec_ops E) (assets E) (Some (co_cents cmd)) (co_currency cmd) = Inr amt"
    "Minor (dec_ops E) (assets E) amt = Inr minor"
    "orders db' = orders db @ [r]" "o_id r = i" "o_amount r = d_to_string (dec_ops E) (amount amt)" "o_asset r = asset amt"
    "o_outbox db' = o_outbox db @ [row]" "AggregateID (r_msg row) = co_id cmd"
    "marshal E (OrderCreated (co_id cmd) (co_customer cmd) (wrap64 minor) (asset amt)) = Inr (Payload (r_msg row))"
    "EventType (r_msg row) = OrderCreatedEventType" "o_status r = StatusCreated" "i \<notin> o_id ` set (orders db)"
proof -
  obtain amt where amt: "FromMinor (dec_ops E) (assets E) (Some (co_cents cmd)) (co_currency cmd) = Inr amt"
    and "svc_Create E \<lparr>no_id = co_id cmd, no_customer = co_customer cmd, no_amount = amt\<rparr> db = (db', None)"
    using assms by (auto simp: CreateOrderHandler_def split: sum.splits)
  then obtain i db1 minor where i: "parse_uuid E (co_id cmd) = Inr i" "Minor (dec_ops E) (assets E) amt = Inr minor"
    and ins: "repo_Insert E i (co_customer cmd) amt StatusCreated db = (db1, None)"
    and enq: "svc_enqueue E (co_id cmd) OrderCreatedEventType
        (OrderCreated (co_id cmd) (co_customer cmd) (wrap64 minor) (asset amt)) db1 = (db', None)"
    by (auto simp: svc_Create_def split: sum.splits prod.splits option.splits)
  obtain row where row: "db' = db1\<lparr>o_outbox := o_outbox db1 @ [row]\<rparr>" "AggregateID (r_msg row) = co_id cmd"
    "marshal E (OrderCreated (co_id cmd) (co_customer cmd) (wrap64 minor) (asset amt)) = Inr (Payload (r_msg row))"
    "EventType (r_msg row) = OrderCreatedEventType"
    using svc_enqueue_ok [OF enq] by blast
  obtain r where r: "db1 = db\<lparr>orders := orders db @ [r]\<rparr>" "o_id r = i" "o_amount r = d_to_string (dec_ops E) (amount amt)"
    "o_asset r = asset amt" "o_status r = StatusCreated" "i \<notin> o_id ` set (orders db)"
    using ins by (auto simp: repo_Insert_def split: option.splits if_splits)
  show thesis by (rule that [OF i(1) amt i(2), of r row]) (simp_all add: r row)
qed

lemma order_amount:
  assumes "decimal_lib (dec_ops E) dval" "assets E (co_currency cmd) = Some a"
    and "- (2 ^ 63) \<le> co_cents cmd" "co_cents cmd < 2 ^ 63"
    and "CreateOrderHandler E cmd db = (db', None)"
  shows "dec_text (o_amount (last (orders db'))) (of_int (co_cents cmd) * 10 powi (- Exponent a))
    \<and> o_asset (last (orders db')) = co_currency cmd
    \<and> marshal E (OrderCreated (co_id cmd) (co_customer cmd) (co_cents cmd) (co_currency cmd))
        = Inr (Payload (r_msg (last (o_outbox db'))))"
proof -
  obtain i amt minor r row where
    c: "FromMinor (dec_ops E) (assets E) (Some (co_cents cmd)) (co_currency cmd) = Inr amt"
    "Minor (dec_ops E) (assets E) amt = Inr minor" "orders db' = orders db @ [r]"
    "o_amount r = d_to_string (dec_ops E) (amount amt)" "o_asset r = asset amt" "o_outbox db' = o_outbox db @ [row]"
    "marshal E (OrderCreated (co_id cmd) (co_customer cmd) (wrap64 minor) (asset amt)) = Inr (Payload (r_msg row))"
    by (rule create_appends [OF assms(5)]) metis
  have amt: "amt = mk_money (d_from_big_int (dec_ops E) (co_cents cmd) (- Exponent a)) (co_currency cmd)"
    using c(1) assms(2) by (simp add: FromMinor_def Lookup_def)
  have val: "dval (amount amt) = of_int (co_cents cmd) * 10 powi (- Exponent a)"
    using decimal_lib.from_big_int [OF assms(1)] by (simp add: amt)
  have "Minor (dec_ops E) (assets E) amt = Inr (co_cents cmd)"
    using decimal_lib.minor_value [where reg = "assets E" and m = amt and a = a, OF assms(1)] assms(2) val
    by (simp add: amt mult.assoc)
  then have "minor = co_cents cmd" using c(2) by simp
  then show ?thesis
    using c assms(3,4) decimal_lib.to_string [OF assms(1), of "amount amt"] unfolding val by (simp add: amt)
qed

text \<open>Amounts survive the create command exactly: for a command whose cents fit the 64-bit field, in a
  registered currency, the stored text denotes the cents divided by the currency's unit, and the emitted
  event carries the same cents and currency.\<close>

theorem order_amount_exact:
  assumes "decimal_lib (dec_ops E) dval" "assets E (co_currency cmd) = Some a"
    and "- (2 ^ 63) \<le> co_cents cmd" "co_cents cmd < 2 ^ 63"
    and "CreateOrderHandler E cmd db = (db', None)"
  shows "dec_text (o_amount (last (orders db'))) (of_int (co_cents cmd) * 10 powi (- Exponent a))
    \<and> o_asset (last (orders db')) = co_currency cmd
    \<and> marshal E (OrderCreated (co_id cmd) (co_customer cmd) (co_cents cmd) (co_currency cmd))
        = Inr (Payload (r_msg (last (o_outbox db'))))"
  using assms by (rule order_amount)

theorem order_amount_exact_witness:
  "\<exists>db'. CreateOrderHandler (demo_oenv 0) demo_cmd \<lparr>orders = [], o_outbox = []\<rparr> = (db', None)
     \<and> dec_text (o_amount (last (orders db'))) (of_int 1999 * 10 powi (- 2))"
proof -
  let ?db = "\<lparr>orders = [], o_outbox = []\<rparr>"
  let ?r = "CreateOrderHandler (demo_oenv 0) demo_cmd ?db"
  have r: "?r = (fst ?r, None)" using demo_create by (metis prod.collapse)
  have u: "assets (demo_oenv 0) (co_currency demo_cmd) = Some \<lparr>ACode = ''USD'', Exponent = 2, Kind = Fiat\<rparr>"
    by (simp add: demo_oenv_def demo_cmd_def init_registry_USD)
  have l: "decimal_lib (dec_ops (demo_oenv 0)) bd_val" using bd.decimal_lib_axioms by (simp add: demo_oenv_def)
  have "dec_text (o_amount (last (orders (fst ?r)))) (of_int (co_cents demo_cmd) * 10 powi (- 2))"
    using order_amount_exact [OF l u _ _ r] by (simp add: demo_cmd_def)
  then show ?thesis using r by (auto simp: demo_cmd_def)
qed

text \<open>A create command whose id is accepted by the UUID parser but is not written canonically (upper case,
  a URN prefix, braces) splits the order: the row carries the canonical id \<open>i\<close> and the watcher's timeout
  event is keyed by it, but the created event is keyed by the text of the command, so the two events of one
  order need not share a partition.\<close>

theorem raw_id_splits_order:
  assumes "CreateOrderHandler E cmd db = (db1, None)" "parse_uuid E (co_id cmd) = Inr i"
    and "EmitPaymentTimeout E' dl i t db1 = (db2, None)" "o_outbox db2 \<noteq> o_outbox db1"
  shows "o_id (last (orders db1)) = i \<and> AggregateID (r_msg (last (o_outbox db1))) = co_id cmd
    \<and> (\<exists>row. o_outbox db2 = o_outbox db1 @ [row] \<and> AggregateID (r_msg row) = i)"
proof -
  obtain r row where
    c: "orders db1 = orders db @ [r]" "o_id r = i" "o_outbox db1 = o_outbox db @ [row]" "AggregateID (r_msg row) = co_id cmd"
    by (rule create_appends [OF assms(1)]) (metis assms(2) Inr_inject)
  obtain os won where m: "MarkTimeoutEmitted E' i db1 = (db1\<lparr>orders := os\<rparr>, Inr won)"
    using assms(3) by (auto simp: EmitPaymentTimeout_def MarkTimeoutEmitted_def update_where_def split: option.splits)
  have "svc_enqueue E' i OrderPaymentTimedOutEventType (OrderPaymentTimedOut i (t + dl)) (db1\<lparr>orders := os\<rparr>) = (db2, None)"
    using assms(3,4) m by (auto simp: EmitPaymentTimeout_def split: if_splits)
  from svc_enqueue_ok [OF this] have "\<exists>row. o_outbox db2 = o_outbox db1 @ [row] \<and> AggregateID (r_msg row) = i" by auto
  then show ?thesis using c by simp
qed

definition demo_split_env :: "nat \<Rightarrow> bigdec orders_env" where
  "demo_split_env k = (demo_oenv k)\<lparr>parse_uuid := (\<lambda>s. if s = ''O-1'' then Inr ''o-1'' else Inr s)\<rparr>"

theorem raw_id_splits_order_witness:
  "let db1 = fst (CreateOrderHandler (demo_split_env 0) (demo_cmd\<lparr>co_id := ''O-1''\<rparr>) \<lparr>orders = [], o_outbox = []\<rparr>);
       db2 = fst (EmitPaymentTimeout (demo_split_env 1) 30 ''o-1'' 100 db1)
   in AggregateID (r_msg (last (o_outbox db1))) = ''O-1'' \<and> (\<exists>row. o_outbox db2 = o_outbox db1 @ [row] \<and> AggregateID (r_msg row) = ''o-1'')"
proof -
  let ?c = "CreateOrderHandler (demo_split_env 0) (demo_cmd\<lparr>co_id := ''O-1''\<rparr>) \<lparr>orders = [], o_outbox = []\<rparr>"
  let ?e = "EmitPaymentTimeout (demo_split_env 1) 30 ''o-1'' 100 (fst ?c)"
  have ok: "snd ?c = None" "snd ?e = None" "length (o_outbox (fst ?c)) = 1" "length (o_outbox (fst ?e)) = 2" by code_simp+
  have c: "?c = (fst ?c, None)" using ok(1) by (metis prod.collapse)
  have e: "?e = (fst ?e, None)" using ok(2) by (metis prod.collapse)
  have "o_outbox (fst ?e) \<noteq> o_outbox (fst ?c)" using ok(3,4) by auto
  then show ?thesis using raw_id_splits_order [OF c _ e] by (simp add: demo_split_env_def demo_cmd_def)
qed


theorem order_status_machine_witness:
  "\<exists>r' \<in> set (orders (fst (RunInTx None None (run_op (demo_oenv 0) 30 (PaymentProcessed ''o-1'')) \<lparr>orders = [demo_order], o_outbox = []\<rparr>))).
     o_id r' = ''o-1'' \<and> o_amount r' = ''19.99'' \<and> (o_status r' = ''created'' \<or> CanTransition ''created'' (o_status r'))"
proof -
  let ?t = "RunInTx None None (run_op (demo_oenv 0) 30 (PaymentProcessed ''o-1'')) \<lparr>orders = [demo_order], o_outbox = []\<rparr>"
  have t: "?t = (fst ?t, snd ?t)" by simp
  obtain r' where r': "r' \<in> set (orders (fst ?t))" "r' = demo_order\<lparr>o_status := o_status r', timeout_emitted := timeout_emitted r'\<rparr>"
    "o_status r' = o_status demo_order \<or> CanTransition (o_status demo_order) (o_status r')"
    using order_status_machine [OF t, of demo_order] by auto
  have "o_id r' = ''o-1''" "o_amount r' = ''19.99''" by (subst r'(2), simp add: demo_order_def)+
  then show ?thesis using r' by (intro bexI [of _ r']) (simp_all add: demo_order_def)
qed

end
