(* ===== verification/Payments.thy ===== *)
theory Payments
  imports Orders
begin

text \<open>
  \<open>examples/payments\<close>: the decline rule, the domain service and the Postgres repository
  (\<open>internal/domain/payment\<close>), the command handler (\<open>internal/app/process_payment.go\<close>) and the
  \<open>OrderCreated\<close> consumer of \<open>internal/transport/consumer.go\<close>.
\<close>

section \<open>service.go and pg.go\<close>

definition StatusProcessed :: string where "StatusProcessed = ''processed''"
definition StatusFailed :: string where "StatusFailed = ''failed''"
definition DeclineThresholdMinor :: int where "DeclineThresholdMinor = 1000000"
definition PaymentProcessedEventType :: string where
  "PaymentProcessedEventType = EventTypeFor ''orders.v1.PaymentProcessed'' 1"
definition PaymentFailedEventType :: string where
  "PaymentFailedEventType = EventTypeFor ''orders.v1.PaymentFailed'' 1"

record payment_row =
  p_id :: string
  p_order :: string
  p_amount :: string
  p_asset :: string
  p_status :: string
  p_created :: int

record payments_db =
  payments :: "payment_row list"
  p_outbox :: outbox_table

datatype payment_event =
    EvProcessed string string string
  | EvFailed string string int

record 'd payments_env =
  pe_dec :: "'d decimal_ops"
  pe_assets :: registry
  pe_marshal :: "payment_event \<Rightarrow> (go_err, string) result"
  pe_payment_id :: string
  pe_event_id :: string
  pe_stmt_err :: "go_err option"
  pe_enqueue_err :: "go_err option"
  pe_db_now :: int
  pe_clk :: int
  outTopic :: string
  pe_roles_json :: "string list \<Rightarrow> string"
  pe_ctx :: go_ctx

definition pay_Insert ::
  "'d payments_env \<Rightarrow> string \<Rightarrow> string \<Rightarrow> 'd money \<Rightarrow> string \<Rightarrow> payments_db \<Rightarrow> payments_db \<times> go_err option" where
  "pay_Insert E i orderID amt st db =
     (case pe_stmt_err E of
        Some e \<Rightarrow> (db, Some e)
      | None \<Rightarrow>
          if i \<in> p_id ` set (payments db) then (db, Some (ErrText ''duplicate key value violates unique constraint''))
          else (db\<lparr>payments := payments db @ [\<lparr>p_id = i, p_order = orderID, p_amount = d_to_string (pe_dec E) (amount amt),
                  p_asset = asset amt, p_status = st, p_created = pe_db_now E\<rparr>]\<rparr>, None))"

definition GetByOrder ::
  "'d payments_env \<Rightarrow> (string \<Rightarrow> (string, 'd) result) \<Rightarrow> string \<Rightarrow> payments_db \<Rightarrow> (go_err, payment_row \<times> 'd money) result" where
  "GetByOrder E numeric orderID db =
     (case pe_stmt_err E of
        Some e \<Rightarrow> Inl (ErrWrap (''payment: get by order '' @ orderID) e)
      | None \<Rightarrow>
          (case find (\<lambda>r. p_order r = orderID) (payments db) of
             None \<Rightarrow> Inl (ErrWrap (''payment: get by order '' @ orderID) (ErrText ''no rows in result set''))
           | Some r \<Rightarrow>
               (case ScanRow (pe_dec E) (pe_assets E) numeric (p_amount r) (p_asset r) of
                  Inl e \<Rightarrow> Inl (ErrWrap (''payment: get by order '' @ orderID) (ErrText (error_Error e)))
                | Inr m \<Rightarrow> Inr (r, m))))"

definition isDeclined :: "'d payments_env \<Rightarrow> 'd money \<Rightarrow> (go_err, bool) result" where
  "isDeclined E amt =
     (case FromMinor (pe_dec E) (pe_assets E) (Some DeclineThresholdMinor) (asset amt) of
        Inl e \<Rightarrow> Inl (ErrWrap (''threshold for '' @ asset amt) (ErrText (error_Error e)))
      | Inr threshold \<Rightarrow> map_sum (\<lambda>e. ErrText (error_Error e)) id (GreaterThanOrEqual (pe_dec E) amt threshold))"

definition outcome :: "'d payments_env \<Rightarrow> string \<Rightarrow> string \<Rightarrow> bool \<Rightarrow> string \<times> string \<times> payment_event" where
  "outcome E orderID paymentID declined =
     (if declined then (StatusFailed, PaymentFailedEventType, EvFailed orderID ''declined'' (pe_clk E))
      else (StatusProcessed, PaymentProcessedEventType, EvProcessed orderID paymentID StatusProcessed))"

definition Process :: "'d payments_env \<Rightarrow> string \<Rightarrow> 'd money \<Rightarrow> payments_db \<Rightarrow> payments_db \<times> (go_err, string \<times> string) result" where
  "Process E orderID amt db =
     (case isDeclined E amt of
        Inl e \<Rightarrow> (db, Inl (ErrWrap (''payment: decide '' @ orderID) e))
      | Inr declined \<Rightarrow>
          (case outcome E orderID (pe_payment_id E) declined of (st, eventType, ev) \<Rightarrow>
             (case pay_Insert E (pe_payment_id E) orderID amt st db of
                (db1, Some e) \<Rightarrow> (db1, Inl (ErrWrap ''payment: insert'' e))
              | (db1, None) \<Rightarrow>
                  (case pe_marshal E ev of
                     Inl e \<Rightarrow> (db1, Inl (ErrWrap (''payment: marshal '' @ eventType) e))
                   | Inr payload \<Rightarrow>
                       (case Enqueue (pe_roles_json E) (pe_ctx E) (pe_enqueue_err E) (pe_db_now E)
                               \<lparr>ID = pe_event_id E, mTopic = outTopic E, AggregateType = ''payment'', AggregateID = orderID,
                                EventType = eventType, Payload = payload, mHeaders = NoHeaders, CreatedAt = 0\<rparr> (p_outbox db1) of
                          (ob, Some e) \<Rightarrow> (db1\<lparr>p_outbox := ob\<rparr>, Inl (ErrWrap (''payment: enqueue '' @ eventType) e))
                        | (ob, None) \<Rightarrow> (db1\<lparr>p_outbox := ob\<rparr>, Inr (pe_payment_id E, st)))))))"

section \<open>process_payment.go\<close>

record process_payment =
  pp_order :: string
  pp_cents :: int
  pp_currency :: string

definition ProcessPaymentHandler ::
  "'d payments_env \<Rightarrow> process_payment \<Rightarrow> payments_db \<Rightarrow> payments_db \<times> (go_err, string \<times> string) result" where
  "ProcessPaymentHandler E cmd db =
     (case FromMinor (pe_dec E) (pe_assets E) (Some (pp_cents cmd)) (pp_currency cmd) of
        Inl e \<Rightarrow> (db, Inl (ErrWrap (''process payment: amount '' @ itoa (pp_cents cmd) @ '' '' @ pp_currency cmd)
                              (ErrText (error_Error e))))
      | Inr amt \<Rightarrow> Process E (pp_order cmd) amt db)"

section \<open>The consumer\<close>

text \<open>\<open>NewEventHandler\<close> maps an \<open>OrderCreated\<close> event to the command; the inbox runs it in the message's
  transaction.\<close>

fun pay_on_event :: "'d payments_env \<Rightarrow> order_event \<Rightarrow> payments_db \<Rightarrow> payments_db \<times> go_err option" where
  "pay_on_event E (OrderCreated i cust cents cur) db =
     (case ProcessPaymentHandler E \<lparr>pp_order = i, pp_cents = cents, pp_currency = cur\<rparr> db of
        (db', Inl e) \<Rightarrow> (db', Some e) | (db', Inr _) \<Rightarrow> (db', None))"
| "pay_on_event E (OrderPaymentTimedOut _ _) db = (db, None)"

section \<open>Lemmas\<close>

context decimal_lib
begin

lemma declined_iff:
  assumes "pe_dec E = D" "pe_assets E cur = Some a" "cur \<noteq> []"
    and "FromMinor D (pe_assets E) (Some cents) cur = Inr amt"
  shows "isDeclined E amt = Inr (DeclineThresholdMinor \<le> cents)"
proof -
  let ?m = "\<lambda>j. mk_money (d_from_big_int D j (- Exponent a)) cur"
  have fm: "FromMinor D (pe_assets E) (Some j) cur = Inr (?m j)" for j
    using assms(2) by (simp add: FromMinor_def Lookup_def)
  have amt: "amt = ?m cents" using assms(4) fm by simp
  have "dval (d_from_big_int D DeclineThresholdMinor (- Exponent a)) \<le> dval (d_from_big_int D cents (- Exponent a))
      \<longleftrightarrow> DeclineThresholdMinor \<le> cents"
    by (simp add: from_big_int)
  moreover have "money_Cmp D (?m cents) (?m DeclineThresholdMinor)
      = Inr (d_cmp D (d_from_big_int D cents (- Exponent a)) (d_from_big_int D DeclineThresholdMinor (- Exponent a)))"
    using assms(3) by (subst money_Cmp_Inr) simp
  ultimately show ?thesis
    unfolding isDeclined_def amt by (auto simp: assms(1) fm GreaterThanOrEqual_def cmp)
qed

end

lemma Process_appends:
  assumes "Process E orderID amt db = (db', Inr (pid, st))"
  obtains declined et ev row r where
    "isDeclined E amt = Inr declined" "outcome E orderID pid declined = (st, et, ev)"
    "db' = \<lparr>payments = payments db @ [r], p_outbox = p_outbox db @ [row]\<rparr>"
    "p_id r = pid" "pid \<notin> p_id ` set (payments db)" "p_order r = orderID" "p_status r = st"
    "p_amount r = d_to_string (pe_dec E) (amount amt)" "p_asset r = asset amt"
    "EventType (r_msg row) = et" "AggregateID (r_msg row) = orderID" "pe_marshal E ev = Inr (Payload (r_msg row))"
    "ID (r_msg row) = pe_event_id E"
proof -
  obtain declined where d: "isDeclined E amt = Inr declined" using assms by (cases "isDeclined E amt") (auto simp: Process_def)
  obtain st' et ev where o: "outcome E orderID (pe_payment_id E) declined = (st', et, ev)" using prod_cases3 by blast
  obtain db1 where ins: "pay_Insert E (pe_payment_id E) orderID amt st' db = (db1, None)"
    using assms by (cases "pay_Insert E (pe_payment_id E) orderID amt st' db"; cases "snd (pay_Insert E (pe_payment_id E) orderID amt st' db)")
      (simp_all add: Process_def d o)
  obtain payload where m: "pe_marshal E ev = Inr payload"
    using assms by (cases "pe_marshal E ev") (simp_all add: Process_def d o ins)
  let ?m = "\<lparr>ID = pe_event_id E, mTopic = outTopic E, AggregateType = ''payment'', AggregateID = orderID,
        EventType = et, Payload = payload, mHeaders = NoHeaders, CreatedAt = 0\<rparr>"
  let ?q = "Enqueue (pe_roles_json E) (pe_ctx E) (pe_enqueue_err E) (pe_db_now E) ?m (p_outbox db1)"
  obtain ob where enq: "?q = (ob, None)" and db': "db' = db1\<lparr>p_outbox := ob\<rparr>" and pid: "pid = pe_payment_id E" and st: "st = st'"
    using assms by (cases ?q; cases "snd ?q") (simp_all add: Process_def d o ins m)
  obtain r where r: "db1 = db\<lparr>payments := payments db @ [r]\<rparr>" "p_id r = pid" "pid \<notin> p_id ` set (payments db)"
    "p_order r = orderID" "p_status r = st" "p_amount r = d_to_string (pe_dec E) (amount amt)" "p_asset r = asset amt"
    using ins by (auto simp: pay_Insert_def pid st split: option.splits if_splits)
  show thesis
    by (rule that [OF d, of et ev r "last ob"]) (simp_all add: o [folded pid st] r db' Enqueue_ok [OF enq] m)
qed

lemma payment_decided:
  assumes "decimal_lib (pe_dec E) dval" "pe_assets E (pp_currency cmd) = Some a" "pp_currency cmd \<noteq> []"
    and "ProcessPaymentHandler E cmd db = (db', Inr (pid, st))"
  shows "st = (if DeclineThresholdMinor \<le> pp_cents cmd then StatusFailed else StatusProcessed)
    \<and> (\<exists>r row. payments db' = payments db @ [r] \<and> p_id r = pid \<and> pid \<notin> p_id ` set (payments db)
         \<and> p_order r = pp_order cmd \<and> p_status r = st \<and> p_asset r = pp_currency cmd
         \<and> dec_text (p_amount r) (of_int (pp_cents cmd) * 10 powi (- Exponent a))
         \<and> p_outbox db' = p_outbox db @ [row] \<and> AggregateID (r_msg row) = pp_order cmd
         \<and> (if st = StatusFailed
             then EventType (r_msg row) = PaymentFailedEventType
               \<and> pe_marshal E (EvFailed (pp_order cmd) ''declined'' (pe_clk E)) = Inr (Payload (r_msg row))
             else EventType (r_msg row) = PaymentProcessedEventType
               \<and> pe_marshal E (EvProcessed (pp_order cmd) pid StatusProcessed) = Inr (Payload (r_msg row))))"
proof -
  obtain amt where amt: "FromMinor (pe_dec E) (pe_assets E) (Some (pp_cents cmd)) (pp_currency cmd) = Inr amt"
    and pr: "Process E (pp_order cmd) amt db = (db', Inr (pid, st))"
    using assms(4) by (auto simp: ProcessPaymentHandler_def split: sum.splits)
  have amt_eq: "amt = mk_money (d_from_big_int (pe_dec E) (pp_cents cmd) (- Exponent a)) (pp_currency cmd)"
    using amt assms(2) by (simp add: FromMinor_def Lookup_def)
  have "dval (amount amt) = of_int (pp_cents cmd) * 10 powi (- Exponent a)"
    using decimal_lib.from_big_int [OF assms(1)] by (simp add: amt_eq)
  with decimal_lib.to_string [OF assms(1), of "amount amt"]
  have text_ok: "dec_text (d_to_string (pe_dec E) (amount amt)) (of_int (pp_cents cmd) * 10 powi (- Exponent a))" by simp
  have dec: "isDeclined E amt = Inr (DeclineThresholdMinor \<le> pp_cents cmd)"
    by (rule decimal_lib.declined_iff [OF assms(1) refl assms(2,3) amt])
  obtain et ev r row where oc: "outcome E (pp_order cmd) pid (DeclineThresholdMinor \<le> pp_cents cmd) = (st, et, ev)"
    and rest: "payments db' = payments db @ [r]" "p_outbox db' = p_outbox db @ [row]" "p_id r = pid"
      "pid \<notin> p_id ` set (payments db)" "p_order r = pp_order cmd" "p_status r = st" "p_asset r = asset amt"
      "p_amount r = d_to_string (pe_dec E) (amount amt)"
      "EventType (r_msg row) = et" "AggregateID (r_msg row) = pp_order cmd" "pe_marshal E ev = Inr (Payload (r_msg row))"
    by (rule Process_appends [OF pr]) (metis dec Inr_inject payments_db.select_convs)
  have "StatusProcessed \<noteq> StatusFailed" by (simp add: StatusProcessed_def StatusFailed_def)
  then have "st = (if DeclineThresholdMinor \<le> pp_cents cmd then StatusFailed else StatusProcessed)
    \<and> (if st = StatusFailed then et = PaymentFailedEventType \<and> ev = EvFailed (pp_order cmd) ''declined'' (pe_clk E)
       else et = PaymentProcessedEventType \<and> ev = EvProcessed (pp_order cmd) pid StatusProcessed)"
    using oc by (auto simp: outcome_def split: if_splits)
  then show ?thesis using rest text_ok by (intro conjI exI [of _ r] exI [of _ row]) (auto simp: amt_eq split: if_splits)
qed

section \<open>Properties\<close>

text \<open>C31. Deciding a payment: for a registered currency a processed command has the status failed exactly
  when the cents reach the threshold and processed otherwise; it appended one payment row, with a new id,
  the order's id, that status and the exact amount, and one event for the same order whose type and content
  agree with the status.\<close>

theorem payment_decision:
  assumes "decimal_lib (pe_dec E) dval" "pe_assets E (pp_currency cmd) = Some a" "pp_currency cmd \<noteq> []"
    and "ProcessPaymentHandler E cmd db = (db', Inr (pid, st))"
  shows "st = (if DeclineThresholdMinor \<le> pp_cents cmd then StatusFailed else StatusProcessed)
    \<and> (\<exists>r row. payments db' = payments db @ [r] \<and> p_id r = pid \<and> pid \<notin> p_id ` set (payments db)
         \<and> p_order r = pp_order cmd \<and> p_status r = st \<and> p_asset r = pp_currency cmd
         \<and> dec_text (p_amount r) (of_int (pp_cents cmd) * 10 powi (- Exponent a))
         \<and> p_outbox db' = p_outbox db @ [row] \<and> AggregateID (r_msg row) = pp_order cmd
         \<and> (if st = StatusFailed
             then EventType (r_msg row) = PaymentFailedEventType
               \<and> pe_marshal E (EvFailed (pp_order cmd) ''declined'' (pe_clk E)) = Inr (Payload (r_msg row))
             else EventType (r_msg row) = PaymentProcessedEventType
               \<and> pe_marshal E (EvProcessed (pp_order cmd) pid StatusProcessed) = Inr (Payload (r_msg row))))"
  using assms by (rule payment_decided)

definition demo_penv :: "bigdec payments_env" where
  "demo_penv = \<lparr>pe_dec = bd_ops, pe_assets = init_registry,
     pe_marshal = (\<lambda>ev. case ev of EvProcessed i p s \<Rightarrow> Inr (''P'' @ i) | EvFailed i rs t \<Rightarrow> Inr (''F'' @ i)),
     pe_payment_id = ''p-1'', pe_event_id = ''e-1'', pe_stmt_err = None, pe_enqueue_err = None, pe_db_now = 7, pe_clk = 7,
     outTopic = ''payments.events'', pe_roles_json = (\<lambda>_. ''''), pe_ctx = background\<rparr>"

lemma demo_penv_sel [simp]:
  "pe_dec demo_penv = bd_ops" "pe_assets demo_penv = init_registry" "pe_stmt_err demo_penv = None" "pe_enqueue_err demo_penv = None"
  "pe_payment_id demo_penv = ''p-1''" "pe_marshal demo_penv (EvFailed i rs t) = Inr (''F'' @ i)"
  "pe_marshal demo_penv (EvProcessed i p st) = Inr (''P'' @ i)"
  by (simp_all add: demo_penv_def)

theorem payment_decision_witness:
  "snd (ProcessPaymentHandler demo_penv \<lparr>pp_order = ''o-1'', pp_cents = 1000000, pp_currency = ''USD''\<rparr>
      \<lparr>payments = [], p_outbox = []\<rparr>) = Inr (''p-1'', StatusFailed)"
proof -
  let ?r = "ProcessPaymentHandler demo_penv \<lparr>pp_order = ''o-1'', pp_cents = 1000000, pp_currency = ''USD''\<rparr>
      \<lparr>payments = [], p_outbox = []\<rparr>"
  have l: "decimal_lib (pe_dec demo_penv) bd_val" using bd.decimal_lib_axioms by simp
  let ?amt = "mk_money (d_from_big_int bd_ops 1000000 (- 2)) ''USD''"
  have fm: "FromMinor (pe_dec demo_penv) (pe_assets demo_penv) (Some 1000000) ''USD'' = Inr ?amt"
    by (simp add: FromMinor_def Lookup_def init_registry_USD)
  have "isDeclined demo_penv ?amt = Inr True"
    using decimal_lib.declined_iff [OF l refl _ _ fm] init_registry_USD by (simp add: DeclineThresholdMinor_def)
  then obtain st where st: "?r = (fst ?r, Inr (''p-1'', st))"
    using fm by (simp add: ProcessPaymentHandler_def Process_def outcome_def pay_Insert_def Enqueue_def InsertOutbox_def Let_def)
  have "st = StatusFailed"
    using payment_decision [OF l _ _ st] init_registry_USD by (simp add: DeclineThresholdMinor_def)
  then show ?thesis using st by (metis snd_conv)
qed

end
