(* ===== verification/Choreography.thy ===== *)
theory Choreography
  imports Payments
begin

text \<open>
  Orders and payments as two services joined by their events. A state holds each service's database with its
  inbox, and the events its relay has put on the broker. A step is a transaction of one service, a relay that
  publishes a row, a cleanup of an outbox, or a consumer that receives an event that is on the broker: in any
  order and any number of times, since the broker delivers at least once. Each transaction has its own
  environment, so it may fail at any statement. Decimal arithmetic, the asset registry, UUID parsing and the
  protobuf codec are shared by all transactions.
\<close>

section \<open>The system\<close>

record 'd saga_cfg =
  c_dec :: "'d decimal_ops"
  c_reg :: registry
  c_parse :: "string \<Rightarrow> (go_err, string) result"
  c_mo :: "order_event \<Rightarrow> (go_err, string) result"
  c_uo :: "string \<Rightarrow> order_event option"
  c_mp :: "payment_event \<Rightarrow> (go_err, string) result"
  c_up :: "string \<Rightarrow> string \<Rightarrow> payment_event option"
  c_deadline :: int

record saga =
  odb :: "orders_db shard"
  pdb :: "payments_db shard"
  o_log :: "message set"
  p_log :: "message set"

definition orders_side :: "'d saga_cfg \<Rightarrow> 'd orders_env \<Rightarrow> bool" where
  "orders_side C E \<longleftrightarrow> dec_ops E = c_dec C \<and> assets E = c_reg C \<and> parse_uuid E = c_parse C \<and> marshal E = c_mo C"

definition payments_side :: "'d saga_cfg \<Rightarrow> 'd payments_env \<Rightarrow> bool" where
  "payments_side C E \<longleftrightarrow> pe_dec E = c_dec C \<and> pe_assets E = c_reg C \<and> pe_marshal E = c_mp C"

text \<open>\<open>NewPaymentsEventHandler\<close>: the two payment events and the status each one means.\<close>

fun settle_event :: "'d orders_env \<Rightarrow> payment_event \<Rightarrow> orders_db \<Rightarrow> orders_db \<times> go_err option" where
  "settle_event E (EvProcessed i pid st) db = (case ApplyPaymentOutcome E i StatusPaid db of (db', _, e) \<Rightarrow> (db', e))"
| "settle_event E (EvFailed i rs t) db = (case ApplyPaymentOutcome E i StatusPaymentFailed db of (db', _, e) \<Rightarrow> (db', e))"

definition no_vars :: "('s \<Rightarrow> 's \<times> go_err option) \<Rightarrow> 's \<Rightarrow> unit \<Rightarrow> 's \<times> unit \<times> go_err option" where
  "no_vars f s c = (case f s of (s', e) \<Rightarrow> (s', c, e))"

fun event_type_of :: "payment_event \<Rightarrow> string" where
  "event_type_of (EvProcessed _ _ _) = PaymentProcessedEventType"
| "event_type_of (EvFailed _ _ _) = PaymentFailedEventType"

inductive saga_reach :: "'d saga_cfg \<Rightarrow> saga \<Rightarrow> bool" for C where
  start: "orders (app (odb s)) = [] \<Longrightarrow> o_outbox (app (odb s)) = [] \<Longrightarrow> payments (app (pdb s)) = [] \<Longrightarrow> p_outbox (app (pdb s)) = [] \<Longrightarrow>
     o_log s = {} \<Longrightarrow> p_log s = {} \<Longrightarrow> saga_reach C s"
| create: "saga_reach C s \<Longrightarrow> orders_side C E \<Longrightarrow> - (2 ^ 63) \<le> co_cents cmd \<Longrightarrow> co_cents cmd < 2 ^ 63 \<Longrightarrow>
     RunInTx b c (CreateOrderHandler E cmd) (app (odb s)) = (db', e) \<Longrightarrow>
     saga_reach C (s\<lparr>odb := (odb s)\<lparr>app := db'\<rparr>\<rparr>)"
| timeout: "saga_reach C s \<Longrightarrow> orders_side C E \<Longrightarrow>
     RunInTx b c (EmitPaymentTimeout E (c_deadline C) i t) (app (odb s)) = (db', e) \<Longrightarrow>
     saga_reach C (s\<lparr>odb := (odb s)\<lparr>app := db'\<rparr>\<rparr>)"
| relay_orders: "saga_reach C s \<Longrightarrow> row \<in> set (o_outbox (app (odb s))) \<Longrightarrow>
     saga_reach C (s\<lparr>o_log := insert (r_msg row) (o_log s)\<rparr>)"
| relay_payments: "saga_reach C s \<Longrightarrow> row \<in> set (p_outbox (app (pdb s))) \<Longrightarrow>
     saga_reach C (s\<lparr>p_log := insert (r_msg row) (p_log s)\<rparr>)"
| clean_orders: "saga_reach C s \<Longrightarrow> r_msg ` set rows \<subseteq> r_msg ` set (o_outbox (app (odb s))) \<Longrightarrow>
     saga_reach C (s\<lparr>odb := (odb s)\<lparr>app := (app (odb s))\<lparr>o_outbox := rows\<rparr>\<rparr>\<rparr>)"
| clean_payments: "saga_reach C s \<Longrightarrow> r_msg ` set rows \<subseteq> r_msg ` set (p_outbox (app (pdb s))) \<Longrightarrow>
     saga_reach C (s\<lparr>pdb := (pdb s)\<lparr>app := (app (pdb s))\<lparr>p_outbox := rows\<rparr>\<rparr>\<rparr>)"
| pay: "saga_reach C s \<Longrightarrow> payments_side C E \<Longrightarrow> m \<in> o_log s \<Longrightarrow> EventType m = OrderCreatedEventType \<Longrightarrow>
     c_uo C (Payload m) = Some ev \<Longrightarrow>
     ProcessOnce T ''payments'' (ID m) (no_vars (pay_on_event E ev)) (pdb s) () = (sh', c, p, e) \<Longrightarrow>
     saga_reach C (s\<lparr>pdb := sh'\<rparr>)"
| settle: "saga_reach C s \<Longrightarrow> orders_side C E \<Longrightarrow> m \<in> p_log s \<Longrightarrow> c_up C (EventType m) (Payload m) = Some ev \<Longrightarrow>
     EventType m = event_type_of ev \<Longrightarrow>
     ProcessOnce T ''orders-payments'' (ID m) (no_vars (settle_event E ev)) (odb s) () = (sh', c, p, e) \<Longrightarrow>
     saga_reach C (s\<lparr>odb := sh'\<rparr>)"

section \<open>The invariant\<close>

text \<open>The order id, cents and currency a created event announces.\<close>

definition created_of :: "'d saga_cfg \<Rightarrow> message \<Rightarrow> (string \<times> int \<times> string) option" where
  "created_of C m =
     (if EventType m = OrderCreatedEventType
      then (case c_uo C (Payload m) of Some (OrderCreated i cust cents cur) \<Rightarrow> Some (i, cents, cur) | _ \<Rightarrow> None)
      else None)"

definition core :: "order_row \<Rightarrow> string \<times> string \<times> string" where
  "core r = (o_id r, o_amount r, o_asset r)"

definition amount_is :: "'d saga_cfg \<Rightarrow> string \<Rightarrow> string \<Rightarrow> int \<Rightarrow> bool" where
  "amount_is C t cur cents \<longleftrightarrow> (\<exists>a. c_reg C cur = Some a \<and> dec_text t (of_int cents * 10 powi (- Exponent a)))"

definition created_ok :: "'d saga_cfg \<Rightarrow> (string \<times> string \<times> string) list \<Rightarrow> message set \<Rightarrow> bool" where
  "created_ok C os M \<longleftrightarrow>
     distinct (map fst os)
     \<and> (\<forall>m \<in> M. \<forall>i cents cur. created_of C m = Some (i, cents, cur) \<longrightarrow>
          (\<exists>x t. c_parse C i = Inr x \<and> (x, t, cur) \<in> set os \<and> amount_is C t cur cents))
     \<and> (\<forall>m \<in> M. \<forall>m' \<in> M. \<forall>i y i' y'. created_of C m = Some (i, y) \<and> created_of C m' = Some (i', y')
          \<and> c_parse C i = c_parse C i' \<longrightarrow> m = m')"

definition decided :: "int \<Rightarrow> string" where
  "decided cents = (if DeclineThresholdMinor \<le> cents then StatusFailed else StatusProcessed)"

definition payments_ok :: "'d saga_cfg \<Rightarrow> message set \<Rightarrow> inbox_key set \<Rightarrow> payment_row list \<Rightarrow> bool" where
  "payments_ok C L K ps \<longleftrightarrow>
     (\<forall>r \<in> set ps. \<exists>m \<in> L. \<exists>cents cur. created_of C m = Some (p_order r, cents, cur) \<and> (''payments'', ID m) \<in> K
        \<and> p_status r = decided cents)
     \<and> distinct (map (\<lambda>r. c_parse C (p_order r)) ps)"

fun announces :: "payment_event \<Rightarrow> payment_row \<Rightarrow> bool" where
  "announces (EvProcessed i pid st) r \<longleftrightarrow> p_order r = i \<and> p_status r = StatusProcessed"
| "announces (EvFailed i rs t) r \<longleftrightarrow> p_order r = i \<and> p_status r = StatusFailed"

definition outcomes_ok :: "'d saga_cfg \<Rightarrow> payment_row list \<Rightarrow> message set \<Rightarrow> bool" where
  "outcomes_ok C ps N \<longleftrightarrow>
     (\<forall>m \<in> N. \<forall>ev. c_up C (EventType m) (Payload m) = Some ev \<and> EventType m = event_type_of ev \<longrightarrow>
        (\<exists>r \<in> set ps. announces ev r))"

definition settled_ok :: "'d saga_cfg \<Rightarrow> order_row list \<Rightarrow> payment_row list \<Rightarrow> bool" where
  "settled_ok C os ps \<longleftrightarrow>
     (\<forall>r \<in> set os. (o_status r = StatusPaid \<longrightarrow>
          (\<exists>p \<in> set ps. c_parse C (p_order p) = Inr (o_id r) \<and> p_status p = StatusProcessed))
      \<and> (o_status r = StatusPaymentFailed \<longrightarrow>
          (\<exists>p \<in> set ps. c_parse C (p_order p) = Inr (o_id r) \<and> p_status p = StatusFailed)))"

definition order_msgs :: "saga \<Rightarrow> message set" where
  "order_msgs s = o_log s \<union> r_msg ` set (o_outbox (app (odb s)))"

definition payment_msgs :: "saga \<Rightarrow> message set" where
  "payment_msgs s = p_log s \<union> r_msg ` set (p_outbox (app (pdb s)))"

definition saga_inv :: "'d saga_cfg \<Rightarrow> saga \<Rightarrow> bool" where
  "saga_inv C s \<longleftrightarrow>
     created_ok C (map core (orders (app (odb s)))) (order_msgs s)
     \<and> payments_ok C (o_log s) (set (inbox_keys (pdb s))) (payments (app (pdb s)))
     \<and> outcomes_ok C (payments (app (pdb s))) (payment_msgs s)
     \<and> settled_ok C (orders (app (odb s))) (payments (app (pdb s)))"

text \<open>What the codec promises: a marshalled event unmarshals to itself under its own type.\<close>

definition codec_ok :: "'d saga_cfg \<Rightarrow> bool" where
  "codec_ok C \<longleftrightarrow> (\<forall>ev p. c_mo C ev = Inr p \<longrightarrow> c_uo C p = Some ev)
     \<and> (\<forall>ev p. c_mp C ev = Inr p \<longrightarrow> c_up C (event_type_of ev) p = Some ev)"

section \<open>Lemmas\<close>

lemma payment_types_differ: "PaymentProcessedEventType \<noteq> PaymentFailedEventType"
  by code_simp

lemma pay_statuses_differ: "StatusProcessed \<noteq> StatusFailed"
  by (simp add: StatusProcessed_def StatusFailed_def)

lemma created_ok_mono: "created_ok C os M \<Longrightarrow> M' \<subseteq> M \<Longrightarrow> created_ok C os M'"
  unfolding created_ok_def by blast

lemma created_ok_other:
  assumes "created_ok C os M" "created_of C m = None"
  shows "created_ok C os (insert m M)"
  using assms unfolding created_ok_def by (simp add: ball_simps)

lemma created_ok_new:
  assumes ok: "created_ok C os M" and fresh: "x \<notin> fst ` set os"
    and m: "created_of C m = Some (i, cents, cur)" "c_parse C i = Inr x" "amount_is C t cur cents"
  shows "created_ok C (os @ [(x, t, cur)]) (insert m M)"
proof -
  have old: "\<exists>x' t. c_parse C i' = Inr x' \<and> (x', t, cur') \<in> set os \<and> amount_is C t cur' cents'"
    if "m' \<in> M" "created_of C m' = Some (i', cents', cur')" for m' i' cents' cur'
    using ok that unfolding created_ok_def by blast
  have no: "c_parse C i' \<noteq> c_parse C i" if "m' \<in> M" "created_of C m' = Some (i', y')" for m' i' y'
    using old [OF that(1)] that(2) fresh m(2) by (cases y') (force simp: image_iff)
  have one: "\<exists>x' t'. c_parse C i' = Inr x' \<and> (x', t', cur') \<in> set (os @ [(x, t, cur)]) \<and> amount_is C t' cur' cents'"
    if m': "m' \<in> insert m M" "created_of C m' = Some (i', cents', cur')" for m' i' cents' cur'
  proof (cases "m' = m")
    case True
    then have "i' = i" "cents' = cents" "cur' = cur" using m' m(1) by simp_all
    then show ?thesis using m by (intro exI [of _ x] exI [of _ t]) simp
  next
    case False
    then obtain x' t' where "c_parse C i' = Inr x'" "(x', t', cur') \<in> set os" "amount_is C t' cur' cents'"
      using old [of m' i' cents' cur'] m' by blast
    then show ?thesis by (intro exI [of _ x'] exI [of _ t']) simp
  qed
  have two: "m1 = m2" if "m1 \<in> insert m M" "m2 \<in> insert m M" "created_of C m1 = Some (i1, y1)" "created_of C m2 = Some (i2, y2)"
    "c_parse C i1 = c_parse C i2" for m1 m2 i1 y1 i2 y2
  proof (cases "m1 = m \<or> m2 = m")
    case True
    then show ?thesis using that no m(1) by (metis Pair_inject insert_iff option.inject)
  next
    case False
    then show ?thesis using that ok unfolding created_ok_def by (metis insert_iff)
  qed
  have "distinct (map fst (os @ [(x, t, cur)]))" using ok fresh by (simp add: created_ok_def)
  then show ?thesis unfolding created_ok_def using one two by blast
qed

lemma core_ids: "fst ` set (map core os) = o_id ` set os"
  by (force simp: core_def)

lemma create_step:
  assumes lib: "decimal_lib (c_dec C) dval" and E: "orders_side C E" and codec: "codec_ok C"
    and rng: "- (2 ^ 63) \<le> co_cents cmd" "co_cents cmd < 2 ^ 63"
    and run: "CreateOrderHandler E cmd db = (db', None)"
    and ok: "created_ok C (map core (orders db)) (L \<union> r_msg ` set (o_outbox db))" and st: "settled_ok C (orders db) ps"
  shows "created_ok C (map core (orders db')) (L \<union> r_msg ` set (o_outbox db')) \<and> settled_ok C (orders db') ps"
proof -
  obtain i amt r row where
    c: "parse_uuid E (co_id cmd) = Inr i" "FromMinor (dec_ops E) (assets E) (Some (co_cents cmd)) (co_currency cmd) = Inr amt"
      "orders db' = orders db @ [r]" "o_outbox db' = o_outbox db @ [row]" "o_id r = i" "o_status r = StatusCreated"
      "EventType (r_msg row) = OrderCreatedEventType" "i \<notin> o_id ` set (orders db)"
    by (rule create_appends [OF run]) metis
  note side = E [unfolded orders_side_def]
  obtain a where a: "c_reg C (co_currency cmd) = Some a"
    using c(2) side by (cases "c_reg C (co_currency cmd)") (simp_all add: FromMinor_def Lookup_def)
  from order_amount [OF _ _ rng run, of dval a] lib a side
  have am: "amount_is C (o_amount r) (co_currency cmd) (co_cents cmd)" "o_asset r = co_currency cmd"
    and ma: "c_mo C (OrderCreated (co_id cmd) (co_customer cmd) (co_cents cmd) (co_currency cmd)) = Inr (Payload (r_msg row))"
    by (simp_all add: amount_is_def c)
  have "c_uo C (Payload (r_msg row)) = Some (OrderCreated (co_id cmd) (co_customer cmd) (co_cents cmd) (co_currency cmd))"
    using codec ma unfolding codec_ok_def by blast
  then have cr: "created_of C (r_msg row) = Some (co_id cmd, co_cents cmd, co_currency cmd)" by (simp add: created_of_def c)
  have "created_ok C (map core (orders db) @ [(i, o_amount r, co_currency cmd)]) (insert (r_msg row) (L \<union> r_msg ` set (o_outbox db)))"
    using c(1) side by (intro created_ok_new [OF ok _ cr _ am(1)]) (simp_all only: core_ids c(8) not_False_eq_True)
  then have "created_ok C (map core (orders db')) (L \<union> r_msg ` set (o_outbox db'))"
    by (simp add: c(3-5) core_def am(2))
  moreover have "settled_ok C (orders db') ps"
    using st status_names unfolding settled_ok_def c(3) by (auto simp: c(6))
  ultimately show ?thesis ..
qed

lemma emit_outbox:
  assumes "EmitPaymentTimeout E dl i t db = (db', None)"
  shows "o_outbox db' = o_outbox db \<or> (\<exists>row. o_outbox db' = o_outbox db @ [row] \<and> EventType (r_msg row) = OrderPaymentTimedOutEventType)"
proof -
  obtain os won where m: "MarkTimeoutEmitted E i db = (db\<lparr>orders := os\<rparr>, Inr won)"
    using assms by (auto simp: EmitPaymentTimeout_def MarkTimeoutEmitted_def update_where_def split: option.splits)
  show ?thesis
  proof (cases won)
    case True
    then have "svc_enqueue E i OrderPaymentTimedOutEventType (OrderPaymentTimedOut i (t + dl)) (db\<lparr>orders := os\<rparr>) = (db', None)"
      using assms m by (simp add: EmitPaymentTimeout_def)
    from svc_enqueue_ok [OF this] show ?thesis by auto
  qed (use assms m in \<open>auto simp: EmitPaymentTimeout_def\<close>)
qed

lemma timeout_step:
  assumes run: "EmitPaymentTimeout E dl i t db = (db', None)"
    and ok: "created_ok C (map core (orders db)) (L \<union> r_msg ` set (o_outbox db))" and st: "settled_ok C (orders db) ps"
  shows "created_ok C (map core (orders db')) (L \<union> r_msg ` set (o_outbox db')) \<and> settled_ok C (orders db') ps"
proof -
  have os: "orders db' = map (claim_ids {i}) (orders db)" using emit_orders [OF run] .
  have core: "map core (orders db') = map core (orders db)" by (simp add: os core_def claim_ids_def)
  have "created_ok C (map core (orders db)) (L \<union> r_msg ` set (o_outbox db'))"
    using emit_outbox [OF run]
  proof
    assume "\<exists>row. o_outbox db' = o_outbox db @ [row] \<and> EventType (r_msg row) = OrderPaymentTimedOutEventType"
    then obtain row where r: "o_outbox db' = o_outbox db @ [row]" "EventType (r_msg row) = OrderPaymentTimedOutEventType" by blast
    then have "created_of C (r_msg row) = None" using event_types_differ by (simp add: created_of_def)
    from created_ok_other [OF ok this] show ?thesis by (simp add: r)
  qed (use ok in simp)
  moreover have "settled_ok C (orders db') ps"
    using st status_names(4-6) status_names(5) [symmetric] status_names(6) [symmetric] unfolding settled_ok_def os
    by (auto simp: claim_ids_def)
  ultimately show ?thesis unfolding core by blast
qed

lemma settle_step:
  assumes E: "orders_side C E" and run: "settle_event E ev db = (db', None)" and ann: "p \<in> set ps" "announces ev p"
    and st: "settled_ok C (orders db) ps"
  shows "map core (orders db') = map core (orders db) \<and> o_outbox db' = o_outbox db \<and> settled_ok C (orders db') ps"
proof -
  have *: "map core (orders db') = map core (orders db) \<and> o_outbox db' = o_outbox db \<and> settled_ok C (orders db') ps"
    if ap: "ApplyPaymentOutcome E raw to db = (db', wn, None)" and raw: "raw = p_order p"
      and to: "(to = StatusPaid \<and> p_status p = StatusProcessed) \<or> (to = StatusPaymentFailed \<and> p_status p = StatusFailed)" for raw to wn
  proof -
    obtain x appl where x: "parse_uuid E raw = Inr x" and "MarkPaymentOutcome E x to db = (db', Inr appl)"
      using ap by (auto simp: ApplyPaymentOutcome_def split: sum.splits option.splits prod.splits)
    then have db': "db' = db\<lparr>orders := map (\<lambda>r. if o_id r = x \<and> o_status r = StatusCreated then r\<lparr>o_status := to\<rparr> else r) (orders db)\<rparr>"
      by (auto simp: MarkPaymentOutcome_def update_where_def status_names split: option.splits)
    have par: "c_parse C (p_order p) = Inr x" using x raw E by (simp add: orders_side_def)
    have "settled_ok C (orders db') ps"
      using st to ann(1) par status_names(7) status_names(7) [symmetric] unfolding settled_ok_def db' by auto
    then show ?thesis by (simp add: db' core_def)
  qed
  show ?thesis
  proof (cases ev)
    case (EvProcessed i pid s)
    then obtain wn where "ApplyPaymentOutcome E i StatusPaid db = (db', wn, None)" using run by (auto split: prod.splits)
    from * [OF this] show ?thesis using EvProcessed ann(2) by simp
  next
    case (EvFailed i rs t)
    then obtain wn where "ApplyPaymentOutcome E i StatusPaymentFailed db = (db', wn, None)" using run by (auto split: prod.splits)
    from * [OF this] show ?thesis using EvFailed ann(2) by simp
  qed
qed
text \<open>What a payment transaction that ran and committed did for the created event \<open>m\<close>.\<close>

lemma pay_effect:
  assumes lib: "decimal_lib (c_dec C) dval" and wf: "registry_wf (c_reg C)" and codec: "codec_ok C" and E: "payments_side C E"
    and ev: "EventType m = OrderCreatedEventType" "c_uo C (Payload m) = Some ev"
    and run: "pay_on_event E ev db = (db', None)"
  shows "db' = db \<or> (\<exists>i cents cur r row. created_of C m = Some (i, cents, cur) \<and> payments db' = payments db @ [r]
     \<and> p_outbox db' = p_outbox db @ [row] \<and> p_order r = i \<and> p_status r = decided cents
     \<and> (\<forall>pev. c_up C (EventType (r_msg row)) (Payload (r_msg row)) = Some pev \<longrightarrow> announces pev r))"
proof (cases ev)
  case (OrderCreated i cust cents cur)
  let ?cmd = "\<lparr>pp_order = i, pp_cents = cents, pp_currency = cur\<rparr>"
  obtain pid st where h: "ProcessPaymentHandler E ?cmd db = (db', Inr (pid, st))"
    using run OrderCreated by (auto split: prod.splits sum.splits)
  have side: "pe_dec E = c_dec C" "pe_assets E = c_reg C" "pe_marshal E = c_mp C" using E by (simp_all add: payments_side_def)
  obtain a where a: "c_reg C cur = Some a"
    using h side by (cases "c_reg C cur") (simp_all add: ProcessPaymentHandler_def FromMinor_def Lookup_def)
  have ne: "cur \<noteq> []" using wf a by (auto simp: registry_wf_def)
  have pre: "decimal_lib (pe_dec E) dval" "pe_assets E (pp_currency ?cmd) = Some a" "pp_currency ?cmd \<noteq> []"
    using lib a ne side by simp_all
  note d = payment_decided [OF pre h, unfolded side process_payment.select_convs]
  obtain r row where r: "payments db' = payments db @ [r]" "p_order r = i" "p_status r = st" "p_outbox db' = p_outbox db @ [row]"
    and st: "st = (if DeclineThresholdMinor \<le> cents then StatusFailed else StatusProcessed)"
    and e: "if st = StatusFailed then EventType (r_msg row) = PaymentFailedEventType
               \<and> c_mp C (EvFailed i ''declined'' (pe_clk E)) = Inr (Payload (r_msg row))
             else EventType (r_msg row) = PaymentProcessedEventType
               \<and> c_mp C (EvProcessed i pid StatusProcessed) = Inr (Payload (r_msg row))"
    using d by blast
  have up: "c_mp C pev = Inr p \<Longrightarrow> c_up C (event_type_of pev) p = Some pev" for pev p
    using codec unfolding codec_ok_def by blast
  have "announces pev r" if "c_up C (EventType (r_msg row)) (Payload (r_msg row)) = Some pev" for pev
  proof (cases "st = StatusFailed")
    case True
    then show ?thesis using that e r up [of "EvFailed i ''declined'' (pe_clk E)"] by fastforce
  next
    case False
    then have "st = StatusProcessed" using st by (auto split: if_splits)
    then show ?thesis using that False e r up [of "EvProcessed i pid StatusProcessed"] by fastforce
  qed
  moreover have "created_of C m = Some (i, cents, cur)" using ev OrderCreated by (simp add: created_of_def)
  moreover have "p_status r = decided cents" using r st by (simp add: decided_def)
  ultimately show ?thesis using r by blast
next
  case (OrderPaymentTimedOut i t)
  then show ?thesis using run by simp
qed

lemma created_unique:
  assumes "created_ok C os M" "m \<in> M" "m' \<in> M" "created_of C m = Some (i, y)" "created_of C m' = Some (i', y')"
    "c_parse C i = c_parse C i'"
  shows "m = m'"
  using assms(1) [unfolded created_ok_def, THEN conjunct2, THEN conjunct2, rule_format, OF assms(2,3)] assms(4-6) by blast

lemma pay_keeps:
  assumes cr: "created_ok C os M" and L: "L \<subseteq> M" "m \<in> L" and ok: "payments_ok C L K ps"
    and m: "created_of C m = Some (p_order r, cents, cur)" "(''payments'', ID m) \<notin> K" "p_status r = decided cents"
    and K: "K' = insert (''payments'', ID m) K"
  shows "payments_ok C L K' (ps @ [r])"
proof -
  have "c_parse C (p_order r') \<noteq> c_parse C (p_order r)" if r': "r' \<in> set ps" for r'
  proof
    assume eq: "c_parse C (p_order r') = c_parse C (p_order r)"
    obtain m' ct cu where m': "m' \<in> L" "created_of C m' = Some (p_order r', ct, cu)" "(''payments'', ID m') \<in> K"
      using ok r' unfolding payments_ok_def by blast
    then have "m' = m" using created_unique [OF cr _ _ m'(2) m(1) eq] L by blast
    then show False using m'(3) m(2) by blast
  qed
  then have "distinct (map (\<lambda>r. c_parse C (p_order r)) (ps @ [r]))"
    using ok unfolding payments_ok_def by (simp add: image_iff) metis
  moreover have "\<exists>m \<in> L. \<exists>cents cur. created_of C m = Some (p_order r', cents, cur) \<and> (''payments'', ID m) \<in> K' \<and> p_status r' = decided cents"
    if r': "r' \<in> set (ps @ [r])" for r'
  proof (cases "r' \<in> set ps")
    case True
    then show ?thesis using ok unfolding payments_ok_def K by blast
  next
    case False
    then have "r' = r" using r' by simp
    then show ?thesis using L(2) m(1,3) unfolding K by blast
  qed
  ultimately show ?thesis unfolding payments_ok_def by blast
qed

lemma once_app:
  assumes "ProcessOnce T g k (no_vars f) s () = (s', c, p, e)"
  shows "s' = s \<or> ((g, k) \<notin> set (inbox_keys s) \<and> set (inbox_keys s') = insert (g, k) (set (inbox_keys s)) \<and> f (app s) = (app s', None))"
  using ProcessOnce_cases [OF assms] by (auto simp: inbox_keys_def no_vars_def split: prod.splits)

lemma settled_more: "settled_ok C os ps \<Longrightarrow> settled_ok C os (ps @ [r])"
  unfolding settled_ok_def by fastforce

lemma outcomes_new:
  assumes "outcomes_ok C ps N" "\<forall>pev. c_up C (EventType m) (Payload m) = Some pev \<longrightarrow> announces pev r"
  shows "outcomes_ok C (ps @ [r]) (insert m N)"
  using assms unfolding outcomes_ok_def by fastforce

lemma pay_step:
  assumes inv: "saga_inv C s" and lib: "decimal_lib (c_dec C) dval" and wf: "registry_wf (c_reg C)" and codec: "codec_ok C"
    and E: "payments_side C E" and m: "m \<in> o_log s" "EventType m = OrderCreatedEventType" "c_uo C (Payload m) = Some ev"
    and run: "ProcessOnce T ''payments'' (ID m) (no_vars (pay_on_event E ev)) (pdb s) () = (sh', c, p, e)"
  shows "saga_inv C (s\<lparr>pdb := sh'\<rparr>)"
proof (cases "sh' = pdb s")
  case True
  then show ?thesis using inv by (simp add: saga_inv_def order_msgs_def payment_msgs_def)
next
  case False
  then have k: "(''payments'', ID m) \<notin> set (inbox_keys (pdb s))"
    "set (inbox_keys sh') = insert (''payments'', ID m) (set (inbox_keys (pdb s)))"
    and f: "pay_on_event E ev (app (pdb s)) = (app sh', None)"
    using once_app [OF run] by auto
  have cr: "created_ok C (map core (orders (app (odb s)))) (order_msgs s)"
    and po: "payments_ok C (o_log s) (set (inbox_keys (pdb s))) (payments (app (pdb s)))"
    and oo: "outcomes_ok C (payments (app (pdb s))) (payment_msgs s)"
    and so: "settled_ok C (orders (app (odb s))) (payments (app (pdb s)))"
    using inv by (simp_all add: saga_inv_def)
  have msgs: "order_msgs (s\<lparr>pdb := sh'\<rparr>) = order_msgs s" by (simp add: order_msgs_def)
  from pay_effect [OF lib wf codec E m(2,3) f]
  show ?thesis
  proof
    assume eq: "app sh' = app (pdb s)"
    have "payments_ok C (o_log s) (set (inbox_keys sh')) (payments (app (pdb s)))"
      using po unfolding payments_ok_def k(2) by blast
    then show ?thesis using inv by (simp add: saga_inv_def order_msgs_def payment_msgs_def eq)
  next
    assume "\<exists>i cents cur r row. created_of C m = Some (i, cents, cur) \<and> payments (app sh') = payments (app (pdb s)) @ [r]
     \<and> p_outbox (app sh') = p_outbox (app (pdb s)) @ [row] \<and> p_order r = i \<and> p_status r = decided cents
     \<and> (\<forall>pev. c_up C (EventType (r_msg row)) (Payload (r_msg row)) = Some pev \<longrightarrow> announces pev r)"
    then obtain cents cur r row where r: "created_of C m = Some (p_order r, cents, cur)" "payments (app sh') = payments (app (pdb s)) @ [r]"
      "p_outbox (app sh') = p_outbox (app (pdb s)) @ [row]" "p_status r = decided cents"
      "\<forall>pev. c_up C (EventType (r_msg row)) (Payload (r_msg row)) = Some pev \<longrightarrow> announces pev r" by blast
    have "o_log s \<subseteq> order_msgs s" by (simp add: order_msgs_def)
    from pay_keeps [OF cr this m(1) po r(1) k(1) r(4) k(2)] settled_more [OF so] outcomes_new [OF oo r(5)] cr
    show ?thesis by (simp add: saga_inv_def msgs r(2,3) payment_msgs_def)
  qed
qed
lemma saga_inv_orders:
  assumes "saga_inv C s" "created_ok C (map core (orders db')) (o_log s \<union> r_msg ` set (o_outbox db'))"
    "settled_ok C (orders db') (payments (app (pdb s)))" "app sh' = db'"
  shows "saga_inv C (s\<lparr>odb := sh'\<rparr>)"
  using assms by (simp add: saga_inv_def order_msgs_def payment_msgs_def)

lemma tx_step:
  assumes inv: "saga_inv C s" and run: "RunInTx b c f (app (odb s)) = (db', e)"
    and step: "f (app (odb s)) = (db', None) \<Longrightarrow> created_ok C (map core (orders db')) (o_log s \<union> r_msg ` set (o_outbox db'))
       \<and> settled_ok C (orders db') (payments (app (pdb s)))"
  shows "saga_inv C (s\<lparr>odb := (odb s)\<lparr>app := db'\<rparr>\<rparr>)"
proof (cases e)
  case None
  then have "f (app (odb s)) = (db', None)" using run by (simp add: RunInTx_None)
  from step [OF this] show ?thesis by (intro saga_inv_orders [OF inv, of db']) simp_all
next
  case (Some x)
  then have "db' = app (odb s)" using run RunInTx_Some by fastforce
  then show ?thesis using inv by (simp add: saga_inv_def order_msgs_def payment_msgs_def)
qed

lemma saga_settle:
  assumes inv: "saga_inv C s" and E: "orders_side C E" and m: "m \<in> p_log s" "c_up C (EventType m) (Payload m) = Some ev"
    "EventType m = event_type_of ev"
    and run: "ProcessOnce T ''orders-payments'' (ID m) (no_vars (settle_event E ev)) (odb s) () = (sh', c, p, e)"
  shows "saga_inv C (s\<lparr>odb := sh'\<rparr>)"
proof (cases "sh' = odb s")
  case True
  then show ?thesis using inv by simp
next
  case False
  then have f: "settle_event E ev (app (odb s)) = (app sh', None)" using once_app [OF run] by blast
  have cr: "created_ok C (map core (orders (app (odb s)))) (o_log s \<union> r_msg ` set (o_outbox (app (odb s))))"
    and oo: "outcomes_ok C (payments (app (pdb s))) (payment_msgs s)"
    and so: "settled_ok C (orders (app (odb s))) (payments (app (pdb s)))"
    using inv by (simp_all add: saga_inv_def order_msgs_def)
  obtain r where r: "r \<in> set (payments (app (pdb s)))" "announces ev r"
    using oo m unfolding outcomes_ok_def payment_msgs_def by blast
  from settle_step [OF E f r so] have "map core (orders (app sh')) = map core (orders (app (odb s)))"
    "o_outbox (app sh') = o_outbox (app (odb s))" "settled_ok C (orders (app sh')) (payments (app (pdb s)))" by blast+
  then show ?thesis using saga_inv_orders [OF inv _ _ refl] cr by metis
qed

lemma saga_invariant:
  assumes lib: "decimal_lib (c_dec C) dval" and wf: "registry_wf (c_reg C)" and codec: "codec_ok C" and reach: "saga_reach C s"
  shows "saga_inv C s"
  using reach
proof (induction rule: saga_reach.induct)
  case (start s)
  then show ?case
    by (simp add: saga_inv_def order_msgs_def payment_msgs_def created_ok_def payments_ok_def outcomes_ok_def settled_ok_def)
next
  case (create s E cmd b c db' e)
  have ok: "created_ok C (map core (orders (app (odb s)))) (o_log s \<union> r_msg ` set (o_outbox (app (odb s))))"
    "settled_ok C (orders (app (odb s))) (payments (app (pdb s)))"
    using create(6) by (simp_all add: saga_inv_def order_msgs_def)
  show ?case by (rule tx_step [OF create(6,5)]) (rule create_step [OF lib create(2) codec create(3,4) _ ok])
next
  case (timeout s E b c i t db' e)
  have ok: "created_ok C (map core (orders (app (odb s)))) (o_log s \<union> r_msg ` set (o_outbox (app (odb s))))"
    "settled_ok C (orders (app (odb s))) (payments (app (pdb s)))"
    using timeout(4) by (simp_all add: saga_inv_def order_msgs_def)
  show ?case by (rule tx_step [OF timeout(4,3)]) (rule timeout_step [OF _ ok])
next
  case (relay_orders s row)
  then have "insert (r_msg row) (o_log s) \<union> r_msg ` set (o_outbox (app (odb s))) = order_msgs s"
    by (auto simp: order_msgs_def)
  moreover have "payments_ok C (insert (r_msg row) (o_log s)) (set (inbox_keys (pdb s))) (payments (app (pdb s)))"
    using relay_orders(3) unfolding saga_inv_def payments_ok_def by blast
  ultimately show ?case using relay_orders(3) by (simp add: saga_inv_def order_msgs_def payment_msgs_def)
next
  case (relay_payments s row)
  then have "insert (r_msg row) (p_log s) \<union> r_msg ` set (p_outbox (app (pdb s))) = payment_msgs s"
    by (auto simp: payment_msgs_def)
  then show ?case using relay_payments(3) by (simp add: saga_inv_def order_msgs_def payment_msgs_def)
next
  case (clean_orders s rows)
  then have "o_log s \<union> r_msg ` set rows \<subseteq> order_msgs s" by (auto simp: order_msgs_def)
  then have "created_ok C (map core (orders (app (odb s)))) (o_log s \<union> r_msg ` set rows)"
    using clean_orders(3) created_ok_mono unfolding saga_inv_def by blast
  then show ?case using clean_orders(3)
    by (simp add: saga_inv_def order_msgs_def payment_msgs_def)
next
  case (clean_payments s rows)
  then have "p_log s \<union> r_msg ` set rows \<subseteq> payment_msgs s" by (auto simp: payment_msgs_def)
  then have "outcomes_ok C (payments (app (pdb s))) (p_log s \<union> r_msg ` set rows)"
    using clean_payments(3) unfolding saga_inv_def outcomes_ok_def by blast
  then show ?case using clean_payments(3) by (simp add: saga_inv_def order_msgs_def payment_msgs_def inbox_keys_def)
next
  case (pay s E m ev T sh' c p e)
  show ?case by (rule pay_step [OF pay(7) lib wf codec pay(2-6)])
next
  case (settle s E m ev T sh' c p e)
  show ?case by (rule saga_settle [OF settle(7) settle(2-6)])
qed

lemma same_order:
  assumes "distinct (map fst (map core os))" "r \<in> set os" "(o_id r, t, cur) \<in> set (map core os)"
  shows "t = o_amount r \<and> cur = o_asset r"
proof -
  have "core r \<in> set (map core os)" using assms(2) by simp
  then have "core r = (o_id r, t, cur)"
    using assms(1,3) by (metis core_def eq_key_imp_eq_value)
  then show ?thesis by (simp add: core_def)
qed

lemma payment_amount:
  assumes inv: "saga_inv C s" and r: "r \<in> set (orders (app (odb s)))" and p: "p \<in> set (payments (app (pdb s)))"
    and key: "c_parse C (p_order p) = Inr (o_id r)"
  shows "\<exists>cents. amount_is C (o_amount r) (o_asset r) cents \<and> p_status p = decided cents"
proof -
  obtain m cents cur where m: "m \<in> o_log s" "created_of C m = Some (p_order p, cents, cur)" "p_status p = decided cents"
    using inv p unfolding saga_inv_def payments_ok_def by blast
  have cr: "created_ok C (map core (orders (app (odb s)))) (order_msgs s)" using inv by (simp add: saga_inv_def)
  have "m \<in> order_msgs s" using m(1) by (simp add: order_msgs_def)
  then obtain x t where x: "c_parse C (p_order p) = Inr x" "(x, t, cur) \<in> set (map core (orders (app (odb s))))" "amount_is C t cur cents"
    using cr m(2) unfolding created_ok_def by blast
  have "x = o_id r" using x(1) key by simp
  then have "t = o_amount r \<and> cur = o_asset r"
    using same_order [OF _ r, of t cur] x(2) cr by (simp add: created_ok_def)
  then show ?thesis using x(3) m(3) by blast
qed
lemma distinct_key_once:
  "distinct (map f xs) \<Longrightarrow> length (filter (\<lambda>x. f x = k) xs) \<le> 1"
proof (induction xs)
  case (Cons x xs)
  then show ?case by (auto simp: filter_empty_conv image_iff)
qed simp

section \<open>Property\<close>

text \<open>C1. The two services stay consistent under redelivery, reordering, cleanup and any failure: in every
  reachable state an order is charged at most once; an order that is paid has a processed payment, and its
  amount is below the decline threshold; an order whose payment failed has a declined payment, and its amount
  reaches the threshold.\<close>

theorem saga_consistent:
  assumes "decimal_lib (c_dec C) dval" "registry_wf (c_reg C)" "codec_ok C" "saga_reach C s" "r \<in> set (orders (app (odb s)))"
  shows "length (filter (\<lambda>p. c_parse C (p_order p) = Inr (o_id r)) (payments (app (pdb s)))) \<le> 1
    \<and> (o_status r = StatusPaid \<longrightarrow>
        (\<exists>p \<in> set (payments (app (pdb s))). c_parse C (p_order p) = Inr (o_id r) \<and> p_status p = StatusProcessed)
        \<and> (\<exists>cents < DeclineThresholdMinor. amount_is C (o_amount r) (o_asset r) cents))
    \<and> (o_status r = StatusPaymentFailed \<longrightarrow>
        (\<exists>p \<in> set (payments (app (pdb s))). c_parse C (p_order p) = Inr (o_id r) \<and> p_status p = StatusFailed)
        \<and> (\<exists>cents \<ge> DeclineThresholdMinor. amount_is C (o_amount r) (o_asset r) cents))"
proof -
  have inv: "saga_inv C s" by (rule saga_invariant [OF assms(1-4)])
  have "distinct (map (\<lambda>r. c_parse C (p_order r)) (payments (app (pdb s))))" using inv by (simp add: saga_inv_def payments_ok_def)
  from distinct_key_once [OF this, of "Inr (o_id r)"] have once: "length (filter (\<lambda>p. c_parse C (p_order p) = Inr (o_id r)) (payments (app (pdb s)))) \<le> 1" .
  have so: "settled_ok C (orders (app (odb s))) (payments (app (pdb s)))" using inv by (simp add: saga_inv_def)
  have paid: "\<exists>cents < DeclineThresholdMinor. amount_is C (o_amount r) (o_asset r) cents"
    if p: "p \<in> set (payments (app (pdb s)))" "c_parse C (p_order p) = Inr (o_id r)" "p_status p = StatusProcessed" for p
    using payment_amount [OF inv assms(5) p(1,2)] p(3) pay_statuses_differ by (auto simp: decided_def not_le split: if_splits)
  have failed: "\<exists>cents \<ge> DeclineThresholdMinor. amount_is C (o_amount r) (o_asset r) cents"
    if p: "p \<in> set (payments (app (pdb s)))" "c_parse C (p_order p) = Inr (o_id r)" "p_status p = StatusFailed" for p
    using payment_amount [OF inv assms(5) p(1,2)] p(3) pay_statuses_differ by (auto simp: decided_def split: if_splits)
  show ?thesis using once so assms(5) paid failed unfolding settled_ok_def by blast
qed
definition demo_created :: order_event where "demo_created = OrderCreated ''o-1'' ''c'' 1999 ''USD''"
definition demo_processed :: payment_event where "demo_processed = EvProcessed ''o-1'' ''p-1'' StatusProcessed"

definition saga_demo :: "bigdec saga_cfg" where
  "saga_demo = \<lparr>c_dec = bd_ops, c_reg = init_registry, c_parse = Inr,
     c_mo = (\<lambda>ev. if ev = demo_created then Inr ''created'' else Inl (ErrText ''marshal'')),
     c_uo = (\<lambda>p. if p = ''created'' then Some demo_created else None),
     c_mp = (\<lambda>ev. if ev = demo_processed then Inr ''processed'' else Inl (ErrText ''marshal'')),
     c_up = (\<lambda>_ p. if p = ''processed'' then Some demo_processed else None), c_deadline = 30\<rparr>"

definition saga_oenv :: "bigdec orders_env" where
  "saga_oenv = (demo_oenv 1)\<lparr>marshal := c_mo saga_demo\<rparr>"

definition saga_penv :: "bigdec payments_env" where
  "saga_penv = demo_penv\<lparr>pe_marshal := c_mp saga_demo\<rparr>"

lemma demo_sides: "orders_side saga_demo saga_oenv" "payments_side saga_demo saga_penv" "codec_ok saga_demo"
  by (simp_all add: orders_side_def payments_side_def saga_oenv_def saga_penv_def saga_demo_def demo_oenv_def demo_penv_def codec_ok_def)

definition demo_start :: saga where
  "demo_start = \<lparr>odb = \<lparr>inbox = [], app = \<lparr>orders = [], o_outbox = []\<rparr>\<rparr>, pdb = \<lparr>inbox = [], app = \<lparr>payments = [], p_outbox = []\<rparr>\<rparr>,
     o_log = {}, p_log = {}\<rparr>"

lemma calm_once:
  assumes "(g, k) \<notin> set (inbox_keys s)" "f (app s) = (d', None)"
  shows "\<exists>sh. ProcessOnce calm g k (no_vars f) s () = (sh, (), True, None) \<and> app sh = d'"
  using assms by (simp add: ProcessOnce_def RunInTx_mem_def once_body_def insert_inbox_def calm_def no_vars_def)

lemma demo_create_saga:
  "\<exists>r row. CreateOrderHandler saga_oenv demo_cmd \<lparr>orders = [], o_outbox = []\<rparr> = (\<lparr>orders = [r], o_outbox = [row]\<rparr>, None)
     \<and> o_id r = ''o-1'' \<and> o_status r = StatusCreated \<and> EventType (r_msg row) = OrderCreatedEventType
     \<and> Payload (r_msg row) = ''created''"
proof -
  let ?r = "CreateOrderHandler saga_oenv demo_cmd \<lparr>orders = [], o_outbox = []\<rparr>"
  have "snd ?r = None" by code_simp
  then have h: "?r = (fst ?r, None)" by (metis prod.collapse)
  obtain i r row where c: "parse_uuid saga_oenv (co_id demo_cmd) = Inr i" "orders (fst ?r) = [r]" "o_outbox (fst ?r) = [row]" "o_id r = i"
    "o_status r = StatusCreated" "EventType (r_msg row) = OrderCreatedEventType"
    by (rule create_appends [OF h]) (metis append_Nil orders_db.select_convs)
  have "Payload (r_msg (last (o_outbox (fst ?r)))) = ''created''" by code_simp
  then show ?thesis using h c
    by (intro exI [of _ r] exI [of _ row]) (simp add: saga_oenv_def demo_oenv_def demo_cmd_def prod_eq_iff)
qed
lemma demo_pay_saga:
  "\<exists>p row. pay_on_event saga_penv demo_created \<lparr>payments = [], p_outbox = []\<rparr> = (\<lparr>payments = [p], p_outbox = [row]\<rparr>, None)
     \<and> EventType (r_msg row) = PaymentProcessedEventType \<and> Payload (r_msg row) = ''processed''"
proof -
  let ?cmd = "\<lparr>pp_order = ''o-1'', pp_cents = 1999, pp_currency = ''USD''\<rparr>"
  let ?db = "\<lparr>payments = [], p_outbox = []\<rparr>"
  let ?r = "ProcessPaymentHandler saga_penv ?cmd ?db"
  let ?amt = "mk_money (d_from_big_int bd_ops 1999 (- 2)) ''USD''"
  have sel: "pe_dec saga_penv = bd_ops" "pe_assets saga_penv = init_registry" "pe_stmt_err saga_penv = None" "pe_enqueue_err saga_penv = None"
    "pe_payment_id saga_penv = ''p-1''" "pe_marshal saga_penv = c_mp saga_demo"
    by (simp_all add: saga_penv_def demo_penv_def)
  have l: "decimal_lib (pe_dec saga_penv) bd_val" using bd.decimal_lib_axioms by (simp add: sel)
  have fm: "FromMinor (pe_dec saga_penv) (pe_assets saga_penv) (Some 1999) ''USD'' = Inr ?amt"
    by (simp add: sel FromMinor_def Lookup_def init_registry_USD)
  have mar: "c_mp saga_demo (EvProcessed ''o-1'' ''p-1'' StatusProcessed) = Inr ''processed''"
    by (simp add: saga_demo_def demo_processed_def)
  have "isDeclined saga_penv ?amt = Inr False"
    using decimal_lib.declined_iff [OF l refl _ _ fm] init_registry_USD by (simp add: sel DeclineThresholdMinor_def)
  then have h: "?r = (fst ?r, Inr (''p-1'', StatusProcessed))"
    using fm mar
    by (simp add: ProcessPaymentHandler_def Process_def outcome_def pay_Insert_def Enqueue_def InsertOutbox_def Let_def sel)
  have a: "pe_assets saga_penv (pp_currency ?cmd) = Some \<lparr>ACode = ''USD'', Exponent = 2, Kind = Fiat\<rparr>" "pp_currency ?cmd \<noteq> []"
    by (simp_all add: sel init_registry_USD)
  from payment_decided [OF l a h] obtain p row where
    "payments (fst ?r) = [p]" "p_outbox (fst ?r) = [row]" "EventType (r_msg row) = PaymentProcessedEventType"
    "c_mp saga_demo (EvProcessed ''o-1'' ''p-1'' StatusProcessed) = Inr (Payload (r_msg row))"
    using pay_statuses_differ by (auto simp: sel)
  then show ?thesis using h mar
    by (intro exI [of _ p] exI [of _ row]) (simp add: demo_created_def prod_eq_iff split: prod.splits)
qed

theorem saga_consistent_witness:
  "\<exists>s r. saga_reach saga_demo s \<and> orders (app (odb s)) = [r] \<and> o_status r = StatusPaid
     \<and> (\<exists>cents < DeclineThresholdMinor. amount_is saga_demo (o_amount r) (o_asset r) cents)"
proof -
  obtain r row where c: "CreateOrderHandler saga_oenv demo_cmd \<lparr>orders = [], o_outbox = []\<rparr> = (\<lparr>orders = [r], o_outbox = [row]\<rparr>, None)"
    "o_id r = ''o-1''" "o_status r = StatusCreated" "EventType (r_msg row) = OrderCreatedEventType" "Payload (r_msg row) = ''created''"
    using demo_create_saga by blast
  obtain p prow where p: "pay_on_event saga_penv demo_created \<lparr>payments = [], p_outbox = []\<rparr> = (\<lparr>payments = [p], p_outbox = [prow]\<rparr>, None)"
    "EventType (r_msg prow) = PaymentProcessedEventType" "Payload (r_msg prow) = ''processed''"
    using demo_pay_saga by blast
  have s0: "saga_reach saga_demo demo_start" by (rule saga_reach.start) (simp_all add: demo_start_def)
  have cc: "RunInTx None None (CreateOrderHandler saga_oenv demo_cmd) (app (odb demo_start)) = (\<lparr>orders = [r], o_outbox = [row]\<rparr>, None)"
    using c(1) by (simp add: RunInTx_None demo_start_def)
  have "- (2 ^ 63) \<le> co_cents demo_cmd" "co_cents demo_cmd < 2 ^ 63" by (simp_all add: demo_cmd_def)
  from saga_reach.create [OF s0 demo_sides(1) this cc]
  obtain s1 where s1: "saga_reach saga_demo s1" "app (odb s1) = \<lparr>orders = [r], o_outbox = [row]\<rparr>" "inbox (odb s1) = []"
    "pdb s1 = \<lparr>inbox = [], app = \<lparr>payments = [], p_outbox = []\<rparr>\<rparr>"
    by (rule that) (simp_all add: demo_start_def)
  from saga_reach.relay_orders [OF s1(1), of row]
  obtain s2 where s2: "saga_reach saga_demo s2" "r_msg row \<in> o_log s2" "odb s2 = odb s1" "pdb s2 = pdb s1"
    using s1(2) by (metis (no_types, lifting) insertI1 list.set_intros(1) orders_db.select_convs(2) saga.ext_inject saga.surjective saga.update_convs(3))
  obtain sh where sh: "ProcessOnce calm ''payments'' (ID (r_msg row)) (no_vars (pay_on_event saga_penv demo_created)) (pdb s2) () = (sh, (), True, None)"
    "app sh = \<lparr>payments = [p], p_outbox = [prow]\<rparr>"
    using calm_once [of "''payments''" "ID (r_msg row)" "pdb s2" "pay_on_event saga_penv demo_created"] p(1) s1(4) s2(4)
    by (auto simp: inbox_keys_def)
  have "c_uo saga_demo (Payload (r_msg row)) = Some demo_created" by (simp add: c saga_demo_def)
  from saga_reach.pay [OF s2(1) demo_sides(2) s2(2) c(4) this sh(1)]
  have s3: "saga_reach saga_demo (s2\<lparr>pdb := sh\<rparr>)" .
  from saga_reach.relay_payments [OF this, of prow]
  have s4: "saga_reach saga_demo (s2\<lparr>pdb := sh, p_log := insert (r_msg prow) (p_log s2)\<rparr>)" (is "saga_reach _ ?s4") using sh(2) by simp
  let ?r' = "r\<lparr>o_status := StatusPaid\<rparr>"
  have set1: "settle_event saga_oenv demo_processed (app (odb s2)) = (\<lparr>orders = [?r'], o_outbox = [row]\<rparr>, None)"
    using c(2,3) by (simp add: demo_processed_def ApplyPaymentOutcome_def Transition_def CanTransition_iff MarkPaymentOutcome_def
        update_where_def saga_oenv_def demo_oenv_def s2(3) s1(2) status_names(1))
  obtain sh' where sh': "ProcessOnce calm ''orders-payments'' (ID (r_msg prow)) (no_vars (settle_event saga_oenv demo_processed)) (odb s2) () = (sh', (), True, None)"
    "app sh' = \<lparr>orders = [?r'], o_outbox = [row]\<rparr>"
    using calm_once [of "''orders-payments''" "ID (r_msg prow)" "odb s2" "settle_event saga_oenv demo_processed", OF _ set1] s1(3) s2(3)
    by (auto simp: inbox_keys_def)
  have up: "c_up saga_demo (EventType (r_msg prow)) (Payload (r_msg prow)) = Some demo_processed"
    "EventType (r_msg prow) = event_type_of demo_processed"
    by (simp_all add: p saga_demo_def demo_processed_def)
  have "saga_reach saga_demo (?s4\<lparr>odb := sh'\<rparr>)"
    by (rule saga_reach.settle [OF s4 demo_sides(1) _ up, where T = calm and p = True and e = None and c = "()"]) (simp_all add: sh'(1))
  moreover have "decimal_lib (c_dec saga_demo) bd_val" "registry_wf (c_reg saga_demo)"
    using bd.decimal_lib_axioms init_registry_wf by (simp_all add: saga_demo_def)
  ultimately show ?thesis
    using saga_consistent [of saga_demo bd_val "?s4\<lparr>odb := sh'\<rparr>" ?r', OF _ _ demo_sides(3)] sh'(2)
    by (intro exI [of _ "?s4\<lparr>odb := sh'\<rparr>"] exI [of _ ?r']) simp
qed

end
