(* ===== verification/Projection.thy ===== *)
theory Projection
  imports Payments
begin

text \<open>
  \<open>examples/gateway\<close>, the read model: the projection of order and payment events into \<open>orders_read\<close>
  (\<open>internal/projection/projection.go\<close> with the statements of \<open>internal/store/queries/gateway.sql\<close>), the
  asynchronous batcher of pending rows (\<open>internal/api/pendingbatch.go\<close>) and the query for one order
  (\<open>internal/app/get_order.go\<close>). The table is a list of rows; its primary key is the order id.
\<close>

section \<open>The table\<close>

record read_row =
  rd_id :: string
  rd_customer :: string
  rd_cents :: int
  rd_currency :: string
  rd_status :: string
  rd_created :: int
  rd_updated :: int

definition row_of :: "read_row list \<Rightarrow> string \<Rightarrow> read_row option" where
  "row_of rows x = find (\<lambda>r. rd_id r = x) rows"

text \<open>\<open>insert ... on conflict (order_id) do update\<close>: the new row, or the update of the present one.\<close>

definition upsert :: "read_row \<Rightarrow> (read_row \<Rightarrow> read_row) \<Rightarrow> read_row list \<Rightarrow> read_row list" where
  "upsert new f rows =
     (if \<exists>r \<in> set rows. rd_id r = rd_id new then map (\<lambda>r. if rd_id r = rd_id new then f r else r) rows
      else rows @ [new])"

definition terminal_status :: "string \<Rightarrow> bool" where
  "terminal_status st \<longleftrightarrow> st \<in> {''paid'', ''payment_failed'', ''payment_timeout''}"

definition InsertPendingOrder :: "int \<Rightarrow> string \<times> string \<times> int \<times> string \<Rightarrow> read_row list \<Rightarrow> read_row list" where
  "InsertPendingOrder t p rows =
     (case p of (x, cust, cents, cur) \<Rightarrow>
        upsert \<lparr>rd_id = x, rd_customer = cust, rd_cents = cents, rd_currency = cur, rd_status = ''pending'',
                rd_created = t, rd_updated = t\<rparr> id rows)"

definition UpsertOrderCreated :: "int \<Rightarrow> string \<Rightarrow> string \<Rightarrow> int \<Rightarrow> string \<Rightarrow> read_row list \<Rightarrow> read_row list" where
  "UpsertOrderCreated t x cust cents cur rows =
     upsert \<lparr>rd_id = x, rd_customer = cust, rd_cents = cents, rd_currency = cur, rd_status = ''created'',
             rd_created = t, rd_updated = t\<rparr>
       (\<lambda>r. r\<lparr>rd_customer := cust, rd_cents := cents, rd_currency := cur, rd_updated := t,
              rd_status := (if terminal_status (rd_status r) then rd_status r else ''created'')\<rparr>) rows"

text \<open>\<open>MarkPaid\<close>, \<open>MarkPaymentFailed\<close> and \<open>MarkPaymentTimeout\<close> differ in the status only; the value is the
  returned row \<open>(created_at, inserted)\<close>, absent when the guard of the update failed.\<close>

definition mark_terminal :: "string \<Rightarrow> int \<Rightarrow> string \<Rightarrow> read_row list \<Rightarrow> read_row list \<times> (int \<times> bool) option" where
  "mark_terminal st t x rows =
     (case row_of rows x of
        None \<Rightarrow> (rows @ [\<lparr>rd_id = x, rd_customer = '''', rd_cents = 0, rd_currency = '''', rd_status = st,
                          rd_created = t, rd_updated = t\<rparr>], Some (t, True))
      | Some r \<Rightarrow>
          if terminal_status (rd_status r) then (rows, None)
          else (map (\<lambda>r. if rd_id r = x then r\<lparr>rd_status := st, rd_updated := t\<rparr> else r) rows, Some (rd_created r, False)))"

section \<open>projection.go\<close>

datatype read_event = FromOrders order_event | FromPayments payment_event

record read_env =
  re_parse :: "string \<Rightarrow> (go_err, string) result"
  re_err :: "go_err option"
  re_now :: int

type_synonym read_world = "read_row list \<times> (string \<times> int) list"

definition parseOrderID :: "read_env \<Rightarrow> string \<Rightarrow> (go_err, string) result" where
  "parseOrderID E raw =
     map_sum (ErrWrap (''projection: parse order_id '' @ [CHR 0x22] @ raw @ [CHR 0x22])) id (re_parse E raw)"

text \<open>A terminal event: the second component of the world collects the observed lifecycle samples.\<close>

definition terminal_handler :: "read_env \<Rightarrow> string \<Rightarrow> string \<Rightarrow> string \<Rightarrow> read_world \<Rightarrow> read_world \<times> go_err option" where
  "terminal_handler E what st raw w =
     (case parseOrderID E raw of
        Inl e \<Rightarrow> (w, Some e)
      | Inr x \<Rightarrow>
          (case re_err E of
             Some e \<Rightarrow> (w, Some (ErrWrap what e))
           | None \<Rightarrow>
               (case mark_terminal st (re_now E) x (fst w) of
                  (rows, None) \<Rightarrow> ((rows, snd w), None)
                | (rows, Some (created, inserted)) \<Rightarrow>
                    ((rows, if inserted then snd w else snd w @ [(st, created)]), None))))"

fun project :: "read_env \<Rightarrow> read_event \<Rightarrow> read_world \<Rightarrow> read_world \<times> go_err option" where
  "project E (FromOrders (OrderCreated raw cust cents cur)) w =
     (case parseOrderID E raw of
        Inl e \<Rightarrow> (w, Some e)
      | Inr x \<Rightarrow>
          (case re_err E of
             Some e \<Rightarrow> (w, Some (ErrWrap ''projection: upsert OrderCreated'' e))
           | None \<Rightarrow> ((UpsertOrderCreated (re_now E) x cust cents cur (fst w), snd w), None)))"
| "project E (FromPayments (EvProcessed raw pid st)) w = terminal_handler E ''projection: mark paid'' ''paid'' raw w"
| "project E (FromOrders (OrderPaymentTimedOut raw dl)) w =
     terminal_handler E ''projection: mark payment_timeout'' ''payment_timeout'' raw w"
| "project E (FromPayments (EvFailed raw reason t)) w =
     terminal_handler E ''projection: mark payment_failed'' ''payment_failed'' raw w"

definition OrderCacheKey :: "string \<Rightarrow> string" where
  "OrderCacheKey orderID = ''gw:v3:order:'' @ orderID"

text \<open>After the commit: the cached view of the order is deleted (best effort), subscribers are notified.\<close>

definition bustOrderCache :: "go_err option \<Rightarrow> string \<Rightarrow> (string \<rightharpoonup> 'v) option \<Rightarrow> (string \<rightharpoonup> 'v) option" where
  "bustOrderCache err orderID cache =
     (case cache of
        None \<Rightarrow> None
      | Some c \<Rightarrow> (case err of Some _ \<Rightarrow> Some c | None \<Rightarrow> Some (c(OrderCacheKey orderID := None))))"

text \<open>The hook that runs once the transaction of an event has committed: bust, then notify when a notifier is set.\<close>

definition committed :: "go_err option \<Rightarrow> bool \<Rightarrow> string \<Rightarrow> (string \<rightharpoonup> 'v) option \<times> string list \<Rightarrow> (string \<rightharpoonup> 'v) option \<times> string list" where
  "committed err has_notify orderID w =
     (bustOrderCache err orderID (fst w), if has_notify then snd w @ [orderID] else snd w)"

section \<open>get_order.go\<close>

datatype 'v get_result = Found 'v | OrderNotFound string | GetFailed go_err

record order_view =
  v_order :: string
  v_customer :: string
  v_status :: string
  v_cents :: int
  v_currency :: string
  v_created :: int

definition to_view :: "read_row \<Rightarrow> order_view" where
  "to_view r = \<lparr>v_order = rd_id r, v_customer = rd_customer r, v_status = rd_status r, v_cents = rd_cents r,
     v_currency = rd_currency r, v_created = rd_created r\<rparr>"

definition GetOrderHandler :: "read_env \<Rightarrow> go_err option \<Rightarrow> string \<Rightarrow> read_row list list \<Rightarrow> order_view get_result" where
  "GetOrderHandler E shard_err q dbs =
     (case re_parse E q of
        Inl _ \<Rightarrow> OrderNotFound q
      | Inr x \<Rightarrow>
          (case shard_err of
             Some e \<Rightarrow> GetFailed (ErrWrap ''app: resolve order shard'' e)
           | None \<Rightarrow>
               (case re_err E of
                  Some e \<Rightarrow> GetFailed (ErrWrap ''app: get order view'' e)
                | None \<Rightarrow>
                    (case row_of (dbs ! Resolve dbs q) x of
                       None \<Rightarrow> OrderNotFound q
                     | Some r \<Rightarrow> Found (to_view r)))))"

section \<open>pendingbatch.go\<close>

type_synonym pending = "string \<times> string \<times> int \<times> string"

record batcher =
  maxBatch :: nat
  bufSize :: nat
  buf :: "pending list"
  batch :: "pending list"
  dropped :: nat
  read_shards :: "read_row list list"

text \<open>\<open>Enqueue\<close> never blocks: a full buffer drops the row and counts it.\<close>

definition batcher_Enqueue :: "pending \<Rightarrow> batcher \<Rightarrow> batcher" where
  "batcher_Enqueue p b =
     (if length (buf b) < bufSize b then b\<lparr>buf := buf b @ [p]\<rparr> else b\<lparr>dropped := dropped b + 1\<rparr>)"

definition insert_pendings :: "int \<Rightarrow> pending list \<Rightarrow> read_row list \<Rightarrow> read_row list" where
  "insert_pendings t ps rows = foldl (\<lambda>rs p. InsertPendingOrder t p rs) rows ps"

text \<open>One flush: the server's clock, the outcome of the statement on each shard, and the order in which the
  Go map of groups is iterated.\<close>

record flush_env =
  f_now :: int
  f_err :: "nat \<Rightarrow> go_err option"
  f_order :: "nat list"

definition flushShard :: "flush_env \<Rightarrow> nat \<Rightarrow> pending list \<Rightarrow> batcher \<Rightarrow> batcher" where
  "flushShard F j ps b =
     (case f_err F j of
        Some _ \<Rightarrow> b\<lparr>dropped := dropped b + length ps\<rparr>
      | None \<Rightarrow> b\<lparr>read_shards := (read_shards b)[j := insert_pendings (f_now F) ps (read_shards b ! j)]\<rparr>)"

definition group_of :: "read_row list list \<Rightarrow> pending list \<Rightarrow> nat \<Rightarrow> pending list" where
  "group_of dbs ps j = filter (\<lambda>p. Resolve dbs (fst p) = j) ps"

fun flush_groups :: "flush_env \<Rightarrow> nat list \<Rightarrow> pending list \<Rightarrow> batcher \<Rightarrow> batcher" where
  "flush_groups F [] ps b = b"
| "flush_groups F (j # js) ps b =
     flush_groups F js ps
       (if group_of (read_shards b) ps j = [] then b else flushShard F j (group_of (read_shards b) ps j) b)"

definition batcher_flush :: "flush_env \<Rightarrow> batcher \<Rightarrow> batcher" where
  "batcher_flush F b =
     (if batch b = [] then b else (flush_groups F (f_order F) (batch b) b)\<lparr>batch := []\<rparr>)"

text \<open>\<open>Run\<close> takes one row from the buffer (a tick is \<open>batcher_flush\<close>); \<open>drain\<close> empties the buffer at shutdown,
  its \<open>k\<close>-th flush under \<open>F k\<close>.\<close>

definition batcher_receive :: "flush_env \<Rightarrow> batcher \<Rightarrow> batcher" where
  "batcher_receive F b =
     (case buf b of
        [] \<Rightarrow> b
      | p # ps \<Rightarrow>
          (let b1 = b\<lparr>buf := ps, batch := batch b @ [p]\<rparr>
           in if maxBatch b \<le> length (batch b1) then batcher_flush F b1 else b1))"

fun drain_loop :: "(nat \<Rightarrow> flush_env) \<Rightarrow> nat \<Rightarrow> nat \<Rightarrow> batcher \<Rightarrow> batcher" where
  "drain_loop F k 0 b = batcher_flush (F k) b"
| "drain_loop F k (Suc n) b = drain_loop F (k + 1) n (batcher_receive (F k) b)"

definition batcher_drain :: "(nat \<Rightarrow> flush_env) \<Rightarrow> batcher \<Rightarrow> batcher" where
  "batcher_drain F b = drain_loop F 0 (length (buf b)) b"

section \<open>Lemmas\<close>

lemma row_of_id: "row_of rows x = Some r \<Longrightarrow> rd_id r = x \<and> r \<in> set rows"
  by (auto simp: row_of_def find_Some_iff)

lemma row_of_None: "row_of rows x = None \<longleftrightarrow> (\<forall>r \<in> set rows. rd_id r \<noteq> x)"
  by (auto simp: row_of_def find_None_iff)

lemma row_of_append: "row_of (rows @ [r]) y = (case row_of rows y of Some q \<Rightarrow> Some q | None \<Rightarrow> if rd_id r = y then Some r else None)"
  by (induction rows) (simp_all add: row_of_def)

lemma row_of_map:
  "(\<And>r. rd_id (f r) = rd_id r) \<Longrightarrow>
     row_of (map (\<lambda>r. if rd_id r = x then f r else r) rows) y = (if y = x then map_option f (row_of rows y) else row_of rows y)"
  by (induction rows) (auto simp: row_of_def)

lemma row_of_upsert:
  assumes "\<And>r. rd_id (f r) = rd_id r"
  shows "row_of (upsert new f rows) y =
     (if y = rd_id new then Some (case row_of rows y of None \<Rightarrow> new | Some r \<Rightarrow> f r) else row_of rows y)"
proof (cases "\<exists>r \<in> set rows. rd_id r = rd_id new")
  case True
  then have "row_of rows (rd_id new) \<noteq> None" by (auto simp: row_of_None)
  then show ?thesis using True by (auto simp: upsert_def row_of_map assms)
next
  case False
  then have "row_of rows (rd_id new) = None" by (auto simp: row_of_None)
  then show ?thesis using False by (auto simp: upsert_def row_of_append split: option.splits)
qed

section \<open>What the projection computes\<close>

text \<open>The history of one order as the read model sees it, and the view it should have: details from the last
  created event, status from the first terminal event.\<close>

datatype history = Pended string int string | Created string int string | Ended string

definition ends :: "history list \<Rightarrow> string list" where
  "ends hs = concat (map (\<lambda>h. case h of Ended st \<Rightarrow> [st] | _ \<Rightarrow> []) hs)"

definition creations :: "history list \<Rightarrow> (string \<times> int \<times> string) list" where
  "creations hs = concat (map (\<lambda>h. case h of Created c n u \<Rightarrow> [(c, n, u)] | _ \<Rightarrow> []) hs)"

definition status_spec :: "history list \<Rightarrow> string" where
  "status_spec hs = (case ends hs of st # _ \<Rightarrow> st | [] \<Rightarrow> if creations hs \<noteq> [] then ''created'' else ''pending'')"

definition details_spec :: "history list \<Rightarrow> string \<times> int \<times> string" where
  "details_spec hs =
     (if creations hs \<noteq> [] then last (creations hs)
      else case hd hs of Pended c n u \<Rightarrow> (c, n, u) | _ \<Rightarrow> ('''', 0, ''''))"

datatype read_op = Pend pending | Event read_event

fun run_read :: "read_env \<Rightarrow> read_op \<Rightarrow> read_world \<Rightarrow> read_world \<times> go_err option" where
  "run_read E (Pend p) w = (case re_err E of Some e \<Rightarrow> (w, Some e) | None \<Rightarrow> ((InsertPendingOrder (re_now E) p (fst w), snd w), None))"
| "run_read E (Event ev) w = project E ev w"

fun history_of :: "read_env \<Rightarrow> read_op \<Rightarrow> (string \<times> history) option" where
  "history_of E (Pend (x, c, n, u)) = Some (x, Pended c n u)"
| "history_of E (Event (FromOrders (OrderCreated raw c n u))) = (case re_parse E raw of Inr x \<Rightarrow> Some (x, Created c n u) | _ \<Rightarrow> None)"
| "history_of E (Event (FromOrders (OrderPaymentTimedOut raw _))) = (case re_parse E raw of Inr x \<Rightarrow> Some (x, Ended ''payment_timeout'') | _ \<Rightarrow> None)"
| "history_of E (Event (FromPayments (EvProcessed raw _ _))) = (case re_parse E raw of Inr x \<Rightarrow> Some (x, Ended ''paid'') | _ \<Rightarrow> None)"
| "history_of E (Event (FromPayments (EvFailed raw _ _))) = (case re_parse E raw of Inr x \<Rightarrow> Some (x, Ended ''payment_failed'') | _ \<Rightarrow> None)"

text \<open>Transactions in sequence; one that fails leaves the world as it was.\<close>

definition tx_read :: "read_env \<times> read_op \<Rightarrow> read_world \<Rightarrow> read_world" where
  "tx_read op w = fst (RunInTx None None (run_read (fst op) (snd op)) w)"

definition run_all :: "(read_env \<times> read_op) list \<Rightarrow> read_world" where
  "run_all ops = foldl (\<lambda>w op. tx_read op w) ([], []) ops"

definition entry_of :: "read_env \<times> read_op \<Rightarrow> (string \<times> history) option" where
  "entry_of op = (if re_err (fst op) = None then history_of (fst op) (snd op) else None)"

definition history_for :: "string \<Rightarrow> (read_env \<times> read_op) list \<Rightarrow> history list" where
  "history_for x ops = map snd (filter (\<lambda>e. fst e = x) (List.map_filter entry_of ops))"

definition shows_history :: "read_row option \<Rightarrow> history list \<Rightarrow> bool" where
  "shows_history r hs \<longleftrightarrow>
     (case r of
        None \<Rightarrow> hs = []
      | Some r \<Rightarrow> hs \<noteq> [] \<and> rd_status r = status_spec hs \<and> (rd_customer r, rd_cents r, rd_currency r) = details_spec hs)"

lemma ends_snoc: "ends (hs @ [h]) = ends hs @ (case h of Ended st \<Rightarrow> [st] | _ \<Rightarrow> [])"
  by (simp add: ends_def)

lemma creations_snoc: "creations (hs @ [h]) = creations hs @ (case h of Created c n u \<Rightarrow> [(c, n, u)] | _ \<Rightarrow> [])"
  by (simp add: creations_def)

lemmas spec_snoc = status_spec_def details_spec_def ends_snoc creations_snoc

definition ended_ok :: "history list \<Rightarrow> bool" where
  "ended_ok hs \<longleftrightarrow> list_all terminal_status (ends hs)"

lemma terminal_iff: "ended_ok hs \<Longrightarrow> terminal_status (status_spec hs) \<longleftrightarrow> ends hs \<noteq> []"
  by (cases "ends hs") (auto simp: status_spec_def ended_ok_def terminal_status_def)

lemma show_pending:
  assumes "shows_history (row_of rows x) hs"
  shows "shows_history (row_of (InsertPendingOrder t (x, c, n, u) rows) x) (hs @ [Pended c n u])"
  using assms by (cases "row_of rows x") (auto simp: InsertPendingOrder_def row_of_upsert shows_history_def spec_snoc ends_def creations_def)

lemma show_created:
  assumes "shows_history (row_of rows x) hs" "ended_ok hs"
  shows "shows_history (row_of (UpsertOrderCreated t x c n u rows) x) (hs @ [Created c n u])"
proof (cases "row_of rows x")
  case None
  then show ?thesis using assms by (auto simp: UpsertOrderCreated_def row_of_upsert shows_history_def spec_snoc ends_def creations_def)
next
  case (Some r)
  then have "hs \<noteq> []" "rd_status r = status_spec hs" using assms by (auto simp: shows_history_def)
  moreover from this have "terminal_status (rd_status r) \<longleftrightarrow> ends hs \<noteq> []" using terminal_iff assms(2) by simp
  ultimately show ?thesis using Some
    by (cases "ends hs") (simp_all add: UpsertOrderCreated_def row_of_upsert shows_history_def spec_snoc)
qed

lemma row_of_mark:
  assumes "mark_terminal st t x rows = (rows', res)"
  shows "row_of rows' y = (if y = x then (case row_of rows x of
        None \<Rightarrow> Some \<lparr>rd_id = x, rd_customer = '''', rd_cents = 0, rd_currency = '''', rd_status = st, rd_created = t, rd_updated = t\<rparr>
      | Some r \<Rightarrow> Some (if terminal_status (rd_status r) then r else r\<lparr>rd_status := st, rd_updated := t\<rparr>)) else row_of rows y)"
  using assms by (auto simp: mark_terminal_def row_of_append row_of_map split: option.splits if_splits)

lemma show_ended:
  assumes "shows_history (row_of rows x) hs" "ended_ok hs" "mark_terminal st t x rows = (rows', res)"
  shows "shows_history (row_of rows' x) (hs @ [Ended st])"
proof (cases "row_of rows x")
  case None
  then show ?thesis using assms by (auto simp: row_of_mark [OF assms(3)] shows_history_def spec_snoc ends_def creations_def)
next
  case (Some r)
  then have "hs \<noteq> []" "rd_status r = status_spec hs" using assms by (auto simp: shows_history_def)
  moreover from this have "terminal_status (rd_status r) \<longleftrightarrow> ends hs \<noteq> []" using terminal_iff assms(2) by simp
  ultimately show ?thesis using Some assms(1)
    by (cases "ends hs") (simp_all add: row_of_mark [OF assms(3)] shows_history_def spec_snoc)
qed

text \<open>One transaction: the rows of other orders stay, the order it names gets one more entry.\<close>

lemma tx_read_effect:
  assumes "entry_of op = Some (x, h)" "ended_ok hs" "shows_history (row_of (fst w) x) hs"
  shows "shows_history (row_of (fst (tx_read op w)) x) (hs @ [h]) \<and> (\<forall>y. y \<noteq> x \<longrightarrow> row_of (fst (tx_read op w)) y = row_of (fst w) y)"
proof -
  obtain E o1 where op: "op = (E, o1)" by fastforce
  have e: "re_err E = None" and h: "history_of E o1 = Some (x, h)" using assms(1) by (auto simp: entry_of_def op split: if_splits)
  have tx: "fst (tx_read op w) = fst (fst (run_read E o1 w))" if "snd (run_read E o1 w) = None"
    using that by (auto simp: tx_read_def op RunInTx_def split: prod.splits option.splits)
  have fin: "shows_history (row_of (fst (fst (terminal_handler E what st raw w))) x) (hs @ [Ended st])
      \<and> (\<forall>y. y \<noteq> x \<longrightarrow> row_of (fst (fst (terminal_handler E what st raw w))) y = row_of (fst w) y)
      \<and> snd (terminal_handler E what st raw w) = None" if parse: "re_parse E raw = Inr x" for what st raw
  proof -
    obtain rows' res where m: "mark_terminal st (re_now E) x (fst w) = (rows', res)" by fastforce
    have "\<exists>obs. terminal_handler E what st raw w = ((rows', obs), None)"
      using parse e m by (auto simp: terminal_handler_def parseOrderID_def split: option.splits prod.splits)
    then show ?thesis using show_ended [OF assms(3,2) m] row_of_mark [OF m] by auto
  qed
  show ?thesis
  proof (cases o1)
    case (Pend p)
    then obtain c n u where p: "p = (x, c, n, u)" "h = Pended c n u" using h by (cases p) auto
    have "row_of (InsertPendingOrder t (x, c, n, u) rows) y = row_of rows y" if "y \<noteq> x" for t rows y
      using that by (simp add: InsertPendingOrder_def row_of_upsert)
    then show ?thesis using show_pending [OF assms(3)] Pend p e tx by simp
  next
    case (Event ev)
    show ?thesis
    proof (cases ev)
      case (FromOrders oe)
      show ?thesis
      proof (cases oe)
        case (OrderCreated raw c n u)
        then have p: "re_parse E raw = Inr x" "h = Created c n u" using h Event FromOrders by (auto split: sum.splits)
        have "row_of (UpsertOrderCreated t x c n u rows) y = row_of rows y" if "y \<noteq> x" for t rows y
          using that by (simp add: UpsertOrderCreated_def row_of_upsert)
        then show ?thesis using show_created [OF assms(3,2)] OrderCreated Event FromOrders p e tx by (simp add: parseOrderID_def)
      next
        case (OrderPaymentTimedOut raw dl)
        then have p: "re_parse E raw = Inr x" "h = Ended ''payment_timeout''" using h Event FromOrders by (auto split: sum.splits)
        then show ?thesis using fin [OF p(1)] OrderPaymentTimedOut Event FromOrders tx by simp
      qed
    next
      case (FromPayments pe)
      show ?thesis
      proof (cases pe)
        case (EvProcessed raw pid s)
        then have p: "re_parse E raw = Inr x" "h = Ended ''paid''" using h Event FromPayments by (auto split: sum.splits)
        then show ?thesis using fin [OF p(1)] EvProcessed Event FromPayments tx by simp
      next
        case (EvFailed raw rs t)
        then have p: "re_parse E raw = Inr x" "h = Ended ''payment_failed''" using h Event FromPayments by (auto split: sum.splits)
        then show ?thesis using fin [OF p(1)] EvFailed Event FromPayments tx by simp
      qed
    qed
  qed
qed

lemma tx_read_error:
  assumes "entry_of op = None"
  shows "tx_read op w = w"
proof -
  obtain E o1 where op: "op = (E, o1)" by fastforce
  have "snd (run_read E o1 w) \<noteq> None"
    using assms by (cases "(E, o1)" rule: history_of.cases)
      (auto simp: entry_of_def op terminal_handler_def parseOrderID_def split: if_splits sum.splits option.splits)
  then show ?thesis by (auto simp: tx_read_def op RunInTx_def split: prod.splits option.splits)
qed

lemma history_snoc:
  "history_for x (ops @ [op]) = history_for x ops @ (case entry_of op of Some (y, h) \<Rightarrow> if y = x then [h] else [] | None \<Rightarrow> [])"
  by (auto simp: history_for_def List.map_filter_def split: option.splits)

lemma entry_terminal: "entry_of op = Some (x, Ended st) \<Longrightarrow> terminal_status st"
  by (cases op rule: history_of.cases) (auto simp: entry_of_def terminal_status_def split: if_splits sum.splits)

lemma history_ended_ok: "ended_ok (history_for x ops)"
proof (induction ops rule: rev_induct)
  case Nil
  then show ?case by (simp add: history_for_def ended_ok_def ends_def List.map_filter_def)
next
  case (snoc op ops)
  then show ?case using entry_terminal [of op x]
    by (auto simp: history_snoc ended_ok_def ends_snoc split: option.splits history.splits)
qed

lemma run_all_snoc: "run_all (ops @ [op]) = tx_read op (run_all ops)"
  by (simp add: run_all_def)

lemma run_all_shows: "shows_history (row_of (fst (run_all ops)) x) (history_for x ops)"
proof (induction ops arbitrary: x rule: rev_induct)
  case Nil
  then show ?case by (simp add: run_all_def history_for_def row_of_def shows_history_def List.map_filter_def)
next
  case (snoc op ops)
  show ?case
  proof (cases "entry_of op")
    case None
    then show ?thesis using snoc by (simp add: run_all_snoc history_snoc tx_read_error)
  next
    case (Some e)
    obtain y h where e: "e = (y, h)" by fastforce
    from tx_read_effect [OF Some [unfolded e] history_ended_ok snoc [of y]] show ?thesis
      using snoc [of x] Some e by (cases "y = x") (auto simp: run_all_snoc history_snoc)
  qed
qed

section \<open>The batcher of pending rows\<close>

definition covers_shards :: "flush_env \<Rightarrow> batcher \<Rightarrow> bool" where
  "covers_shards F b \<longleftrightarrow> distinct (f_order F) \<and> set (f_order F) = {..<length (read_shards b)}"

text \<open>The batcher with the rows enqueued so far; other writers of the read model may add and change rows.\<close>

inductive batch_reach :: "batcher \<Rightarrow> pending list \<Rightarrow> bool" where
  start: "buf b = [] \<Longrightarrow> batch b = [] \<Longrightarrow> dropped b = 0 \<Longrightarrow> read_shards b \<noteq> [] \<Longrightarrow> batch_reach b []"
| enqueue: "batch_reach b Q \<Longrightarrow> batch_reach (batcher_Enqueue p b) (Q @ [p])"
| receive: "batch_reach b Q \<Longrightarrow> covers_shards F b \<Longrightarrow> batch_reach (batcher_receive F b) Q"
| tick: "batch_reach b Q \<Longrightarrow> covers_shards F b \<Longrightarrow> batch_reach (batcher_flush F b) Q"
| drain: "batch_reach b Q \<Longrightarrow> (\<forall>k. covers_shards (F k) b) \<Longrightarrow> batch_reach (batcher_drain F b) Q"
| others: "batch_reach b Q \<Longrightarrow> length S = length (read_shards b) \<Longrightarrow>
     (\<forall>j x. row_of (read_shards b ! j) x \<noteq> None \<longrightarrow> row_of (S ! j) x \<noteq> None) \<Longrightarrow> batch_reach (b\<lparr>read_shards := S\<rparr>) Q"

definition stored :: "batcher \<Rightarrow> pending \<Rightarrow> bool" where
  "stored b p \<longleftrightarrow> row_of (read_shards b ! Resolve (read_shards b) (fst p)) (fst p) \<noteq> None"

definition batch_inv :: "batcher \<Rightarrow> pending list \<Rightarrow> bool" where
  "batch_inv b Q \<longleftrightarrow>
     read_shards b \<noteq> [] \<and> length (buf b) \<le> bufSize b \<and> length (batch b) < max 1 (maxBatch b)
     \<and> (\<exists>lost. length lost = dropped b \<and> (\<forall>p \<in> set Q. p \<in> set (buf b) \<or> p \<in> set (batch b) \<or> p \<in> set lost \<or> stored b p))"

definition keeps_rows :: "batcher \<Rightarrow> batcher \<Rightarrow> bool" where
  "keeps_rows b b' \<longleftrightarrow> length (read_shards b') = length (read_shards b)
     \<and> (\<forall>j x. row_of (read_shards b ! j) x \<noteq> None \<longrightarrow> row_of (read_shards b' ! j) x \<noteq> None)"

lemma keeps_stored: "keeps_rows b b' \<Longrightarrow> stored b p \<Longrightarrow> stored b' p"
  unfolding keeps_rows_def stored_def using Resolve_length [of "read_shards b" "read_shards b'" "fst p"] by simp

lemma row_of_pending:
  "row_of (InsertPendingOrder t p rows) x \<noteq> None \<longleftrightarrow> row_of rows x \<noteq> None \<or> x = fst p"
  by (cases p) (auto simp: InsertPendingOrder_def row_of_upsert split: option.splits)

lemma insert_pendings_rows: "row_of (insert_pendings t ps rows) x \<noteq> None \<longleftrightarrow> row_of rows x \<noteq> None \<or> x \<in> fst ` set ps"
proof (induction ps arbitrary: rows)
  case Nil
  then show ?case by (simp add: insert_pendings_def)
next
  case (Cons p ps)
  have "insert_pendings t (p # ps) rows = insert_pendings t ps (InsertPendingOrder t p rows)" by (simp add: insert_pendings_def)
  then show ?case using Cons row_of_pending by auto
qed

lemma flushShard_effect:
  assumes "j < length (read_shards b)" "b' = flushShard F j ps b"
  shows "keeps_rows b b' \<and> buf b' = buf b \<and> batch b' = batch b \<and> maxBatch b' = maxBatch b \<and> bufSize b' = bufSize b
    \<and> (\<exists>lost. dropped b' = dropped b + length lost
        \<and> (\<forall>p \<in> set ps. p \<in> set lost \<or> row_of (read_shards b' ! j) (fst p) \<noteq> None))"
proof (cases "f_err F j")
  case None
  have "keeps_rows b b'"
    unfolding keeps_rows_def assms(2) flushShard_def None using assms(1)
    by (auto simp: nth_list_update insert_pendings_rows simp del: not_None_eq)
  moreover have "\<forall>p \<in> set ps. row_of (read_shards b' ! j) (fst p) \<noteq> None"
    using assms None by (simp add: flushShard_def insert_pendings_rows del: not_None_eq)
  ultimately show ?thesis using assms None by (auto simp: flushShard_def intro: exI [of _ "[]"])
next
  case (Some e)
  then show ?thesis using assms by (auto simp: flushShard_def keeps_rows_def intro: exI [of _ ps])
qed

lemma flush_groups_effect:
  assumes "set js \<subseteq> {..<length (read_shards b)}" "b' = flush_groups F js ps b"
  shows "keeps_rows b b' \<and> buf b' = buf b \<and> batch b' = batch b \<and> maxBatch b' = maxBatch b \<and> bufSize b' = bufSize b
    \<and> (\<exists>lost. dropped b' = dropped b + length lost
        \<and> (\<forall>p \<in> set ps. Resolve (read_shards b) (fst p) \<in> set js \<longrightarrow> p \<in> set lost \<or> stored b' p))"
  using assms
proof (induction js arbitrary: b)
  case Nil
  then show ?case by (auto simp: keeps_rows_def intro: exI [of _ "[]"])
next
  case (Cons j js)
  let ?g = "group_of (read_shards b) ps j"
  define b1 where "b1 = (if ?g = [] then b else flushShard F j ?g b)"
  obtain l1 where one: "keeps_rows b b1" "buf b1 = buf b" "batch b1 = batch b" "maxBatch b1 = maxBatch b" "bufSize b1 = bufSize b"
    "dropped b1 = dropped b + length l1" "\<forall>p \<in> set ?g. p \<in> set l1 \<or> row_of (read_shards b1 ! j) (fst p) \<noteq> None"
  proof (cases "?g = []")
    case True
    then show thesis using that [of "[]"] by (simp add: b1_def keeps_rows_def)
  next
    case False
    then show thesis using flushShard_effect [of j b b1 F ?g] that Cons.prems(1) by (auto simp: b1_def)
  qed
  have len: "length (read_shards b1) = length (read_shards b)" using one(1) by (simp add: keeps_rows_def)
  have b': "b' = flush_groups F js ps b1" using Cons.prems(2) by (simp add: b1_def)
  from Cons.IH [OF _ b'] Cons.prems(1) len obtain l2 where
    two: "keeps_rows b1 b'" "buf b' = buf b1" "batch b' = batch b1" "maxBatch b' = maxBatch b1" "bufSize b' = bufSize b1"
    "dropped b' = dropped b1 + length l2"
    "\<forall>p \<in> set ps. Resolve (read_shards b1) (fst p) \<in> set js \<longrightarrow> p \<in> set l2 \<or> stored b' p" by auto
  have res: "Resolve (read_shards b1) k = Resolve (read_shards b) k" for k using len by (rule Resolve_length)
  have "p \<in> set (l1 @ l2) \<or> stored b' p" if p: "p \<in> set ps" "Resolve (read_shards b) (fst p) \<in> set (j # js)" for p
  proof (cases "Resolve (read_shards b) (fst p) = j")
    case True
    then have "p \<in> set ?g" using p by (simp add: group_of_def)
    then have "p \<in> set l1 \<or> stored b1 p" using one(7) True res by (auto simp: stored_def)
    then show ?thesis using keeps_stored [OF two(1), of p] by auto
  next
    case False
    then show ?thesis using two(7) p res by auto
  qed
  moreover have "keeps_rows b b'" using one(1) two(1) by (simp add: keeps_rows_def)
  ultimately show ?case using one two by (intro conjI exI [of _ "l1 @ l2"]) auto
qed

lemma flush_effect:
  assumes "covers_shards F b" "read_shards b \<noteq> []" "b' = batcher_flush F b"
  shows "keeps_rows b b' \<and> buf b' = buf b \<and> batch b' = [] \<and> maxBatch b' = maxBatch b \<and> bufSize b' = bufSize b
    \<and> (\<exists>lost. dropped b' = dropped b + length lost \<and> (\<forall>p \<in> set (batch b). p \<in> set lost \<or> stored b' p))"
proof (cases "batch b = []")
  case True
  then show ?thesis using assms by (auto simp: batcher_flush_def keeps_rows_def intro: exI [of _ "[]"])
next
  case False
  let ?b = "flush_groups F (f_order F) (batch b) b"
  have b': "b' = ?b\<lparr>batch := []\<rparr>" using assms False by (simp add: batcher_flush_def)
  have sub: "set (f_order F) \<subseteq> {..<length (read_shards b)}" and all: "Resolve (read_shards b) k \<in> set (f_order F)" for k
    using assms Resolve_less by (auto simp: covers_shards_def)
  from flush_groups_effect [OF sub refl, of F "batch b"] all
  obtain lost where "keeps_rows b ?b" "buf ?b = buf b" "maxBatch ?b = maxBatch b" "bufSize ?b = bufSize b"
    "dropped ?b = dropped b + length lost" "\<forall>p \<in> set (batch b). p \<in> set lost \<or> stored ?b p" by blast
  then show ?thesis unfolding b' by (intro conjI exI [of _ lost]) (auto simp: keeps_rows_def stored_def)
qed

lemma flush_inv:
  assumes pre: "read_shards b \<noteq> []" "length (buf b) \<le> bufSize b"
    and acc: "length lost = dropped b" "\<forall>p \<in> set Q. p \<in> set (buf b) \<or> p \<in> set (batch b) \<or> p \<in> set lost \<or> stored b p"
    and c: "covers_shards F b"
  shows "batch_inv (batcher_flush F b) Q"
proof -
  let ?b = "batcher_flush F b"
  obtain l2 where f: "keeps_rows b ?b" "buf ?b = buf b" "batch ?b = []" "maxBatch ?b = maxBatch b" "bufSize ?b = bufSize b"
    "dropped ?b = dropped b + length l2" "\<forall>p \<in> set (batch b). p \<in> set l2 \<or> stored ?b p"
    using flush_effect [OF c pre(1) refl] by blast
  have "p \<in> set (buf ?b) \<or> p \<in> set (batch ?b) \<or> p \<in> set (lost @ l2) \<or> stored ?b p" if "p \<in> set Q" for p
    using acc(2) that f keeps_stored [OF f(1), of p] by auto
  moreover have "read_shards ?b \<noteq> []" using f(1) pre(1) by (auto simp: keeps_rows_def)
  ultimately show ?thesis unfolding batch_inv_def using pre(2) acc(1) f
    by (intro conjI exI [of _ "lost @ l2"]) auto
qed

lemma receive_inv:
  assumes "batch_inv b Q" "covers_shards F b"
  shows "batch_inv (batcher_receive F b) Q"
proof (cases "buf b")
  case Nil
  then show ?thesis using assms by (simp add: batcher_receive_def)
next
  case (Cons p ps)
  let ?b = "b\<lparr>buf := ps, batch := batch b @ [p]\<rparr>"
  obtain lost where acc: "length lost = dropped b"
    "\<forall>q \<in> set Q. q \<in> set (buf b) \<or> q \<in> set (batch b) \<or> q \<in> set lost \<or> stored b q"
    using assms(1) unfolding batch_inv_def by blast
  have acc': "\<forall>q \<in> set Q. q \<in> set (buf ?b) \<or> q \<in> set (batch ?b) \<or> q \<in> set lost \<or> stored ?b q"
    using acc(2) Cons by (auto simp: stored_def)
  have pre: "read_shards ?b \<noteq> []" "length (buf ?b) \<le> bufSize ?b" using assms(1) Cons by (auto simp: batch_inv_def)
  show ?thesis
  proof (cases "maxBatch b \<le> length (batch ?b)")
    case True
    have "covers_shards F ?b" using assms(2) by (simp add: covers_shards_def)
    from flush_inv [OF pre _ acc' this] acc(1) show ?thesis using True Cons by (simp add: batcher_receive_def)
  next
    case False
    then show ?thesis using pre acc(1) acc' Cons unfolding batch_inv_def batcher_receive_def
      by (simp add: Let_def) blast
  qed
qed

lemma receive_shards: "batch_inv b Q \<Longrightarrow> covers_shards F b \<Longrightarrow> length (read_shards (batcher_receive F b)) = length (read_shards b)
    \<and> length (buf (batcher_receive F b)) = length (buf b) - 1"
proof (cases "buf b")
  case (Cons p ps)
  assume a: "batch_inv b Q" "covers_shards F b"
  let ?b = "b\<lparr>buf := ps, batch := batch b @ [p]\<rparr>"
  have "covers_shards F ?b" "read_shards ?b \<noteq> []" using a by (simp_all add: covers_shards_def batch_inv_def)
  from flush_effect [OF this refl] show ?thesis using Cons by (simp add: batcher_receive_def keeps_rows_def Let_def)
qed (simp add: batcher_receive_def)

lemma drain_inv:
  assumes "batch_inv b Q" "\<forall>k. covers_shards (F k) b" "n = length (buf b)"
  shows "batch_inv (drain_loop F k n b) Q \<and> buf (drain_loop F k n b) = [] \<and> batch (drain_loop F k n b) = []"
  using assms
proof (induction n arbitrary: b k)
  case 0
  have c: "covers_shards (F k) b" using 0 by blast
  have pre: "read_shards b \<noteq> []" "length (buf b) \<le> bufSize b" using 0(1) by (simp_all add: batch_inv_def)
  obtain lost where "length lost = dropped b" "\<forall>q \<in> set Q. q \<in> set (buf b) \<or> q \<in> set (batch b) \<or> q \<in> set lost \<or> stored b q"
    using 0(1) unfolding batch_inv_def by blast
  from flush_inv [OF pre this c] flush_effect [OF c pre(1) refl] 0(3) show ?case by simp
next
  case (Suc n)
  have c: "covers_shards (F k) b" using Suc by blast
  let ?b = "batcher_receive (F k) b"
  have "\<forall>k. covers_shards (F k) ?b" "n = length (buf ?b)"
    using Suc receive_shards [OF Suc.prems(1) c] by (simp_all add: covers_shards_def)
  from Suc.IH [OF receive_inv [OF Suc.prems(1) c] this] show ?case by simp
qed

lemma enqueue_inv: "batch_inv b Q \<Longrightarrow> batch_inv (batcher_Enqueue p b) (Q @ [p])"
proof -
  assume inv: "batch_inv b Q"
  then obtain lost where acc: "length lost = dropped b"
    "\<forall>q \<in> set Q. q \<in> set (buf b) \<or> q \<in> set (batch b) \<or> q \<in> set lost \<or> stored b q"
    unfolding batch_inv_def by blast
  show ?thesis
  proof (cases "length (buf b) < bufSize b")
    case True
    then show ?thesis using inv acc unfolding batch_inv_def batcher_Enqueue_def
      by (intro conjI exI [of _ lost]) (auto simp: stored_def)
  next
    case False
    then show ?thesis using inv acc unfolding batch_inv_def batcher_Enqueue_def
      by (intro conjI exI [of _ "p # lost"]) (auto simp: stored_def)
  qed
qed

lemma batch_reach_inv: "batch_reach b Q \<Longrightarrow> batch_inv b Q"
proof (induction rule: batch_reach.induct)
  case (start b)
  then show ?case by (simp add: batch_inv_def)
next
  case (enqueue b Q p)
  then show ?case using enqueue_inv by blast
next
  case (receive b Q F)
  then show ?case using receive_inv by blast
next
  case (tick b Q F)
  then have pre: "read_shards b \<noteq> []" "length (buf b) \<le> bufSize b" by (simp_all add: batch_inv_def)
  obtain lost where "length lost = dropped b" "\<forall>q \<in> set Q. q \<in> set (buf b) \<or> q \<in> set (batch b) \<or> q \<in> set lost \<or> stored b q"
    using tick(3) unfolding batch_inv_def by blast
  from flush_inv [OF pre this tick(2)] show ?case .
next
  case (drain b Q F)
  then show ?case using drain_inv [OF drain(3,2) refl] by (simp add: batcher_drain_def)
next
  case (others b Q S)
  have k: "keeps_rows b (b\<lparr>read_shards := S\<rparr>)" using others(2,3) by (simp add: keeps_rows_def)
  obtain lost where acc: "length lost = dropped b"
    "\<forall>q \<in> set Q. q \<in> set (buf b) \<or> q \<in> set (batch b) \<or> q \<in> set lost \<or> stored b q"
    using others(4) unfolding batch_inv_def by blast
  have "S \<noteq> []" using others(2,4) by (auto simp: batch_inv_def)
  moreover have "\<forall>q \<in> set Q. q \<in> set (buf b) \<or> q \<in> set (batch b) \<or> q \<in> set lost \<or> stored (b\<lparr>read_shards := S\<rparr>) q"
    using acc(2) keeps_stored [OF k] by blast
  ultimately show ?case using others(4) acc(1) unfolding batch_inv_def by auto
qed

section \<open>Properties\<close>

text \<open>C13. The read model refines the history of each order: whatever transactions failed and in whatever order
  events and pending inserts arrived, an order has a row exactly when something about it was applied; its status
  is that of the first terminal event, and before one arrives it is created or pending; its details are those of
  the last created event, before that those of the pending insert, before that empty.\<close>

theorem projection_refines_history:
  "case row_of (fst (run_all ops)) x of
     None \<Rightarrow> history_for x ops = []
   | Some r \<Rightarrow> history_for x ops \<noteq> [] \<and> rd_status r = status_spec (history_for x ops)
       \<and> (rd_customer r, rd_cents r, rd_currency r) = details_spec (history_for x ops)"
  using run_all_shows [of ops x] unfolding shows_history_def .

lemma ends_set: "set (ends hs) = {st. Ended st \<in> set hs}"
  by (auto simp: ends_def split: history.splits)

lemma creations_set: "set (creations hs) = {d. Created (fst d) (fst (snd d)) (snd (snd d)) \<in> set hs}"
  by (force simp: creations_def split: history.splits)

lemma spec_of_set:
  assumes "set hs = set hs'" "creations hs \<noteq> []"
    "\<And>d d'. d \<in> set (creations hs) \<Longrightarrow> d' \<in> set (creations hs) \<Longrightarrow> d = d'"
    "\<And>s s'. s \<in> set (ends hs) \<Longrightarrow> s' \<in> set (ends hs) \<Longrightarrow> s = s'"
  shows "status_spec hs = status_spec hs' \<and> details_spec hs = details_spec hs'"
proof -
  have c: "set (creations hs) = set (creations hs')" and e: "set (ends hs) = set (ends hs')"
    using assms(1) by (simp_all add: creations_set ends_set)
  have c': "creations hs' \<noteq> []" using c assms(2) by auto
  have "last (creations hs) = last (creations hs')" using assms(2,3) c c' by (metis last_in_set)
  moreover have "status_spec hs = status_spec hs'"
  proof (cases "ends hs")
    case Nil
    then have "ends hs' = []" using e by simp
    then show ?thesis using Nil assms(2) c' by (simp add: status_spec_def)
  next
    case (Cons s ss)
    then obtain s' ss' where e': "ends hs' = s' # ss'" using e by (cases "ends hs'") auto
    then have "s' \<in> set (ends hs)" using e by simp
    then have "s = s'" using assms(4) [of s s'] Cons by simp
    then show ?thesis using Cons e' by (simp add: status_spec_def)
  qed
  ultimately show ?thesis using assms(2) c' by (simp add: details_spec_def)
qed

text \<open>The projection does not depend on the order or the number of deliveries: two runs that applied the same
  events of an order, in any order and with any repetitions, show the same status, customer, amount and currency,
  as long as the created events agree with each other and so do the terminal events.\<close>

theorem projection_order_insensitive:
  assumes "set (history_for x ops) = set (history_for x ops')" "creations (history_for x ops) \<noteq> []"
    and "\<And>d d'. d \<in> set (creations (history_for x ops)) \<Longrightarrow> d' \<in> set (creations (history_for x ops)) \<Longrightarrow> d = d'"
    and "\<And>s s'. s \<in> set (ends (history_for x ops)) \<Longrightarrow> s' \<in> set (ends (history_for x ops)) \<Longrightarrow> s = s'"
  shows "\<exists>r r'. row_of (fst (run_all ops)) x = Some r \<and> row_of (fst (run_all ops')) x = Some r'
    \<and> rd_status r' = rd_status r \<and> rd_customer r' = rd_customer r \<and> rd_cents r' = rd_cents r \<and> rd_currency r' = rd_currency r"
proof -
  have ne: "history_for x ops \<noteq> []" "history_for x ops' \<noteq> []" using assms(1,2) by (auto simp: creations_def)
  obtain r where r: "row_of (fst (run_all ops)) x = Some r" "rd_status r = status_spec (history_for x ops)"
    "(rd_customer r, rd_cents r, rd_currency r) = details_spec (history_for x ops)"
    using run_all_shows [of ops x] ne by (auto simp: shows_history_def split: option.splits)
  obtain r' where r': "row_of (fst (run_all ops')) x = Some r'" "rd_status r' = status_spec (history_for x ops')"
    "(rd_customer r', rd_cents r', rd_currency r') = details_spec (history_for x ops')"
    using run_all_shows [of ops' x] ne by (auto simp: shows_history_def split: option.splits)
  from spec_of_set [OF assms] r r' have "rd_status r' = rd_status r"
    "(rd_customer r', rd_cents r', rd_currency r') = (rd_customer r, rd_cents r, rd_currency r)" by simp_all
  then show ?thesis using r(1) r'(1) by auto
qed

definition demo_renv :: read_env where
  "demo_renv = \<lparr>re_parse = Inr, re_err = None, re_now = 3\<rparr>"

definition demo_ops :: "(read_env \<times> read_op) list" where
  "demo_ops = [(demo_renv, Pend (''o-1'', ''c'', 5, ''USD'')), (demo_renv, Event (FromOrders (OrderCreated ''o-1'' ''c'' 5 ''USD''))),
     (demo_renv, Event (FromPayments (EvProcessed ''o-1'' ''p'' ''processed'')))]"

theorem projection_order_insensitive_witness:
  "\<exists>r. row_of (fst (run_all (rev demo_ops @ demo_ops))) ''o-1'' = Some r \<and> rd_status r = ''paid'' \<and> rd_cents r = 5"
proof -
  have h: "history_for ''o-1'' demo_ops = [Pended ''c'' 5 ''USD'', Created ''c'' 5 ''USD'', Ended ''paid'']"
    "set (history_for ''o-1'' (rev demo_ops @ demo_ops)) = {Pended ''c'' 5 ''USD'', Created ''c'' 5 ''USD'', Ended ''paid''}"
    by (auto simp: history_for_def demo_ops_def entry_of_def demo_renv_def List.map_filter_def)
  have run: "(case row_of (fst (run_all demo_ops)) ''o-1'' of Some r \<Rightarrow> rd_status r = ''paid'' \<and> rd_cents r = 5 | None \<Rightarrow> False)"
    by code_simp
  from projection_order_insensitive [of "''o-1''" demo_ops "rev demo_ops @ demo_ops"] h
  obtain r r' where "row_of (fst (run_all demo_ops)) ''o-1'' = Some r" "row_of (fst (run_all (rev demo_ops @ demo_ops))) ''o-1'' = Some r'"
    "rd_status r' = rd_status r" "rd_cents r' = rd_cents r" by (auto simp: creations_def ends_def)
  then show ?thesis using run by auto
qed

text \<open>The asynchronous batcher accounts for every pending row: in every reachable state its buffer and batch are
  within their bounds, and each enqueued row is buffered, batched, in the table of its shard, or among the counted
  losses; the drain at shutdown leaves nothing buffered.\<close>

theorem pending_rows_accounted:
  assumes "batch_reach b Q" "\<forall>k. covers_shards (F k) b"
  shows "batch_inv b Q \<and> batch_inv (batcher_drain F b) Q \<and> buf (batcher_drain F b) = [] \<and> batch (batcher_drain F b) = []"
  using batch_reach_inv [OF assms(1)] drain_inv [OF batch_reach_inv [OF assms(1)] assms(2) refl, of 0]
  by (simp add: batcher_drain_def)

definition demo_batcher :: batcher where
  "demo_batcher = \<lparr>maxBatch = 2, bufSize = 1, buf = [], batch = [], dropped = 0, read_shards = [[]]\<rparr>"

theorem pending_rows_accounted_witness:
  "batch_inv (batcher_drain (\<lambda>_. \<lparr>f_now = 0, f_err = (\<lambda>_. None), f_order = [0]\<rparr>) (batcher_Enqueue (''o-1'', ''c'', 5, ''USD'') demo_batcher))
     [(''o-1'', ''c'', 5, ''USD'')]"
proof -
  have "batch_reach demo_batcher []" by (rule batch_reach.start) (simp_all add: demo_batcher_def)
  from batch_reach.enqueue [OF this, of "(''o-1'', ''c'', 5, ''USD'')"]
  have r: "batch_reach (batcher_Enqueue (''o-1'', ''c'', 5, ''USD'') demo_batcher) [(''o-1'', ''c'', 5, ''USD'')]" by simp
  have "covers_shards \<lparr>f_now = 0, f_err = (\<lambda>_. None), f_order = [0]\<rparr> (batcher_Enqueue (''o-1'', ''c'', 5, ''USD'') demo_batcher)"
    by (auto simp: covers_shards_def batcher_Enqueue_def demo_batcher_def)
  then show ?thesis using pending_rows_accounted [OF r, of "\<lambda>_. \<lparr>f_now = 0, f_err = (\<lambda>_. None), f_order = [0]\<rparr>"] by blast
qed

text \<open>The query routes by the text of the request: with three shards an order that is found under its canonical
  id is reported missing under the same id in upper case, although the UUID parser accepts both.\<close>

theorem get_order_alias_not_found:
  "let canonical = ''a1b2c3d4-0000-4000-8000-000000000001''; upper = ''A1B2C3D4-0000-4000-8000-000000000001'';
       E = \<lparr>re_parse = (\<lambda>_. Inr canonical), re_err = None, re_now = 0\<rparr>;
       rows = UpsertOrderCreated 0 canonical ''c'' 5 ''USD'' [];
       dbs = [[], [], []][Resolve [(), (), ()] canonical := rows]
   in GetOrderHandler E None canonical dbs = Found (to_view (hd rows)) \<and> GetOrderHandler E None upper dbs = OrderNotFound upper"
proof -
  have r: "Resolve [(), (), ()] ''a1b2c3d4-0000-4000-8000-000000000001'' = 0" by code_simp
  have q: "Resolve ([[a], [], []] :: read_row list list) ''a1b2c3d4-0000-4000-8000-000000000001'' = 0"
    "Resolve ([[a], [], []] :: read_row list list) ''A1B2C3D4-0000-4000-8000-000000000001'' = 1" for a
    by (code_simp)+
  show ?thesis
    by (simp add: r q GetOrderHandler_def UpsertOrderCreated_def upsert_def row_of_def)
qed

end
