(* ===== verification/Base64.thy ===== *)
theory Base64
  imports Go_Prelude
begin

text \<open>
  \<open>encoding/base64\<close> of the Go library as \<open>examples/gateway/internal/app/list_orders.go\<close> uses it: the raw URL
  encoding, without padding. The decoder skips carriage returns and line feeds, rejects other characters outside
  the alphabet and a single left-over character, and ignores the unused bits of the last character.
  \<open>strings.Split\<close> and \<open>strings.Join\<close> on one separator byte are here too.
\<close>

section \<open>Definitions\<close>

definition b64_alphabet :: string where
  "b64_alphabet = ''ABCDEFGHIJKLMNOPQRSTUVWXYZabcdefghijklmnopqrstuvwxyz0123456789-_''"

definition b64_char :: "nat \<Rightarrow> char" where
  "b64_char n = b64_alphabet ! n"

definition b64_val :: "char \<Rightarrow> nat option" where
  "b64_val c = map_option fst (List.find (\<lambda>(i, x). x = c) (enumerate 0 b64_alphabet))"

definition byte :: "char \<Rightarrow> nat" where
  "byte c = of_char c"

definition to_byte :: "nat \<Rightarrow> char" where
  "to_byte n = char_of n"

fun b64_encode :: "string \<Rightarrow> string" where
  "b64_encode [] = []"
| "b64_encode [a] = [b64_char (byte a div 4), b64_char ((byte a mod 4) * 16)]"
| "b64_encode [a, b] =
     [b64_char (byte a div 4), b64_char ((byte a mod 4) * 16 + byte b div 16), b64_char ((byte b mod 16) * 4)]"
| "b64_encode (a # b # c # r) =
     b64_char (byte a div 4) # b64_char ((byte a mod 4) * 16 + byte b div 16)
     # b64_char ((byte b mod 16) * 4 + byte c div 64) # b64_char (byte c mod 64) # b64_encode r"

fun b64_values :: "string \<Rightarrow> nat list option" where
  "b64_values [] = Some []"
| "b64_values (c # cs) =
     (case b64_val c of None \<Rightarrow> None | Some v \<Rightarrow> map_option ((#) v) (b64_values cs))"

fun b64_bytes :: "nat list \<Rightarrow> string option" where
  "b64_bytes [] = Some []"
| "b64_bytes [w] = None"
| "b64_bytes [w, x] = Some [to_byte (w * 4 + x div 16)]"
| "b64_bytes [w, x, y] = Some [to_byte (w * 4 + x div 16), to_byte ((x mod 16) * 16 + y div 4)]"
| "b64_bytes (w # x # y # z # r) =
     map_option (\<lambda>bs. to_byte (w * 4 + x div 16) # to_byte ((x mod 16) * 16 + y div 4)
                        # to_byte ((y mod 4) * 64 + z) # bs) (b64_bytes r)"

definition b64_decode :: "string \<Rightarrow> string option" where
  "b64_decode s = Option.bind (b64_values (filter (\<lambda>c. c \<notin> {CHR 0x0A, CHR 0x0D}) s)) b64_bytes"

text \<open>\<open>strings.Split(s, sep)\<close> and \<open>strings.Join(parts, sep)\<close>.\<close>

fun str_split :: "char \<Rightarrow> string \<Rightarrow> string list" where
  "str_split c [] = [[]]"
| "str_split c (x # xs) =
     (if x = c then [] # str_split c xs
      else (case str_split c xs of [] \<Rightarrow> [[x]] | p # ps \<Rightarrow> (x # p) # ps))"

fun str_join :: "char \<Rightarrow> string list \<Rightarrow> string" where
  "str_join c [] = []"
| "str_join c [p] = p"
| "str_join c (p # ps) = p @ c # str_join c ps"

section \<open>Lemmas\<close>

lemma b64_val_char: "n < 64 \<Longrightarrow> b64_val (b64_char n) = Some n"
proof -
  have "list_all (\<lambda>n. b64_val (b64_char n) = Some n) [0..<64]" by code_simp
  then show "n < 64 \<Longrightarrow> ?thesis" by (simp add: list_all_iff)
qed

lemma b64_char_plain: "n < 64 \<Longrightarrow> b64_char n \<noteq> CHR 0x0A \<and> b64_char n \<noteq> CHR 0x0D"
proof -
  have "list_all (\<lambda>n. b64_char n \<noteq> CHR 0x0A \<and> b64_char n \<noteq> CHR 0x0D) [0..<64]" by code_simp
  then show "n < 64 \<Longrightarrow> ?thesis" by (simp add: list_all_iff)
qed

lemma byte_less: "byte c < 256"
proof -
  have "byte c = byte c mod 256" using of_char_mod_256 [of c] by (simp add: byte_def)
  then show ?thesis by (metis mod_less_divisor zero_less_numeral)
qed

lemma to_byte_byte: "to_byte (byte c) = c"
  by (simp add: to_byte_def byte_def)

lemma sextet_less: "q < m \<Longrightarrow> r < k \<Longrightarrow> q * k + r < m * (k :: nat)"
proof -
  assume "q < m" "r < k"
  then have "q * k + r < (q + 1) * k" by simp
  also have "\<dots> \<le> m * k" using \<open>q < m\<close> by (intro mult_right_mono) simp_all
  finally show ?thesis .
qed

lemma sextets:
  "byte a div 4 < 64" "(byte a mod 4) * 16 < 64" "(byte b mod 16) * 4 < 64" "byte c mod 64 < 64"
  "(byte a mod 4) * 16 + byte b div 16 < 64" "(byte b mod 16) * 4 + byte c div 64 < 64"
proof -
  have q: "byte b div 16 < 16" "byte c div 64 < 4" using byte_less by (simp_all add: div_less_iff_less_mult)
  show "byte a div 4 < 64" using byte_less by (simp add: div_less_iff_less_mult)
  show "(byte a mod 4) * 16 < 64" using sextet_less [of "byte a mod 4" 4 0 16] by simp
  show "(byte b mod 16) * 4 < 64" using sextet_less [of "byte b mod 16" 16 0 4] by simp
  show "byte c mod 64 < 64" by simp
  show "(byte a mod 4) * 16 + byte b div 16 < 64" using sextet_less [of "byte a mod 4" 4 "byte b div 16" 16] q by simp
  show "(byte b mod 16) * 4 + byte c div 64 < 64" using sextet_less [of "byte b mod 16" 16 "byte c div 64" 4] q by simp
qed

lemma high_bits:
  "byte b div 16 div 16 = 0" "byte c div 64 div 4 = 0" "byte b div 16 mod 16 = byte b div 16" "byte c div 64 mod 4 = byte c div 64"
  using byte_less by (simp_all add: div_less_iff_less_mult)

lemma b64_encode_plain: "filter (\<lambda>c. c \<notin> {CHR 0x0A, CHR 0x0D}) (b64_encode s) = b64_encode s"
  by (induction s rule: b64_encode.induct) (simp_all add: b64_char_plain sextets)

text \<open>Decoding undoes encoding, for every string of bytes.\<close>

lemma b64_roundtrip: "b64_decode (b64_encode s) = Some s"
proof -
  have "Option.bind (b64_values (b64_encode s)) b64_bytes = Some s"
  proof (induction s rule: b64_encode.induct)
    case (4 a b c r)
    then obtain vs where "b64_values (b64_encode r) = Some vs" "b64_bytes vs = Some r"
      by (cases "b64_values (b64_encode r)") auto
    then show ?case
      by (simp add: b64_val_char sextets high_bits to_byte_byte)
  qed (simp_all add: b64_val_char sextets high_bits to_byte_byte)
  then show ?thesis unfolding b64_decode_def b64_encode_plain .
qed

lemma b64_encode_nonempty: "s \<noteq> [] \<Longrightarrow> b64_encode s \<noteq> []"
  by (cases s rule: b64_encode.cases) simp_all

lemma str_split_nonempty: "str_split c s \<noteq> []"
  by (induction s) (auto split: list.splits)

lemma str_split_plain: "c \<notin> set p \<Longrightarrow> str_split c p = [p]"
  by (induction p) auto

lemma str_split_append: "c \<notin> set p \<Longrightarrow> str_split c (p @ c # s) = p # str_split c s"
  by (induction p) auto

text \<open>Splitting undoes joining when no part contains the separator.\<close>

lemma split_join: "ps \<noteq> [] \<Longrightarrow> \<forall>p \<in> set ps. c \<notin> set p \<Longrightarrow> str_split c (str_join c ps) = ps"
  by (induction c ps rule: str_join.induct) (simp_all add: str_split_plain str_split_append)

end
