(* ===== verification/Order_Listing.thy ===== *)
theory Order_Listing
  imports Projection Base64 "HOL-Library.List_Lexorder" "HOL-Library.Char_ord" "HOL-Library.Product_Lexorder" "HOL-Library.Multiset"
begin

text \<open>
  \<open>examples/gateway/internal/app/list_orders.go\<close>: keyset pagination over the read model, newest first, on one
  shard or merged over all of them. Ids are the canonical UUID texts, whose lexicographic order is the order of
  the UUIDs, in SQL as in Go. The texts of a time (\<open>time.RFC3339Nano\<close>) and the UUID parser are arguments.
\<close>

section \<open>Cursors\<close>

datatype shard_pos = StartPos | At int string

record cursor_text =
  ct_format :: "int \<Rightarrow> string"
  ct_parse :: "string \<Rightarrow> (go_err, int) result"
  ct_uuid :: "string \<Rightarrow> (go_err, string) result"

datatype list_error = ErrInvalidCursor "go_err option" | ListFailed go_err

definition illegal_base64 :: go_err where
  "illegal_base64 = ErrText ''illegal base64 data''"

definition pos_text :: "cursor_text \<Rightarrow> int \<Rightarrow> string \<Rightarrow> string" where
  "pos_text T t i = ct_format T t @ CHR ''|'' # i"

definition encodeCursor :: "cursor_text \<Rightarrow> int \<Rightarrow> string \<Rightarrow> string" where
  "encodeCursor T t i = b64_encode (pos_text T t i)"

definition parse_pos :: "cursor_text \<Rightarrow> string \<Rightarrow> (list_error, int \<times> string) result" where
  "parse_pos T s =
     (case str_cut s (CHR ''|'') of
        (ts, i, ok) \<Rightarrow>
          if \<not> ok then Inl (ErrInvalidCursor None)
          else (case ct_parse T ts of
                  Inl e \<Rightarrow> Inl (ErrInvalidCursor (Some e))
                | Inr t \<Rightarrow>
                    (case ct_uuid T i of
                       Inl e \<Rightarrow> Inl (ErrInvalidCursor (Some e))
                     | Inr x \<Rightarrow> Inr (t, x))))"

definition decodeCursor :: "cursor_text \<Rightarrow> string \<Rightarrow> (list_error, int \<times> string) result" where
  "decodeCursor T cursor =
     (case b64_decode cursor of
        None \<Rightarrow> Inl (ErrInvalidCursor (Some illegal_base64))
      | Some raw \<Rightarrow> parse_pos T raw)"

definition multiCursorVersion :: string where "multiCursorVersion = [CHR 0x01, CHR ''m'']"
definition posStart :: string where "posStart = ''*''"

fun pos_part :: "cursor_text \<Rightarrow> shard_pos \<Rightarrow> string" where
  "pos_part T StartPos = posStart"
| "pos_part T (At t i) = pos_text T t i"

definition encodeMultiCursor :: "cursor_text \<Rightarrow> shard_pos list \<Rightarrow> string" where
  "encodeMultiCursor T positions = b64_encode (multiCursorVersion @ str_join (CHR 0x0A) (map (pos_part T) positions))"

fun parse_parts :: "cursor_text \<Rightarrow> string list \<Rightarrow> (list_error, shard_pos list) result" where
  "parse_parts T [] = Inr []"
| "parse_parts T (part # rest) =
     (if part = posStart then res_bind (parse_parts T rest) (\<lambda>ps. Inr (StartPos # ps))
      else res_bind (parse_pos T part) (\<lambda>(t, i). res_bind (parse_parts T rest) (\<lambda>ps. Inr (At t i # ps))))"

definition decodeMultiCursor :: "cursor_text \<Rightarrow> string \<Rightarrow> nat \<Rightarrow> (list_error, shard_pos list) result" where
  "decodeMultiCursor T cursor n =
     (if cursor = '''' then Inr (replicate n StartPos)
      else (case b64_decode cursor of
              None \<Rightarrow> Inl (ErrInvalidCursor (Some illegal_base64))
            | Some s \<Rightarrow>
                if \<not> has_prefix s multiCursorVersion then Inl (ErrInvalidCursor None)
                else (let texts = str_split (CHR 0x0A) (drop (length multiCursorVersion) s)
                      in if length texts \<noteq> n then Inl (ErrInvalidCursor None) else parse_parts T texts)))"

section \<open>Pages\<close>

definition DefaultPageLimit :: int where "DefaultPageLimit = 20"
definition MaxPageLimit :: int where "MaxPageLimit = 100"

definition clampLimit :: "int \<Rightarrow> int" where
  "clampLimit n = (if n \<le> 0 then DefaultPageLimit else if MaxPageLimit < n then MaxPageLimit else n)"

record list_query =
  Cursor :: string
  Limit :: int
  CustomerID :: string

record order_page =
  Items :: "order_view list"
  NextCursor :: string

definition row_key :: "read_row \<Rightarrow> int \<times> string" where
  "row_key r = (rd_created r, rd_id r)"

definition rowBefore :: "read_row \<Rightarrow> read_row \<Rightarrow> bool" where
  "rowBefore a b = (if rd_created a \<noteq> rd_created b then rd_created b < rd_created a else rd_id b < rd_id a)"

fun after_pos :: "shard_pos \<Rightarrow> read_row \<Rightarrow> bool" where
  "after_pos StartPos r = True"
| "after_pos (At t i) r = (row_key r < (t, i))"

definition matches :: "string \<Rightarrow> read_row \<Rightarrow> bool" where
  "matches customerID r \<longleftrightarrow> customerID = '''' \<or> rd_customer r = customerID"

definition desc_rows :: "read_row list \<Rightarrow> read_row list" where
  "desc_rows rows = rev (sort_key row_key rows)"

definition queryShardPage :: "go_err option \<Rightarrow> string \<Rightarrow> shard_pos \<Rightarrow> nat \<Rightarrow> read_row list \<Rightarrow> (go_err, read_row list) result" where
  "queryShardPage err customerID pos limit rows =
     (case err of
        Some e \<Rightarrow> Inl (ErrWrap (if customerID \<noteq> '''' then ''app: list orders by customer'' else ''app: list orders'') e)
      | None \<Rightarrow> Inr (take limit (desc_rows (filter (\<lambda>r. matches customerID r \<and> after_pos pos r) rows))))"

definition rowsToViews :: "read_row list \<Rightarrow> order_view list" where
  "rowsToViews rows = map to_view rows"

definition listSingleShard :: "cursor_text \<Rightarrow> go_err option \<Rightarrow> read_row list \<Rightarrow> list_query \<Rightarrow> nat \<Rightarrow> (list_error, order_page) result" where
  "listSingleShard T err rows q limit =
     (case (if Cursor q = '''' then Inr StartPos else map_sum id (\<lambda>(t, i). At t i) (decodeCursor T (Cursor q))) of
        Inl e \<Rightarrow> Inl e
      | Inr pos \<Rightarrow>
          (case queryShardPage err (CustomerID q) pos limit rows of
             Inl e \<Rightarrow> Inl (ListFailed e)
           | Inr rs \<Rightarrow>
               Inr \<lparr>Items = rowsToViews rs,
                    NextCursor = (if length rs = limit then encodeCursor T (rd_created (last rs)) (rd_id (last rs)) else '''')\<rparr>))"

text \<open>The merge: \<open>rests\<close> holds the rows of each shard not yet emitted. The inner loop picks the first of the shards
  whose next row comes first; the outer loop emits it and moves that shard's position.\<close>

fun best_loop :: "nat \<Rightarrow> (nat \<times> read_row) option \<Rightarrow> read_row list list \<Rightarrow> (nat \<times> read_row) option" where
  "best_loop i best [] = best"
| "best_loop i best (rs # rests) =
     (case rs of
        [] \<Rightarrow> best_loop (i + 1) best rests
      | cand # _ \<Rightarrow>
          (case best of
             None \<Rightarrow> best_loop (i + 1) (Some (i, cand)) rests
           | Some (j, b) \<Rightarrow> best_loop (i + 1) (if rowBefore cand b then Some (i, cand) else best) rests))"

fun merge_loop :: "nat \<Rightarrow> read_row list list \<Rightarrow> shard_pos list \<Rightarrow> read_row list \<times> shard_pos list" where
  "merge_loop 0 rests nextPos = ([], nextPos)"
| "merge_loop (Suc n) rests nextPos =
     (case best_loop 0 None rests of
        None \<Rightarrow> ([], nextPos)
      | Some (j, row) \<Rightarrow>
          (case merge_loop n (rests[j := tl (rests ! j)]) (nextPos[j := At (rd_created row) (rd_id row)]) of
             (emitted, pos') \<Rightarrow> (row # emitted, pos')))"

text \<open>The fan-out fills one page per shard; the errors of all shards are joined.\<close>

definition page_of ::
  "(nat \<Rightarrow> go_err option) \<Rightarrow> string \<Rightarrow> shard_pos list \<Rightarrow> nat \<Rightarrow> nat \<Rightarrow> read_row list \<times> read_row list
     \<Rightarrow> (read_row list \<times> read_row list) \<times> go_err option" where
  "page_of errs customerID positions limit i s =
     (case queryShardPage (errs i) customerID (positions ! i) limit (fst s) of
        Inl e \<Rightarrow> (s, Some e) | Inr rs \<Rightarrow> ((fst s, rs), None))"

definition listScatterGather ::
  "cursor_text \<Rightarrow> go_err option \<Rightarrow> (nat \<Rightarrow> go_err option) \<Rightarrow> read_row list list \<Rightarrow> list_query \<Rightarrow> nat \<Rightarrow> (list_error, order_page) result" where
  "listScatterGather T cancelled errs dbs q limit =
     (case decodeMultiCursor T (Cursor q) (length dbs) of
        Inl e \<Rightarrow> Inl e
      | Inr positions \<Rightarrow>
          (case ForEachShard cancelled (page_of errs (CustomerID q) positions limit) (map (\<lambda>rows. (rows, [])) dbs) of
             (filled, es) \<Rightarrow>
               (case errors_Join es of
                  Some e \<Rightarrow> Inl (ListFailed (ErrWrap ''app: list orders fan-out'' e))
                | None \<Rightarrow>
                    (case merge_loop limit (map snd filled) positions of
                       (emitted, nextPos) \<Rightarrow>
                         Inr \<lparr>Items = rowsToViews emitted,
                              NextCursor = (if length emitted = limit then encodeMultiCursor T nextPos else '''')\<rparr>))))"

definition ListOrdersHandler ::
  "cursor_text \<Rightarrow> go_err option \<Rightarrow> (nat \<Rightarrow> go_err option) \<Rightarrow> read_row list list \<Rightarrow> list_query \<Rightarrow> (list_error, order_page) result" where
  "ListOrdersHandler T cancelled errs dbs q =
     (let limit = nat (clampLimit (Limit q))
      in if length dbs = 1 then listSingleShard T (errs 0) (dbs ! 0) q limit else listScatterGather T cancelled errs dbs q limit)"

text \<open>A client that follows the cursors to the end.\<close>

partial_function (option) follow ::
  "(string \<Rightarrow> (list_error, order_page) result) \<Rightarrow> string \<Rightarrow> (list_error, order_view list) result option" where
  "follow list_page cursor =
     (case list_page cursor of
        Inl e \<Rightarrow> Some (Inl e)
      | Inr page \<Rightarrow>
          if NextCursor page = '''' then Some (Inr (Items page))
          else Option.bind (follow list_page (NextCursor page)) (\<lambda>rest. Some (map_sum id ((@) (Items page)) rest)))"

section \<open>The listing order\<close>

text \<open>The rows of a shard that the filter keeps, newest first, and those still behind a position.\<close>

definition shard_list :: "string \<Rightarrow> read_row list \<Rightarrow> read_row list" where
  "shard_list cust rows = desc_rows (filter (matches cust) rows)"

definition remaining :: "read_row list list \<Rightarrow> shard_pos list \<Rightarrow> read_row list list" where
  "remaining rowss positions = map2 (\<lambda>rs p. filter (after_pos p) rs) rowss positions"

definition rest_rows :: "read_row list list \<Rightarrow> shard_pos list \<Rightarrow> read_row list" where
  "rest_rows rowss positions = desc_rows (concat (remaining rowss positions))"

abbreviation desc :: "read_row list \<Rightarrow> bool" where
  "desc \<equiv> sorted_wrt rowBefore"

lemma rowBefore_key: "rowBefore a b \<longleftrightarrow> row_key b < row_key a"
  by (auto simp: rowBefore_def row_key_def less_prod_def')

lemma desc_sorted: "desc rs \<Longrightarrow> sorted (map row_key (rev rs))"
  by (induction rs) (auto simp: sorted_append rowBefore_key less_imp_le)

lemma desc_distinct_keys: "desc rs \<Longrightarrow> distinct (map row_key rs)"
  by (induction rs) (auto simp: rowBefore_key)

lemma desc_rows_unique:
  assumes "desc ys" "mset xs = mset ys"
  shows "desc_rows xs = ys"
proof -
  have "inj_on row_key (set (rev ys))" using desc_distinct_keys [OF assms(1)] by (simp add: distinct_map)
  then have "sort_key row_key xs = rev ys"
    using assms desc_sorted by (intro sort_key_inj_key_eq) (auto dest: mset_eq_setD)
  then show ?thesis by (simp add: desc_rows_def)
qed

lemma desc_hd: "desc rs \<Longrightarrow> r \<in> set rs \<Longrightarrow> row_key r \<le> row_key (hd rs)"
  by (cases rs) (auto simp: rowBefore_key intro: less_imp_le)

lemma desc_filter: "desc rs \<Longrightarrow> desc (filter P rs)"
  by (induction rs) auto

lemma mset_desc_rows [simp]: "mset (desc_rows rs) = mset rs"
  by (simp add: desc_rows_def)

lemma set_desc_rows [simp]: "set (desc_rows rs) = set rs"
  by (simp add: desc_rows_def)

lemma desc_desc_rows: "distinct (map row_key rs) \<Longrightarrow> desc (desc_rows rs)"
proof -
  assume "distinct (map row_key rs)"
  then have "distinct (map row_key (sort_key row_key rs))"
    by (metis mset_map mset_sort mset_eq_imp_distinct_iff)
  then have "sorted_wrt (<) (map row_key (sort_key row_key rs))" by (simp add: strict_sorted_iff)
  then show ?thesis by (simp add: desc_rows_def sorted_wrt_rev sorted_wrt_map rowBefore_key)
qed

lemma filter_desc_rows:
  "distinct (map row_key rs) \<Longrightarrow> filter P (desc_rows rs) = desc_rows (filter P rs)"
  by (rule desc_rows_unique [symmetric]) (auto intro: desc_filter desc_desc_rows)

lemma after_pos_trans: "after_pos p a \<Longrightarrow> row_key b < row_key a \<Longrightarrow> after_pos p b"
  by (cases p) (auto dest: less_trans)

text \<open>Moving the position of a shard to the first row behind it removes exactly that row.\<close>

definition at_row :: "read_row \<Rightarrow> shard_pos" where
  "at_row r = At (rd_created r) (rd_id r)"

lemma after_at_row: "after_pos (at_row r) x \<longleftrightarrow> row_key x < row_key r"
  by (simp add: at_row_def row_key_def)

lemma advance:
  assumes "desc rs" "filter (after_pos p) rs = r # rest"
  shows "filter (after_pos (at_row r)) rs = rest"
proof -
  have "r \<in> set (filter (after_pos p) rs)" using assms(2) by simp
  then have "after_pos p r" by simp
  then have "filter (after_pos (at_row r)) rs = filter (after_pos (at_row r)) (filter (after_pos p) rs)"
    unfolding filter_filter by (intro filter_cong) (auto simp: after_at_row intro: after_pos_trans)
  moreover have "desc (r # rest)" using desc_filter [OF assms(1), of "after_pos p"] assms(2) by simp
  ultimately show ?thesis
    using assms(2) by (simp add: after_at_row rowBefore_key)
qed

lemma advance_many:
  assumes "desc rs" "filter (after_pos p) rs = xs @ rest" "xs \<noteq> []"
  shows "filter (after_pos (at_row (last xs))) rs = rest"
  using assms(2,3)
proof (induction xs arbitrary: p)
  case (Cons x xs)
  have step: "filter (after_pos (at_row x)) rs = xs @ rest"
    by (rule advance [OF assms(1)]) (use Cons.prems in simp)
  show ?case
  proof (cases "xs = []")
    case False
    show ?thesis using Cons.IH [OF step False] False by simp
  qed (use step in simp)
qed simp

section \<open>The merge\<close>

text \<open>The inner loop finds the front row that comes first, over the rows from its current best on.\<close>

lemma best_loop_spec:
  assumes "best_loop i best rests = Some (j, row)"
  shows "(best = Some (j, row) \<or> (\<exists>k rs. k < length rests \<and> j = i + k \<and> rests ! k = row # rs)) \<and>
     (\<forall>c r. best = Some (c, r) \<longrightarrow> row_key r \<le> row_key row) \<and>
     (\<forall>r rs. r # rs \<in> set rests \<longrightarrow> row_key r \<le> row_key row)"
  using assms
proof (induction rests arbitrary: i best)
  case (Cons l rests)
  show ?case
  proof (cases l)
    case Nil
    then show ?thesis using Cons.IH [of "i + 1" best] Cons.prems by fastforce
  next
    case l: (Cons cand t)
    let ?best = "case best of None \<Rightarrow> Some (i, cand) | Some (c, b) \<Rightarrow> if rowBefore cand b then Some (i, cand) else best"
    have "best_loop (i + 1) ?best rests = Some (j, row)"
      using Cons.prems l by (auto split: option.splits prod.splits)
    then have IH: "(?best = Some (j, row) \<or> (\<exists>k rs. k < length rests \<and> j = i + 1 + k \<and> rests ! k = row # rs)) \<and>
        (\<forall>c r. ?best = Some (c, r) \<longrightarrow> row_key r \<le> row_key row) \<and>
        (\<forall>r rs. r # rs \<in> set rests \<longrightarrow> row_key r \<le> row_key row)"
      by (rule Cons.IH)
    have best: "row_key cand \<le> row_key row" "\<forall>c r. best = Some (c, r) \<longrightarrow> row_key r \<le> row_key row"
      using IH by (auto simp: rowBefore_key split: option.splits if_splits)
    have "best = Some (j, row) \<or> (\<exists>k rs. k < length (l # rests) \<and> j = i + k \<and> (l # rests) ! k = row # rs)"
    proof (cases "?best = Some (j, row)")
      case True
      then show ?thesis using l by (auto split: option.splits if_splits intro: exI [of _ 0])
    next
      case False
      then obtain k rs where "k < length rests" "j = i + 1 + k" "rests ! k = row # rs" using IH by blast
      then show ?thesis by (intro disjI2 exI [of _ "Suc k"] exI [of _ rs]) simp
    qed
    then show ?thesis using best IH l by auto
  qed
qed simp

lemma best_loop_None: "best_loop i best rests = None \<longleftrightarrow> best = None \<and> (\<forall>rs \<in> set rests. rs = [])"
proof (induction rests arbitrary: i best)
  case (Cons l rests)
  show ?case by (cases l; cases best) (auto simp: Cons.IH simp del: not_None_eq split: prod.splits)
qed simp

text \<open>Only the front rows matter, so merging the fetched pages is merging the whole rowss.\<close>

lemma best_loop_heads:
  "map (\<lambda>rs. take 1 rs) ls = map (\<lambda>rs. take 1 rs) rs \<Longrightarrow> best_loop i best ls = best_loop i best rs"
proof (induction ls arbitrary: rs i best)
  case (Cons l ls)
  then obtain r rs' where rs: "rs = r # rs'" "take 1 l = take 1 r" "map (take 1) ls = map (take 1) rs'" by auto
  then show ?case using Cons.IH [of rs'] by (cases l; cases r) (auto split: option.splits)
qed simp

lemma merge_take:
  assumes "list_all2 (\<lambda>l r. \<exists>c \<ge> n. l = take c r) ls rs"
  shows "merge_loop n ls positions = merge_loop n rs positions"
  using assms
proof (induction n arbitrary: ls rs positions)
  case (Suc n)
  have "map (take 1) ls = map (take 1) rs"
    using Suc.prems by (induction rule: list_all2_induct) (auto simp: min_def)
  then have b: "best_loop 0 None ls = best_loop 0 None rs" by (rule best_loop_heads)
  show ?case
  proof (cases "best_loop 0 None rs")
    case (Some jr)
    obtain j row where jr: "jr = (j, row)" by (cases jr)
    have j: "j < length rs" using best_loop_spec [OF Some [unfolded jr]] by auto
    obtain c where c: "Suc n \<le> c" "ls ! j = take c (rs ! j)"
      using list_all2_nthD2 [OF Suc.prems j] by auto
    have "\<exists>c' \<ge> n. tl (ls ! j) = take c' (tl (rs ! j))"
      using c by (intro exI [of _ "c - 1"]) (auto simp: tl_take)
    moreover have "list_all2 (\<lambda>l r. \<exists>c \<ge> n. l = take c r) ls rs"
      using Suc.prems by (rule list_all2_mono) (use Suc_leD in blast)
    ultimately have "list_all2 (\<lambda>l r. \<exists>c \<ge> n. l = take c r) (ls[j := tl (ls ! j)]) (rs[j := tl (rs ! j)])"
      by (intro list_all2_update_cong)
    then show ?thesis using Suc.IH b Some jr by simp
  qed (use b in simp)
qed simp


text \<open>One step of the merge: the front row that comes first is the head of everything that remains.\<close>

definition keyed :: "read_row list list \<Rightarrow> bool" where
  "keyed rowss \<longleftrightarrow> list_all desc rowss \<and> distinct (map row_key (concat rowss))"

lemma distinct_keys_concat_filter:
  "distinct (map row_key (concat rowss)) \<Longrightarrow> length positions = length rowss \<Longrightarrow>
   distinct (map row_key (concat (remaining rowss positions)))"
proof (induction rowss arbitrary: positions)
  case (Cons rs rowss)
  then obtain p ps where p: "positions = p # ps" "length ps = length rowss" by (cases positions) auto
  have "set (concat (remaining rowss ps)) \<subseteq> set (concat rowss)"
    by (force simp: remaining_def in_set_zip)
  then have "row_key ` set (filter (after_pos p) rs) \<inter> row_key ` set (concat (remaining rowss ps)) = {}"
    using Cons.prems(1) unfolding concat.simps map_append distinct_append set_map
    by (meson disjoint_iff filter_is_subset image_mono in_mono)
  moreover have "remaining (rs # rowss) positions = filter (after_pos p) rs # remaining rowss ps"
    using p by (simp add: remaining_def)
  moreover have "distinct (map row_key (concat (remaining rowss ps)))"
    by (rule Cons.IH) (use Cons.prems p in simp_all)
  ultimately show ?case using Cons.prems by (simp add: distinct_map_filter)
qed (simp add: remaining_def)

lemma desc_total:
  "keyed rowss \<Longrightarrow> length positions = length rowss \<Longrightarrow> desc (rest_rows rowss positions)"
  unfolding rest_rows_def keyed_def by (blast intro: desc_desc_rows distinct_keys_concat_filter)

lemma remaining_nth:
  "length positions = length rowss \<Longrightarrow> i < length rowss \<Longrightarrow>
   remaining rowss positions ! i = filter (after_pos (positions ! i)) (rowss ! i)"
  by (simp add: remaining_def)

lemma remaining_advance:
  assumes "keyed rowss" "length positions = length rowss" "j < length rowss" "remaining rowss positions ! j = row # rest"
  shows "remaining rowss (positions[j := at_row row]) = (remaining rowss positions)[j := rest]"
proof (rule nth_equalityI)
  fix i assume "i < length (remaining rowss (positions[j := at_row row]))"
  then have i: "i < length rowss" using assms(2) by (simp add: remaining_def)
  have "desc (rowss ! j)" using assms(1,3) by (simp add: keyed_def list_all_length)
  then have "filter (after_pos (at_row row)) (rowss ! j) = rest"
    using advance [of "rowss ! j" "positions ! j"] assms(4) remaining_nth [OF assms(2,3)] by simp
  then show "remaining rowss (positions[j := at_row row]) ! i = (remaining rowss positions)[j := rest] ! i"
    using assms(2,3) i by (cases "i = j") (simp_all add: remaining_def)
qed (simp add: remaining_def)

lemma concat_update_mset:
  "j < length xss \<Longrightarrow> xss ! j = x # xs \<Longrightarrow> mset (concat xss) = add_mset x (mset (concat (xss[j := xs])))"
proof (induction xss arbitrary: j)
  case (Cons ys xss)
  then show ?case by (cases j) auto
qed simp

lemma total_step:
  assumes "keyed rowss" "length positions = length rowss"
    and best: "best_loop 0 None (remaining rowss positions) = Some (j, row)"
  shows "j < length rowss \<and> (\<exists>rest. remaining rowss positions ! j = row # rest) \<and>
     rest_rows rowss positions = row # rest_rows rowss (positions[j := at_row row])"
proof -
  let ?rem = "remaining rowss positions" and ?pos' = "positions[j := at_row row]"
  obtain rest where j: "j < length rowss" "?rem ! j = row # rest"
    using best_loop_spec [OF best] assms(2) by (auto simp: remaining_def)
  have front: "row_key (hd rs) \<le> row_key row" if "rs \<in> set ?rem" "rs \<noteq> []" for rs
    using best_loop_spec [OF best] that by (cases rs) auto
  have sorted: "desc rs" if "rs \<in> set ?rem" for rs
    using that assms(1,2) by (auto simp: remaining_def keyed_def list_all_iff in_set_zip intro!: desc_filter)
  have le: "row_key r \<le> row_key row" if r_in: "r \<in> set (concat ?rem)" for r
  proof -
    obtain rs where rs: "rs \<in> set ?rem" "r \<in> set rs" using r_in by auto
    have "row_key r \<le> row_key (hd rs)" by (rule desc_hd [OF sorted [OF rs(1)] rs(2)])
    also have "\<dots> \<le> row_key row" by (rule front) (use rs in auto)
    finally show ?thesis .
  qed
  have m: "mset (concat ?rem) = add_mset row (mset (concat (remaining rowss ?pos')))"
    unfolding remaining_advance [OF assms(1,2) j]
    by (rule concat_update_mset) (use j assms(2) in \<open>simp_all add: remaining_def\<close>)
  have "distinct (map row_key (concat ?rem))"
    using assms(1,2) by (intro distinct_keys_concat_filter) (simp_all add: keyed_def)
  then have "distinct (map row_key (row # concat (remaining rowss ?pos')))"
    using m by (metis mset_map mset_eq_imp_distinct_iff mset.simps(2))
  then have "rowBefore row r" if "r \<in> set (rest_rows rowss ?pos')" for r
    using that le [of r] m unfolding rowBefore_key
    by (metis (no_types, lifting) distinct.simps(2) image_eqI insertI2 list.set_map list.simps(9) order_le_less
        set_desc_rows set_mset_add_mset_insert set_mset_mset rest_rows_def)
  then have "desc (row # rest_rows rowss ?pos')" using desc_total assms(1,2) by simp
  then have "rest_rows rowss positions = row # rest_rows rowss ?pos'"
    unfolding rest_rows_def [of rowss positions] by (rule desc_rows_unique) (simp add: m rest_rows_def)
  then show ?thesis using j by blast
qed

lemma total_empty:
  assumes "best_loop 0 None (remaining rowss positions) = None"
  shows "rest_rows rowss positions = []"
proof -
  have "concat (remaining rowss positions) = []" using assms best_loop_None by simp
  then show ?thesis unfolding rest_rows_def desc_rows_def by (simp only:) simp
qed

text \<open>The merge emits the first rows of everything that remains and leaves the rest behind the new positions.\<close>

lemma merge_spec:
  assumes "keyed rowss" "length positions = length rowss"
  shows "fst (merge_loop n (remaining rowss positions) positions) = take n (rest_rows rowss positions) \<and>
     length (snd (merge_loop n (remaining rowss positions) positions)) = length rowss \<and>
     rest_rows rowss (snd (merge_loop n (remaining rowss positions) positions)) = drop n (rest_rows rowss positions) \<and>
     set (snd (merge_loop n (remaining rowss positions) positions)) \<subseteq> set positions \<union> at_row ` set (concat rowss)"
  using assms(2)
proof (induction n arbitrary: positions)
  case (Suc n)
  show ?case
  proof (cases "best_loop 0 None (remaining rowss positions)")
    case None
    then show ?thesis using Suc.prems by (simp add: total_empty)
  next
    case (Some jr)
    obtain j row where jr: "jr = (j, row)" by (cases jr)
    let ?pos' = "positions[j := at_row row]"
    note best = Some [unfolded jr]
    obtain rest where j: "j < length rowss" "remaining rowss positions ! j = row # rest"
      and t: "rest_rows rowss positions = row # rest_rows rowss ?pos'"
      using total_step [OF assms(1) Suc.prems best] by blast
    have rem: "(remaining rowss positions)[j := tl (remaining rowss positions ! j)] = remaining rowss ?pos'"
      using remaining_advance [OF assms(1) Suc.prems j] j by simp
    have "row \<in> set (filter (after_pos (positions ! j)) (rowss ! j))"
      using j(2) remaining_nth [OF Suc.prems j(1)] by simp
    then have "at_row row \<in> at_row ` set (concat rowss)" using nth_mem [OF j(1)] by (auto intro!: imageI)
    then have sub: "set ?pos' \<subseteq> set positions \<union> at_row ` set (concat rowss)"
      using set_update_subset_insert by fastforce
    have "merge_loop (Suc n) (remaining rowss positions) positions =
        (row # fst (merge_loop n (remaining rowss ?pos') ?pos'), snd (merge_loop n (remaining rowss ?pos') ?pos'))"
      using best rem by (simp add: at_row_def split: prod.splits)
    then show ?thesis using Suc.IH [of ?pos'] Suc.prems t sub by auto
  qed
qed simp

section \<open>Cursors are lossless\<close>

text \<open>What the listing needs of the texts: the time of a row is printed without the separators and parsed back,
  and its id is canonical.\<close>

definition text_ok :: "cursor_text \<Rightarrow> int \<Rightarrow> string \<Rightarrow> bool" where
  "text_ok T t i \<longleftrightarrow> ct_parse T (ct_format T t) = Inr t \<and> CHR ''|'' \<notin> set (ct_format T t) \<and>
     CHR 0x0A \<notin> set (ct_format T t) \<and> ct_uuid T i = Inr i \<and> CHR 0x0A \<notin> set i"

fun pos_ok :: "cursor_text \<Rightarrow> shard_pos \<Rightarrow> bool" where
  "pos_ok T StartPos = True"
| "pos_ok T (At t i) = text_ok T t i"

lemma parse_pos_text: "text_ok T t i \<Longrightarrow> parse_pos T (pos_text T t i) = Inr (t, i)"
  by (simp add: parse_pos_def pos_text_def text_ok_def str_cut_append)

lemma pos_text_not_start: "pos_text T t i \<noteq> posStart"
proof
  assume "pos_text T t i = posStart"
  then have "CHR ''|'' \<in> set posStart" by (metis in_set_conv_decomp pos_text_def)
  then show False by (simp add: posStart_def)
qed

lemma parse_parts_pos:
  "list_all (pos_ok T) positions \<Longrightarrow> parse_parts T (map (pos_part T) positions) = Inr positions"
proof (induction positions)
  case (Cons p ps)
  then show ?case by (cases p) (simp_all add: parse_pos_text pos_text_not_start)
qed simp

lemma pos_part_plain: "pos_ok T p \<Longrightarrow> CHR 0x0A \<notin> set (pos_part T p)"
  by (cases p) (auto simp: posStart_def pos_text_def text_ok_def)

lemma single_cursor_roundtrip: "text_ok T t i \<Longrightarrow> decodeCursor T (encodeCursor T t i) = Inr (t, i)"
  by (simp add: decodeCursor_def encodeCursor_def b64_roundtrip parse_pos_text)

lemma encodeCursor_nonempty: "encodeCursor T t i \<noteq> []"
  by (simp add: encodeCursor_def pos_text_def b64_encode_nonempty)

lemma encodeMultiCursor_nonempty: "encodeMultiCursor T positions \<noteq> []"
  by (simp add: encodeMultiCursor_def multiCursorVersion_def b64_encode_nonempty)

lemma multi_cursor_roundtrip:
  assumes "positions \<noteq> []" "list_all (pos_ok T) positions"
  shows "decodeMultiCursor T (encodeMultiCursor T positions) (length positions) = Inr positions"
proof -
  have "str_split (CHR 0x0A) (str_join (CHR 0x0A) (map (pos_part T) positions)) = map (pos_part T) positions"
    using assms by (intro split_join) (auto simp: list_all_iff pos_part_plain)
  then show ?thesis using assms(2) encodeMultiCursor_nonempty
    by (simp add: decodeMultiCursor_def) (simp add: encodeMultiCursor_def b64_roundtrip has_prefix_def parse_parts_pos)
qed

section \<open>Following the cursors\<close>

text \<open>The contract of a paged listing: a cursor stands for the rows still to come, a page holds the first of them and
  names the cursor of the rest, and the empty cursor ends the listing.\<close>

locale keyset_listing =
  fixes list_page :: "string \<Rightarrow> (list_error, order_page) result"
    and rest_of :: "string \<Rightarrow> read_row list \<Rightarrow> bool"
    and limit :: nat
  assumes limit_pos: "0 < limit"
    and page: "rest_of c rows \<Longrightarrow> \<exists>p. list_page c = Inr p \<and> Items p = rowsToViews (take limit rows) \<and>
      (if length rows < limit then NextCursor p = ''''
       else NextCursor p \<noteq> '''' \<and> rest_of (NextCursor p) (drop limit rows))"
begin

lemma follow_all: "rest_of c rows \<Longrightarrow> follow list_page c = Some (Inr (rowsToViews rows))"
proof (induction "length rows" arbitrary: c rows rule: less_induct)
  case less
  obtain p where p: "list_page c = Inr p" "Items p = rowsToViews (take limit rows)"
    and more_rows: "if length rows < limit then NextCursor p = ''''
       else NextCursor p \<noteq> '''' \<and> rest_of (NextCursor p) (drop limit rows)"
    using page [OF less.prems] by blast
  show ?case
  proof (cases "length rows < limit")
    case True
    then show ?thesis using p more_rows by (simp add: follow.simps)
  next
    case False
    then have "follow list_page (NextCursor p) = Some (Inr (rowsToViews (drop limit rows)))"
      using less.hyps more_rows limit_pos by simp
    then show ?thesis using False p more_rows
      by (subst follow.simps) (simp add: rowsToViews_def flip: map_append)
  qed
qed

end

text \<open>The handler meets the contract: what a cursor stands for is everything behind its positions, merged.\<close>

definition cursor_at :: "cursor_text \<Rightarrow> nat \<Rightarrow> string \<Rightarrow> shard_pos list \<Rightarrow> bool" where
  "cursor_at T n c positions \<longleftrightarrow>
     (if n = 1 then c = '''' \<and> positions = [StartPos] \<or> c \<noteq> '''' \<and> (\<exists>t i. decodeCursor T c = Inr (t, i) \<and> positions = [At t i])
      else decodeMultiCursor T c n = Inr positions)"

definition row_text_ok :: "cursor_text \<Rightarrow> read_row \<Rightarrow> bool" where
  "row_text_ok T r = text_ok T (rd_created r) (rd_id r)"

definition listed_from :: "cursor_text \<Rightarrow> read_row list list \<Rightarrow> string \<Rightarrow> string \<Rightarrow> read_row list \<Rightarrow> bool" where
  "listed_from T dbs cust c rows \<longleftrightarrow>
     dbs \<noteq> [] \<and> list_all (row_text_ok T) (concat dbs) \<and> distinct (map rd_id (concat dbs)) \<and>
     (\<exists>positions. length positions = length dbs \<and> list_all (pos_ok T) positions \<and> cursor_at T (length dbs) c positions \<and>
        rows = rest_rows (map (shard_list cust) dbs) positions)"

lemma distinct_ids_keys: "distinct (map rd_id rs) \<Longrightarrow> distinct (map row_key rs)"
  by (induction rs) (auto simp: row_key_def)

lemma shard_list_mset: "mset (concat (map (shard_list cust) dbs)) = mset (filter (matches cust) (concat dbs))"
  by (induction dbs) (simp_all add: shard_list_def)

lemma keyed_shard_lists:
  assumes "distinct (map rd_id (concat dbs))"
  shows "keyed (map (shard_list cust) dbs)"
proof -
  have d: "distinct (map row_key (filter (matches cust) (concat dbs)))"
    using distinct_ids_keys [OF assms] by (simp add: distinct_map_filter)
  have "distinct (map row_key (filter (matches cust) rs))" if "rs \<in> set dbs" for rs
  proof -
    have "distinct (map row_key rs)"
      using distinct_ids_keys [OF assms] that by (induction dbs) auto
    then show ?thesis by (simp add: distinct_map_filter)
  qed
  then have "list_all desc (map (shard_list cust) dbs)"
    by (auto simp: list_all_iff shard_list_def intro: desc_desc_rows)
  moreover have "distinct (map row_key (concat (map (shard_list cust) dbs)))"
    using d shard_list_mset by (metis mset_eq_imp_distinct_iff mset_map)
  ultimately show ?thesis by (simp add: keyed_def)
qed

lemma shard_page_eq:
  assumes "distinct (map row_key rows)"
  shows "queryShardPage None cust pos n rows = Inr (take n (filter (after_pos pos) (shard_list cust rows)))"
proof -
  have "distinct (map row_key (filter (matches cust) rows))" using assms by (simp add: distinct_map_filter)
  then have "filter (after_pos pos) (shard_list cust rows) = desc_rows (filter (after_pos pos) (filter (matches cust) rows))"
    unfolding shard_list_def by (rule filter_desc_rows)
  moreover have "filter (after_pos pos) (filter (matches cust) rows) = filter (\<lambda>r. matches cust r \<and> after_pos pos r) rows"
    by (simp add: conj_commute)
  ultimately show ?thesis by (simp add: queryShardPage_def)
qed

lemma clamp_pos: "0 < nat (clampLimit n)"
  by (simp add: clampLimit_def DefaultPageLimit_def MaxPageLimit_def)

lemma fan_out_eq:
  assumes "\<forall>rows \<in> set dbs. distinct (map row_key rows)" "length positions = length dbs"
  shows "ForEachShard None (page_of (\<lambda>_. None) cust positions n) (map (\<lambda>rows. (rows, [])) dbs) =
     (zip dbs (map (take n) (remaining (map (shard_list cust) dbs) positions)), [])"
proof -
  let ?f = "page_of (\<lambda>_. None) cust positions n"
  have page: "?f i (dbs ! i, []) = ((dbs ! i, take n (filter (after_pos (positions ! i)) (shard_list cust (dbs ! i)))), None)"
    if "i < length dbs" for i
    using assms that by (simp add: page_of_def shard_page_eq)
  have "map (\<lambda>(i, s). (i, ?f i s)) (zip [0..<length dbs] (map (\<lambda>rows. (rows, [])) dbs)) =
     map (\<lambda>i. (i, (dbs ! i, take n (filter (after_pos (positions ! i)) (shard_list cust (dbs ! i)))), None)) [0..<length dbs]"
    by (rule nth_equalityI) (simp_all add: page)
  moreover have "zip dbs (map (take n) (remaining (map (shard_list cust) dbs) positions)) =
     map (\<lambda>i. (dbs ! i, take n (filter (after_pos (positions ! i)) (shard_list cust (dbs ! i))))) [0..<length dbs]"
    using assms(2) by (intro nth_equalityI) (simp_all add: remaining_def)
  ultimately show ?thesis by (simp add: ForEachShard_def comp_def)
qed

lemma row_keys_of_shard:
  "distinct (map rd_id (concat dbs)) \<Longrightarrow> \<forall>rows \<in> set dbs. distinct (map row_key rows)"
  by (induction dbs) (auto intro: distinct_ids_keys)

lemma pos_ok_rows:
  assumes "list_all (row_text_ok T) (concat dbs)" "list_all (pos_ok T) positions"
    and "set positions' \<subseteq> set positions \<union> at_row ` set (concat (map (shard_list cust) dbs))"
  shows "list_all (pos_ok T) positions'"
proof -
  have "set (concat (map (shard_list cust) dbs)) \<subseteq> set (concat dbs)" by (auto simp: shard_list_def)
  then have "set positions' \<subseteq> set positions \<union> at_row ` set (concat dbs)" using assms(3) by blast
  moreover have "pos_ok T (at_row r)" if "r \<in> set (concat dbs)" for r
    using assms(1) that by (auto simp: list_all_iff row_text_ok_def at_row_def)
  ultimately show ?thesis using assms(2) unfolding list_all_iff by blast
qed

lemma remaining_single: "desc rs \<Longrightarrow> rest_rows [rs] [p] = filter (after_pos p) rs"
  by (simp add: rest_rows_def remaining_def desc_rows_unique desc_filter)

lemma single_page:
  assumes "distinct (map rd_id db)" "list_all (row_text_ok T) db" "0 < n"
    and "c = '''' \<and> p = StartPos \<or> c \<noteq> '''' \<and> (\<exists>t i. decodeCursor T c = Inr (t, i) \<and> p = At t i)"
  shows "\<exists>page. listSingleShard T None db \<lparr>Cursor = c, Limit = l, CustomerID = cust\<rparr> n = Inr page \<and>
     Items page = rowsToViews (take n (filter (after_pos p) (shard_list cust db))) \<and>
     (if length (filter (after_pos p) (shard_list cust db)) < n then NextCursor page = ''''
      else NextCursor page \<noteq> '''' \<and> (\<exists>t i. decodeCursor T (NextCursor page) = Inr (t, i) \<and> text_ok T t i \<and>
        filter (after_pos (At t i)) (shard_list cust db) = drop n (filter (after_pos p) (shard_list cust db))))"
proof -
  let ?rem = "filter (after_pos p) (shard_list cust db)"
  let ?rs = "take n ?rem"
  have keys: "distinct (map row_key db)" by (rule distinct_ids_keys [OF assms(1)])
  have page: "listSingleShard T None db \<lparr>Cursor = c, Limit = l, CustomerID = cust\<rparr> n =
      Inr \<lparr>Items = rowsToViews ?rs,
           NextCursor = (if length ?rs = n then encodeCursor T (rd_created (last ?rs)) (rd_id (last ?rs)) else '''')\<rparr>"
    using assms(4) shard_page_eq [OF keys] by (auto simp: listSingleShard_def)
  show ?thesis
  proof (cases "length ?rem < n")
    case False
    then have ne: "?rs \<noteq> []" "length ?rs = n" using assms(3) by auto
    have "last ?rs \<in> set ?rem" using last_in_set [OF ne(1)] by (rule in_set_takeD)
    then have "last ?rs \<in> set db" by (simp add: shard_list_def)
    then have ok: "text_ok T (rd_created (last ?rs)) (rd_id (last ?rs))"
      using assms(2) by (simp add: list_all_iff row_text_ok_def)
    have "desc (shard_list cust db)"
      unfolding shard_list_def by (rule desc_desc_rows) (use keys in \<open>simp add: distinct_map_filter\<close>)
    then have "filter (after_pos (at_row (last ?rs))) (shard_list cust db) = drop n ?rem"
      by (rule advance_many [where xs = ?rs and p = p]) (simp, rule ne)
    then show ?thesis using page ok ne False
      by (auto simp: single_cursor_roundtrip encodeCursor_nonempty at_row_def)
  qed (use page in simp)
qed

lemma multi_page:
  assumes "distinct (map rd_id (concat dbs))" "list_all (row_text_ok T) (concat dbs)" "0 < n" "dbs \<noteq> []"
    and pos: "length positions = length dbs" "list_all (pos_ok T) positions" "decodeMultiCursor T c (length dbs) = Inr positions"
  shows "\<exists>page. listScatterGather T None (\<lambda>_. None) dbs \<lparr>Cursor = c, Limit = l, CustomerID = cust\<rparr> n = Inr page \<and>
     Items page = rowsToViews (take n (rest_rows (map (shard_list cust) dbs) positions)) \<and>
     (if length (rest_rows (map (shard_list cust) dbs) positions) < n then NextCursor page = ''''
      else NextCursor page \<noteq> '''' \<and> (\<exists>positions'. length positions' = length dbs \<and> list_all (pos_ok T) positions' \<and>
        decodeMultiCursor T (NextCursor page) (length dbs) = Inr positions' \<and>
        rest_rows (map (shard_list cust) dbs) positions' = drop n (rest_rows (map (shard_list cust) dbs) positions)))"
proof -
  let ?ls = "map (shard_list cust) dbs"
  let ?m = "merge_loop n (remaining ?ls positions) positions"
  have "merge_loop n (map (take n) (remaining ?ls positions)) positions = ?m"
    by (rule merge_take) (auto simp: list_all2_conv_all_nth)
  moreover have "map snd (zip dbs (map (take n) (remaining ?ls positions))) = map (take n) (remaining ?ls positions)"
    using pos(1) by (simp add: remaining_def)
  ultimately have page: "listScatterGather T None (\<lambda>_. None) dbs \<lparr>Cursor = c, Limit = l, CustomerID = cust\<rparr> n =
      Inr \<lparr>Items = rowsToViews (fst ?m), NextCursor = (if length (fst ?m) = n then encodeMultiCursor T (snd ?m) else '''')\<rparr>"
    using pos fan_out_eq [OF row_keys_of_shard [OF assms(1)] pos(1)]
    by (simp add: listScatterGather_def errors_Join_def split: prod.splits)
  note spec = merge_spec [OF keyed_shard_lists [OF assms(1)], of positions cust n]
  have ok: "list_all (pos_ok T) (snd ?m)"
    by (rule pos_ok_rows [OF assms(2) pos(2), of _ cust]) (use spec pos(1) in simp)
  show ?thesis
  proof (cases "length (rest_rows ?ls positions) < n")
    case False
    have "decodeMultiCursor T (encodeMultiCursor T (snd ?m)) (length dbs) = Inr (snd ?m)"
      using multi_cursor_roundtrip [OF _ ok] spec pos(1) assms(4) by (metis length_0_conv length_map)
    then show ?thesis using page spec pos(1) ok False encodeMultiCursor_nonempty by auto
  qed (use page spec pos in auto)
qed

text \<open>The handler as the pages of one listing, and its contract.\<close>

definition handler_pages :: "cursor_text \<Rightarrow> read_row list list \<Rightarrow> int \<Rightarrow> string \<Rightarrow> string \<Rightarrow> (list_error, order_page) result" where
  "handler_pages T dbs l cust c = ListOrdersHandler T None (\<lambda>_. None) dbs \<lparr>Cursor = c, Limit = l, CustomerID = cust\<rparr>"

lemma handler_page:
  assumes "listed_from T dbs cust c rows"
  shows "\<exists>p. handler_pages T dbs l cust c = Inr p \<and> Items p = rowsToViews (take (nat (clampLimit l)) rows) \<and>
      (if length rows < nat (clampLimit l) then NextCursor p = ''''
       else NextCursor p \<noteq> '''' \<and> listed_from T dbs cust (NextCursor p) (drop (nat (clampLimit l)) rows))"
proof -
  obtain positions where dbs: "dbs \<noteq> []" "list_all (row_text_ok T) (concat dbs)" "distinct (map rd_id (concat dbs))"
    and pos: "length positions = length dbs" "list_all (pos_ok T) positions" "cursor_at T (length dbs) c positions"
      "rows = rest_rows (map (shard_list cust) dbs) positions"
    using assms unfolding listed_from_def by blast
  show ?thesis
  proof (cases "length dbs = 1")
    case False
    then have "decodeMultiCursor T c (length dbs) = Inr positions" using pos(3) by (simp add: cursor_at_def)
    then obtain page where page: "handler_pages T dbs l cust c = Inr page"
      "Items page = rowsToViews (take (nat (clampLimit l)) rows)"
      "if length rows < nat (clampLimit l) then NextCursor page = ''''
       else NextCursor page \<noteq> '''' \<and> (\<exists>positions'. length positions' = length dbs \<and> list_all (pos_ok T) positions' \<and>
        decodeMultiCursor T (NextCursor page) (length dbs) = Inr positions' \<and>
        rest_rows (map (shard_list cust) dbs) positions' = drop (nat (clampLimit l)) rows)"
      using multi_page [OF dbs(3,2) clamp_pos dbs(1) pos(1,2), of c l cust] pos(4) False
      by (auto simp: handler_pages_def ListOrdersHandler_def)
    have "listed_from T dbs cust (NextCursor page) (drop (nat (clampLimit l)) rows)" if full: "\<not> length rows < nat (clampLimit l)"
      using page(3) full dbs False unfolding listed_from_def cursor_at_def by auto
    then show ?thesis using page by auto
  next
    case True
    then obtain db where db: "dbs = [db]" by (cases dbs) auto
    obtain p where p: "positions = [p]" using pos(1) True by (cases positions) auto
    have rest_rows: "rest_rows (map (shard_list cust) dbs) [q] = filter (after_pos q) (shard_list cust db)" for q
      using keyed_shard_lists [OF dbs(3), of cust] by (simp add: db remaining_single keyed_def)
    have "c = '''' \<and> p = StartPos \<or> c \<noteq> '''' \<and> (\<exists>t i. decodeCursor T c = Inr (t, i) \<and> p = At t i)"
      using pos(3) p True by (auto simp: cursor_at_def)
    then obtain page where page: "listSingleShard T None db \<lparr>Cursor = c, Limit = l, CustomerID = cust\<rparr> (nat (clampLimit l)) = Inr page"
      "Items page = rowsToViews (take (nat (clampLimit l)) rows)"
      "if length rows < nat (clampLimit l) then NextCursor page = ''''
       else NextCursor page \<noteq> '''' \<and> (\<exists>t i. decodeCursor T (NextCursor page) = Inr (t, i) \<and> text_ok T t i \<and>
        filter (after_pos (At t i)) (shard_list cust db) = drop (nat (clampLimit l)) rows)"
      using single_page [of db T "nat (clampLimit l)" c p l cust] dbs clamp_pos pos(4) p rest_rows by (auto simp: db)
    have "listed_from T dbs cust (NextCursor page) (drop (nat (clampLimit l)) rows)" if full: "\<not> length rows < nat (clampLimit l)"
    proof -
      obtain t i where ti: "decodeCursor T (NextCursor page) = Inr (t, i)" "text_ok T t i"
        "filter (after_pos (At t i)) (shard_list cust db) = drop (nat (clampLimit l)) rows" and "NextCursor page \<noteq> ''''"
        using page(3) full by auto
      then show ?thesis using dbs rest_rows True unfolding listed_from_def cursor_at_def
        by (intro conjI exI [of _ "[At t i]"]) simp_all
    qed
    then show ?thesis using page True by (auto simp: handler_pages_def ListOrdersHandler_def db)
  qed
qed

interpretation order_listing: keyset_listing "handler_pages T dbs l cust" "listed_from T dbs cust" "nat (clampLimit l)"
  for T dbs l cust
  by unfold_locales (rule clamp_pos, rule handler_page)

lemma first_page:
  assumes "dbs \<noteq> []" "list_all (row_text_ok T) (concat dbs)" "distinct (map rd_id (concat dbs))"
  shows "listed_from T dbs cust '''' (rest_rows (map (shard_list cust) dbs) (replicate (length dbs) StartPos))"
  using assms unfolding listed_from_def
  by (intro conjI exI [of _ "replicate (length dbs) StartPos"])
    (simp_all add: cursor_at_def decodeMultiCursor_def list_all_iff)

lemma total_start:
  "mset (rest_rows (map (shard_list cust) dbs) (replicate (length dbs) StartPos)) = mset (filter (matches cust) (concat dbs))"
  by (induction dbs) (simp_all add: rest_rows_def remaining_def shard_list_def)

section \<open>Properties\<close>

text \<open>C15. A client that follows the cursors of \<open>ListOrdersHandler\<close> from the first page reaches the end, on one shard
  and on many, for every page size, and has then received every order its filter keeps exactly once, newest first.
  The order ids are unique over the shards; the time of every row prints to a text that parses back, without the
  separators of a cursor, and its id is canonical.\<close>

theorem listing_complete:
  assumes "dbs \<noteq> []" "list_all (row_text_ok T) (concat dbs)" "distinct (map rd_id (concat dbs))"
  shows "\<exists>rows. follow (\<lambda>c. ListOrdersHandler T None (\<lambda>_. None) dbs \<lparr>Cursor = c, Limit = l, CustomerID = cust\<rparr>) '''' =
       Some (Inr (rowsToViews rows)) \<and>
     sorted_wrt rowBefore rows \<and> mset rows = mset (filter (matches cust) (concat dbs))"
proof (intro exI conjI)
  let ?rows = "rest_rows (map (shard_list cust) dbs) (replicate (length dbs) StartPos)"
  show "follow (\<lambda>c. ListOrdersHandler T None (\<lambda>_. None) dbs \<lparr>Cursor = c, Limit = l, CustomerID = cust\<rparr>) '''' =
      Some (Inr (rowsToViews ?rows))"
    using order_listing.follow_all [OF first_page [OF assms]] unfolding handler_pages_def .
  show "sorted_wrt rowBefore ?rows" by (rule desc_total [OF keyed_shard_lists [OF assms(3)]]) simp
qed (rule total_start)


text \<open>Two shards, three orders, pages of two: the times are printed as single letters.\<close>

definition sample_text :: cursor_text where
  "sample_text = \<lparr>ct_format = (\<lambda>t. if t = 1 then ''a'' else if t = 2 then ''b'' else ''c''),
     ct_parse = (\<lambda>s. if s = ''a'' then Inr 1 else if s = ''b'' then Inr 2 else if s = ''c'' then Inr 3 else Inl (ErrText s)),
     ct_uuid = (\<lambda>s. if length s = 1 then Inr s else Inl (ErrText s))\<rparr>"

definition sample_row :: "string \<Rightarrow> int \<Rightarrow> read_row" where
  "sample_row i t = \<lparr>rd_id = i, rd_customer = ''u'', rd_cents = 5, rd_currency = ''EUR'', rd_status = ''PENDING'', rd_created = t,
     rd_updated = t\<rparr>"

definition sample_dbs :: "read_row list list" where
  "sample_dbs = [[sample_row ''x'' 1, sample_row ''y'' 3], [sample_row ''z'' 2]]"

lemma sample_dbs_ok:
  "sample_dbs \<noteq> []" "list_all (row_text_ok sample_text) (concat sample_dbs)" "distinct (map rd_id (concat sample_dbs))"
  by (simp_all add: sample_dbs_def sample_row_def sample_text_def row_text_ok_def text_ok_def)

theorem listing_complete_witness:
  "\<exists>rows. follow (\<lambda>c. ListOrdersHandler sample_text None (\<lambda>_. None) sample_dbs \<lparr>Cursor = c, Limit = 2, CustomerID = ''u''\<rparr>) '''' =
       Some (Inr (rowsToViews rows)) \<and>
     sorted_wrt rowBefore rows \<and> mset rows = mset (filter (matches ''u'') (concat sample_dbs))"
  by (rule listing_complete [OF sample_dbs_ok])

lemma b64_decode_single: "b64_decode (encodeCursor T t i) = Some (pos_text T t i)"
  by (simp add: encodeCursor_def b64_roundtrip)

lemma multi_cursor_other_count:
  assumes "positions \<noteq> []" "list_all (pos_ok T) positions" "n \<noteq> length positions"
  shows "decodeMultiCursor T (encodeMultiCursor T positions) n = Inl (ErrInvalidCursor None)"
proof -
  have "str_split (CHR 0x0A) (str_join (CHR 0x0A) (map (pos_part T) positions)) = map (pos_part T) positions"
    using assms by (intro split_join) (auto simp: list_all_iff pos_part_plain)
  then show ?thesis using assms(3) encodeMultiCursor_nonempty
    by (simp add: decodeMultiCursor_def) (simp add: encodeMultiCursor_def b64_roundtrip has_prefix_def)
qed

lemma single_is_not_multi:
  assumes "ct_format T t \<noteq> []" "hd (ct_format T t) \<noteq> CHR 0x01"
  shows "decodeMultiCursor T (encodeCursor T t i) n = Inl (ErrInvalidCursor None)"
proof -
  have "\<not> has_prefix (pos_text T t i) multiCursorVersion"
    using assms by (cases "ct_format T t") (auto simp: has_prefix_def multiCursorVersion_def pos_text_def)
  then show ?thesis by (simp add: decodeMultiCursor_def encodeCursor_nonempty b64_decode_single)
qed

text \<open>Cursors are lossless and fail closed. A single-shard cursor decodes to the position it was made from, and a
  multi-shard cursor to all its positions; decoded against another number of shards, it is an invalid cursor, and so is
  a single-shard cursor given to the multi-shard decoder.\<close>

theorem cursors_roundtrip:
  assumes "positions \<noteq> []" "list_all (pos_ok T) positions" "text_ok T t i"
    and "ct_format T t \<noteq> []" "hd (ct_format T t) \<noteq> CHR 0x01"
  shows "decodeCursor T (encodeCursor T t i) = Inr (t, i) \<and>
     decodeMultiCursor T (encodeMultiCursor T positions) n =
       (if n = length positions then Inr positions else Inl (ErrInvalidCursor None)) \<and>
     decodeMultiCursor T (encodeCursor T t i) n = Inl (ErrInvalidCursor None)"
  using multi_cursor_roundtrip [OF assms(1,2)] multi_cursor_other_count [OF assms(1,2)]
    single_cursor_roundtrip [OF assms(3)] single_is_not_multi [OF assms(4,5)] by simp

theorem cursors_roundtrip_witness:
  "decodeCursor sample_text (encodeCursor sample_text 1 ''x'') = Inr (1, ''x'') \<and>
     decodeMultiCursor sample_text (encodeMultiCursor sample_text [StartPos, At 2 ''z'']) 3 =
       (if 3 = length [StartPos, At 2 ''z''] then Inr [StartPos, At 2 ''z''] else Inl (ErrInvalidCursor None)) \<and>
     decodeMultiCursor sample_text (encodeCursor sample_text 1 ''x'') 3 = Inl (ErrInvalidCursor None)"
  by (rule cursors_roundtrip) (simp_all add: sample_text_def text_ok_def)

lemma parse_pos_error: "parse_pos T s = Inl e \<Longrightarrow> \<exists>c. e = ErrInvalidCursor c"
  by (auto simp: parse_pos_def split: prod.splits if_splits sum.splits)

lemma parse_parts_type:
  "case parse_parts T ps of Inl e \<Rightarrow> \<exists>c. e = ErrInvalidCursor c | Inr positions \<Rightarrow> length positions = length ps"
proof (induction ps)
  case (Cons p ps)
  show ?case
  proof (cases "p = posStart")
    case True
    then show ?thesis using Cons by (auto split: sum.splits)
  next
    case False
    then show ?thesis using Cons parse_pos_error [of T p] by (cases "parse_pos T p") (auto split: sum.splits)
  qed
qed simp

lemma decodeMultiCursor_type:
  "case decodeMultiCursor T c n of Inl e \<Rightarrow> \<exists>x. e = ErrInvalidCursor x | Inr positions \<Rightarrow> length positions = n"
proof -
  have "case parse_parts T ps of Inl e \<Rightarrow> \<exists>c. e = ErrInvalidCursor c | Inr positions \<Rightarrow> length positions = n"
    if "length ps = n" for ps
    using parse_parts_type [of ps T] that by (auto split: sum.splits)
  then show ?thesis by (auto simp: decodeMultiCursor_def Let_def split: option.splits)
qed

lemma merge_loop_length: "length (fst (merge_loop n rests positions)) \<le> n"
  by (induction n arbitrary: rests positions) (auto split: option.splits prod.splits dest: meta_spec2 simp: case_prod_beta)

lemma ForEachShard_no_error:
  assumes "\<And>i s. snd (f i s) = None"
  shows "snd (ForEachShard None f ss) = []"
  using assms by (auto simp: ForEachShard_def Let_def split: option.splits prod.splits) (metis option.distinct(1) snd_conv)

lemma map_sum_Inl: "map_sum id f r = Inl e \<Longrightarrow> (r = Inl e \<Longrightarrow> P) \<Longrightarrow> P"
  by (cases r) simp_all

text \<open>C38. Whatever the cursor, the limit and the filter of a request are, a listing that the database answers is a page
  of at most the clamped limit, itself between 1 and 100, or the invalid-cursor error (status 400), and the decoder
  gives one position per shard or that error.\<close>

theorem listing_answers:
  "(case ListOrdersHandler T None (\<lambda>_. None) dbs q of
      Inl e \<Rightarrow> \<exists>c. e = ErrInvalidCursor c
    | Inr page \<Rightarrow> int (length (Items page)) \<le> clampLimit (Limit q)) \<and>
   1 \<le> clampLimit (Limit q) \<and> clampLimit (Limit q) \<le> 100 \<and>
   (case decodeMultiCursor T c n of Inl e \<Rightarrow> \<exists>x. e = ErrInvalidCursor x | Inr positions \<Rightarrow> length positions = n)"
proof (intro conjI)
  let ?n = "nat (clampLimit (Limit q))"
  have single: "case listSingleShard T None db q ?n of Inl e \<Rightarrow> \<exists>c. e = ErrInvalidCursor c | Inr page \<Rightarrow> length (Items page) \<le> ?n" for db
    by (auto simp: listSingleShard_def queryShardPage_def rowsToViews_def decodeCursor_def split: sum.splits option.splits
        elim!: map_sum_Inl dest!: parse_pos_error)
  have "snd (ForEachShard None (page_of (\<lambda>_. None) (CustomerID q) positions ?n) (map (\<lambda>rows. (rows, [])) dbs)) = []" for positions
    by (rule ForEachShard_no_error) (simp add: page_of_def queryShardPage_def)
  then have "case listScatterGather T None (\<lambda>_. None) dbs q ?n of Inl e \<Rightarrow> \<exists>c. e = ErrInvalidCursor c | Inr page \<Rightarrow> length (Items page) \<le> ?n"
    using decodeMultiCursor_type [where T = T and c = "Cursor q" and n = "length dbs"] merge_loop_length
    by (auto simp: listScatterGather_def errors_Join_def rowsToViews_def case_prod_beta split: sum.splits)
  then show "case ListOrdersHandler T None (\<lambda>_. None) dbs q of Inl e \<Rightarrow> \<exists>c. e = ErrInvalidCursor c
    | Inr page \<Rightarrow> int (length (Items page)) \<le> clampLimit (Limit q)"
    using single [of "dbs ! 0"] clamp_pos [of "Limit q"]
    by (cases "length dbs = 1") (auto simp: ListOrdersHandler_def le_nat_iff split: sum.splits)
  show "1 \<le> clampLimit (Limit q)" "clampLimit (Limit q) \<le> 100"
    by (simp_all add: clampLimit_def DefaultPageLimit_def MaxPageLimit_def)
qed (rule decodeMultiCursor_type)

end
