(* ===== verification/Sha256.thy ===== *)
theory Sha256
  imports Base64 "HOL-Library.Word"
begin

text \<open>
  \<open>crypto/sha256\<close>, \<open>crypto/hmac\<close>, \<open>encoding/binary\<close> (big endian), \<open>encoding/hex\<close> and \<open>hash/fnv\<close> of the Go library,
  as \<open>platform/security/audit\<close> uses them. The functions are those of FIPS 180-4, RFC 2104 and the FNV-1a
  definition, on 32-bit words.
\<close>

unbundle bit_operations_syntax

section \<open>Big-endian integers and hexadecimal text\<close>

text \<open>\<open>binary.BigEndian.PutUint64(_, uint64(x))\<close>: eight bytes of \<open>x\<close> modulo \<open>2 ^ 64\<close>.\<close>

fun be_bytes :: "nat \<Rightarrow> int \<Rightarrow> string" where
  "be_bytes 0 x = []"
| "be_bytes (Suc n) x = be_bytes n (x div 256) @ [to_byte (nat (x mod 256))]"

definition be64 :: "int \<Rightarrow> string" where
  "be64 x = be_bytes 8 x"

definition hex_digit :: "nat \<Rightarrow> char" where
  "hex_digit n = ''0123456789abcdef'' ! n"

definition hex_text :: "string \<Rightarrow> string" where
  "hex_text s = concat (map (\<lambda>c. [hex_digit (byte c div 16), hex_digit (byte c mod 16)]) s)"

section \<open>SHA-256\<close>

type_synonym w32 = "32 word"

definition sha_k :: "w32 list" where
  "sha_k =
     [1116352408, 1899447441, 3049323471, 3921009573, 961987163, 1508970993, 2453635748, 2870763221,
      3624381080, 310598401, 607225278, 1426881987, 1925078388, 2162078206, 2614888103, 3248222580,
      3835390401, 4022224774, 264347078, 604807628, 770255983, 1249150122, 1555081692, 1996064986,
      2554220882, 2821834349, 2952996808, 3210313671, 3336571891, 3584528711, 113926993, 338241895,
      666307205, 773529912, 1294757372, 1396182291, 1695183700, 1986661051, 2177026350, 2456956037,
      2730485921, 2820302411, 3259730800, 3345764771, 3516065817, 3600352804, 4094571909, 275423344,
      430227734, 506948616, 659060556, 883997877, 958139571, 1322822218, 1537002063, 1747873779,
      1955562222, 2024104815, 2227730452, 2361852424, 2428436474, 2756734187, 3204031479, 3329325298]"

definition sha_init :: "w32 list" where
  "sha_init = [1779033703, 3144134277, 1013904242, 2773480762, 1359893119, 2600822924, 528734635, 1541459225]"

definition rotr :: "nat \<Rightarrow> w32 \<Rightarrow> w32" where
  "rotr n x = drop_bit n x OR push_bit (32 - n) x"

fun be_word :: "string \<Rightarrow> w32" where
  "be_word cs = foldl (\<lambda>a c. push_bit 8 a OR of_nat (byte c)) 0 cs"

fun chunks :: "nat \<Rightarrow> 'a list \<Rightarrow> nat \<Rightarrow> 'a list list" where
  "chunks k xs 0 = []"
| "chunks k xs (Suc n) = take k xs # chunks k (drop k xs) n"

definition sha_pad :: "string \<Rightarrow> string" where
  "sha_pad m = m @ CHR 0x80 # replicate ((119 - length m mod 64) mod 64) (CHR 0x00) @ be64 (8 * int (length m))"

fun sha_schedule :: "nat \<Rightarrow> w32 list \<Rightarrow> w32 list" where
  "sha_schedule 0 ws = []"
| "sha_schedule (Suc n) ws =
     (let a = ws ! 1; b = ws ! 14;
          s0 = rotr 7 a XOR rotr 18 a XOR drop_bit 3 a;
          s1 = rotr 17 b XOR rotr 19 b XOR drop_bit 10 b
      in hd ws # sha_schedule n (tl ws @ [hd ws + s0 + ws ! 9 + s1]))"

fun sha_round :: "w32 list \<Rightarrow> w32 \<times> w32 \<Rightarrow> w32 list" where
  "sha_round [a, b, c, d, e, f, g, h] (k, w) =
     (let t1 = h + (rotr 6 e XOR rotr 11 e XOR rotr 25 e) + ((e AND f) XOR (NOT e AND g)) + k + w;
          t2 = (rotr 2 a XOR rotr 13 a XOR rotr 22 a) + ((a AND b) XOR (a AND c) XOR (b AND c))
      in [t1 + t2, a, b, c, d + t1, e, f, g])"
| "sha_round st kw = st"

definition sha_block :: "w32 list \<Rightarrow> string \<Rightarrow> w32 list" where
  "sha_block h blk =
     map2 (+) h (foldl sha_round h (zip sha_k (sha_schedule 64 (map be_word (chunks 4 blk 16)))))"

definition sha256 :: "string \<Rightarrow> string" where
  "sha256 m =
     (let p = sha_pad m
      in concat (map (\<lambda>w. be_bytes 4 (uint w)) (foldl sha_block sha_init (chunks 64 p (length p div 64)))))"

text \<open>\<open>hmac.New(sha256.New, key)\<close> fed with \<open>m\<close>.\<close>

definition hmac_sha256 :: "string \<Rightarrow> string \<Rightarrow> string" where
  "hmac_sha256 key m =
     (let k = (if 64 < length key then sha256 key else key);
          k' = k @ replicate (64 - length k) (CHR 0x00);
          pad = (\<lambda>x. map (\<lambda>c. to_byte (byte c XOR x)) k')
      in sha256 (pad 0x5c @ sha256 (pad 0x36 @ m)))"

section \<open>FNV-1a, 32 bits\<close>

definition fnv32a :: "string \<Rightarrow> w32" where
  "fnv32a s = foldl (\<lambda>h c. (h XOR of_nat (byte c)) * 16777619) 2166136261 s"

section \<open>Lemmas\<close>

lemma length_be_bytes [simp]: "length (be_bytes n x) = n"
  by (induction n arbitrary: x) simp_all

lemma length_be64 [simp]: "length (be64 x) = 8"
  by (simp add: be64_def)

lemma byte_to_byte: "n < 256 \<Longrightarrow> byte (to_byte n) = n"
  by (simp add: byte_def to_byte_def)

lemma to_byte_inj: "m < 256 \<Longrightarrow> n < 256 \<Longrightarrow> to_byte m = to_byte n \<Longrightarrow> m = n"
  by (metis byte_to_byte)

text \<open>The bytes determine the number modulo their range.\<close>

lemma be_bytes_inj: "be_bytes n x = be_bytes n y \<Longrightarrow> x mod 256 ^ n = y mod 256 ^ n"
proof (induction n arbitrary: x y)
  case (Suc n)
  then have "be_bytes n (x div 256) = be_bytes n (y div 256)" "to_byte (nat (x mod 256)) = to_byte (nat (y mod 256))"
    by simp_all
  moreover have "nat (x mod 256) < 256" "nat (y mod 256) < 256" by (simp_all add: nat_less_iff)
  ultimately have "x div 256 mod 256 ^ n = y div 256 mod 256 ^ n" "x mod 256 = y mod 256"
    using Suc.IH to_byte_inj by (metis, metis eq_nat_nat_iff pos_mod_sign zero_less_numeral)
  then show ?case by (simp add: zmod_zmult2_eq)
qed simp

lemma be64_inj: "be64 x = be64 y \<Longrightarrow> x mod 2 ^ 64 = y mod 2 ^ 64"
  using be_bytes_inj [of 8 x y] by (simp add: be64_def)

lemma be64_len_inj: "be64 (int m) = be64 (int n) \<Longrightarrow> m < 2 ^ 64 \<Longrightarrow> n < 2 ^ 64 \<Longrightarrow> m = n"
  using be64_inj [of "int m" "int n"] by simp

lemma length_sha_round [simp]: "length (sha_round st kw) = length st"
  by (cases "(st, kw)" rule: sha_round.cases) (simp_all add: Let_def)

lemma length_sha_rounds [simp]: "length (foldl sha_round st kws) = length st"
  by (induction kws arbitrary: st) simp_all

lemma length_sha_block [simp]: "length (sha_block h blk) = length h"
  by (simp add: sha_block_def)

lemma length_sha_blocks: "length (foldl sha_block h blks) = length h"
  by (induction blks arbitrary: h) simp_all

lemma length_sha256 [simp]: "length (sha256 m) = 32"
proof -
  have "length (concat (map (\<lambda>w. be_bytes 4 (uint w)) ws)) = 4 * length ws" for ws :: "w32 list"
    by (induction ws) simp_all
  then show ?thesis by (simp add: sha256_def Let_def length_sha_blocks sha_init_def)
qed

lemma length_hmac_sha256 [simp]: "length (hmac_sha256 key m) = 32"
  by (simp add: hmac_sha256_def Let_def)

end
