(* ===== verification/Audit_Chain.thy ===== *)
theory Audit_Chain
  imports Sha256 Pg_Tx Outbox "HOL-Library.List_Lexorder" "HOL-Library.Char_ord" "HOL-Library.Product_Lexorder" "HOL-Library.Multiset"
begin

text \<open>
  \<open>platform/security/audit\<close>: the tamper-evident audit log. Every entry is a row of \<open>audit_log\<close> whose hash covers the
  entry and the hash of the row before it in its chain; \<open>audit_chain_head\<close> holds the hash of the last row of each
  chain. \<open>audit.go\<close> writes the chains and verifies them, \<open>pending.go\<close> stages entries and applies them later.

  The tables are lists in insertion order. A chain is written under the lock of its head, which is taken before the
  id of a row is drawn, so ids grow along a chain. Times are nanoseconds since 1970, \<open>None\<close> is Go's zero time; a NULL hash reads as the empty
  string. The outcome of each database statement is an argument. A Go map of metadata is an association list
  with distinct keys, in any order; \<open>json.Marshal\<close> of such a map does not fail, it replaces invalid UTF-8.
\<close>

section \<open>Metadata as JSON\<close>

datatype json = JNull | JBool bool | JNum string | JStr string | JArr "json list" | JObj "(string \<times> json) list"

definition in_range :: "nat \<Rightarrow> nat \<Rightarrow> char \<Rightarrow> bool" where
  "in_range lo hi c \<longleftrightarrow> lo \<le> byte c \<and> byte c \<le> hi"

text \<open>The length of the first rune of a text, 0 when its bytes are not valid UTF-8.\<close>

fun rune_len :: "string \<Rightarrow> nat" where
  "rune_len [] = 0"
| "rune_len (a # r) =
     (if in_range 0 0x7F a then 1
      else if in_range 0xC2 0xDF a then (case r of b # _ \<Rightarrow> if in_range 0x80 0xBF b then 2 else 0 | _ \<Rightarrow> 0)
      else if in_range 0xE0 0xEF a then
        (case r of b # c # _ \<Rightarrow>
           if in_range (if byte a = 0xE0 then 0xA0 else 0x80) (if byte a = 0xED then 0x9F else 0xBF) b \<and> in_range 0x80 0xBF c
           then 3 else 0 | _ \<Rightarrow> 0)
      else if in_range 0xF0 0xF4 a then
        (case r of b # c # d # _ \<Rightarrow>
           if in_range (if byte a = 0xF0 then 0x90 else 0x80) (if byte a = 0xF4 then 0x8F else 0xBF) b
              \<and> in_range 0x80 0xBF c \<and> in_range 0x80 0xBF d
           then 4 else 0 | _ \<Rightarrow> 0)
      else 0)"

function utf8_coerce :: "string \<Rightarrow> string" where
  "utf8_coerce s =
     (if s = [] then []
      else if rune_len s = 0 then [CHR 0xEF, CHR 0xBF, CHR 0xBD] @ utf8_coerce (tl s)
      else take (rune_len s) s @ utf8_coerce (drop (rune_len s) s))"
  by pat_completeness auto
termination
  by (relation "measure length") (auto simp: Suc_le_eq)

declare utf8_coerce.simps [simp del]

type_synonym metadata = "(string \<times> string) list option"

definition map_entries :: "metadata \<Rightarrow> (string \<times> string) list" where
  "map_entries m = sort_key fst (case m of None \<Rightarrow> [] | Some kvs \<Rightarrow> kvs)"

definition marshalMetadata :: "metadata \<Rightarrow> json" where
  "marshalMetadata m =
     (case m of
        None \<Rightarrow> JObj []
      | Some kvs \<Rightarrow> JObj (map (\<lambda>(k, v). (utf8_coerce k, JStr (utf8_coerce v))) (sort_key fst kvs)))"

text \<open>A \<open>jsonb\<close> column keeps the last of equal keys.\<close>

fun keep_last :: "('k \<times> 'v) list \<Rightarrow> ('k \<times> 'v) list" where
  "keep_last [] = []"
| "keep_last ((k, v) # r) = (if k \<in> set (map fst r) then keep_last r else (k, v) # keep_last r)"

fun jsonb :: "json \<Rightarrow> json" where
  "jsonb (JObj kvs) = JObj (keep_last (map (\<lambda>(k, v). (k, jsonb v)) kvs))"
| "jsonb (JArr vs) = JArr (map jsonb vs)"
| "jsonb j = j"

text \<open>\<open>json.Unmarshal\<close> into a \<open>map[string]string\<close>: a member that is not a string sets the empty string, null without an
  error and anything else with one; a document that is no object leaves the map nil.\<close>

fun str_member :: "json \<Rightarrow> string" where
  "str_member (JStr s) = s"
| "str_member _ = ''''"

fun unmarshal_meta :: "json \<Rightarrow> metadata \<times> bool" where
  "unmarshal_meta (JObj kvs) =
     (Some (map (\<lambda>(k, v). (k, str_member v)) kvs), list_all (\<lambda>(k, v). case v of JStr _ \<Rightarrow> True | JNull \<Rightarrow> True | _ \<Rightarrow> False) kvs)"
| "unmarshal_meta JNull = (None, True)"
| "unmarshal_meta _ = (None, False)"

section \<open>Entries and tables\<close>

record audit_entry =
  ae_actor :: string
  ae_action :: string
  ae_subject :: string
  ae_meta :: metadata
  ae_at :: "int option"

record audit_store =
  chainKey :: string
  chainShards :: int

record audit_row =
  ar_id :: int
  ar_actor :: string
  ar_action :: string
  ar_subject :: string
  ar_meta :: json
  ar_created :: int
  ar_prev :: string
  ar_hash :: string
  ar_chain :: int

record pending_row =
  pr_id :: int
  pr_chain :: int
  pr_entry :: audit_entry

record audit_db =
  audit_log :: "audit_row list"
  chain_heads :: "(int \<times> string) list"
  audit_pending :: "pending_row list"
  next_log :: int
  next_pending :: int

definition genesisRoot :: string where
  "genesisRoot = replicate 32 (CHR 0x00)"

definition audit_empty :: audit_db where
  "audit_empty = \<lparr>audit_log = [], chain_heads = [(1, genesisRoot)], audit_pending = [], next_log = 1, next_pending = 1\<rparr>"

definition wrap16 :: "int \<Rightarrow> int" where
  "wrap16 x = (x + 2 ^ 15) mod 2 ^ 16 - 2 ^ 15"

definition chainIDFor :: "audit_store \<Rightarrow> string \<Rightarrow> int" where
  "chainIDFor s actor =
     (if chainShards s \<le> 1 then 1
      else wrap16 (1 + wrap16 (uint (fnv32a actor mod of_int (chainShards s)))))"

section \<open>The hash of a row\<close>

definition writeField :: "string \<Rightarrow> string" where
  "writeField b = be64 (int (length b)) @ b"

definition write_pairs :: "(string \<times> string) list \<Rightarrow> string" where
  "write_pairs kvs = concat (map (\<lambda>(k, v). writeField k @ writeField v) kvs)"

definition canonical :: "string \<Rightarrow> string \<Rightarrow> string \<Rightarrow> int \<Rightarrow> metadata \<Rightarrow> string" where
  "canonical actor action subject ts meta =
     (let kvs = map_entries meta
      in writeField actor @ writeField action @ writeField subject @ be64 ts @ be64 (int (length kvs)) @ write_pairs kvs)"

definition chain_mac :: "string \<Rightarrow> string \<Rightarrow> string" where
  "chain_mac key m = (if 0 < length key then hmac_sha256 key m else sha256 m)"

definition computeEntryHash ::
  "string \<Rightarrow> string \<Rightarrow> string \<Rightarrow> string \<Rightarrow> string \<Rightarrow> int \<Rightarrow> metadata \<Rightarrow> string" where
  "computeEntryHash key prevHash actor action subject ts meta =
     chain_mac key (prevHash @ canonical actor action subject ts meta)"

section \<open>Writing\<close>

record audit_faults =
  f_ensure :: "go_err option"
  f_lock :: "go_err option"
  f_insert :: "nat \<Rightarrow> go_err option"
  f_advance :: "go_err option"

definition truncate_us :: "int \<Rightarrow> int" where
  "truncate_us t = t - t mod 1000"

definition entry_time :: "int \<Rightarrow> audit_entry \<Rightarrow> int" where
  "entry_time clock e = truncate_us (case ae_at e of None \<Rightarrow> clock | Some t \<Rightarrow> t)"

definition ensure_head :: "audit_store \<Rightarrow> audit_faults \<Rightarrow> int \<Rightarrow> audit_db \<Rightarrow> audit_db \<times> go_err option" where
  "ensure_head s f c db =
     (if chainShards s > 1
      then (case f_ensure f of
              Some e \<Rightarrow> (db, Some (ErrWrap ''audit: ensure chain head'' e))
            | None \<Rightarrow>
                ((if c \<in> set (map fst (chain_heads db)) then db
                  else db\<lparr>chain_heads := chain_heads db @ [(c, genesisRoot)]\<rparr>), None))
      else (db, None))"

definition lock_head :: "audit_faults \<Rightarrow> int \<Rightarrow> audit_db \<Rightarrow> (go_err, string) result" where
  "lock_head f c db =
     (case f_lock f of
        Some e \<Rightarrow> Inl (ErrWrap ''audit: lock chain head'' e)
      | None \<Rightarrow>
          (case map_of (chain_heads db) c of
             None \<Rightarrow> Inl (ErrWrap ''audit: lock chain head'' (ErrText ''no rows in result set''))
           | Some h \<Rightarrow> Inr h))"

definition insert_log :: "audit_store \<Rightarrow> int \<Rightarrow> string \<Rightarrow> int \<Rightarrow> audit_entry \<Rightarrow> audit_db \<Rightarrow> string \<times> audit_db" where
  "insert_log s c prevHash clock e db =
     (let ts = entry_time clock e;
          entryHash = computeEntryHash (chainKey s) prevHash (ae_actor e) (ae_action e) (ae_subject e) ts (ae_meta e);
          row = \<lparr>ar_id = next_log db, ar_actor = ae_actor e, ar_action = ae_action e, ar_subject = ae_subject e,
                 ar_meta = jsonb (marshalMetadata (ae_meta e)), ar_created = ts, ar_prev = prevHash, ar_hash = entryHash, ar_chain = c\<rparr>
      in (entryHash, db\<lparr>audit_log := audit_log db @ [row], next_log := next_log db + 1\<rparr>))"

definition set_head :: "int \<Rightarrow> string \<Rightarrow> audit_db \<Rightarrow> audit_db" where
  "set_head c h db = db\<lparr>chain_heads := map (\<lambda>(k, v). (k, if k = c then h else v)) (chain_heads db)\<rparr>"

definition Record :: "audit_store \<Rightarrow> audit_faults \<Rightarrow> int \<Rightarrow> audit_entry \<Rightarrow> audit_db \<Rightarrow> audit_db \<times> go_err option" where
  "Record s f clock e db =
     (let c = chainIDFor s (ae_actor e)
      in case ensure_head s f c db of
           (db1, Some err) \<Rightarrow> (db1, Some err)
         | (db1, None) \<Rightarrow>
             (case lock_head f c db1 of
                Inl err \<Rightarrow> (db1, Some err)
              | Inr prevHash \<Rightarrow>
                  (case f_insert f 0 of
                     Some err \<Rightarrow> (db1, Some (ErrWrap ''audit: record'' err))
                   | None \<Rightarrow>
                       (case insert_log s c prevHash clock e db1 of
                          (entryHash, db2) \<Rightarrow>
                            (case f_advance f of
                               Some err \<Rightarrow> (db2, Some (ErrWrap ''audit: advance chain head'' err))
                             | None \<Rightarrow> (set_head c entryHash db2, None))))))"

fun batch_loop ::
  "audit_store \<Rightarrow> audit_faults \<Rightarrow> (nat \<Rightarrow> int) \<Rightarrow> int \<Rightarrow> nat \<Rightarrow> string \<Rightarrow> audit_entry list \<Rightarrow> audit_db
     \<Rightarrow> audit_db \<times> (go_err, string) result" where
  "batch_loop s f clock c i prevHash [] db = (db, Inr prevHash)"
| "batch_loop s f clock c i prevHash (e # es) db =
     (case f_insert f i of
        Some err \<Rightarrow> (db, Inl (ErrWrap (''audit: record batch (index '' @ itoa (int i) @ '')'') err))
      | None \<Rightarrow>
          (case insert_log s c prevHash (clock i) e db of
             (entryHash, db') \<Rightarrow> batch_loop s f clock c (i + 1) entryHash es db'))"

definition RecordBatchSameChain ::
  "audit_store \<Rightarrow> audit_faults \<Rightarrow> (nat \<Rightarrow> int) \<Rightarrow> int \<Rightarrow> audit_entry list \<Rightarrow> audit_db \<Rightarrow> audit_db \<times> go_err option" where
  "RecordBatchSameChain s f clock c entries db =
     (if entries = [] then (db, None)
      else (case ensure_head s f c db of
              (db1, Some err) \<Rightarrow> (db1, Some err)
            | (db1, None) \<Rightarrow>
                (case lock_head f c db1 of
                   Inl err \<Rightarrow> (db1, Some err)
                 | Inr prevHash \<Rightarrow>
                     (case batch_loop s f clock c 0 prevHash entries db1 of
                        (db2, Inl err) \<Rightarrow> (db2, Some err)
                      | (db2, Inr lastHash) \<Rightarrow>
                          (case f_advance f of
                             Some err \<Rightarrow> (db2, Some (ErrWrap ''audit: advance chain head (batch)'' err))
                           | None \<Rightarrow> (set_head c lastHash db2, None))))))"

text \<open>An out-of-band entry has a transaction of its own. \<open>allowed\<close> is the answer of the limiter for denials.\<close>

definition ActionAuthzDenied :: string where "ActionAuthzDenied = ''authz.denied''"

definition RecordOutOfBand ::
  "audit_store \<Rightarrow> bool \<Rightarrow> go_err option \<Rightarrow> go_err option \<Rightarrow> audit_faults \<Rightarrow> int \<Rightarrow> audit_entry \<Rightarrow> audit_db \<Rightarrow> audit_db \<times> go_err option" where
  "RecordOutOfBand s allowed b k f clock e db =
     (if ae_action e = ActionAuthzDenied \<and> \<not> allowed then (db, None)
      else RunInTx b k (Record s f clock e) db)"

section \<open>Verification\<close>

record ChainResult =
  OK :: bool
  Verified :: nat
  BreakID :: int
  ExpectedHash :: string
  GotHash :: string
  Reason :: string

definition chain_broken :: "nat \<Rightarrow> int \<Rightarrow> string \<Rightarrow> string \<Rightarrow> string \<Rightarrow> ChainResult" where
  "chain_broken n i why expected got =
     \<lparr>OK = False, Verified = n, BreakID = i, ExpectedHash = hex_text expected, GotHash = hex_text got, Reason = why\<rparr>"

definition row_hash :: "audit_store \<Rightarrow> audit_row \<Rightarrow> string" where
  "row_hash s r =
     computeEntryHash (chainKey s) (ar_prev r) (ar_actor r) (ar_action r) (ar_subject r) (ar_created r)
       (fst (unmarshal_meta (ar_meta r)))"

fun verify_rows ::
  "audit_store \<Rightarrow> bool \<Rightarrow> nat \<Rightarrow> string option \<Rightarrow> audit_row list \<Rightarrow> (ChainResult, nat \<times> string option) result" where
  "verify_rows s fullWalk n expPrev [] = Inr (n, expPrev)"
| "verify_rows s fullWalk n expPrev (r # rs) =
     (if fullWalk \<and> expPrev = None \<and> ar_prev r \<noteq> genesisRoot
      then Inl (chain_broken n (ar_id r) ''genesis anchor mismatch'' genesisRoot (ar_prev r))
      else (case expPrev of
              Some p \<Rightarrow>
                if ar_prev r \<noteq> p then Inl (chain_broken n (ar_id r) ''prev_hash link broken'' p (ar_prev r))
                else if row_hash s r \<noteq> ar_hash r
                then Inl (chain_broken n (ar_id r) ''entry_hash mismatch'' (row_hash s r) (ar_hash r))
                else verify_rows s fullWalk (n + 1) (Some (ar_hash r)) rs
            | None \<Rightarrow>
                if row_hash s r \<noteq> ar_hash r
                then Inl (chain_broken n (ar_id r) ''entry_hash mismatch'' (row_hash s r) (ar_hash r))
                else verify_rows s fullWalk (n + 1) (Some (ar_hash r)) rs))"

definition chain_rows :: "int \<Rightarrow> int option \<Rightarrow> audit_db \<Rightarrow> audit_row list" where
  "chain_rows c since db =
     sort_key ar_id (filter (\<lambda>r. ar_chain r = c \<and> (case since of None \<Rightarrow> True | Some t \<Rightarrow> t \<le> ar_created r)) (audit_log db))"

definition verifyOneChain ::
  "audit_store \<Rightarrow> (int \<Rightarrow> go_err option) \<Rightarrow> (int \<Rightarrow> go_err option) \<Rightarrow> audit_db \<Rightarrow> int option \<Rightarrow> int \<Rightarrow> (go_err, ChainResult) result" where
  "verifyOneChain s row_err head_err db since c =
     (case row_err c of
        Some e \<Rightarrow> Inl (ErrWrap ''audit: verify chain'' e)
      | None \<Rightarrow>
          (case verify_rows s (since = None) 0 None (chain_rows c since db) of
             Inl res \<Rightarrow> Inr res
           | Inr (n, None) \<Rightarrow> Inr \<lparr>OK = True, Verified = n, BreakID = 0, ExpectedHash = '''', GotHash = '''', Reason = ''''\<rparr>
           | Inr (n, Some expPrev) \<Rightarrow>
               (case head_err c of
                  Some e \<Rightarrow> Inl (ErrWrap ''audit: verify chain head'' e)
                | None \<Rightarrow>
                    (case map_of (chain_heads db) c of
                       None \<Rightarrow> Inl (ErrWrap ''audit: verify chain head'' (ErrText ''no rows in result set''))
                     | Some headHash \<Rightarrow>
                         if expPrev \<noteq> headHash then Inr (chain_broken n 0 ''chain head mismatch'' headHash expPrev)
                         else Inr \<lparr>OK = True, Verified = n, BreakID = 0, ExpectedHash = '''', GotHash = '''', Reason = ''''\<rparr>))))"

fun verify_chains :: "(int \<Rightarrow> (go_err, ChainResult) result) \<Rightarrow> nat \<Rightarrow> int list \<Rightarrow> (go_err, ChainResult) result" where
  "verify_chains one total_rows [] = Inr \<lparr>OK = True, Verified = total_rows, BreakID = 0, ExpectedHash = '''', GotHash = '''', Reason = ''''\<rparr>"
| "verify_chains one total_rows (c # cs) =
     (case one c of
        Inl e \<Rightarrow> Inl e
      | Inr res \<Rightarrow> if \<not> OK res then Inr res else verify_chains one (total_rows + Verified res) cs)"

definition VerifyChain ::
  "audit_store \<Rightarrow> go_err option \<Rightarrow> (int \<Rightarrow> go_err option) \<Rightarrow> (int \<Rightarrow> go_err option) \<Rightarrow> audit_db \<Rightarrow> int option \<Rightarrow> (go_err, ChainResult) result" where
  "VerifyChain s list_err row_err head_err db since =
     (case list_err of
        Some e \<Rightarrow> Inl (ErrWrap ''audit: list chains'' e)
      | None \<Rightarrow> verify_chains (verifyOneChain s row_err head_err db since) 0 (sort (map fst (chain_heads db))))"

section \<open>Staged entries\<close>

text \<open>\<open>pending.go\<close>. A staged row holds the entry as the drainer will read it back: the time truncated, the metadata
  through JSON.\<close>

definition InsertPending :: "audit_store \<Rightarrow> go_err option \<Rightarrow> int \<Rightarrow> audit_entry \<Rightarrow> audit_db \<Rightarrow> audit_db \<times> go_err option" where
  "InsertPending s err clock e db =
     (case err of
        Some x \<Rightarrow> (db, Some (ErrWrap ''audit: stage pending'' x))
      | None \<Rightarrow>
          (db\<lparr>audit_pending := audit_pending db @
                [\<lparr>pr_id = next_pending db, pr_chain = chainIDFor s (ae_actor e),
                  pr_entry = e\<lparr>ae_at := Some (entry_time clock e),
                    ae_meta := fst (unmarshal_meta (jsonb (marshalMetadata (ae_meta e))))\<rparr>\<rparr>],
              next_pending := next_pending db + 1\<rparr>, None))"

text \<open>\<open>applyClaimed\<close>: the claim deletes the rows, and only rows it deleted are applied. The count is a variable the
  transaction writes last, so it survives a failed commit.\<close>

definition claim_and_apply ::
  "audit_store \<Rightarrow> go_err option \<Rightarrow> audit_faults \<Rightarrow> (nat \<Rightarrow> int) \<Rightarrow> int \<Rightarrow> int list \<Rightarrow> audit_db \<Rightarrow> nat \<Rightarrow> audit_db \<times> nat \<times> go_err option" where
  "claim_and_apply s claim_err f clock c ids db applied =
     (case claim_err of
        Some e \<Rightarrow> (db, applied, Some e)
      | None \<Rightarrow>
          (let taken = sort_key pr_id (filter (\<lambda>p. pr_id p \<in> set ids) (audit_pending db));
               db1 = db\<lparr>audit_pending := filter (\<lambda>p. pr_id p \<notin> set ids) (audit_pending db)\<rparr>
           in if taken = [] then (db1, applied, None)
              else (case RecordBatchSameChain s f clock c (map pr_entry taken) db1 of
                      (db2, Some e) \<Rightarrow> (db2, applied, Some e)
                    | (db2, None) \<Rightarrow> (db2, length taken, None))))"

record drain_faults =
  d_begin :: "go_err option"
  d_commit :: "go_err option"
  d_claim :: "go_err option"
  d_batch :: audit_faults
  d_clock :: "nat \<Rightarrow> int"

definition applyClaimed ::
  "audit_store \<Rightarrow> drain_faults \<Rightarrow> int \<Rightarrow> int list \<Rightarrow> audit_db \<Rightarrow> audit_db \<times> nat \<times> go_err option" where
  "applyClaimed s d c ids db =
     (if ids = [] then (db, 0, None)
      else RunInTx_mem (d_begin d) (d_commit d) (claim_and_apply s (d_claim d) (d_batch d) (d_clock d) c ids) db 0)"

text \<open>\<open>DrainPending\<close>: the oldest staged ids by chain, and one claim per chain in the order the chains were met.\<close>

definition pending_ids :: "nat \<Rightarrow> audit_db \<Rightarrow> (int \<times> int) list" where
  "pending_ids n db = take n (sort (map (\<lambda>p. (pr_chain p, pr_id p)) (audit_pending db)))"

definition ids_of :: "(int \<times> int) list \<Rightarrow> int \<Rightarrow> int list" where
  "ids_of cands c = map snd (filter (\<lambda>p. fst p = c) cands)"

fun drain_chains ::
  "audit_store \<Rightarrow> (int \<Rightarrow> drain_faults) \<Rightarrow> (int \<times> int) list \<Rightarrow> int list \<Rightarrow> nat \<Rightarrow> audit_db \<Rightarrow> audit_db \<times> nat \<times> go_err option" where
  "drain_chains s d cands [] applied db = (db, applied, None)"
| "drain_chains s d cands (c # cs) applied db =
     (case applyClaimed s (d c) c (ids_of cands c) db of
        (db', n, Some e) \<Rightarrow> (db', applied, Some (ErrWrap (''audit: drain chain '' @ itoa c) e))
      | (db', n, None) \<Rightarrow> drain_chains s d cands cs (applied + n) db')"

definition DrainPending ::
  "audit_store \<Rightarrow> go_err option \<Rightarrow> (int \<Rightarrow> drain_faults) \<Rightarrow> int \<Rightarrow> audit_db \<Rightarrow> audit_db \<times> nat \<times> go_err option" where
  "DrainPending s read_err d batchSize db =
     (case read_err of
        Some e \<Rightarrow> (db, 0, Some (ErrWrap ''audit: read pending'' e))
      | None \<Rightarrow>
          (let cands = pending_ids (nat (if batchSize \<le> 0 then 128 else batchSize)) db
           in drain_chains s d cands (remdups_adj (map fst cands)) 0 db))"

section \<open>What a row records\<close>

type_synonym audit_fact = "string \<times> string \<times> string \<times> int \<times> (string \<times> string) list"

definition entry_fact :: "int \<Rightarrow> audit_entry \<Rightarrow> audit_fact" where
  "entry_fact clock e = (ae_actor e, ae_action e, ae_subject e, entry_time clock e, map_entries (ae_meta e))"

definition row_fact :: "audit_row \<Rightarrow> audit_fact" where
  "row_fact r = (ar_actor r, ar_action r, ar_subject r, ar_created r, map_entries (fst (unmarshal_meta (ar_meta r))))"

definition pending_fact :: "pending_row \<Rightarrow> audit_fact" where
  "pending_fact p = entry_fact 0 (pr_entry p)"

text \<open>The metadata of an entry is a map, and valid UTF-8.\<close>

definition meta_ok :: "metadata \<Rightarrow> bool" where
  "meta_ok m = (case m of None \<Rightarrow> True
     | Some kvs \<Rightarrow> distinct (map fst kvs) \<and> list_all (\<lambda>(k, v). utf8_coerce k = k \<and> utf8_coerce v = v) kvs)"

lemma keep_last_distinct: "distinct (map fst kvs) \<Longrightarrow> keep_last kvs = kvs"
  by (induction kvs rule: keep_last.induct) auto

text \<open>Metadata comes back from the column as the sorted map that went in.\<close>

lemma column_meta:
  assumes "meta_ok m"
  shows "fst (unmarshal_meta (jsonb (marshalMetadata m))) = Some (map_entries m)"
proof (cases m)
  case (Some kvs)
  let ?k = "sort_key fst kvs"
  have ok: "list_all (\<lambda>(k, v). utf8_coerce k = k \<and> utf8_coerce v = v) ?k" "distinct (map fst ?k)"
    using assms Some by (auto simp: meta_ok_def list_all_iff distinct_map)
  have "map (\<lambda>(k, v). (utf8_coerce k, JStr (utf8_coerce v))) ?k = map (\<lambda>x. (fst x, JStr (snd x))) ?k"
    using ok(1) by (auto simp: list_all_iff)
  then have "marshalMetadata m = JObj (map (\<lambda>x. (fst x, JStr (snd x))) ?k)" by (simp add: marshalMetadata_def Some)
  moreover have "keep_last (map (\<lambda>x. (fst x, JStr (snd x))) ?k) = map (\<lambda>x. (fst x, JStr (snd x))) ?k"
    using ok(2) by (intro keep_last_distinct) (simp add: comp_def)
  ultimately show ?thesis by (simp add: comp_def case_prod_beta map_entries_def Some)
qed (simp add: marshalMetadata_def map_entries_def)

lemma map_entries_sorted: "map_entries (Some (map_entries m)) = map_entries m"
  by (simp add: map_entries_def sort_key_id_if_sorted)

lemma meta_roundtrip:
  "meta_ok m \<Longrightarrow> map_entries (fst (unmarshal_meta (jsonb (marshalMetadata m)))) = map_entries m"
  by (simp add: column_meta map_entries_sorted)

lemma meta_ok_entries: "meta_ok m \<Longrightarrow> meta_ok (Some (map_entries m))"
  by (auto simp: meta_ok_def map_entries_def list_all_iff distinct_map split: option.splits)

lemma truncate_us_idem [simp]: "truncate_us (truncate_us t) = truncate_us t"
  by (simp add: truncate_us_def mod_diff_eq)

section \<open>Chains\<close>

text \<open>The reference definition of a sound chain segment: every row names the hash before it and carries its own.\<close>

fun linked :: "audit_store \<Rightarrow> string \<Rightarrow> audit_row list \<Rightarrow> string \<Rightarrow> bool" where
  "linked s p [] q = (p = q)"
| "linked s p (r # rs) q = (ar_prev r = p \<and> ar_hash r = row_hash s r \<and> linked s (ar_hash r) rs q)"

lemma linked_append: "linked s p (xs @ ys) q \<longleftrightarrow> (\<exists>m. linked s p xs m \<and> linked s m ys q)"
  by (induction xs arbitrary: p) auto

lemma linked_det: "linked s p rows q \<Longrightarrow> linked s p rows q' \<Longrightarrow> q = q'"
  by (induction rows arbitrary: p) auto

lemma verify_rows_from:
  "verify_rows s w n (Some p) rows = Inr (m, q) \<longleftrightarrow> (\<exists>h. q = Some h \<and> linked s p rows h \<and> m = n + length rows)"
  by (induction rows arbitrary: n p) auto

lemma verify_rows_start:
  "verify_rows s True n None rows = Inr (m, q) \<longleftrightarrow>
     rows = [] \<and> q = None \<and> m = n \<or>
     rows \<noteq> [] \<and> (\<exists>h. q = Some h \<and> linked s genesisRoot rows h \<and> m = n + length rows)"
  by (cases rows) (auto simp: verify_rows_from)

lemma verify_rows_broken: "verify_rows s w n x rows = Inl res \<Longrightarrow> \<not> OK res"
  by (induction s w n x rows rule: verify_rows.induct) (auto simp: chain_broken_def split: if_splits option.splits)

text \<open>A full walk of a chain answers OK exactly on an empty chain and on one linked from the root to its head.\<close>

lemma verifyOneChain_ok:
  "(\<exists>res. verifyOneChain s (\<lambda>_. None) (\<lambda>_. None) db None c = Inr res \<and> OK res \<and> Verified res = n) \<longleftrightarrow>
     n = length (chain_rows c None db) \<and>
     (chain_rows c None db = [] \<or>
      (\<exists>h. map_of (chain_heads db) c = Some h \<and> linked s genesisRoot (chain_rows c None db) h))"
proof (cases "verify_rows s True 0 None (chain_rows c None db)")
  case (Inl res)
  have none: "verify_rows s True 0 None (chain_rows c None db) \<noteq> Inr (m, q)" for m q using Inl by simp
  have "chain_rows c None db \<noteq> []" using none [of 0 None] verify_rows_start by blast
  moreover have "\<not> linked s genesisRoot (chain_rows c None db) h" for h
    using none [of "length (chain_rows c None db)" "Some h"] verify_rows_start [of s 0 "chain_rows c None db"] calculation by simp
  ultimately show ?thesis using Inl verify_rows_broken [OF Inl] by (auto simp: verifyOneChain_def)
next
  case (Inr x)
  then obtain m q where x: "verify_rows s True 0 None (chain_rows c None db) = Inr (m, q)" by (cases x) auto
  then show ?thesis
    using verify_rows_start [of s 0 "chain_rows c None db" m q] linked_det
    by (auto simp: verifyOneChain_def chain_broken_def split: option.splits)
qed

section \<open>The encoding is injective\<close>

definition short :: "string \<Rightarrow> bool" where
  "short s \<longleftrightarrow> length s < 2 ^ 64"

lemma writeField_inj:
  assumes "writeField a @ x = writeField b @ y" "short a" "short b"
  shows "a = b \<and> x = y"
proof -
  have "be64 (int (length a)) @ a @ x = be64 (int (length b)) @ b @ y" using assms(1) by (simp add: writeField_def)
  then have "be64 (int (length a)) = be64 (int (length b))" "a @ x = b @ y" by simp_all
  moreover have "length a = length b"
    using calculation(1) assms(2,3) by (intro be64_len_inj) (simp_all add: short_def)
  ultimately show ?thesis by simp
qed

definition pairs_short :: "(string \<times> string) list \<Rightarrow> bool" where
  "pairs_short kvs \<longleftrightarrow> length kvs < 2 ^ 64 \<and> list_all (\<lambda>(k, v). short k \<and> short v) kvs"

lemma write_pairs_inj:
  "write_pairs xs = write_pairs ys \<Longrightarrow> length xs = length ys \<Longrightarrow> list_all (\<lambda>(k, v). short k \<and> short v) xs \<Longrightarrow>
   list_all (\<lambda>(k, v). short k \<and> short v) ys \<Longrightarrow> xs = ys"
proof (induction xs arbitrary: ys)
  case (Cons x xs)
  obtain y ys' where ys: "ys = y # ys'" using Cons.prems(2) by (cases ys) auto
  obtain k v k' v' where xy: "x = (k, v)" "y = (k', v')" by (cases x, cases y)
  have eq: "writeField k @ writeField v @ write_pairs xs = writeField k' @ writeField v' @ write_pairs ys'"
    using Cons.prems(1) by (simp add: write_pairs_def ys xy)
  have k: "k = k' \<and> writeField v @ write_pairs xs = writeField v' @ write_pairs ys'"
    using eq by (rule writeField_inj) (use Cons.prems xy ys in auto)
  have v: "v = v' \<and> write_pairs xs = write_pairs ys'"
    by (rule writeField_inj [OF k [THEN conjunct2]]) (use Cons.prems xy ys in auto)
  have "xs = ys'" by (rule Cons.IH) (use v Cons.prems ys in auto)
  then show ?case using k v xy ys by simp
qed simp

text \<open>A row whose fields fit: what Go's length type and Postgres' timestamps guarantee.\<close>

fun fact_fits :: "audit_fact \<Rightarrow> bool" where
  "fact_fits (actor, action, subject, ts, kvs) \<longleftrightarrow>
     short actor \<and> short action \<and> short subject \<and> - (2 ^ 63) \<le> ts \<and> ts < 2 ^ 63 \<and> pairs_short kvs"

fun fact_text :: "audit_fact \<Rightarrow> string" where
  "fact_text (actor, action, subject, ts, kvs) =
     writeField actor @ writeField action @ writeField subject @ be64 ts @ be64 (int (length kvs)) @ write_pairs kvs"

lemma ts_inj:
  assumes "be64 t = be64 u" "- (2 ^ 63) \<le> t" "t < 2 ^ 63" "- (2 ^ 63) \<le> u" "u < 2 ^ 63"
  shows "t = u"
proof -
  have "(t + 2 ^ 63) mod 2 ^ 64 = (u + 2 ^ 63) mod 2 ^ 64" using be64_inj [OF assms(1)] by (metis mod_add_left_eq)
  then show ?thesis using assms by simp
qed

lemma fact_text_inj:
  assumes "fact_text x = fact_text y" "fact_fits x" "fact_fits y"
  shows "x = y"
proof -
  obtain a b c t k where x: "x = (a, b, c, t, k)" by (cases x)
  obtain a' b' c' t' k' where y: "y = (a', b', c', t', k')" by (cases y)
  have f: "short a" "short b" "short c" "short a'" "short b'" "short c'" using assms(2,3) x y by simp_all
  have eq: "writeField a @ writeField b @ writeField c @ be64 t @ be64 (int (length k)) @ write_pairs k =
      writeField a' @ writeField b' @ writeField c' @ be64 t' @ be64 (int (length k')) @ write_pairs k'"
    using assms(1) x y by simp
  note a = writeField_inj [OF eq f(1,4)]
  note b = writeField_inj [OF a [THEN conjunct2] f(2,5)]
  note c = writeField_inj [OF b [THEN conjunct2] f(3,6)]
  have t: "be64 t = be64 t'" "be64 (int (length k)) = be64 (int (length k'))" "write_pairs k = write_pairs k'"
    using c [THEN conjunct2] by simp_all
  have "t = t'" by (rule ts_inj [OF t(1)]) (use assms(2,3) x y in simp_all)
  moreover have "length k = length k'" by (rule be64_len_inj [OF t(2)]) (use assms(2,3) x y in \<open>simp_all add: pairs_short_def\<close>)
  then have "k = k'" using write_pairs_inj [OF t(3)] assms(2,3) x y by (simp add: pairs_short_def)
  ultimately show ?thesis using a b c x y by simp
qed

section \<open>Tamper evidence\<close>

definition row_message :: "audit_row \<Rightarrow> string" where
  "row_message r = ar_prev r @ fact_text (row_fact r)"

lemma row_hash_message: "row_hash s r = chain_mac (chainKey s) (row_message r)"
  by (simp add: row_hash_def computeEntryHash_def canonical_def row_message_def row_fact_def Let_def)

lemma length_chain_mac [simp]: "length (chain_mac k m) = 32"
  by (simp add: chain_mac_def)

text \<open>A hash collision between the messages of two tables, or a message that hashes to the root.\<close>

definition hash_broken :: "audit_store \<Rightarrow> audit_row list \<Rightarrow> audit_row list \<Rightarrow> bool" where
  "hash_broken s rows rows' \<longleftrightarrow>
     (\<exists>m \<in> row_message ` set rows. \<exists>m' \<in> row_message ` set rows'. m \<noteq> m' \<and> chain_mac (chainKey s) m = chain_mac (chainKey s) m') \<or>
     genesisRoot \<in> chain_mac (chainKey s) ` row_message ` (set rows \<union> set rows')"

lemma linked_prev_length: "linked s p rows q \<Longrightarrow> length p = 32 \<Longrightarrow> r \<in> set rows \<Longrightarrow> length (ar_prev r) = 32"
  by (induction rows arbitrary: p) (auto simp: row_hash_message)

lemma hash_broken_butlast:
  "hash_broken s rows rows' \<Longrightarrow> hash_broken s (rows @ [r]) (rows' @ [r'])"
  unfolding hash_broken_def by auto

lemma linked_unique:
  assumes "linked s genesisRoot rows h" "linked s genesisRoot rows' h"
    and "\<forall>r \<in> set rows. fact_fits (row_fact r)" "\<forall>r \<in> set rows'. fact_fits (row_fact r)"
  shows "map row_fact rows = map row_fact rows' \<or> hash_broken s rows rows'"
  using assms
proof (induction rows arbitrary: rows' h rule: rev_induct)
  case Nil
  show ?case
  proof (cases rows' rule: rev_cases)
    case (snoc ys r)
    then have "genesisRoot = row_hash s r" using Nil.prems(1,2) by (auto simp: linked_append)
    then show ?thesis using snoc by (auto simp: hash_broken_def row_hash_message)
  qed simp
next
  case (snoc r rows)
  note hyp = snoc
  obtain m where m: "linked s genesisRoot rows m" "ar_prev r = m" "h = row_hash s r"
    using snoc.prems(1) by (auto simp: linked_append)
  show ?case
  proof (cases rows' rule: rev_cases)
    case Nil
    then have "genesisRoot = row_hash s r" using hyp(3) m by simp
    then show ?thesis by (auto simp: hash_broken_def row_hash_message)
  next
    case (snoc ys r')
    obtain m' where m': "linked s genesisRoot ys m'" "ar_prev r' = m'" "h = row_hash s r'"
      using hyp(3) snoc by (auto simp: linked_append)
    have same: "chain_mac (chainKey s) (row_message r) = chain_mac (chainKey s) (row_message r')"
      using m(3) m'(3) by (simp add: row_hash_message)
    show ?thesis
    proof (cases "row_message r = row_message r'")
      case False
      then show ?thesis using same snoc by (auto simp: hash_broken_def)
    next
      case True
      have len: "length (ar_prev r) = 32" "length (ar_prev r') = 32"
        using linked_prev_length [OF hyp(2)] linked_prev_length [OF hyp(3)] snoc by (simp_all add: genesisRoot_def)
      have "ar_prev r = ar_prev r'" "fact_text (row_fact r) = fact_text (row_fact r')"
        using True len by (simp_all add: row_message_def)
      moreover have "row_fact r = row_fact r'"
        by (rule fact_text_inj) (use calculation hyp(4,5) snoc in simp_all)
      moreover have "map row_fact rows = map row_fact ys \<or> hash_broken s rows ys"
        by (rule hyp(1) [of m]) (use m m' calculation hyp(4,5) snoc in simp_all)
      ultimately show ?thesis using snoc hash_broken_butlast by auto
    qed
  qed
qed

section \<open>Every write extends a chain\<close>

definition chains_ok :: "audit_store \<Rightarrow> audit_db \<Rightarrow> bool" where
  "chains_ok s db \<longleftrightarrow>
     distinct (map fst (chain_heads db)) \<and> 1 \<in> set (map fst (chain_heads db)) \<and>
     sorted_wrt (<) (map ar_id (audit_log db)) \<and>
     (\<forall>r \<in> set (audit_log db). ar_id r < next_log db \<and> ar_chain r \<in> set (map fst (chain_heads db))) \<and>
     (\<forall>(c, h) \<in> set (chain_heads db). linked s genesisRoot (filter (\<lambda>r. ar_chain r = c) (audit_log db)) h)"

text \<open>\<open>db'\<close> is \<open>db\<close> with the segment \<open>seg\<close> of chain \<open>c\<close> appended, from the hash \<open>p\<close> to the hash \<open>q\<close>.\<close>

definition extends_log :: "audit_store \<Rightarrow> int \<Rightarrow> string \<Rightarrow> audit_row list \<Rightarrow> string \<Rightarrow> audit_db \<Rightarrow> audit_db \<Rightarrow> bool" where
  "extends_log s c p seg q db db' \<longleftrightarrow>
     audit_log db' = audit_log db @ seg \<and> linked s p seg q \<and> sorted_wrt (<) (map ar_id seg) \<and> next_log db \<le> next_log db' \<and>
     (\<forall>r \<in> set seg. ar_chain r = c \<and> next_log db \<le> ar_id r \<and> ar_id r < next_log db') \<and>
     chain_heads db' = chain_heads db \<and> audit_pending db' = audit_pending db \<and> next_pending db' = next_pending db"

lemma insert_log_extends:
  assumes "insert_log s c p clock e db = (q, db')" "meta_ok (ae_meta e)"
  shows "\<exists>r. extends_log s c p [r] q db db' \<and> row_fact r = entry_fact clock e"
proof -
  have "canonical a b c t (fst (unmarshal_meta (jsonb (marshalMetadata (ae_meta e))))) = canonical a b c t (ae_meta e)" for a b c t
    using meta_roundtrip [OF assms(2)] by (simp add: canonical_def)
  then show ?thesis
    using assms meta_roundtrip [OF assms(2)]
    by (auto simp: insert_log_def Let_def extends_log_def row_hash_def computeEntryHash_def row_fact_def entry_fact_def)
qed

lemma extends_log_trans:
  "extends_log s c p xs m db db1 \<Longrightarrow> extends_log s c m ys q db1 db2 \<Longrightarrow> extends_log s c p (xs @ ys) q db db2"
  by (fastforce simp: extends_log_def linked_append sorted_wrt_append)

lemma batch_loop_extends:
  assumes "batch_loop s f clock c i p es db = (db', Inr q)" "list_all (\<lambda>e. meta_ok (ae_meta e)) es"
  shows "\<exists>seg. extends_log s c p seg q db db' \<and> map row_fact seg = map2 (\<lambda>j e. entry_fact (clock j) e) [i..<i + length es] es"
  using assms
proof (induction es arbitrary: i p db)
  case Nil
  then show ?case by (intro exI [of _ "[]"]) (simp add: extends_log_def)
next
  case (Cons e es)
  obtain h db1 where ins: "insert_log s c p (clock i) e db = (h, db1)" by fastforce
  obtain r where r: "extends_log s c p [r] h db db1" "row_fact r = entry_fact (clock i) e"
    using insert_log_extends [OF ins] Cons.prems(2) by auto
  have "batch_loop s f clock c (i + 1) h es db1 = (db', Inr q)"
    using Cons.prems(1) ins by (auto split: option.splits)
  then obtain seg where seg: "extends_log s c h seg q db1 db'"
    "map row_fact seg = map2 (\<lambda>j e. entry_fact (clock j) e) [i + 1..<i + 1 + length es] es"
    using Cons.IH Cons.prems(2) by fastforce
  have "[i..<i + length (e # es)] = i # [i + 1..<i + 1 + length es]" by (simp add: upt_conv_Cons del: upt_Suc)
  then show ?case using extends_log_trans [OF r(1) seg(1)] r(2) seg(2)
    by (intro exI [of _ "r # seg"]) simp
qed

lemma map_of_set_head:
  "map_of (map (\<lambda>(k, v). (k, if k = c then h else v)) hs) k =
     (if k = c then map_option (\<lambda>_. h) (map_of hs k) else map_of hs k)"
  by (induction hs) auto

lemma chains_ok_extend:
  assumes ok: "chains_ok s db" and ext: "extends_log s c p seg q db db'" and p: "map_of (chain_heads db) c = Some p"
  shows "chains_ok s (set_head c q db')"
proof -
  have dist: "distinct (map fst (chain_heads db))" "1 \<in> set (map fst (chain_heads db))"
    and log: "sorted_wrt (<) (map ar_id (audit_log db))" "\<forall>r \<in> set (audit_log db). ar_id r < next_log db \<and> ar_chain r \<in> set (map fst (chain_heads db))"
    and linked_all: "\<forall>(k, h) \<in> set (chain_heads db). linked s genesisRoot (filter (\<lambda>r. ar_chain r = k) (audit_log db)) h"
    using ok by (simp_all add: chains_ok_def)
  have seg: "audit_log db' = audit_log db @ seg" "linked s p seg q" "sorted_wrt (<) (map ar_id seg)" "next_log db \<le> next_log db'"
    "\<forall>r \<in> set seg. ar_chain r = c \<and> next_log db \<le> ar_id r \<and> ar_id r < next_log db'" "chain_heads db' = chain_heads db"
    using ext by (simp_all add: extends_log_def)
  have c: "(c, p) \<in> set (chain_heads db)" using p by (rule map_of_SomeD)
  have keys: "map fst (chain_heads (set_head c q db')) = map fst (chain_heads db)"
    using seg(6) by (simp add: set_head_def comp_def case_prod_beta)
  have "linked s genesisRoot (filter (\<lambda>r. ar_chain r = k) (audit_log db @ seg)) (if k = c then q else h)"
    if kh: "(k, h) \<in> set (chain_heads db)" for k h
  proof (cases "k = c")
    case True
    then have "h = p" using kh c dist(1) by (metis map_of_is_SomeI option.inject)
    moreover have "filter (\<lambda>r. ar_chain r = c) seg = seg" using seg(5) by (auto intro: filter_True)
    ultimately show ?thesis using True linked_all kh seg(2) by (auto simp: linked_append)
  next
    case False
    then have "filter (\<lambda>r. ar_chain r = k) seg = []" using seg(5) by (auto simp: filter_empty_conv)
    then show ?thesis using False linked_all kh by auto
  qed
  then have "\<forall>(k, h) \<in> set (chain_heads (set_head c q db')). linked s genesisRoot (filter (\<lambda>r. ar_chain r = k) (audit_log db @ seg)) h"
    using seg(6) by (auto simp: set_head_def)
  moreover have "sorted_wrt (<) (map ar_id (audit_log db @ seg))"
    using log seg(3,5) by (fastforce simp: sorted_wrt_append)
  moreover have "\<forall>r \<in> set (audit_log db @ seg). ar_id r < next_log db' \<and> ar_chain r \<in> set (map fst (chain_heads db))"
  proof -
    have "c \<in> set (map fst (chain_heads db))" using c by force
    then show ?thesis using log(2) seg(4,5) by (auto intro: less_le_trans)
  qed
  ultimately show ?thesis using dist keys seg(1)
    unfolding chains_ok_def keys by (simp add: set_head_def)
qed

lemma ensure_head_spec:
  assumes "ensure_head s f c db = (db1, None)" "chains_ok s db"
  shows "chains_ok s db1 \<and> audit_log db1 = audit_log db \<and> audit_pending db1 = audit_pending db \<and> next_pending db1 = next_pending db"
proof (cases "db1 = db")
  case False
  then have new: "db1 = db\<lparr>chain_heads := chain_heads db @ [(c, genesisRoot)]\<rparr>" "c \<notin> set (map fst (chain_heads db))"
    using assms(1) by (auto simp: ensure_head_def split: if_splits option.splits)
  have "filter (\<lambda>r. ar_chain r = c) (audit_log db) = []"
    using assms(2) new(2) by (auto simp: chains_ok_def filter_empty_conv)
  then show ?thesis using assms(2) new by (auto simp: chains_ok_def)
qed (use assms in simp)

text \<open>Both writers, when they succeed, append the facts of their entries and keep the chains sound.\<close>

definition appended :: "audit_store \<Rightarrow> int \<Rightarrow> audit_fact list \<Rightarrow> audit_db \<Rightarrow> audit_db \<Rightarrow> bool" where
  "appended s c facts db db' \<longleftrightarrow>
     chains_ok s db' \<and>
     (\<exists>seg. audit_log db' = audit_log db @ seg \<and> map row_fact seg = facts \<and> (\<forall>r \<in> set seg. ar_chain r = c)) \<and>
     audit_pending db' = audit_pending db \<and> next_pending db' = next_pending db"

lemma appendedI:
  assumes "chains_ok s db" "ensure_head s f c db = (db1, None)" "lock_head f c db1 = Inr p"
    and "extends_log s c p seg q db1 db2" "map row_fact seg = facts"
  shows "appended s c facts db (set_head c q db2)"
proof -
  have ens: "chains_ok s db1 \<and> audit_log db1 = audit_log db \<and> audit_pending db1 = audit_pending db \<and> next_pending db1 = next_pending db"
    using ensure_head_spec assms(1,2) by blast
  have "map_of (chain_heads db1) c = Some p"
    using assms(3) by (auto simp: lock_head_def split: option.splits)
  then have "chains_ok s (set_head c q db2)" using chains_ok_extend ens assms(4) by blast
  then show ?thesis using ens assms(4,5) by (simp add: appended_def extends_log_def set_head_def)
qed

lemma Record_appends:
  assumes "Record s f clock e db = (db', None)" "chains_ok s db" "meta_ok (ae_meta e)"
  shows "appended s (chainIDFor s (ae_actor e)) [entry_fact clock e] db db'"
proof -
  let ?c = "chainIDFor s (ae_actor e)"
  obtain db1 p q db2 where w: "ensure_head s f ?c db = (db1, None)" "lock_head f ?c db1 = Inr p"
    "insert_log s ?c p clock e db1 = (q, db2)" "db' = set_head ?c q db2"
    using assms(1) by (auto simp: Record_def Let_def split: prod.splits option.splits sum.splits)
  obtain r where "extends_log s ?c p [r] q db1 db2" "row_fact r = entry_fact clock e"
    using insert_log_extends [OF w(3) assms(3)] by blast
  then show ?thesis using appendedI [OF assms(2) w(1,2)] w(4) by simp
qed

lemma RecordBatch_appends:
  assumes "RecordBatchSameChain s f clock c es db = (db', None)" "chains_ok s db" "list_all (\<lambda>e. meta_ok (ae_meta e)) es"
  shows "appended s c (map2 (\<lambda>j e. entry_fact (clock j) e) [0..<length es] es) db db'"
proof (cases "es = []")
  case False
  obtain db1 p q db2 where w: "ensure_head s f c db = (db1, None)" "lock_head f c db1 = Inr p"
    "batch_loop s f clock c 0 p es db1 = (db2, Inr q)" "db' = set_head c q db2"
    using assms(1) False by (auto simp: RecordBatchSameChain_def split: prod.splits option.splits sum.splits)
  obtain seg where "extends_log s c p seg q db1 db2"
    "map row_fact seg = map2 (\<lambda>j e. entry_fact (clock j) e) [0..<0 + length es] es"
    using batch_loop_extends [OF w(3) assms(3)] by blast
  then show ?thesis using appendedI [OF assms(2) w(1,2)] w(4) by simp
qed (use assms in \<open>auto simp: RecordBatchSameChain_def appended_def\<close>)

lemma entry_fact_at: "ae_at e \<noteq> None \<Longrightarrow> entry_fact x e = entry_fact y e"
  by (auto simp: entry_fact_def entry_time_def)

lemma batch_facts_at:
  assumes "list_all (\<lambda>e. ae_at e \<noteq> None) es"
  shows "map2 (\<lambda>j e. entry_fact (clock j) e) [0..<length es] es = map (entry_fact 0) es"
proof (rule nth_equalityI)
  fix i assume "i < length (map2 (\<lambda>j e. entry_fact (clock j) e) [0..<length es] es)"
  then show "map2 (\<lambda>j e. entry_fact (clock j) e) [0..<length es] es ! i = map (entry_fact 0) es ! i"
    using assms entry_fact_at by (simp add: list_all_length)
qed simp

definition staged_ok :: "audit_store \<Rightarrow> pending_row \<Rightarrow> bool" where
  "staged_ok s p \<longleftrightarrow> pr_chain p = chainIDFor s (ae_actor (pr_entry p)) \<and> meta_ok (ae_meta (pr_entry p)) \<and> ae_at (pr_entry p) \<noteq> None"

text \<open>A claim either changes nothing or moves the rows it took from the staging table to the end of the chain.\<close>

lemma applyClaimed_moves:
  assumes ok: "chains_ok s db" "\<forall>p \<in> set (audit_pending db). staged_ok s p"
    and res: "applyClaimed s d c ids db = (db', n, err)"
  shows "db' = db \<or>
     (\<exists>taken. mset taken = mset (filter (\<lambda>p. pr_id p \<in> set ids) (audit_pending db)) \<and>
        appended s c (map pending_fact taken) (db\<lparr>audit_pending := filter (\<lambda>p. pr_id p \<notin> set ids) (audit_pending db)\<rparr>) db')"
proof -
  let ?taken = "sort_key pr_id (filter (\<lambda>p. pr_id p \<in> set ids) (audit_pending db))"
  let ?db1 = "db\<lparr>audit_pending := filter (\<lambda>p. pr_id p \<notin> set ids) (audit_pending db)\<rparr>"
  have entries: "list_all (\<lambda>e. meta_ok (ae_meta e)) (map pr_entry ?taken)" "list_all (\<lambda>e. ae_at e \<noteq> None) (map pr_entry ?taken)"
    using ok(2) by (auto simp: list_all_iff staged_ok_def)
  have db1: "chains_ok s ?db1" using ok(1) by (simp add: chains_ok_def)
  consider "db' = db" | "claim_and_apply s (d_claim d) (d_batch d) (d_clock d) c ids db 0 = (db', n, None)"
    using res by (auto simp: applyClaimed_def RunInTx_mem_def split: if_splits option.splits prod.splits)
  then show ?thesis
  proof cases
    case 2
    then consider "?taken = []" "db' = ?db1"
      | "RecordBatchSameChain s (d_batch d) (d_clock d) c (map pr_entry ?taken) ?db1 = (db', None)"
      by (auto simp: claim_and_apply_def Let_def split: option.splits if_splits prod.splits)
    then show ?thesis
    proof cases
      case 1
      then have "filter (\<lambda>p. pr_id p \<notin> set ids) (audit_pending db) = audit_pending db"
        by (metis (no_types, lifting) filter_True filter_empty_conv length_0_conv length_sort)
      then show ?thesis using 1 by simp
    next
      case 2
      have "map2 (\<lambda>j e. entry_fact (d_clock d j) e) [0..<length (map pr_entry ?taken)] (map pr_entry ?taken) = map pending_fact ?taken"
        using batch_facts_at [OF entries(2)] by (simp add: pending_fact_def comp_def)
      then have "appended s c (map pending_fact ?taken) ?db1 db'"
        using RecordBatch_appends [OF 2 db1 entries(1)] by simp
      then show ?thesis by (intro disjI2 exI [of _ ?taken]) simp
    qed
  qed simp
qed

section \<open>Reachable states\<close>

text \<open>The services write entries in transactions, stage others, and any number of drainers claim staged rows, with
  every database failure: a drainer's candidate ids may be stale, but an id it read for a chain is of that chain.
  The second component collects the facts that were committed.\<close>

inductive audit_reach :: "audit_store \<Rightarrow> audit_db \<Rightarrow> audit_fact list \<Rightarrow> bool" for s where
  start: "audit_reach s audit_empty []"
| direct: "audit_reach s db facts \<Longrightarrow> meta_ok (ae_meta e) \<Longrightarrow> RunInTx b k (Record s f clock e) db = (db', err) \<Longrightarrow>
    audit_reach s db' (if err = None then entry_fact clock e # facts else facts)"
| batch: "audit_reach s db facts \<Longrightarrow> list_all (\<lambda>e. meta_ok (ae_meta e) \<and> chainIDFor s (ae_actor e) = c) es \<Longrightarrow>
    RunInTx b k (RecordBatchSameChain s f clocks c es) db = (db', err) \<Longrightarrow>
    audit_reach s db' (if err = None then map2 (\<lambda>j e. entry_fact (clocks j) e) [0..<length es] es @ facts else facts)"
| stage: "audit_reach s db facts \<Longrightarrow> meta_ok (ae_meta e) \<Longrightarrow> RunInTx b k (InsertPending s i clock e) db = (db', err) \<Longrightarrow>
    audit_reach s db' (if err = None then entry_fact clock e # facts else facts)"
| drain: "audit_reach s db facts \<Longrightarrow> \<forall>p \<in> set (audit_pending db). pr_id p \<in> set ids \<longrightarrow> pr_chain p = c \<Longrightarrow>
    applyClaimed s d c ids db = (db', n, err') \<Longrightarrow> audit_reach s db' facts"

definition audit_inv :: "audit_store \<Rightarrow> audit_db \<Rightarrow> audit_fact list \<Rightarrow> bool" where
  "audit_inv s db facts \<longleftrightarrow>
     chains_ok s db \<and> (\<forall>r \<in> set (audit_log db). ar_chain r = chainIDFor s (ar_actor r)) \<and>
     (\<forall>p \<in> set (audit_pending db). staged_ok s p \<and> pr_id p < next_pending db) \<and> distinct (map pr_id (audit_pending db)) \<and>
     mset (map row_fact (audit_log db)) + mset (map pending_fact (audit_pending db)) = mset facts"

lemma audit_inv_append:
  assumes "audit_inv s db facts" "appended s c new db db'" "\<forall>x \<in> set new. chainIDFor s (fst x) = c"
  shows "audit_inv s db' (new @ facts)"
proof -
  obtain seg where seg: "audit_log db' = audit_log db @ seg" "map row_fact seg = new" "\<forall>r \<in> set seg. ar_chain r = c"
    using assms(2) by (auto simp: appended_def)
  have "ar_chain r = chainIDFor s (ar_actor r)" if "r \<in> set seg" for r
    using assms(3) seg(2,3) that by (force simp: row_fact_def)
  then show ?thesis using assms(1,2) seg by (auto simp: audit_inv_def appended_def add.assoc add.left_commute)
qed

lemma audit_inv_stage:
  assumes inv: "audit_inv s db facts" and ok: "meta_ok (ae_meta e)" and st: "InsertPending s i clock e db = (db', None)"
  shows "audit_inv s db' (entry_fact clock e # facts)"
proof -
  let ?e = "e\<lparr>ae_at := Some (entry_time clock e), ae_meta := Some (map_entries (ae_meta e))\<rparr>"
  let ?p = "\<lparr>pr_id = next_pending db, pr_chain = chainIDFor s (ae_actor e), pr_entry = ?e\<rparr>"
  have db': "db' = db\<lparr>audit_pending := audit_pending db @ [?p], next_pending := next_pending db + 1\<rparr>"
    using st ok by (auto simp: InsertPending_def column_meta split: option.splits)
  have "pending_fact ?p = entry_fact clock e"
    by (simp add: pending_fact_def entry_fact_def map_entries_sorted) (simp add: entry_time_def)
  moreover have "staged_ok s ?p" using meta_ok_entries [OF ok] by (simp add: staged_ok_def)
  moreover have "next_pending db \<notin> pr_id ` set (audit_pending db)" using inv by (auto simp: audit_inv_def)
  ultimately show ?thesis using inv by (auto simp: audit_inv_def db' chains_ok_def)
qed

lemma audit_inv_drain:
  assumes inv: "audit_inv s db facts" and ids: "\<forall>p \<in> set (audit_pending db). pr_id p \<in> set ids \<longrightarrow> pr_chain p = c"
    and res: "applyClaimed s d c ids db = (db', n, err)"
  shows "audit_inv s db' facts"
proof -
  let ?keep = "filter (\<lambda>p. pr_id p \<notin> set ids) (audit_pending db)"
  let ?taken = "filter (\<lambda>p. pr_id p \<in> set ids) (audit_pending db)"
  let ?kept = "filter_mset (\<lambda>p. pr_id p \<notin> set ids) (mset (audit_pending db))"
  consider "db' = db" | taken where "mset taken = mset ?taken" "appended s c (map pending_fact taken) (db\<lparr>audit_pending := ?keep\<rparr>) db'"
    using applyClaimed_moves [OF _ _ res] inv by (auto simp: audit_inv_def)
  then show ?thesis
  proof cases
    case 2
    have set_taken: "set taken = set ?taken" using 2(1) by (metis set_mset_mset)
    have "mset (map pending_fact taken) = image_mset pending_fact (filter_mset (\<lambda>p. pr_id p \<in> set ids) (mset (audit_pending db)))"
      using 2(1) by (simp add: mset_map)
    then have split: "mset (map pending_fact taken) + mset (map pending_fact ?keep) = mset (map pending_fact (audit_pending db))"
      by (simp flip: image_mset_union multiset_partition)
    obtain rest where rest: "mset rest = mset (map row_fact (audit_log db)) + mset (map pending_fact ?keep)" using ex_mset by blast
    have "audit_inv s (db\<lparr>audit_pending := ?keep\<rparr>) rest"
      using inv rest by (auto simp: audit_inv_def chains_ok_def distinct_map_filter)
    moreover have "\<forall>x \<in> set (map pending_fact taken). chainIDFor s (fst x) = c"
      using ids inv set_taken by (auto simp: pending_fact_def entry_fact_def audit_inv_def staged_ok_def)
    ultimately have "audit_inv s db' (map pending_fact taken @ rest)" using 2(2) audit_inv_append by blast
    moreover have "mset (map pending_fact taken @ rest) = mset facts"
    proof -
      have "mset (map pending_fact taken @ rest) =
          mset (map row_fact (audit_log db)) + (mset (map pending_fact taken) + mset (map pending_fact ?keep))"
        using rest by (simp add: ac_simps)
      also have "\<dots> = mset facts" unfolding split using inv by (simp add: audit_inv_def)
      finally show ?thesis .
    qed
    ultimately show ?thesis by (simp add: audit_inv_def)
  qed (use inv in simp)
qed

lemma audit_reach_inv: "audit_reach s db facts \<Longrightarrow> audit_inv s db facts"
proof (induction rule: audit_reach.induct)
  case start
  then show ?case by (simp add: audit_inv_def audit_empty_def chains_ok_def)
next
  case (direct db facts e b k f clock db' err)
  show ?case
  proof (cases err)
    case None
    then have "appended s (chainIDFor s (ae_actor e)) [entry_fact clock e] db db'"
      using direct by (intro Record_appends) (auto simp: RunInTx_None audit_inv_def)
    then show ?thesis using audit_inv_append [OF direct.IH] None by (fastforce simp: entry_fact_def)
  qed (use direct RunInTx_Some in fastforce)
next
  case (batch db facts c es b k f clocks db' err)
  show ?case
  proof (cases err)
    case None
    then have "appended s c (map2 (\<lambda>j e. entry_fact (clocks j) e) [0..<length es] es) db db'"
      using batch by (intro RecordBatch_appends) (auto simp: RunInTx_None audit_inv_def list_all_iff)
    moreover have "\<forall>x \<in> set (map2 (\<lambda>j e. entry_fact (clocks j) e) [0..<length es] es). chainIDFor s (fst x) = c"
      using batch(2) by (auto simp: entry_fact_def list_all_iff dest: set_zip_rightD)
    ultimately show ?thesis using audit_inv_append [OF batch.IH] None by simp
  qed (use batch RunInTx_Some in fastforce)
next
  case (stage db facts e b k i clock db' err)
  then show ?case using audit_inv_stage RunInTx_Some by (cases err) (fastforce simp: RunInTx_None)+
next
  case (drain db facts ids c d db' n err')
  then show ?case using audit_inv_drain by blast
qed

section \<open>Draining\<close>

text \<open>\<open>servicekit/audit_drain.go\<close>: each tick drains until a round fails or applies nothing. The arguments give the
  failures of every round.\<close>

partial_function (option) drain_all ::
  "audit_store \<Rightarrow> (nat \<Rightarrow> go_err option) \<Rightarrow> (nat \<Rightarrow> int \<Rightarrow> drain_faults) \<Rightarrow> int \<Rightarrow> nat \<Rightarrow> audit_db \<Rightarrow> audit_db option" where
  "drain_all s read_err d batchSize k db =
     (case DrainPending s (read_err k) (d k) batchSize db of
        (db', applied, Some derr) \<Rightarrow> Some db'
      | (db', applied, None) \<Rightarrow> if applied = 0 then Some db' else drain_all s read_err d batchSize (k + 1) db')"

definition no_audit_faults :: audit_faults where
  "no_audit_faults = \<lparr>f_ensure = None, f_lock = None, f_insert = (\<lambda>_. None), f_advance = None\<rparr>"

definition calm_drain :: "(nat \<Rightarrow> int) \<Rightarrow> drain_faults" where
  "calm_drain clock = \<lparr>d_begin = None, d_commit = None, d_claim = None, d_batch = no_audit_faults, d_clock = clock\<rparr>"

lemma batch_loop_calm: "\<exists>q. snd (batch_loop s no_audit_faults clock c i p es db) = Inr q"
  by (induction es arbitrary: i p db) (auto simp: no_audit_faults_def split: prod.splits)

lemma RecordBatch_calm:
  assumes "chains_ok s db" "c \<in> set (map fst (chain_heads db)) \<or> 1 < chainShards s"
  shows "snd (RecordBatchSameChain s no_audit_faults clock c es db) = None"
proof -
  obtain db1 where db1: "ensure_head s no_audit_faults c db = (db1, None)" "c \<in> set (map fst (chain_heads db1))"
    using assms(2) by (cases "ensure_head s no_audit_faults c db") (auto simp: ensure_head_def no_audit_faults_def split: if_splits)
  then obtain p where "lock_head no_audit_faults c db1 = Inr p"
    by (cases "map_of (chain_heads db1) c") (auto simp: lock_head_def no_audit_faults_def map_of_eq_None_iff)
  moreover obtain db2 q where "batch_loop s no_audit_faults clock c 0 p es db1 = (db2, Inr q)"
    using batch_loop_calm by (metis prod.collapse)
  ultimately show ?thesis using db1(1) by (simp add: RecordBatchSameChain_def) (simp add: no_audit_faults_def)
qed

lemma applyClaimed_calm:
  assumes inv: "audit_inv s db facts" and ids: "\<forall>p \<in> set (audit_pending db). pr_id p \<in> set ids \<longrightarrow> pr_chain p = c"
  obtains db' n where "applyClaimed s (calm_drain clock) c ids db = (db', n, None)" "audit_inv s db' facts"
    "audit_pending db' = filter (\<lambda>p. pr_id p \<notin> set ids) (audit_pending db)"
    "n = length (filter (\<lambda>p. pr_id p \<in> set ids) (audit_pending db))"
proof -
  let ?taken = "sort_key pr_id (filter (\<lambda>p. pr_id p \<in> set ids) (audit_pending db))"
  let ?db1 = "db\<lparr>audit_pending := filter (\<lambda>p. pr_id p \<notin> set ids) (audit_pending db)\<rparr>"
  have "chains_ok s db" using inv by (simp add: audit_inv_def)
  then have db1: "chains_ok s ?db1" by (simp add: chains_ok_def)
  have entries: "list_all (\<lambda>e. meta_ok (ae_meta e)) (map pr_entry ?taken)"
    using inv by (auto simp: list_all_iff staged_ok_def audit_inv_def)
  show thesis
  proof (cases "?taken = []")
    case True
    then have none: "filter (\<lambda>p. pr_id p \<in> set ids) (audit_pending db) = []" by (metis length_0_conv length_sort)
    then have keep: "filter (\<lambda>p. pr_id p \<notin> set ids) (audit_pending db) = audit_pending db" by (auto simp: filter_empty_conv intro: filter_True)
    then have "applyClaimed s (calm_drain clock) c ids db = (db, 0, None)"
      using True by (simp add: applyClaimed_def RunInTx_mem_def calm_drain_def claim_and_apply_def none)
    then show thesis using inv keep none by (intro that) simp_all
  next
    case False
    then obtain p where p: "p \<in> set (audit_pending db)" "pr_id p \<in> set ids"
      by (metis (no_types, lifting) filter_empty_conv length_0_conv length_sort)
    then have "c = chainIDFor s (ae_actor (pr_entry p))" using ids inv by (auto simp: audit_inv_def staged_ok_def)
    then have "c \<in> set (map fst (chain_heads ?db1)) \<or> 1 < chainShards s"
      using db1 by (auto simp: chainIDFor_def chains_ok_def split: if_splits)
    then obtain db' where rec: "RecordBatchSameChain s no_audit_faults clock c (map pr_entry ?taken) ?db1 = (db', None)"
      using RecordBatch_calm [OF db1] by (metis prod.collapse)
    have "ids \<noteq> []" using p by auto
    then have res: "applyClaimed s (calm_drain clock) c ids db = (db', length ?taken, None)"
      using rec False by (simp add: applyClaimed_def RunInTx_mem_def calm_drain_def claim_and_apply_def Let_def)
    have "audit_pending db' = audit_pending ?db1" using RecordBatch_appends [OF rec db1 entries] by (simp add: appended_def)
    then show thesis using that [OF res] audit_inv_drain [OF inv ids res] by simp
  qed
qed

lemma drain_chains_calm:
  assumes "audit_inv s db facts" "\<forall>p \<in> set (audit_pending db). \<forall>c. pr_id p \<in> set (ids_of cands c) \<longrightarrow> pr_chain p = c"
  shows "\<exists>db' n. drain_chains s (\<lambda>c. calm_drain (clock c)) cands cs a db = (db', n, None) \<and> audit_inv s db' facts \<and>
     audit_pending db' = filter (\<lambda>p. \<forall>c \<in> set cs. pr_id p \<notin> set (ids_of cands c)) (audit_pending db) \<and>
     n = a + (length (audit_pending db) - length (audit_pending db')) \<and> length (audit_pending db') \<le> length (audit_pending db)"
  using assms
proof (induction cs arbitrary: a db)
  case (Cons c cs)
  obtain db1 n where step: "applyClaimed s (calm_drain (clock c)) c (ids_of cands c) db = (db1, n, None)" "audit_inv s db1 facts"
    "audit_pending db1 = filter (\<lambda>p. pr_id p \<notin> set (ids_of cands c)) (audit_pending db)"
    "n = length (filter (\<lambda>p. pr_id p \<in> set (ids_of cands c)) (audit_pending db))"
    using applyClaimed_calm [OF Cons.prems(1), of "ids_of cands c" c] Cons.prems(2) by blast
  obtain db' m where rest: "drain_chains s (\<lambda>c. calm_drain (clock c)) cands cs (a + n) db1 = (db', m, None)" "audit_inv s db' facts"
    "audit_pending db' = filter (\<lambda>p. \<forall>c \<in> set cs. pr_id p \<notin> set (ids_of cands c)) (audit_pending db1)"
    "m = a + n + (length (audit_pending db1) - length (audit_pending db'))" "length (audit_pending db') \<le> length (audit_pending db1)"
    using Cons.IH [OF step(2), of "a + n"] Cons.prems(2) step(3) by auto
  have "n + length (audit_pending db1) = length (audit_pending db)"
    unfolding step(3,4) by (rule sum_length_filter_compl)
  then have len: "a + n + (length (audit_pending db1) - length (audit_pending db')) = a + (length (audit_pending db) - length (audit_pending db'))"
    "length (audit_pending db') \<le> length (audit_pending db)" using rest(5) by simp_all
  have "drain_chains s (\<lambda>c. calm_drain (clock c)) cands (c # cs) a db = (db', m, None)" using step(1) rest(1) by simp
  moreover have "audit_pending db' = filter (\<lambda>p. \<forall>c \<in> set (c # cs). pr_id p \<notin> set (ids_of cands c)) (audit_pending db)"
    unfolding rest(3) step(3) filter_filter by (rule filter_cong) auto
  ultimately show ?case using rest(2,4) len by metis
qed simp

lemma DrainPending_calm:
  assumes inv: "audit_inv s db facts"
  shows "\<exists>db' n. DrainPending s None (\<lambda>c. calm_drain (clock c)) batchSize db = (db', n, None) \<and> audit_inv s db' facts \<and>
     (n = 0 \<longleftrightarrow> audit_pending db = []) \<and> length (audit_pending db') + n = length (audit_pending db)"
proof -
  let ?k = "nat (if batchSize \<le> 0 then 128 else batchSize)"
  let ?all = "map (\<lambda>p. (pr_chain p, pr_id p)) (audit_pending db)"
  define cands where "cands = pending_ids ?k db"
  have sub: "set cands \<subseteq> set ?all" unfolding cands_def pending_ids_def using set_take_subset [of ?k "sort ?all"] by simp
  have "pr_chain p = c" if p: "p \<in> set (audit_pending db)" and i: "pr_id p \<in> set (ids_of cands c)" for p c
  proof -
    obtain q where "q \<in> set (audit_pending db)" "pr_chain q = c" "pr_id q = pr_id p"
      using i sub by (auto simp: ids_of_def)
    then show ?thesis using p inv by (metis audit_inv_def distinct_map inj_onD)
  qed
  then obtain db' n where d: "drain_chains s (\<lambda>c. calm_drain (clock c)) cands (remdups_adj (map fst cands)) 0 db = (db', n, None)"
    "audit_inv s db' facts"
    "audit_pending db' = filter (\<lambda>p. \<forall>c \<in> set (remdups_adj (map fst cands)). pr_id p \<notin> set (ids_of cands c)) (audit_pending db)"
    "n = 0 + (length (audit_pending db) - length (audit_pending db'))" "length (audit_pending db') \<le> length (audit_pending db)"
    using drain_chains_calm [OF inv, of cands clock "remdups_adj (map fst cands)" 0] by blast
  have "length (audit_pending db') < length (audit_pending db)" if ne: "audit_pending db \<noteq> []"
  proof -
    have "cands \<noteq> []" using ne by (simp add: cands_def pending_ids_def) (metis length_0_conv length_map length_sort)
    then obtain c i where ci: "(c, i) \<in> set cands" by (cases cands) auto
    then obtain p where "p \<in> set (audit_pending db)" "pr_id p = i" using sub by auto
    moreover have "c \<in> set (remdups_adj (map fst cands))" "i \<in> set (ids_of cands c)" using ci by (force simp: ids_of_def)+
    ultimately show ?thesis unfolding d(3) by (intro length_filter_less) auto
  qed
  then have "n = 0 \<longleftrightarrow> audit_pending db = []" using d(4,5) by (cases "audit_pending db = []") simp_all
  moreover have "DrainPending s None (\<lambda>c. calm_drain (clock c)) batchSize db = (db', n, None)"
    using d(1) by (simp only: DrainPending_def Let_def option.case cands_def)
  ultimately show ?thesis using d(2,4,5) by auto
qed

lemma drain_all_calm:
  assumes "audit_inv s db facts"
  shows "\<exists>db'. drain_all s (\<lambda>_. None) (\<lambda>k c. calm_drain (clock k c)) batchSize k db = Some db' \<and> audit_inv s db' facts \<and> audit_pending db' = []"
  using assms
proof (induction "length (audit_pending db)" arbitrary: db k rule: less_induct)
  case less
  obtain db' n where d: "DrainPending s None (\<lambda>c. calm_drain (clock k c)) batchSize db = (db', n, None)" "audit_inv s db' facts"
    "n = 0 \<longleftrightarrow> audit_pending db = []" "length (audit_pending db') + n = length (audit_pending db)"
    using DrainPending_calm [OF less.prems] by blast
  show ?case
  proof (cases "n = 0")
    case True
    then show ?thesis using d by (subst drain_all.simps) simp
  next
    case False
    then have "length (audit_pending db') < length (audit_pending db)" using d(4) by simp
    then show ?thesis using less.hyps [OF _ d(2), of "k + 1"] d(1) False by (subst drain_all.simps) simp
  qed
qed

section \<open>A full walk\<close>

lemma sorted_ids_chain: "chains_ok s db \<Longrightarrow> chain_rows c None db = filter (\<lambda>r. ar_chain r = c) (audit_log db)"
proof -
  assume "chains_ok s db"
  then have "sorted (map ar_id (filter (\<lambda>r. ar_chain r = c) (audit_log db)))"
    by (simp add: chains_ok_def strict_sorted_imp_sorted sorted_filter)
  then show ?thesis by (simp add: chain_rows_def sort_key_id_if_sorted)
qed

lemma verify_chains_all:
  assumes "\<And>c. c \<in> set cs \<Longrightarrow> \<exists>res. one c = Inr res \<and> OK res \<and> Verified res = v c"
  shows "\<exists>res. verify_chains one n cs = Inr res \<and> OK res \<and> Verified res = n + sum_list (map v cs)"
  using assms
proof (induction cs arbitrary: n)
  case (Cons c cs)
  obtain res where "one c = Inr res" "OK res" "Verified res = v c" using Cons.prems [of c] by auto
  then show ?case using Cons.IH [of "n + v c"] Cons.prems by (auto simp: add.assoc)
qed simp

lemma sum_chain_lengths:
  "distinct cs \<Longrightarrow> \<forall>r \<in> set rows. ar_chain r \<in> set cs \<Longrightarrow> sum_list (map (\<lambda>c. length (filter (\<lambda>r. ar_chain r = c) rows)) cs) = length rows"
proof (induction rows)
  case (Cons r rows)
  have "(\<lambda>c. length (filter (\<lambda>r. ar_chain r = c) (r # rows))) = (\<lambda>c. (if c = ar_chain r then 1 else 0) + length (filter (\<lambda>r. ar_chain r = c) rows))"
    by auto
  moreover have "sum_list (map (\<lambda>c. if c = ar_chain r then 1 else 0) cs) = (1 :: nat)"
    using Cons.prems by (simp add: sum_list_distinct_conv_sum_set)
  ultimately show ?case using Cons by (simp add: sum_list_addf)
qed simp

lemma chains_ok_verify:
  assumes "chains_ok s db"
  shows "\<exists>res. VerifyChain s None (\<lambda>_. None) (\<lambda>_. None) db None = Inr res \<and> OK res \<and> Verified res = length (audit_log db)"
proof -
  let ?cs = "sort (map fst (chain_heads db))"
  have dist: "distinct (map fst (chain_heads db))" using assms by (simp add: chains_ok_def)
  have "\<exists>res. verifyOneChain s (\<lambda>_. None) (\<lambda>_. None) db None c = Inr res \<and> OK res \<and>
      Verified res = length (filter (\<lambda>r. ar_chain r = c) (audit_log db))" if "c \<in> set ?cs" for c
  proof -
    obtain h where "(c, h) \<in> set (chain_heads db)" using \<open>c \<in> set ?cs\<close> by auto
    then have "map_of (chain_heads db) c = Some h" "linked s genesisRoot (filter (\<lambda>r. ar_chain r = c) (audit_log db)) h"
      using dist assms by (auto simp: chains_ok_def)
    then show ?thesis unfolding verifyOneChain_ok sorted_ids_chain [OF assms] by blast
  qed
  then obtain res where "verify_chains (verifyOneChain s (\<lambda>_. None) (\<lambda>_. None) db None) 0 ?cs = Inr res" "OK res"
    "Verified res = 0 + sum_list (map (\<lambda>c. length (filter (\<lambda>r. ar_chain r = c) (audit_log db))) ?cs)"
    using verify_chains_all [of ?cs "verifyOneChain s (\<lambda>_. None) (\<lambda>_. None) db None"
        "\<lambda>c. length (filter (\<lambda>r. ar_chain r = c) (audit_log db))" 0] by blast
  moreover have "sum_list (map (\<lambda>c. length (filter (\<lambda>r. ar_chain r = c) (audit_log db))) ?cs) = length (audit_log db)"
    by (rule sum_chain_lengths) (use assms in \<open>auto simp: chains_ok_def\<close>)
  ultimately show ?thesis by (simp add: VerifyChain_def)
qed

lemma verify_chains_ok_iff:
  "(\<exists>res. verify_chains one n cs = Inr res \<and> OK res) \<longleftrightarrow> (\<forall>c \<in> set cs. \<exists>res. one c = Inr res \<and> OK res)"
proof (induction cs arbitrary: n)
  case (Cons c cs)
  show ?case
  proof (cases "\<exists>res. one c = Inr res \<and> OK res")
    case True
    then obtain res where res: "one c = Inr res" "OK res" by blast
    then show ?thesis using Cons.IH [of "n + Verified res"] by simp
  next
    case False
    then show ?thesis by (cases "one c") auto
  qed
qed simp

section \<open>Properties\<close>

text \<open>C34. \<open>VerifyChain\<close> over the whole table decides the reference definition of a sound log: it answers OK exactly when
  every chain that has a head is empty or is linked, row by row with recomputed hashes, from the genesis root to the
  hash of its head.\<close>

theorem verify_chain_decides:
  "(\<exists>res. VerifyChain s None (\<lambda>_. None) (\<lambda>_. None) db None = Inr res \<and> OK res) \<longleftrightarrow>
   list_all (\<lambda>c. chain_rows c None db = [] \<or> linked s genesisRoot (chain_rows c None db) (the (map_of (chain_heads db) c)))
     (map fst (chain_heads db))"
proof -
  have "(\<exists>res. verifyOneChain s (\<lambda>_. None) (\<lambda>_. None) db None c = Inr res \<and> OK res) \<longleftrightarrow>
      chain_rows c None db = [] \<or> linked s genesisRoot (chain_rows c None db) (the (map_of (chain_heads db) c))"
    if c_in: "c \<in> set (map fst (chain_heads db))" for c
  proof -
    obtain h where "map_of (chain_heads db) c = Some h" using c_in by (cases "map_of (chain_heads db) c") (simp_all add: map_of_eq_None_iff)
    moreover have "(\<exists>res. verifyOneChain s (\<lambda>_. None) (\<lambda>_. None) db None c = Inr res \<and> OK res) \<longleftrightarrow>
        (\<exists>n res. verifyOneChain s (\<lambda>_. None) (\<lambda>_. None) db None c = Inr res \<and> OK res \<and> Verified res = n)" by blast
    ultimately show ?thesis unfolding verifyOneChain_ok by simp
  qed
  then show ?thesis by (simp add: VerifyChain_def verify_chains_ok_iff list_all_iff)
qed


definition plain_store :: audit_store where
  "plain_store = \<lparr>chainKey = '''', chainShards = 1\<rparr>"

definition sample_entry :: audit_entry where
  "sample_entry = \<lparr>ae_actor = ''ann'', ae_action = ''order:create'', ae_subject = ''o1'', ae_meta = Some [(''t'', ''x'')], ae_at = None\<rparr>"

definition one_entry :: audit_db where
  "one_entry = fst (Record plain_store no_audit_faults 5000 sample_entry audit_empty)"

lemma one_entry_eq:
  "Record plain_store no_audit_faults 5000 sample_entry audit_empty = (one_entry, None)" "length (audit_log one_entry) = 1"
  by (simp_all add: one_entry_def Record_def ensure_head_def lock_head_def insert_log_def set_head_def plain_store_def no_audit_faults_def
      sample_entry_def audit_empty_def chainIDFor_def Let_def)

lemma sample_meta_ok: "meta_ok (ae_meta sample_entry)"
  by (simp add: sample_entry_def meta_ok_def utf8_coerce.simps in_range_def byte_def)

lemma one_entry_reach: "audit_reach plain_store one_entry [entry_fact 5000 sample_entry]"
  using audit_reach.direct [OF audit_reach.start sample_meta_ok, of None None plain_store no_audit_faults 5000 one_entry None]
  by (simp add: RunInTx_None one_entry_eq)


text \<open>C7. The log is tamper-evident: two tables whose chain \<open>c\<close> passes a full verification against the same head, and is
  not empty, record the same entries in the same order, or the change exhibits a collision of the hash (or a
  message that hashes to the root). Field lengths are below \<open>2 ^ 64\<close> and times within 64 bits.\<close>

theorem audit_tamper_evident:
  assumes "verifyOneChain s (\<lambda>_. None) (\<lambda>_. None) db None c = Inr res" "OK res"
    and "verifyOneChain s (\<lambda>_. None) (\<lambda>_. None) db' None c = Inr res'" "OK res'"
    and "map_of (chain_heads db) c = map_of (chain_heads db') c"
    and "chain_rows c None db \<noteq> []" "chain_rows c None db' \<noteq> []"
    and "list_all (\<lambda>r. fact_fits (row_fact r)) (chain_rows c None db)" "list_all (\<lambda>r. fact_fits (row_fact r)) (chain_rows c None db')"
  shows "map row_fact (chain_rows c None db) = map row_fact (chain_rows c None db') \<or>
     hash_broken s (chain_rows c None db) (chain_rows c None db')"
proof -
  obtain h where "map_of (chain_heads db) c = Some h" "linked s genesisRoot (chain_rows c None db) h"
    using assms(1,2,6) verifyOneChain_ok [of s db c "Verified res"] by auto
  moreover obtain h' where "map_of (chain_heads db') c = Some h'" "linked s genesisRoot (chain_rows c None db') h'"
    using assms(3,4,7) verifyOneChain_ok [of s db' c "Verified res'"] by auto
  ultimately show ?thesis using linked_unique assms(5,8,9) by (simp add: list_all_iff)
qed

definition moved_entry :: audit_db where
  "moved_entry = one_entry\<lparr>audit_log := map (\<lambda>r. r\<lparr>ar_id := ar_id r + 7\<rparr>) (audit_log one_entry)\<rparr>"

lemma one_entry_row:
  obtains r h where "audit_log one_entry = [r]" "ar_chain r = 1" "map_of (chain_heads one_entry) 1 = Some h"
    "linked plain_store genesisRoot [r] h" "row_fact r = entry_fact 5000 sample_entry"
proof -
  have ok: "chains_ok plain_store one_entry" and facts: "mset (map row_fact (audit_log one_entry)) + mset (map pending_fact (audit_pending one_entry)) =
      mset [entry_fact 5000 sample_entry]" and chain: "\<forall>r \<in> set (audit_log one_entry). ar_chain r = 1"
    using audit_reach_inv [OF one_entry_reach] by (auto simp: audit_inv_def chainIDFor_def plain_store_def)
  obtain r where r: "audit_log one_entry = [r]" using one_entry_eq(2) by (metis One_nat_def length_0_conv length_Suc_conv)
  obtain h where h: "(1, h) \<in> set (chain_heads one_entry)" using ok by (auto simp: chains_ok_def)
  moreover have "filter (\<lambda>r. ar_chain r = 1) (audit_log one_entry) = [r]" using r chain by simp
  ultimately have "map_of (chain_heads one_entry) 1 = Some h" "linked plain_store genesisRoot [r] h"
    using ok unfolding chains_ok_def by fastforce+
  moreover have "row_fact r \<in># mset [entry_fact 5000 sample_entry]" unfolding facts [symmetric] by (simp add: r)
  then have "row_fact r = entry_fact 5000 sample_entry" by simp
  ultimately show thesis using that r chain by auto
qed

theorem audit_tamper_evident_witness:
  "map row_fact (chain_rows 1 None one_entry) = map row_fact (chain_rows 1 None moved_entry) \<or>
     hash_broken plain_store (chain_rows 1 None one_entry) (chain_rows 1 None moved_entry)"
proof -
  obtain r h where r: "audit_log one_entry = [r]" "ar_chain r = 1" "map_of (chain_heads one_entry) 1 = Some h"
    "linked plain_store genesisRoot [r] h" "row_fact r = entry_fact 5000 sample_entry"
    by (rule one_entry_row)
  have rows: "chain_rows 1 None one_entry = [r]" "chain_rows 1 None moved_entry = [r\<lparr>ar_id := ar_id r + 7\<rparr>]"
    using r by (simp_all add: chain_rows_def moved_entry_def)
  have heads: "map_of (chain_heads moved_entry) 1 = Some h" using r(3) by (simp add: moved_entry_def)
  have moved: "linked plain_store genesisRoot [r\<lparr>ar_id := ar_id r + 7\<rparr>] h" using r(4) by (auto simp: row_hash_def)
  have fits: "fact_fits (row_fact r)" "row_fact (r\<lparr>ar_id := ar_id r + 7\<rparr>) = row_fact r"
    by (simp add: r(5) entry_fact_def sample_entry_def entry_time_def truncate_us_def map_entries_def short_def pairs_short_def)
      (simp add: row_fact_def)
  obtain res where "verifyOneChain plain_store (\<lambda>_. None) (\<lambda>_. None) one_entry None 1 = Inr res" "OK res"
    using verifyOneChain_ok [of plain_store one_entry 1 1] rows r by auto
  moreover obtain res' where "verifyOneChain plain_store (\<lambda>_. None) (\<lambda>_. None) moved_entry None 1 = Inr res'" "OK res'"
    using verifyOneChain_ok [of plain_store moved_entry 1 1] rows heads moved by auto
  ultimately show ?thesis by (rule audit_tamper_evident) (simp_all add: r(3) heads rows fits)
qed

text \<open>An audit trail of the durable mode is complete: from every reachable state, a tick of the drain worker whose
  statements succeed ends, leaves the staging table empty, and the log then holds exactly the committed facts.\<close>

theorem audit_drained:
  assumes "audit_reach s db facts"
  shows "\<exists>db'. drain_all s (\<lambda>_. None) (\<lambda>k c. calm_drain (clock k c)) batchSize 0 db = Some db' \<and>
     audit_pending db' = [] \<and> mset (map row_fact (audit_log db')) = mset facts"
  using drain_all_calm [OF audit_reach_inv [OF assms]] by (fastforce simp: audit_inv_def)

theorem audit_drained_witness:
  "\<exists>db'. drain_all plain_store (\<lambda>_. None) (\<lambda>k c. calm_drain (\<lambda>_. 9)) 2 0 one_entry = Some db' \<and>
     audit_pending db' = [] \<and> mset (map row_fact (audit_log db')) = mset [entry_fact 5000 sample_entry]"
  by (rule audit_drained [OF one_entry_reach])

text \<open>C40. Deleting the whole log is not detected: with no row to walk, the head is not compared, so \<open>VerifyChain\<close>
  answers OK whatever the chain heads say.\<close>

theorem audit_wipe_undetected:
  "VerifyChain s None (\<lambda>_. None) (\<lambda>_. None) (db\<lparr>audit_log := []\<rparr>) None =
     Inr \<lparr>OK = True, Verified = 0, BreakID = 0, ExpectedHash = '''', GotHash = '''', Reason = ''''\<rparr>"
proof -
  have "verifyOneChain s (\<lambda>_. None) (\<lambda>_. None) (db\<lparr>audit_log := []\<rparr>) None c =
      Inr \<lparr>OK = True, Verified = 0, BreakID = 0, ExpectedHash = '''', GotHash = '''', Reason = ''''\<rparr>" for c
    by (simp add: verifyOneChain_def chain_rows_def)
  then have "verify_chains (verifyOneChain s (\<lambda>_. None) (\<lambda>_. None) (db\<lparr>audit_log := []\<rparr>) None) 0 cs =
      Inr \<lparr>OK = True, Verified = 0, BreakID = 0, ExpectedHash = '''', GotHash = '''', Reason = ''''\<rparr>" for cs
    by (induction cs) simp_all
  then show ?thesis by (simp add: VerifyChain_def)
qed

text \<open>Nor is an edit of metadata that decodes to the same map, because the decode error is ignored: an entry without
  metadata may be given any JSON document that is no object.\<close>

lemma metadata_edit_undetected:
  "ar_meta r = JObj [] \<Longrightarrow> row_hash s (r\<lparr>ar_meta := JArr docs\<rparr>) = row_hash s r"
  by (simp add: row_hash_def computeEntryHash_def canonical_def map_entries_def)

end
