(* ===== verification/Auth.thy ===== *)
theory Auth
  imports Audit_Chain
begin

text \<open>
  \<open>platform/security/auth\<close> and \<open>platform/security/authz\<close>: from the Authorization header to a principal, and the
  decisions made on it. The JWT library is an argument: \<open>tk_parse\<close> stands for \<open>jwt.Parse\<close> with the signature, issuer,
  audience and expiry checks the verifier asks for, and gives the claims of an accepted token.
\<close>

section \<open>Principals and tokens\<close>

record Principal =
  p_subject :: string
  p_username :: string
  p_roles :: "string list"

record jwt_token =
  tk_sub :: "string option"
  tk_claims :: "(string \<times> json) list"

record jwks_verifier =
  requiredAZP :: string
  rolesClaimPath :: string
  jwks_lookup :: "go_err option"
  tk_parse :: "string \<Rightarrow> (go_err, jwt_token) result"

datatype verify_error = InvalidToken "go_err option" | VerifyFailed go_err

text \<open>\<open>tok.Get(name, &s)\<close> for a string.\<close>

definition claim_string :: "jwt_token \<Rightarrow> string \<Rightarrow> string option" where
  "claim_string tok name = (case map_of (tk_claims tok) name of Some (JStr s) \<Rightarrow> Some s | _ \<Rightarrow> None)"

fun walk_path :: "json option \<Rightarrow> string list \<Rightarrow> json option" where
  "walk_path cur [] = cur"
| "walk_path cur (part # rest) =
     (case cur of Some (JObj kvs) \<Rightarrow> walk_path (map_of kvs part) rest | _ \<Rightarrow> None)"

fun strings_of :: "json list \<Rightarrow> string list" where
  "strings_of [] = []"
| "strings_of (JStr s # js) = s # strings_of js"
| "strings_of (_ # js) = strings_of js"

definition extractRoles :: "jwks_verifier \<Rightarrow> jwt_token \<Rightarrow> string list" where
  "extractRoles v tok =
     (let parts = str_split (CHR ''.'') (rolesClaimPath v)
      in case map_of (tk_claims tok) (hd parts) of
           None \<Rightarrow> []
         | Some j \<Rightarrow> (case walk_path (Some j) (tl parts) of Some (JArr items) \<Rightarrow> strings_of items | _ \<Rightarrow> []))"

definition Verify :: "jwks_verifier \<Rightarrow> string \<Rightarrow> (verify_error, Principal) result" where
  "Verify v rawToken =
     (case jwks_lookup v of
        Some e \<Rightarrow> Inl (VerifyFailed (ErrWrap ''auth: fetching JWKS'' e))
      | None \<Rightarrow>
          (case tk_parse v rawToken of
             Inl e \<Rightarrow> Inl (InvalidToken (Some e))
           | Inr tok \<Rightarrow>
               if requiredAZP v \<noteq> '''' \<and> claim_string tok ''azp'' \<noteq> Some (requiredAZP v)
               then Inl (InvalidToken (Some (ErrText ''azp claim mismatch'')))
               else (let sub = (case tk_sub tok of None \<Rightarrow> '''' | Some s \<Rightarrow> s)
                     in if sub = '''' then Inl (InvalidToken (Some (ErrText ''token has empty subject claim'')))
                        else Inr \<lparr>p_subject = sub,
                                  p_username = (case claim_string tok ''preferred_username'' of None \<Rightarrow> '''' | Some u \<Rightarrow> u),
                                  p_roles = extractRoles v tok\<rparr>)))"

section \<open>The middleware\<close>

definition DefaultMaxTokenBytes :: int where "DefaultMaxTokenBytes = 8192"

definition WithMaxTokenBytes :: "int \<Rightarrow> int \<Rightarrow> int" where
  "WithMaxTokenBytes n cur = (if 0 < n then n else cur)"

definition bearerToken :: "string \<Rightarrow> string option" where
  "bearerToken h =
     (if h = '''' then None
      else if \<not> has_prefix h ''Bearer '' then None
      else (let tok = drop (length ''Bearer '') h in if tok = '''' then None else Some tok))"

datatype 'a auth_result = Denied401 string | Denied403 string | Passed 'a

definition Middleware :: "jwks_verifier \<Rightarrow> int \<Rightarrow> string \<Rightarrow> Principal auth_result" where
  "Middleware v maxTokenBytes authorization =
     (case bearerToken authorization of
        None \<Rightarrow> Denied401 ''missing or malformed Authorization header''
      | Some raw \<Rightarrow>
          if maxTokenBytes < int (length raw) then Denied401 ''token exceeds maximum size''
          else (case Verify v raw of
                  Inl (InvalidToken _) \<Rightarrow> Denied401 ''invalid token''
                | Inl (VerifyFailed _) \<Rightarrow> Denied401 ''authentication failed''
                | Inr p \<Rightarrow> Passed p))"

definition RequireRole :: "string \<Rightarrow> Principal option \<Rightarrow> unit auth_result" where
  "RequireRole role principal_opt =
     (case principal_opt of
        None \<Rightarrow> Denied401 ''no authenticated principal''
      | Some p \<Rightarrow> if role \<in> set (p_roles p) then Passed () else Denied403 role)"

section \<open>Policies\<close>

definition CodeAuthUnauthenticated :: string where "CodeAuthUnauthenticated = ''AUTH_UNAUTHENTICATED''"
definition CodeAuthForbidden :: string where "CodeAuthForbidden = ''AUTH_FORBIDDEN''"

type_synonym rbac = "string \<rightharpoonup> string list"

definition ErrUnauthenticated :: "code_registry \<Rightarrow> go_err" where
  "ErrUnauthenticated reg = ErrApp (app_New reg CodeAuthUnauthenticated) None"

definition ErrForbidden :: "code_registry \<Rightarrow> go_err" where
  "ErrForbidden reg = ErrApp (app_New reg CodeAuthForbidden) None"

definition rbac_Authorize :: "code_registry \<Rightarrow> rbac \<Rightarrow> Principal \<Rightarrow> string \<Rightarrow> go_err option" where
  "rbac_Authorize reg rules p action =
     (case rules action of
        None \<Rightarrow> Some (ErrWrap (''action not permitted: '' @ action) (ErrForbidden reg))
      | Some allowed \<Rightarrow>
          if \<exists>role \<in> set (p_roles p). role \<in> set allowed then None
          else Some (ErrWrap (''principal lacks role for '' @ action) (ErrForbidden reg)))"

section \<open>Lemmas\<close>

lemma Verify_subject: "Verify v raw = Inr p \<Longrightarrow> p_subject p \<noteq> ''''"
  by (auto simp: Verify_def Let_def split: option.splits sum.splits if_splits)

lemma Verify_token:
  "Verify v raw = Inr p \<Longrightarrow>
   \<exists>tok. tk_parse v raw = Inr tok \<and> tk_sub tok = Some (p_subject p) \<and> p_roles p = extractRoles v tok \<and>
     (requiredAZP v = '''' \<or> claim_string tok ''azp'' = Some (requiredAZP v))"
  by (auto simp: Verify_def Let_def split: option.splits sum.splits if_splits)

lemma Middleware_passed:
  "Middleware v n h = Passed p \<longleftrightarrow> (\<exists>raw. bearerToken h = Some raw \<and> int (length raw) \<le> n \<and> Verify v raw = Inr p)"
  by (auto simp: Middleware_def split: option.splits sum.splits verify_error.splits)

lemma bearerToken_Some: "bearerToken h = Some raw \<longleftrightarrow> raw \<noteq> '''' \<and> h = ''Bearer '' @ raw"
proof -
  have "has_prefix h ''Bearer '' \<longleftrightarrow> (\<exists>t. h = ''Bearer '' @ t)"
    unfolding has_prefix_def by (metis append_eq_conv_conj append_take_drop_id)
  then show ?thesis by (auto simp: bearerToken_def Let_def)
qed

section \<open>Properties\<close>

text \<open>The middleware lets a request through exactly when its header is a bearer token within the size cap that the
  verifier accepts; the principal then comes from a token the JWT library accepted, has that token's subject, which is
  not empty, and its roles, and the token is pinned to the required party when one is configured.\<close>

theorem middleware_admits:
  "(Middleware v n h = Passed p \<longleftrightarrow> (\<exists>raw. raw \<noteq> '''' \<and> h = ''Bearer '' @ raw \<and> int (length raw) \<le> n \<and> Verify v raw = Inr p)) \<and>
   (case Middleware v n h of
      Passed q \<Rightarrow> p_subject q \<noteq> '''' \<and>
        (\<exists>raw tok. h = ''Bearer '' @ raw \<and> tk_parse v raw = Inr tok \<and> tk_sub tok = Some (p_subject q) \<and>
           p_roles q = extractRoles v tok \<and> (requiredAZP v = '''' \<or> claim_string tok ''azp'' = Some (requiredAZP v)))
    | Denied401 why \<Rightarrow> True
    | Denied403 why \<Rightarrow> False)"
proof (intro conjI)
  show "Middleware v n h = Passed p \<longleftrightarrow> (\<exists>raw. raw \<noteq> '''' \<and> h = ''Bearer '' @ raw \<and> int (length raw) \<le> n \<and> Verify v raw = Inr p)"
    by (auto simp: Middleware_passed bearerToken_Some)
  show "case Middleware v n h of
      Passed q \<Rightarrow> p_subject q \<noteq> '''' \<and>
        (\<exists>raw tok. h = ''Bearer '' @ raw \<and> tk_parse v raw = Inr tok \<and> tk_sub tok = Some (p_subject q) \<and>
           p_roles q = extractRoles v tok \<and> (requiredAZP v = '''' \<or> claim_string tok ''azp'' = Some (requiredAZP v)))
    | Denied401 why \<Rightarrow> True
    | Denied403 why \<Rightarrow> False"
  proof (cases "Middleware v n h")
    case (Passed q)
    then obtain raw where raw: "h = ''Bearer '' @ raw" "Verify v raw = Inr q" by (auto simp: Middleware_passed bearerToken_Some)
    then show ?thesis using Passed Verify_subject Verify_token [OF raw(2)] by auto
  next
    case (Denied403 w)
    then show ?thesis by (auto simp: Middleware_def split: option.splits sum.splits verify_error.splits if_splits)
  qed simp
qed

end
