(* ===== verification/Audit_Writer.thy ===== *)
theory Audit_Writer
  imports Audit_Chain Auth
begin

text \<open>
  The users of the audit log in \<open>platform/security/audit\<close>: the command behaviours that record in the command's
  transaction, stage, or buffer (\<open>behavior.go\<close>), the buffered writer (\<open>asyncwriter.go\<close>), retention
  (\<open>cleanup.go\<close>) and the read path (\<open>audit.go\<close>, \<open>Query\<close>). A command handler runs on a pair of its own state and
  the audit tables, which one transaction covers.
\<close>

section \<open>behavior.go\<close>

definition actorFrom :: "Principal option \<Rightarrow> string" where
  "actorFrom po =
     (case po of
        None \<Rightarrow> ''anonymous''
      | Some p \<Rightarrow> if p_subject p \<noteq> '''' then p_subject p else if p_username p \<noteq> '''' then p_username p else ''anonymous'')"

definition audited_entry :: "Principal option \<Rightarrow> string option \<Rightarrow> string \<Rightarrow> string \<Rightarrow> audit_entry" where
  "audited_entry po tenant action subject =
     \<lparr>ae_actor = actorFrom po, ae_action = action, ae_subject = subject,
      ae_meta = map_option (\<lambda>t. [(''tenant_id'', t)]) tenant, ae_at = None\<rparr>"

type_synonym ('c, 'w, 'r) command = "'c \<Rightarrow> 'w \<times> audit_db \<Rightarrow> ('w \<times> audit_db) \<times> (go_err, 'r) result"

record audit_call =
  ac_store :: audit_store
  ac_faults :: audit_faults
  ac_stage :: "go_err option"
  ac_clock :: int
  ac_principal :: "Principal option"
  ac_tenant :: "string option"

definition Audit :: "audit_call \<Rightarrow> string \<Rightarrow> ('c \<Rightarrow> string) \<Rightarrow> ('c, 'w, 'r) command \<Rightarrow> ('c, 'w, 'r) command" where
  "Audit a action subjectFor nxt cmd w =
     (case nxt cmd w of
        (w', Inl err) \<Rightarrow> (w', Inl err)
      | ((own, db), Inr res) \<Rightarrow>
          (case Record (ac_store a) (ac_faults a) (ac_clock a)
                  (audited_entry (ac_principal a) (ac_tenant a) action (subjectFor cmd)) db of
             (db', Some recErr) \<Rightarrow> ((own, db'), Inl recErr)
           | (db', None) \<Rightarrow> ((own, db'), Inr res)))"

definition DurableAudit :: "audit_call \<Rightarrow> string \<Rightarrow> ('c \<Rightarrow> string) \<Rightarrow> ('c, 'w, 'r) command \<Rightarrow> ('c, 'w, 'r) command" where
  "DurableAudit a action subjectFor nxt cmd w =
     (case nxt cmd w of
        (w', Inl err) \<Rightarrow> (w', Inl err)
      | ((own, db), Inr res) \<Rightarrow>
          (case InsertPending (ac_store a) (ac_stage a) (ac_clock a)
                  (audited_entry (ac_principal a) (ac_tenant a) action (subjectFor cmd)) db of
             (db', Some perr) \<Rightarrow> ((own, db'), Inl perr)
           | (db', None) \<Rightarrow> ((own, db'), Inr res)))"

text \<open>\<open>cqrs.Transaction\<close>: the command in one database transaction; its result is a captured variable.\<close>

definition Transaction :: "go_err option \<Rightarrow> go_err option \<Rightarrow> ('c \<Rightarrow> 's \<Rightarrow> 's \<times> (go_err, 'r) result) \<Rightarrow> 'c \<Rightarrow> 's \<Rightarrow> 's \<times> (go_err, 'r) result" where
  "Transaction b k nxt cmd s =
     (case RunInTx_mem b k
             (\<lambda>s (_ :: 'r option). case nxt cmd s of (s', Inl e) \<Rightarrow> (s', None, Some e) | (s', Inr r) \<Rightarrow> (s', Some r, None)) s None of
        (s', r, Some err) \<Rightarrow> (s', Inl err)
      | (s', r, None) \<Rightarrow> (s', Inr (the r)))"

section \<open>asyncwriter.go\<close>

record audit_writer =
  aw_cap :: nat
  aw_batchSize :: nat
  aw_ch :: "audit_entry list"
  aw_hand :: "audit_entry list"
  aw_dropped :: nat
  aw_errors :: nat
  aw_db :: audit_db

definition NewBufferedAuditWriter :: "int \<Rightarrow> int \<Rightarrow> audit_db \<Rightarrow> audit_writer" where
  "NewBufferedAuditWriter cap batchSize db =
     \<lparr>aw_cap = nat (if cap \<le> 0 then 4096 else cap), aw_batchSize = nat (if batchSize \<le> 0 then 128 else batchSize),
      aw_ch = [], aw_hand = [], aw_dropped = 0, aw_errors = 0, aw_db = db\<rparr>"

definition audit_Enqueue :: "audit_entry \<Rightarrow> audit_writer \<Rightarrow> audit_writer \<times> bool" where
  "audit_Enqueue e w =
     (if length (aw_ch w) < aw_cap w then (w\<lparr>aw_ch := aw_ch w @ [e]\<rparr>, True)
      else (w\<lparr>aw_dropped := aw_dropped w + 1\<rparr>, False))"

definition AsyncAudit :: "audit_call \<Rightarrow> string \<Rightarrow> ('c \<Rightarrow> string) \<Rightarrow> ('c \<Rightarrow> 'w \<Rightarrow> 'w \<times> (go_err, 'r) result) \<Rightarrow> 'c \<Rightarrow> 'w \<times> audit_writer
    \<Rightarrow> ('w \<times> audit_writer) \<times> (go_err, 'r) result" where
  "AsyncAudit a action subjectFor nxt cmd st =
     (case nxt cmd (fst st) of
        (own, Inl err) \<Rightarrow> ((own, snd st), Inl err)
      | (own, Inr res) \<Rightarrow>
          ((own, fst (audit_Enqueue (audited_entry (ac_principal a) (ac_tenant a) action (subjectFor cmd)) (snd st))), Inr res))"

text \<open>One flush: the order in which the chains of a batch are written, and the failures of each chain's transaction.
  The transactions of different chains touch different rows, so running them one after the other in any order is
  running them at once.\<close>

record flush_call =
  fc_order :: "int list"
  fc_begin :: "int \<Rightarrow> go_err option"
  fc_commit :: "int \<Rightarrow> go_err option"
  fc_faults :: "int \<Rightarrow> audit_faults"
  fc_clock :: "int \<Rightarrow> nat \<Rightarrow> int"

definition flushChain :: "audit_store \<Rightarrow> flush_call \<Rightarrow> int \<Rightarrow> audit_entry list \<Rightarrow> audit_writer \<Rightarrow> audit_writer" where
  "flushChain s F c entries w =
     (case RunInTx (fc_begin F c) (fc_commit F c) (RecordBatchSameChain s (fc_faults F c) (fc_clock F c) c entries) (aw_db w) of
        (db', Some _) \<Rightarrow> w\<lparr>aw_db := db', aw_errors := aw_errors w + 1\<rparr>
      | (db', None) \<Rightarrow> w\<lparr>aw_db := db'\<rparr>)"

definition chain_group :: "audit_store \<Rightarrow> audit_entry list \<Rightarrow> int \<Rightarrow> audit_entry list" where
  "chain_group s es c = filter (\<lambda>e. chainIDFor s (ae_actor e) = c) es"

fun flush_chains :: "audit_store \<Rightarrow> flush_call \<Rightarrow> audit_entry list \<Rightarrow> int list \<Rightarrow> audit_writer \<Rightarrow> audit_writer" where
  "flush_chains s F es [] w = w"
| "flush_chains s F es (c # cs) w =
     flush_chains s F es cs (if chain_group s es c = [] then w else flushChain s F c (chain_group s es c) w)"

definition audit_flush :: "audit_store \<Rightarrow> flush_call \<Rightarrow> audit_entry list \<Rightarrow> audit_writer \<Rightarrow> audit_writer" where
  "audit_flush s F es w = (if es = [] then w else flush_chains s F es (fc_order F) w)"

text \<open>The two events of \<open>Run\<close>, and \<open>drainRemaining\<close> at shutdown.\<close>

definition writer_receive :: "audit_store \<Rightarrow> flush_call \<Rightarrow> audit_writer \<Rightarrow> audit_writer" where
  "writer_receive s F w =
     (case aw_ch w of
        [] \<Rightarrow> w
      | e # rest \<Rightarrow>
          (let hand = aw_hand w @ [e]; w1 = w\<lparr>aw_ch := rest, aw_hand := hand\<rparr>
           in if aw_batchSize w \<le> length hand then (audit_flush s F hand w1)\<lparr>aw_hand := []\<rparr> else w1))"

definition writer_tick :: "audit_store \<Rightarrow> flush_call \<Rightarrow> audit_writer \<Rightarrow> audit_writer" where
  "writer_tick s F w = (if aw_hand w = [] then w else (audit_flush s F (aw_hand w) w)\<lparr>aw_hand := []\<rparr>)"

function drain_batches :: "audit_store \<Rightarrow> (nat \<Rightarrow> flush_call) \<Rightarrow> nat \<Rightarrow> nat \<Rightarrow> audit_entry list \<Rightarrow> audit_writer \<Rightarrow> audit_writer" where
  "drain_batches s F k n ch w =
     (if n = 0 \<or> length ch < n then audit_flush s (F k) ch w
      else drain_batches s F (k + 1) n (drop n ch) (audit_flush s (F k) (take n ch) w))"
  by pat_completeness auto
termination
  by (relation "measure (\<lambda>(s, F, k, n, ch, w). length ch)") auto

declare drain_batches.simps [simp del]

definition drainRemaining :: "audit_store \<Rightarrow> (nat \<Rightarrow> flush_call) \<Rightarrow> audit_writer \<Rightarrow> audit_writer" where
  "drainRemaining s F w =
     (drain_batches s F 1 (aw_batchSize w) (aw_ch w) (audit_flush s (F 0) (aw_hand w) w))\<lparr>aw_ch := [], aw_hand := []\<rparr>"

section \<open>cleanup.go and the read path\<close>

definition audit_Cleanup :: "bool \<Rightarrow> go_err option \<Rightarrow> int \<Rightarrow> int \<Rightarrow> audit_db \<Rightarrow> audit_db \<times> (go_err, nat) result" where
  "audit_Cleanup has_admin err clock olderThan db =
     (if \<not> has_admin then (db, Inl (ErrText ''audit: cleanup disabled (no PG_AUDIT_ADMIN_URL / admin pool configured)''))
      else (case err of
              Some e \<Rightarrow> (db, Inl (ErrWrap ''audit: cleanup'' e))
            | None \<Rightarrow>
                (let gone = filter (\<lambda>r. ar_created r < clock - olderThan) (audit_log db)
                 in (db\<lparr>audit_log := filter (\<lambda>r. \<not> ar_created r < clock - olderThan) (audit_log db)\<rparr>, Inr (length gone)))))"

definition max_int32 :: int where "max_int32 = 2 ^ 31 - 1"

text \<open>\<open>json_text\<close> is the text of a document, for rows whose metadata is not a string map.\<close>

definition read_meta :: "(json \<Rightarrow> string) \<Rightarrow> json \<Rightarrow> metadata" where
  "read_meta json_text j = (case unmarshal_meta j of (m, ok) \<Rightarrow> if ok then m else Some [(''_raw'', json_text j)])"

definition audit_Query :: "(json \<Rightarrow> string) \<Rightarrow> go_err option \<Rightarrow> string \<Rightarrow> int option \<Rightarrow> int \<Rightarrow> audit_db \<Rightarrow> (go_err, audit_entry list) result" where
  "audit_Query json_text err actor since limit db =
     (case err of
        Some e \<Rightarrow> Inl (ErrWrap ''audit: query by actor'' e)
      | None \<Rightarrow>
          (let lim = (if limit \<le> 0 then 100 else limit);
               rowLimit = (if lim < max_int32 then lim else max_int32);
               rows = take (nat rowLimit)
                 (rev (sort_key (\<lambda>r. (ar_created r, ar_id r))
                   (filter (\<lambda>r. ar_actor r = actor \<and> (case since of None \<Rightarrow> True | Some t \<Rightarrow> t \<le> ar_created r)) (audit_log db))))
           in Inr (map (\<lambda>r. \<lparr>ae_actor = ar_actor r, ae_action = ar_action r, ae_subject = ar_subject r,
                             ae_meta = read_meta json_text (ar_meta r), ae_at = Some (ar_created r)\<rparr>) rows)))"

definition PendingBacklog :: "go_err option \<Rightarrow> audit_db \<Rightarrow> (go_err, int) result" where
  "PendingBacklog err db =
     (case err of Some e \<Rightarrow> Inl (ErrWrap ''audit: pending backlog count'' e) | None \<Rightarrow> Inr (int (length (audit_pending db))))"

section \<open>Lemmas\<close>

lemma Transaction_Inl: "Transaction b k nxt cmd s = (s', Inl e) \<Longrightarrow> s' = s"
  by (auto simp: Transaction_def RunInTx_mem_def split: option.splits prod.splits sum.splits)

lemma Transaction_Inr: "Transaction b k nxt cmd s = (s', Inr r) \<longleftrightarrow> b = None \<and> k = None \<and> nxt cmd s = (s', Inr r)"
  by (auto simp: Transaction_def RunInTx_mem_def split: option.splits prod.splits sum.splits)

lemma audited_entry_meta: "(\<forall>t. tenant = Some t \<longrightarrow> utf8_coerce t = t) \<Longrightarrow> meta_ok (ae_meta (audited_entry po tenant action subject))"
  by (auto simp: audited_entry_def meta_ok_def utf8_coerce.simps in_range_def byte_def split: option.splits)

lemma audited_entry_actor [simp]: "ae_actor (audited_entry po tenant action subject) = actorFrom po"
  by (simp add: audited_entry_def)

lemma InsertPending_fact:
  assumes "InsertPending s i clock e db = (db', None)" "meta_ok (ae_meta e)"
  shows "audit_log db' = audit_log db \<and> map pending_fact (audit_pending db') = map pending_fact (audit_pending db) @ [entry_fact clock e]"
proof -
  let ?p = "\<lparr>pr_id = next_pending db, pr_chain = chainIDFor s (ae_actor e),
    pr_entry = e\<lparr>ae_at := Some (entry_time clock e), ae_meta := Some (map_entries (ae_meta e))\<rparr>\<rparr>"
  have "pending_fact ?p = entry_fact clock e"
    by (simp add: pending_fact_def entry_fact_def map_entries_sorted) (simp add: entry_time_def)
  then show ?thesis using assms by (auto simp: InsertPending_def column_meta split: option.splits)
qed

text \<open>A flush is a sequence of batch writes, each to one chain, so it leads from a reachable log to a reachable log; the
  facts it adds are facts of its entries.\<close>

lemma flushChain_reach:
  assumes "audit_reach s (aw_db w) facts" "list_all (\<lambda>e. meta_ok (ae_meta e) \<and> chainIDFor s (ae_actor e) = c) es"
  shows "\<exists>new. audit_reach s (aw_db (flushChain s F c es w)) (new @ facts) \<and>
     (new = [] \<or> new = map2 (\<lambda>j e. entry_fact (fc_clock F c j) e) [0..<length es] es)"
proof -
  obtain db' err where tx: "RunInTx (fc_begin F c) (fc_commit F c) (RecordBatchSameChain s (fc_faults F c) (fc_clock F c) c es) (aw_db w) = (db', err)"
    by fastforce
  then have "aw_db (flushChain s F c es w) = db'" by (auto simp: flushChain_def split: option.splits)
  then show ?thesis using audit_reach.batch [OF assms tx]
    by (intro exI [of _ "if err = None then map2 (\<lambda>j e. entry_fact (fc_clock F c j) e) [0..<length es] es else []"]) (cases err; simp)
qed

lemma flush_chains_reach:
  assumes "audit_reach s (aw_db w) facts" "list_all (\<lambda>e. meta_ok (ae_meta e)) es"
  shows "\<exists>new. audit_reach s (aw_db (flush_chains s F es cs w)) (new @ facts) \<and> set new \<subseteq> (\<Union>c. \<Union>j. entry_fact (fc_clock F c j) ` set es)"
  using assms(1)
proof (induction cs arbitrary: w facts)
  case Nil
  then show ?case by (intro exI [of _ "[]"]) simp
next
  case (Cons c cs)
  let ?w = "if chain_group s es c = [] then w else flushChain s F c (chain_group s es c) w"
  have ok: "list_all (\<lambda>e. meta_ok (ae_meta e) \<and> chainIDFor s (ae_actor e) = c) (chain_group s es c)"
    using assms(2) by (auto simp: chain_group_def list_all_iff)
  obtain new where new: "audit_reach s (aw_db ?w) (new @ facts)"
    "new = [] \<or> new = map2 (\<lambda>j e. entry_fact (fc_clock F c j) e) [0..<length (chain_group s es c)] (chain_group s es c)"
  proof (cases "chain_group s es c = []")
    case True
    then show thesis using that [of "[]"] Cons.prems by simp
  next
    case False
    then show thesis using that flushChain_reach [OF Cons.prems ok, of F] by auto
  qed
  obtain more_facts where rest: "audit_reach s (aw_db (flush_chains s F es cs ?w)) (more_facts @ new @ facts)"
    "set more_facts \<subseteq> (\<Union>c. \<Union>j. entry_fact (fc_clock F c j) ` set es)"
    using Cons.IH [OF new(1)] by blast
  have "set new \<subseteq> (\<Union>c. \<Union>j. entry_fact (fc_clock F c j) ` set es)"
    using new(2) by (fastforce simp: chain_group_def dest: set_zip_rightD)
  then show ?case using rest by (intro exI [of _ "more_facts @ new"]) simp
qed

lemma audit_flush_reach:
  assumes "audit_reach s (aw_db w) facts" "list_all (\<lambda>e. meta_ok (ae_meta e)) es"
  shows "\<exists>facts'. audit_reach s (aw_db (audit_flush s F es w)) facts'"
proof (cases "es = []")
  case False
  then show ?thesis using flush_chains_reach [OF assms, of F "fc_order F"] by (auto simp: audit_flush_def)
qed (use assms in \<open>auto simp: audit_flush_def\<close>)

lemma drain_batches_reach:
  assumes "audit_reach s (aw_db w) facts" "list_all (\<lambda>e. meta_ok (ae_meta e)) ch"
  shows "\<exists>facts'. audit_reach s (aw_db (drain_batches s F k n ch w)) facts'"
  using assms
proof (induction s F k n ch w arbitrary: facts rule: drain_batches.induct)
  case (1 s F k n ch w)
  show ?case
  proof (cases "n = 0 \<or> length ch < n")
    case True
    then show ?thesis using audit_flush_reach [OF 1(2,3)] by (subst drain_batches.simps) simp
  next
    case False
    have parts: "list_all (\<lambda>e. meta_ok (ae_meta e)) (take n ch)" "list_all (\<lambda>e. meta_ok (ae_meta e)) (drop n ch)"
      using 1(3) by (auto simp: list_all_iff dest: in_set_takeD in_set_dropD)
    obtain facts' where "audit_reach s (aw_db (audit_flush s (F k) (take n ch) w)) facts'"
      using audit_flush_reach [OF 1(2) parts(1)] by blast
    then show ?thesis using 1(1) [OF False _ parts(2)] False by (subst drain_batches.simps) simp
  qed
qed

text \<open>The writer under all its events, while others write the same log.\<close>

inductive writer_reach :: "audit_store \<Rightarrow> audit_writer \<Rightarrow> bool" for s where
  start: "audit_reach s db facts \<Longrightarrow> writer_reach s (NewBufferedAuditWriter cap n db)"
| enqueue: "writer_reach s w \<Longrightarrow> meta_ok (ae_meta e) \<Longrightarrow> writer_reach s (fst (audit_Enqueue e w))"
| receive: "writer_reach s w \<Longrightarrow> writer_reach s (writer_receive s F w)"
| tick: "writer_reach s w \<Longrightarrow> writer_reach s (writer_tick s F w)"
| shutdown: "writer_reach s w \<Longrightarrow> writer_reach s (drainRemaining s Fs w)"
| others: "writer_reach s w \<Longrightarrow> audit_reach s db facts \<Longrightarrow> writer_reach s (w\<lparr>aw_db := db\<rparr>)"

definition writer_inv :: "audit_store \<Rightarrow> audit_writer \<Rightarrow> bool" where
  "writer_inv s w \<longleftrightarrow> (\<exists>facts. audit_reach s (aw_db w) facts) \<and> list_all (\<lambda>e. meta_ok (ae_meta e)) (aw_ch w @ aw_hand w) \<and>
     length (aw_ch w) \<le> aw_cap w"

lemma flush_keeps [simp]:
  "aw_ch (flush_chains s F es cs w) = aw_ch w" "aw_hand (flush_chains s F es cs w) = aw_hand w"
  "aw_cap (flush_chains s F es cs w) = aw_cap w" "aw_dropped (flush_chains s F es cs w) = aw_dropped w"
  by (induction cs arbitrary: w) (auto simp: flushChain_def split: prod.splits option.splits)

lemma audit_flush_keeps [simp]:
  "aw_ch (audit_flush s F es w) = aw_ch w" "aw_hand (audit_flush s F es w) = aw_hand w"
  "aw_cap (audit_flush s F es w) = aw_cap w" "aw_dropped (audit_flush s F es w) = aw_dropped w"
  by (simp_all add: audit_flush_def)

lemma writer_reach_inv: "writer_reach s w \<Longrightarrow> writer_inv s w"
proof (induction rule: writer_reach.induct)
  case (start db facts cap n)
  then show ?case by (auto simp: writer_inv_def NewBufferedAuditWriter_def)
next
  case (enqueue w e)
  then show ?case by (auto simp: writer_inv_def audit_Enqueue_def)
next
  case (receive w F)
  show ?case
  proof (cases "aw_ch w")
    case (Cons e rest)
    let ?w1 = "w\<lparr>aw_ch := rest, aw_hand := aw_hand w @ [e]\<rparr>"
    have ok: "\<exists>facts. audit_reach s (aw_db ?w1) facts" "list_all (\<lambda>e. meta_ok (ae_meta e)) (aw_hand w @ [e])"
      using receive.IH Cons by (auto simp: writer_inv_def)
    then have "\<exists>facts. audit_reach s (aw_db (audit_flush s F (aw_hand w @ [e]) ?w1)) facts"
      using audit_flush_reach by blast
    then show ?thesis using receive.IH Cons ok by (auto simp: writer_inv_def writer_receive_def Let_def)
  qed (use receive in \<open>simp add: writer_receive_def\<close>)
next
  case (tick w F)
  then have "\<exists>facts. audit_reach s (aw_db (audit_flush s F (aw_hand w) w)) facts"
    using audit_flush_reach by (fastforce simp: writer_inv_def)
  then show ?case using tick by (auto simp: writer_inv_def writer_tick_def)
next
  case (shutdown w Fs)
  then obtain facts where "audit_reach s (aw_db (audit_flush s (Fs 0) (aw_hand w) w)) facts"
    using audit_flush_reach by (fastforce simp: writer_inv_def)
  then have "\<exists>facts. audit_reach s (aw_db (drain_batches s Fs 1 (aw_batchSize w) (aw_ch w) (audit_flush s (Fs 0) (aw_hand w) w))) facts"
    using shutdown by (intro drain_batches_reach) (auto simp: writer_inv_def)
  then show ?case by (auto simp: writer_inv_def drainRemaining_def)
next
  case (others w db facts)
  then show ?case by (auto simp: writer_inv_def)
qed

text \<open>The asynchronous writer never breaks a chain.\<close>

lemma async_audit_keeps_chains:
  "writer_reach s w \<Longrightarrow> \<exists>res. VerifyChain s None (\<lambda>_. None) (\<lambda>_. None) (aw_db w) None = Inr res \<and> OK res"
  using writer_reach_inv audit_reach_inv chains_ok_verify unfolding writer_inv_def audit_inv_def by blast

text \<open>Retention breaks a full verification: when it deletes the first row of a chain and keeps the second, the walk
  reports a genesis mismatch at the second row (unless the first row hashes to the root).\<close>

lemma cleanup_breaks_chain:
  assumes "chains_ok s db" "chain_rows c None db = r1 # r2 # rest" "row_hash s r1 \<noteq> genesisRoot"
    and "ar_created r1 < clock - olderThan" "\<forall>r \<in> set (r2 # rest). clock - olderThan \<le> ar_created r"
    and "c \<in> set (map fst (chain_heads db))"
  shows "verifyOneChain s (\<lambda>_. None) (\<lambda>_. None) (fst (audit_Cleanup True None clock olderThan db)) None c =
     Inr (chain_broken 0 (ar_id r2) ''genesis anchor mismatch'' genesisRoot (row_hash s r1))"
proof -
  let ?old = "\<lambda>r. ar_created r < clock - olderThan"
  obtain h where h: "(c, h) \<in> set (chain_heads db)" using assms(6) by auto
  have rows: "filter (\<lambda>r. ar_chain r = c) (audit_log db) = r1 # r2 # rest"
    using assms(2) sorted_ids_chain [OF assms(1)] by simp
  then have link: "linked s genesisRoot (r1 # r2 # rest) h" using assms(1) h unfolding chains_ok_def by fastforce
  have ids: "sorted (map ar_id (audit_log db))" using assms(1) by (simp add: chains_ok_def strict_sorted_imp_sorted)
  have "filter (\<lambda>r. ar_chain r = c \<and> \<not> ?old r) (audit_log db) = filter (\<lambda>r. \<not> ?old r) (r1 # r2 # rest)"
    unfolding rows [symmetric] by (simp add: conj_commute)
  also have "\<dots> = r2 # rest" using assms(4,5) by (auto simp: not_less intro: filter_True)
  finally have kept: "filter (\<lambda>r. ar_chain r = c \<and> \<not> ?old r) (audit_log db) = r2 # rest" .
  have "chain_rows c None (fst (audit_Cleanup True None clock olderThan db)) = sort_key ar_id (r2 # rest)"
    unfolding kept [symmetric] by (simp add: chain_rows_def audit_Cleanup_def Let_def conj_commute)
  also have "\<dots> = r2 # rest" unfolding kept [symmetric] by (rule sort_key_id_if_sorted) (rule sorted_filter [OF ids])
  finally show ?thesis using link assms(3) by (simp add: verifyOneChain_def)
qed

section \<open>Properties\<close>

text \<open>C29. A command audited in its transaction is recorded if and only if it commits. When \<open>Transaction(Audit(h))\<close>
  returns an error, neither the command's state nor the audit tables changed; when it succeeds, the command's handler
  succeeded with that result and its state was kept together with exactly one new row, in the chain of the actor, that
  names actor, action, subject, time and tenant. \<open>DurableAudit\<close> gives the same with a staged row.\<close>

theorem audited_command_atomic:
  assumes "chains_ok (ac_store a) (snd (fst (h cmd s)))" "\<forall>t. ac_tenant a = Some t \<longrightarrow> utf8_coerce t = t"
  shows "(case Transaction b k (Audit a action subj h) cmd s of
       (s', Inl e) \<Rightarrow> s' = s
     | (s', Inr r) \<Rightarrow> snd (h cmd s) = Inr r \<and> fst s' = fst (fst (h cmd s)) \<and>
         appended (ac_store a) (chainIDFor (ac_store a) (actorFrom (ac_principal a)))
           [entry_fact (ac_clock a) (audited_entry (ac_principal a) (ac_tenant a) action (subj cmd))] (snd (fst (h cmd s))) (snd s')) \<and>
   (case Transaction b k (DurableAudit a action subj h) cmd s of
       (s', Inl e) \<Rightarrow> s' = s
     | (s', Inr r) \<Rightarrow> snd (h cmd s) = Inr r \<and> fst s' = fst (fst (h cmd s)) \<and>
         audit_log (snd s') = audit_log (snd (fst (h cmd s))) \<and>
         map pending_fact (audit_pending (snd s')) = map pending_fact (audit_pending (snd (fst (h cmd s)))) @
           [entry_fact (ac_clock a) (audited_entry (ac_principal a) (ac_tenant a) action (subj cmd))])"
proof (intro conjI)
  let ?e = "audited_entry (ac_principal a) (ac_tenant a) action (subj cmd)"
  have meta: "meta_ok (ae_meta ?e)" using assms(2) by (rule audited_entry_meta)
  obtain own db hres where h: "h cmd s = ((own, db), hres)" by (metis prod.collapse)
  show "case Transaction b k (Audit a action subj h) cmd s of
       (s', Inl e) \<Rightarrow> s' = s
     | (s', Inr r) \<Rightarrow> snd (h cmd s) = Inr r \<and> fst s' = fst (fst (h cmd s)) \<and>
         appended (ac_store a) (chainIDFor (ac_store a) (actorFrom (ac_principal a))) [entry_fact (ac_clock a) ?e] (snd (fst (h cmd s))) (snd s')"
  proof (cases "Transaction b k (Audit a action subj h) cmd s")
    case (Pair s' res)
    show ?thesis
    proof (cases res)
      case (Inl e)
      then show ?thesis using Pair Transaction_Inl by auto
    next
      case (Inr r)
      then have "Audit a action subj h cmd s = (s', Inr r)" using Pair by (simp add: Transaction_Inr)
      then obtain db' where "hres = Inr r" "Record (ac_store a) (ac_faults a) (ac_clock a) ?e db = (db', None)" "s' = (own, db')"
        by (auto simp: Audit_def h split: sum.splits prod.splits option.splits)
      then show ?thesis using Pair Inr h assms(1) Record_appends [OF _ _ meta] by auto
    qed
  qed
  show "case Transaction b k (DurableAudit a action subj h) cmd s of
       (s', Inl e) \<Rightarrow> s' = s
     | (s', Inr r) \<Rightarrow> snd (h cmd s) = Inr r \<and> fst s' = fst (fst (h cmd s)) \<and>
         audit_log (snd s') = audit_log (snd (fst (h cmd s))) \<and>
         map pending_fact (audit_pending (snd s')) = map pending_fact (audit_pending (snd (fst (h cmd s)))) @ [entry_fact (ac_clock a) ?e]"
  proof (cases "Transaction b k (DurableAudit a action subj h) cmd s")
    case (Pair s' res)
    show ?thesis
    proof (cases res)
      case (Inl e)
      then show ?thesis using Pair Transaction_Inl by auto
    next
      case (Inr r)
      then have "DurableAudit a action subj h cmd s = (s', Inr r)" using Pair by (simp add: Transaction_Inr)
      then obtain db' where "hres = Inr r" "InsertPending (ac_store a) (ac_stage a) (ac_clock a) ?e db = (db', None)" "s' = (own, db')"
        by (auto simp: DurableAudit_def h split: sum.splits prod.splits option.splits)
      then show ?thesis using Pair Inr h InsertPending_fact [OF _ meta] by auto
    qed
  qed
qed


definition sample_call :: audit_call where
  "sample_call = \<lparr>ac_store = plain_store, ac_faults = no_audit_faults, ac_stage = None, ac_clock = 7000,
     ac_principal = Some \<lparr>p_subject = ''ann'', p_username = '''', p_roles = [''user'']\<rparr>, ac_tenant = Some ''t''\<rparr>"

definition count_command :: "(string, nat, nat) command" where
  "count_command cmd s = ((fst s + 1, snd s), Inr (fst s))"

theorem audited_command_atomic_witness:
  "(case Transaction None None (Audit sample_call ''a'' id count_command) ''x'' (0, audit_empty) of
       (s', Inl e) \<Rightarrow> s' = (0, audit_empty)
     | (s', Inr r) \<Rightarrow> snd (count_command ''x'' (0, audit_empty)) = Inr r \<and> fst s' = fst (fst (count_command ''x'' (0, audit_empty))) \<and>
         appended (ac_store sample_call) (chainIDFor (ac_store sample_call) (actorFrom (ac_principal sample_call)))
           [entry_fact (ac_clock sample_call) (audited_entry (ac_principal sample_call) (ac_tenant sample_call) ''a'' (id ''x''))]
           (snd (fst (count_command ''x'' (0, audit_empty)))) (snd s'))"
proof (rule audited_command_atomic [THEN conjunct1])
  show "chains_ok (ac_store sample_call) (snd (fst (count_command ''x'' (0, audit_empty))))"
    using audit_reach_inv [OF audit_reach.start] by (simp add: audit_inv_def sample_call_def count_command_def)
  show "\<forall>t. ac_tenant sample_call = Some t \<longrightarrow> utf8_coerce t = t"
    by (simp add: sample_call_def utf8_coerce.simps in_range_def byte_def)
qed

end
