(* ===== verification/Gateway_Api.thy ===== *)
theory Gateway_Api
  imports Order_Listing Audit_Writer
begin

text \<open>
  \<open>examples/gateway/internal/api/server.go\<close> with \<open>validate.go\<close> and \<open>timezone.go\<close>: the HTTP operations of the gateway, on the
  read model, the audit tables, the commands topic and the batcher of pending rows. The principal is the one the
  authentication middleware put into the request context. \<open>getOrderHandler\<close> and \<open>listOrdersHandler\<close> are the handlers of
  \<open>internal/app\<close>, without the cache. Arguments stand for the UUID generator, the payload encoder, the struct validator,
  the time zone database and the outcomes of the database and the broker.
\<close>

section \<open>State and surroundings\<close>

record api_state =
  api_reads :: "read_row list list"
  api_audits :: "audit_db list"
  api_produced :: "kafka_record list"
  api_batcher :: "batcher option"

record create_body =
  cb_customer :: string
  cb_cents :: int
  cb_currency :: string

type_synonym field_error = "string \<times> string \<times> string"

record 'loc api_env =
  authDisabled :: bool
  e_reg :: code_registry
  commandsTopic :: string
  e_store :: audit_store
  e_oob :: "bool \<times> go_err option \<times> go_err option \<times> audit_faults \<times> int"
  e_read :: read_env
  e_shard_err :: "go_err option"
  e_uuid5 :: "string \<Rightarrow> string"
  e_uuid4 :: string
  e_validate :: "string \<times> create_body \<Rightarrow> field_error list"
  e_encode :: "string \<times> create_body \<Rightarrow> (go_err, string) result"
  e_produce :: "kafka_record \<Rightarrow> nat \<times> go_err option"
  e_pending_err :: "go_err option"
  e_roles_json :: "string list \<Rightarrow> string"
  e_list :: "cursor_text \<times> go_err option \<times> (nat \<Rightarrow> go_err option)"
  e_location :: "string \<Rightarrow> (go_err, 'loc) result"
  e_format :: "int \<Rightarrow> string"
  e_format_local :: "int \<Rightarrow> 'loc \<Rightarrow> string"
  e_query_err :: "go_err option"
  e_json_text :: "json \<Rightarrow> string"
  e_verify_err :: "nat \<Rightarrow> go_err option \<times> (int \<Rightarrow> go_err option) \<times> (int \<Rightarrow> go_err option)"

datatype api_error =
    ApiNotFound string
  | ApiErr go_err
  | ApiList list_error
  | ApiValidation "field_error list"
  | ApiBodyMismatch
  | ApiTimezone string

definition AdminRole :: string where "AdminRole = ''admin''"

definition rbacPolicy :: rbac where
  "rbacPolicy = [''order:create'' \<mapsto> [''user'', AdminRole]]"

section \<open>timezone.go\<close>

definition parseTimezone :: "'loc api_env \<Rightarrow> string option \<Rightarrow> (api_error, 'loc option) result" where
  "parseTimezone E header =
     (case header of
        None \<Rightarrow> Inr None
      | Some name \<Rightarrow>
          if name = '''' then Inr None
          else if name = ''Local'' then Inl (ApiTimezone name)
          else (case e_location E name of Inl _ \<Rightarrow> Inl (ApiTimezone name) | Inr loc \<Rightarrow> Inr (Some loc)))"

section \<open>Audit of the edge\<close>

fun space_join :: "string list \<Rightarrow> string" where
  "space_join [] = ''''"
| "space_join [x] = x"
| "space_join (x # xs) = x @ '' '' @ space_join xs"

text \<open>The audit store is bound to shard 0; a failed write is only logged.\<close>

definition record_event :: "'loc api_env \<Rightarrow> audit_entry \<Rightarrow> api_state \<Rightarrow> api_state" where
  "record_event E e st =
     (case (e_oob E, api_audits st) of
        (_, []) \<Rightarrow> st
      | ((allowed, b, k, f, clock), db # dbs) \<Rightarrow>
          st\<lparr>api_audits := fst (RecordOutOfBand (e_store E) allowed b k f clock e db) # dbs\<rparr>)"

definition auditDenial :: "'loc api_env \<Rightarrow> Principal \<Rightarrow> string \<Rightarrow> string \<Rightarrow> api_state \<Rightarrow> api_state" where
  "auditDenial E p action subject st =
     (if authDisabled E then st
      else record_event E
        \<lparr>ae_actor = p_subject p, ae_action = ActionAuthzDenied, ae_subject = subject,
         ae_meta = Some ((''denied_action'', action) #
           (if p_roles p \<noteq> [] then [(''roles'', ''['' @ space_join (p_roles p) @ '']'')] else [])),
         ae_at = None\<rparr> st)"

definition ActionAuditRead :: string where "ActionAuditRead = ''audit.read''"
definition ActionAuditVerify :: string where "ActionAuditVerify = ''audit.verify''"

definition auditAdminRead :: "'loc api_env \<Rightarrow> Principal \<Rightarrow> string \<Rightarrow> string \<Rightarrow> api_state \<Rightarrow> api_state" where
  "auditAdminRead E p action subject st =
     (if authDisabled E then st
      else record_event E \<lparr>ae_actor = p_subject p, ae_action = action, ae_subject = subject, ae_meta = None, ae_at = None\<rparr> st)"

section \<open>validate.go\<close>

definition allowedCurrencies :: "string list" where
  "allowedCurrencies =
     [''USD'', ''EUR'', ''GBP'', ''UAH'', ''PLN'', ''JPY'', ''CHF'', ''CAD'', ''AUD'', ''NZD'',
      ''SEK'', ''NOK'', ''DKK'', ''CZK'', ''HUF'', ''RON'', ''BGN'', ''TRY'', ''ILS'', ''SGD'']"

text \<open>\<open>strings.ToUpper\<close>, on the ASCII range; a text of three bytes outside it is not in the list either way.\<close>

definition upper_char :: "char \<Rightarrow> char" where
  "upper_char c = (if 97 \<le> byte c \<and> byte c \<le> 122 then to_byte (byte c - 32) else c)"

definition validateCreateOrderCommand :: "'loc api_env \<Rightarrow> string \<Rightarrow> create_body \<Rightarrow> api_error option" where
  "validateCreateOrderCommand E orderID body =
     (let shape = e_validate E (orderID, body);
          cur = cb_currency body;
          iso = (if cur \<noteq> '''' \<and> length cur = 3 \<and> cur = map upper_char cur \<and> cur \<notin> set allowedCurrencies
                 then [(''currency'', ''iso4217'', '''')] else [])
      in if shape @ iso \<noteq> [] then Some (ApiValidation (shape @ iso)) else None)"

section \<open>CreateOrder\<close>

definition CreateOrderCommandEventType :: string where
  "CreateOrderCommandEventType = EventTypeFor ''orders.v1.CreateOrderCommand'' 1"

definition idempotency_seed :: "Principal option \<Rightarrow> string \<Rightarrow> string" where
  "idempotency_seed po key =
     (case po of
        Some p \<Rightarrow> if p_subject p \<noteq> '''' then p_subject p @ CHR 0x00 # key else key
      | None \<Rightarrow> key)"

definition rejectIdempotentBodyMismatch :: "'loc api_env \<Rightarrow> string \<Rightarrow> create_body \<Rightarrow> api_state \<Rightarrow> api_error option" where
  "rejectIdempotentBodyMismatch E orderID body st =
     (case re_parse (e_read E) orderID of
        Inl e \<Rightarrow> Some (ApiErr (ErrWrap ''gateway: parse derived order id'' e))
      | Inr x \<Rightarrow>
          if e_shard_err E \<noteq> None \<or> re_err (e_read E) \<noteq> None then None
          else (case row_of (api_reads st ! Resolve (api_reads st) orderID) x of
                  None \<Rightarrow> None
                | Some r \<Rightarrow>
                    if rd_customer r = '''' \<and> rd_currency r = '''' \<and> rd_cents r = 0 then None
                    else if rd_customer r \<noteq> cb_customer body \<or> rd_cents r \<noteq> cb_cents body \<or> rd_currency r \<noteq> cb_currency body
                    then Some ApiBodyMismatch
                    else None))"

definition command_record :: "'loc api_env \<Rightarrow> Principal option \<Rightarrow> string \<Rightarrow> string \<Rightarrow> kafka_record" where
  "command_record E po orderID payload =
     (let headers = [HeaderMessageID \<mapsto> orderID, HeaderEventType \<mapsto> CreateOrderCommandEventType, HeaderCorrelationID \<mapsto> orderID];
          ctx = background\<lparr>principal := map_option (\<lambda>p. (p_subject p, p_roles p)) po\<rparr>
      in \<lparr>Topic = commandsTopic E, Key = orderID, Value = payload,
          Headers = auth_InjectHeaders (e_roles_json E) ctx headers, Partition = 0, Offset = 0\<rparr>)"

text \<open>The pending row, through the batcher when there is one; a failure is only logged.\<close>

definition insert_pending :: "'loc api_env \<Rightarrow> string \<Rightarrow> string \<Rightarrow> create_body \<Rightarrow> api_state \<Rightarrow> api_state" where
  "insert_pending E orderID x body st =
     (let row = (x, cb_customer body, cb_cents body, cb_currency body)
      in case api_batcher st of
           Some b \<Rightarrow> st\<lparr>api_batcher := Some (batcher_Enqueue row b)\<rparr>
         | None \<Rightarrow>
             if e_shard_err E \<noteq> None \<or> e_pending_err E \<noteq> None then st
             else (let i = Resolve (api_reads st) orderID
                   in st\<lparr>api_reads := (api_reads st)[i := InsertPendingOrder (re_now (e_read E)) row (api_reads st ! i)]\<rparr>))"

definition authorize_create :: "'loc api_env \<Rightarrow> Principal option \<Rightarrow> api_state \<Rightarrow> api_state \<times> api_error option" where
  "authorize_create E po st =
     (if authDisabled E then (st, None)
      else (case po of
              None \<Rightarrow> (st, Some (ApiErr (ErrUnauthenticated (e_reg E))))
            | Some p \<Rightarrow>
                (case rbac_Authorize (e_reg E) rbacPolicy p ''order:create'' of
                   Some err \<Rightarrow> (auditDenial E p ''order:create'' '''' st, Some (ApiErr err))
                 | None \<Rightarrow> (st, None))))"

text \<open>The broker stores the record once per attempt that reached it, and the attempts end with the given outcome.\<close>

definition CreateOrder ::
  "'loc api_env \<Rightarrow> Principal option \<Rightarrow> string option \<Rightarrow> create_body option \<Rightarrow> api_state \<Rightarrow> api_state \<times> (api_error, string) result" where
  "CreateOrder E po key body_opt st =
     (case body_opt of
        None \<Rightarrow> (st, Inl (ApiErr (ErrText ''missing request body'')))
      | Some body \<Rightarrow>
          (case authorize_create E po st of
             (st1, Some err) \<Rightarrow> (st1, Inl err)
           | (st1, None) \<Rightarrow>
               (let hasIdempotencyKey = (key \<noteq> None \<and> key \<noteq> Some '''');
                    orderID = (if hasIdempotencyKey then e_uuid5 E (idempotency_seed po (the key)) else e_uuid4 E)
                in case validateCreateOrderCommand E orderID body of
                     Some err \<Rightarrow> (st1, Inl err)
                   | None \<Rightarrow>
                       (case (if hasIdempotencyKey then rejectIdempotentBodyMismatch E orderID body st1 else None) of
                          Some err \<Rightarrow> (st1, Inl err)
                        | None \<Rightarrow>
                            (case e_encode E (orderID, body) of
                               Inl err \<Rightarrow> (st1, Inl (ApiErr (ErrWrap ''gateway: marshal command'' err)))
                             | Inr payload \<Rightarrow>
                                 (let rec = command_record E po orderID payload
                                  in case e_produce E rec of
                                       (copies, perr) \<Rightarrow>
                                         (let st2 = st1\<lparr>api_produced := api_produced st1 @ replicate copies rec\<rparr>
                                          in case perr of
                                               Some err \<Rightarrow> (st2, Inl (ApiErr (ErrWrap ''gateway: produce command'' err)))
                                             | None \<Rightarrow>
                                                 (case re_parse (e_read E) orderID of
                                                    Inl err \<Rightarrow> (st2, Inl (ApiErr (ErrWrap ''gateway: parse generated order id'' err)))
                                                  | Inr x \<Rightarrow> (insert_pending E orderID x body st2, Inr orderID)))))))))"

section \<open>Reads\<close>

record order_response =
  or_id :: string
  or_status :: string
  or_cents :: int
  or_currency :: string
  or_created :: string
  or_local :: "string option"

definition order_response_of :: "'loc api_env \<Rightarrow> 'loc option \<Rightarrow> order_view \<Rightarrow> order_response" where
  "order_response_of E loc v =
     \<lparr>or_id = v_order v, or_status = v_status v, or_cents = v_cents v, or_currency = v_currency v,
      or_created = e_format E (v_created v), or_local = map_option (e_format_local E (v_created v)) loc\<rparr>"

definition GetOrder :: "'loc api_env \<Rightarrow> Principal option \<Rightarrow> string option \<Rightarrow> string \<Rightarrow> api_state \<Rightarrow> api_state \<times> (api_error, order_response) result" where
  "GetOrder E po tz orderId st =
     (case parseTimezone E tz of
        Inl err \<Rightarrow> (st, Inl err)
      | Inr loc \<Rightarrow>
          (case GetOrderHandler (e_read E) (e_shard_err E) orderId (api_reads st) of
             OrderNotFound _ \<Rightarrow> (st, Inl (ApiNotFound orderId))
           | GetFailed e \<Rightarrow> (st, Inl (ApiErr (ErrWrap ''gateway: get order'' e)))
           | Found view \<Rightarrow>
               if authDisabled E then (st, Inr (order_response_of E loc view))
               else (case po of
                       None \<Rightarrow> (st, Inl (ApiErr (ErrUnauthenticated (e_reg E))))
                     | Some p \<Rightarrow>
                         if AdminRole \<notin> set (p_roles p) \<and> v_customer view \<noteq> p_subject p
                         then (auditDenial E p ''order:read'' orderId st, Inl (ApiNotFound orderId))
                         else (st, Inr (order_response_of E loc view)))))"

record list_params =
  lp_cursor :: "string option"
  lp_limit :: "int option"
  lp_timezone :: "string option"

record list_response =
  lr_items :: "order_response list"
  lr_next :: "string option"

definition ListOrders :: "'loc api_env \<Rightarrow> Principal option \<Rightarrow> list_params \<Rightarrow> api_state \<Rightarrow> (api_error, list_response) result" where
  "ListOrders E po req st =
     (case parseTimezone E (lp_timezone req) of
        Inl err \<Rightarrow> Inl err
      | Inr loc \<Rightarrow>
          (let q = \<lparr>Cursor = (case lp_cursor req of None \<Rightarrow> '''' | Some c \<Rightarrow> c),
                    Limit = (case lp_limit req of None \<Rightarrow> 0 | Some n \<Rightarrow> n), CustomerID = ''''\<rparr>;
               scoped = (if authDisabled E then Inr q
                         else (case po of
                                 None \<Rightarrow> Inl (ApiErr (ErrUnauthenticated (e_reg E)))
                               | Some p \<Rightarrow> if AdminRole \<in> set (p_roles p) then Inr q else Inr (q\<lparr>CustomerID := p_subject p\<rparr>)))
           in case scoped of
                Inl err \<Rightarrow> Inl err
              | Inr q' \<Rightarrow>
                  (case e_list E of (T, cancelled, errs) \<Rightarrow>
                     (case ListOrdersHandler T cancelled errs (api_reads st) q' of
                        Inl e \<Rightarrow> Inl (ApiList e)
                      | Inr page \<Rightarrow>
                          Inr \<lparr>lr_items = map (order_response_of E loc) (Items page),
                               lr_next = (if NextCursor page \<noteq> '''' then Some (NextCursor page) else None)\<rparr>))))"

section \<open>The audit endpoints\<close>

definition auditDefaultLimit :: int where "auditDefaultLimit = 50"
definition auditMaxLimit :: int where "auditMaxLimit = 500"

definition require_admin :: "'loc api_env \<Rightarrow> Principal option \<Rightarrow> string \<Rightarrow> string \<Rightarrow> string \<Rightarrow> api_state \<Rightarrow> api_state \<times> api_error option" where
  "require_admin E po denied read subject st =
     (if authDisabled E then (st, None)
      else (case po of
              None \<Rightarrow> (st, Some (ApiErr (ErrUnauthenticated (e_reg E))))
            | Some p \<Rightarrow>
                if AdminRole \<notin> set (p_roles p) then (auditDenial E p denied subject st, Some (ApiErr (ErrForbidden (e_reg E))))
                else (auditAdminRead E p read subject st, None)))"

definition QueryAudit :: "'loc api_env \<Rightarrow> Principal option \<Rightarrow> string \<Rightarrow> int option \<Rightarrow> int option \<Rightarrow> api_state \<Rightarrow> api_state \<times> (api_error, audit_entry list) result" where
  "QueryAudit E po actor since limit st =
     (case require_admin E po ''audit:read'' ActionAuditRead actor st of
        (st1, Some err) \<Rightarrow> (st1, Inl err)
      | (st1, None) \<Rightarrow>
          (let lim = (case limit of None \<Rightarrow> auditDefaultLimit | Some n \<Rightarrow> min (max n 1) auditMaxLimit)
           in case audit_Query (e_json_text E) (e_query_err E) actor since lim (api_audits st1 ! 0) of
                Inl e \<Rightarrow> (st1, Inl (ApiErr (ErrWrap ''gateway: query audit'' e)))
              | Inr entries \<Rightarrow> (st1, Inr entries)))"

fun verify_shards ::
  "'loc api_env \<Rightarrow> int option \<Rightarrow> nat \<Rightarrow> nat \<Rightarrow> (nat \<times> ChainResult) option \<Rightarrow> audit_db list
     \<Rightarrow> (go_err, nat \<times> (nat \<times> ChainResult) option) result" where
  "verify_shards E since idx rows firstBreak [] = Inr (rows, firstBreak)"
| "verify_shards E since idx rows firstBreak (db # dbs) =
     (case e_verify_err E idx of (chains_err, walk_err, tip_err) \<Rightarrow>
        (case VerifyChain (e_store E) chains_err walk_err tip_err db since of
           Inl e \<Rightarrow> Inl (ErrWrap (''shard '' @ itoa (int idx)) e)
         | Inr res \<Rightarrow>
             verify_shards E since (idx + 1) (rows + Verified res)
               (if \<not> OK res \<and> firstBreak = None then Some (idx, res) else firstBreak) dbs))"

definition verifyAuditAllShards :: "'loc api_env \<Rightarrow> int option \<Rightarrow> api_state \<Rightarrow> (go_err, ChainResult) result" where
  "verifyAuditAllShards E since st =
     (case verify_shards E since 0 0 None (api_audits st) of
        Inl e \<Rightarrow> Inl e
      | Inr (rows, None) \<Rightarrow> Inr \<lparr>OK = True, Verified = rows, BreakID = 0, ExpectedHash = '''', GotHash = '''', Reason = ''''\<rparr>
      | Inr (rows, Some (i, res)) \<Rightarrow>
          Inr (res\<lparr>Verified := rows,
                   Reason := (if length (api_audits st) = 1 then Reason res else ''shard '' @ itoa (int i) @ '': '' @ Reason res)\<rparr>))"

definition VerifyAudit :: "'loc api_env \<Rightarrow> Principal option \<Rightarrow> int option \<Rightarrow> api_state \<Rightarrow> api_state \<times> (api_error, ChainResult) result" where
  "VerifyAudit E po since st =
     (case require_admin E po ''audit:verify'' ActionAuditVerify '''' st of
        (st1, Some err) \<Rightarrow> (st1, Inl err)
      | (st1, None) \<Rightarrow>
          (case verifyAuditAllShards E since st1 of
             Inl e \<Rightarrow> (st1, Inl (ApiErr (ErrWrap ''gateway: verify audit chain'' e)))
           | Inr res \<Rightarrow> (st1, Inr res)))"

section \<open>Lemmas\<close>

text \<open>What a principal that is not an administrator may see: its own rows of the read model.\<close>

definition own_rows :: "Principal \<Rightarrow> api_state \<Rightarrow> api_state" where
  "own_rows p st = st\<lparr>api_reads := map (filter (\<lambda>r. rd_customer r = p_subject p)) (api_reads st)\<rparr>"

lemma row_of_filter:
  assumes "distinct (map rd_id rows)"
  shows "row_of (filter P rows) x = (case row_of rows x of None \<Rightarrow> None | Some r \<Rightarrow> if P r then Some r else None)"
  using assms
proof (induction rows)
  case (Cons r rows)
  have "row_of rows x = None" if "rd_id r = x"
    using Cons.prems that unfolding row_of_def find_None_iff by (metis distinct.simps(2) image_eqI list.simps(9) set_map)
  then show ?case using Cons by (auto simp: row_of_def)
qed (simp add: row_of_def)

lemma Resolve_own: "Resolve (api_reads (own_rows p st)) q = Resolve (api_reads st) q"
  by (rule Resolve_length) (simp add: own_rows_def)

lemma get_order_own:
  assumes "api_reads st \<noteq> []" "list_all (\<lambda>rows. distinct (map rd_id rows)) (api_reads st)"
    and "\<not> authDisabled E" "AdminRole \<notin> set (p_roles p)"
  shows "snd (GetOrder E (Some p) tz i (own_rows p st)) = snd (GetOrder E (Some p) tz i st)"
proof -
  let ?j = "Resolve (api_reads st) i"
  have j: "?j < length (api_reads st)" using assms(1) by (rule Resolve_less)
  then have "distinct (map rd_id (api_reads st ! ?j))" using assms(2) by (simp add: list_all_length)
  then have "row_of (api_reads (own_rows p st) ! Resolve (api_reads (own_rows p st)) i) x =
      (case row_of (api_reads st ! ?j) x of None \<Rightarrow> None | Some r \<Rightarrow> if rd_customer r = p_subject p then Some r else None)" for x
    using j row_of_filter unfolding Resolve_own by (simp add: own_rows_def)
  then show ?thesis using assms(3,4)
    by (auto simp: GetOrder_def GetOrderHandler_def to_view_def split: sum.splits option.splits)
qed

lemma query_page_own:
  "s \<noteq> '''' \<Longrightarrow> queryShardPage err s pos n (filter (\<lambda>r. rd_customer r = s) rows) = queryShardPage err s pos n rows"
proof -
  assume "s \<noteq> ''''"
  then have "filter (\<lambda>r. matches s r \<and> after_pos pos r) (filter (\<lambda>r. rd_customer r = s) rows) = filter (\<lambda>r. matches s r \<and> after_pos pos r) rows"
    by (auto simp: matches_def intro: filter_cong)
  then show ?thesis unfolding queryShardPage_def by (simp only:)
qed

text \<open>The fan-out of the listing looks only at the pages it fetched and at the errors.\<close>

lemma fan_out_own:
  assumes "s \<noteq> ''''"
  shows "map snd (fst (ForEachShard c (page_of errs s positions n) (map (\<lambda>rows. (rows, [])) (map (filter (\<lambda>r. rd_customer r = s)) dbs)))) =
      map snd (fst (ForEachShard c (page_of errs s positions n) (map (\<lambda>rows. (rows, [])) dbs))) \<and>
    snd (ForEachShard c (page_of errs s positions n) (map (\<lambda>rows. (rows, [])) (map (filter (\<lambda>r. rd_customer r = s)) dbs))) =
      snd (ForEachShard c (page_of errs s positions n) (map (\<lambda>rows. (rows, [])) dbs))"
proof (cases c)
  case None
  let ?f = "page_of errs s positions n" and ?own = "filter (\<lambda>r. rd_customer r = s)"
  have eq: "snd (fst (?f i (?own rows, []))) = snd (fst (?f i (rows, [])))" "snd (?f i (?own rows, [])) = snd (?f i (rows, []))" for i rows
    using query_page_own [OF assms] by (auto simp: page_of_def split: sum.splits)
  have zips: "zip [0..<length dbs] (map (\<lambda>rows. (?own rows, [])) dbs) = map (\<lambda>(i, rows). (i, (?own rows, []))) (zip [0..<length dbs] dbs)"
    "zip [0..<length dbs] (map (\<lambda>rows. (rows, [])) dbs) = map (\<lambda>(i, rows). (i, (rows, []))) (zip [0..<length dbs] dbs)"
    by (simp_all add: zip_map2)
  show ?thesis
    unfolding None ForEachShard_def option.case Let_def map_map length_map comp_def zips
    by (auto simp: case_prod_beta eq comp_def)
qed (simp add: ForEachShard_def comp_def)

lemma list_handler_own:
  assumes "CustomerID q \<noteq> ''''"
  shows "ListOrdersHandler T c errs (map (filter (\<lambda>r. rd_customer r = CustomerID q)) dbs) q = ListOrdersHandler T c errs dbs q"
proof (cases "length dbs = 1")
  case True
  then obtain db where "dbs = [db]" by (cases dbs) auto
  then show ?thesis using query_page_own [OF assms]
    by (simp add: ListOrdersHandler_def listSingleShard_def cong: sum.case_cong)
next
  case False
  have "listScatterGather T c errs (map (filter (\<lambda>r. rd_customer r = CustomerID q)) dbs) q n = listScatterGather T c errs dbs q n" for n
    using fan_out_own [OF assms, of c errs _ n dbs]
    by (auto simp: listScatterGather_def case_prod_beta split: sum.splits option.splits)
  then show ?thesis using False by (simp add: ListOrdersHandler_def Let_def)
qed

section \<open>Creating orders\<close>

lemma CreateOrder_cases:
  assumes "CreateOrder E po key body_opt st = (st', res)"
  shows "api_produced st' = api_produced st \<or>
     (\<exists>body payload n.
        body_opt = Some body \<and>
        api_produced st' = api_produced st @
          replicate n (command_record E po (if key \<noteq> None \<and> key \<noteq> Some '''' then e_uuid5 E (idempotency_seed po (the key)) else e_uuid4 E) payload) \<and>
        e_encode E (if key \<noteq> None \<and> key \<noteq> Some '''' then e_uuid5 E (idempotency_seed po (the key)) else e_uuid4 E, body) = Inr payload \<and>
        snd (authorize_create E po st) = None \<and>
        (key \<noteq> None \<and> key \<noteq> Some '''' \<longrightarrow> rejectIdempotentBodyMismatch E (e_uuid5 E (idempotency_seed po (the key))) body st = None))"
proof -
  have prod_keeps: "api_produced (fst (authorize_create E po st)) = api_produced st"
    by (auto simp: authorize_create_def auditDenial_def record_event_def split: option.splits prod.splits list.splits)
  have same: "fst (authorize_create E po st) = st" if "snd (authorize_create E po st) = None"
    using that by (auto simp: authorize_create_def split: option.splits if_splits)
  have pend: "api_produced (insert_pending E i x b s) = api_produced s" for i x b s
    by (simp add: insert_pending_def Let_def split: option.splits)
  show ?thesis
    using assms prod_keeps same
    by (auto simp: CreateOrder_def Let_def pend split: option.splits prod.splits sum.splits if_splits)
qed

lemma command_record_ids:
  "Key (command_record E po i payload) = i" "Headers (command_record E po i payload) HeaderMessageID = Some i"
  "Headers (command_record E po i payload) HeaderCorrelationID = Some i" "Value (command_record E po i payload) = payload"
  by (auto simp: command_record_def Let_def auth_InjectHeaders_def HeaderMessageID_def HeaderEventType_def HeaderCorrelationID_def
      HeaderPrincipalSub_def HeaderPrincipalRoles_def split: option.splits)

lemma CreateOrder_id:
  assumes "CreateOrder E po (Some k) body_opt st = (st', Inr i)" "k \<noteq> ''''"
  shows "i = e_uuid5 E (idempotency_seed po k)"
  using assms by (auto simp: CreateOrder_def Let_def split: option.splits prod.splits sum.splits if_splits)

lemma CreateOrder_accepted:
  assumes "CreateOrder E po (Some k) (Some body) st = (st', Inr i)" "k \<noteq> ''''"
  shows "rejectIdempotentBodyMismatch E (e_uuid5 E (idempotency_seed po k)) body st = None"
proof -
  have same: "fst (authorize_create E po st) = st" if "snd (authorize_create E po st) = None"
    using that by (auto simp: authorize_create_def split: option.splits if_splits)
  show ?thesis using assms same
    by (auto simp: CreateOrder_def Let_def split: option.splits prod.splits sum.splits if_splits)
qed

lemma mismatch_detected:
  assumes "re_parse (e_read E) i = Inr x" "e_shard_err E = None" "re_err (e_read E) = None"
    and "row_of (api_reads st ! Resolve (api_reads st) i) x = Some r"
    and "rd_customer r \<noteq> ''''" "(rd_customer r, rd_cents r, rd_currency r) \<noteq> (cb_customer body, cb_cents body, cb_currency body)"
  shows "rejectIdempotentBodyMismatch E i body st = Some ApiBodyMismatch"
  using assms by (auto simp: rejectIdempotentBodyMismatch_def)

text \<open>Keys of different principals do not meet: the seed determines subject and key.\<close>

lemma idempotency_seed_inj:
  assumes "idempotency_seed (Some p) k = idempotency_seed (Some q) k'" "p_subject p \<noteq> ''''" "p_subject q \<noteq> ''''"
    and "CHR 0x00 \<notin> set (p_subject p)" "CHR 0x00 \<notin> set (p_subject q)"
  shows "p_subject p = p_subject q \<and> k = k'"
proof -
  have "p_subject p @ CHR 0x00 # k = p_subject q @ CHR 0x00 # k'" using assms(1-3) by (simp add: idempotency_seed_def)
  then have "str_cut (p_subject p @ CHR 0x00 # k) (CHR 0x00) = str_cut (p_subject q @ CHR 0x00 # k') (CHR 0x00)" by (rule arg_cong)
  then show ?thesis unfolding str_cut_append [OF assms(4)] str_cut_append [OF assms(5)] by simp
qed

text \<open>The audit endpoints answer administrators only, and the verification of all shards is clean exactly when that of
  every shard is.\<close>

lemma audit_endpoints_admin_only:
  assumes "\<not> authDisabled E" "AdminRole \<notin> set (p_roles p)"
  shows "snd (QueryAudit E (Some p) actor since limit st) = Inl (ApiErr (ErrForbidden (e_reg E)))"
    "snd (VerifyAudit E (Some p) since st) = Inl (ApiErr (ErrForbidden (e_reg E)))"
  using assms by (simp_all add: QueryAudit_def VerifyAudit_def require_admin_def)

lemma verify_shards_ok:
  assumes "\<And>i. e_verify_err E i = (None, (\<lambda>_. None), (\<lambda>_. None))"
    and "verify_shards E since idx rows fb dbs = Inr (rows', fb')"
  shows "fb' = None \<longleftrightarrow> fb = None \<and>
     list_all (\<lambda>db. \<exists>res. VerifyChain (e_store E) None (\<lambda>_. None) (\<lambda>_. None) db since = Inr res \<and> OK res) dbs"
  using assms(2)
proof (induction dbs arbitrary: idx rows fb)
  case (Cons db dbs)
  then obtain res where res: "VerifyChain (e_store E) None (\<lambda>_. None) (\<lambda>_. None) db since = Inr res"
    using assms(1) [of idx] by (auto split: sum.splits)
  have step: "verify_shards E since (idx + 1) (rows + Verified res) (if \<not> OK res \<and> fb = None then Some (idx, res) else fb) dbs = Inr (rows', fb')"
    using Cons.prems assms(1) [of idx] res by simp
  show ?case using Cons.IH [OF step] res by auto
qed simp

section \<open>Properties\<close>

text \<open>C8. Read isolation. A principal that the authentication middleware admitted and that is not an administrator gets
  the answers of \<open>GetOrder\<close> and \<open>ListOrders\<close> as if the read model held only its own orders: the orders of other
  customers influence neither a status code, nor a field, nor a cursor, so they cannot be read, counted or probed
  for. Order ids are unique in each shard.\<close>

theorem read_isolation:
  assumes "Middleware v n h = Passed p" "AdminRole \<notin> set (p_roles p)" "\<not> authDisabled E"
    and "api_reads st \<noteq> []" "list_all (\<lambda>rows. distinct (map rd_id rows)) (api_reads st)"
  shows "snd (GetOrder E (Some p) tz i st) = snd (GetOrder E (Some p) tz i (own_rows p st)) \<and>
     ListOrders E (Some p) req st = ListOrders E (Some p) req (own_rows p st)"
proof (intro conjI)
  show "snd (GetOrder E (Some p) tz i st) = snd (GetOrder E (Some p) tz i (own_rows p st))"
    using get_order_own assms(2-5) by metis
  have sub: "p_subject p \<noteq> ''''" using assms(1) Verify_subject by (auto simp: Middleware_passed)
  have "ListOrdersHandler T c errs (map (filter (\<lambda>r. rd_customer r = p_subject p)) (api_reads st)) \<lparr>Cursor = cur, Limit = l, CustomerID = p_subject p\<rparr> =
      ListOrdersHandler T c errs (api_reads st) \<lparr>Cursor = cur, Limit = l, CustomerID = p_subject p\<rparr>" for T c errs cur l
    using list_handler_own [of "\<lparr>Cursor = cur, Limit = l, CustomerID = p_subject p\<rparr>"] sub by simp
  then show "ListOrders E (Some p) req st = ListOrders E (Some p) req (own_rows p st)"
    using assms(2,3)
    by (cases "parseTimezone E (lp_timezone req)"; cases "e_list E") (auto simp: ListOrders_def own_rows_def Let_def)
qed



text \<open>Two customers with one order each, and the second as the principal.\<close>

definition sample_env :: "unit api_env" where
  "sample_env =
     \<lparr>authDisabled = False, e_reg = Map.empty, commandsTopic = ''c'', e_store = plain_store,
      e_oob = (True, None, None, no_audit_faults, 0), e_read = \<lparr>re_parse = Inr, re_err = None, re_now = 1\<rparr>, e_shard_err = None,
      e_uuid5 = (\<lambda>seed. ''id-'' @ seed), e_uuid4 = ''u'', e_validate = (\<lambda>_. []), e_encode = (\<lambda>(i, _). Inr i),
      e_produce = (\<lambda>_. (1, None)), e_pending_err = None, e_roles_json = concat, e_list = (sample_text, None, \<lambda>_. None),
      e_location = (\<lambda>_. Inr ()), e_format = (\<lambda>_. ''t''), e_format_local = (\<lambda>_ _. ''l''), e_query_err = None,
      e_json_text = (\<lambda>_. ''''), e_verify_err = (\<lambda>_. (None, \<lambda>_. None, \<lambda>_. None))\<rparr>"

definition sample_verifier :: jwks_verifier where
  "sample_verifier = \<lparr>requiredAZP = '''', rolesClaimPath = ''roles'', jwks_lookup = None,
     tk_parse = (\<lambda>_. Inr \<lparr>tk_sub = Some ''bob'', tk_claims = [(''roles'', JArr [JStr ''user''])]\<rparr>)\<rparr>"

definition bob :: Principal where
  "bob = \<lparr>p_subject = ''bob'', p_username = '''', p_roles = [''user'']\<rparr>"

definition sample_state :: api_state where
  "sample_state =
     \<lparr>api_reads = [[(sample_row ''x'' 1)\<lparr>rd_customer := ''ann''\<rparr>, (sample_row ''y'' 2)\<lparr>rd_customer := ''bob''\<rparr>]], api_audits = [audit_empty],
      api_produced = [], api_batcher = None\<rparr>"

lemma bob_admitted: "Middleware sample_verifier 100 ''Bearer tok'' = Passed bob"
  by (simp add: Middleware_def bearerToken_def has_prefix_def Let_def Verify_def sample_verifier_def extractRoles_def claim_string_def bob_def)

theorem read_isolation_witness:
  "snd (GetOrder sample_env (Some bob) None ''x'' sample_state) = snd (GetOrder sample_env (Some bob) None ''x'' (own_rows bob sample_state)) \<and>
   ListOrders sample_env (Some bob) \<lparr>lp_cursor = None, lp_limit = Some 5, lp_timezone = None\<rparr> sample_state =
     ListOrders sample_env (Some bob) \<lparr>lp_cursor = None, lp_limit = Some 5, lp_timezone = None\<rparr> (own_rows bob sample_state)"
  by (rule read_isolation [OF bob_admitted])
    (simp_all add: sample_env_def sample_state_def bob_def AdminRole_def sample_row_def)


end
