(* ===== verification/Sse.thy ===== *)
theory Sse
  imports Gateway_Api "HOL-Library.AList"
begin

text \<open>
  \<open>examples/gateway/internal/sse/sse.go\<close>: streams of status changes. The projection publishes the current status of an
  order after each committed write (\<open>Notify\<close>); a replica holds one subscription to the broadcast channel and fans the
  messages out to its open streams through coalescing mailboxes (\<open>slot\<close>); every gap of the subscription and every
  failed read ends in a refresh. The table is the one of the pool the streamer was built with (\<open>svc.Pool()\<close>).

  The handler of one stream is cut at its blocking points into steps: accepted, snapshot, woken by the mailbox, poll
  tick, heartbeat, closed; a refresh is taken from the mailbox in one step and read in the next. Steps of streams, of the subscriber and of the projection interleave freely. Replies of the
  bulkhead, of Redis, of the database and of the socket are inputs.
\<close>

section \<open>Status ordinals and mailboxes\<close>

definition statusOrdinal :: "string \<Rightarrow> int" where
  "statusOrdinal st =
     (if st = ''pending'' then 0
      else if st = ''created'' then 1
      else if st \<in> {''paid'', ''payment_failed'', ''payment_timeout''} then 2
      else -1)"

text \<open>The channel \<open>notify\<close> has capacity one: it holds a wake-up or none.\<close>

record slot =
  sl_status :: string
  sl_refresh :: bool
  sl_notify :: bool

definition newSlot :: slot where
  "newSlot = \<lparr>sl_status = '''', sl_refresh = False, sl_notify = False\<rparr>"

definition wake :: "slot \<Rightarrow> slot" where
  "wake sl = sl\<lparr>sl_notify := True\<rparr>"

definition deliver :: "string \<Rightarrow> slot \<Rightarrow> slot" where
  "deliver st sl =
     wake (if statusOrdinal st > statusOrdinal (sl_status sl) then sl\<lparr>sl_status := st\<rparr> else sl)"

definition markRefresh :: "slot \<Rightarrow> slot" where
  "markRefresh sl = wake (sl\<lparr>sl_refresh := True\<rparr>)"

definition take_slot :: "slot \<Rightarrow> (string \<times> bool) \<times> slot" where
  "take_slot sl = ((sl_status sl, sl_refresh sl), sl\<lparr>sl_status := '''', sl_refresh := False\<rparr>)"

section \<open>State\<close>

text \<open>A stream that is being served; \<open>q_seen\<close> is what the header \<open>Last-Event-ID\<close> says, \<open>q_out\<close> the events written so far.
  A slot is owned by its stream; pointers to slots are positions in the list of streams. A stream without a slot polls.\<close>

datatype phase = Waiting | Running | Refreshing string | Closed

record stream =
  q_order :: string
  q_phase :: phase
  q_slot :: "slot option"
  q_status :: string
  q_seen :: int
  q_last :: int
  q_out :: "(int \<times> string) list"

text \<open>What the subscriber goroutine has done of \<open>subscribeOnce\<close>: no acknowledged subscription, acknowledged, marked
  live, refresh broadcast.\<close>

datatype sub_phase = SubDown | SubAcked | SubLive | SubReady

record streamer =
  has_client :: bool
  s_authDisabled :: bool
  heartbeat_ms :: int
  poll_ms :: int
  max_streams :: "nat option"
  permits_held :: nat
  registry :: "(string \<times> nat list) list"
  streams :: "stream list"
  subStarted :: bool
  subCancelled :: bool
  is_live :: bool
  is_shutdown :: bool

definition DefaultHeartbeat :: int where "DefaultHeartbeat = 15000"
definition DefaultPollInterval :: int where "DefaultPollInterval = 2000"
definition safetyPollMultiplier :: int where "safetyPollMultiplier = 30"

definition WithHeartbeat :: "int \<Rightarrow> streamer \<Rightarrow> streamer" where
  "WithHeartbeat d s = (if 0 < d then s\<lparr>heartbeat_ms := d\<rparr> else s)"

definition WithPollInterval :: "int \<Rightarrow> streamer \<Rightarrow> streamer" where
  "WithPollInterval d s = (if 0 < d then s\<lparr>poll_ms := d\<rparr> else s)"

definition WithMaxStreams :: "int \<Rightarrow> streamer \<Rightarrow> streamer" where
  "WithMaxStreams n s = (if 0 < n then s\<lparr>max_streams := Some (nat n)\<rparr> else s)"

definition sse_New :: "bool \<Rightarrow> bool \<Rightarrow> (streamer \<Rightarrow> streamer) list \<Rightarrow> streamer" where
  "sse_New client auth_off opts =
     foldl (\<lambda>s opt. opt s)
       \<lparr>has_client = client, s_authDisabled = auth_off, heartbeat_ms = DefaultHeartbeat, poll_ms = DefaultPollInterval,
        max_streams = None, permits_held = 0, registry = [], streams = [], subStarted = False, subCancelled = False,
        is_live = False, is_shutdown = False\<rparr> opts"

text \<open>The cadence of the per-stream poll: with Redis only a safety net.\<close>

definition pollEvery :: "streamer \<Rightarrow> int" where
  "pollEvery s = (if has_client s then safetyPollMultiplier * poll_ms s else poll_ms s)"

section \<open>Registry\<close>

definition watchers :: "streamer \<Rightarrow> string \<Rightarrow> nat list" where
  "watchers s x = (case map_of (registry s) x of None \<Rightarrow> [] | Some l \<Rightarrow> l)"

definition sse_register :: "string \<Rightarrow> nat \<Rightarrow> streamer \<Rightarrow> streamer" where
  "sse_register x i s = s\<lparr>registry := AList.update x (List.insert i (watchers s x)) (registry s)\<rparr>"

definition sse_unregister :: "string \<Rightarrow> nat \<Rightarrow> streamer \<Rightarrow> streamer" where
  "sse_unregister x i s =
     (let l = removeAll i (watchers s x)
      in s\<lparr>registry := (if l = [] then AList.delete x (registry s) else AList.update x l (registry s))\<rparr>)"

definition on_slots :: "(slot \<Rightarrow> slot) \<Rightarrow> nat list \<Rightarrow> streamer \<Rightarrow> streamer" where
  "on_slots f ids s =
     s\<lparr>streams := map (\<lambda>i. let q = streams s ! i in if i \<in> set ids then q\<lparr>q_slot := map_option f (q_slot q)\<rparr> else q)
                     [0..<length (streams s)]\<rparr>"

text \<open>The payload of a broadcast as a JSON value; names of fields are matched without regard to case, the last
  one wins, \<open>null\<close> leaves the field empty.\<close>

definition lower_char :: "char \<Rightarrow> char" where
  "lower_char c = (if 65 \<le> byte c \<and> byte c \<le> 90 then to_byte (byte c + 32) else c)"

definition update_json :: "string \<Rightarrow> string \<Rightarrow> json" where
  "update_json x st = JObj [(''order_id'', JStr x), (''status'', JStr st)]"

fun update_fields :: "(string \<times> json) list \<Rightarrow> string \<times> string \<Rightarrow> (string \<times> string) option" where
  "update_fields [] u = Some u"
| "update_fields ((k, v) # kvs) (x, st) =
     (if map lower_char k = ''order_id'' then
        (case v of JStr y \<Rightarrow> update_fields kvs (y, st) | JNull \<Rightarrow> update_fields kvs (x, st) | _ \<Rightarrow> None)
      else if map lower_char k = ''status'' then
        (case v of JStr y \<Rightarrow> update_fields kvs (x, y) | JNull \<Rightarrow> update_fields kvs (x, st) | _ \<Rightarrow> None)
      else update_fields kvs (x, st))"

definition parse_update :: "json \<Rightarrow> (string \<times> string) option" where
  "parse_update j = (case j of JObj kvs \<Rightarrow> update_fields kvs ('''', '''') | JNull \<Rightarrow> Some ('''', '''') | _ \<Rightarrow> None)"

definition sse_dispatch :: "json \<Rightarrow> streamer \<Rightarrow> streamer" where
  "sse_dispatch payload s =
     (case parse_update payload of
        None \<Rightarrow> s
      | Some (x, st) \<Rightarrow> if x = '''' then s else on_slots (deliver st) (watchers s x) s)"

definition broadcastRefresh :: "streamer \<Rightarrow> streamer" where
  "broadcastRefresh s = on_slots markRefresh (concat (map snd (registry s))) s"

definition markLive :: "streamer \<Rightarrow> streamer" where
  "markLive s = s\<lparr>is_live := True\<rparr>"

definition markDown :: "streamer \<Rightarrow> streamer" where
  "markDown s = s\<lparr>is_live := False\<rparr>"

definition ensureSubscriber :: "streamer \<Rightarrow> streamer" where
  "ensureSubscriber s = (if subStarted s \<or> subCancelled s then s else s\<lparr>subStarted := True\<rparr>)"

definition sse_Shutdown :: "streamer \<Rightarrow> streamer" where
  "sse_Shutdown s = s\<lparr>is_shutdown := True, subCancelled := True\<rparr>"

section \<open>Reads and notifications\<close>

datatype sse_error = SseNotFound | SseFailed go_err

definition currentStatus :: "read_env \<Rightarrow> string \<Rightarrow> read_row list \<Rightarrow> (sse_error, string \<times> string) result" where
  "currentStatus E orderID table =
     (case re_parse E orderID of
        Inl _ \<Rightarrow> Inl SseNotFound
      | Inr x \<Rightarrow>
          (case re_err E of
             Some e \<Rightarrow> Inl (SseFailed (ErrWrap ''sse: get order view'' e))
           | None \<Rightarrow>
               (case row_of table x of
                  None \<Rightarrow> Inl SseNotFound
                | Some r \<Rightarrow> Inr (rd_status r, rd_customer r))))"

definition writerStatus :: "read_env \<Rightarrow> string \<Rightarrow> read_row list \<Rightarrow> (sse_error, string) result" where
  "writerStatus E orderID table =
     (case re_parse E orderID of
        Inl _ \<Rightarrow> Inl SseNotFound
      | Inr x \<Rightarrow>
          (case re_err E of
             Some e \<Rightarrow> Inl (SseFailed (ErrWrap ''sse: get order view (writer)'' e))
           | None \<Rightarrow> (case row_of table x of None \<Rightarrow> Inl SseNotFound | Some r \<Rightarrow> Inr (rd_status r))))"

text \<open>The message \<open>Notify\<close> publishes, if any; the reply of \<open>PUBLISH\<close> is only logged.\<close>

definition Notify :: "read_env \<Rightarrow> string \<Rightarrow> read_row list \<Rightarrow> streamer \<Rightarrow> json option" where
  "Notify E orderID table s =
     (if \<not> has_client s then None
      else case writerStatus E orderID table of Inl _ \<Rightarrow> None | Inr st \<Rightarrow> Some (update_json orderID st))"

section \<open>The stream handler\<close>

datatype stream_answer =
    Saturated int
  | StreamFailed go_err
  | StreamUnauthenticated
  | StreamNotFound string
  | StreamOpen string

definition saturatedRetryAfterSeconds :: int where "saturatedRetryAfterSeconds = 2"

text \<open>The checks before the stream opens; the value carries the status read with the owner.\<close>

definition stream_checks :: "read_env \<Rightarrow> bool \<Rightarrow> Principal option \<Rightarrow> string \<Rightarrow> read_row list \<Rightarrow> stream_answer" where
  "stream_checks E auth_off po orderID table =
     (case currentStatus E orderID table of
        Inl (SseFailed e) \<Rightarrow> StreamFailed e
      | res \<Rightarrow>
          (let missing = (case res of Inl _ \<Rightarrow> True | Inr _ \<Rightarrow> False);
               owner = (case res of Inr (_, c) \<Rightarrow> c | _ \<Rightarrow> '''');
               st = (case res of Inr (s, _) \<Rightarrow> s | _ \<Rightarrow> '''')
           in if auth_off then (if missing then StreamNotFound orderID else StreamOpen st)
              else case po of
                  None \<Rightarrow> StreamUnauthenticated
                | Some p \<Rightarrow>
                    if missing \<or> (AdminRole \<notin> set (p_roles p) \<and> owner \<noteq> p_subject p) then StreamNotFound orderID
                    else StreamOpen st))"

definition new_stream :: "bool \<Rightarrow> string \<Rightarrow> string \<Rightarrow> string \<Rightarrow> stream" where
  "new_stream client orderID lastEventID st =
     (let seen = (case parse_int64 lastEventID of Some v \<Rightarrow> v | None \<Rightarrow> -1)
      in \<lparr>q_order = orderID, q_phase = Waiting, q_slot = (if client then Some newSlot else None), q_status = st,
          q_seen = seen, q_last = seen, q_out = []\<rparr>)"

definition stream_open :: "read_env \<Rightarrow> bool \<Rightarrow> Principal option \<Rightarrow> string \<Rightarrow> string \<Rightarrow> read_row list \<Rightarrow> streamer \<Rightarrow> streamer \<times> stream_answer" where
  "stream_open E permit po orderID lastEventID table s =
     (if max_streams s \<noteq> None \<and> \<not> permit then (s, Saturated saturatedRetryAfterSeconds)
      else case stream_checks E (s_authDisabled s) po orderID table of
          StreamOpen st \<Rightarrow>
            (let s1 = s\<lparr>permits_held := permits_held s + (if max_streams s = None then 0 else 1)\<rparr>;
                 i = length (streams s);
                 s2 = s1\<lparr>streams := streams s @ [new_stream (has_client s) orderID lastEventID st]\<rparr>
             in (if has_client s then sse_register orderID i (ensureSubscriber s2) else s2, StreamOpen st))
        | ans \<Rightarrow> (s, ans))"

text \<open>\<open>send\<close>: the second component is false when the write or the flush failed, which ends the stream.\<close>

definition stream_send :: "bool \<Rightarrow> string \<Rightarrow> stream \<Rightarrow> stream \<times> bool" where
  "stream_send ok st q =
     (let ord = statusOrdinal st
      in if ord \<le> q_last q then (q, True)
         else if ok then (q\<lparr>q_last := ord, q_out := q_out q @ [(ord, st)]\<rparr>, True)
         else (q\<lparr>q_last := ord\<rparr>, False))"

text \<open>The first send, once the subscription is live or the wait is over: the status is read again.\<close>

definition stream_snapshot :: "(sse_error, string \<times> string) result \<Rightarrow> bool \<Rightarrow> stream \<Rightarrow> stream \<times> bool" where
  "stream_snapshot rd ok q =
     (let st = (case rd of Inr (cur, _) \<Rightarrow> cur | Inl _ \<Rightarrow> q_status q)
      in stream_send ok st (q\<lparr>q_phase := Running\<rparr>))"

text \<open>A wake-up: the mailbox is emptied; when it asks for a refresh the store is read before the send.\<close>

definition stream_woken :: "bool \<Rightarrow> stream \<Rightarrow> stream \<times> bool" where
  "stream_woken ok q =
     (case q_slot q of
        None \<Rightarrow> (q, True)
      | Some sl0 \<Rightarrow>
          (case take_slot (sl0\<lparr>sl_notify := False\<rparr>) of
             ((st, refresh), sl) \<Rightarrow>
               (let q1 = q\<lparr>q_slot := Some sl\<rparr>
                in if refresh then (q1\<lparr>q_phase := Refreshing st\<rparr>, True)
                   else if st \<noteq> '''' then stream_send ok st q1 else (q1, True))))"

definition stream_refreshed :: "(sse_error, string \<times> string) result \<Rightarrow> bool \<Rightarrow> string \<Rightarrow> stream \<Rightarrow> stream \<times> bool" where
  "stream_refreshed rd ok st q =
     (let (st1, q1) =
            (case rd of
               Inr (cur, _) \<Rightarrow> (if statusOrdinal cur > statusOrdinal st then cur else st, q)
             | Inl _ \<Rightarrow> (st, q\<lparr>q_slot := map_option markRefresh (q_slot q)\<rparr>));
          q2 = q1\<lparr>q_phase := Running\<rparr>
      in if st1 \<noteq> '''' then stream_send ok st1 q2 else (q2, True))"

definition stream_poll :: "(sse_error, string \<times> string) result \<Rightarrow> bool \<Rightarrow> stream \<Rightarrow> stream \<times> bool" where
  "stream_poll rd ok q = (case rd of Inl _ \<Rightarrow> (q, True) | Inr (st, _) \<Rightarrow> stream_send ok st q)"

text \<open>The deferred calls when the handler returns.\<close>

definition stream_close :: "nat \<Rightarrow> streamer \<Rightarrow> streamer" where
  "stream_close i s =
     (let q = streams s ! i;
          s1 = (if q_slot q = None then s else sse_unregister (q_order q) i s)
      in s1\<lparr>streams := (streams s)[i := q\<lparr>q_phase := Closed\<rparr>],
            permits_held := permits_held s - (if max_streams s = None then 0 else 1)\<rparr>)"

definition resume :: "nat \<Rightarrow> stream \<times> bool \<Rightarrow> streamer \<Rightarrow> streamer" where
  "resume i res s =
     (let s1 = s\<lparr>streams := (streams s)[i := fst res]\<rparr> in if snd res then s1 else stream_close i s1)"


section \<open>Runs\<close>

text \<open>The table, the orders whose post-commit hook has not run, the messages that \<open>Notify\<close> has read but not yet
  published, the messages on the way to this replica, and the replica. The second argument of a run holds the versions of
  the table; a reader may see any of them (replica lag). A run is \<open>steady\<close> when readers see the current version, the
  reads of the notifier and of the snapshots succeed, publishing succeeds, and events carry canonical ids; only the
  theorem about lost updates needs that.\<close>

record sse_world =
  orders_read :: "read_row list"
  hooks :: "string list"
  publishing :: "json list"
  chan :: "json list"
  sub :: sub_phase
  hub :: streamer

type_synonym id_parser = "string \<Rightarrow> (go_err, string) result"

definition canonical_id :: "id_parser \<Rightarrow> string \<Rightarrow> bool" where
  "canonical_id P x \<longleftrightarrow> P x = Inr x \<and> x \<noteq> ''''"

fun event_order :: "read_event \<Rightarrow> string" where
  "event_order (FromOrders (OrderCreated raw _ _ _)) = raw"
| "event_order (FromOrders (OrderPaymentTimedOut raw _)) = raw"
| "event_order (FromPayments (EvProcessed raw _ _)) = raw"
| "event_order (FromPayments (EvFailed raw _ _)) = raw"

fun hooks_of :: "read_op \<Rightarrow> string list" where
  "hooks_of (Pend _) = []"
| "hooks_of (Event ev) = [event_order ev]"

definition on_hub :: "(streamer \<Rightarrow> streamer) \<Rightarrow> sse_world \<Rightarrow> sse_world" where
  "on_hub f w = w\<lparr>hub := f (hub w)\<rparr>"

inductive sse_reach :: "id_parser \<Rightarrow> bool \<Rightarrow> sse_world \<Rightarrow> read_row list list \<Rightarrow> bool" for P steady where
  start: "sse_reach P steady \<lparr>orders_read = [], hooks = [], publishing = [], chan = [], sub = SubDown,
            hub = sse_New client off [WithHeartbeat hb, WithPollInterval pl, WithMaxStreams n]\<rparr> [[]]"
| commit: "sse_reach P steady w H \<Longrightarrow> re_parse E = P \<Longrightarrow> run_read E op (orders_read w, []) = ((t, obs), None)
    \<Longrightarrow> (steady \<Longrightarrow> list_all (canonical_id P) (hooks_of op))
    \<Longrightarrow> sse_reach P steady (w\<lparr>orders_read := t, hooks := hooks w @ hooks_of op\<rparr>) (H @ [t])"
| notify: "sse_reach P steady w H \<Longrightarrow> re_parse E = P \<Longrightarrow> hooks w = a @ x # b \<Longrightarrow> (steady \<Longrightarrow> re_err E = None)
    \<Longrightarrow> sse_reach P steady
          (w\<lparr>hooks := a @ b, publishing := publishing w @ (case Notify E x (orders_read w) (hub w) of None \<Rightarrow> [] | Some m \<Rightarrow> [m])\<rparr>) H"
| publish: "sse_reach P steady w H \<Longrightarrow> publishing w = a @ m # b \<Longrightarrow> (steady \<Longrightarrow> ok)
    \<Longrightarrow> sse_reach P steady (w\<lparr>publishing := a @ b, chan := chan w @ (if ok \<and> sub w \<noteq> SubDown then [m] else [])\<rparr>) H"
| receive: "sse_reach P steady w H \<Longrightarrow> chan w = m # ms \<Longrightarrow> sse_reach P steady (on_hub (sse_dispatch m) (w\<lparr>chan := ms\<rparr>)) H"
| subscribed: "sse_reach P steady w H \<Longrightarrow> sub w = SubDown \<Longrightarrow> subStarted (hub w) \<Longrightarrow> \<not> subCancelled (hub w)
    \<Longrightarrow> sse_reach P steady (w\<lparr>sub := SubAcked, chan := []\<rparr>) H"
| live: "sse_reach P steady w H \<Longrightarrow> sub w = SubAcked \<Longrightarrow> sse_reach P steady (on_hub markLive (w\<lparr>sub := SubLive\<rparr>)) H"
| refreshed: "sse_reach P steady w H \<Longrightarrow> sub w = SubLive
    \<Longrightarrow> sse_reach P steady (on_hub broadcastRefresh (w\<lparr>sub := SubReady\<rparr>)) H"
| lost: "sse_reach P steady w H \<Longrightarrow> sub w \<noteq> SubDown \<Longrightarrow> sse_reach P steady (on_hub markDown (w\<lparr>sub := SubDown, chan := []\<rparr>)) H"
| opened: "sse_reach P steady w H \<Longrightarrow> re_parse E = P \<Longrightarrow> v \<in> set H
    \<Longrightarrow> (permit \<Longrightarrow> \<forall>n. max_streams (hub w) = Some n \<longrightarrow> permits_held (hub w) < n)
    \<Longrightarrow> sse_reach P steady (on_hub (\<lambda>s. fst (stream_open E permit po x lei v s)) w) H"
| snapshot: "sse_reach P steady w H \<Longrightarrow> re_parse E = P \<Longrightarrow> v \<in> set H \<Longrightarrow> (steady \<Longrightarrow> v = orders_read w \<and> re_err E = None)
    \<Longrightarrow> i < length (streams (hub w)) \<Longrightarrow> q = streams (hub w) ! i \<Longrightarrow> q_phase q = Waiting
    \<Longrightarrow> sse_reach P steady (on_hub (resume i (stream_snapshot (currentStatus E (q_order q) v) ok q)) w) H"
| woken: "sse_reach P steady w H \<Longrightarrow> i < length (streams (hub w)) \<Longrightarrow> q = streams (hub w) ! i \<Longrightarrow> q_phase q = Running
    \<Longrightarrow> q_slot q = Some sl \<Longrightarrow> sl_notify sl
    \<Longrightarrow> sse_reach P steady (on_hub (resume i (stream_woken ok q)) w) H"
| reread: "sse_reach P steady w H \<Longrightarrow> re_parse E = P \<Longrightarrow> v \<in> set H \<Longrightarrow> (steady \<Longrightarrow> v = orders_read w)
    \<Longrightarrow> i < length (streams (hub w)) \<Longrightarrow> q = streams (hub w) ! i \<Longrightarrow> q_phase q = Refreshing st
    \<Longrightarrow> sse_reach P steady (on_hub (resume i (stream_refreshed (currentStatus E (q_order q) v) ok st q)) w) H"
| polled: "sse_reach P steady w H \<Longrightarrow> re_parse E = P \<Longrightarrow> v \<in> set H
    \<Longrightarrow> i < length (streams (hub w)) \<Longrightarrow> q = streams (hub w) ! i \<Longrightarrow> q_phase q = Running
    \<Longrightarrow> sse_reach P steady (on_hub (resume i (stream_poll (currentStatus E (q_order q) v) ok q)) w) H"
| closed: "sse_reach P steady w H \<Longrightarrow> i < length (streams (hub w)) \<Longrightarrow> q_phase (streams (hub w) ! i) \<noteq> Closed
    \<Longrightarrow> sse_reach P steady (on_hub (stream_close i) w) H"
| shutdown: "sse_reach P steady w H \<Longrightarrow> sse_reach P steady (on_hub sse_Shutdown w) H"

section \<open>Lemmas\<close>

definition status_le :: "string \<Rightarrow> string \<Rightarrow> bool" where
  "status_le a b \<longleftrightarrow> a = b \<or> statusOrdinal a < statusOrdinal b"

lemma status_le_refl [simp]: "status_le a a"
  by (simp add: status_le_def)

lemma status_le_trans: "status_le a b \<Longrightarrow> status_le b c \<Longrightarrow> status_le a c"
  by (auto simp: status_le_def)

lemma status_le_ordinal: "status_le a b \<Longrightarrow> statusOrdinal a \<le> statusOrdinal b"
  by (auto simp: status_le_def)

lemma ordinal_empty [simp]: "statusOrdinal '''' = -1"
  by (simp add: statusOrdinal_def)

lemma ordinal_bounds: "-1 \<le> statusOrdinal st" "statusOrdinal st \<le> 2"
  by (simp_all add: statusOrdinal_def)

lemma ordinal_terminal: "statusOrdinal st = 2 \<longleftrightarrow> terminal_status st"
  by (simp add: statusOrdinal_def terminal_status_def)

text \<open>One transaction of the projection moves every status forward; a terminal status stays.\<close>

definition advances :: "read_row list \<Rightarrow> read_row list \<Rightarrow> bool" where
  "advances t t' \<longleftrightarrow>
     (\<forall>x r. row_of t x = Some r \<longrightarrow> (\<exists>r'. row_of t' x = Some r' \<and> status_le (rd_status r) (rd_status r')))"

lemma advances_trans: "advances a b \<Longrightarrow> advances b c \<Longrightarrow> advances a c"
  unfolding advances_def by (meson status_le_trans)

lemma advances_refl [simp]: "advances a a"
  by (auto simp: advances_def)

lemma to_terminal: "terminal_status st \<Longrightarrow> \<not> terminal_status a \<Longrightarrow> status_le a st"
  using ordinal_terminal [of st] ordinal_terminal [of a] ordinal_bounds [of a] by (simp add: status_le_def)

lemma to_created: "\<not> terminal_status a \<Longrightarrow> status_le a ''created''"
  by (auto simp: status_le_def statusOrdinal_def terminal_status_def)

lemma mark_advances:
  assumes "mark_terminal st t x rows = (rows', res)" "terminal_status st"
  shows "advances rows rows'"
  using assms(2) by (auto simp: advances_def row_of_mark [OF assms(1)] split: option.splits intro: to_terminal)

lemma terminal_handler_advances:
  assumes "terminal_handler E what st raw w = (w', None)" "terminal_status st"
  shows "advances (fst w) (fst w')"
  using assms by (auto simp: terminal_handler_def split: sum.splits option.splits prod.splits dest: mark_advances)

lemma created_advances: "advances rows (UpsertOrderCreated t x c n u rows)"
  by (auto simp: advances_def UpsertOrderCreated_def row_of_upsert split: option.splits intro: to_created)

lemma pending_advances: "advances rows (InsertPendingOrder t p rows)"
  by (cases p) (auto simp: advances_def InsertPendingOrder_def row_of_upsert split: option.splits)

lemma project_advances: "project E ev w = (w', None) \<Longrightarrow> advances (fst w) (fst w')"
  by (cases "(E, ev, w)" rule: project.cases)
     (auto simp: terminal_status_def split: sum.splits option.splits intro: created_advances dest: terminal_handler_advances)

lemma run_read_advances:
  assumes "run_read E op w = (w', None)"
  shows "advances (fst w) (fst w')"
  using assms by (cases op) (auto split: option.splits simp: pending_advances dest: project_advances)


subsection \<open>Versions of the table\<close>

lemma versions_advance:
  "sse_reach P steady w H \<Longrightarrow> orders_read w \<in> set H \<and> (\<forall>v \<in> set H. advances v (orders_read w))"
proof (induction rule: sse_reach.induct)
  case (commit w H E op t obs)
  have "advances (orders_read w) t" using run_read_advances [OF commit.hyps(3)] by simp
  then show ?case using commit.IH by (auto intro: advances_trans)
qed (auto simp: on_hub_def)

text \<open>A status that the order named by a text had at some time.\<close>

definition had_status :: "id_parser \<Rightarrow> read_row list list \<Rightarrow> string \<Rightarrow> string \<Rightarrow> bool" where
  "had_status P H x st \<longleftrightarrow> (\<exists>y v r. P x = Inr y \<and> v \<in> set H \<and> row_of v y = Some r \<and> rd_status r = st)"

lemma had_status_more: "had_status P H x st \<Longrightarrow> had_status P (H @ [t]) x st"
  by (auto simp: had_status_def)

lemma currentStatus_had: "currentStatus E x v = Inr (st, c) \<Longrightarrow> re_parse E = P \<Longrightarrow> v \<in> set H \<Longrightarrow> had_status P H x st"
  by (auto simp: currentStatus_def had_status_def split: sum.splits option.splits)

lemma Notify_had:
  "Notify E x t s = Some m \<Longrightarrow> re_parse E = P \<Longrightarrow> t \<in> set H \<Longrightarrow> \<exists>st. m = update_json x st \<and> had_status P H x st"
  by (auto simp: Notify_def writerStatus_def had_status_def split: sum.splits option.splits if_splits)

lemma checks_had:
  "stream_checks E off po x v = StreamOpen st \<Longrightarrow> re_parse E = P \<Longrightarrow> v \<in> set H \<Longrightarrow> had_status P H x st"
  using currentStatus_had [of E x v]
  by (auto simp: stream_checks_def split: sum.splits sse_error.splits option.splits if_splits prod.splits)

lemma lower_names: "map lower_char ''order_id'' = ''order_id''" "map lower_char ''status'' = ''status''"
  by code_simp+

lemma parse_status_update [simp]: "parse_update (update_json x st) = Some (x, st)"
  using lower_names by (simp add: parse_update_def update_json_def del: list.map)

subsection \<open>How steps change the streams\<close>

lemma streams_on_slots:
  "streams (on_slots f ids s) = map (\<lambda>i. let q = streams s ! i in if i \<in> set ids then q\<lparr>q_slot := map_option f (q_slot q)\<rparr> else q)
      [0..<length (streams s)]"
  by (simp add: on_slots_def)

lemma length_on_slots [simp]: "length (streams (on_slots f ids s)) = length (streams s)"
  by (simp add: streams_on_slots)

lemma nth_on_slots:
  "i < length (streams s) \<Longrightarrow> streams (on_slots f ids s) ! i
     = (let q = streams s ! i in if i \<in> set ids then q\<lparr>q_slot := map_option f (q_slot q)\<rparr> else q)"
  by (simp add: streams_on_slots)

lemma on_slots_fields [simp]:
  "registry (on_slots f ids s) = registry s" "max_streams (on_slots f ids s) = max_streams s"
  "permits_held (on_slots f ids s) = permits_held s" "has_client (on_slots f ids s) = has_client s"
  "subStarted (on_slots f ids s) = subStarted s" "subCancelled (on_slots f ids s) = subCancelled s"
  by (simp_all add: on_slots_def)

text \<open>A property of single streams that survives every change of a mailbox, every send and every change of phase.\<close>

definition streams_ok :: "(stream \<Rightarrow> bool) \<Rightarrow> streamer \<Rightarrow> bool" where
  "streams_ok I s \<longleftrightarrow> (\<forall>i < length (streams s). I (streams s ! i))"

lemma streams_okD: "streams_ok I s \<Longrightarrow> i < length (streams s) \<Longrightarrow> I (streams s ! i)"
  by (simp add: streams_ok_def)

lemma streams_ok_slots:
  assumes "streams_ok I s"
    "\<And>i. i < length (streams s) \<Longrightarrow> i \<in> set ids \<Longrightarrow> I (streams s ! i)
       \<Longrightarrow> I ((streams s ! i)\<lparr>q_slot := map_option f (q_slot (streams s ! i))\<rparr>)"
  shows "streams_ok I (on_slots f ids s)"
  using assms by (simp add: streams_ok_def nth_on_slots Let_def)

lemma streams_ok_same: "streams_ok I s \<Longrightarrow> streams s' = streams s \<Longrightarrow> streams_ok I s'"
  by (simp add: streams_ok_def)

lemma streams_close:
  "streams (stream_close i s) = (streams s)[i := (streams s ! i)\<lparr>q_phase := Closed\<rparr>]"
  by (simp add: stream_close_def Let_def sse_unregister_def)

lemma streams_ok_close:
  assumes "streams_ok I s" "\<And>q. I q \<Longrightarrow> I (q\<lparr>q_phase := Closed\<rparr>)"
  shows "streams_ok I (stream_close i s)"
  using assms by (cases "i < length (streams s)") (auto simp: streams_ok_def streams_close nth_list_update)

lemma streams_ok_resume:
  assumes "streams_ok I s" "snd res \<Longrightarrow> I (fst res)" "\<not> snd res \<Longrightarrow> I ((fst res)\<lparr>q_phase := Closed\<rparr>)"
  shows "streams_ok I (resume i res s)"
  using assms by (cases "i < length (streams s)") (auto simp: streams_ok_def resume_def Let_def streams_close nth_list_update)

lemma stream_open_streams:
  "streams (fst (stream_open E permit po x lei v s)) = streams s \<or>
     (\<exists>st. stream_checks E (s_authDisabled s) po x v = StreamOpen st
        \<and> streams (fst (stream_open E permit po x lei v s)) = streams s @ [new_stream (has_client s) x lei st])"
  by (auto simp: stream_open_def sse_register_def ensureSubscriber_def Let_def split: stream_answer.splits)

lemma streams_ok_open:
  assumes "streams_ok I s"
    and "\<And>st. stream_checks E (s_authDisabled s) po x v = StreamOpen st \<Longrightarrow> I (new_stream (has_client s) x lei st)"
  shows "streams_ok I (fst (stream_open E permit po x lei v s))"
  using stream_open_streams [of E permit po x lei v s] assms by (auto simp: streams_ok_def nth_append)

lemma send_cases:
  obtains "statusOrdinal st \<le> q_last q" "stream_send ok st q = (q, True)"
  | "q_last q < statusOrdinal st" "ok"
      "stream_send ok st q = (q\<lparr>q_last := statusOrdinal st, q_out := q_out q @ [(statusOrdinal st, st)]\<rparr>, True)"
  | "q_last q < statusOrdinal st" "\<not> ok" "stream_send ok st q = (q\<lparr>q_last := statusOrdinal st\<rparr>, False)"
  by (cases "statusOrdinal st \<le> q_last q"; cases ok) (auto simp: stream_send_def Let_def)

subsection \<open>What a stream has written\<close>

definition phase_status :: "phase \<Rightarrow> string" where
  "phase_status p = (case p of Refreshing st \<Rightarrow> st | _ \<Rightarrow> '''')"

definition stream_inv :: "id_parser \<Rightarrow> read_row list list \<Rightarrow> stream \<Rightarrow> bool" where
  "stream_inv P H q \<longleftrightarrow>
     sorted_wrt (<) (q_seen q # map fst (q_out q))
     \<and> (q_phase q \<noteq> Closed \<longrightarrow> q_last q = last (q_seen q # map fst (q_out q)))
     \<and> (\<forall>(k, st) \<in> set (q_out q). k = statusOrdinal st \<and> had_status P H (q_order q) st)
     \<and> had_status P H (q_order q) (q_status q)
     \<and> (case q_slot q of None \<Rightarrow> True | Some sl \<Rightarrow> sl_status sl = '''' \<or> had_status P H (q_order q) (sl_status sl))
     \<and> (phase_status (q_phase q) = '''' \<or> had_status P H (q_order q) (phase_status (q_phase q)))"

lemma stream_inv_more: "stream_inv P H q \<Longrightarrow> stream_inv P (H @ [t]) q"
  by (fastforce simp: stream_inv_def split: option.splits intro: had_status_more)

lemma stream_inv_deliver:
  "stream_inv P H q \<Longrightarrow> (q_slot q \<noteq> None \<Longrightarrow> had_status P H (q_order q) st) \<Longrightarrow> stream_inv P H (q\<lparr>q_slot := map_option (deliver st) (q_slot q)\<rparr>)"
  by (auto simp: stream_inv_def deliver_def wake_def split: option.splits)

lemma stream_inv_refresh: "stream_inv P H q \<Longrightarrow> stream_inv P H (q\<lparr>q_slot := map_option markRefresh (q_slot q)\<rparr>)"
  by (auto simp: stream_inv_def markRefresh_def wake_def split: option.splits)

lemma stream_inv_phase:
  "stream_inv P H q \<Longrightarrow> q_phase q \<noteq> Closed \<or> p = Closed \<Longrightarrow> phase_status p \<in> {'''', phase_status (q_phase q)} \<Longrightarrow> stream_inv P H (q\<lparr>q_phase := p\<rparr>)"
  by (auto simp: stream_inv_def split: option.splits)

lemma last_increasing: "sorted_wrt (<) (a # ks) \<Longrightarrow> last (a # ks) < (b :: int) \<Longrightarrow> sorted_wrt (<) (a # ks @ [b])"
proof (induction ks arbitrary: a)
  case (Cons k ks)
  then have "sorted_wrt (<) (k # ks @ [b])" by (auto split: if_splits)
  moreover have "a < k" using Cons.prems(1) by simp
  ultimately show ?case by auto
qed simp

lemma stream_inv_send:
  assumes "stream_inv P H q" "q_phase q \<noteq> Closed" "had_status P H (q_order q) st"
  shows "stream_inv P H (if snd (stream_send ok st q) then fst (stream_send ok st q) else (fst (stream_send ok st q))\<lparr>q_phase := Closed\<rparr>)"
proof (cases rule: send_cases [of st q ok])
  case 1 then show ?thesis using assms by simp
next
  case 2
  have "sorted_wrt (<) (q_seen q # map fst (q_out q) @ [statusOrdinal st])"
    by (rule last_increasing) (use assms(1,2) 2(1) in \<open>auto simp: stream_inv_def split: if_splits\<close>)
  then show ?thesis using 2 assms by (auto simp: stream_inv_def split: option.splits)
next
  case 3 then show ?thesis using assms by (auto simp: stream_inv_def phase_status_def split: option.splits)
qed

lemma streams_ok_send:
  assumes "streams_ok (stream_inv P H) s" "stream_inv P H q" "q_phase q \<noteq> Closed" "had_status P H (q_order q) st"
  shows "streams_ok (stream_inv P H) (resume i (stream_send ok st q) s)"
  by (rule streams_ok_resume [OF assms(1)]) (use stream_inv_send [OF assms(2-4), of ok] in \<open>auto split: if_splits\<close>)


subsection \<open>Registry and permits\<close>

definition is_open :: "stream \<Rightarrow> bool" where
  "is_open q \<longleftrightarrow> q_phase q \<noteq> Closed"

definition has_slot :: "stream \<Rightarrow> bool" where
  "has_slot q \<longleftrightarrow> q_slot q \<noteq> None"

definition open_count :: "streamer \<Rightarrow> nat" where
  "open_count s = length (filter is_open (streams s))"

definition registry_ok :: "streamer \<Rightarrow> bool" where
  "registry_ok s \<longleftrightarrow> distinct (map fst (registry s)) \<and> [] \<notin> snd ` set (registry s)
     \<and> (\<forall>x i. i \<in> set (watchers s x) \<longleftrightarrow> i < length (streams s) \<and> is_open (streams s ! i) \<and> has_slot (streams s ! i) \<and> q_order (streams s ! i) = x)"

definition permits_ok :: "streamer \<Rightarrow> bool" where
  "permits_ok s \<longleftrightarrow> (case max_streams s of None \<Rightarrow> permits_held s = 0 | Some n \<Rightarrow> permits_held s = open_count s \<and> open_count s \<le> n)"

definition same_shape :: "stream \<Rightarrow> stream \<Rightarrow> bool" where
  "same_shape q q' \<longleftrightarrow> q_order q' = q_order q \<and> has_slot q' = has_slot q \<and> is_open q' = is_open q"

lemma same_shape_refl [simp]: "same_shape q q"
  by (simp add: same_shape_def)

lemma watchers_registry: "registry s' = registry s \<Longrightarrow> watchers s' x = watchers s x"
  by (simp add: watchers_def)

lemma watchers_fields [simp]: "watchers (s\<lparr>streams := l\<rparr>) y = watchers s y" "watchers (s\<lparr>permits_held := n\<rparr>) y = watchers s y"
  "watchers (s\<lparr>subStarted := b\<rparr>) y = watchers s y"
  by (simp_all add: watchers_def)

lemma registry_ok_shape:
  assumes "registry_ok s" "registry s' = registry s" "length (streams s') = length (streams s)"
    "\<And>i. i < length (streams s) \<Longrightarrow> same_shape (streams s ! i) (streams s' ! i)"
  shows "registry_ok s'"
  using assms(1,3,4) by (auto simp: registry_ok_def assms(2) watchers_registry [OF assms(2)] same_shape_def)

lemma open_count_shape:
  assumes "length (streams s') = length (streams s)" "\<And>i. i < length (streams s) \<Longrightarrow> same_shape (streams s ! i) (streams s' ! i)"
  shows "open_count s' = open_count s"
proof -
  have "map is_open (streams s') = map is_open (streams s)"
    using assms by (intro nth_equalityI) (auto simp: same_shape_def)
  then have "length (filter id (map is_open (streams s'))) = length (filter id (map is_open (streams s)))" by simp
  then show ?thesis by (simp add: open_count_def filter_map o_def)
qed

definition hub_ok :: "streamer \<Rightarrow> bool" where
  "hub_ok s \<longleftrightarrow> registry_ok s \<and> permits_ok s"

lemma hub_ok_shape:
  assumes "hub_ok s" "registry s' = registry s" "length (streams s') = length (streams s)"
    "\<And>i. i < length (streams s) \<Longrightarrow> same_shape (streams s ! i) (streams s' ! i)"
    "max_streams s' = max_streams s" "permits_held s' = permits_held s"
  shows "hub_ok s'"
  using registry_ok_shape [OF _ assms(2-4)] open_count_shape [OF assms(3,4)] assms(1,5,6)
  by (auto simp: hub_ok_def permits_ok_def split: option.splits)

lemma hub_ok_slots: "hub_ok s \<Longrightarrow> hub_ok (on_slots f ids s)"
  by (rule hub_ok_shape) (auto simp: nth_on_slots Let_def same_shape_def is_open_def has_slot_def)

lemma watchers_update:
  "watchers (s\<lparr>registry := AList.update x l (registry s)\<rparr>) y = (if y = x then l else watchers s y)"
  by (auto simp: watchers_def update_conv')

lemma watchers_delete:
  "watchers (s\<lparr>registry := AList.delete x (registry s)\<rparr>) y = (if y = x then [] else watchers s y)"
  by (auto simp: watchers_def delete_conv')

lemma watchers_unregister:
  "set (watchers (sse_unregister x i s) y) = (if y = x then set (watchers s x) - {i} else set (watchers s y))"
  by (auto simp: sse_unregister_def Let_def watchers_update watchers_delete removeAll_id filter_empty_conv removeAll_filter_not_eq)

lemma snd_update: "snd ` set (AList.update x l al) \<subseteq> insert l (snd ` set al)"
  by (induction al) auto

lemma snd_delete: "snd ` set (AList.delete x al) \<subseteq> snd ` set al"
  by (auto simp: AList.delete_eq)

lemma registry_register:
  assumes "distinct (map fst (registry s))" "[] \<notin> snd ` set (registry s)"
  shows "distinct (map fst (registry (sse_register x i s))) \<and> [] \<notin> snd ` set (registry (sse_register x i s))"
  using assms snd_update [of x "List.insert i (watchers s x)" "registry s"]
  by (auto simp: sse_register_def distinct_update List.insert_def split: if_splits)

lemma registry_unregister:
  assumes "distinct (map fst (registry s))" "[] \<notin> snd ` set (registry s)"
  shows "distinct (map fst (registry (sse_unregister x i s))) \<and> [] \<notin> snd ` set (registry (sse_unregister x i s))"
  using assms snd_update [of x "removeAll i (watchers s x)" "registry s"] snd_delete [of x "registry s"]
  by (auto simp: sse_unregister_def Let_def distinct_update distinct_delete)

lemma length_filter_update:
  "i < length xs \<Longrightarrow> A (xs ! i) \<Longrightarrow> \<not> A y \<Longrightarrow> Suc (length (filter A (xs[i := y]))) = length (filter A xs)"
  by (induction xs arbitrary: i) (auto split: nat.splits)

lemma registry_ok_close:
  assumes "registry_ok s" "i < length (streams s)"
  shows "registry_ok (stream_close i s)"
proof -
  let ?q = "streams s ! i"
  let ?s = "if q_slot ?q = None then s else sse_unregister (q_order ?q) i s"
  have reg: "registry (stream_close i s) = registry ?s"
    by (simp add: stream_close_def Let_def)
  have w: "set (watchers (stream_close i s) x) = set (watchers s x) - {i}" for x
    using assms unfolding watchers_registry [OF reg] registry_ok_def
    by (auto simp: watchers_unregister has_slot_def)
  show ?thesis using assms registry_unregister [of s "q_order ?q" i]
    by (auto simp: registry_ok_def reg w streams_close nth_list_update is_open_def has_slot_def)
qed

lemma hub_ok_close:
  assumes "hub_ok s" "i < length (streams s)" "is_open (streams s ! i)"
  shows "hub_ok (stream_close i s)"
proof -
  have "Suc (open_count (stream_close i s)) = open_count s"
    unfolding open_count_def streams_close by (rule length_filter_update) (use assms in \<open>auto simp: is_open_def\<close>)
  moreover have "permits_held (stream_close i s) = permits_held s - (if max_streams s = None then 0 else 1)"
    "max_streams (stream_close i s) = max_streams s" by (simp_all add: stream_close_def Let_def sse_unregister_def)
  ultimately show ?thesis using assms registry_ok_close by (auto simp: hub_ok_def permits_ok_def split: option.splits)
qed

lemma hub_ok_resume:
  assumes "hub_ok s" "i < length (streams s)" "is_open (streams s ! i)" "same_shape (streams s ! i) (fst res)"
  shows "hub_ok (resume i res s)"
proof -
  have "hub_ok (s\<lparr>streams := (streams s)[i := fst res]\<rparr>)"
    by (rule hub_ok_shape [OF assms(1)]) (use assms(2,4) in \<open>auto simp: nth_list_update\<close>)
  then show ?thesis using hub_ok_close assms(2-4) by (auto simp: resume_def Let_def same_shape_def)
qed

lemma send_shape [simp]: "q_order (fst (stream_send ok st q)) = q_order q" "q_slot (fst (stream_send ok st q)) = q_slot q"
  "q_phase (fst (stream_send ok st q)) = q_phase q" "q_seen (fst (stream_send ok st q)) = q_seen q"
  by (auto simp: stream_send_def Let_def)

lemmas shape_defs = same_shape_def is_open_def has_slot_def

lemma snapshot_shape: "is_open q \<Longrightarrow> same_shape q (fst (stream_snapshot rd ok q))"
  by (auto simp: stream_snapshot_def Let_def shape_defs)

lemma poll_shape: "same_shape q (fst (stream_poll rd ok q))"
  by (auto simp: stream_poll_def shape_defs split: sum.splits)

lemma woken_shape: "is_open q \<Longrightarrow> same_shape q (fst (stream_woken ok q))"
  by (auto simp: stream_woken_def take_slot_def Let_def shape_defs split: option.splits)

lemma refreshed_shape: "is_open q \<Longrightarrow> same_shape q (fst (stream_refreshed rd ok st q))"
  by (auto simp: stream_refreshed_def Let_def shape_defs split: option.splits sum.splits prod.splits if_splits)

lemma permits_ok_register [simp]: "permits_ok (sse_register x i s) = permits_ok s" "permits_ok (ensureSubscriber s) = permits_ok s"
  by (simp_all add: permits_ok_def open_count_def sse_register_def ensureSubscriber_def split: option.split)

lemma registry_ok_append:
  assumes "registry_ok s" "streams s1 = streams s @ [q]" "registry s1 = registry s" "is_open q" "has_slot q"
  shows "registry_ok (sse_register (q_order q) (length (streams s)) s1)"
proof -
  let ?x = "q_order q"
  let ?t = "sse_register ?x (length (streams s)) s1"
  have w: "set (watchers ?t y) = (if y = ?x then insert (length (streams s)) (set (watchers s ?x)) else set (watchers s y))" for y
    by (simp add: sse_register_def watchers_update watchers_registry [OF assms(3)])
  have "streams ?t = streams s @ [q]" by (simp add: sse_register_def assms(2))
  moreover have "distinct (map fst (registry ?t)) \<and> [] \<notin> snd ` set (registry ?t)"
    using registry_register [of s1] assms(1) by (simp add: registry_ok_def assms(3))
  ultimately show ?thesis using assms(1,4,5) by (auto simp: registry_ok_def w nth_append split: if_splits)
qed

lemma registry_ok_add:
  assumes "registry_ok s" "streams s1 = streams s @ [q]" "registry s1 = registry s" "\<not> has_slot q"
  shows "registry_ok s1"
  using assms(1,4) by (auto simp: registry_ok_def assms(2,3) watchers_registry [OF assms(3)] nth_append)

lemma hub_ok_open:
  assumes "hub_ok s" "permit \<Longrightarrow> \<forall>n. max_streams s = Some n \<longrightarrow> permits_held s < n"
  shows "hub_ok (fst (stream_open E permit po x lei v s))"
proof (cases "\<exists>st. snd (stream_open E permit po x lei v s) = StreamOpen st")
  case False
  then have "fst (stream_open E permit po x lei v s) = s" by (auto simp: stream_open_def Let_def split: stream_answer.splits if_splits)
  then show ?thesis using assms(1) by simp
next
  case True
  let ?s = "\<lambda>q. s\<lparr>permits_held := permits_held s + (if max_streams s = None then 0 else 1), streams := streams s @ [q]\<rparr>"
  obtain ans where ans: "stream_checks E (s_authDisabled s) po x v = StreamOpen ans" and per: "max_streams s \<noteq> None \<Longrightarrow> permit"
    using True by (auto simp: stream_open_def Let_def split: stream_answer.splits if_splits)
  define q where "q = new_stream (has_client s) x lei ans"
  have st: "fst (stream_open E permit po x lei v s) =
      (if has_client s then sse_register (q_order q) (length (streams s)) (ensureSubscriber (?s q)) else ?s q)"
    using ans per by (auto simp: stream_open_def Let_def q_def new_stream_def)
  have q: "is_open q" "has_slot q = has_client s" by (simp_all add: q_def new_stream_def shape_defs Let_def)
  have p: "permits_ok (?s q)" using assms per q(1)
    by (auto simp: hub_ok_def permits_ok_def open_count_def split: option.splits)
  have e: "streams (ensureSubscriber (?s q)) = streams s @ [q]" "registry (ensureSubscriber (?s q)) = registry s"
    by (simp_all add: ensureSubscriber_def)
  show ?thesis using assms(1) p q registry_ok_append [OF _ e] registry_ok_add [of s "?s q" q] unfolding st
    by (auto simp: hub_ok_def)
qed

lemma hub_ok_New: "hub_ok (sse_New c off [WithHeartbeat hb, WithPollInterval pl, WithMaxStreams n])"
  by (auto simp: hub_ok_def registry_ok_def permits_ok_def sse_New_def WithHeartbeat_def WithPollInterval_def WithMaxStreams_def
      watchers_def open_count_def split: option.splits)

lemma hub_ok_reach: "sse_reach P steady w H \<Longrightarrow> hub_ok (hub w)"
proof (induction rule: sse_reach.induct)
  case start then show ?case by (simp add: hub_ok_New)
next
  case (receive w H m ms)
  then show ?case by (auto simp: on_hub_def sse_dispatch_def intro: hub_ok_slots split: option.splits)
next
  case (opened w H E v permit po x lei)
  then show ?case by (simp add: on_hub_def hub_ok_open)
next
  case (snapshot w H E v i q ok)
  then show ?case using snapshot_shape by (auto simp: on_hub_def is_open_def intro!: hub_ok_resume)
next
  case (woken w H i q sl ok)
  then show ?case using woken_shape by (auto simp: on_hub_def is_open_def intro!: hub_ok_resume)
next
  case (reread w H E v i q st ok)
  then show ?case using refreshed_shape by (auto simp: on_hub_def is_open_def intro!: hub_ok_resume)
next
  case (polled w H E v i q ok)
  then show ?case using poll_shape by (auto simp: on_hub_def is_open_def intro!: hub_ok_resume)
next
  case (closed w H i)
  then show ?case by (simp add: on_hub_def hub_ok_close is_open_def)
next
  case (live w H)
  show ?case unfolding on_hub_def using live.IH by (auto simp: markLive_def intro: hub_ok_shape)
next
  case (lost w H)
  show ?case unfolding on_hub_def using lost.IH by (auto simp: markDown_def intro: hub_ok_shape)
next
  case (shutdown w H)
  show ?case unfolding on_hub_def using shutdown.IH by (auto simp: sse_Shutdown_def intro: hub_ok_shape)
next
  case (refreshed w H)
  then show ?case by (simp add: on_hub_def broadcastRefresh_def hub_ok_slots)
qed auto


subsection \<open>Streams only show what the order went through\<close>

definition message_ok :: "id_parser \<Rightarrow> read_row list list \<Rightarrow> json \<Rightarrow> bool" where
  "message_ok P H m \<longleftrightarrow> (\<exists>x st. m = update_json x st \<and> had_status P H x st)"

lemma message_ok_more: "message_ok P H m \<Longrightarrow> message_ok P (H @ [t]) m"
  unfolding message_ok_def using had_status_more by blast

definition stepped :: "stream \<times> bool \<Rightarrow> stream" where
  "stepped res = (if snd res then fst res else (fst res)\<lparr>q_phase := Closed\<rparr>)"

lemma streams_ok_stepped: "streams_ok I s \<Longrightarrow> I (stepped res) \<Longrightarrow> streams_ok I (resume i res s)"
  by (rule streams_ok_resume) (auto simp: stepped_def split: if_splits)

lemma inv_sent:
  "stream_inv P H q \<Longrightarrow> q_phase q \<noteq> Closed \<Longrightarrow> had_status P H (q_order q) st \<Longrightarrow> stream_inv P H (stepped (stream_send ok st q))"
  using stream_inv_send by (auto simp: stepped_def)

lemma inv_snapshot:
  assumes "stream_inv P H q" "q_phase q = Waiting" "\<And>cur c. rd = Inr (cur, c) \<Longrightarrow> had_status P H (q_order q) cur"
  shows "stream_inv P H (stepped (stream_snapshot rd ok q))"
proof -
  have "stream_inv P H (q\<lparr>q_phase := Running\<rparr>)" using assms(1,2) by (auto intro: stream_inv_phase simp: phase_status_def)
  then show ?thesis using assms unfolding stream_snapshot_def Let_def
    by (intro inv_sent) (auto simp: stream_inv_def split: sum.splits)
qed

lemma inv_poll:
  assumes "stream_inv P H q" "q_phase q = Running" "\<And>cur c. rd = Inr (cur, c) \<Longrightarrow> had_status P H (q_order q) cur"
  shows "stream_inv P H (stepped (stream_poll rd ok q))"
  using assms by (auto simp: stream_poll_def inv_sent stepped_def [of "(q, True)"] split: sum.splits)

lemma inv_woken:
  assumes "stream_inv P H q" "q_phase q = Running" "q_slot q = Some sl"
  shows "stream_inv P H (stepped (stream_woken ok q))"
proof -
  let ?q = "q\<lparr>q_slot := Some (sl\<lparr>sl_notify := False, sl_status := '''', sl_refresh := False\<rparr>)\<rparr>"
  have q: "stream_inv P H ?q" using assms by (auto simp: stream_inv_def)
  have sl: "sl_status sl = '''' \<or> had_status P H (q_order q) (sl_status sl)" using assms by (simp add: stream_inv_def)
  have r: "stream_inv P H (?q\<lparr>q_phase := Refreshing (sl_status sl)\<rparr>)"
    using q sl assms(2) by (auto simp: stream_inv_def phase_status_def)
  show ?thesis
  proof (cases "sl_refresh sl")
    case True
    then show ?thesis using r assms(3) by (simp add: stream_woken_def take_slot_def Let_def stepped_def)
  next
    case False
    then show ?thesis using q sl assms(2,3) inv_sent [OF q, of "sl_status sl" ok]
      by (auto simp: stream_woken_def take_slot_def Let_def stepped_def)
  qed
qed

lemma inv_refreshed:
  assumes "stream_inv P H q" "q_phase q = Refreshing st" "\<And>cur c. rd = Inr (cur, c) \<Longrightarrow> had_status P H (q_order q) cur"
  shows "stream_inv P H (stepped (stream_refreshed rd ok st q))"
proof -
  have st: "st = '''' \<or> had_status P H (q_order q) st" using assms(1,2) by (simp add: stream_inv_def phase_status_def)
  have run: "stream_inv P H (q'\<lparr>q_phase := Running\<rparr>)" if "stream_inv P H q'" "q_phase q' = Refreshing st" for q'
    using that by (auto intro: stream_inv_phase simp: phase_status_def)
  have r: "stream_inv P H (q\<lparr>q_slot := map_option markRefresh (q_slot q), q_phase := Running\<rparr>)"
    using run [OF stream_inv_refresh [OF assms(1)]] assms(2) by simp
  show ?thesis using st assms(3) inv_sent [OF run [OF assms(1,2)]] inv_sent [OF r] r run [OF assms(1,2)]
    by (auto simp: stream_refreshed_def Let_def stepped_def [of "(_, True)"] split: sum.splits)
qed

lemma inv_dispatch:
  assumes "streams_ok (stream_inv P H) s" "hub_ok s" "message_ok P H m"
  shows "streams_ok (stream_inv P H) (sse_dispatch m s)"
proof -
  obtain x st where m: "m = update_json x st" and had: "had_status P H x st" using assms(3) by (auto simp: message_ok_def)
  have "streams_ok (stream_inv P H) (on_slots (deliver st) (watchers s x) s)"
    by (rule streams_ok_slots [OF assms(1)])
       (use assms(2) had in \<open>auto simp: hub_ok_def registry_ok_def intro: stream_inv_deliver\<close>)
  then show ?thesis using assms(1) by (simp add: sse_dispatch_def m)
qed

lemma inv_open:
  assumes "streams_ok (stream_inv P H) s" "re_parse E = P" "v \<in> set H"
  shows "streams_ok (stream_inv P H) (fst (stream_open E permit po x lei v s))"
  by (rule streams_ok_open [OF assms(1)])
     (use checks_had [OF _ assms(2,3)] in \<open>auto simp: stream_inv_def new_stream_def newSlot_def phase_status_def Let_def\<close>)

lemma inv_closed: "stream_inv P H q \<Longrightarrow> stream_inv P H (q\<lparr>q_phase := Closed\<rparr>)"
  by (auto intro: stream_inv_phase simp: phase_status_def)

lemma sse_truth:
  "sse_reach P steady w H \<Longrightarrow> streams_ok (stream_inv P H) (hub w) \<and> (\<forall>m \<in> set (publishing w) \<union> set (chan w). message_ok P H m)"
proof (induction rule: sse_reach.induct)
  case start
  then show ?case by (simp add: streams_ok_def sse_New_def WithHeartbeat_def WithPollInterval_def WithMaxStreams_def)
next
  case (commit w H E op t obs)
  then show ?case using message_ok_more by (auto simp: streams_ok_def intro: stream_inv_more)
next
  case (notify w H E a x b)
  have "orders_read w \<in> set H" using versions_advance notify.hyps(1) by blast
  then have "message_ok P H m" if "Notify E x (orders_read w) (hub w) = Some m" for m
    using Notify_had [OF that notify.hyps(2), of H] by (auto simp: message_ok_def)
  then show ?case using notify by (cases "Notify E x (orders_read w) (hub w)") auto
next
  case (publish w H a m b ok)
  then show ?case by auto
next
  case (receive w H m ms)
  then show ?case using inv_dispatch [OF _ hub_ok_reach [OF receive.hyps(1)]] by (simp add: on_hub_def)
next
  case (opened w H E v permit po x lei)
  then show ?case by (simp add: on_hub_def inv_open)
next
  case (snapshot w H E v i q ok)
  then show ?case using inv_snapshot [of P H q "currentStatus E (q_order q) v" ok] currentStatus_had [OF _ snapshot.hyps(2,3)]
    by (auto simp: on_hub_def intro!: streams_ok_stepped dest: streams_okD)
next
  case (woken w H i q sl ok)
  then show ?case using inv_woken [of P H q sl ok] by (auto simp: on_hub_def intro!: streams_ok_stepped dest: streams_okD)
next
  case (reread w H E v i q st ok)
  then show ?case using inv_refreshed [of P H q st "currentStatus E (q_order q) v" ok] currentStatus_had [OF _ reread.hyps(2,3)]
    by (auto simp: on_hub_def intro!: streams_ok_stepped dest: streams_okD)
next
  case (polled w H E v i q ok)
  then show ?case using inv_poll [of P H q "currentStatus E (q_order q) v" ok] currentStatus_had [OF _ polled.hyps(2,3)]
    by (auto simp: on_hub_def intro!: streams_ok_stepped dest: streams_okD)
next
  case (closed w H i)
  then show ?case by (auto simp: on_hub_def intro!: streams_ok_close inv_closed)
next
  case (refreshed w H)
  then show ?case by (auto simp: on_hub_def broadcastRefresh_def intro!: streams_ok_slots stream_inv_refresh)
qed (auto simp: on_hub_def markLive_def markDown_def sse_Shutdown_def streams_ok_def)


subsection \<open>No update is lost\<close>

definition known_statuses :: "read_row list \<Rightarrow> bool" where
  "known_statuses t \<longleftrightarrow> (\<forall>x r. row_of t x = Some r \<longrightarrow> 0 \<le> statusOrdinal (rd_status r))"

lemma mark_known:
  assumes "mark_terminal st t x rows = (rows', res)" "terminal_status st" "known_statuses rows"
  shows "known_statuses rows'"
  using assms(2,3) ordinal_terminal [of st]
  by (auto simp: known_statuses_def row_of_mark [OF assms(1)] split: option.splits if_splits)

lemma terminal_handler_known:
  assumes "terminal_handler E what st raw w = (w', None)" "terminal_status st" "known_statuses (fst w)"
  shows "known_statuses (fst w')"
  using assms by (auto simp: terminal_handler_def split: sum.splits option.splits prod.splits dest: mark_known)

lemma created_known: "known_statuses rows \<Longrightarrow> known_statuses (UpsertOrderCreated t x c n u rows)"
  by (auto simp: known_statuses_def UpsertOrderCreated_def row_of_upsert statusOrdinal_def terminal_status_def split: option.splits if_splits)

lemma pending_known: "known_statuses rows \<Longrightarrow> known_statuses (InsertPendingOrder t p rows)"
  by (cases p) (auto simp: known_statuses_def InsertPendingOrder_def row_of_upsert statusOrdinal_def split: option.splits if_splits)

lemma project_known: "project E ev w = (w', None) \<Longrightarrow> known_statuses (fst w) \<Longrightarrow> known_statuses (fst w')"
  by (cases "(E, ev, w)" rule: project.cases)
     (auto simp: terminal_status_def split: sum.splits option.splits intro: created_known dest: terminal_handler_known)

lemma run_read_known: "run_read E op w = (w', None) \<Longrightarrow> known_statuses (fst w) \<Longrightarrow> known_statuses (fst w')"
  by (cases op) (auto split: option.splits simp: pending_known dest: project_known)

lemma known_reach: "sse_reach P steady w H \<Longrightarrow> known_statuses (orders_read w)"
proof (induction rule: sse_reach.induct)
  case start then show ?case by (simp add: known_statuses_def row_of_def)
next
  case (commit w H E op t obs)
  then show ?case using run_read_known [OF commit.hyps(3)] by simp
qed (auto simp: on_hub_def)

text \<open>A transaction changes no existing row but the one its hook names.\<close>

lemma terminal_handler_others:
  assumes "terminal_handler E what st raw w = (w', None)" "re_parse E raw = Inr raw" "x \<noteq> raw"
  shows "row_of (fst w') x = row_of (fst w) x"
  using assms by (auto simp: terminal_handler_def parseOrderID_def row_of_mark split: option.splits prod.splits)

lemma run_read_others:
  assumes "run_read E op w = (w', None)" "list_all (canonical_id (re_parse E)) (hooks_of op)" "x \<notin> set (hooks_of op)"
    "row_of (fst w) x = Some r"
  shows "row_of (fst w') x = Some r"
proof (cases op)
  case (Pend p)
  then show ?thesis using assms by (cases p) (auto simp: InsertPendingOrder_def row_of_upsert split: option.splits)
next
  case (Event ev)
  then have P: "re_parse E (event_order ev) = Inr (event_order ev)" "x \<noteq> event_order ev" "project E ev w = (w', None)"
    using assms by (auto simp: canonical_id_def)
  then show ?thesis using assms(4) terminal_handler_others
    by (cases "(E, ev, w)" rule: project.cases)
       (auto simp: parseOrderID_def UpsertOrderCreated_def row_of_upsert split: option.splits)
qed

text \<open>The ordinal of the current status, and where an update that a stream has not sent is on its way.\<close>

definition now_ordinal :: "sse_world \<Rightarrow> string \<Rightarrow> int" where
  "now_ordinal w x = (case row_of (orders_read w) x of Some r \<Rightarrow> statusOrdinal (rd_status r) | None \<Rightarrow> -1)"

definition in_mailbox :: "int \<Rightarrow> stream \<Rightarrow> bool" where
  "in_mailbox k q \<longleftrightarrow> (\<exists>sl. q_slot q = Some sl \<and> sl_notify sl \<and> (sl_refresh sl \<or> k \<le> statusOrdinal (sl_status sl)))"

definition in_flight :: "sse_world \<Rightarrow> string \<Rightarrow> int \<Rightarrow> bool" where
  "in_flight w x k \<longleftrightarrow> x \<in> set (hooks w) \<or> sub w \<noteq> SubReady
     \<or> (\<exists>st. update_json x st \<in> set (publishing w) \<union> set (chan w) \<and> k \<le> statusOrdinal st)"

definition covered :: "id_parser \<Rightarrow> sse_world \<Rightarrow> stream \<Rightarrow> bool" where
  "covered P w q \<longleftrightarrow>
     (q_phase q = Running \<and> has_slot q \<and> canonical_id P (q_order q) \<longrightarrow>
        now_ordinal w (q_order q) \<le> q_last q \<or> in_mailbox (now_ordinal w (q_order q)) q
        \<or> in_flight w (q_order q) (now_ordinal w (q_order q)))"

lemma coveredI: "(q_phase q = Running \<Longrightarrow> has_slot q \<Longrightarrow> canonical_id P (q_order q) \<Longrightarrow> now_ordinal w (q_order q) \<le> q_last q \<or> in_mailbox (now_ordinal w (q_order q)) q
        \<or> in_flight w (q_order q) (now_ordinal w (q_order q))) \<Longrightarrow> covered P w q"
  by (simp add: covered_def)

lemma in_flight_hub [simp]: "in_flight (w\<lparr>hub := s\<rparr>) x k = in_flight w x k" "now_ordinal (w\<lparr>hub := s\<rparr>) x = now_ordinal w x"
  by (simp_all add: in_flight_def now_ordinal_def)

lemma covered_hub [simp]: "covered P (w\<lparr>hub := s\<rparr>) q = covered P w q"
  by (simp add: covered_def)

lemma covered_mono:
  assumes "covered P w q" "now_ordinal w' (q_order q) = now_ordinal w (q_order q)"
    "\<And>k. in_flight w (q_order q) k \<Longrightarrow> in_flight w' (q_order q) k"
  shows "covered P w' q"
  using assms by (auto simp: covered_def)

lemma row_exists:
  assumes "sse_reach P steady w H" "i < length (streams (hub w))" "P (q_order (streams (hub w) ! i)) = Inr x"
  shows "\<exists>r. row_of (orders_read w) x = Some r"
proof -
  have "had_status P H (q_order (streams (hub w) ! i)) (q_status (streams (hub w) ! i))"
    using sse_truth [OF assms(1)] assms(2) by (auto simp: streams_ok_def stream_inv_def)
  then show ?thesis using assms(3) versions_advance [OF assms(1)] by (fastforce simp: had_status_def advances_def)
qed

lemma send_last: "statusOrdinal st \<le> q_last (fst (stream_send ok st q)) \<and> q_last q \<le> q_last (fst (stream_send ok st q))"
  by (auto simp: stream_send_def Let_def)

lemma deliver_mailbox:
  "in_mailbox k q \<Longrightarrow> in_mailbox k (q\<lparr>q_slot := map_option (deliver st) (q_slot q)\<rparr>)"
  "has_slot q \<Longrightarrow> k \<le> statusOrdinal st \<Longrightarrow> in_mailbox k (q\<lparr>q_slot := map_option (deliver st) (q_slot q)\<rparr>)"
  "has_slot q \<Longrightarrow> in_mailbox k (q\<lparr>q_slot := map_option markRefresh (q_slot q)\<rparr>)"
  by (cases "q_slot q"; auto simp: in_mailbox_def has_slot_def deliver_def wake_def markRefresh_def)+

lemma has_client_steps [simp]: "has_client (stream_close i s) = has_client s" "has_client (resume i res s) = has_client s"
  "has_client (fst (stream_open E permit po x lei v s)) = has_client s"
  by (auto simp: resume_def stream_close_def sse_unregister_def stream_open_def sse_register_def ensureSubscriber_def Let_def
      split: stream_answer.splits)

definition slot_needs_client :: "bool \<Rightarrow> stream \<Rightarrow> bool" where
  "slot_needs_client c q \<longleftrightarrow> (has_slot q \<longrightarrow> c)"

lemma slot_needs_client_shape:
  "slot_needs_client c q \<Longrightarrow> same_shape q (fst res) \<Longrightarrow> slot_needs_client c (stepped res)"
  by (simp add: slot_needs_client_def same_shape_def stepped_def has_slot_def)

lemma clients_resume:
  assumes "streams_ok (slot_needs_client c) s" "i < length (streams s)" "same_shape (streams s ! i) (fst res)"
  shows "streams_ok (slot_needs_client c) (resume i res s)"
  by (rule streams_ok_stepped [OF assms(1)]) (rule slot_needs_client_shape [OF streams_okD [OF assms(1,2)] assms(3)])

lemma clients_slots: "sse_reach P steady w H \<Longrightarrow> streams_ok (slot_needs_client (has_client (hub w))) (hub w)"
proof (induction rule: sse_reach.induct)
  case start
  then show ?case by (simp add: streams_ok_def sse_New_def WithHeartbeat_def WithPollInterval_def WithMaxStreams_def)
next
  case (opened w H E v permit po x lei)
  then show ?case by (auto simp: on_hub_def new_stream_def slot_needs_client_def has_slot_def Let_def intro!: streams_ok_open split: if_splits)
next
  case (receive w H m ms)
  then show ?case
    by (auto simp: on_hub_def sse_dispatch_def slot_needs_client_def has_slot_def intro!: streams_ok_slots split: option.splits)
next
  case (refreshed w H)
  then show ?case by (auto simp: on_hub_def broadcastRefresh_def slot_needs_client_def has_slot_def intro!: streams_ok_slots)
next
  case (closed w H i)
  then show ?case by (auto simp: on_hub_def slot_needs_client_def has_slot_def intro!: streams_ok_close)
next
  case (snapshot w H E v i q ok)
  then show ?case using snapshot_shape [of q]
    by (auto simp: on_hub_def is_open_def intro!: clients_resume)
next
  case (woken w H i q sl ok)
  then show ?case using woken_shape [of q]
    by (auto simp: on_hub_def is_open_def intro!: clients_resume)
next
  case (reread w H E v i q st ok)
  then show ?case using refreshed_shape [of q]
    by (auto simp: on_hub_def is_open_def intro!: clients_resume)
next
  case (polled w H E v i q ok)
  then show ?case using poll_shape [of q]
    by (auto simp: on_hub_def is_open_def intro!: clients_resume)
qed (auto simp: on_hub_def markLive_def markDown_def sse_Shutdown_def streams_ok_def)


lemma now_current:
  assumes "sse_reach P steady w H" "i < length (streams (hub w))" "q = streams (hub w) ! i" "canonical_id P (q_order q)"
    "re_parse E = P" "currentStatus E (q_order q) (orders_read w) = Inr (st, c)"
  shows "now_ordinal w (q_order q) = statusOrdinal st"
  using assms(4-6) by (auto simp: now_ordinal_def currentStatus_def canonical_id_def split: option.splits)

lemma now_known:
  assumes "sse_reach P steady w H" "i < length (streams (hub w))" "canonical_id P (q_order (streams (hub w) ! i))"
  shows "0 \<le> now_ordinal w (q_order (streams (hub w) ! i))"
  using row_exists [OF assms(1,2)] assms(3) known_reach [OF assms(1)] by (auto simp: now_ordinal_def canonical_id_def known_statuses_def)

lemma covered_last: "now_ordinal w (q_order q) \<le> q_last q \<Longrightarrow> covered P w q"
  by (simp add: covered_def)

lemma covered_idle: "q_phase q \<noteq> Running \<Longrightarrow> covered P w q"
  by (simp add: covered_def)

lemma covered_stepped:
  assumes "snd res \<Longrightarrow> canonical_id P (q_order (fst res)) \<Longrightarrow> covered P w (fst res)"
  shows "covered P w (stepped res)"
proof (cases "snd res \<and> canonical_id P (q_order (fst res))")
  case True then show ?thesis using assms by (simp add: stepped_def)
next
  case False then show ?thesis by (auto simp: stepped_def covered_def)
qed

lemma covered_woken:
  assumes "covered P w q" "q_phase q = Running" "q_slot q = Some sl" "sl_notify sl" "canonical_id P (q_order q)"
    "0 \<le> now_ordinal w (q_order q)"
  shows "covered P w (fst (stream_woken ok q))"
proof -
  let ?q = "q\<lparr>q_slot := Some (sl\<lparr>sl_notify := False, sl_status := '''', sl_refresh := False\<rparr>)\<rparr>"
  let ?k = "now_ordinal w (q_order q)"
  have cov: "?k \<le> q_last q \<or> sl_refresh sl \<or> ?k \<le> statusOrdinal (sl_status sl) \<or> in_flight w (q_order q) ?k"
    using assms by (auto simp: covered_def has_slot_def in_mailbox_def)
  show ?thesis
  proof (cases "sl_refresh sl")
    case True
    then show ?thesis using assms(3) by (simp add: stream_woken_def take_slot_def Let_def covered_idle)
  next
    case False
    have st: "sl_status sl \<noteq> ''''" if "?k \<le> statusOrdinal (sl_status sl)" using that assms(6) by auto
    have "covered P w (if sl_status sl \<noteq> '''' then fst (stream_send ok (sl_status sl) ?q) else ?q)"
      using cov False st send_last [of "sl_status sl" ok ?q] by (auto simp: covered_def)
    then show ?thesis using assms(3) False by (auto simp: stream_woken_def take_slot_def Let_def split: if_splits)
  qed
qed

lemma covered_refreshed:
  assumes "\<And>cur c. rd = Inr (cur, c) \<Longrightarrow> now_ordinal w (q_order q) = statusOrdinal cur" "0 \<le> now_ordinal w (q_order q)"
  shows "covered P w (fst (stream_refreshed rd ok st q))"
proof (cases rd)
  case (Inl e)
  let ?q = "q\<lparr>q_slot := map_option markRefresh (q_slot q), q_phase := Running\<rparr>"
  have "in_mailbox k ?q" if "has_slot q" for k using deliver_mailbox(3) [OF that, of k] by (simp add: in_mailbox_def)
  then have "covered P w ?q" "\<And>st. covered P w (fst (stream_send ok st ?q))"
    by (auto simp: covered_def has_slot_def in_mailbox_def)
  then show ?thesis by (simp add: stream_refreshed_def Let_def Inl)
next
  case (Inr sc)
  obtain cur c where sc: "sc = (cur, c)" by fastforce
  let ?st = "if statusOrdinal cur > statusOrdinal st then cur else st"
  have k: "now_ordinal w (q_order q) \<le> statusOrdinal ?st" using assms(1) Inr sc by simp
  then have "?st \<noteq> ''''" using assms(2) by auto
  then show ?thesis using k send_last [of ?st ok "q\<lparr>q_phase := Running\<rparr>"] Inr sc
    by (auto simp: stream_refreshed_def Let_def intro!: covered_last split: if_splits)
qed

lemma covered_dispatch:
  assumes "streams_ok (covered P w) s" "hub_ok s" "chan w = update_json x st # ms" "hub w = s"
  shows "streams_ok (covered P (w\<lparr>chan := ms\<rparr>)) (sse_dispatch (update_json x st) s)"
  unfolding streams_ok_def
proof (intro allI impI)
  fix i assume "i < length (streams (sse_dispatch (update_json x st) s))"
  then have i: "i < length (streams s)" by (simp add: sse_dispatch_def split: if_splits)
  let ?q = "streams s ! i" and ?w = "w\<lparr>chan := ms\<rparr>"
  have cov: "covered P w ?q" using assms(1) i by (simp add: streams_ok_def)
  have now: "now_ordinal ?w y = now_ordinal w y" for y by (simp add: now_ordinal_def)
  have fl: "in_flight ?w y k" if "in_flight w y k" "y \<noteq> x \<or> \<not> k \<le> statusOrdinal st" for y k
    using that by (auto simp: in_flight_def assms(3) update_json_def)
  show "covered P ?w (streams (sse_dispatch (update_json x st) s) ! i)"
  proof (cases "x \<noteq> '''' \<and> i \<in> set (watchers s x)")
    case True
    then have "q_order ?q = x" "has_slot ?q" using assms(2) by (auto simp: hub_ok_def registry_ok_def)
    then have "covered P ?w (?q\<lparr>q_slot := map_option (deliver st) (q_slot ?q)\<rparr>)"
      using cov fl [of x "now_ordinal w x"] deliver_mailbox(1) [of "now_ordinal w x" ?q st] deliver_mailbox(2) [of ?q "now_ordinal w x" st] by (auto simp: covered_def now)
    then show ?thesis using True i by (simp add: sse_dispatch_def nth_on_slots Let_def)
  next
    case False
    have "covered P ?w ?q"
    proof (rule coveredI)
      assume run: "q_phase ?q = Running" "has_slot ?q" "canonical_id P (q_order ?q)"
      then have "q_order ?q \<noteq> x" using False assms(2) i by (auto simp: hub_ok_def registry_ok_def is_open_def canonical_id_def)
      then show "now_ordinal ?w (q_order ?q) \<le> q_last ?q \<or> in_mailbox (now_ordinal ?w (q_order ?q)) ?q
          \<or> in_flight ?w (q_order ?q) (now_ordinal ?w (q_order ?q))" using cov run fl by (auto simp: covered_def now)
    qed
    then show ?thesis using False i by (auto simp: sse_dispatch_def nth_on_slots Let_def)
  qed
qed

lemma watchers_listed: "i \<in> set (watchers s x) \<Longrightarrow> i \<in> set (concat (map snd (registry s)))"
proof -
  assume i: "i \<in> set (watchers s x)"
  then obtain l where "map_of (registry s) x = Some l" "i \<in> set l" by (cases "map_of (registry s) x") (auto simp: watchers_def)
  then show ?thesis using map_of_SomeD [of "registry s" x l] by force
qed

lemma covered_refresh:
  assumes "hub_ok s"
  shows "streams_ok (covered P w) (broadcastRefresh s)"
  unfolding streams_ok_def
proof (intro allI impI)
  fix i assume i: "i < length (streams (broadcastRefresh s))"
  let ?q = "streams s ! i"
  show "covered P w (streams (broadcastRefresh s) ! i)"
  proof (rule coveredI)
    assume run: "q_phase (streams (broadcastRefresh s) ! i) = Running" "has_slot (streams (broadcastRefresh s) ! i)"
    then have "q_phase ?q = Running" "has_slot ?q" using i by (auto simp: broadcastRefresh_def nth_on_slots Let_def has_slot_def split: if_splits)
    then have "i \<in> set (watchers s (q_order ?q))" using assms i by (simp add: hub_ok_def registry_ok_def is_open_def broadcastRefresh_def)
    then have "i \<in> set (concat (map snd (registry s)))" by (rule watchers_listed)
    then have "streams (broadcastRefresh s) ! i = ?q\<lparr>q_slot := map_option markRefresh (q_slot ?q)\<rparr>"
      using i by (simp add: broadcastRefresh_def nth_on_slots Let_def)
    then show "now_ordinal w (q_order (streams (broadcastRefresh s) ! i)) \<le> q_last (streams (broadcastRefresh s) ! i)
        \<or> in_mailbox (now_ordinal w (q_order (streams (broadcastRefresh s) ! i))) (streams (broadcastRefresh s) ! i)
        \<or> in_flight w (q_order (streams (broadcastRefresh s) ! i)) (now_ordinal w (q_order (streams (broadcastRefresh s) ! i)))"
      using deliver_mailbox(3) [OF \<open>has_slot ?q\<close>] by simp
  qed
qed


lemma covered_commit:
  assumes "sse_reach P True w H" "re_parse E = P" "run_read E op (orders_read w, []) = ((t, obs), None)"
    "list_all (canonical_id P) (hooks_of op)" "streams_ok (covered P w) (hub w)"
  shows "streams_ok (covered P (w\<lparr>orders_read := t, hooks := hooks w @ hooks_of op\<rparr>)) (hub w)"
  unfolding streams_ok_def
proof (intro allI impI)
  fix i assume i: "i < length (streams (hub w))"
  let ?q = "streams (hub w) ! i" and ?w = "w\<lparr>orders_read := t, hooks := hooks w @ hooks_of op\<rparr>"
  have cov: "covered P w ?q" using assms(5) i by (simp add: streams_ok_def)
  show "covered P ?w ?q"
  proof (cases "canonical_id P (q_order ?q) \<and> q_order ?q \<notin> set (hooks_of op)")
    case True
    then obtain r where r: "row_of (orders_read w) (q_order ?q) = Some r" using row_exists [OF assms(1) i] by (auto simp: canonical_id_def)
    have "row_of t (q_order ?q) = Some r" using run_read_others [OF assms(3)] assms(2,4) True r by simp
    then show ?thesis using r by (intro covered_mono [OF cov]) (auto simp: now_ordinal_def in_flight_def)
  next
    case False
    then show ?thesis by (auto simp: covered_def in_flight_def)
  qed
qed

lemma covered_notify:
  assumes "sse_reach P True w H" "re_parse E = P" "hooks w = a @ x # b" "re_err E = None" "streams_ok (covered P w) (hub w)"
  shows "streams_ok (covered P
    (w\<lparr>hooks := a @ b, publishing := publishing w @ (case Notify E x (orders_read w) (hub w) of None \<Rightarrow> [] | Some m \<Rightarrow> [m])\<rparr>)) (hub w)"
  unfolding streams_ok_def
proof (intro allI impI)
  fix i assume i: "i < length (streams (hub w))"
  let ?q = "streams (hub w) ! i"
  let ?w = "w\<lparr>hooks := a @ b, publishing := publishing w @ (case Notify E x (orders_read w) (hub w) of None \<Rightarrow> [] | Some m \<Rightarrow> [m])\<rparr>"
  have cov: "covered P w ?q" using assms(5) i by (simp add: streams_ok_def)
  have now: "now_ordinal ?w y = now_ordinal w y" for y by (simp add: now_ordinal_def)
  show "covered P ?w ?q"
  proof (cases "canonical_id P (q_order ?q) \<and> has_slot ?q \<and> q_order ?q = x")
    case True
    then obtain r where r: "row_of (orders_read w) x = Some r" using row_exists [OF assms(1) i] by (auto simp: canonical_id_def)
    have c: "has_client (hub w)" using True clients_slots [OF assms(1)] i by (auto simp: streams_ok_def slot_needs_client_def)
    have "Notify E x (orders_read w) (hub w) = Some (update_json x (rd_status r))"
      using True r c assms(2,4) by (auto simp: Notify_def writerStatus_def canonical_id_def)
    then have "in_flight ?w x (now_ordinal w x)" using r by (auto simp: in_flight_def now_ordinal_def)
    then show ?thesis using True now by (auto simp: covered_def)
  next
    case False
    show ?thesis
    proof (rule coveredI)
      assume run: "q_phase ?q = Running" "has_slot ?q" "canonical_id P (q_order ?q)"
      then have "q_order ?q \<noteq> x" using False by simp
      then have "in_flight w (q_order ?q) k \<Longrightarrow> in_flight ?w (q_order ?q) k" for k by (auto simp: in_flight_def assms(3))
      then show "now_ordinal ?w (q_order ?q) \<le> q_last ?q \<or> in_mailbox (now_ordinal ?w (q_order ?q)) ?q
          \<or> in_flight ?w (q_order ?q) (now_ordinal ?w (q_order ?q))" using cov run by (auto simp: covered_def now)
    qed
  qed
qed

lemma covered_world:
  assumes "streams_ok (covered P w) s" "orders_read w' = orders_read w" "\<And>x k. in_flight w x k \<Longrightarrow> in_flight w' x k"
  shows "streams_ok (covered P w') s"
  unfolding streams_ok_def
proof (intro allI impI)
  fix i assume "i < length (streams s)"
  then have "covered P w (streams s ! i)" using assms(1) by (simp add: streams_ok_def)
  then show "covered P w' (streams s ! i)" by (rule covered_mono) (use assms(2,3) in \<open>auto simp: now_ordinal_def\<close>)
qed

lemma gap_covers: "sub w \<noteq> SubReady \<Longrightarrow> streams_ok (covered P w) s"
  by (simp add: streams_ok_def covered_def in_flight_def)

lemma covered_reach: "sse_reach P steady w H \<Longrightarrow> steady \<Longrightarrow> streams_ok (covered P w) (hub w)"
proof (induction rule: sse_reach.induct)
  case start
  then show ?case by (simp add: streams_ok_def sse_New_def WithHeartbeat_def WithPollInterval_def WithMaxStreams_def)
next
  case (commit w H E op t obs)
  then show ?case using covered_commit [of P w H E op t obs] by simp
next
  case (notify w H E a x b)
  then show ?case using covered_notify [of P w H E a x b] by simp
next
  case (publish w H a m b ok)
  let ?w = "w\<lparr>publishing := a @ b, chan := chan w @ (if ok \<and> sub w \<noteq> SubDown then [m] else [])\<rparr>"
  have "in_flight ?w x k" if "in_flight w x k" for x k
    using that publish.hyps(2,3) publish.prems by (cases "sub w = SubDown") (auto simp: in_flight_def)
  then show ?case using covered_world [OF publish.IH [OF publish.prems], of ?w] by simp
next
  case (receive w H m ms)
  obtain x st where m: "m = update_json x st" using sse_truth [OF receive.hyps(1)] receive.hyps(2) by (auto simp: message_ok_def)
  show ?case using covered_dispatch [OF receive.IH [OF receive.prems] hub_ok_reach [OF receive.hyps(1)] receive.hyps(2) [unfolded m] refl]
    by (simp add: on_hub_def m streams_ok_def)
next
  case (subscribed w H)
  then show ?case by (simp add: gap_covers)
next
  case (live w H)
  then show ?case by (simp add: gap_covers on_hub_def)
next
  case (lost w H)
  then show ?case by (simp add: gap_covers on_hub_def)
next
  case (refreshed w H)
  then show ?case using covered_refresh [OF hub_ok_reach [OF refreshed.hyps(1)]] by (simp add: on_hub_def streams_ok_def)
next
  case (opened w H E v permit po x lei)
  then have "streams_ok (covered P w) (fst (stream_open E permit po x lei v (hub w)))"
    by (intro streams_ok_open) (auto simp: new_stream_def Let_def covered_idle)
  then show ?case by (simp add: on_hub_def streams_ok_def)
next
  case (snapshot w H E v i q ok)
  have c: "covered P w (stepped (stream_snapshot (currentStatus E (q_order q) v) ok q))"
  proof (rule covered_stepped)
    assume "canonical_id P (q_order (fst (stream_snapshot (currentStatus E (q_order q) v) ok q)))"
    then have can: "canonical_id P (q_order q)" by (simp add: stream_snapshot_def Let_def)
    obtain r where r: "row_of (orders_read w) (q_order q) = Some r"
      using row_exists [OF snapshot.hyps(1,5)] can snapshot.hyps(6) by (auto simp: canonical_id_def)
    then have rd: "currentStatus E (q_order q) v = Inr (rd_status r, rd_customer r)"
      using snapshot.hyps(2,4) snapshot.prems can by (simp add: currentStatus_def canonical_id_def)
    show "covered P w (fst (stream_snapshot (currentStatus E (q_order q) v) ok q))"
      using send_last [of "rd_status r" ok "q\<lparr>q_phase := Running\<rparr>"] r
      by (intro covered_last) (simp add: rd stream_snapshot_def Let_def now_ordinal_def)
  qed
  then show ?case using streams_ok_stepped [OF snapshot.IH [OF snapshot.prems] c] by (simp add: on_hub_def streams_ok_def)
next
  case (woken w H i q sl ok)
  have "covered P w q" using woken.IH woken.prems woken.hyps(2,3) by (simp add: streams_ok_def)
  then have c: "covered P w (stepped (stream_woken ok q))"
    using covered_woken woken.hyps(3-6) now_known [OF woken.hyps(1,2)] woken_shape [of q ok]
    by (intro covered_stepped) (auto simp: same_shape_def is_open_def)
  then show ?case using streams_ok_stepped [OF woken.IH [OF woken.prems] c] by (simp add: on_hub_def streams_ok_def)
next
  case (reread w H E v i q st ok)
  have v: "v = orders_read w" using reread.hyps(4) reread.prems by simp
  have c: "covered P w (stepped (stream_refreshed (currentStatus E (q_order q) v) ok st q))"
  proof (rule covered_stepped)
    assume "canonical_id P (q_order (fst (stream_refreshed (currentStatus E (q_order q) v) ok st q)))"
    then have can: "canonical_id P (q_order q)" using refreshed_shape [of q] reread.hyps(7) by (simp add: same_shape_def is_open_def)
    show "covered P w (fst (stream_refreshed (currentStatus E (q_order q) v) ok st q))"
      by (rule covered_refreshed)
         (use now_current [OF reread.hyps(1,5,6) can reread.hyps(2)] now_known [OF reread.hyps(1,5)] reread.hyps(6) can v in auto)
  qed
  then show ?case using streams_ok_stepped [OF reread.IH [OF reread.prems] c] by (simp add: on_hub_def streams_ok_def)
next
  case (polled w H E v i q ok)
  have "covered P w q" using polled.IH polled.prems polled.hyps(4,5) by (simp add: streams_ok_def)
  moreover have "q_last q \<le> q_last (fst (stream_poll rd ok q))" for rd
    using send_last by (auto simp: stream_poll_def split: sum.splits)
  moreover have "q_slot (fst (stream_poll rd ok q)) = q_slot q" "q_order (fst (stream_poll rd ok q)) = q_order q"
    "q_phase (fst (stream_poll rd ok q)) = q_phase q" for rd by (auto simp: stream_poll_def split: sum.splits)
  ultimately have c: "covered P w (stepped (stream_poll rd ok q))" for rd
    by (intro covered_stepped) (auto simp: covered_def has_slot_def in_mailbox_def intro: order_trans)
  then show ?case using streams_ok_stepped [OF polled.IH [OF polled.prems] c] by (simp add: on_hub_def streams_ok_def)
next
  case (closed w H i)
  then have "streams_ok (covered P w) (stream_close i (hub w))" by (auto intro!: streams_ok_close covered_idle)
  then show ?case by (simp add: on_hub_def streams_ok_def)
qed (auto simp: on_hub_def sse_Shutdown_def streams_ok_def)


subsection \<open>What the client knows\<close>

text \<open>The client knows a status when it said so on connecting, or when that status is the last event of its stream.\<close>

definition informed :: "stream \<Rightarrow> string \<Rightarrow> bool" where
  "informed q st \<longleftrightarrow> statusOrdinal st \<le> q_seen q \<or> (q_out q \<noteq> [] \<and> last (q_out q) = (statusOrdinal st, st))"

text \<open>The stream answers its wake-up, reading the table when the mailbox asks for it; the writes succeed.\<close>

definition catch_up :: "read_env \<Rightarrow> read_row list \<Rightarrow> stream \<Rightarrow> stream" where
  "catch_up E t q =
     (let q1 = fst (stream_woken True q)
      in case q_phase q1 of Refreshing st \<Rightarrow> fst (stream_refreshed (currentStatus E (q_order q) t) True st q1) | _ \<Rightarrow> q1)"

lemma informed_last:
  assumes "stream_inv P H q" "q_phase q \<noteq> Closed" "P (q_order q) = Inr y" "row_of t y = Some r" "\<forall>v \<in> set H. advances v t"
    "statusOrdinal (rd_status r) \<le> q_last q"
  shows "informed q (rd_status r)"
proof (cases "q_out q = []")
  case True
  then show ?thesis using assms(1,2,6) by (simp add: stream_inv_def informed_def)
next
  case False
  obtain k st where l: "last (q_out q) = (k, st)" by fastforce
  have "q_last q = k" using assms(1,2) False l by (simp add: stream_inv_def last_map)
  moreover have k: "k = statusOrdinal st" "had_status P H (q_order q) st"
    using assms(1) last_in_set [OF False] l by (auto simp: stream_inv_def)
  moreover from this have "status_le st (rd_status r)" using assms(3-5) by (fastforce simp: had_status_def advances_def)
  ultimately have "st = rd_status r" using assms(6) by (auto simp: status_le_def)
  then show ?thesis using False l k by (simp add: informed_def)
qed

lemma send_true: "snd (stream_send True st q)"
  by (simp add: stream_send_def Let_def)

lemma woken_true: "snd (stream_woken True q)"
  by (simp add: stream_woken_def take_slot_def Let_def send_true split: option.split)

lemma refreshed_true: "snd (stream_refreshed rd True st q)"
  by (simp add: stream_refreshed_def Let_def send_true split: prod.split)

lemma catch_up_inv:
  assumes "stream_inv P H q" "q_phase q = Running" "q_slot q = Some sl" "re_parse E = P" "t \<in> set H"
  shows "stream_inv P H (catch_up E t q)"
proof -
  let ?q = "fst (stream_woken True q)"
  have q: "stream_inv P H ?q" "q_order ?q = q_order q"
    using inv_woken [OF assms(1-3), of True] woken_true [of q] woken_shape [of q True] assms(2)
    by (simp_all add: stepped_def same_shape_def is_open_def)
  have "stream_inv P H (fst (stream_refreshed (currentStatus E (q_order q) t) True st ?q))" if "q_phase ?q = Refreshing st" for st
    using inv_refreshed [OF q(1) that, of "currentStatus E (q_order q) t" True] refreshed_true q(2) currentStatus_had [OF _ assms(4,5)]
    by (simp add: stepped_def)
  then show ?thesis using q(1) by (simp add: catch_up_def Let_def split: phase.split)
qed

lemma catch_up_last:
  assumes "in_mailbox k q" "0 \<le> k" "q_phase q = Running" "currentStatus E (q_order q) t = Inr (cur, c)" "statusOrdinal cur = k"
  shows "k \<le> q_last (catch_up E t q) \<and> q_phase (catch_up E t q) = Running \<and> q_order (catch_up E t q) = q_order q \<and> q_seen (catch_up E t q) = q_seen q"
proof -
  obtain sl where sl: "q_slot q = Some sl" "sl_refresh sl \<or> k \<le> statusOrdinal (sl_status sl)" using assms(1) by (auto simp: in_mailbox_def)
  show ?thesis
  proof (cases "sl_refresh sl")
    case True
    let ?q = "q\<lparr>q_slot := Some (sl\<lparr>sl_notify := False, sl_status := '''', sl_refresh := False\<rparr>), q_phase := Refreshing (sl_status sl)\<rparr>"
    let ?st = "if statusOrdinal cur > statusOrdinal (sl_status sl) then cur else sl_status sl"
    have "?st \<noteq> ''''" "k \<le> statusOrdinal ?st" using assms(2,5) by auto
    then show ?thesis using sl(1) True assms(3,4) send_last [of ?st True "?q\<lparr>q_phase := Running\<rparr>"]
      by (auto simp: catch_up_def stream_woken_def take_slot_def Let_def stream_refreshed_def)
  next
    case False
    then have "sl_status sl \<noteq> ''''" "k \<le> statusOrdinal (sl_status sl)" using sl(2) assms(2) by auto
    then show ?thesis
      using sl(1) False assms(3) send_last [of "sl_status sl" True "q\<lparr>q_slot := Some (sl\<lparr>sl_notify := False, sl_status := '''', sl_refresh := False\<rparr>)\<rparr>"]
      by (auto simp: catch_up_def stream_woken_def take_slot_def Let_def)
  qed
qed

section \<open>Properties\<close>

text \<open>What a stream shows is true and never goes back: in every run, whatever is lost, delayed or read stale, the ids of
  the events of a stream grow strictly and start above the id the client presented, each id is the ordinal of its status,
  and each status is one the order had at some time. So a client sees at most one terminal status.\<close>

theorem sse_shows_history:
  assumes "sse_reach P steady w H" "q \<in> set (streams (hub w))"
  shows "sorted_wrt (<) (q_seen q # map fst (q_out q))
    \<and> list_all (\<lambda>(k, st). k = statusOrdinal st \<and> had_status P H (q_order q) st) (q_out q)"
  using sse_truth [OF assms(1)] assms(2) by (auto simp: streams_ok_def stream_inv_def list_all_iff in_set_conv_nth)

text \<open>C14. No update is lost: in a run without replica lag in which notifications are published, once no notification is on its
  way and the subscription is up, a stream over Redis has sent the current status of its order (or the client presented its
  ordinal), or its mailbox holds a wake-up, and answering it sends the current status. Subscription gaps, failed reads after
  a gap, and connections that come and go are included.\<close>

theorem sse_no_lost_update:
  assumes "sse_reach P True w H" "hooks w = []" "publishing w = []" "chan w = []" "sub w = SubReady"
    and "i < length (streams (hub w))" "q = streams (hub w) ! i" "q_phase q = Running" "q_slot q \<noteq> None"
    and "canonical_id P (q_order q)" "re_parse E = P" "re_err E = None"
  shows "\<exists>r. row_of (orders_read w) (q_order q) = Some r \<and>
    (informed q (rd_status r)
     \<or> (\<exists>sl. q_slot q = Some sl \<and> sl_notify sl) \<and> informed (catch_up E (orders_read w) q) (rd_status r))"
proof -
  have P: "P (q_order q) = Inr (q_order q)" using assms(10) by (simp add: canonical_id_def)
  obtain r where r: "row_of (orders_read w) (q_order q) = Some r" using row_exists [OF assms(1,6)] P assms(7) by blast
  have inv: "stream_inv P H q" using sse_truth [OF assms(1)] assms(6,7) by (simp add: streams_ok_def)
  have ver: "orders_read w \<in> set H" "\<forall>v \<in> set H. advances v (orders_read w)" using versions_advance [OF assms(1)] by auto
  have k: "now_ordinal w (q_order q) = statusOrdinal (rd_status r)" using r by (simp add: now_ordinal_def)
  have cs: "currentStatus E (q_order q) (orders_read w) = Inr (rd_status r, rd_customer r)"
    using r P assms(11,12) by (simp add: currentStatus_def)
  have "covered P w q" using covered_reach [OF assms(1)] assms(6,7) by (simp add: streams_ok_def)
  then consider "statusOrdinal (rd_status r) \<le> q_last q" | "in_mailbox (statusOrdinal (rd_status r)) q"
    using assms(2-5,8-10) k by (auto simp: covered_def in_flight_def has_slot_def)
  then show ?thesis
  proof cases
    case 1
    then show ?thesis using informed_last [OF inv _ P r ver(2)] assms(8) r by simp
  next
    case 2
    have k0: "0 \<le> statusOrdinal (rd_status r)" using now_known [OF assms(1,6)] assms(7,10) k by simp
    obtain sl where sl: "q_slot q = Some sl" "sl_notify sl" using 2 by (auto simp: in_mailbox_def)
    have c: "statusOrdinal (rd_status r) \<le> q_last (catch_up E (orders_read w) q)" "q_phase (catch_up E (orders_read w) q) = Running"
      "q_order (catch_up E (orders_read w) q) = q_order q" using catch_up_last [OF 2 k0 assms(8) cs refl] by auto
    have "informed (catch_up E (orders_read w) q) (rd_status r)"
      using informed_last [OF catch_up_inv [OF inv assms(8) sl(1) assms(11) ver(1)] _ _ r ver(2) c(1)] c P by simp
    then show ?thesis using r sl by auto
  qed
qed

text \<open>The bulkhead never leaks: the permits held are the open streams, at most the configured number, and the registry
  lists exactly the open streams that have a mailbox.\<close>

lemma sse_capacity:
  assumes "sse_reach P steady w H" "max_streams (hub w) = Some n"
  shows "permits_held (hub w) = open_count (hub w) \<and> open_count (hub w) \<le> n"
    and "open_count (hub w) = 0 \<Longrightarrow> registry (hub w) = []"
proof -
  have h: "hub_ok (hub w)" using hub_ok_reach assms(1) .
  then show "permits_held (hub w) = open_count (hub w) \<and> open_count (hub w) \<le> n" using assms(2) by (simp add: hub_ok_def permits_ok_def)
  assume "open_count (hub w) = 0"
  then have "\<not> is_open (streams (hub w) ! i)" if "i < length (streams (hub w))" for i
    using that by (auto simp: open_count_def filter_empty_conv)
  then have "i \<notin> set (watchers (hub w) x)" for i x using h by (auto simp: hub_ok_def registry_ok_def)
  then have none: "watchers (hub w) x = []" for x by (metis list.set_intros(1) neq_Nil_conv)
  show "registry (hub w) = []"
  proof (cases "registry (hub w)")
    case (Cons kv kvs)
    then have "snd kv = []" using none [of "fst kv"] by (cases kv) (simp add: watchers_def)
    then show ?thesis using h Cons by (force simp: hub_ok_def registry_ok_def)
  qed
qed

text \<open>The checks give a principal that is not an administrator the answer it would get if the table held only its orders.\<close>

lemma sse_isolation:
  assumes "AdminRole \<notin> set (p_roles p)" "distinct (map rd_id t)"
  shows "stream_checks E False (Some p) x t = stream_checks E False (Some p) x (filter (\<lambda>r. rd_customer r = p_subject p) t)"
proof (cases "re_parse E x")
  case (Inr y)
  show ?thesis using assms(1)
    by (cases "row_of t y"; cases "re_err E")
       (auto simp: stream_checks_def currentStatus_def Let_def Inr row_of_filter [OF assms(2)])
qed (simp add: stream_checks_def currentStatus_def)

text \<open>With several shards, the streamer reads the first one only: an order on another shard, which \<open>GET /v1/orders/{id}\<close>
  finds, has no stream.\<close>

lemma sse_other_shard_not_found:
  assumes "re_parse E x = Inr x" "re_err E = None" "Resolve dbs x \<noteq> 0" "row_of (dbs ! Resolve dbs x) x = Some r" "row_of (dbs ! 0) x = None"
  shows "GetOrderHandler E None x dbs = Found (to_view r)" "stream_checks E True None x (dbs ! 0) = StreamNotFound x"
  using assms by (simp_all add: GetOrderHandler_def stream_checks_def currentStatus_def)

section \<open>A run\<close>

definition sse_demo_env :: read_env where
  "sse_demo_env = \<lparr>re_parse = Inr, re_err = None, re_now = 3\<rparr>"

definition sse_demo_op :: read_op where
  "sse_demo_op = Event (FromOrders (OrderCreated ''o-1'' ''ann'' 5 ''USD''))"

definition sse_start :: sse_world where
  "sse_start = \<lparr>orders_read = [], hooks = [], publishing = [], chan = [], sub = SubDown,
     hub = sse_New True True [WithHeartbeat 15, WithPollInterval 2, WithMaxStreams 4]\<rparr>"

definition sse_table :: "read_row list" where
  "sse_table = fst (fst (run_read sse_demo_env sse_demo_op ([], [])))"

definition sse_committed :: sse_world where
  "sse_committed = sse_start\<lparr>orders_read := sse_table, hooks := hooks sse_start @ hooks_of sse_demo_op\<rparr>"

definition sse_opened :: sse_world where
  "sse_opened = on_hub (\<lambda>s. fst (stream_open sse_demo_env True None ''o-1'' [] sse_table s)) sse_committed"

definition sse_subscribed :: sse_world where
  "sse_subscribed = on_hub broadcastRefresh ((on_hub markLive ((sse_opened\<lparr>sub := SubAcked, chan := []\<rparr>)\<lparr>sub := SubLive\<rparr>))\<lparr>sub := SubReady\<rparr>)"

definition sse_running :: sse_world where
  "sse_running = on_hub (resume 0 (stream_snapshot (currentStatus sse_demo_env (q_order (streams (hub sse_subscribed) ! 0)) sse_table) True
     (streams (hub sse_subscribed) ! 0))) sse_subscribed"

definition sse_notified :: sse_world where
  "sse_notified = sse_running\<lparr>hooks := [] @ [], publishing := publishing sse_running @
     (case Notify sse_demo_env ''o-1'' (orders_read sse_running) (hub sse_running) of None \<Rightarrow> [] | Some m \<Rightarrow> [m])\<rparr>"

definition sse_published :: sse_world where
  "sse_published = sse_notified\<lparr>publishing := [] @ [],
     chan := chan sse_notified @ (if True \<and> sub sse_notified \<noteq> SubDown then [update_json ''o-1'' ''created''] else [])\<rparr>"

definition sse_received :: sse_world where
  "sse_received = on_hub (sse_dispatch (update_json ''o-1'' ''created'')) (sse_published\<lparr>chan := []\<rparr>)"

lemma sse_committed_reach: "sse_reach Inr True sse_committed ([[]] @ [sse_table])"
  unfolding sse_committed_def
  by (rule sse_reach.commit [where E = sse_demo_env and obs = "[]"])
     (auto simp: sse_start_def sse_table_def sse_demo_env_def sse_demo_op_def parseOrderID_def canonical_id_def intro: sse_reach.start)

lemma sse_opened_reach: "sse_reach Inr True sse_opened ([[]] @ [sse_table])"
  unfolding sse_opened_def
  by (rule sse_reach.opened [OF sse_committed_reach])
     (auto simp: sse_demo_env_def sse_committed_def sse_start_def sse_New_def WithHeartbeat_def WithPollInterval_def WithMaxStreams_def)

lemma sse_opened_hub: "subStarted (hub sse_opened) \<and> \<not> subCancelled (hub sse_opened) \<and> sub sse_opened = SubDown"
  by code_simp

lemma sse_subscribed_reach: "sse_reach Inr True sse_subscribed ([[]] @ [sse_table])"
  unfolding sse_subscribed_def
  by (intro sse_reach.refreshed sse_reach.live sse_reach.subscribed) (use sse_opened_reach sse_opened_hub in \<open>simp_all add: on_hub_def\<close>)

lemma sse_running_reach: "sse_reach Inr True sse_running ([[]] @ [sse_table])"
proof -
  have "orders_read sse_subscribed = sse_table" "0 < length (streams (hub sse_subscribed))"
    "q_phase (streams (hub sse_subscribed) ! 0) = Waiting" by code_simp+
  then show ?thesis unfolding sse_running_def
    by (intro sse_reach.snapshot [OF sse_subscribed_reach]) (auto simp: sse_demo_env_def)
qed

lemma sse_received_reach: "sse_reach Inr True sse_received ([[]] @ [sse_table])"
proof -
  have n: "sse_reach Inr True sse_notified ([[]] @ [sse_table])"
    unfolding sse_notified_def
    by (rule sse_reach.notify [OF sse_running_reach]) (simp_all add: sse_demo_env_def, code_simp)
  have "sse_reach Inr True sse_published ([[]] @ [sse_table])"
    unfolding sse_published_def by (rule sse_reach.publish [OF n]) (simp_all, code_simp)
  then show ?thesis unfolding sse_received_def by (rule sse_reach.receive) code_simp
qed

lemma sse_received_quiet:
  "hooks sse_received = []" "publishing sse_received = []" "chan sse_received = []" "sub sse_received = SubReady"
  "0 < length (streams (hub sse_received))" "q_phase (streams (hub sse_received) ! 0) = Running"
  "q_order (streams (hub sse_received) ! 0) = ''o-1''"
  by code_simp+

lemma sse_received_slot: "q_slot (streams (hub sse_received) ! 0) \<noteq> None"
  by code_simp

theorem sse_no_lost_update_witness:
  "\<exists>r. row_of (orders_read sse_received) ''o-1'' = Some r \<and>
    (informed (streams (hub sse_received) ! 0) (rd_status r)
     \<or> (\<exists>sl. q_slot (streams (hub sse_received) ! 0) = Some sl \<and> sl_notify sl)
         \<and> informed (catch_up sse_demo_env (orders_read sse_received) (streams (hub sse_received) ! 0)) (rd_status r))"
  using sse_no_lost_update [OF sse_received_reach sse_received_quiet(1-5) refl sse_received_quiet(6) sse_received_slot, of sse_demo_env]
  by (simp add: sse_received_quiet(7) canonical_id_def sse_demo_env_def)

theorem sse_shows_history_witness:
  "sorted_wrt (<) (q_seen (streams (hub sse_received) ! 0) # map fst (q_out (streams (hub sse_received) ! 0)))
    \<and> list_all (\<lambda>(k, st). k = statusOrdinal st \<and> had_status Inr ([[]] @ [sse_table]) (q_order (streams (hub sse_received) ! 0)) st)
        (q_out (streams (hub sse_received) ! 0))"
  by (rule sse_shows_history [OF sse_received_reach nth_mem [OF sse_received_quiet(5)]])

end
