(* ===== verification/Httpx.thy ===== *)
theory Httpx
  imports Gateway_Api
begin

text \<open>
  \<open>platform/web/httpx\<close>: the mapping of errors to problem documents (RFC 9457) and their localisation, and the codes of
  the gateway (\<open>examples/gateway/internal/apperrs\<close>). A response is the status and the document; its JSON text is the
  encoder's. A localiser, when the request has one, is an argument.
\<close>

section \<open>net/http\<close>

definition status_texts :: "(int \<times> string) list" where
  "status_texts =
     [(100, ''Continue''), (101, ''Switching Protocols''), (102, ''Processing''), (103, ''Early Hints''),
      (200, ''OK''), (201, ''Created''), (202, ''Accepted''), (203, ''Non-Authoritative Information''), (204, ''No Content''),
      (205, ''Reset Content''), (206, ''Partial Content''), (207, ''Multi-Status''), (208, ''Already Reported''), (226, ''IM Used''),
      (300, ''Multiple Choices''), (301, ''Moved Permanently''), (302, ''Found''), (303, ''See Other''), (304, ''Not Modified''),
      (305, ''Use Proxy''), (307, ''Temporary Redirect''), (308, ''Permanent Redirect''),
      (400, ''Bad Request''), (401, ''Unauthorized''), (402, ''Payment Required''), (403, ''Forbidden''), (404, ''Not Found''),
      (405, ''Method Not Allowed''), (406, ''Not Acceptable''), (407, ''Proxy Authentication Required''), (408, ''Request Timeout''),
      (409, ''Conflict''), (410, ''Gone''), (411, ''Length Required''), (412, ''Precondition Failed''),
      (413, ''Request Entity Too Large''), (414, ''Request URI Too Long''), (415, ''Unsupported Media Type''),
      (416, ''Requested Range Not Satisfiable''), (417, ''Expectation Failed''), (418, ''I'' @ CHR 0x27 # ''m a teapot''),
      (421, ''Misdirected Request''), (422, ''Unprocessable Entity''), (423, ''Locked''), (424, ''Failed Dependency''),
      (425, ''Too Early''), (426, ''Upgrade Required''), (428, ''Precondition Required''), (429, ''Too Many Requests''),
      (431, ''Request Header Fields Too Large''), (451, ''Unavailable For Legal Reasons''),
      (500, ''Internal Server Error''), (501, ''Not Implemented''), (502, ''Bad Gateway''), (503, ''Service Unavailable''),
      (504, ''Gateway Timeout''), (505, ''HTTP Version Not Supported''), (506, ''Variant Also Negotiates''),
      (507, ''Insufficient Storage''), (508, ''Loop Detected''), (510, ''Not Extended''), (511, ''Network Authentication Required'')]"

definition StatusText :: "int \<Rightarrow> string" where
  "StatusText code = (case map_of status_texts code of Some t \<Rightarrow> t | None \<Rightarrow> '''')"

section \<open>problem.go\<close>

type_synonym field_detail = "string \<times> string \<times> string"

text \<open>\<open>pb_fields\<close> is the entry \<open>fields\<close> of \<open>Params\<close>, absent when that entry is.\<close>

record Problem =
  pb_type :: string
  pb_title :: string
  pb_status :: int
  pb_detail :: string
  pb_instance :: string
  pb_code :: string
  pb_params :: "string \<rightharpoonup> string"
  pb_fields :: "field_detail list option"
  pb_errors :: "(string \<times> string) list"

definition problem0 :: Problem where
  "problem0 = \<lparr>pb_type = '''', pb_title = '''', pb_status = 0, pb_detail = '''', pb_instance = '''', pb_code = '''',
     pb_params = Map.empty, pb_fields = None, pb_errors = []\<rparr>"

text \<open>An error as a handler passes it: a chain, or the validation error of the request decoder.\<close>

datatype http_err = HErr go_err | HValidation "(string \<times> string) list" "field_detail list"

definition problemForCode :: "code_registry \<Rightarrow> string \<Rightarrow> Problem" where
  "problemForCode reg code =
     (let (st, detail) = (case reg code of Some r \<Rightarrow> (reg_status r, reg_message r) | None \<Rightarrow> (500, ''''))
      in problem0\<lparr>pb_status := st, pb_title := StatusText st, pb_detail := detail, pb_code := code\<rparr>)"

definition FromError :: "code_registry \<Rightarrow> http_err \<Rightarrow> Problem" where
  "FromError reg err =
     (case err of
        HErr e \<Rightarrow>
          (case as_app e of
             Some ae \<Rightarrow> problem0\<lparr>pb_status := status ae, pb_title := StatusText (status ae), pb_detail := Message ae,
                          pb_code := acode ae, pb_params := params ae\<rparr>
           | None \<Rightarrow> problem0\<lparr>pb_status := 500, pb_title := StatusText 500, pb_code := ''INTERNAL''\<rparr>)
      | HValidation fes details \<Rightarrow>
          (problemForCode reg ''VALIDATION_FAILED'')\<lparr>pb_errors := fes,
             pb_fields := (if details = [] then None else Some details)\<rparr>)"

section \<open>localize.go\<close>

text \<open>The localiser gets a code and the parameters of the document; for a field, the field itself.\<close>

record localizer =
  loc_problem :: "string \<Rightarrow> (string \<rightharpoonup> string) \<Rightarrow> (string \<times> string) option"
  loc_field :: "string \<Rightarrow> field_detail \<Rightarrow> (string \<times> string) option"

fun set_entry :: "string \<Rightarrow> string \<Rightarrow> (string \<times> string) list \<Rightarrow> (string \<times> string) list" where
  "set_entry k v [] = [(k, v)]"
| "set_entry k v ((k', v') # es) = (if k' = k then (k, v) # es else (k', v') # set_entry k v es)"

definition localize_field :: "localizer \<Rightarrow> field_detail \<Rightarrow> (string \<times> string) list \<Rightarrow> (string \<times> string) list" where
  "localize_field loc f out =
     (case f of (field, rule, _) \<Rightarrow>
        if field = '''' \<or> rule = '''' then out
        else case loc_field loc (''validation.'' @ rule) f of
            Some (_, detail) \<Rightarrow> if detail \<noteq> '''' then set_entry field detail out else out
          | None \<Rightarrow> out)"

definition localizeFieldErrors :: "localizer \<Rightarrow> (string \<times> string) list \<Rightarrow> field_detail list option \<Rightarrow> (string \<times> string) list" where
  "localizeFieldErrors loc errs fo =
     (case fo of
        None \<Rightarrow> errs
      | Some fs \<Rightarrow> if errs = [] then errs else foldl (\<lambda>out f. localize_field loc f out) errs fs)"

definition WriteProblem :: "Problem \<Rightarrow> int \<times> Problem" where
  "WriteProblem p =
     (let p1 = (if pb_status p = 0 then p\<lparr>pb_status := 500\<rparr> else p);
          p2 = (if pb_title p1 = '''' then p1\<lparr>pb_title := StatusText (pb_status p1)\<rparr> else p1)
      in (pb_status p2, p2))"

definition localized :: "localizer \<Rightarrow> Problem \<Rightarrow> Problem" where
  "localized loc p =
     (let p1 = (case loc_problem loc (pb_code p) (pb_params p) of
                  Some (title, detail) \<Rightarrow>
                    p\<lparr>pb_title := (if title \<noteq> '''' then title else pb_title p),
                      pb_detail := (if detail \<noteq> '''' then detail else pb_detail p)\<rparr>
                | None \<Rightarrow> p)
      in if pb_code p1 = ''VALIDATION_FAILED'' then p1\<lparr>pb_errors := localizeFieldErrors loc (pb_errors p1) (pb_fields p1)\<rparr>
         else p1)"

definition WriteError :: "code_registry \<Rightarrow> localizer option \<Rightarrow> string \<Rightarrow> http_err \<Rightarrow> int \<times> Problem" where
  "WriteError reg loc urlpath err =
     (let p = FromError reg err;
          p1 = (if pb_instance p = '''' then p\<lparr>pb_instance := urlpath\<rparr> else p)
      in WriteProblem (case loc of Some l \<Rightarrow> if pb_code p1 \<noteq> '''' then localized l p1 else p1 | None \<Rightarrow> p1))"

section \<open>apperrs.go\<close>

definition gateway_codes :: "(string \<times> int \<times> bool \<times> string \<times> string list) list" where
  "gateway_codes =
     [(''GATEWAY_ORDER_NOT_FOUND'', 404, True, ''order {order_id} not found'', [''order_id'']),
      (''GATEWAY_INVALID_CURSOR'', 400, True, ''invalid cursor parameter'', []),
      (''GATEWAY_IDEMPOTENCY_BODY_MISMATCH'', 409, True,
       ''idempotency key reused with different request body; replay the original request unchanged or use a new key'', []),
      (''GATEWAY_MALFORMED_REQUEST'', 400, True, ''malformed request: {reason}'', [''reason'']),
      (''GATEWAY_INVALID_TIMEZONE'', 400, True,
       ''invalid X-Timezone value {timezone}: must be an IANA tz database name such as Europe/Kyiv'', [''timezone'']),
      (''GATEWAY_ATTACHMENTS_DISABLED'', 404, True, ''attachments disabled'', []),
      (''GATEWAY_ATTACHMENT_INVALID_ORDER_ID'', 400, True, ''invalid order id'', []),
      (''GATEWAY_ATTACHMENT_INVALID_FILENAME'', 400, True, ''invalid filename'', []),
      (''GATEWAY_ATTACHMENT_NOT_FOUND'', 404, True, ''attachment not found'', []),
      (''GATEWAY_ATTACHMENT_TYPE_REJECTED'', 415, True, ''attachment content type {content_type} is not allowed'', [''content_type'']),
      (''GATEWAY_ATTACHMENT_TOO_LARGE'', 413, True, ''attachment exceeds the maximum allowed size'', []),
      (''GATEWAY_SSE_SATURATED'', 503, False, ''order event stream capacity reached; retry shortly'', [])]"

fun register_codes :: "code_registry \<Rightarrow> (string \<times> int \<times> bool \<times> string \<times> string list) list \<Rightarrow> code_registry option" where
  "register_codes reg [] = Some reg"
| "register_codes reg ((c, st, perm, m, ps) # rest) =
     (case app_Register reg c st perm m ps of None \<Rightarrow> None | Some reg' \<Rightarrow> register_codes reg' rest)"

text \<open>The initialisers of the process: the platform's codes, then the gateway's. \<open>None\<close> is a panic.\<close>

definition gateway_registry :: "code_registry option" where
  "gateway_registry =
     (case register_all Map.empty platform_codes of None \<Rightarrow> None | Some reg \<Rightarrow> register_codes reg gateway_codes)"

section \<open>Lemmas\<close>

definition registered_as :: "code_registry \<Rightarrow> string \<times> int \<times> bool \<times> string \<times> string list \<Rightarrow> bool" where
  "registered_as reg x = (case x of (c, st, perm, _) \<Rightarrow> (\<exists>r. reg c = Some r \<and> reg_status r = st \<and> reg_permanent r = perm))"

lemma register_codes_lookup:
  assumes "distinct (map fst cs)" "set (map fst cs) \<inter> dom reg = {}"
  shows "\<exists>reg'. register_codes reg cs = Some reg' \<and> dom reg' = dom reg \<union> set (map fst cs)
     \<and> (\<forall>x \<in> set cs. registered_as reg' x)
     \<and> (\<forall>c. c \<notin> set (map fst cs) \<longrightarrow> reg' c = reg c)"
  using assms
proof (induction cs arbitrary: reg)
  case Nil
  then show ?case by simp
next
  case (Cons x cs)
  obtain c st perm m ps where x: "x = (c, st, perm, m, ps)" by (cases x) auto
  then obtain reg1 where r: "app_Register reg c st perm m ps = Some reg1" "dom reg1 = insert c (dom reg)"
      "\<exists>r. reg1 c = Some r \<and> reg_status r = st \<and> reg_permanent r = perm" "\<forall>d. d \<noteq> c \<longrightarrow> reg1 d = reg d"
    using Cons.prems by (auto simp: app_Register_def domIff split: option.splits)
  then obtain reg' where reg': "register_codes reg1 cs = Some reg'" "dom reg' = dom reg1 \<union> set (map fst cs)"
      "\<forall>x \<in> set cs. registered_as reg' x"
      "\<forall>c. c \<notin> set (map fst cs) \<longrightarrow> reg' c = reg1 c"
    using Cons.IH [of reg1] Cons.prems x by auto
  moreover have "reg' c = reg1 c" using reg'(4) Cons.prems(1) x by simp
  ultimately show ?case using r x by (auto simp: registered_as_def)
qed

text \<open>Codes are documented API: every code of the gateway is registered at start, without a panic, with its status.\<close>

lemma gateway_codes_registered:
  "\<exists>reg. gateway_registry = Some reg \<and> (\<forall>(c, st, perm, m, ps) \<in> set gateway_codes. status (app_New reg c) = st)"
proof -
  obtain reg where reg: "register_all Map.empty platform_codes = Some reg" "dom reg = set (map fst platform_codes)"
    using register_all_distinct [of platform_codes Map.empty] by (auto simp: platform_codes_def)
  have "\<exists>reg'. register_codes reg gateway_codes = Some reg' \<and> dom reg' = dom reg \<union> set (map fst gateway_codes)
     \<and> (\<forall>x \<in> set gateway_codes. registered_as reg' x)
     \<and> (\<forall>c. c \<notin> set (map fst gateway_codes) \<longrightarrow> reg' c = reg c)"
    by (rule register_codes_lookup) (simp_all add: gateway_codes_def reg(2) platform_codes_def)
  then show ?thesis using reg(1) by (fastforce simp: gateway_registry_def app_New_def registered_as_def)
qed

text \<open>Nothing of an error that carries no code reaches the client, and of a coded error only the code, its parameters
  and its own message: the cause and the wrapping texts do not.\<close>

lemma unknown_error_opaque: "as_app e = None \<Longrightarrow> as_app e' = None \<Longrightarrow> WriteError reg loc p (HErr e) = WriteError reg loc p (HErr e')"
  by (simp add: WriteError_def FromError_def)

lemma cause_opaque: "WriteError reg loc p (HErr (ErrApp ae c)) = WriteError reg loc p (HErr (ErrWrap t (ErrApp ae c')))"
  by (simp add: WriteError_def FromError_def)

text \<open>Localisation touches the texts only.\<close>

lemma localize_contract:
  "pb_status (localized l p) = pb_status p \<and> pb_code (localized l p) = pb_code p \<and> pb_params (localized l p) = pb_params p
     \<and> pb_fields (localized l p) = pb_fields p"
  by (auto simp: localized_def Let_def split: option.splits)

end
