(* ===== verification/Attachments.thy ===== *)
theory Attachments
  imports Httpx
begin

text \<open>
  \<open>examples/gateway/internal/attachments\<close>: upload and download of files of an order, over an object store
  (\<open>platform/storage/blob\<close>). The locale \<open>object_store\<close> is what the handler relies on; the in-memory store of the test kit is an
  instance, and so is the S3 store over a client that behaves as documented. The flag, the owner lookup, the auditor
  and the parser of ids are fields of the handler, as in the code.
\<close>

section \<open>Object stores\<close>

text \<open>An object is its bytes and its content type. The flag of \<open>b_presign\<close> is the option \<open>PresignAttachment\<close>.\<close>

record 's blob_ops =
  b_put :: "string \<Rightarrow> string \<Rightarrow> string \<Rightarrow> 's \<Rightarrow> 's \<times> go_err option"
  b_get :: "string \<Rightarrow> 's \<Rightarrow> (go_err, string) result"
  b_delete :: "string \<Rightarrow> 's \<Rightarrow> 's \<times> go_err option"
  b_exists :: "string \<Rightarrow> 's \<Rightarrow> (go_err, bool) result"
  b_presign :: "string \<Rightarrow> bool \<Rightarrow> 's \<Rightarrow> (go_err, string) result"
  b_list :: "string \<Rightarrow> 's \<Rightarrow> (go_err, string list) result"

type_synonym objects = "(string \<times> string \<times> string) list"

definition obj_of :: "objects \<Rightarrow> string \<Rightarrow> (string \<times> string) option" where
  "obj_of os k = map_of os k"

subsection \<open>testkit/fakes/objectstore.go\<close>

definition fake_put :: "string \<Rightarrow> string \<Rightarrow> string \<Rightarrow> objects \<Rightarrow> objects \<times> go_err option" where
  "fake_put k d t os = ((k, d, t) # filter (\<lambda>e. fst e \<noteq> k) os, None)"

definition fake_get :: "string \<Rightarrow> objects \<Rightarrow> (go_err, string) result" where
  "fake_get k os = (case obj_of os k of
      Some (d, _) \<Rightarrow> Inr d
    | None \<Rightarrow> Inl (ErrText (''fakes: ObjectStore.Get: key '' @ [CHR 0x22] @ k @ [CHR 0x22] @ '' not found'')))"

definition fake_delete :: "string \<Rightarrow> objects \<Rightarrow> objects \<times> go_err option" where
  "fake_delete k os = (filter (\<lambda>e. fst e \<noteq> k) os, None)"

definition fake_exists :: "string \<Rightarrow> objects \<Rightarrow> (go_err, bool) result" where
  "fake_exists k os = Inr (case obj_of os k of Some _ \<Rightarrow> True | None \<Rightarrow> False)"

definition fake_presign :: "string \<Rightarrow> bool \<Rightarrow> objects \<Rightarrow> (go_err, string) result" where
  "fake_presign k attach os =
     (case obj_of os k of
        None \<Rightarrow> Inl (ErrText (''fakes: ObjectStore.PresignGet: key '' @ [CHR 0x22] @ k @ [CHR 0x22] @ '' not found''))
      | Some _ \<Rightarrow> Inr (''https://fake-blob.local/'' @ k @
          (if attach then ''?response-content-disposition=attachment&response-content-type=application%2Foctet-stream'' else '''')))"

definition fake_list :: "string \<Rightarrow> objects \<Rightarrow> (go_err, string list) result" where
  "fake_list prefix os = Inr (filter (\<lambda>k. has_prefix k prefix) (map fst os))"

definition fake_store :: "objects blob_ops" where
  "fake_store = \<lparr>b_put = fake_put, b_get = fake_get, b_delete = fake_delete, b_exists = fake_exists,
     b_presign = fake_presign, b_list = fake_list\<rparr>"

subsection \<open>blob.go, s3.go\<close>

text \<open>The client of the service: its calls as functions of the request and the state of the bucket. An error is missing-object
  (\<open>types.NotFound\<close>, \<open>NoSuchKey\<close>, \<open>NoSuchBucket\<close>, or an API error with such a code) or another.\<close>

datatype s3_error = S3NotFound | S3NoSuchKey | S3NoSuchBucket | S3Api string go_err | S3Other go_err

definition isNotFound :: "s3_error \<Rightarrow> bool" where
  "isNotFound e =
     (case e of S3NotFound \<Rightarrow> True | S3NoSuchKey \<Rightarrow> True | S3NoSuchBucket \<Rightarrow> True
      | S3Api code _ \<Rightarrow> code = ''NotFound'' \<or> code = ''NoSuchKey'' \<or> code = ''NoSuchBucket''
      | S3Other _ \<Rightarrow> False)"

definition s3_err :: "s3_error \<Rightarrow> go_err" where
  "s3_err e = (case e of S3Api _ g \<Rightarrow> g | S3Other g \<Rightarrow> g | S3NotFound \<Rightarrow> ErrText ''NotFound'' | S3NoSuchKey \<Rightarrow> ErrText ''NoSuchKey''
     | S3NoSuchBucket \<Rightarrow> ErrText ''NoSuchBucket'')"

record presign_config =
  contentDisposition :: string
  contentType :: string

definition PresignAttachment :: "presign_config \<Rightarrow> presign_config" where
  "PresignAttachment c = c\<lparr>contentDisposition := ''attachment'', contentType := ''application/octet-stream''\<rparr>"

definition PresignWantsAttachment :: "(presign_config \<Rightarrow> presign_config) list \<Rightarrow> bool" where
  "PresignWantsAttachment opts \<longleftrightarrow>
     contentDisposition (foldl (\<lambda>c opt. opt c) \<lparr>contentDisposition = '''', contentType = ''''\<rparr> opts) = ''attachment''"

record 's s3_client =
  PutObject :: "string \<Rightarrow> string \<Rightarrow> string \<Rightarrow> int \<Rightarrow> string \<Rightarrow> 's \<Rightarrow> 's \<times> s3_error option"
  GetObject :: "string \<Rightarrow> string \<Rightarrow> 's \<Rightarrow> (s3_error, string) result"
  DeleteObject :: "string \<Rightarrow> string \<Rightarrow> 's \<Rightarrow> 's \<times> s3_error option"
  HeadObject :: "string \<Rightarrow> string \<Rightarrow> 's \<Rightarrow> s3_error option"
  PresignGetObject :: "string \<Rightarrow> string \<Rightarrow> string option \<Rightarrow> string option \<Rightarrow> 's \<Rightarrow> (s3_error, string) result"
  ListPages :: "string \<Rightarrow> string \<Rightarrow> 's \<Rightarrow> (s3_error, string list) result list"

text \<open>\<open>getObjectInput\<close>: the overrides of the response, absent when the option left them empty.\<close>

definition getObjectInput :: "(presign_config \<Rightarrow> presign_config) list \<Rightarrow> string option \<times> string option" where
  "getObjectInput opts =
     (let c = foldl (\<lambda>c opt. opt c) \<lparr>contentDisposition = '''', contentType = ''''\<rparr> opts
      in (if contentDisposition c \<noteq> '''' then Some (contentDisposition c) else None,
          if contentType c \<noteq> '''' then Some (contentType c) else None))"

fun list_pages :: "(s3_error, string list) result list \<Rightarrow> (go_err, string list) result" where
  "list_pages [] = Inr []"
| "list_pages (Inl e # ps) = Inl (s3_err e)"
| "list_pages (Inr ks # ps) = map_sum id (\<lambda>rest. ks @ rest) (list_pages ps)"

definition s3_store :: "'s s3_client \<Rightarrow> string \<Rightarrow> 's blob_ops" where
  "s3_store C bucket =
     \<lparr>b_put = (\<lambda>k d t s. map_prod id (map_option s3_err) (PutObject C bucket k d (int (length d)) t s)),
      b_get = (\<lambda>k s. map_sum s3_err id (GetObject C bucket k s)),
      b_delete = (\<lambda>k s. map_prod id (map_option s3_err) (DeleteObject C bucket k s)),
      b_exists = (\<lambda>k s. case HeadObject C bucket k s of
          Some e \<Rightarrow> if isNotFound e then Inr False else Inl (s3_err e)
        | None \<Rightarrow> Inr True),
      b_presign = (\<lambda>k attach s.
          (case getObjectInput (if attach then [PresignAttachment] else []) of
             (disp, ct) \<Rightarrow> map_sum s3_err id (PresignGetObject C bucket k disp ct s))),
      b_list = (\<lambda>p s. list_pages (ListPages C bucket p s))\<rparr>"

text \<open>The documented behaviour of the service the handlers rely on.\<close>

definition s3_documented :: "'s s3_client \<Rightarrow> string \<Rightarrow> ('s \<Rightarrow> string \<Rightarrow> (string \<times> string) option) \<Rightarrow> bool" where
  "s3_documented C bucket obj \<longleftrightarrow>
     (\<forall>k d n t s. obj (fst (PutObject C bucket k d n t s)) = (obj s)(k \<mapsto> (d, t))
        \<or> snd (PutObject C bucket k d n t s) \<noteq> None \<and> obj (fst (PutObject C bucket k d n t s)) = obj s)
     \<and> (\<forall>k s. HeadObject C bucket k s = None \<longrightarrow> obj s k \<noteq> None)
     \<and> (\<forall>k s e. HeadObject C bucket k s = Some e \<longrightarrow> isNotFound e \<longrightarrow> obj s k = None)"

section \<open>The contract\<close>

text \<open>A failed upload may or may not have stored the object; nothing else is touched.\<close>

locale object_store =
  fixes B :: "'s blob_ops" and obj :: "'s \<Rightarrow> string \<Rightarrow> (string \<times> string) option"
  assumes put_ok: "b_put B k d t s = (s', None) \<Longrightarrow> obj s' = (obj s)(k \<mapsto> (d, t))"
    and put_err: "b_put B k d t s = (s', Some e) \<Longrightarrow> obj s' = obj s \<or> obj s' = (obj s)(k \<mapsto> (d, t))"
    and exists_says: "b_exists B k s = Inr b \<Longrightarrow> b \<longleftrightarrow> obj s k \<noteq> None"
begin

lemma put_changes:
  assumes "b_put B k d t s = (s', e)" "obj s' k' \<noteq> obj s k'"
  shows "k' = k \<and> obj s' k' = Some (d, t)"
  using assms put_ok put_err by (cases e) (fastforce split: if_splits)+

end

interpretation fake: object_store fake_store obj_of
proof unfold_locales
  fix k d t s s'
  assume "b_put fake_store k d t s = (s', None)"
  then have s': "s' = (k, d, t) # filter (\<lambda>e. fst e \<noteq> k) s" by (simp add: fake_store_def fake_put_def)
  have "map_of (filter (\<lambda>e. fst e \<noteq> k) s) k' = map_of s k'" if "k' \<noteq> k" for k' using that by (induction s) auto
  then show "obj_of s' = (obj_of s)(k \<mapsto> (d, t))" by (auto simp: obj_of_def s' fun_eq_iff)
qed (auto simp: fake_store_def fake_put_def fake_exists_def split: option.splits)

lemma s3_object_store:
  assumes "s3_documented C bucket obj"
  shows "object_store (s3_store C bucket) obj"
proof
  fix k d t s s'
  assume "b_put (s3_store C bucket) k d t s = (s', None)"
  then have "PutObject C bucket k d (int (length d)) t s = (s', None)" by (auto simp: s3_store_def map_prod_def split: prod.splits)
  then show "obj s' = (obj s)(k \<mapsto> (d, t))" using assms unfolding s3_documented_def by (metis fst_conv snd_conv)
next
  fix k d t s s' e
  assume "b_put (s3_store C bucket) k d t s = (s', Some e)"
  then have "fst (PutObject C bucket k d (int (length d)) t s) = s'" by (auto simp: s3_store_def map_prod_def split: prod.splits)
  then show "obj s' = obj s \<or> obj s' = (obj s)(k \<mapsto> (d, t))" using assms unfolding s3_documented_def by metis
next
  fix k s b
  assume "b_exists (s3_store C bucket) k s = Inr b"
  then show "b \<longleftrightarrow> obj s k \<noteq> None" using assms unfolding s3_documented_def
    by (auto simp: s3_store_def split: option.splits if_splits)
qed


section \<open>attachments.go\<close>

definition defaultRole :: string where "defaultRole = ''user''"
definition maxFilenameLen :: nat where "maxFilenameLen = 128"

definition DefaultAllowedContentTypes :: "string list" where
  "DefaultAllowedContentTypes =
     [''application/pdf'', ''image/png'', ''image/jpeg'', ''image/gif'', ''text/plain'', ''application/octet-stream'']"

text \<open>Lower case and trimming are those of ASCII.\<close>

definition ascii_lower :: "string \<Rightarrow> string" where
  "ascii_lower s = map (\<lambda>c. if 65 \<le> byte c \<and> byte c \<le> 90 then to_byte (byte c + 32) else c) s"

definition is_space :: "char \<Rightarrow> bool" where
  "is_space c \<longleftrightarrow> byte c \<in> {9, 10, 11, 12, 13, 32}"

definition trim_space :: "string \<Rightarrow> string" where
  "trim_space s = rev (dropWhile is_space (rev (dropWhile is_space s)))"

definition is_token_char :: "char \<Rightarrow> bool" where
  "is_token_char c \<longleftrightarrow> 32 < byte c \<and> byte c < 127 \<and> c \<notin> set ''()<>@,;:'' \<and> c \<notin> set [CHR 0x5C, CHR 0x22] \<and> c \<notin> set ''/[]?=''"

definition media_type_ok :: "string \<Rightarrow> bool" where
  "media_type_ok s \<longleftrightarrow>
     (let typ = takeWhile is_token_char s; r = dropWhile is_token_char s
      in typ \<noteq> [] \<and> (r = [] \<or> hd r = CHR ''/'' \<and> tl r \<noteq> [] \<and> list_all is_token_char (tl r)))"

text \<open>\<open>mime.ParseMediaType\<close>: the type in front of the first semicolon, lower case and trimmed, when it is well formed and the
  parameters behind it parse; the parser of the parameters is an argument.\<close>

definition normalizeMediaType :: "(string \<Rightarrow> bool) \<Rightarrow> string \<Rightarrow> string" where
  "normalizeMediaType params_ok ct =
     (let base = takeWhile (\<lambda>c. c \<noteq> CHR '';'') ct;
          mt = trim_space (ascii_lower base)
      in if media_type_ok mt \<and> params_ok (drop (length base) ct) then mt else ascii_lower (trim_space ct))"

definition WithAllowedContentTypes :: "(string \<Rightarrow> bool) \<Rightarrow> string list \<Rightarrow> string list" where
  "WithAllowedContentTypes params_ok types =
     (if types = [] then DefaultAllowedContentTypes
      else filter (\<lambda>mt. mt \<noteq> '''') (map (normalizeMediaType params_ok) types))"

text \<open>\<open>path.Base\<close>.\<close>

definition path_Base :: "string \<Rightarrow> string" where
  "path_Base s =
     (if s = '''' then ''.''
      else let t = rev (dropWhile (\<lambda>c. c = CHR ''/'') (rev s));
               u = rev (takeWhile (\<lambda>c. c \<noteq> CHR ''/'') (rev t))
           in if u = '''' then ''/'' else u)"

definition has_separator :: "string \<Rightarrow> bool" where
  "has_separator s \<longleftrightarrow> CHR ''/'' \<in> set s \<or> CHR 0x5C \<in> set s"

definition sanitizeName :: "string \<Rightarrow> string option" where
  "sanitizeName s =
     (if has_separator s then None
      else let base = path_Base s
           in if base = ''.'' \<or> base = ''..'' \<or> base = '''' then None
              else if has_separator base then None
              else if list_ex (\<lambda>c. byte c < 32) base then None
              else if maxFilenameLen < length base then None
              else Some base)"

datatype owner_error = OwnerNotFound | OwnerFailed go_err

definition StoreOwnerLookup :: "read_env \<Rightarrow> read_row list \<Rightarrow> string \<Rightarrow> (owner_error, string) result" where
  "StoreOwnerLookup E table orderID =
     (case re_parse E orderID of
        Inl _ \<Rightarrow> Inl OwnerNotFound
      | Inr x \<Rightarrow>
          (case re_err E of
             Some e \<Rightarrow> Inl (OwnerFailed (ErrWrap ''attachments: owner lookup'' e))
           | None \<Rightarrow> (case row_of table x of None \<Rightarrow> Inl OwnerNotFound | Some r \<Rightarrow> Inr (rd_customer r))))"

definition owner_Authorize :: "code_registry \<Rightarrow> string \<Rightarrow> Principal \<Rightarrow> string \<Rightarrow> string \<Rightarrow> go_err option" where
  "owner_Authorize reg bypassRole p action owner =
     (if owner \<noteq> '''' \<and> p_subject p = owner then None
      else if bypassRole \<in> set (p_roles p) then None
      else Some (ErrWrap (''principal is not the owner for '' @ action) (ErrForbidden reg)))"

text \<open>The auditor writes out of band; its error is ignored.\<close>

record 's attach_handler =
  at_reg :: code_registry
  at_flag :: bool
  at_role :: string
  at_owner :: "(string \<Rightarrow> (owner_error, string) result) option"
  at_types :: "string list"
  at_store :: "'s blob_ops"
  at_audit :: "(audit_entry \<Rightarrow> audit_db \<Rightarrow> audit_db \<times> go_err option) option"
  at_parse :: "string \<Rightarrow> (go_err, string) result"
  at_params_ok :: "string \<Rightarrow> bool"

record attach_request =
  rq_principal :: "Principal option"
  rq_id :: string
  rq_name :: string
  rq_type :: string
  rq_body :: "(go_err option, string) result"

definition attach_audit :: "'s attach_handler \<Rightarrow> audit_entry \<Rightarrow> audit_db \<Rightarrow> audit_db" where
  "attach_audit h e db = (case at_audit h of None \<Rightarrow> db | Some rec \<Rightarrow> fst (rec e db))"

definition auditAccess :: "'s attach_handler \<Rightarrow> Principal \<Rightarrow> string \<Rightarrow> string \<Rightarrow> audit_db \<Rightarrow> audit_db" where
  "auditAccess h p action key db =
     attach_audit h \<lparr>ae_actor = p_subject p, ae_action = action, ae_subject = key, ae_meta = Some [(''key'', key)], ae_at = None\<rparr> db"

definition auditDenied :: "'s attach_handler \<Rightarrow> Principal \<Rightarrow> string \<Rightarrow> audit_db \<Rightarrow> audit_db" where
  "auditDenied h p orderID db =
     attach_audit h \<lparr>ae_actor = p_subject p, ae_action = ActionAuthzDenied, ae_subject = orderID,
       ae_meta = Some [(''denied_action'', ''attachment:access'')], ae_at = None\<rparr> db"

definition ActionAttachmentUpload :: string where "ActionAttachmentUpload = ''attachment.upload''"
definition ActionAttachmentDownload :: string where "ActionAttachmentDownload = ''attachment.download''"

definition coded :: "'s attach_handler \<Rightarrow> string \<Rightarrow> go_err" where
  "coded h code = ErrApp (app_New (at_reg h) code) None"

definition roleGate :: "'s attach_handler \<Rightarrow> attach_request \<Rightarrow> audit_db \<Rightarrow> audit_db \<times> (go_err, Principal) result" where
  "roleGate h r db =
     (case rq_principal r of
        None \<Rightarrow> (db, Inl (ErrUnauthenticated (at_reg h)))
      | Some p \<Rightarrow>
          if at_role h \<notin> set (p_roles p) \<and> AdminRole \<notin> set (p_roles p)
          then (auditDenied h p (rq_id r) db,
                Inl (ErrApp (WithParam (app_New (at_reg h) CodeAuthForbidden) ''role'' (at_role h)) (Some (ErrForbidden (at_reg h)))))
          else (db, Inr p))"

definition checkOwnership :: "'s attach_handler \<Rightarrow> Principal \<Rightarrow> string \<Rightarrow> audit_db \<Rightarrow> audit_db \<times> go_err option" where
  "checkOwnership h p orderID db =
     (case at_owner h of
        None \<Rightarrow> (db, None)
      | Some lookup \<Rightarrow>
          (case lookup orderID of
             Inl OwnerNotFound \<Rightarrow>
               (db, Some (ErrApp (WithParam (app_New (at_reg h) ''GATEWAY_ORDER_NOT_FOUND'') ''order_id'' orderID)
                                 (Some (ErrText ''attachments: order owner not found''))))
           | Inl (OwnerFailed e) \<Rightarrow> (db, Some e)
           | Inr owner \<Rightarrow>
               (case owner_Authorize (at_reg h) AdminRole p ''attachment:access'' owner of
                  Some e \<Rightarrow> (auditDenied h p orderID db, Some e)
                | None \<Rightarrow> (db, None))))"

text \<open>The part both handlers share: flag, role, id, owner. The id that goes on is the canonical one.\<close>

definition attach_admit :: "'s attach_handler \<Rightarrow> attach_request \<Rightarrow> audit_db \<Rightarrow> audit_db \<times> (go_err, Principal \<times> string) result" where
  "attach_admit h r db =
     (if \<not> at_flag h then (db, Inl (coded h ''GATEWAY_ATTACHMENTS_DISABLED''))
      else case roleGate h r db of
          (db1, Inl e) \<Rightarrow> (db1, Inl e)
        | (db1, Inr p) \<Rightarrow>
            (case at_parse h (rq_id r) of
               Inl e \<Rightarrow> (db1, Inl (app_Wrap (at_reg h) e ''GATEWAY_ATTACHMENT_INVALID_ORDER_ID''))
             | Inr x \<Rightarrow>
                 (case checkOwnership h p x db1 of
                    (db2, Some e) \<Rightarrow> (db2, Inl e)
                  | (db2, None) \<Rightarrow> (db2, Inr (p, x)))))"

definition attach_key :: "string \<Rightarrow> string \<Rightarrow> string" where
  "attach_key x name = ''orders/'' @ x @ ''/'' @ name"

definition Upload :: "'s attach_handler \<Rightarrow> attach_request \<Rightarrow> 's \<times> audit_db \<Rightarrow> ('s \<times> audit_db) \<times> (go_err, string) result" where
  "Upload h r w =
     (case attach_admit h r (snd w) of
        (db, Inl e) \<Rightarrow> ((fst w, db), Inl e)
      | (db, Inr (p, x)) \<Rightarrow>
          (case sanitizeName (if rq_name r = '''' then ''file'' else rq_name r) of
             None \<Rightarrow> ((fst w, db), Inl (coded h ''GATEWAY_ATTACHMENT_INVALID_FILENAME''))
           | Some name \<Rightarrow>
               (let mt = normalizeMediaType (at_params_ok h) (if rq_type r = '''' then ''application/octet-stream'' else rq_type r)
                in if mt \<notin> set (at_types h)
                   then ((fst w, db), Inl (ErrApp (WithParam (app_New (at_reg h) ''GATEWAY_ATTACHMENT_TYPE_REJECTED'') ''content_type'' mt) None))
                   else (case rq_body r of
                      Inl None \<Rightarrow> ((fst w, db), Inl (coded h ''GATEWAY_ATTACHMENT_TOO_LARGE''))
                    | Inl (Some e) \<Rightarrow> ((fst w, db), Inl e)
                    | Inr body \<Rightarrow>
                        (let key = attach_key x name
                         in case b_put (at_store h) key body mt (fst w) of
                              (s, Some e) \<Rightarrow> ((s, db), Inl e)
                            | (s, None) \<Rightarrow> ((s, auditAccess h p ActionAttachmentUpload key db), Inr key))))))"

definition Download :: "'s attach_handler \<Rightarrow> attach_request \<Rightarrow> 's \<times> audit_db \<Rightarrow> ('s \<times> audit_db) \<times> (go_err, string) result" where
  "Download h r w =
     (case attach_admit h r (snd w) of
        (db, Inl e) \<Rightarrow> ((fst w, db), Inl e)
      | (db, Inr (p, x)) \<Rightarrow>
          (case sanitizeName (rq_name r) of
             None \<Rightarrow> ((fst w, db), Inl (coded h ''GATEWAY_ATTACHMENT_INVALID_FILENAME''))
           | Some name \<Rightarrow>
               (let key = attach_key x name
                in case b_exists (at_store h) key (fst w) of
                     Inl e \<Rightarrow> ((fst w, db), Inl e)
                   | Inr False \<Rightarrow>
                       ((fst w, db), Inl (ErrApp (WithParams (app_New (at_reg h) ''GATEWAY_ATTACHMENT_NOT_FOUND'')
                          [''order_id'' \<mapsto> x, ''filename'' \<mapsto> name]) None))
                   | Inr True \<Rightarrow>
                       (case b_presign (at_store h) key True (fst w) of
                          Inl e \<Rightarrow> ((fst w, db), Inl e)
                        | Inr u \<Rightarrow> ((fst w, auditAccess h p ActionAttachmentDownload key db), Inr u)))))"

section \<open>Lemmas\<close>

lemma sanitizeName_plain:
  assumes "sanitizeName s = Some n"
  shows "n = s \<and> n \<noteq> '''' \<and> CHR ''/'' \<notin> set n \<and> n \<noteq> ''..'' \<and> length n \<le> 128"
proof -
  have nosep: "CHR ''/'' \<notin> set s" and base: "path_Base s = n" "n \<noteq> ''.''" "n \<noteq> ''..''" "n \<noteq> ''''" "length n \<le> 128"
    using assms by (auto simp: sanitizeName_def has_separator_def Let_def maxFilenameLen_def split: if_splits)
  have s: "s \<noteq> ''''" using base by (auto simp: path_Base_def)
  have dw: "dropWhile (\<lambda>c. c = CHR ''/'') (rev s) = rev s" using nosep by (cases "rev s") (auto dest: arg_cong [where f = set])
  have tk: "takeWhile (\<lambda>c. c \<noteq> CHR ''/'') (rev s) = rev s" using nosep by (auto simp: takeWhile_eq_all_conv)
  have "path_Base s = s" unfolding path_Base_def Let_def dw rev_rev_ident tk using s by simp
  then show ?thesis using base nosep by auto
qed

lemma attach_key_inj:
  assumes "attach_key x n = attach_key y m" "CHR ''/'' \<notin> set x" "CHR ''/'' \<notin> set y"
  shows "x = y \<and> n = m"
proof -
  have "x @ CHR ''/'' # n = y @ CHR ''/'' # m" using assms(1) by (simp add: attach_key_def)
  then show ?thesis using assms(2,3)
  proof (induction x arbitrary: y)
    case Nil then show ?case by (cases y) auto
  next
    case (Cons c x) then show ?case by (cases y) auto
  qed
qed

text \<open>What an admitted request has shown.\<close>

lemma attach_admit_Inr:
  assumes "attach_admit h r db = (db', Inr (p, x))"
  shows "at_flag h \<and> rq_principal r = Some p \<and> at_parse h (rq_id r) = Inr x
    \<and> (at_role h \<in> set (p_roles p) \<or> AdminRole \<in> set (p_roles p))
    \<and> (\<forall>lookup. at_owner h = Some lookup \<longrightarrow> (\<exists>c. lookup x = Inr c \<and> (AdminRole \<in> set (p_roles p) \<or> c = p_subject p \<and> c \<noteq> '''')))
    \<and> db' = db"
  using assms
  by (auto simp: attach_admit_def roleGate_def checkOwnership_def owner_Authorize_def
      split: if_splits option.splits sum.splits prod.splits owner_error.splits)

context object_store
begin

lemma upload_effect:
  assumes "Upload h r (s, db) = ((s', db'), res)" "at_store h = B"
  shows "s' = s \<or> (\<exists>p x name body mt. attach_admit h r db = (db, Inr (p, x)) \<and> rq_body r = Inr body \<and> mt \<in> set (at_types h)
     \<and> sanitizeName (if rq_name r = '''' then ''file'' else rq_name r) = Some name
     \<and> (\<forall>k. obj s' k \<noteq> obj s k \<longrightarrow> k = attach_key x name \<and> obj s' k = Some (body, mt))
     \<and> (\<forall>key. res = Inr key \<longrightarrow> key = attach_key x name \<and> obj s' key = Some (body, mt)))"
proof (cases "attach_admit h r db")
  case (Pair db1 adm)
  show ?thesis
  proof (cases adm)
    case (Inl e) then show ?thesis using assms(1) Pair by (simp add: Upload_def)
  next
    case (Inr px)
    obtain p x where px: "px = (p, x)" by fastforce
    have db1: "db1 = db" using attach_admit_Inr Pair Inr px by blast
    let ?name = "sanitizeName (if rq_name r = '''' then ''file'' else rq_name r)"
    let ?mt = "normalizeMediaType (at_params_ok h) (if rq_type r = '''' then ''application/octet-stream'' else rq_type r)"
    show ?thesis
    proof (cases "\<exists>name body. ?name = Some name \<and> rq_body r = Inr body \<and> ?mt \<in> set (at_types h)")
      case False
      then have "s' = s" using assms(1) Pair Inr px by (auto simp: Upload_def Let_def split: option.splits if_splits sum.splits)
      then show ?thesis ..
    next
      case True
      then obtain name body where n: "?name = Some name" "rq_body r = Inr body" "?mt \<in> set (at_types h)" by blast
      obtain s1 e where put: "b_put B (attach_key x name) body ?mt s = (s1, e)" by fastforce
      have "Upload h r (s, db) = (case e of Some err \<Rightarrow> ((s1, db1), Inl err)
          | None \<Rightarrow> ((s1, auditAccess h p ActionAttachmentUpload (attach_key x name) db1), Inr (attach_key x name)))"
        using Pair Inr px n put assms(2) by (simp add: Upload_def Let_def split: option.split)
      then have "s1 = s' \<and> (\<forall>key. res = Inr key \<longrightarrow> e = None \<and> key = attach_key x name)"
        unfolding assms(1) by (cases e) auto
      then have u: "s1 = s'" "\<forall>key. res = Inr key \<longrightarrow> e = None \<and> key = attach_key x name" by auto
      have "\<forall>k. obj s' k \<noteq> obj s k \<longrightarrow> k = attach_key x name \<and> obj s' k = Some (body, ?mt)"
        using put_changes [OF put] u(1) by auto
      moreover have "\<forall>key. res = Inr key \<longrightarrow> key = attach_key x name \<and> obj s' key = Some (body, ?mt)"
        using u put put_ok [of "attach_key x name" body ?mt s s1] by auto
      ultimately show ?thesis using n Pair Inr px db1 by blast
    qed
  qed
qed

end

context object_store
begin

lemma download_effect:
  assumes "Download h r w = (w', Inr u)" "at_store h = B"
  shows "\<exists>p x name. attach_admit h r (snd w) = (snd w, Inr (p, x)) \<and> sanitizeName (rq_name r) = Some name
     \<and> b_presign B (attach_key x name) True (fst w) = Inr u \<and> obj (fst w) (attach_key x name) \<noteq> None \<and> fst w' = fst w"
proof -
  obtain db p x where adm: "attach_admit h r (snd w) = (db, Inr (p, x))"
    using assms(1) by (auto simp: Download_def split: prod.splits sum.splits)
  have db: "db = snd w" using attach_admit_Inr [OF adm] by simp
  obtain name where n: "sanitizeName (rq_name r) = Some name"
    using assms(1) adm by (auto simp: Download_def split: option.splits)
  have ex: "b_exists B (attach_key x name) (fst w) = Inr True"
    using assms adm n by (auto simp: Download_def Let_def split: sum.splits bool.splits)
  have "b_presign B (attach_key x name) True (fst w) = Inr u" "fst w' = fst w"
    using assms adm n ex by (auto simp: Download_def Let_def split: sum.splits)
  then show ?thesis using adm db n exists_says [OF ex] by blast
qed

end

section \<open>Properties\<close>

text \<open>C27. Attachments belong to the owner of the order: with an owner lookup configured, a request of a principal that is not an
  administrator changes no object but one below the canonical id of an order whose read-model row names the principal as
  customer, under a plain file name and with an allowed content type; and it is redirected to no other object, always with
  the option that forces a download. This holds for every store that keeps the contract \<open>object_store\<close>.\<close>

theorem attachments_owner_only:
  assumes "object_store (at_store h) obj" "at_owner h = Some (StoreOwnerLookup E table)" "re_parse E = at_parse h"
    and "\<forall>t y. at_parse h t = Inr y \<longrightarrow> at_parse h y = Inr y"
    and "rq_principal r = Some p" "AdminRole \<notin> set (p_roles p)"
  shows "(\<forall>s' db' res k. Upload h r (s, db) = ((s', db'), res) \<longrightarrow> obj s' k \<noteq> obj s k \<longrightarrow>
      (\<exists>x row name body mt. at_parse h (rq_id r) = Inr x \<and> row_of table x = Some row \<and> rd_customer row = p_subject p
        \<and> k = attach_key x name \<and> CHR ''/'' \<notin> set name \<and> name \<noteq> ''..'' \<and> obj s' k = Some (body, mt) \<and> mt \<in> set (at_types h)))
    \<and> (\<forall>w' u. Download h r (s, db) = (w', Inr u) \<longrightarrow>
      (\<exists>x row name. at_parse h (rq_id r) = Inr x \<and> row_of table x = Some row \<and> rd_customer row = p_subject p
        \<and> b_presign (at_store h) (attach_key x name) True s = Inr u \<and> CHR ''/'' \<notin> set name))"
proof -
  have own: "\<exists>row. at_parse h (rq_id r) = Inr x \<and> row_of table x = Some row \<and> rd_customer row = p_subject p"
    if "attach_admit h r db = (db, Inr (p', x))" for p' x
    using attach_admit_Inr [OF that] assms(2-6) by (auto simp: StoreOwnerLookup_def split: sum.splits option.splits)
  have "\<exists>x row name body mt. at_parse h (rq_id r) = Inr x \<and> row_of table x = Some row \<and> rd_customer row = p_subject p
        \<and> k = attach_key x name \<and> CHR ''/'' \<notin> set name \<and> name \<noteq> ''..'' \<and> obj s' k = Some (body, mt) \<and> mt \<in> set (at_types h)"
    if up: "Upload h r (s, db) = ((s', db'), res)" "obj s' k \<noteq> obj s k" for s' db' res k
  proof -
    obtain p' x name body mt where "attach_admit h r db = (db, Inr (p', x))" "mt \<in> set (at_types h)"
        "sanitizeName (if rq_name r = '''' then ''file'' else rq_name r) = Some name" "k = attach_key x name" "obj s' k = Some (body, mt)"
      using object_store.upload_effect [OF assms(1) up(1) refl] up(2) by blast
    then show ?thesis using own sanitizeName_plain by blast
  qed
  moreover have "\<exists>x row name. at_parse h (rq_id r) = Inr x \<and> row_of table x = Some row \<and> rd_customer row = p_subject p
        \<and> b_presign (at_store h) (attach_key x name) True s = Inr u \<and> CHR ''/'' \<notin> set name"
    if d: "Download h r (s, db) = (w', Inr u)" for w' u
  proof -
    obtain p' x name where "attach_admit h r db = (db, Inr (p', x))" "sanitizeName (rq_name r) = Some name"
        "b_presign (at_store h) (attach_key x name) True s = Inr u"
      using object_store.download_effect [OF assms(1) d refl] unfolding fst_conv snd_conv by blast
    then show ?thesis using own sanitizeName_plain by blast
  qed
  ultimately show ?thesis by blast
qed

text \<open>A lookup that fails for any reason grants nothing: the request ends with its error and the store is as before.\<close>

lemma lookup_failure_closed:
  assumes "at_owner h = Some lookup" "lookup x = Inl e" "at_parse h (rq_id r) = Inr x"
  shows "fst (fst (Upload h r (s, db))) = s \<and> (\<exists>err. snd (Upload h r (s, db)) = Inl err)"
proof -
  have "\<exists>db' err. attach_admit h r db = (db', Inl err)"
    using assms by (auto simp: attach_admit_def roleGate_def checkOwnership_def split: option.splits owner_error.splits if_splits)
  then show ?thesis by (auto simp: Upload_def)
qed

definition attach_demo_table :: "read_row list" where
  "attach_demo_table = [\<lparr>rd_id = ''o-1'', rd_customer = ''bob'', rd_cents = 5, rd_currency = ''USD'', rd_status = ''paid'', rd_created = 1, rd_updated = 1\<rparr>]"

definition attach_demo :: "objects attach_handler" where
  "attach_demo = \<lparr>at_reg = Map.empty, at_flag = True, at_role = defaultRole,
     at_owner = Some (StoreOwnerLookup \<lparr>re_parse = Inr, re_err = None, re_now = 1\<rparr> attach_demo_table),
     at_types = DefaultAllowedContentTypes, at_store = fake_store, at_audit = None, at_parse = Inr, at_params_ok = (\<lambda>_. True)\<rparr>"

definition attach_demo_request :: attach_request where
  "attach_demo_request = \<lparr>rq_principal = Some bob, rq_id = ''o-1'', rq_name = ''a.txt'', rq_type = ''text/plain'', rq_body = Inr ''hello''\<rparr>"

definition attach_demo_after :: objects where
  "attach_demo_after = fst (fst (Upload attach_demo attach_demo_request ([], audit_empty)))"

lemma attach_demo_stores: "obj_of attach_demo_after ''orders/o-1/a.txt'' \<noteq> obj_of [] ''orders/o-1/a.txt''"
  by code_simp

lemma attach_demo_download: "\<exists>w u. Download attach_demo attach_demo_request (attach_demo_after, audit_empty) = (w, Inr u)"
proof -
  have "case snd (Download attach_demo attach_demo_request (attach_demo_after, audit_empty)) of Inr u \<Rightarrow> True | Inl _ \<Rightarrow> False"
    by code_simp
  then show ?thesis by (cases "Download attach_demo attach_demo_request (attach_demo_after, audit_empty)") (auto split: sum.splits)
qed

theorem attachments_owner_only_witness:
  "(\<exists>x row name body mt. row_of attach_demo_table x = Some row \<and> rd_customer row = ''bob''
     \<and> ''orders/o-1/a.txt'' = attach_key x name \<and> obj_of attach_demo_after ''orders/o-1/a.txt'' = Some (body, mt))
   \<and> (\<exists>x row name u. row_of attach_demo_table x = Some row \<and> rd_customer row = ''bob''
     \<and> b_presign fake_store (attach_key x name) True attach_demo_after = Inr u)"
proof -
  have h: "object_store (at_store attach_demo) obj_of"
      "at_owner attach_demo = Some (StoreOwnerLookup \<lparr>re_parse = Inr, re_err = None, re_now = 1\<rparr> attach_demo_table)"
      "re_parse \<lparr>re_parse = Inr, re_err = None, re_now = 1\<rparr> = at_parse attach_demo"
      "\<forall>t y. at_parse attach_demo t = Inr y \<longrightarrow> at_parse attach_demo y = Inr y"
      "rq_principal attach_demo_request = Some bob" "AdminRole \<notin> set (p_roles bob)"
    using fake.object_store_axioms by (simp_all add: attach_demo_def attach_demo_request_def bob_def AdminRole_def)
  note owner_only = attachments_owner_only [where h = attach_demo and obj = obj_of, OF h]
  obtain db res where up: "Upload attach_demo attach_demo_request ([], audit_empty) = ((attach_demo_after, db), res)"
    unfolding attach_demo_after_def by (metis prod.collapse)
  obtain w u where dn: "Download attach_demo attach_demo_request (attach_demo_after, audit_empty) = (w, Inr u)"
    using attach_demo_download by blast
  show ?thesis
    using conjunct1 [OF owner_only, rule_format, OF up attach_demo_stores] conjunct2 [OF owner_only, rule_format, OF dn]
    unfolding bob_def by (auto simp: attach_demo_def)
qed

end
