(* ===== verification/Redrive.thy ===== *)
theory Redrive
  imports Outbox_Kafka Retry_Topics
begin

text \<open>
  \<open>cmd/redrive/redrive.go\<close>: the tool that sends the records of a dead-letter topic back to the topics they
  came from. The Kafka client is outside the repository: what each of its calls answers is an argument of
  the model (the \<open>n\<close>-th produce and the \<open>n\<close>-th commit have an answer of their own, as do the polls and
  the admin requests), and its effects are the records stored and the records committed. The lines the
  tool prints are left out; what they count is kept.
\<close>

section \<open>Configuration, statistics, errors\<close>

record redrive_config =
  rBrokers :: "string list"
  rDLT :: string
  Limit :: int
  DryRun :: bool
  FreshIDs :: bool
  rGroup :: string
  AllowTopics :: "string list"

record redrive_stats =
  sRead :: int
  Republished :: int
  MissingMessageID :: int

datatype redrive_err =
    FlagsRequired
  | BuildingClient go_err
  | ListStartOffsets go_err
  | ListEndOffsets go_err
  | FetchCommitted go_err
  | RedriveCtx go_err
  | TimedOutWaiting int int
  | FetchFailed go_err
  | NoDestination kgo_record
  | NotAllowed kgo_record string
  | RepublishFailed kgo_record string go_err
  | CommitFailed kgo_record go_err

definition strippedHeaders :: "string \<Rightarrow> bool" where
  "strippedHeaders k \<longleftrightarrow>
     k \<in> {HeaderDLTError, HeaderDLTAttempts, HeaderDLTOriginalTopic, HeaderAttempt, HeaderOrigTopic, HeaderDueAt, HeaderLastError}"

text \<open>One answer of \<open>PollFetches\<close>: whether \<open>Err0\<close> is a cancelled or expired context, what \<open>ctx.Err()\<close> says
  then, the fetch errors and the records.\<close>

record poll_answer =
  err0_ctx :: bool
  poll_ctx :: "go_err option"
  fetch_errs :: "go_err list"
  fetch_recs :: "kgo_record list"

record redrive_env =
  rd_client :: "go_err option"
  rd_starts :: "(go_err, tp \<rightharpoonup> int) result"
  rd_ends :: "(go_err, (tp \<times> int) list) result"
  rd_offsets :: "(go_err, tp \<rightharpoonup> int) result"
  rd_acks :: "nat \<Rightarrow> ack"
  rd_commit_errs :: "nat \<Rightarrow> go_err option"
  rd_uuids :: "nat \<Rightarrow> string"

record redrive_world =
  rd_log :: "kgo_record list"
  rd_committed :: "kgo_record list"
  rd_produced :: nat
  rd_commits :: nat
  rd_minted :: nat

section \<open>redriveRecord\<close>

definition str_at :: "(string \<rightharpoonup> string) \<Rightarrow> string \<Rightarrow> string" where
  "str_at m k = (case m k of Some v \<Rightarrow> v | None \<Rightarrow> '''')"

definition orig_topic :: "kgo_record \<Rightarrow> string" where
  "orig_topic rec =
     (let headers = HeadersFromKGO (kHeaders rec); t = str_at headers HeaderDLTOriginalTopic
      in if t = '''' then str_at headers HeaderOrigTopic else t)"

definition out_headers :: "redrive_config \<Rightarrow> string \<Rightarrow> (string \<times> string) list \<Rightarrow> (string \<times> string) list" where
  "out_headers cfg fresh hs =
     filter (\<lambda>(k, v). \<not> strippedHeaders k \<and> \<not> (FreshIDs cfg \<and> k = HeaderMessageID)) hs
     @ (if FreshIDs cfg then [(HeaderMessageID, fresh)] else [])"

definition new_rec :: "redrive_config \<Rightarrow> string \<Rightarrow> kgo_record \<Rightarrow> kgo_record" where
  "new_rec cfg fresh rec =
     \<lparr>kTopic = orig_topic rec, kKey = kKey rec, kValue = kValue rec, kHeaders = out_headers cfg fresh (kHeaders rec),
      kPartition = 0, kOffset = 0\<rparr>"

fun ProduceSync :: "ack \<Rightarrow> kgo_record \<Rightarrow> redrive_world \<Rightarrow> redrive_world \<times> go_err option" where
  "ProduceSync Stored r w = (w\<lparr>rd_log := rd_log w @ [r], rd_produced := rd_produced w + 1\<rparr>, None)"
| "ProduceSync (StoredLost e) r w = (w\<lparr>rd_log := rd_log w @ [r], rd_produced := rd_produced w + 1\<rparr>, Some e)"
| "ProduceSync (Refused e) r w = (w\<lparr>rd_produced := rd_produced w + 1\<rparr>, Some e)"

definition CommitRecords :: "redrive_env \<Rightarrow> kgo_record \<Rightarrow> redrive_world \<Rightarrow> redrive_world \<times> go_err option" where
  "CommitRecords E rec w =
     (case rd_commit_errs E (rd_commits w) of
        Some e \<Rightarrow> (w\<lparr>rd_commits := rd_commits w + 1\<rparr>, Some e)
      | None \<Rightarrow> (w\<lparr>rd_commits := rd_commits w + 1, rd_committed := rd_committed w @ [rec]\<rparr>, None))"

definition redriveRecord ::
  "redrive_env \<Rightarrow> redrive_config \<Rightarrow> (string \<Rightarrow> bool) \<Rightarrow> kgo_record \<Rightarrow> redrive_world \<Rightarrow> redrive_stats
     \<Rightarrow> redrive_world \<times> redrive_stats \<times> redrive_err option" where
  "redriveRecord E cfg allow rec w stats =
     (let headers = HeadersFromKGO (kHeaders rec); origTopic = orig_topic rec in
      if origTopic = '''' then (w, stats, Some (NoDestination rec))
      else if \<not> allow origTopic then (w, stats, Some (NotAllowed rec origTopic))
      else let stats1 = (if \<not> FreshIDs cfg \<and> str_at headers HeaderMessageID = ''''
                         then stats\<lparr>MissingMessageID := MissingMessageID stats + 1\<rparr> else stats);
               newRec = new_rec cfg (rd_uuids E (rd_minted w)) rec;
               w1 = (if FreshIDs cfg then w\<lparr>rd_minted := rd_minted w + 1\<rparr> else w)
           in if DryRun cfg then (w1, stats1, None)
              else case ProduceSync (rd_acks E (rd_produced w1)) newRec w1 of
                     (w2, Some e) \<Rightarrow> (w2, stats1, Some (RepublishFailed rec origTopic e))
                   | (w2, None) \<Rightarrow>
                       (case CommitRecords E rec w2 of
                          (w3, Some e) \<Rightarrow> (w3, stats1, Some (CommitFailed rec e))
                        | (w3, None) \<Rightarrow> (w3, stats1, None)))"

section \<open>pendingCount and Run\<close>

definition redrive_from :: "(tp \<rightharpoonup> int) \<Rightarrow> (tp \<rightharpoonup> int) \<Rightarrow> tp \<Rightarrow> int" where
  "redrive_from starts offsets k =
     (let from = (case starts k of Some s \<Rightarrow> s | None \<Rightarrow> 0)
      in case offsets k of Some c \<Rightarrow> if c > from then c else from | None \<Rightarrow> from)"

fun pending_sum :: "(tp \<rightharpoonup> int) \<Rightarrow> (tp \<rightharpoonup> int) \<Rightarrow> (tp \<times> int) list \<Rightarrow> int \<Rightarrow> int" where
  "pending_sum starts offsets [] pending = pending"
| "pending_sum starts offsets ((k, e) # ends) pending =
     (let from = redrive_from starts offsets k
      in pending_sum starts offsets ends (if e > from then wrap64 (pending + wrap64 (e - from)) else pending))"

definition pendingCount :: "redrive_env \<Rightarrow> (redrive_err, int) result" where
  "pendingCount E =
     (case rd_starts E of Inl e \<Rightarrow> Inl (ListStartOffsets e) | Inr starts \<Rightarrow>
      case rd_ends E of Inl e \<Rightarrow> Inl (ListEndOffsets e) | Inr ends \<Rightarrow>
      case rd_offsets E of Inl e \<Rightarrow> Inl (FetchCommitted e) | Inr offsets \<Rightarrow>
      Inr (pending_sum starts offsets ends 0))"

definition allow_of :: "redrive_config \<Rightarrow> string \<Rightarrow> bool" where
  "allow_of cfg = foldl (\<lambda>m t. if t \<noteq> '''' then m(t := True) else m) (\<lambda>_. False) (AllowTopics cfg)"

fun redrive_batch ::
  "redrive_env \<Rightarrow> redrive_config \<Rightarrow> (string \<Rightarrow> bool) \<Rightarrow> int \<Rightarrow> kgo_record list \<Rightarrow> redrive_world \<Rightarrow> redrive_stats
     \<Rightarrow> redrive_world \<times> redrive_stats \<times> redrive_err option" where
  "redrive_batch E cfg allow target [] w stats = (w, stats, None)"
| "redrive_batch E cfg allow target (rec # recs) w stats =
     (if sRead stats \<ge> target then (w, stats, None)
      else case redriveRecord E cfg allow rec w (stats\<lparr>sRead := sRead stats + 1\<rparr>) of
             (w1, stats1, Some e) \<Rightarrow> (w1, stats1, Some e)
           | (w1, stats1, None) \<Rightarrow>
               redrive_batch E cfg allow target recs w1
                 (if DryRun cfg then stats1 else stats1\<lparr>Republished := Republished stats1 + 1\<rparr>))"

text \<open>The poll loop, over the answers the polls give. \<open>StillPolling\<close>: the answers are used up and the loop
  would poll again.\<close>

datatype redrive_res = RedriveDone | RedriveFailed redrive_err | StillPolling

fun redrive_polls ::
  "redrive_env \<Rightarrow> redrive_config \<Rightarrow> (string \<Rightarrow> bool) \<Rightarrow> int \<Rightarrow> poll_answer list \<Rightarrow> redrive_world \<Rightarrow> redrive_stats
     \<Rightarrow> redrive_world \<times> redrive_stats \<times> redrive_res" where
  "redrive_polls E cfg allow target polls w stats =
     (if \<not> sRead stats < target then (w, stats, RedriveDone)
      else case polls of
             [] \<Rightarrow> (w, stats, StillPolling)
           | p # ps \<Rightarrow>
               if err0_ctx p
               then (w, stats, RedriveFailed (case poll_ctx p of Some e \<Rightarrow> RedriveCtx e
                                              | None \<Rightarrow> TimedOutWaiting target (sRead stats)))
               else case fetch_errs p of
                      e # _ \<Rightarrow> (w, stats, RedriveFailed (FetchFailed e))
                    | [] \<Rightarrow>
                        (case redrive_batch E cfg allow target (fetch_recs p) w stats of
                           (w1, stats1, Some e) \<Rightarrow> (w1, stats1, RedriveFailed e)
                         | (w1, stats1, None) \<Rightarrow> redrive_polls E cfg allow target ps w1 stats1))"

declare redrive_polls.simps [simp del]

definition redrive_target :: "redrive_config \<Rightarrow> int \<Rightarrow> int" where
  "redrive_target cfg pending = (if Limit cfg > 0 \<and> Limit cfg < pending then Limit cfg else pending)"

definition redrive_Run ::
  "redrive_env \<Rightarrow> redrive_config \<Rightarrow> poll_answer list \<Rightarrow> redrive_world \<Rightarrow> redrive_world \<times> redrive_stats \<times> redrive_res" where
  "redrive_Run E cfg polls w =
     (let stats = \<lparr>sRead = 0, Republished = 0, MissingMessageID = 0\<rparr> in
      if rBrokers cfg = [] \<or> rDLT cfg = '''' then (w, stats, RedriveFailed FlagsRequired)
      else case rd_client E of Some e \<Rightarrow> (w, stats, RedriveFailed (BuildingClient e)) | None \<Rightarrow>
           (case pendingCount E of
              Inl e \<Rightarrow> (w, stats, RedriveFailed e)
            | Inr pending \<Rightarrow>
                if pending = 0 then (w, stats, RedriveDone)
                else redrive_polls E cfg (allow_of cfg) (redrive_target cfg pending) polls w stats))"

section \<open>One record\<close>

lemma foldl_set: "foldl (\<lambda>m t. if t \<noteq> '''' then m(t := True) else m) f ts x \<longleftrightarrow> f x \<or> (x \<noteq> '''' \<and> x \<in> set ts)"
  by (induction ts arbitrary: f) auto

lemma allow_of_iff: "allow_of cfg t \<longleftrightarrow> t \<noteq> '''' \<and> t \<in> set (AllowTopics cfg)"
  by (simp add: allow_of_def foldl_set)

text \<open>What a run has done after it went through the records \<open>rs\<close>: each was committed in turn, and the log
  holds the image of each, in order. \<open>fresh\<close> is the first id the run may mint.\<close>

definition images :: "redrive_env \<Rightarrow> redrive_config \<Rightarrow> nat \<Rightarrow> kgo_record list \<Rightarrow> kgo_record list" where
  "images E cfg n rs = map (\<lambda>i. new_rec cfg (rd_uuids E (n + i)) (rs ! i)) [0..<length rs]"

lemma images_Nil [simp]: "images E cfg n [] = []"
  by (simp add: images_def)

lemma images_Cons: "images E cfg n (r # rs) = new_rec cfg (rd_uuids E n) r # images E cfg (Suc n) rs"
proof -
  have "[0..<length (r # rs)] = 0 # map Suc [0..<length rs]" by (simp add: map_Suc_upt upt_conv_Cons del: upt_Suc)
  then show ?thesis by (simp add: images_def)
qed

lemma new_rec_not_fresh: "\<not> FreshIDs cfg \<Longrightarrow> new_rec cfg a r = new_rec cfg b r"
  by (simp add: new_rec_def out_headers_def)

lemma images_not_fresh: "\<not> FreshIDs cfg \<Longrightarrow> images E cfg m rs = images E cfg n rs"
  using new_rec_not_fresh by (auto simp: images_def)

definition admissible :: "redrive_config \<Rightarrow> kgo_record \<Rightarrow> bool" where
  "admissible cfg r \<longleftrightarrow> orig_topic r \<noteq> '''' \<and> orig_topic r \<in> set (AllowTopics cfg)"

text \<open>The counter of minted ids moves only with \<open>--fresh-ids\<close>.\<close>

definition minted_after :: "redrive_config \<Rightarrow> nat \<Rightarrow> nat" where
  "minted_after cfg n = (if FreshIDs cfg then Suc n else n)"

lemma redriveRecord_ok:
  assumes "redriveRecord E cfg (allow_of cfg) rec w stats = (w', stats', None)"
  shows "admissible cfg rec \<and> rd_minted w' = minted_after cfg (rd_minted w)
    \<and> sRead stats' = sRead stats \<and> Republished stats' = Republished stats
    \<and> (if DryRun cfg then rd_log w' = rd_log w \<and> rd_committed w' = rd_committed w
       else rd_log w' = rd_log w @ [new_rec cfg (rd_uuids E (rd_minted w)) rec]
          \<and> rd_committed w' = rd_committed w @ [rec])"
  using assms
  by (cases "rd_acks E (rd_produced w)")
    (auto simp: redriveRecord_def Let_def allow_of_iff admissible_def minted_after_def CommitRecords_def
      split: if_splits prod.splits option.splits)

lemma redriveRecord_err:
  assumes "redriveRecord E cfg (allow_of cfg) rec w stats = (w', stats', Some e)"
  shows "rd_committed w' = rd_committed w \<and> sRead stats' = sRead stats \<and> Republished stats' = Republished stats
    \<and> (rd_log w' = rd_log w
       \<or> (\<not> DryRun cfg \<and> admissible cfg rec \<and> rd_log w' = rd_log w @ [new_rec cfg (rd_uuids E (rd_minted w)) rec]))"
  using assms
  by (cases "rd_acks E (rd_produced w)")
    (auto simp: redriveRecord_def Let_def allow_of_iff admissible_def CommitRecords_def
      split: if_splits prod.splits option.splits)

section \<open>Runs\<close>

definition minted_by :: "redrive_config \<Rightarrow> nat \<Rightarrow> kgo_record list \<Rightarrow> nat" where
  "minted_by cfg n rs = (if FreshIDs cfg then n + length rs else n)"

lemma images_append: "images E cfg n (rs @ rs') = images E cfg n rs @ images E cfg (minted_by cfg n rs) rs'"
proof -
  have "images E cfg n (rs @ rs') = images E cfg n rs @ images E cfg (n + length rs) rs'"
    by (induction rs arbitrary: n) (simp_all add: images_Cons)
  then show ?thesis using images_not_fresh [of cfg E "n + length rs" rs' n] by (simp add: minted_by_def)
qed

lemma minted_by_append: "minted_by cfg n (rs @ rs') = minted_by cfg (minted_by cfg n rs) rs'"
  by (simp add: minted_by_def)

text \<open>From the state \<open>(w, s)\<close> the records \<open>rs\<close> were redriven, and then, when \<open>failed\<close>, the run stopped on an
  error; the record it stopped on may have been stored, and is not committed.\<close>

definition redriven ::
  "redrive_env \<Rightarrow> redrive_config \<Rightarrow> kgo_record list \<Rightarrow> kgo_record list \<Rightarrow> bool \<Rightarrow> redrive_world \<Rightarrow> redrive_stats
     \<Rightarrow> redrive_world \<Rightarrow> redrive_stats \<Rightarrow> bool" where
  "redriven E cfg rs rest failed w s w' s' \<longleftrightarrow>
     (\<forall>r \<in> set rs. admissible cfg r)
     \<and> rd_committed w' = rd_committed w @ (if DryRun cfg then [] else rs)
     \<and> (rd_log w' = rd_log w @ (if DryRun cfg then [] else images E cfg (rd_minted w) rs)
        \<or> (failed \<and> \<not> DryRun cfg
           \<and> (\<exists>d rest'. rest = d # rest' \<and> admissible cfg d \<and> rd_log w' = rd_log w @ images E cfg (rd_minted w) (rs @ [d]))))
     \<and> (\<not> failed \<longrightarrow> rd_minted w' = minted_by cfg (rd_minted w) rs)
     \<and> Republished s' = Republished s + (if DryRun cfg then 0 else int (length rs))
     \<and> sRead s' \<in> {sRead s + int (length rs), sRead s + int (length rs) + (if failed then 1 else 0)}"

lemma redriven_refl: "redriven E cfg [] rest failed w s w s"
  by (simp add: redriven_def minted_by_def)

lemma redriven_trans:
  assumes "redriven E cfg rs rest0 False w s w1 s1" "redriven E cfg rs' rest failed w1 s1 w' s'"
  shows "redriven E cfg (rs @ rs') rest failed w s w' s'"
proof -
  have m: "rd_minted w1 = minted_by cfg (rd_minted w) rs" using assms(1) by (simp add: redriven_def)
  show ?thesis
    using assms unfolding redriven_def m
    by (auto simp: images_append minted_by_append algebra_simps)
qed

lemma redriven_one_ok:
  assumes "redriveRecord E cfg (allow_of cfg) rec w (s\<lparr>sRead := sRead s + 1\<rparr>) = (w1, s1, None)"
  shows "redriven E cfg [rec] rest False w s w1 (if DryRun cfg then s1 else s1\<lparr>Republished := Republished s1 + 1\<rparr>)"
  using redriveRecord_ok [OF assms]
  by (auto simp: redriven_def minted_by_def minted_after_def images_Cons split: if_splits)

lemma redriven_one_err:
  assumes "redriveRecord E cfg (allow_of cfg) rec w (s\<lparr>sRead := sRead s + 1\<rparr>) = (w1, s1, Some e)"
  shows "redriven E cfg [] (rec # rest) True w s w1 s1"
  using redriveRecord_err [OF assms] by (auto simp: redriven_def images_Cons)

lemma redrive_batch_spec:
  assumes "redrive_batch E cfg (allow_of cfg) target recs w s = (w', s', res)" "sRead s \<le> target"
  shows "\<exists>rs rest. recs = rs @ rest \<and> redriven E cfg rs rest (res \<noteq> None) w s w' s' \<and> sRead s' \<le> target
    \<and> (res = None \<longrightarrow> rest = [] \<or> sRead s' = target)"
  using assms
proof (induction recs arbitrary: w s)
  case Nil
  then show ?case using redriven_refl by auto
next
  case (Cons rec recs)
  show ?case
  proof (cases "sRead s \<ge> target")
    case True
    then show ?thesis using Cons.prems by (intro exI [of _ "[]"] exI [of _ "rec # recs"]) (auto intro: redriven_refl)
  next
    case room: False
    obtain w1 s1 r1 where one: "redriveRecord E cfg (allow_of cfg) rec w (s\<lparr>sRead := sRead s + 1\<rparr>) = (w1, s1, r1)"
      by (metis prod_cases3)
    show ?thesis
    proof (cases r1)
      case None
      let ?s = "if DryRun cfg then s1 else s1\<lparr>Republished := Republished s1 + 1\<rparr>"
      have ok: "redriven E cfg [rec] recs False w s w1 ?s" using redriven_one_ok one None by blast
      have next_batch: "redrive_batch E cfg (allow_of cfg) target recs w1 ?s = (w', s', res)"
        using Cons.prems room one None by simp
      have "sRead ?s \<le> target" using redriveRecord_ok [OF one [unfolded None]] room by simp
      from Cons.IH [OF next_batch this] obtain rs rest where
        "recs = rs @ rest" "redriven E cfg rs rest (res \<noteq> None) w1 ?s w' s'" "sRead s' \<le> target"
        "res = None \<longrightarrow> rest = [] \<or> sRead s' = target" by blast
      with redriven_trans [OF ok] show ?thesis by (intro exI [of _ "rec # rs"] exI [of _ rest]) auto
    next
      case (Some e)
      have "w' = w1" "s' = s1" "res = Some e" using Cons.prems room one Some by auto
      moreover have "sRead s1 \<le> target" using redriveRecord_err [OF one [unfolded Some]] room by simp
      ultimately show ?thesis using redriven_one_err [OF one [unfolded Some], of recs]
        by (intro exI [of _ "[]"] exI [of _ "rec # recs"]) auto
    qed
  qed
qed

text \<open>The records the polls bring, up to the first answer that ends the loop.\<close>

definition polled :: "poll_answer list \<Rightarrow> kgo_record list" where
  "polled polls = concat (map fetch_recs polls)"

lemma redrive_polls_spec:
  assumes "redrive_polls E cfg (allow_of cfg) target polls w s = (w', s', res)" "sRead s \<le> target"
  shows "\<exists>rs rest. polled polls = rs @ rest \<and> redriven E cfg rs rest (\<exists>e. res = RedriveFailed e) w s w' s'
    \<and> sRead s' \<le> target \<and> (res = RedriveDone \<longrightarrow> sRead s' = target)"
  using assms
proof (induction polls arbitrary: w s)
  case Nil
  then show ?case
    using redriven_refl by (auto simp: polled_def redrive_polls.simps [of _ _ _ _ "[]"] split: if_splits)
next
  case (Cons p ps)
  note step = redrive_polls.simps [of E cfg "allow_of cfg" target "p # ps" w s]
  have idle: "\<exists>rs rest. polled (p # ps) = rs @ rest \<and> redriven E cfg rs rest b w s w s" for b
    by (intro exI [of _ "[]"] exI [of _ "polled (p # ps)"]) (simp add: redriven_refl)
  show ?case
  proof (cases "sRead s < target \<and> \<not> err0_ctx p \<and> fetch_errs p = []")
    case False
    then show ?thesis using Cons.prems idle by (auto simp: step split: if_splits list.splits)
  next
    case True
    obtain w1 s1 r1 where b: "redrive_batch E cfg (allow_of cfg) target (fetch_recs p) w s = (w1, s1, r1)"
      by (metis prod_cases3)
    from redrive_batch_spec [OF b Cons.prems(2)] obtain rs rest where
      split: "fetch_recs p = rs @ rest" and d: "redriven E cfg rs rest (r1 \<noteq> None) w s w1 s1"
      and le: "sRead s1 \<le> target" and full: "r1 = None \<longrightarrow> rest = [] \<or> sRead s1 = target" by blast
    have p: "polled (p # ps) = rs @ rest @ polled ps" using split by (simp add: polled_def)
    show ?thesis
    proof (cases r1)
      case (Some e)
      then have "w' = w1" "s' = s1" "res = RedriveFailed e" using Cons.prems True b by (auto simp: step)
      moreover have "redriven E cfg rs (rest @ polled ps) True w s w1 s1" using d Some by (auto simp: redriven_def)
      ultimately show ?thesis using le p by (intro exI [of _ rs] exI [of _ "rest @ polled ps"]) simp
    next
      case None
      then have nxt: "redrive_polls E cfg (allow_of cfg) target ps w1 s1 = (w', s', res)"
        using Cons.prems True b by (simp add: step)
      from None d have d: "redriven E cfg rs rest False w s w1 s1" by simp
      show ?thesis
      proof (cases "sRead s1 = target")
        case True
        then have "w' = w1" "s' = s1" "res = RedriveDone" using nxt by (auto simp: redrive_polls.simps [of _ _ _ _ ps])
        then show ?thesis using True p d by (intro exI [of _ rs] exI [of _ "rest @ polled ps"]) (simp add: redriven_def)
      next
        case False
        then have "rest = []" using full None by simp
        from Cons.IH [OF nxt le] obtain rs' rest' where
          "polled ps = rs' @ rest'" "redriven E cfg rs' rest' (\<exists>e. res = RedriveFailed e) w1 s1 w' s'"
          "sRead s' \<le> target" "res = RedriveDone \<longrightarrow> sRead s' = target" by blast
        with redriven_trans [OF d] \<open>rest = []\<close> p show ?thesis
          by (intro exI [of _ "rs @ rs'"] exI [of _ rest']) auto
      qed
    qed
  qed
qed

text \<open>The whole run, from a world in which nothing was stored or committed yet.\<close>

definition fresh_world :: redrive_world where
  "fresh_world = \<lparr>rd_log = [], rd_committed = [], rd_produced = 0, rd_commits = 0, rd_minted = 0\<rparr>"

lemma fresh_world_simps [simp]: "rd_log fresh_world = []" "rd_committed fresh_world = []" "rd_minted fresh_world = 0"
  by (simp_all add: fresh_world_def)

lemma image_clean:
  "kTopic (new_rec cfg u r) = orig_topic r" "kKey (new_rec cfg u r) = kKey r" "kValue (new_rec cfg u r) = kValue r"
  "(k, v) \<in> set (kHeaders (new_rec cfg u r)) \<Longrightarrow> \<not> strippedHeaders k"
  by (auto simp: new_rec_def out_headers_def strippedHeaders_def HeaderMessageID_def HeaderDLTError_def
      HeaderDLTAttempts_def HeaderDLTOriginalTopic_def HeaderAttempt_def HeaderOrigTopic_def HeaderDueAt_def
      HeaderLastError_def split: if_splits)

lemma set_images: "r \<in> set (images E cfg n rs) \<Longrightarrow> \<exists>d \<in> set rs. \<exists>i. r = new_rec cfg (rd_uuids E i) d"
  by (auto simp: images_def)

lemma redriven_log_safe:
  assumes "redriven E cfg rs rest failed fresh_world s w' s'" "r \<in> set (rd_log w')"
  shows "\<exists>d \<in> set (rs @ rest). kTopic r = orig_topic d \<and> kTopic r \<in> set (AllowTopics cfg) \<and> kKey r = kKey d
    \<and> kValue r = kValue d \<and> (\<forall>h \<in> set (kHeaders r). \<not> strippedHeaders (fst h))"
proof -
  have "\<exists>ds n. set ds \<subseteq> set (rs @ rest) \<and> (\<forall>d \<in> set ds. admissible cfg d) \<and> r \<in> set (images E cfg n ds)"
  proof (cases "rd_log w' = (if DryRun cfg then [] else images E cfg 0 rs)")
    case True
    then show ?thesis
      using assms by (intro exI [of _ rs] exI [of _ 0]) (auto simp: redriven_def split: if_splits)
  next
    case False
    then obtain d rest' where "rest = d # rest'" "admissible cfg d" "rd_log w' = images E cfg 0 (rs @ [d])"
      using assms(1) by (auto simp: redriven_def split: if_splits)
    then show ?thesis
      using assms by (intro exI [of _ "rs @ [d]"] exI [of _ 0]) (auto simp: redriven_def)
  qed
  then obtain ds n where "set ds \<subseteq> set (rs @ rest)" "\<forall>d \<in> set ds. admissible cfg d" "r \<in> set (images E cfg n ds)"
    by blast
  with set_images [of r E cfg n ds] show ?thesis
    by (auto simp: admissible_def image_clean dest: image_clean(4))
qed

lemma run_spec:
  assumes run: "redrive_Run E cfg polls fresh_world = (w', s', res)"
    and pend: "pendingCount E = Inr n" "0 \<le> n"
  shows "\<exists>rs rest. polled polls = rs @ rest
    \<and> redriven E cfg rs rest (\<exists>e. res = RedriveFailed e) fresh_world \<lparr>sRead = 0, Republished = 0, MissingMessageID = 0\<rparr> w' s'
    \<and> sRead s' \<le> redrive_target cfg n \<and> (res = RedriveDone \<longrightarrow> sRead s' = redrive_target cfg n)"
proof -
  let ?s = "\<lparr>sRead = 0, Republished = 0, MissingMessageID = 0\<rparr> :: redrive_stats"
  have t: "0 \<le> redrive_target cfg n" using pend(2) by (auto simp: redrive_target_def)
  have idle: ?thesis if "w' = fresh_world" "s' = ?s" "res = RedriveDone \<longrightarrow> redrive_target cfg n = 0"
    using that t by (intro exI [of _ "[]"] exI [of _ "polled polls"]) (auto intro: redriven_refl)
  show ?thesis
  proof (cases "rBrokers cfg = [] \<or> rDLT cfg = '''' \<or> rd_client E \<noteq> None \<or> n = 0")
    case True
    then have "w' = fresh_world \<and> s' = ?s \<and> (res = RedriveDone \<longrightarrow> n = 0)"
      using run pend by (auto simp: redrive_Run_def Let_def split: if_splits option.splits)
    then show ?thesis using idle by (auto simp: redrive_target_def)
  next
    case False
    then have "redrive_polls E cfg (allow_of cfg) (redrive_target cfg n) polls fresh_world ?s = (w', s', res)"
      using run pend by (simp add: redrive_Run_def)
    from redrive_polls_spec [OF this] t show ?thesis by simp
  qed
qed

text \<open>C19. A redrive run is safe and resumable. Whatever the polls, the broker and the commits answer: the records
  it commits are a prefix of the records the polls brought, in order, so a rerun starts at the first record
  that was not redriven; every committed record was stored at its destination, as a record with the same
  key and value and none of the retry headers; everything that was stored went to a topic of the allowlist
  and comes from a record that was read; a dry run stores and commits nothing. The counters are exact:
  without a dry run as many records are counted as republished as were committed, at most one more was read
  (the one the run stopped on), never more than the limit and the pending count allow, and a run that ends
  without an error read exactly that many.\<close>

theorem redrive_resumable:
  assumes "redrive_Run E cfg polls fresh_world = (w', s', res)" "pendingCount E = Inr n" "0 \<le> n"
  shows "(\<exists>rs rest. polled polls = rs @ rest \<and> rd_committed w' = (if DryRun cfg then [] else rs)
      \<and> Republished s' = int (length (rd_committed w')) \<and> int (length rs) \<le> sRead s' \<and> sRead s' \<le> int (length rs) + 1)
    \<and> sRead s' \<le> redrive_target cfg n \<and> (res = RedriveDone \<longrightarrow> sRead s' = redrive_target cfg n)
    \<and> (\<forall>d \<in> set (rd_committed w'). \<exists>r \<in> set (rd_log w').
         kTopic r = orig_topic d \<and> kKey r = kKey d \<and> kValue r = kValue d)
    \<and> (\<forall>r \<in> set (rd_log w'). kTopic r \<in> set (AllowTopics cfg) \<and> (\<forall>h \<in> set (kHeaders r). \<not> strippedHeaders (fst h))
         \<and> (\<exists>d \<in> set (polled polls). kTopic r = orig_topic d \<and> kKey r = kKey d \<and> kValue r = kValue d))
    \<and> (DryRun cfg \<longrightarrow> rd_log w' = [])"
proof -
  from run_spec [OF assms] obtain rs rest where p: "polled polls = rs @ rest"
    and d: "redriven E cfg rs rest (\<exists>e. res = RedriveFailed e) fresh_world \<lparr>sRead = 0, Republished = 0, MissingMessageID = 0\<rparr> w' s'"
    and b: "sRead s' \<le> redrive_target cfg n" "res = RedriveDone \<longrightarrow> sRead s' = redrive_target cfg n" by blast
  have c: "rd_committed w' = (if DryRun cfg then [] else rs)"
    and pub: "Republished s' = (if DryRun cfg then 0 else int (length rs))"
    and rd: "int (length rs) \<le> sRead s'" "sRead s' \<le> int (length rs) + 1"
    and dry: "DryRun cfg \<Longrightarrow> rd_log w' = []"
    using d by (auto simp: redriven_def split: if_splits)
  have imgs: "set (images E cfg 0 rs) \<subseteq> set (rd_log w')" if "\<not> DryRun cfg"
    using d that by (auto simp: redriven_def images_append)
  have stored: "\<exists>r \<in> set (rd_log w'). kTopic r = orig_topic x \<and> kKey r = kKey x \<and> kValue r = kValue x"
    if x: "x \<in> set (rd_committed w')" for x
  proof -
    have "\<not> DryRun cfg" "x \<in> set rs" using x c by (auto split: if_splits)
    moreover from this obtain i where "i < length rs" "x = rs ! i" by (metis in_set_conv_nth)
    ultimately have "new_rec cfg (rd_uuids E i) x \<in> set (rd_log w')" using imgs by (auto simp: images_def)
    then show ?thesis using image_clean by blast
  qed
  have "\<exists>rs rest. polled polls = rs @ rest \<and> rd_committed w' = (if DryRun cfg then [] else rs)
      \<and> Republished s' = int (length (rd_committed w')) \<and> int (length rs) \<le> sRead s' \<and> sRead s' \<le> int (length rs) + 1"
    using p c pub rd by (intro exI [of _ rs] exI [of _ rest]) simp
  moreover have "\<forall>r \<in> set (rd_log w'). kTopic r \<in> set (AllowTopics cfg) \<and> (\<forall>h \<in> set (kHeaders r). \<not> strippedHeaders (fst h))
         \<and> (\<exists>d \<in> set (polled polls). kTopic r = orig_topic d \<and> kKey r = kKey d \<and> kValue r = kValue d)"
    using redriven_log_safe [OF d] p by metis
  ultimately show ?thesis using b dry stored by blast
qed

text \<open>A run that has nothing in its way drains the topic: when the destinations are allowed, the broker stores
  every record and every commit succeeds, a batch of no more records than are wanted is redriven to its
  end.\<close>

lemma redrive_batch_total:
  assumes "\<forall>r \<in> set recs. admissible cfg r" "\<forall>n. rd_acks E n = Stored" "\<forall>n. rd_commit_errs E n = None"
    "sRead s + int (length recs) \<le> target"
  shows "\<exists>w' s'. redrive_batch E cfg (allow_of cfg) target recs w s = (w', s', None) \<and> sRead s' = sRead s + int (length recs)"
  using assms
proof (induction recs arbitrary: w s)
  case (Cons rec recs)
  have a: "admissible cfg rec" and room: "\<not> sRead s \<ge> target" using Cons.prems by auto
  have "snd (snd (redriveRecord E cfg (allow_of cfg) rec w (s\<lparr>sRead := sRead s + 1\<rparr>))) = None"
    using a Cons.prems(2,3) by (simp add: redriveRecord_def Let_def allow_of_iff admissible_def CommitRecords_def)
  then obtain w1 s1 where one: "redriveRecord E cfg (allow_of cfg) rec w (s\<lparr>sRead := sRead s + 1\<rparr>) = (w1, s1, None)"
    by (metis prod.collapse)
  let ?s = "if DryRun cfg then s1 else s1\<lparr>Republished := Republished s1 + 1\<rparr>"
  have "sRead ?s = sRead s + 1" using redriveRecord_ok [OF one] by simp
  with Cons.IH [of ?s w1] Cons.prems one room show ?case by auto
qed simp

lemma redrive_polls_total:
  assumes "\<forall>r \<in> set (polled polls). admissible cfg r" "\<forall>n. rd_acks E n = Stored" "\<forall>n. rd_commit_errs E n = None"
    "\<forall>p \<in> set polls. \<not> err0_ctx p \<and> fetch_errs p = []" "sRead s + int (length (polled polls)) = target"
  shows "\<exists>w' s'. redrive_polls E cfg (allow_of cfg) target polls w s = (w', s', RedriveDone)"
  using assms
proof (induction polls arbitrary: w s)
  case Nil
  then show ?case by (simp add: polled_def redrive_polls.simps)
next
  case (Cons p ps)
  show ?case
  proof (cases "sRead s < target")
    case False
    then show ?thesis by (simp add: redrive_polls.simps)
  next
    case True
    have "\<forall>r \<in> set (fetch_recs p). admissible cfg r" "sRead s + int (length (fetch_recs p)) \<le> target"
      using Cons.prems by (auto simp: polled_def)
    from redrive_batch_total [OF this(1) Cons.prems(2,3) this(2), of w] obtain w1 s1 where
      b: "redrive_batch E cfg (allow_of cfg) target (fetch_recs p) w s = (w1, s1, None)"
      and r: "sRead s1 = sRead s + int (length (fetch_recs p))" by blast
    have "\<exists>w' s'. redrive_polls E cfg (allow_of cfg) target ps w1 s1 = (w', s', RedriveDone)"
      using Cons.prems r by (intro Cons.IH) (auto simp: polled_def)
    then show ?thesis using True b Cons.prems(4) by (simp add: redrive_polls.simps [of _ _ _ _ "p # ps"])
  qed
qed

text \<open>The pending count is the number of offsets between where the group stands and the end of each partition,
  as long as that number is an \<open>int64\<close>.\<close>

lemma pending_sum_exact:
  assumes "\<forall>(k, e) \<in> set ends. 0 \<le> e \<and> 0 \<le> redrive_from starts offsets k" "0 \<le> pending"
    "pending + (\<Sum>(k, e) \<leftarrow> ends. max 0 (e - redrive_from starts offsets k)) \<le> max_int64"
  shows "pending_sum starts offsets ends pending = pending + (\<Sum>(k, e) \<leftarrow> ends. max 0 (e - redrive_from starts offsets k))"
  using assms
proof (induction ends arbitrary: pending)
  case (Cons x ends)
  obtain k e where x: "x = (k, e)" by (cases x)
  let ?f = "redrive_from starts offsets k"
  have nonneg: "0 \<le> (\<Sum>(k, e) \<leftarrow> ends. max 0 (e - redrive_from starts offsets k))"
    by (rule sum_list_nonneg) auto
  have "wrap64 (e - ?f) = e - ?f" "wrap64 (pending + (e - ?f)) = pending + (e - ?f)" if "e > ?f"
    using Cons.prems nonneg that x by (auto intro!: wrap64_id simp: max_int64_def min_int64_def max_def)
  with Cons.IH [of "pending + max 0 (e - ?f)"] Cons.prems x show ?case
    by (auto simp: Let_def max_def split: if_splits)
qed simp

text \<open>Three pending records; the broker stores the second one and the acknowledgement is lost: the run stops
  there with one record committed and two stored.\<close>

definition demo_dead :: "int \<Rightarrow> kgo_record" where
  "demo_dead i = \<lparr>kTopic = ''orders.DLT'', kKey = ''o1'', kValue = ''v'',
     kHeaders = [(''message-id'', ''m1''), (''x-error'', ''boom''), (''x-attempts'', ''3''), (''x-original-topic'', ''orders'')],
     kPartition = 0, kOffset = i\<rparr>"

definition demo_redrive :: redrive_env where
  "demo_redrive = \<lparr>rd_client = None, rd_starts = Inr Map.empty, rd_ends = Inr [((''orders.DLT'', 0), 3)],
     rd_offsets = Inr Map.empty, rd_acks = (\<lambda>n. if n = 1 then StoredLost (ErrText ''timeout'') else Stored),
     rd_commit_errs = (\<lambda>_. None), rd_uuids = (\<lambda>_. ''u'')\<rparr>"

definition demo_redrive_cfg :: redrive_config where
  "demo_redrive_cfg = \<lparr>rBrokers = [''b''], rDLT = ''orders.DLT'', Limit = 0, DryRun = False, FreshIDs = False, rGroup = '''',
     AllowTopics = [''orders'']\<rparr>"

definition demo_polls :: "poll_answer list" where
  "demo_polls = [\<lparr>err0_ctx = False, poll_ctx = None, fetch_errs = [], fetch_recs = [demo_dead 0, demo_dead 1, demo_dead 2]\<rparr>]"

lemma demo_redrive_run:
  "rd_committed (fst (redrive_Run demo_redrive demo_redrive_cfg demo_polls fresh_world)) = [demo_dead 0]"
  "length (rd_log (fst (redrive_Run demo_redrive demo_redrive_cfg demo_polls fresh_world))) = 2"
  "pendingCount demo_redrive = Inr 3"
  by (simp_all add: redrive_Run_def redrive_polls.simps demo_redrive_def demo_redrive_cfg_def demo_polls_def fresh_world_def
      pendingCount_def redrive_from_def redrive_target_def redriveRecord_def Let_def orig_topic_def demo_dead_def
      HeadersFromKGO_def str_at_def allow_of_def CommitRecords_def HeaderDLTOriginalTopic_def HeaderMessageID_def)

theorem redrive_resumable_witness:
  "\<exists>rs rest. polled demo_polls = rs @ rest \<and> rs = [demo_dead 0]"
proof -
  obtain w s res where run: "redrive_Run demo_redrive demo_redrive_cfg demo_polls fresh_world = (w, s, res)"
    by (metis prod_cases3)
  have "rd_committed w = [demo_dead 0]" using demo_redrive_run(1) run by simp
  with redrive_resumable [OF run demo_redrive_run(3)] show ?thesis by (auto simp: demo_redrive_cfg_def)
qed

section \<open>The dead-letter round trip\<close>

lemma map_of_filter_keys: "map_of (filter (\<lambda>(k, v). P k) hs) = (\<lambda>k. if P k then map_of hs k else None)"
  by (induction hs) (auto simp: fun_eq_iff)

text \<open>C37. Dead-lettering and redriving give a record back. Take a record that failed, the record \<open>WithRetry\<close>
  writes to the dead-letter topic for it, and that record as the tool reads it there. Redriven without
  fresh ids, it goes to the topic the failed record came from, with its key, its value, and its headers (so
  with its message id: a consumer that has already handled it skips it), except that the retry headers are
  gone and that the code of the application error, which \<open>WithRetry\<close> writes too and the tool does not
  strip, stays behind.\<close>

theorem redrive_roundtrip:
  assumes "HeadersFromKGO (kHeaders d) = Headers (dlt_record dlt rec e n)" "distinct (map fst (kHeaders d))"
    "kKey d = Key rec" "kValue d = Value rec" "Topic rec \<noteq> ''''" "\<not> FreshIDs cfg"
    "\<forall>k. strippedHeaders k \<longrightarrow> Headers rec k = None"
  shows "RecordFromKGO (new_rec cfg u d) =
    \<lparr>Topic = Topic rec, Key = Key rec, Value = Value rec,
     Headers = (case as_app e of None \<Rightarrow> Headers rec | Some ae \<Rightarrow> (Headers rec)(HeaderDLTErrorCode \<mapsto> acode ae)),
     Partition = 0, Offset = 0\<rparr>"
proof -
  note names = HeaderDLTError_def HeaderDLTAttempts_def HeaderDLTOriginalTopic_def HeaderDLTErrorCode_def
    HeaderAttempt_def HeaderOrigTopic_def HeaderDueAt_def HeaderLastError_def
  have hs: "map_of (kHeaders d) = Headers (dlt_record dlt rec e n)"
    using assms(1) HeadersFromKGO_map_of [OF assms(2)] by simp
  have t: "orig_topic d = Topic rec"
    using assms(1,5) by (auto simp: orig_topic_def str_at_def dlt_record_def Let_def names split: option.splits)
  have dist: "distinct (map fst (filter (\<lambda>(k, v). \<not> strippedHeaders k) (kHeaders d)))"
    using assms(2) by (simp add: distinct_map_filter)
  have "HeadersFromKGO (filter (\<lambda>(k, v). \<not> strippedHeaders k) (kHeaders d))
    = (\<lambda>k. if \<not> strippedHeaders k then Headers (dlt_record dlt rec e n) k else None)"
    unfolding HeadersFromKGO_map_of [OF dist] map_of_filter_keys hs by (rule refl)
  also have "\<dots> = (case as_app e of None \<Rightarrow> Headers rec | Some ae \<Rightarrow> (Headers rec)(HeaderDLTErrorCode \<mapsto> acode ae))"
    using assms(7) by (auto simp: fun_eq_iff dlt_record_def Let_def strippedHeaders_def names split: option.splits)
  finally show ?thesis
    using assms(3,4,6) t by (simp add: RecordFromKGO_def new_rec_def out_headers_def)
qed

theorem redrive_roundtrip_witness:
  "RecordFromKGO (new_rec demo_redrive_cfg '''' (demo_dead 0)) =
     \<lparr>Topic = ''orders'', Key = ''o1'', Value = ''v'', Headers = [''message-id'' \<mapsto> ''m1''], Partition = 0, Offset = 0\<rparr>"
proof -
  let ?rec = "\<lparr>Topic = ''orders'', Key = ''o1'', Value = ''v'', Headers = [''message-id'' \<mapsto> ''m1''], Partition = 0, Offset = 0\<rparr> :: kafka_record"
  have three: "itoa 3 = ''3''" by code_simp
  have "HeadersFromKGO (kHeaders (demo_dead 0)) = Headers (dlt_record (\<lambda>t. t) ?rec (ErrText ''boom'') 3)"
    by (simp add: demo_dead_def HeadersFromKGO_def dlt_record_def Let_def HeaderDLTError_def HeaderDLTAttempts_def
        HeaderDLTOriginalTopic_def three)
  moreover have "\<forall>k. strippedHeaders k \<longrightarrow> Headers ?rec k = None"
    by (auto simp: strippedHeaders_def HeaderDLTError_def HeaderDLTAttempts_def HeaderDLTOriginalTopic_def
        HeaderAttempt_def HeaderOrigTopic_def HeaderDueAt_def HeaderLastError_def)
  ultimately show ?thesis
    using redrive_roundtrip [of "demo_dead 0" "\<lambda>t. t" ?rec "ErrText ''boom''" 3 demo_redrive_cfg "''''"]
    by (simp add: demo_dead_def demo_redrive_cfg_def)
qed

end
