(* ===== verification/Http_Server.thy ===== *)
theory Http_Server
  imports Httpx
begin

text \<open>
  \<open>platform/web/httpserver\<close>: the middleware of every HTTP server (\<open>middleware.go\<close>, \<open>responsewriter.go\<close>,
  \<open>server.go\<close>) and the security headers and cross-origin policy of \<open>security.go\<close>. A handler is a function
  of the request, of the response headers set so far and of a state \<open>'s\<close>; it answers with the calls it makes on
  the response writer, in order, and with how it ended. Header names are as the source writes them. The tracing
  span, the timeout handler and the listener belong to the libraries and are not modelled.
\<close>

section \<open>net/http\<close>

record http_req =
  hr_method :: string
  hr_path :: string
  hr_header :: "string \<Rightarrow> string"
  hr_remote :: string
  hr_id :: string
  hr_principal :: "Principal option"
  hr_localizer :: "localizer option"
  hr_body_limit :: "int option"

type_synonym hdrs = "string \<rightharpoonup> string list"

datatype body = BText string | BProblem Problem

datatype action = ASet string string | AAdd string string | ADel string | AWriteHeader int | AWrite body | AFlush

datatype panic = PanicValue string | PanicAbort

type_synonym outcome = "panic option"

type_synonym 's handler = "http_req \<Rightarrow> hdrs \<Rightarrow> 's \<Rightarrow> 's \<times> action list \<times> outcome"

fun header_act :: "action \<Rightarrow> hdrs \<Rightarrow> hdrs" where
  "header_act (ASet k v) h = h(k \<mapsto> [v])"
| "header_act (AAdd k v) h = h(k \<mapsto> (case h k of Some vs \<Rightarrow> vs | None \<Rightarrow> []) @ [v])"
| "header_act (ADel k) h = h(k := None)"
| "header_act (AWriteHeader _) h = h"
| "header_act (AWrite _) h = h"
| "header_act AFlush h = h"

definition header_acts :: "action list \<Rightarrow> hdrs \<Rightarrow> hdrs" where
  "header_acts as h = fold header_act as h"

definition hGet :: "hdrs \<Rightarrow> string \<Rightarrow> string" where
  "hGet h k = (case h k of Some (v # _) \<Rightarrow> v | _ \<Rightarrow> '''')"

text \<open>The writer of the connection: the headers, what was committed (status and headers), and the body. An
  informational status is sent at once and commits nothing; a second status is ignored.\<close>

record resp =
  r_header :: hdrs
  r_sent :: "(int \<times> hdrs) option"
  r_body :: "body list"

definition resp0 :: resp where
  "resp0 = \<lparr>r_header = Map.empty, r_sent = None, r_body = []\<rparr>"

definition informational :: "int \<Rightarrow> bool" where
  "informational code \<longleftrightarrow> 100 \<le> code \<and> code \<le> 199 \<and> code \<noteq> 101"

definition commit_resp :: "int \<Rightarrow> resp \<Rightarrow> resp" where
  "commit_resp code p = (if r_sent p = None then p\<lparr>r_sent := Some (code, r_header p)\<rparr> else p)"

fun resp_act :: "action \<Rightarrow> resp \<Rightarrow> resp" where
  "resp_act (AWriteHeader code) p = (if informational code then p else commit_resp code p)"
| "resp_act (AWrite b) p = (let p1 = commit_resp 200 p in p1\<lparr>r_body := r_body p1 @ [b]\<rparr>)"
| "resp_act AFlush p = commit_resp 200 p"
| "resp_act a p = p\<lparr>r_header := header_act a (r_header p)\<rparr>"

text \<open>What the client gets: when the handler returns without having committed anything, the server commits 200.\<close>

definition respond :: "action list \<Rightarrow> resp" where
  "respond as = commit_resp 200 (fold resp_act as resp0)"

definition resp_status :: "action list \<Rightarrow> int" where
  "resp_status as = (case r_sent (respond as) of Some (code, _) \<Rightarrow> code | None \<Rightarrow> 0)"

definition resp_header :: "action list \<Rightarrow> hdrs" where
  "resp_header as = (case r_sent (respond as) of Some (_, h) \<Rightarrow> h | None \<Rightarrow> Map.empty)"

section \<open>responsewriter.go\<close>

record capturingWriter =
  cw_wroteHeader :: bool
  cw_status :: int
  cw_bytes :: int

definition capturing0 :: capturingWriter where
  "capturing0 = \<lparr>cw_wroteHeader = False, cw_status = 0, cw_bytes = 0\<rparr>"

definition cw_commit :: "int \<Rightarrow> capturingWriter \<Rightarrow> capturingWriter" where
  "cw_commit code cw = (if \<not> cw_wroteHeader cw then cw\<lparr>cw_wroteHeader := True, cw_status := code\<rparr> else cw)"

text \<open>The writes of a wrapped handler as the writer sees them; \<open>len\<close> gives the bytes of a body.\<close>

fun cw_act :: "(body \<Rightarrow> int) \<Rightarrow> action \<Rightarrow> capturingWriter \<Rightarrow> capturingWriter" where
  "cw_act len (AWriteHeader code) cw = cw_commit code cw"
| "cw_act len (AWrite b) cw = (let cw1 = cw_commit 200 cw in cw1\<lparr>cw_bytes := cw_bytes cw1 + len b\<rparr>)"
| "cw_act len AFlush cw = cw_commit 200 cw"
| "cw_act len a cw = cw"

definition captured :: "(body \<Rightarrow> int) \<Rightarrow> action list \<Rightarrow> capturingWriter" where
  "captured len as = fold (cw_act len) as capturing0"

definition cw_Status :: "capturingWriter \<Rightarrow> int" where
  "cw_Status cw = (if cw_status cw = 0 then 200 else cw_status cw)"

section \<open>Writing problems\<close>

text \<open>\<open>WriteProblem\<close> and \<open>WriteError\<close> as calls on the writer.\<close>

definition problem_acts :: "int \<times> Problem \<Rightarrow> action list" where
  "problem_acts p = [ASet ''Content-Type'' ''application/problem+json'', AWriteHeader (fst p), AWrite (BProblem (snd p))]"

definition write_error :: "code_registry \<Rightarrow> http_req \<Rightarrow> go_err \<Rightarrow> action list" where
  "write_error reg r e = problem_acts (WriteError reg (hr_localizer r) (hr_path r) (HErr e))"

definition httpx_Error :: "int \<Rightarrow> string \<Rightarrow> action list" where
  "httpx_Error st detail = problem_acts (WriteProblem (problem0\<lparr>pb_status := st, pb_detail := detail\<rparr>))"

section \<open>middleware.go\<close>

definition maxRequestIDLen :: nat where "maxRequestIDLen = 128"

definition validRequestID :: "string \<Rightarrow> bool" where
  "validRequestID s \<longleftrightarrow>
     \<not> (s = '''' \<or> length s > maxRequestIDLen)
     \<and> (\<forall>c \<in> set s. \<not> (of_char c < (0x20::nat) \<or> of_char c = (0x7f::nat)))"

text \<open>\<open>newID\<close> hex-encodes sixteen bytes, which are an argument.\<close>

definition hex_digit :: "nat \<Rightarrow> char" where
  "hex_digit n = (if n < 10 then char_of (48 + n) else char_of (87 + n))"

definition newID :: "nat list \<Rightarrow> string" where
  "newID bs = concat (map (\<lambda>b. [hex_digit (b div 16 mod 16), hex_digit (b mod 16)]) bs)"

definition RequestID :: "nat list \<Rightarrow> 's handler \<Rightarrow> 's handler" where
  "RequestID rnd h r hs s =
     (let id0 = hr_header r ''X-Request-Id'';
          id = (if validRequestID id0 then id0 else newID rnd);
          a = ASet ''X-Request-Id'' id
      in case h (r\<lparr>hr_id := id\<rparr>) (header_act a hs) s of (s', as, out) \<Rightarrow> (s', a # as, out))"

definition Recover :: "'s handler \<Rightarrow> 's handler" where
  "Recover h r hs s =
     (case h r hs s of
        (s', as, None) \<Rightarrow> (s', as, None)
      | (s', as, Some PanicAbort) \<Rightarrow> (s', as, Some PanicAbort)
      | (s', as, Some (PanicValue v)) \<Rightarrow>
          if \<not> cw_wroteHeader (captured (\<lambda>_. 0) as) then (s', as @ httpx_Error 500 ''internal server error'', None)
          else (s', as, None))"

definition MaxBytes :: "int \<Rightarrow> 's handler \<Rightarrow> 's handler" where
  "MaxBytes limit h r hs s = h (r\<lparr>hr_body_limit := Some limit\<rparr>) hs s"

text \<open>The line \<open>AccessLog\<close> writes: status, bytes and request id; the handler runs as it is.\<close>

definition AccessLog :: "(body \<Rightarrow> int) \<Rightarrow> 's handler \<Rightarrow> http_req \<Rightarrow> hdrs \<Rightarrow> 's
    \<Rightarrow> ('s \<times> action list \<times> outcome) \<times> (int \<times> int \<times> string) option" where
  "AccessLog len h r hs s =
     (case h r hs s of
        (s', as, out) \<Rightarrow>
          ((s', as, out),
           if out = None then let cw = captured len as in Some (cw_Status cw, cw_bytes cw, hr_id r) else None))"

section \<open>security.go: headers and CORS\<close>

definition security_acts :: "int \<Rightarrow> action list" where
  "security_acts hstsMaxAge =
     [ASet ''X-Content-Type-Options'' ''nosniff'', ASet ''X-Frame-Options'' ''DENY'', ASet ''Referrer-Policy'' ''no-referrer'',
      ASet ''Content-Security-Policy'' (''default-src '' @ [CHR 0x27] @ ''none'' @ [CHR 0x27]), ASet ''X-XSS-Protection'' ''0'']
     @ (if hstsMaxAge > 0
        then [ASet ''Strict-Transport-Security'' (''max-age='' @ itoa hstsMaxAge @ ''; includeSubDomains'')] else [])"

text \<open>A middleware that makes some header calls and passes the request on.\<close>

definition with_acts :: "action list \<Rightarrow> 's handler \<Rightarrow> 's handler" where
  "with_acts pre h r hs s = (case h r (header_acts pre hs) s of (s', as, out) \<Rightarrow> (s', pre @ as, out))"

definition SecurityHeadersWithHSTS :: "int \<Rightarrow> 's handler \<Rightarrow> 's handler" where
  "SecurityHeadersWithHSTS hstsMaxAge h = with_acts (security_acts hstsMaxAge) h"

definition SecurityHeaders :: "'s handler \<Rightarrow> 's handler" where
  "SecurityHeaders h = SecurityHeadersWithHSTS 0 h"

record CORSOptions =
  AllowedOrigins :: "string list"
  AllowedMethods :: "string list"
  AllowedHeaders :: "string list"
  MaxAge :: int

fun strings_Join :: "string \<Rightarrow> string list \<Rightarrow> string" where
  "strings_Join sep [] = ''''"
| "strings_Join sep [x] = x"
| "strings_Join sep (x # xs) = x @ sep @ strings_Join sep xs"

definition cors_methods :: "CORSOptions \<Rightarrow> string list" where
  "cors_methods opts = (if AllowedMethods opts = [] then [''GET'', ''POST'', ''PUT'', ''PATCH'', ''DELETE'', ''OPTIONS'']
                        else AllowedMethods opts)"

definition cors_headers :: "CORSOptions \<Rightarrow> string list" where
  "cors_headers opts = (if AllowedHeaders opts = [] then [''Content-Type'', ''Authorization''] else AllowedHeaders opts)"

text \<open>The origin set and \<open>allowAll\<close>, built in one pass.\<close>

fun cors_origins :: "string list \<Rightarrow> string set \<Rightarrow> bool \<Rightarrow> string set \<times> bool" where
  "cors_origins [] os all = (os, all)"
| "cors_origins (x # xs) os all =
     (if x = '''' then cors_origins xs os all
      else cors_origins xs (insert x os) (all \<or> x = ''*''))"

definition cors_allowed :: "CORSOptions \<Rightarrow> string \<Rightarrow> bool" where
  "cors_allowed opts origin = (case cors_origins (AllowedOrigins opts) {} False of (os, all) \<Rightarrow> all \<or> origin \<in> os)"

definition CORS :: "code_registry \<Rightarrow> CORSOptions \<Rightarrow> 's handler \<Rightarrow> 's handler" where
  "CORS reg opts h r hs s =
     (let vary = [AAdd ''Vary'' ''Origin'']; origin = hr_header r ''Origin'' in
      if origin = '''' then with_acts vary h r hs s
      else let allowed = cors_allowed opts origin in
           if hr_method r = ''OPTIONS'' \<and> hr_header r ''Access-Control-Request-Method'' \<noteq> ''''
           then (if \<not> allowed
                 then (s, vary @ write_error reg r (ErrApp (WithParam (app_New reg CodeAuthForbidden) ''reason'' ''origin not allowed'') None), None)
                 else (s, vary @ [ASet ''Access-Control-Allow-Origin'' origin,
                                  ASet ''Access-Control-Allow-Methods'' (strings_Join '', '' (cors_methods opts)),
                                  ASet ''Access-Control-Allow-Headers'' (strings_Join '', '' (cors_headers opts)),
                                  ASet ''Access-Control-Max-Age'' (itoa (if MaxAge opts = 0 then 300 else MaxAge opts)),
                                  AWriteHeader 204], None))
           else with_acts (vary @ (if allowed then [ASet ''Access-Control-Allow-Origin'' origin] else [])) h r hs s)"

section \<open>server.go: the stack\<close>

record server_config =
  MaxBodyBytes :: int
  HSTSMaxAge :: int
  noMaxBytes :: bool

text \<open>The standard stack, outermost first: security headers, request id, access log (its line apart), recovery,
  body cap.\<close>

definition logged :: "'s handler \<Rightarrow> 's handler" where
  "logged h r hs s = fst (AccessLog (\<lambda>_. 0) h r hs s)"

definition server_stack :: "server_config \<Rightarrow> nat list \<Rightarrow> 's handler \<Rightarrow> 's handler" where
  "server_stack cfg rnd h =
     SecurityHeadersWithHSTS (HSTSMaxAge cfg)
       (RequestID rnd
         (logged
           (Recover (if noMaxBytes cfg then h
                     else MaxBytes (if MaxBodyBytes cfg = 0 then 1048576 else MaxBodyBytes cfg) h))))"

section \<open>Headers that stay\<close>

fun touches :: "string \<Rightarrow> action \<Rightarrow> bool" where
  "touches k (ASet k' _) = (k' = k)"
| "touches k (AAdd k' _) = (k' = k)"
| "touches k (ADel k') = (k' = k)"
| "touches k _ = False"

definition leaves :: "string \<Rightarrow> action list \<Rightarrow> bool" where
  "leaves k as \<longleftrightarrow> (\<forall>a \<in> set as. \<not> touches k a)"

lemma leaves_simps [simp]:
  "leaves k []" "leaves k (a # as) \<longleftrightarrow> \<not> touches k a \<and> leaves k as" "leaves k (as @ bs) \<longleftrightarrow> leaves k as \<and> leaves k bs"
  by (auto simp: leaves_def)

lemma problem_acts_leaves [simp]: "leaves k (problem_acts p) \<longleftrightarrow> k \<noteq> ''Content-Type''"
  by (auto simp: problem_acts_def)

text \<open>A header stands at a value, now and in what was committed.\<close>

definition stands :: "string \<Rightarrow> string list option \<Rightarrow> resp \<Rightarrow> bool" where
  "stands k v p \<longleftrightarrow> r_header p k = v \<and> (\<forall>code h. r_sent p = Some (code, h) \<longrightarrow> h k = v)"

lemma stands_act: "stands k v p \<Longrightarrow> \<not> touches k a \<Longrightarrow> stands k v (resp_act a p)"
  by (cases a) (auto simp: stands_def commit_resp_def Let_def)

lemma stands_acts: "stands k v p \<Longrightarrow> leaves k as \<Longrightarrow> stands k v (fold resp_act as p)"
  by (induction as arbitrary: p) (auto simp: stands_act)

lemma resp_header_stands:
  assumes "stands k v (fold resp_act pre resp0)" "leaves k as"
  shows "resp_header (pre @ as) k = v"
proof -
  have "stands k v (fold resp_act (pre @ as) resp0)" using stands_acts [OF assms] by simp
  then show ?thesis by (auto simp: resp_header_def respond_def commit_resp_def stands_def split: option.splits)
qed

lemma stands_resp0 [simp]: "stands k None resp0"
  by (simp add: stands_def resp0_def)

lemma resp_header_none: "leaves k as \<Longrightarrow> resp_header as k = None"
  using resp_header_stands [of k None "[]" as] by simp

text \<open>Header calls before anything is committed, and the status of a response that opens with them.\<close>

fun header_call :: "action \<Rightarrow> bool" where
  "header_call (ASet _ _) = True"
| "header_call (AAdd _ _) = True"
| "header_call (ADel _) = True"
| "header_call _ = False"

lemma fold_header_calls:
  "list_all header_call pre \<Longrightarrow> fold resp_act pre p = p\<lparr>r_header := header_acts pre (r_header p)\<rparr>"
proof (induction pre arbitrary: p)
  case (Cons a pre)
  then show ?case by (cases a) (auto simp: header_acts_def)
qed (simp add: header_acts_def)

lemma sent_mono: "r_sent p = Some x \<Longrightarrow> r_sent (fold resp_act as p) = Some x"
proof (induction as arbitrary: p)
  case (Cons a as)
  have "r_sent (resp_act a p) = Some x" using Cons.prems by (cases a) (auto simp: commit_resp_def Let_def)
  then show ?case using Cons.IH by simp
qed simp

lemma status_irrelevant_headers:
  assumes "r_sent p = None" "r_sent q = None"
  shows "map_option fst (r_sent (fold resp_act as p)) = map_option fst (r_sent (fold resp_act as q))"
  using assms
proof (induction as arbitrary: p q)
  case (Cons a as)
  show ?case
  proof (cases "r_sent (resp_act a p)")
    case None
    then have "r_sent (resp_act a q) = None"
      using Cons.prems by (cases a) (auto simp: commit_resp_def Let_def split: if_splits)
    from Cons.IH [OF None this] show ?thesis by simp
  next
    case (Some x)
    then obtain y where "r_sent (resp_act a q) = Some y" "fst y = fst x"
      using Cons.prems by (cases a) (auto simp: commit_resp_def Let_def split: if_splits)
    then show ?thesis using Some sent_mono by simp
  qed
qed simp

lemma resp_status_prefix:
  assumes "list_all header_call pre"
  shows "resp_status (pre @ as) = resp_status as"
proof -
  have n: "r_sent (fold resp_act pre resp0) = None" using fold_header_calls [OF assms] by (simp add: resp0_def)
  have e: "map_option fst (r_sent (fold resp_act (pre @ as) resp0)) = map_option fst (r_sent (fold resp_act as resp0))"
    using status_irrelevant_headers [OF n, of resp0 as] by (simp add: resp0_def)
  show ?thesis
    using e by (auto simp: resp_status_def respond_def commit_resp_def split: option.splits)
qed

lemma resp_status_problem: "\<not> informational (fst p) \<Longrightarrow> resp_status (problem_acts p) = fst p"
  by (simp add: resp_status_def respond_def problem_acts_def commit_resp_def resp0_def)

section \<open>What the capturing writer knows\<close>

lemma captured_append: "captured len (as @ bs) = fold (cw_act len) bs (captured len as)"
  by (simp add: captured_def)

definition final_only :: "action list \<Rightarrow> bool" where
  "final_only as \<longleftrightarrow> (\<forall>code. AWriteHeader code \<in> set as \<longrightarrow> \<not> informational code \<and> code \<noteq> 0)"

text \<open>As long as no informational status is sent, the capturing writer and the connection agree.\<close>

definition cw_agrees :: "capturingWriter \<Rightarrow> resp \<Rightarrow> bool" where
  "cw_agrees cw p \<longleftrightarrow>
     (case r_sent p of None \<Rightarrow> \<not> cw_wroteHeader cw \<and> cw_status cw = 0
      | Some (code, _) \<Rightarrow> cw_wroteHeader cw \<and> cw_status cw = code \<and> code \<noteq> 0)"

lemma cw_agrees_act:
  assumes "cw_agrees cw p" "final_only [a]"
  shows "cw_agrees (cw_act len a cw) (resp_act a p)"
  using assms
  by (cases a) (auto simp: cw_agrees_def commit_resp_def cw_commit_def Let_def final_only_def split: option.splits)

lemma captured_agrees:
  assumes "final_only as" "cw_agrees cw p"
  shows "cw_agrees (fold (cw_act len) as cw) (fold resp_act as p)"
  using assms
proof (induction as arbitrary: cw p)
  case (Cons a as)
  have "final_only as" "final_only [a]" using Cons.prems(1) by (auto simp: final_only_def)
  then show ?case using Cons.IH cw_agrees_act [OF Cons.prems(2)] by simp
qed simp

lemma captured_resp0: "final_only as \<Longrightarrow> cw_agrees (captured len as) (fold resp_act as resp0)"
  using captured_agrees [of as capturing0 resp0 len] by (simp add: captured_def capturing0_def resp0_def cw_agrees_def)

lemma captured_wrote:
  "final_only as \<Longrightarrow> cw_wroteHeader (captured len as) \<longleftrightarrow> r_sent (fold resp_act as resp0) \<noteq> None"
  using captured_resp0 [of as len] by (auto simp: cw_agrees_def split: option.splits)

text \<open>The status in the access log is the status the client got.\<close>

lemma access_log_status:
  assumes "AccessLog len h r hs s = ((s', as, out), Some (st, n, i))" "final_only as"
  shows "st = resp_status as \<and> i = hr_id r"
proof -
  have "st = cw_Status (captured len as)" "i = hr_id r"
    using assms(1) by (auto simp: AccessLog_def Let_def split: prod.splits if_splits)
  moreover have "cw_Status (captured len as) = resp_status as"
    using captured_resp0 [OF assms(2), of len]
    by (auto simp: cw_agrees_def cw_Status_def resp_status_def respond_def commit_resp_def split: option.splits)
  ultimately show ?thesis by simp
qed

section \<open>The stack keeps its contract\<close>

lemma hex_digit_range: "n < 16 \<Longrightarrow> 48 \<le> (of_char (hex_digit n) :: nat) \<and> (of_char (hex_digit n) :: nat) \<le> 102"
  by (auto simp: hex_digit_def)

lemma newID_valid: "length rnd = 16 \<Longrightarrow> validRequestID (newID rnd)"
proof -
  assume n: "length rnd = 16"
  have len: "length (newID bs) = 2 * length bs" for bs by (induction bs) (simp_all add: newID_def)
  have "\<forall>c \<in> set (newID bs). 48 \<le> (of_char c :: nat) \<and> (of_char c :: nat) \<le> 102" for bs
    using hex_digit_range by (auto simp: newID_def)
  then have chars: "\<forall>c \<in> set (newID rnd). \<not> (of_char c < (0x20::nat) \<or> of_char c = (0x7f::nat))" by fastforce
  have l: "length (newID rnd) = 32" using len [of rnd] n by simp
  then have "newID rnd \<noteq> []" by force
  then show ?thesis using l chars by (simp add: validRequestID_def maxRequestIDLen_def)
qed

text \<open>What \<open>Recover\<close> adds to the calls of a handler.\<close>

definition recovered :: "action list \<Rightarrow> outcome \<Rightarrow> action list" where
  "recovered bs pn =
     (case pn of
        Some (PanicValue _) \<Rightarrow> if cw_wroteHeader (captured (\<lambda>_. 0) bs) then bs else bs @ httpx_Error 500 ''internal server error''
      | _ \<Rightarrow> bs)"

definition security_pairs :: "(string \<times> string) list" where
  "security_pairs =
     [(''X-Content-Type-Options'', ''nosniff''), (''X-Frame-Options'', ''DENY''), (''Referrer-Policy'', ''no-referrer''),
      (''Content-Security-Policy'', ''default-src '' @ [CHR 0x27] @ ''none'' @ [CHR 0x27]), (''X-XSS-Protection'', ''0'')]"

definition guarded :: "string list" where
  "guarded = ''X-Request-Id'' # map fst security_pairs"

lemma server_stack_form:
  assumes "server_stack cfg rnd h r hs s = (s', as, out)" "length rnd = 16"
  shows "\<exists>i r' hs' bs pn. validRequestID i \<and> (validRequestID (hr_header r ''X-Request-Id'') \<longrightarrow> i = hr_header r ''X-Request-Id'')
    \<and> (\<exists>l. r' = r\<lparr>hr_id := i, hr_body_limit := l\<rparr>) \<and> h r' hs' s = (s', bs, pn)
    \<and> as = security_acts (HSTSMaxAge cfg) @ [ASet ''X-Request-Id'' i] @ recovered bs pn
    \<and> out = (if pn = Some PanicAbort then pn else None)"
proof -
  let ?i = "if validRequestID (hr_header r ''X-Request-Id'') then hr_header r ''X-Request-Id'' else newID rnd"
  let ?r = "if noMaxBytes cfg then r\<lparr>hr_id := ?i\<rparr>
    else r\<lparr>hr_id := ?i, hr_body_limit := Some (if MaxBodyBytes cfg = 0 then 1048576 else MaxBodyBytes cfg)\<rparr>"
  let ?hs = "header_act (ASet ''X-Request-Id'' ?i) (header_acts (security_acts (HSTSMaxAge cfg)) hs)"
  obtain s1 bs pn where h: "h ?r ?hs s = (s1, bs, pn)" by (metis prod_cases3)
  have "validRequestID ?i" using newID_valid [OF assms(2)] by simp
  moreover have "\<exists>l. ?r = r\<lparr>hr_id := ?i, hr_body_limit := l\<rparr>" by (cases "noMaxBytes cfg") (auto intro: exI [of _ "hr_body_limit r"])
  moreover have "s' = s1 \<and> as = security_acts (HSTSMaxAge cfg) @ [ASet ''X-Request-Id'' ?i] @ recovered bs pn
      \<and> out = (if pn = Some PanicAbort then pn else None)"
    using assms(1) h
    by (auto simp: server_stack_def SecurityHeadersWithHSTS_def with_acts_def RequestID_def Let_def logged_def AccessLog_def
        Recover_def MaxBytes_def recovered_def split: option.splits panic.splits if_splits)
  ultimately show ?thesis using h by (intro exI [of _ ?i] exI [of _ ?r] exI [of _ ?hs] exI [of _ bs] exI [of _ pn]) simp
qed

lemma security_acts_header_calls: "list_all header_call (security_acts n)"
  by (simp add: security_acts_def)

lemma security_acts_stand:
  assumes "(k, v) \<in> set security_pairs"
  shows "stands k (Some [v]) (fold resp_act (security_acts n @ [ASet ''X-Request-Id'' i]) resp0)"
  using assms
  by (auto simp: security_pairs_def security_acts_def stands_def resp0_def)

lemma recovered_leaves: "leaves k bs \<Longrightarrow> k \<noteq> ''Content-Type'' \<Longrightarrow> leaves k (recovered bs pn)"
  by (auto simp: recovered_def httpx_Error_def split: option.splits panic.splits)

lemma recovered_500:
  assumes "final_only bs" "r_sent (fold resp_act bs resp0) = None"
  shows "resp_status (recovered bs (Some (PanicValue v))) = 500"
proof -
  have "\<not> cw_wroteHeader (captured (\<lambda>_. 0) bs)" using captured_wrote [OF assms(1)] assms(2) by blast
  then show ?thesis
    using assms(2)
    by (simp add: recovered_def httpx_Error_def problem_acts_def resp_status_def respond_def commit_resp_def WriteProblem_def
        Let_def problem0_def informational_def)
qed


text \<open>A handler that panics at once, behind the stack: a 500 with the headers.\<close>

definition demo_req :: http_req where
  "demo_req = \<lparr>hr_method = ''GET'', hr_path = ''/v1/orders'', hr_header = (\<lambda>_. ''''), hr_remote = ''10.0.0.1:5000'', hr_id = '''',
     hr_principal = None, hr_localizer = None, hr_body_limit = None\<rparr>"

definition demo_panics :: "unit handler" where
  "demo_panics r hs s = (s, [], Some (PanicValue ''boom''))"


text \<open>An informational status is the exception: the capturing writer takes it for the response, so a panic after it is
  swallowed and the client gets an empty 200.\<close>

lemma panic_after_early_hints:
  "resp_status (fst (snd (Recover (\<lambda>r hs s. (s, [AWriteHeader 103], Some (PanicValue v))) r hs s))) = 200"
  by (simp add: Recover_def captured_def cw_commit_def capturing0_def resp_status_def respond_def commit_resp_def resp0_def
      informational_def)

text \<open>A request id with bytes outside ASCII is accepted.\<close>

lemma request_id_not_ascii: "validRequestID [CHR 0xC3, CHR 0xA9]"
  by code_simp

section \<open>The cross-origin policy\<close>

lemma cors_origins_spec:
  "cors_origins xs os all = (os \<union> {x \<in> set xs. x \<noteq> ''''}, all \<or> ''*'' \<in> set xs)"
  by (induction xs arbitrary: os all) auto

lemma cors_allowed_iff: "cors_allowed opts origin \<longleftrightarrow> ''*'' \<in> set (AllowedOrigins opts) \<or> (origin \<noteq> '''' \<and> origin \<in> set (AllowedOrigins opts))"
  by (auto simp: cors_allowed_def cors_origins_spec)

definition is_preflight :: "http_req \<Rightarrow> bool" where
  "is_preflight r \<longleftrightarrow>
     hr_header r ''Origin'' \<noteq> '''' \<and> hr_method r = ''OPTIONS'' \<and> hr_header r ''Access-Control-Request-Method'' \<noteq> ''''"

lemma forbidden_status:
  assumes "\<not> informational (fst (WriteError reg loc path (HErr e)))"
  shows "resp_status ([AAdd ''Vary'' ''Origin''] @ problem_acts (WriteError reg loc path (HErr e))) = fst (WriteError reg loc path (HErr e))"
  using resp_status_prefix [of "[AAdd ''Vary'' ''Origin'']"] resp_status_problem [OF assms] by simp

text \<open>The cross-origin policy denies by default. Whatever handler is behind it (one that does not set the header
  itself): a response names an allowed origin only if the request has that origin and the configuration lists
  it or the wildcard, so with no configured origin no response ever does; a preflight never reaches the handler,
  and is answered with 204 or, for an origin that is not allowed, with the error document and no such header;
  every other request reaches the handler, and every response varies with the origin.\<close>

theorem cors_denies_by_default:
  assumes "CORS reg opts h r hs s = (s', as, out)"
    "\<forall>r hs s s' bs pn. h r hs s = (s', bs, pn) \<longrightarrow> leaves ''Access-Control-Allow-Origin'' bs \<and> leaves ''Vary'' bs"
  shows "(\<forall>vs. resp_header as ''Access-Control-Allow-Origin'' = Some vs \<longrightarrow>
        vs = [hr_header r ''Origin''] \<and> hr_header r ''Origin'' \<noteq> ''''
        \<and> (hr_header r ''Origin'' \<in> set (AllowedOrigins opts) \<or> ''*'' \<in> set (AllowedOrigins opts)))
    \<and> resp_header as ''Vary'' = Some [''Origin'']
    \<and> (if is_preflight r
       then s' = s \<and> out = None
         \<and> (if cors_allowed opts (hr_header r ''Origin'') then resp_status as = 204
            else resp_header as ''Access-Control-Allow-Origin'' = None
              \<and> as = [AAdd ''Vary'' ''Origin''] @ write_error reg r
                  (ErrApp (WithParam (app_New reg CodeAuthForbidden) ''reason'' ''origin not allowed'') None))
       else \<exists>hs' pre bs. h r hs' s = (s', bs, out) \<and> as = pre @ bs \<and> list_all header_call pre)"
proof -
  let ?k = "''Access-Control-Allow-Origin''" and ?o = "hr_header r ''Origin''" and ?v = "AAdd ''Vary'' ''Origin''"
  let ?e = "write_error reg r (ErrApp (WithParam (app_New reg CodeAuthForbidden) ''reason'' ''origin not allowed'') None)"
  have vary: "stands ''Vary'' (Some [''Origin'']) (fold resp_act [?v] resp0)"
    by (simp add: stands_def resp0_def)
  consider (refused) "is_preflight r" "\<not> cors_allowed opts ?o" "s' = s" "out = None" "as = [?v] @ ?e"
    | (granted) "is_preflight r" "cors_allowed opts ?o" "s' = s" "out = None" "\<exists>rest. as = [?v] @ ASet ?k ?o # rest @ [AWriteHeader 204]
        \<and> leaves ?k rest \<and> leaves ''Vary'' rest \<and> list_all header_call rest"
    | (passed) hs' bs acao where "\<not> is_preflight r" "h r hs' s = (s', bs, out)" "as = [?v] @ acao @ bs"
        "acao = [] \<or> (?o \<noteq> '''' \<and> cors_allowed opts ?o \<and> acao = [ASet ?k ?o])"
    using assms(1)
    by (cases "?o = ''''"; cases "is_preflight r"; cases "cors_allowed opts ?o")
      (auto simp: CORS_def is_preflight_def Let_def with_acts_def split: prod.splits)
  then show ?thesis
  proof cases
    case refused
    have "leaves ?k ?e" "leaves ''Vary'' ?e" by (simp_all add: write_error_def)
    then have "resp_header as ?k = None" "resp_header as ''Vary'' = Some [''Origin'']"
      using refused resp_header_stands [OF vary] by (auto intro: resp_header_none)
    then show ?thesis using refused by simp
  next
    case granted
    then obtain rest where rest: "as = [?v] @ ASet ?k ?o # rest @ [AWriteHeader 204]" "leaves ?k rest" "leaves ''Vary'' rest"
      "list_all header_call rest" by blast
    have "stands ?k (Some [?o]) (fold resp_act [?v, ASet ?k ?o] resp0)" by (simp add: stands_def resp0_def)
    from resp_header_stands [OF this, of "rest @ [AWriteHeader 204]"] rest
    have acao: "resp_header as ?k = Some [?o]" by simp
    have "resp_header as ''Vary'' = Some [''Origin'']"
      using resp_header_stands [OF vary, of "ASet ?k ?o # rest @ [AWriteHeader 204]"] rest by simp
    moreover have "resp_status as = 204"
      using resp_status_prefix [of "?v # ASet ?k ?o # rest" "[AWriteHeader 204]"] rest
      by (simp add: resp_status_def respond_def commit_resp_def informational_def resp0_def)
    moreover have "?o \<noteq> ''''" using granted(1) by (simp add: is_preflight_def)
    ultimately show ?thesis using granted acao by (auto simp: cors_allowed_iff)
  next
    case passed
    have lv: "leaves ?k bs" "leaves ''Vary'' bs" using assms(2) passed(2) by blast+
    have v: "resp_header as ''Vary'' = Some [''Origin'']"
      using resp_header_stands [OF vary, of "acao @ bs"] passed(3,4) lv by auto
    have "resp_header as ?k = (if acao = [] then None else Some [?o])"
      using passed(3,4) lv resp_header_none [of ?k as] resp_header_stands [of ?k "Some [?o]" "[?v, ASet ?k ?o]" bs]
      by (auto simp: stands_def resp0_def)
    then have "\<forall>vs. resp_header as ?k = Some vs \<longrightarrow> vs = [?o] \<and> ?o \<noteq> '''' \<and> cors_allowed opts ?o"
      using passed(4) by (auto split: if_splits)
    moreover have "\<exists>hs' pre bs. h r hs' s = (s', bs, out) \<and> as = pre @ bs \<and> list_all header_call pre"
      using passed(2,3,4) by (intro exI [of _ hs'] exI [of _ "?v # acao"] exI [of _ bs]) auto
    ultimately show ?thesis using v passed(1) by (auto simp: cors_allowed_iff)
  qed
qed

theorem cors_denies_by_default_witness:
  "resp_header (fst (snd (CORS Map.empty \<lparr>AllowedOrigins = [], AllowedMethods = [], AllowedHeaders = [], MaxAge = 0\<rparr> demo_panics
     (demo_req\<lparr>hr_header := (\<lambda>k. if k = ''Origin'' then ''https://evil.example'' else '''')\<rparr>) Map.empty ())))
     ''Access-Control-Allow-Origin'' = None"
proof -
  let ?r = "demo_req\<lparr>hr_header := (\<lambda>k. if k = ''Origin'' then ''https://evil.example'' else '''')\<rparr>"
  let ?o = "\<lparr>AllowedOrigins = [], AllowedMethods = [], AllowedHeaders = [], MaxAge = 0\<rparr>"
  obtain s' as out where run: "CORS Map.empty ?o demo_panics ?r Map.empty () = (s', as, out)" by (metis prod_cases3)
  have "\<forall>r hs s s' bs pn. demo_panics r hs s = (s', bs, pn) \<longrightarrow> leaves ''Access-Control-Allow-Origin'' bs \<and> leaves ''Vary'' bs"
    by (simp add: demo_panics_def)
  from cors_denies_by_default [OF run this] show ?thesis
    using run by (cases "resp_header as ''Access-Control-Allow-Origin''") auto
qed

end
