(* ===== verification/Ratelimit.thy ===== *)
theory Ratelimit
  imports Apperr
begin

text \<open>
  \<open>platform/web/ratelimit\<close>: the result of a decision (\<open>ratelimit.go\<close>), the limiter of one process
  (\<open>memory.go\<close>) and the shared one, a token bucket that a Lua script keeps in Redis (\<open>redis.go\<close>).
  Floating-point numbers are exact rationals here. \<open>rate.Limiter\<close> is outside the repository: its three
  functions are arguments. Instants and durations are nanoseconds in the memory limiter and, in the script,
  the milliseconds the script computes with. The order in which Go ranges over a map is an argument.
\<close>

section \<open>ratelimit.go\<close>

record rl_result =
  Allowed :: bool
  rlLimit :: int
  Remaining :: int
  RetryAfter :: int
  Reset :: int

text \<open>The conversion of a float to an integer type drops the fraction.\<close>

definition to_int64 :: "rat \<Rightarrow> int" where
  "to_int64 q = (if q < 0 then \<lceil>q\<rceil> else \<lfloor>q\<rfloor>)"

section \<open>memory.go\<close>

record 'l rl_entry =
  lim :: 'l
  lastSeen :: int

record 'l limiter_ops =
  NewLimiter :: "rat \<Rightarrow> int \<Rightarrow> 'l"
  AllowN :: "int \<Rightarrow> 'l \<Rightarrow> 'l \<times> bool"
  TokensAt :: "int \<Rightarrow> 'l \<Rightarrow> rat"

record 'l mem_limiter =
  mentries :: "string \<rightharpoonup> 'l rl_entry"
  mrps :: rat
  mburst :: int
  idleTTL :: int
  maxEntries :: int

definition defaultIdleTTL :: int where "defaultIdleTTL = 10 * 60 * 1000000000"
definition defaultMaxEntries :: int where "defaultMaxEntries = 100000"

definition WithIdleTTL :: "int \<Rightarrow> 'l mem_limiter \<Rightarrow> 'l mem_limiter" where "WithIdleTTL d m = m\<lparr>idleTTL := d\<rparr>"
definition WithMaxEntries :: "int \<Rightarrow> 'l mem_limiter \<Rightarrow> 'l mem_limiter" where "WithMaxEntries n m = m\<lparr>maxEntries := n\<rparr>"

definition NewMemory :: "rat \<Rightarrow> int \<Rightarrow> ('l mem_limiter \<Rightarrow> 'l mem_limiter) list \<Rightarrow> 'l mem_limiter" where
  "NewMemory rps burst opts =
     foldl (\<lambda>m f. f m) \<lparr>mentries = Map.empty, mrps = rps, mburst = burst, idleTTL = defaultIdleTTL,
                         maxEntries = defaultMaxEntries\<rparr> opts"

text \<open>The sampling loop: \<open>ks\<close> are the keys in the order the range gives them.\<close>

definition sampleSize :: nat where "sampleSize = 8"

fun sample_oldest :: "(string \<rightharpoonup> 'l rl_entry) \<Rightarrow> string list \<Rightarrow> nat \<Rightarrow> string \<Rightarrow> int \<Rightarrow> string" where
  "sample_oldest es [] sampled oldest oldestTime = oldest"
| "sample_oldest es (k # ks) sampled oldest oldestTime =
     (case es k of
        None \<Rightarrow> sample_oldest es ks sampled oldest oldestTime
      | Some e \<Rightarrow>
          let (o', t') = (if sampled = 0 \<or> lastSeen e < oldestTime then (k, lastSeen e) else (oldest, oldestTime))
          in if sampled + 1 \<ge> sampleSize then o' else sample_oldest es ks (sampled + 1) o' t')"

definition evictOneLocked :: "string list \<Rightarrow> 'l mem_limiter \<Rightarrow> 'l mem_limiter" where
  "evictOneLocked ks m =
     (let oldest = sample_oldest (mentries m) ks 0 '''' 0
      in if oldest \<noteq> '''' then m\<lparr>mentries := (mentries m)(oldest := None)\<rparr> else m)"

text \<open>\<open>len(m.entries)\<close>.\<close>

definition entry_count :: "'l mem_limiter \<Rightarrow> int" where
  "entry_count m = int (card (dom (mentries m)))"

definition getLocked :: "'l limiter_ops \<Rightarrow> string list \<Rightarrow> int \<Rightarrow> string \<Rightarrow> 'l mem_limiter \<Rightarrow> 'l mem_limiter \<times> 'l rl_entry" where
  "getLocked L ks t key m =
     (case mentries m key of
        Some e \<Rightarrow> (m, e)
      | None \<Rightarrow>
          let m1 = (if entry_count m \<ge> maxEntries m then evictOneLocked ks m else m);
              e = \<lparr>lim = NewLimiter L (mrps m) (mburst m), lastSeen = t\<rparr>
          in (m1\<lparr>mentries := (mentries m1)(key \<mapsto> e)\<rparr>, e))"

text \<open>\<open>t0\<close> and \<open>t\<close> are the two readings of the clock, in \<open>getLocked\<close> and in \<open>Allow\<close>.\<close>

definition mem_Allow ::
  "'l limiter_ops \<Rightarrow> string list \<Rightarrow> int \<Rightarrow> int \<Rightarrow> string \<Rightarrow> 'l mem_limiter \<Rightarrow> 'l mem_limiter \<times> rl_result" where
  "mem_Allow L ks t0 t key m =
     (case getLocked L ks t0 key m of
        (m1, e) \<Rightarrow>
          case AllowN L t (lim e) of
            (l', ok) \<Rightarrow>
              let tokens = TokensAt L t l';
                  rem = to_int64 tokens;
                  retry = (if \<not> ok \<and> mrps m > 0 \<and> 1 - tokens > 0
                           then to_int64 ((1 - tokens) / mrps m * 1000000000) else 0);
                  rst = (if mrps m > 0 \<and> of_int (mburst m) - tokens > 0
                         then to_int64 ((of_int (mburst m) - tokens) / mrps m * 1000000000) else 0)
              in (m1\<lparr>mentries := (mentries m1)(key \<mapsto> \<lparr>lim = l', lastSeen = t\<rparr>)\<rparr>,
                  \<lparr>Allowed = ok, rlLimit = mburst m, Remaining = (if rem < 0 then 0 else rem), RetryAfter = retry, Reset = rst\<rparr>))"

definition evictIdleLocked :: "int \<Rightarrow> 'l mem_limiter \<Rightarrow> 'l mem_limiter" where
  "evictIdleLocked t m =
     (let threshold = t - idleTTL m
      in m\<lparr>mentries := (\<lambda>k. case mentries m k of
                              Some e \<Rightarrow> if lastSeen e < threshold then None else Some e
                            | None \<Rightarrow> None)\<rparr>)"

section \<open>redis.go\<close>

text \<open>A bucket: the fields \<open>t\<close> and \<open>ts\<close> of its hash, and the instant at which Redis expires the key.\<close>

record bucket =
  b_t :: rat
  b_ts :: int
  b_expires :: int

type_synonym redis_db = "string \<rightharpoonup> bucket"

definition live_bucket :: "redis_db \<Rightarrow> int \<Rightarrow> string \<Rightarrow> bucket option" where
  "live_bucket db t k = (case db k of Some b \<Rightarrow> if b_expires b \<le> t then None else Some b | None \<Rightarrow> None)"

text \<open>The Lua script. \<open>t\<close> is its \<open>now\<close>, from \<open>TIME\<close>.\<close>

definition lua_refilled :: "rat \<Rightarrow> int \<Rightarrow> int \<Rightarrow> bucket option \<Rightarrow> rat" where
  "lua_refilled rps burst t bo =
     (let tokens = (case bo of Some b \<Rightarrow> b_t b | None \<Rightarrow> of_int burst);
          ts = (case bo of Some b \<Rightarrow> b_ts b | None \<Rightarrow> t);
          refill = of_int (t - ts) / 1000 * rps
      in min (tokens + refill) (of_int burst))"

definition luaTokenBucket :: "rat \<Rightarrow> int \<Rightarrow> int \<Rightarrow> int \<Rightarrow> string \<Rightarrow> redis_db \<Rightarrow> redis_db \<times> int list" where
  "luaTokenBucket rps burst ttl t key db =
     (let tokens0 = lua_refilled rps burst t (live_bucket db t key);
          tokens = (if tokens0 \<ge> 1 then tokens0 - 1 else tokens0);
          allowed = (if tokens0 \<ge> 1 then 1 else 0);
          retry_ms = (if tokens0 \<ge> 1 then 0 else if rps > 0 then \<lceil>(1 - tokens0) / rps * 1000\<rceil> else 0);
          reset_ms = (if rps > 0 \<and> tokens < of_int burst then \<lceil>(of_int burst - tokens) / rps * 1000\<rceil> else 0)
      in (db(key \<mapsto> \<lparr>b_t = tokens, b_ts = t, b_expires = t + ttl\<rparr>), [allowed, \<lfloor>tokens\<rfloor>, retry_ms, reset_ms]))"

record redis_limiter =
  rrps :: rat
  rburst :: int
  idleTTLms :: int
  failOpen :: bool
  rprefix :: string

definition WithFailClosed :: "bool \<Rightarrow> redis_limiter \<Rightarrow> redis_limiter" where
  "WithFailClosed failClosed r = r\<lparr>failOpen := \<not> failClosed\<rparr>"

definition WithKeyPrefix :: "string \<Rightarrow> redis_limiter \<Rightarrow> redis_limiter" where
  "WithKeyPrefix p r = r\<lparr>rprefix := p\<rparr>"

definition idle_ttl_ms :: "rat \<Rightarrow> int \<Rightarrow> int" where
  "idle_ttl_ms rps burst =
     (let idleSec = of_int burst / rps; idleSec1 = (if idleSec < 60 then 60 else idleSec)
      in to_int64 (idleSec1 * 2 * 1000))"

definition NewRedis :: "rat \<Rightarrow> int \<Rightarrow> (redis_limiter \<Rightarrow> redis_limiter) list \<Rightarrow> redis_limiter" where
  "NewRedis rps burst opts =
     foldl (\<lambda>r f. f r) \<lparr>rrps = rps, rburst = burst, idleTTLms = idle_ttl_ms rps burst, failOpen = True, rprefix = ''rl:''\<rparr> opts"

definition errResult :: "redis_limiter \<Rightarrow> go_err \<Rightarrow> rl_result \<times> go_err option" where
  "errResult r e =
     (if failOpen r then (\<lparr>Allowed = True, rlLimit = rburst r, Remaining = - 1, RetryAfter = 0, Reset = 0\<rparr>, None)
      else (\<lparr>Allowed = False, rlLimit = rburst r, Remaining = - 1, RetryAfter = 0, Reset = 0\<rparr>, Some e))"

text \<open>What \<open>Exec\<close> answers: an error, or a reply that \<open>AsIntSlice\<close> reads or not.\<close>

definition redis_reply :: "redis_limiter \<Rightarrow> (go_err, (go_err, int list) result) result \<Rightarrow> rl_result \<times> go_err option" where
  "redis_reply r res =
     (case res of
        Inl e \<Rightarrow> errResult r (ErrWrap ''ratelimit: redis'' e)
      | Inr (Inl e) \<Rightarrow> errResult r (ErrWrap ''ratelimit: redis parse'' e)
      | Inr (Inr arr) \<Rightarrow>
          if length arr \<noteq> 4
          then errResult r (ErrWrap ''ratelimit: redis parse'' (ErrText (''unexpected reply length '' @ itoa (int (length arr)))))
          else (\<lparr>Allowed = (arr ! 0 = 1), rlLimit = rburst r, Remaining = (if arr ! 1 < 0 then 0 else arr ! 1),
                 RetryAfter = (if arr ! 0 = 1 then 0 else arr ! 2 * 1000000), Reset = arr ! 3 * 1000000\<rparr>, None))"

text \<open>A call: the script runs and its reply arrives, or the command fails, before or after the script ran.\<close>

datatype redis_fault = NoFault | NotRun go_err | ReplyLost go_err | Unreadable go_err

definition redis_Allow ::
  "redis_limiter \<Rightarrow> redis_fault \<Rightarrow> int \<Rightarrow> string \<Rightarrow> redis_db \<Rightarrow> redis_db \<times> rl_result \<times> go_err option" where
  "redis_Allow r f t key db =
     (case luaTokenBucket (rrps r) (rburst r) (idleTTLms r) t (rprefix r @ key) db of
        (db', arr) \<Rightarrow>
          (case f of
             NoFault \<Rightarrow> (db', redis_reply r (Inr (Inr arr)))
           | NotRun e \<Rightarrow> (db, redis_reply r (Inl e))
           | ReplyLost e \<Rightarrow> (db', redis_reply r (Inl e))
           | Unreadable e \<Rightarrow> (db', redis_reply r (Inr (Inl e)))))"

section \<open>The memory limiter is bounded\<close>

lemma sample_oldest_in:
  assumes "oldest \<in> dom es \<or> sampled = 0" "sampled \<noteq> 0 \<or> (\<exists>k \<in> set ks. k \<in> dom es)"
  shows "sample_oldest es ks sampled oldest t \<in> dom es"
  using assms
proof (induction ks arbitrary: sampled oldest t)
  case (Cons k ks)
  show ?case
  proof (cases "es k")
    case None
    then have "k \<notin> dom es" by (simp add: domIff)
    then have "sample_oldest es ks sampled oldest t \<in> dom es" using Cons by simp
    then show ?thesis using None by simp
  next
    case (Some e)
    then have k: "k \<in> dom es" by blast
    have old: "sample_oldest es ks (sampled + 1) oldest t \<in> dom es" if "sampled \<noteq> 0"
      using Cons that by simp
    have new: "sample_oldest es ks (sampled + 1) k t' \<in> dom es" for t' using Cons.IH k by simp
    show ?thesis
    proof (cases "sampled = 0")
      case True
      then show ?thesis using Some k new [of "lastSeen e"] by (simp add: Let_def)
    next
      case False
      then show ?thesis using Some k old new [of "lastSeen e"] Cons.prems(1) by (simp add: Let_def)
    qed
  qed
qed auto

text \<open>The keys in the order of the range: each once.\<close>

definition range_order :: "'l mem_limiter \<Rightarrow> string list \<Rightarrow> bool" where
  "range_order m ks \<longleftrightarrow> distinct ks \<and> set ks = dom (mentries m)"

lemma range_order_finite: "range_order m ks \<Longrightarrow> finite (dom (mentries m))"
  unfolding range_order_def by (metis List.finite_set)

lemma evictOneLocked_one:
  assumes "range_order m ks" "'''' \<notin> dom (mentries m)" "dom (mentries m) \<noteq> {}"
  shows "\<exists>k \<in> dom (mentries m). evictOneLocked ks m = m\<lparr>mentries := (mentries m)(k := None)\<rparr>"
proof -
  let ?k = "sample_oldest (mentries m) ks 0 '''' 0"
  have "?k \<in> dom (mentries m)" using assms by (intro sample_oldest_in) (auto simp: range_order_def)
  moreover from this have "?k \<noteq> ''''" using assms(2) by metis
  ultimately show ?thesis by (auto simp: evictOneLocked_def Let_def)
qed

lemma card_dom_remove: "finite (dom f) \<Longrightarrow> k \<in> dom f \<Longrightarrow> card (dom (f(k := None))) = card (dom f) - 1"
  by simp

lemma card_dom_update: "finite (dom f) \<Longrightarrow> card (dom (f(k \<mapsto> v))) \<le> card (dom f) + 1"
  by (simp add: card_insert_if)

text \<open>What \<open>getLocked\<close> does to the map: the key is there, no other key changes except at most one that a
  full map gives up, and the map stays within its bound.\<close>

lemma getLocked_spec:
  assumes order: "range_order m ks" and ne: "'''' \<notin> dom (mentries m)"
    and cap: "entry_count m \<le> max 1 (maxEntries m)" and get: "getLocked L ks t key m = (m1, e)"
  shows "mentries m1 key = Some e \<and> entry_count m1 \<le> max 1 (maxEntries m) \<and> finite (dom (mentries m1))
    \<and> dom (mentries m1) \<subseteq> insert key (dom (mentries m)) \<and> maxEntries m1 = maxEntries m
    \<and> (\<exists>gone. \<forall>k. k \<noteq> key \<and> k \<noteq> gone \<longrightarrow> mentries m1 k = mentries m k)
    \<and> (entry_count m < maxEntries m \<longrightarrow> (\<forall>k. k \<noteq> key \<longrightarrow> mentries m1 k = mentries m k))"
proof (cases "mentries m key")
  case (Some e')
  then show ?thesis using get cap range_order_finite [OF order] by (auto simp: getLocked_def)
next
  case fresh: None
  have fin: "finite (dom (mentries m))" using range_order_finite [OF order] .
  show ?thesis
  proof (cases "entry_count m \<ge> maxEntries m \<and> dom (mentries m) \<noteq> {}")
    case True
    from evictOneLocked_one [OF order ne] True obtain k where k: "k \<in> dom (mentries m)"
      and ev: "evictOneLocked ks m = m\<lparr>mentries := (mentries m)(k := None)\<rparr>" by blast
    have "k \<noteq> key" using k fresh by auto
    have "card (insert key (dom (mentries m) - {k})) = Suc (card (dom (mentries m) - {k}))"
      using fin fresh by (simp add: domIff)
    then have "card (insert key (dom (mentries m) - {k})) = card (dom (mentries m))"
      using card_Suc_Diff1 [OF fin k] by simp
    moreover have "dom (mentries m1) = insert key (dom (mentries m) - {k})"
      using get fresh True ev by (auto simp: getLocked_def Let_def split: if_splits)
    ultimately have "entry_count m1 = entry_count m" by (simp add: entry_count_def)
    then show ?thesis
      using get fresh True ev k fin cap \<open>k \<noteq> key\<close>
      by (auto simp: getLocked_def Let_def split: if_splits)
  next
    case False
    have "evictOneLocked ks m = m" if "dom (mentries m) = {}"
      using that order by (simp add: evictOneLocked_def range_order_def)
    then have m1: "m1 = m\<lparr>mentries := (mentries m)(key \<mapsto> e)\<rparr>"
      using get fresh False by (auto simp: getLocked_def Let_def split: if_splits)
    have "entry_count m1 \<le> max 1 (maxEntries m)"
      using False fin m1 fresh by (auto simp: entry_count_def card_insert_if)
    then show ?thesis using m1 get fresh fin by (auto simp: getLocked_def Let_def split: if_splits)
  qed
qed

text \<open>The life of a memory limiter: decisions on nonempty keys, each with its own readings of the clock and its
  own iteration order, and passes of the janitor.\<close>

inductive mem_reach :: "'l limiter_ops \<Rightarrow> 'l mem_limiter \<Rightarrow> 'l mem_limiter \<Rightarrow> bool" for L m0 where
  start: "mentries m0 = Map.empty \<Longrightarrow> mem_reach L m0 m0"
| allow: "mem_reach L m0 m \<Longrightarrow> range_order m ks \<Longrightarrow> key \<noteq> '''' \<Longrightarrow> mem_Allow L ks t0 t key m = (m', res) \<Longrightarrow> mem_reach L m0 m'"
| evict: "mem_reach L m0 m \<Longrightarrow> mem_reach L m0 (evictIdleLocked t m)"

inductive_cases mem_reachE: "mem_reach L m0 m"

lemma mem_Allow_entries:
  assumes "mem_Allow L ks t0 t key m = (m', res)" "getLocked L ks t0 key m = (m1, e)"
  shows "\<exists>e'. mentries m' = (mentries m1)(key \<mapsto> e') \<and> maxEntries m' = maxEntries m1"
  using assms by (auto simp: mem_Allow_def Let_def split: prod.splits)

definition mem_inv :: "int \<Rightarrow> 'l mem_limiter \<Rightarrow> bool" where
  "mem_inv cap m \<longleftrightarrow> maxEntries m = cap \<and> finite (dom (mentries m)) \<and> '''' \<notin> dom (mentries m) \<and> entry_count m \<le> max 1 cap"

lemma mem_inv_allow:
  assumes "mem_inv cap m" "range_order m ks" "key \<noteq> ''''" "mem_Allow L ks t0 t key m = (m', res)"
  shows "mem_inv cap m'"
proof -
  obtain m1 e where g: "getLocked L ks t0 key m = (m1, e)" by fastforce
  from getLocked_spec [OF assms(2) _ _ g] assms(1)
  have m1: "mentries m1 key = Some e" "entry_count m1 \<le> max 1 cap" "finite (dom (mentries m1))"
    "dom (mentries m1) \<subseteq> insert key (dom (mentries m))" "maxEntries m1 = cap"
    by (auto simp: mem_inv_def)
  from mem_Allow_entries [OF assms(4) g] obtain e' where
    m': "mentries m' = (mentries m1)(key \<mapsto> e')" "maxEntries m' = maxEntries m1" by blast
  have "dom (mentries m') = dom (mentries m1)" using m' m1(1) by auto
  then show ?thesis using m1 m' assms(1,3) by (auto simp: mem_inv_def entry_count_def)
qed

lemma mem_inv_evict: "mem_inv cap m \<Longrightarrow> mem_inv cap (evictIdleLocked t m)"
proof -
  assume inv: "mem_inv cap m"
  have sub: "dom (mentries (evictIdleLocked t m)) \<subseteq> dom (mentries m)"
    by (auto simp: evictIdleLocked_def Let_def split: option.splits if_splits)
  have "card (dom (mentries (evictIdleLocked t m))) \<le> card (dom (mentries m))"
    using inv card_mono [OF _ sub] by (simp add: mem_inv_def)
  moreover have "finite (dom (mentries (evictIdleLocked t m)))"
    using inv finite_subset [OF sub] by (simp add: mem_inv_def)
  moreover have "maxEntries (evictIdleLocked t m) = maxEntries m" by (simp add: evictIdleLocked_def Let_def)
  ultimately show ?thesis using inv sub by (auto simp: mem_inv_def entry_count_def)
qed

lemma mem_reach_inv: "mem_reach L m0 m \<Longrightarrow> mem_inv (maxEntries m0) m"
proof (induction rule: mem_reach.induct)
  case start
  then show ?case by (simp add: mem_inv_def entry_count_def)
qed (auto intro: mem_inv_allow mem_inv_evict)

text \<open>C36. The memory limiter is bounded and its keys are independent. In every life of the limiter over nonempty
  keys it holds at most \<open>maxEntries\<close> keys (one, when the option is below one), and a decision on one key
  changes the bucket of no other key, except that a full limiter gives up the bucket of at most one.\<close>

theorem memory_limiter_bounded:
  assumes "mem_reach L m0 m" "range_order m ks" "key \<noteq> ''''" "mem_Allow L ks t0 t key m = (m', res)"
  shows "entry_count m' \<le> max 1 (maxEntries m0)
    \<and> (\<exists>gone. \<forall>k. k \<noteq> key \<and> k \<noteq> gone \<longrightarrow> mentries m' k = mentries m k)
    \<and> (entry_count m < maxEntries m0 \<longrightarrow> (\<forall>k. k \<noteq> key \<longrightarrow> mentries m' k = mentries m k))"
proof -
  have inv: "mem_inv (maxEntries m0) m" using mem_reach_inv assms(1) .
  obtain m1 e where g: "getLocked L ks t0 key m = (m1, e)" by fastforce
  from mem_Allow_entries [OF assms(4) g] obtain e' where m': "mentries m' = (mentries m1)(key \<mapsto> e')" by blast
  from getLocked_spec [OF assms(2) _ _ g] inv
  have "\<exists>gone. \<forall>k. k \<noteq> key \<and> k \<noteq> gone \<longrightarrow> mentries m1 k = mentries m k"
    "entry_count m < maxEntries m0 \<longrightarrow> (\<forall>k. k \<noteq> key \<longrightarrow> mentries m1 k = mentries m k)"
    by (auto simp: mem_inv_def)
  moreover have "entry_count m' \<le> max 1 (maxEntries m0)"
    using mem_inv_allow [OF inv assms(2,3,4)] by (simp add: mem_inv_def)
  ultimately show ?thesis using m' by (metis fun_upd_other)
qed

definition demo_ops :: "int limiter_ops" where
  "demo_ops = \<lparr>NewLimiter = (\<lambda>_ b. b), AllowN = (\<lambda>_ l. (l - 1, l \<ge> 1)), TokensAt = (\<lambda>_ l. of_int l)\<rparr>"

definition demo_mem :: "int mem_limiter" where
  "demo_mem = NewMemory 1 2 [WithMaxEntries 1]"

text \<open>Two keys and room for one: the second decision evicts the first key.\<close>

theorem memory_limiter_bounded_witness:
  "entry_count (fst (mem_Allow demo_ops [''a''] 5 5 ''b'' (fst (mem_Allow demo_ops [] 1 1 ''a'' demo_mem)))) \<le> 1"
proof -
  let ?m1 = "fst (mem_Allow demo_ops [] 1 1 ''a'' demo_mem)"
  have "range_order demo_mem []" by (simp add: range_order_def demo_mem_def NewMemory_def WithMaxEntries_def)
  then have r: "mem_reach demo_ops demo_mem ?m1"
    by (intro mem_reach.allow [OF mem_reach.start, where res = "snd (mem_Allow demo_ops [] 1 1 ''a'' demo_mem)"])
      (auto simp: demo_mem_def NewMemory_def WithMaxEntries_def)
  have "range_order ?m1 [''a'']"
    by (auto simp: range_order_def mem_Allow_def getLocked_def demo_mem_def NewMemory_def WithMaxEntries_def
        demo_ops_def Let_def entry_count_def)
  from memory_limiter_bounded [OF r this _ prod.collapse [symmetric]] show ?thesis
    by (simp add: demo_mem_def NewMemory_def WithMaxEntries_def)
qed

text \<open>The empty key is the exception: \<open>evictOneLocked\<close> takes it for ``nothing was sampled'', so while it is
  the oldest of the sample nothing is evicted and the map grows past its bound.\<close>

lemma empty_key_never_evicted:
  assumes "mentries m '''' = Some e" "\<forall>k e'. mentries m k = Some e' \<longrightarrow> lastSeen e \<le> lastSeen e'"
  shows "evictOneLocked ('''' # ks) m = m"
proof -
  have no: "\<not> lastSeen e' < lastSeen e" if "mentries m k = Some e'" for k e' using assms(2) that by (simp add: not_less)
  have keep: "sample_oldest (mentries m) ks (Suc n) '''' (lastSeen e) = ''''" for n
    by (induction ks arbitrary: n) (auto simp: Let_def dest: no split: option.splits)
  show ?thesis using keep [of 0] assms(1) by (simp add: evictOneLocked_def Let_def sampleSize_def)
qed

section \<open>The token bucket in Redis\<close>

text \<open>A bucket that was not touched for the idle time is full again, so it makes no difference that Redis has
  expired it.\<close>

lemma idle_ttl_full:
  assumes "0 < rps" "0 \<le> burst"
  shows "of_int burst \<le> of_int (idle_ttl_ms rps burst) / 1000 * rps"
proof -
  define s where "s = (if of_int burst / rps < 60 then 60 else of_int burst / rps)"
  have s: "60 \<le> s" "of_int burst / rps \<le> s" by (auto simp: s_def)
  have "idle_ttl_ms rps burst = \<lfloor>s * 2 * 1000\<rfloor>"
    using s(1) by (simp add: idle_ttl_ms_def to_int64_def s_def Let_def)
  then have "s * 2 * 1000 < of_int (idle_ttl_ms rps burst) + 1" by linarith
  then have "s \<le> of_int (idle_ttl_ms rps burst) / 1000" using s(1) by simp
  then have "s * rps \<le> of_int (idle_ttl_ms rps burst) / 1000 * rps" using assms(1) by (simp add: mult_right_mono)
  moreover have "of_int burst \<le> s * rps" using s(2) assms(1) by (simp add: pos_divide_le_eq)
  ultimately show ?thesis by linarith
qed

text \<open>A database the script wrote: nothing is negative, nothing overflows the bucket or is from the future, and
  each key expires one idle time after it was written.\<close>

definition bucket_ok :: "rat \<Rightarrow> int \<Rightarrow> int \<Rightarrow> bucket \<Rightarrow> bool" where
  "bucket_ok rps burst t b \<longleftrightarrow>
     0 \<le> b_t b \<and> b_t b \<le> of_int burst \<and> b_ts b \<le> t \<and> b_expires b = b_ts b + idle_ttl_ms rps burst"

definition db_ok :: "rat \<Rightarrow> int \<Rightarrow> int \<Rightarrow> redis_db \<Rightarrow> bool" where
  "db_ok rps burst t db \<longleftrightarrow> (\<forall>k b. db k = Some b \<longrightarrow> bucket_ok rps burst t b)"

lemma db_ok_empty [simp]: "db_ok rps burst t Map.empty"
  by (simp add: db_ok_def)

lemma db_ok_mono: "db_ok rps burst t db \<Longrightarrow> t \<le> t' \<Longrightarrow> db_ok rps burst t' db"
  by (fastforce simp: db_ok_def bucket_ok_def)

lemma refilled_expiry:
  assumes "0 < rps" "0 \<le> burst" "db_ok rps burst t db"
  shows "lua_refilled rps burst t (live_bucket db t k) = lua_refilled rps burst t (db k)"
proof (cases "db k")
  case (Some b)
  have ok: "0 \<le> b_t b" "b_expires b = b_ts b + idle_ttl_ms rps burst"
    using assms(3) Some by (auto simp: db_ok_def bucket_ok_def)
  show ?thesis
  proof (cases "b_expires b \<le> t")
    case True
    have "of_int (idle_ttl_ms rps burst) / 1000 * rps \<le> of_int (t - b_ts b) / 1000 * rps"
      using True ok(2) assms(1) by (intro mult_right_mono divide_right_mono) (auto simp del: of_int_diff)
    then have "of_int burst \<le> b_t b + of_int (t - b_ts b) / 1000 * rps"
      using idle_ttl_full [OF assms(1,2)] ok(1) by linarith
    then show ?thesis using Some True by (simp add: live_bucket_def lua_refilled_def Let_def)
  qed (simp add: Some live_bucket_def)
qed (simp add: live_bucket_def)

lemma refilled_range:
  assumes "0 < rps" "0 \<le> burst" "db_ok rps burst t db"
  shows "0 \<le> lua_refilled rps burst t (db k) \<and> lua_refilled rps burst t (db k) \<le> of_int burst"
proof (cases "db k")
  case (Some b)
  have "0 \<le> b_t b" "b_ts b \<le> t" using assms(3) Some by (auto simp: db_ok_def bucket_ok_def)
  moreover from this have "0 \<le> of_int (t - b_ts b) / 1000 * rps" using assms(1) by simp
  ultimately show ?thesis using Some assms(2) by (simp add: lua_refilled_def Let_def)
qed (use assms in \<open>simp add: lua_refilled_def Let_def\<close>)

lemma lua_db_ok:
  assumes "0 < rps" "0 \<le> burst" "db_ok rps burst t db"
  shows "db_ok rps burst t (fst (luaTokenBucket rps burst (idle_ttl_ms rps burst) t k db))"
  using assms refilled_range [OF assms, of k] refilled_expiry [OF assms, of k]
  by (auto simp: luaTokenBucket_def Let_def db_ok_def bucket_ok_def)

text \<open>The calls on a database, in the order Redis runs them, and the number of those on \<open>k\<close> it admits.\<close>

fun redis_calls :: "redis_limiter \<Rightarrow> (int \<times> string) list \<Rightarrow> redis_db \<Rightarrow> redis_db \<times> rl_result list" where
  "redis_calls r [] db = (db, [])"
| "redis_calls r ((t, key) # cs) db =
     (case redis_Allow r NoFault t key db of
        (db1, res, e) \<Rightarrow> (case redis_calls r cs db1 of (db2, ress) \<Rightarrow> (db2, res # ress)))"

fun admitted :: "string \<Rightarrow> (int \<times> string) list \<Rightarrow> rl_result list \<Rightarrow> nat" where
  "admitted k ((t, key) # cs) (res # ress) = (if key = k \<and> Allowed res then 1 else 0) + admitted k cs ress"
| "admitted k _ _ = 0"

text \<open>The bucket of a key as it stands at an instant, without touching it.\<close>

definition level :: "redis_limiter \<Rightarrow> int \<Rightarrow> string \<Rightarrow> redis_db \<Rightarrow> rat" where
  "level r t key db = lua_refilled (rrps r) (rburst r) t (db (rprefix r @ key))"

definition well_set :: "redis_limiter \<Rightarrow> bool" where
  "well_set r \<longleftrightarrow> 0 < rrps r \<and> 0 \<le> rburst r \<and> idleTTLms r = idle_ttl_ms (rrps r) (rburst r)"

lemma redis_Allow_level:
  assumes "well_set r" "db_ok (rrps r) (rburst r) t db" "redis_Allow r NoFault t key db = (db', res, e)"
  shows "e = None \<and> Allowed res = (1 \<le> level r t key db)
    \<and> level r t key db' = level r t key db - (if Allowed res then 1 else 0)
    \<and> (\<forall>k. k \<noteq> key \<longrightarrow> db' (rprefix r @ k) = db (rprefix r @ k)) \<and> db_ok (rrps r) (rburst r) t db'
    \<and> 0 \<le> level r t key db \<and> level r t key db \<le> of_int (rburst r)"
proof -
  have wf: "0 < rrps r" "0 \<le> rburst r" using assms(1) by (auto simp: well_set_def)
  note full = refilled_expiry [OF wf assms(2)] and range = refilled_range [OF wf assms(2)]
  have db': "db' = fst (luaTokenBucket (rrps r) (rburst r) (idle_ttl_ms (rrps r) (rburst r)) t (rprefix r @ key) db)"
    using assms(1,3) by (auto simp: redis_Allow_def well_set_def split: prod.splits)
  let ?l = "level r t key db"
  have lv: "lua_refilled (rrps r) (rburst r) t (live_bucket db t (rprefix r @ key)) = ?l"
    by (simp add: full level_def)
  have l: "0 \<le> ?l" "?l \<le> of_int (rburst r)" using range [of "rprefix r @ key"] by (simp_all add: level_def)
  have res: "e = None" "Allowed res = (1 \<le> ?l)"
    and upd: "db' = db(rprefix r @ key \<mapsto> \<lparr>b_t = (if 1 \<le> ?l then ?l - 1 else ?l), b_ts = t, b_expires = t + idleTTLms r\<rparr>)"
    using assms(3) by (auto simp: redis_Allow_def redis_reply_def luaTokenBucket_def lv Let_def split: if_splits)
  have "level r t key db' = (if 1 \<le> ?l then ?l - 1 else ?l)"
    unfolding level_def upd using l by (simp add: lua_refilled_def Let_def)
  moreover have "\<forall>k. k \<noteq> key \<longrightarrow> db' (rprefix r @ k) = db (rprefix r @ k)" by (simp add: upd)
  ultimately show ?thesis using res l lua_db_ok [OF wf assms(2), of "rprefix r @ key", folded db'] by simp
qed

lemma min_refill: "(0::rat) \<le> x \<Longrightarrow> min (min a b + x) b = min (a + x) b"
  by (auto simp: min_def)

text \<open>Between two instants the level of an untouched bucket rises by at most the refill.\<close>

lemma level_later:
  assumes "well_set r" "db_ok (rrps r) (rburst r) t db" "t \<le> t'"
  shows "level r t key db \<le> level r t' key db
    \<and> level r t' key db = min (level r t key db + of_int (t' - t) / 1000 * rrps r) (of_int (rburst r))"
proof -
  have pos: "0 < rrps r" using assms(1) by (simp add: well_set_def)
  have up: "0 \<le> of_int (t' - t) / 1000 * rrps r" using pos assms(3) by simp
  have form: "level r t' key db = min (level r t key db + of_int (t' - t) / 1000 * rrps r) (of_int (rburst r))"
  proof (cases "db (rprefix r @ key)")
    case (Some b)
    have "of_int (t' - b_ts b) / 1000 * rrps r = of_int (t - b_ts b) / 1000 * rrps r + of_int (t' - t) / 1000 * rrps r"
      by (simp add: algebra_simps diff_divide_distrib)
    then show ?thesis
      using Some min_refill [OF up, of "b_t b + of_int (t - b_ts b) / 1000 * rrps r" "of_int (rburst r)"]
      by (simp only: level_def lua_refilled_def Let_def option.case add.assoc)
  qed (use up in \<open>simp add: level_def lua_refilled_def Let_def\<close>)
  moreover have "level r t key db \<le> of_int (rburst r)" by (simp add: level_def lua_refilled_def Let_def)
  ultimately show ?thesis using up by (simp add: min_def)
qed

lemma budget_chain:
  "(a::rat) = i + n \<Longrightarrow> i + l1 \<le> l \<Longrightarrow> l \<le> l0 + x \<Longrightarrow> n + l' \<le> l1 + y \<Longrightarrow> z = y + x \<Longrightarrow> a + l' \<le> l0 + z"
  by linarith

lemma redis_calls_budget:
  assumes "well_set r" "db_ok (rrps r) (rburst r) t db" "sorted (t # map fst cs)" "redis_calls r cs db = (db', ress)"
  shows "db_ok (rrps r) (rburst r) (last (t # map fst cs)) db'
    \<and> rat_of_nat (admitted k cs ress) + level r (last (t # map fst cs)) k db'
        \<le> level r t k db + of_int (last (t # map fst cs) - t) / 1000 * rrps r
    \<and> 0 \<le> level r (last (t # map fst cs)) k db'"
  using assms
proof (induction cs arbitrary: t db ress)
  case Nil
  have "0 < rrps r" "0 \<le> rburst r" using Nil.prems(1) by (auto simp: well_set_def)
  from refilled_range [OF this Nil.prems(2)] show ?case using Nil by (simp add: level_def)
next
  case (Cons c cs)
  obtain u key where c: "c = (u, key)" by (cases c)
  have le: "t \<le> u" and srt: "sorted (u # map fst cs)" using Cons.prems(3) c by auto
  obtain db1 res e where one: "redis_Allow r NoFault u key db = (db1, res, e)" by (metis prod_cases3)
  obtain ress' where rest: "redis_calls r cs db1 = (db', ress')" and ress: "ress = res # ress'"
    using Cons.prems(4) one by (auto simp: c split: prod.splits)
  have ok: "db_ok (rrps r) (rburst r) u db" using db_ok_mono [OF Cons.prems(2) le] .
  note step = redis_Allow_level [OF Cons.prems(1) ok one]
  have spend: "rat_of_nat (if key = k \<and> Allowed res then 1 else 0) + level r u k db1 \<le> level r u k db"
    using step by (cases "k = key") (auto simp: level_def)
  have wait: "level r u k db \<le> level r t k db + of_int (u - t) / 1000 * rrps r"
    using level_later [OF Cons.prems(1,2) le, of k] by simp
  have "of_int (last (u # map fst cs) - t) / 1000 * rrps r
    = of_int (last (u # map fst cs) - u) / 1000 * rrps r + of_int (u - t) / 1000 * rrps r"
    by (simp add: algebra_simps diff_divide_distrib)
  moreover from Cons.IH [OF Cons.prems(1) _ srt rest] step
  have rest_ok: "db_ok (rrps r) (rburst r) (last (u # map fst cs)) db'" and rest_pos: "0 \<le> level r (last (u # map fst cs)) k db'"
    and "rat_of_nat (admitted k cs ress') + level r (last (u # map fst cs)) k db'
      \<le> level r u k db1 + of_int (last (u # map fst cs) - u) / 1000 * rrps r"
    by blast+
  moreover have "rat_of_nat (admitted k (c # cs) ress)
    = rat_of_nat (if key = k \<and> Allowed res then 1 else 0) + rat_of_nat (admitted k cs ress')" by (simp add: c ress)
  moreover have eq: "last (t # map fst (c # cs)) = last (u # map fst cs)" by (simp add: c)
  ultimately have "rat_of_nat (admitted k (c # cs) ress) + level r (last (u # map fst cs)) k db'
    \<le> level r t k db + of_int (last (u # map fst cs) - t) / 1000 * rrps r" 
    using budget_chain [OF _ spend wait] by blast
  then show ?case unfolding eq using rest_ok rest_pos by blast
qed

lemma NewRedis_well_set:
  assumes "0 < rps" "0 \<le> burst" "set opts \<subseteq> {f. (\<exists>b. f = WithFailClosed b) \<or> (\<exists>p. f = WithKeyPrefix p)}"
  shows "well_set (NewRedis rps burst opts) \<and> rrps (NewRedis rps burst opts) = rps \<and> rburst (NewRedis rps burst opts) = burst"
proof -
  have "well_set r \<Longrightarrow> well_set (foldl (\<lambda>r f. f r) r opts) \<and> rrps (foldl (\<lambda>r f. f r) r opts) = rrps r
      \<and> rburst (foldl (\<lambda>r f. f r) r opts) = rburst r" for r
    using assms(3)
    by (induction opts arbitrary: r) (auto simp: well_set_def WithFailClosed_def WithKeyPrefix_def)
  from this [of "\<lparr>rrps = rps, rburst = burst, idleTTLms = idle_ttl_ms rps burst, failOpen = True, rprefix = ''rl:''\<rparr>"]
  show ?thesis using assms(1,2) by (simp add: NewRedis_def well_set_def)
qed

text \<open>C10. The shared limiter keeps its promise. Take a limiter as \<open>NewRedis\<close> builds it, an empty database and any
  sequence of calls on any keys, in the order in which Redis runs them: of the calls on one key at most
  \<open>burst\<close> plus the rate times the elapsed time are admitted, whatever the other keys do and although Redis
  expires idle buckets on the way.\<close>

theorem redis_limiter_conforms:
  assumes "0 < rps" "0 \<le> burst" "set opts \<subseteq> {f. (\<exists>b. f = WithFailClosed b) \<or> (\<exists>p. f = WithKeyPrefix p)}"
    "sorted (t # map fst cs)" "redis_calls (NewRedis rps burst opts) cs Map.empty = (db', ress)"
  shows "rat_of_nat (admitted k cs ress) \<le> of_int burst + of_int (last (t # map fst cs) - t) / 1000 * rps"
proof -
  let ?r = "NewRedis rps burst opts"
  have r: "well_set ?r" "rrps ?r = rps" "rburst ?r = burst" using NewRedis_well_set [OF assms(1-3)] by auto
  have "level ?r t k Map.empty = of_int burst" using r by (simp add: level_def lua_refilled_def Let_def)
  with redis_calls_budget [OF r(1) _ assms(4,5), of k] r(2,3) show ?thesis by simp
qed

theorem redis_limiter_conforms_witness:
  "rat_of_nat (admitted ''k'' [(0, ''k''), (0, ''k''), (0, ''j''), (1000, ''k'')]
     (snd (redis_calls (NewRedis 1 1 []) [(0, ''k''), (0, ''k''), (0, ''j''), (1000, ''k'')] Map.empty))) \<le> 2"
  using redis_limiter_conforms [of 1 1 "[]" 0 "[(0, ''k''), (0, ''k''), (0, ''j''), (1000, ''k'')]",
      OF _ _ _ _ prod.collapse [symmetric], of "''k''"] by simp

text \<open>The wait a denied caller is told is exact: if nobody else spends from the bucket in the meantime, the same
  call is admitted at a later instant if and only if that instant is not before the end of the wait.\<close>

theorem retry_after_exact:
  assumes "well_set r" "1 \<le> rburst r" "db_ok (rrps r) (rburst r) t db" "redis_Allow r NoFault t key db = (db1, res, e)"
    "\<not> Allowed res" "t \<le> t'" "redis_Allow r NoFault t' key db1 = (db2, res', e')"
  shows "Allowed res' \<longleftrightarrow> t + RetryAfter res div 1000000 \<le> t'"
proof -
  have pos: "0 < rrps r" using assms(1) by (simp add: well_set_def)
  note one = redis_Allow_level [OF assms(1,3,4)]
  let ?l = "level r t key db"
  have low: "?l < 1" using one assms(5) by auto
  have ok1: "db_ok (rrps r) (rburst r) t db1" and l1: "level r t key db1 = ?l" using one assms(5) by auto
  have "Allowed res' \<longleftrightarrow> 1 \<le> level r t' key db1"
    using redis_Allow_level [OF assms(1) db_ok_mono [OF ok1 assms(6)] assms(7)] by blast
  also have "\<dots> \<longleftrightarrow> 1 \<le> ?l + of_int (t' - t) / 1000 * rrps r"
    using level_later [OF assms(1) ok1 assms(6), of key] l1 assms(2) by simp
  also have "\<dots> \<longleftrightarrow> (1 - ?l) / rrps r * 1000 \<le> of_int (t' - t)"
    using pos by (simp add: field_simps)
  also have "\<dots> \<longleftrightarrow> \<lceil>(1 - ?l) / rrps r * 1000\<rceil> \<le> t' - t" by (simp add: ceiling_le_iff)
  also have "\<lceil>(1 - ?l) / rrps r * 1000\<rceil> = RetryAfter res div 1000000"
  proof -
    have wf: "0 < rrps r" "0 \<le> rburst r" using assms(1) by (auto simp: well_set_def)
    have "lua_refilled (rrps r) (rburst r) t (live_bucket db t (rprefix r @ key)) = ?l"
      using refilled_expiry [OF wf assms(3)] by (simp add: level_def)
    then show ?thesis using assms(4) low pos by (auto simp: redis_Allow_def redis_reply_def luaTokenBucket_def Let_def)
  qed
  finally show ?thesis by linarith
qed

text \<open>One token per second and a bucket of one: a second call at once is denied for a second.\<close>

theorem retry_after_exact_witness:
  "Allowed (fst (snd (redis_Allow (NewRedis 1 1 []) NoFault 1000 ''k''
     (fst (redis_Allow (NewRedis 1 1 []) NoFault 0 ''k'' (fst (redis_Allow (NewRedis 1 1 []) NoFault 0 ''k'' Map.empty)))))))"
proof -
  let ?r = "NewRedis 1 1 []"
  have r: "well_set ?r" "rrps ?r = 1" "rburst ?r = 1" using NewRedis_well_set [of 1 1 "[]"] by auto
  let ?db = "fst (redis_Allow ?r NoFault 0 ''k'' Map.empty)"
  obtain db1 res e where one: "redis_Allow ?r NoFault 0 ''k'' ?db = (db1, res, e)" by (metis prod_cases3)
  obtain db2 res' e' where two: "redis_Allow ?r NoFault 1000 ''k'' db1 = (db2, res', e')" by (metis prod_cases3)
  have ok: "db_ok (rrps ?r) (rburst ?r) 0 ?db"
    using redis_Allow_level [OF r(1) db_ok_empty] by (metis prod.collapse)
  have res: "\<not> Allowed res" "RetryAfter res = 1000000000"
    using one by (auto simp: redis_Allow_def redis_reply_def luaTokenBucket_def lua_refilled_def live_bucket_def Let_def
        NewRedis_def idle_ttl_ms_def to_int64_def)
  from retry_after_exact [OF r(1) _ ok one res(1) _ two] r res show ?thesis using one two by simp
qed

section \<open>The limiter interface\<close>

text \<open>\<open>ratelimit.Limiter\<close>, as its users read it: an error comes with a denial, a budget is at least the sentinel for
  an unknown one, and waits are not negative. \<open>'x\<close> is what a call depends on besides the state and the key:
  clocks, iteration orders, faults.\<close>

locale limiter =
  fixes allow :: "'s \<Rightarrow> 'x \<Rightarrow> string \<Rightarrow> 's \<times> rl_result \<times> go_err option"
  assumes error_denies: "allow s x k = (s', res, Some e) \<Longrightarrow> \<not> Allowed res"
    and budget: "allow s x k = (s', res, eo) \<Longrightarrow> - 1 \<le> Remaining res"
    and waits: "allow s x k = (s', res, eo) \<Longrightarrow> 0 \<le> RetryAfter res \<and> 0 \<le> Reset res"

definition memory_allow ::
  "'l limiter_ops \<Rightarrow> 'l mem_limiter \<Rightarrow> string list \<times> int \<times> int \<Rightarrow> string \<Rightarrow> 'l mem_limiter \<times> rl_result \<times> go_err option" where
  "memory_allow L m x key = (case x of (ks, t0, t) \<Rightarrow> case mem_Allow L ks t0 t key m of (m', res) \<Rightarrow> (m', res, None))"

definition redis_allow ::
  "redis_limiter \<Rightarrow> redis_db \<Rightarrow> redis_fault \<times> int \<Rightarrow> string \<Rightarrow> redis_db \<times> rl_result \<times> go_err option" where
  "redis_allow r db x key = redis_Allow r (fst x) (snd x) key db"

lemma to_int64_nonneg: "0 \<le> q \<Longrightarrow> 0 \<le> to_int64 q"
  by (simp add: to_int64_def)

interpretation mem: limiter "memory_allow L" for L :: "'l limiter_ops"
  by unfold_locales
    (auto simp: memory_allow_def mem_Allow_def Let_def intro!: to_int64_nonneg split: prod.splits if_splits)

lemma lua_reply_shape:
  assumes "luaTokenBucket rps burst ttl t key db = (db', arr)"
  shows "length arr = 4 \<and> 0 \<le> arr ! 2 \<and> 0 \<le> arr ! 3"
proof -
  have c: "0 \<le> \<lceil>x / rps * 1000\<rceil>" if "0 \<le> x" "0 < rps" for x :: rat
  proof -
    have "0 \<le> x / rps * 1000" using that by simp
    then show ?thesis by linarith
  qed
  define l where "l = lua_refilled rps burst t (live_bucket db t key)"
  have "arr ! 2 = (if l \<ge> 1 then 0 else if rps > 0 then \<lceil>(1 - l) / rps * 1000\<rceil> else 0)"
    "arr ! 3 = (if rps > 0 \<and> (if l \<ge> 1 then l - 1 else l) < of_int burst
       then \<lceil>(of_int burst - (if l \<ge> 1 then l - 1 else l)) / rps * 1000\<rceil> else 0)" "length arr = 4"
    using assms by (auto simp: luaTokenBucket_def Let_def l_def)
  then show ?thesis using c [of "1 - l"] c [of "of_int burst - (if l \<ge> 1 then l - 1 else l)"] by simp
qed

interpretation red: limiter "redis_allow r" for r
proof
  fix s s' :: redis_db and x k res eo
  assume "redis_allow r s x k = (s', res, eo)"
  moreover obtain db' arr where "luaTokenBucket (rrps r) (rburst r) (idleTTLms r) (snd x) (rprefix r @ k) s = (db', arr)" by fastforce
  moreover note lua_reply_shape [OF this]
  ultimately show "- 1 \<le> Remaining res" "0 \<le> RetryAfter res \<and> 0 \<le> Reset res"
    by (auto simp: redis_allow_def redis_Allow_def redis_reply_def errResult_def split: redis_fault.splits if_splits)
next
  fix s s' :: redis_db and x k res e
  assume "redis_allow r s x k = (s', res, Some e)"
  then show "\<not> Allowed res"
    by (auto simp: redis_allow_def redis_Allow_def redis_reply_def errResult_def
        split: redis_fault.splits if_splits prod.splits)
qed

end
