(* ===== verification/Netip.thy ===== *)
theory Netip
  imports Apperr Base64
begin

text \<open>
  What the edge uses of Go's \<open>net\<close> and \<open>net/netip\<close>: splitting a host from its port, parsing and printing addresses,
  and prefixes. An IPv4 address is its four bytes, an IPv6 address its eight groups and its zone.
\<close>

datatype ip_addr = V4 "int list" | V6 "int list" string

type_synonym ip_prefix = "ip_addr \<times> nat"

section \<open>Parsing\<close>

definition parse_octet :: "string \<Rightarrow> int option" where
  "parse_octet p =
     (if p = [] \<or> length p > 3 \<or> \<not> list_all is_digit p \<or> (length p > 1 \<and> hd p = CHR ''0'') \<or> text_nat p > 255 then None
      else Some (int (text_nat p)))"

definition parseIPv4 :: "string \<Rightarrow> int list option" where
  "parseIPv4 s =
     (let ps = map parse_octet (str_split (CHR ''.'') s)
      in if length ps = 4 \<and> None \<notin> set ps then Some (map the ps) else None)"

definition hex_val :: "char \<Rightarrow> int option" where
  "hex_val c =
     (let b = of_char c :: int
      in if 48 \<le> b \<and> b \<le> 57 then Some (b - 48)
         else if 97 \<le> b \<and> b \<le> 102 then Some (b - 87)
         else if 65 \<le> b \<and> b \<le> 70 then Some (b - 55) else None)"

definition hex_number :: "string \<Rightarrow> int" where
  "hex_number s = foldl (\<lambda>n c. 16 * n + (case hex_val c of Some d \<Rightarrow> d | None \<Rightarrow> 0)) 0 s"

text \<open>The loop over the groups: the groups so far and the position of the ellipsis.\<close>

function parse6_loop :: "string \<Rightarrow> int list \<Rightarrow> nat option \<Rightarrow> (int list \<times> nat option) option" where
  "parse6_loop s gs ell =
     (if length gs \<ge> 8 then (if s = [] then Some (gs, ell) else None)
      else let hs = takeWhile (\<lambda>c. hex_val c \<noteq> None) s; rest = drop (length hs) s
           in if hs = [] \<or> length hs > 4 then None
              else if rest \<noteq> [] \<and> hd rest = CHR ''.'' then
                (if (ell = None \<and> length gs \<noteq> 6) \<or> length gs > 6 then None
                 else case parseIPv4 s of
                        Some [a, b, c, d] \<Rightarrow> Some (gs @ [256 * a + b, 256 * c + d], ell)
                      | _ \<Rightarrow> None)
              else let gs' = gs @ [hex_number hs]
                   in if rest = [] then Some (gs', ell)
                      else if hd rest \<noteq> CHR '':'' \<or> length rest = 1 then None
                      else if hd (tl rest) = CHR '':'' then
                        (if ell \<noteq> None then None
                         else if tl (tl rest) = [] then Some (gs', Some (length gs'))
                         else parse6_loop (tl (tl rest)) gs' (Some (length gs')))
                      else parse6_loop (tl rest) gs' ell)"
  by pat_completeness auto
termination
proof (relation "measure (\<lambda>(s, _, _). length s)", goal_cases)
  case 1
  show ?case by simp
next
  case (2 s gs ell hs rest gs')
  then have "s \<noteq> []" by auto
  then show ?case using 2 by simp
next
  case (3 s gs ell hs rest gs')
  then have "s \<noteq> []" by auto
  then show ?case using 3 by simp
qed

definition expand6 :: "int list \<times> nat option \<Rightarrow> int list option" where
  "expand6 p =
     (case p of (gs, ell) \<Rightarrow>
        if length gs < 8 then (case ell of None \<Rightarrow> None | Some k \<Rightarrow> Some (take k gs @ replicate (8 - length gs) 0 @ drop k gs))
        else (if ell = None then Some gs else None))"

definition parseIPv6 :: "string \<Rightarrow> ip_addr option" where
  "parseIPv6 inp =
     (case str_cut inp (CHR ''%'') of
        (s, zone, found) \<Rightarrow>
          if found \<and> zone = '''' then None
          else if has_prefix s ''::'' then
            (if length s = 2 then Some (V6 (replicate 8 0) zone)
             else map_option (\<lambda>gs. V6 gs zone) (Option.bind (parse6_loop (drop 2 s) [] (Some 0)) expand6))
          else map_option (\<lambda>gs. V6 gs zone) (Option.bind (parse6_loop s [] None) expand6))"

definition ParseAddr :: "string \<Rightarrow> ip_addr option" where
  "ParseAddr s =
     (case filter (\<lambda>c. c \<in> {CHR ''.'', CHR '':'', CHR ''%''}) s of
        [] \<Rightarrow> None
      | c # _ \<Rightarrow>
          if c = CHR ''.'' then map_option V4 (parseIPv4 s)
          else if c = CHR '':'' then parseIPv6 s else None)"

section \<open>Printing\<close>

fun dotted :: "int list \<Rightarrow> string" where
  "dotted [] = ''''"
| "dotted [b] = itoa b"
| "dotted (b # bs) = itoa b @ ''.'' @ dotted bs"

text \<open>A group, without leading zeros.\<close>

definition hex_text :: "int \<Rightarrow> string" where
  "hex_text g =
     (let ds = dropWhile (\<lambda>d. d = 0) [g div 4096 mod 16, g div 256 mod 16, g div 16 mod 16]
      in map (\<lambda>d. if d < 10 then char_of (48 + d) else char_of (87 + d)) (ds @ [g mod 16]))"

text \<open>The first longest run of at least two zero groups: start and end.\<close>

definition zero_run :: "int list \<Rightarrow> nat \<Rightarrow> nat" where
  "zero_run gs i = length (takeWhile (\<lambda>g. g = 0) (drop i gs))"

definition longest_zeros :: "int list \<Rightarrow> (nat \<times> nat) option" where
  "longest_zeros gs =
     foldl (\<lambda>best i. let n = zero_run gs i
                      in if n \<ge> 2 \<and> (case best of None \<Rightarrow> True | Some (st, en) \<Rightarrow> n > en - st) then Some (i, i + n) else best)
       None [0..<length gs]"

fun groups_text :: "int list \<Rightarrow> string" where
  "groups_text [] = ''''"
| "groups_text [g] = hex_text g"
| "groups_text (g # gs) = hex_text g @ '':'' @ groups_text gs"

definition string6 :: "int list \<Rightarrow> string" where
  "string6 gs =
     (case longest_zeros gs of
        None \<Rightarrow> groups_text gs
      | Some (st, en) \<Rightarrow> groups_text (take st gs) @ ''::'' @ groups_text (drop en gs))"

fun addr_String :: "ip_addr \<Rightarrow> string" where
  "addr_String (V4 bs) = dotted bs"
| "addr_String (V6 gs zone) =
     (let z = (if zone = '''' then '''' else CHR ''%'' # zone)
      in if take 6 gs = [0, 0, 0, 0, 0, 0xffff] \<and> length gs = 8
         then ''::ffff:'' @ dotted [gs ! 6 div 256, gs ! 6 mod 256, gs ! 7 div 256, gs ! 7 mod 256] @ z
         else string6 gs @ z)"

section \<open>Prefixes\<close>

definition digits_val :: "int \<Rightarrow> int list \<Rightarrow> int" where
  "digits_val base ds = foldl (\<lambda>n d. base * n + d) 0 ds"

fun prefix_Contains :: "ip_prefix \<Rightarrow> ip_addr \<Rightarrow> bool" where
  "prefix_Contains (V4 p, n) (V4 a) \<longleftrightarrow> n \<le> 32 \<and> digits_val 256 p div 2 ^ (32 - n) = digits_val 256 a div 2 ^ (32 - n)"
| "prefix_Contains (V6 p pz, n) (V6 a az) \<longleftrightarrow>
     n \<le> 128 \<and> az = '''' \<and> digits_val 65536 p div 2 ^ (128 - n) = digits_val 65536 a div 2 ^ (128 - n)"
| "prefix_Contains _ _ \<longleftrightarrow> False"

section \<open>SplitHostPort\<close>

definition SplitHostPort :: "string \<Rightarrow> (string \<times> string) option" where
  "SplitHostPort hp =
     (case last_index_byte hp (CHR '':'') of
        None \<Rightarrow> None
      | Some i \<Rightarrow>
          if hd hp = CHR ''['' then
            (case index_byte hp (CHR '']'') of
               None \<Rightarrow> None
             | Some en \<Rightarrow>
                 if en + 1 \<noteq> i then None
                 else if CHR ''['' \<in> set (drop 1 hp) \<or> CHR '']'' \<in> set (drop (en + 1) hp) then None
                 else Some (take (en - 1) (drop 1 hp), drop (i + 1) hp))
          else if CHR '':'' \<in> set (take i hp) \<or> CHR ''['' \<in> set hp \<or> CHR '']'' \<in> set hp then None
          else Some (take i hp, drop (i + 1) hp))"

section \<open>Checks\<close>

lemma netip_examples:
  "ParseAddr ''10.0.0.7'' = Some (V4 [10, 0, 0, 7])" "ParseAddr ''10.0.0.07'' = None" "ParseAddr ''256.0.0.1'' = None"
  "ParseAddr ''1.2.3'' = None" "ParseAddr ''host'' = None" "ParseAddr ''::1'' = Some (V6 [0, 0, 0, 0, 0, 0, 0, 1] '''')"
  "ParseAddr ''2001:db8::5:0'' = Some (V6 [0x2001, 0xdb8, 0, 0, 0, 0, 5, 0] '''')"
  "ParseAddr ''::ffff:1.2.3.4'' = Some (V6 [0, 0, 0, 0, 0, 0xffff, 0x102, 0x304] '''')"
  "ParseAddr ''fe80::1%eth0'' = Some (V6 [0xfe80, 0, 0, 0, 0, 0, 0, 1] ''eth0'')" "ParseAddr ''1:2:3:4:5:6:7:8::'' = None"
  "addr_String (V6 [0x2001, 0xdb8, 0, 0, 0, 0, 5, 0] '''') = ''2001:db8::5:0''"
  "addr_String (V6 [0, 0, 0, 0, 0, 0xffff, 0x102, 0x304] '''') = ''::ffff:1.2.3.4''"
  "addr_String (V6 (replicate 8 0) '''') = ''::''"
  "SplitHostPort ''10.0.0.1:80'' = Some (''10.0.0.1'', ''80'')" "SplitHostPort ''[::1]:80'' = Some (''::1'', ''80'')"
  "SplitHostPort ''::1'' = None"
  "prefix_Contains (V4 [10, 0, 0, 0], 8) (V4 [10, 200, 3, 4])" "\<not> prefix_Contains (V4 [10, 0, 0, 0], 8) (V4 [11, 0, 0, 0])"
  by code_simp+

lemma str_split_append_any: "str_split c (a @ c # b) = str_split c a @ str_split c b"
proof (induction a)
  case (Cons x a)
  show ?case
  proof (cases "x = c")
    case False
    obtain p ps where "str_split c a = p # ps" using str_split_nonempty [of c a] by (cases "str_split c a") auto
    then show ?thesis using Cons False by simp
  qed (simp add: Cons)
qed simp

end
