(* ===== verification/Http_Edge.thy ===== *)
theory Http_Edge
  imports Http_Server Ratelimit Netip Attachments
begin

text \<open>
  The edge of the gateway: which key a request is limited by, the per-key rate limit and its headers
  (\<open>platform/web/httpserver/security.go\<close>), authentication as middleware (\<open>platform/security/auth/middleware.go\<close>),
  and how the gateway chains them in front of its handlers (\<open>examples/gateway/routes.go\<close>, \<open>deps.go\<close>).
\<close>

section \<open>Keys\<close>

definition inAny :: "ip_addr \<Rightarrow> ip_prefix list \<Rightarrow> bool" where
  "inAny a prefixes \<longleftrightarrow> (\<exists>p \<in> set prefixes. prefix_Contains p a)"

text \<open>The walk over the hops of \<open>X-Forwarded-For\<close>, from the right; the left component is the fallback.\<close>

fun xff_walk :: "ip_prefix list \<Rightarrow> (nat \<times> string) list \<Rightarrow> string \<Rightarrow> (string, string) result" where
  "xff_walk trusted [] leftmost = Inl leftmost"
| "xff_walk trusted ((i, hop) # hops) leftmost =
     (let ip = trim_space hop;
          leftmost1 = (if i = 0 \<and> leftmost = '''' then ip else leftmost)
      in case ParseAddr ip of
           None \<Rightarrow> xff_walk trusted hops leftmost1
         | Some a \<Rightarrow>
             let leftmost2 = (if leftmost1 = '''' then addr_String a else leftmost1)
             in if \<not> inAny a trusted then Inr (addr_String a) else xff_walk trusted hops leftmost2)"

definition ClientIPKey :: "ip_prefix list \<Rightarrow> http_req \<Rightarrow> string" where
  "ClientIPKey trusted r =
     (let raw = hr_remote r;
          host = (case SplitHostPort raw of Some (h, _) \<Rightarrow> h | None \<Rightarrow> raw)
      in if trusted = [] then (case ParseAddr host of None \<Rightarrow> raw | Some a \<Rightarrow> addr_String a)
         else case ParseAddr host of
                None \<Rightarrow> raw
              | Some a \<Rightarrow>
                  if \<not> inAny a trusted then addr_String a
                  else let xff = hr_header r ''X-Forwarded-For''
                       in if xff = '''' then addr_String a
                          else let hops = str_split (CHR '','') xff
                               in case xff_walk trusted (rev (zip [0..<length hops] hops)) '''' of
                                    Inr k \<Rightarrow> k
                                  | Inl leftmost \<Rightarrow> if leftmost \<noteq> '''' then leftmost else addr_String a)"

definition PrincipalKey :: "(http_req \<Rightarrow> string) \<Rightarrow> http_req \<Rightarrow> string" where
  "PrincipalKey fallback r =
     (case hr_principal r of
        Some p \<Rightarrow> if p_subject p \<noteq> '''' then ''sub:'' @ p_subject p else fallback r
      | None \<Rightarrow> fallback r)"

fun ParseTrustedProxies :: "(string \<Rightarrow> ip_prefix option) \<Rightarrow> string list \<Rightarrow> ip_prefix list option" where
  "ParseTrustedProxies parse [] = Some []"
| "ParseTrustedProxies parse (cidr # cidrs) =
     (if cidr = '''' then ParseTrustedProxies parse cidrs
      else case parse cidr of
             None \<Rightarrow> None
           | Some p \<Rightarrow> map_option (\<lambda>ps. p # ps) (ParseTrustedProxies parse cidrs))"

section \<open>The rate limit\<close>

text \<open>Durations are nanoseconds; the seconds are rounded up.\<close>

definition ceil_seconds :: "int \<Rightarrow> int" where
  "ceil_seconds d = - ((- d) div 1000000000)"

definition setRateLimitHeaders :: "hdrs \<Rightarrow> rl_result \<Rightarrow> action list" where
  "setRateLimitHeaders hs res =
     (let prev = hGet hs ''RateLimit-Remaining'' in
      if prev \<noteq> '''' \<and> Remaining res \<ge> 0 \<and> (case parse_int64 prev of Some n \<Rightarrow> n \<le> Remaining res | None \<Rightarrow> False) then []
      else (if rlLimit res > 0 then [ASet ''RateLimit-Limit'' (itoa (rlLimit res))] else [])
         @ (if Remaining res \<ge> 0 then [ASet ''RateLimit-Remaining'' (itoa (Remaining res))] else [])
         @ (if Reset res > 0 then [ASet ''RateLimit-Reset'' (itoa (ceil_seconds (Reset res)))] else []))"

definition retryAfterSeconds :: "int \<Rightarrow> int" where
  "retryAfterSeconds d = (let s = ceil_seconds d in if s < 1 then 1 else s)"

definition CodeRateLimited :: string where "CodeRateLimited = ''RATE_LIMITED''"
definition CodeRateLimitUnavailable :: string where "CodeRateLimitUnavailable = ''RATE_LIMIT_UNAVAILABLE''"

definition RateLimitPer ::
  "code_registry \<Rightarrow> ('s \<Rightarrow> 'x \<Rightarrow> string \<Rightarrow> 's \<times> rl_result \<times> go_err option) \<Rightarrow> 'x \<Rightarrow> (http_req \<Rightarrow> string)
     \<Rightarrow> 's handler \<Rightarrow> 's handler" where
  "RateLimitPer reg allow x key h r hs s =
     (let k = (if key r = '''' then hr_remote r else key r)
      in case allow s x k of
           (s1, res, err) \<Rightarrow>
             let pre = setRateLimitHeaders hs res in
             if err \<noteq> None then (s1, pre @ write_error reg r (ErrApp (app_New reg CodeRateLimitUnavailable) None), None)
             else if \<not> Allowed res
             then (let secs = retryAfterSeconds (RetryAfter res)
                   in (s1, pre @ [ASet ''Retry-After'' (itoa secs)]
                         @ write_error reg r (ErrApp (WithParam (app_New reg CodeRateLimited) ''retry_after_seconds'' (itoa secs)) None), None))
             else with_acts pre h r hs s1)"

section \<open>Authentication as middleware\<close>

definition auth_Middleware :: "code_registry \<Rightarrow> jwks_verifier \<Rightarrow> int \<Rightarrow> 's handler \<Rightarrow> 's handler" where
  "auth_Middleware reg v maxTokenBytes h r hs s =
     (case Middleware v maxTokenBytes (hr_header r ''Authorization'') of
        Passed p \<Rightarrow> h (r\<lparr>hr_principal := Some p\<rparr>) hs s
      | Denied401 reason \<Rightarrow>
          (s, write_error reg r (ErrApp (WithParam (app_New reg CodeAuthUnauthenticated) ''reason'' reason) None), None)
      | Denied403 role \<Rightarrow>
          (s, write_error reg r (ErrApp (WithParam (app_New reg CodeAuthForbidden) ''required_role'' role) None), None))"

section \<open>The gateway's chain\<close>

record gateway_config =
  g_server :: server_config
  CORSOrigins :: "string list"
  g_trusted :: "ip_prefix list"
  AuthDisabled :: bool
  AuthMaxTokenBytes :: int
  g_verifier :: jwks_verifier
  authed_tier :: bool

text \<open>The two limiters have a state of their own; the rest of the state is the handler's.\<close>

definition on_ip ::
  "('a \<Rightarrow> 'x \<Rightarrow> string \<Rightarrow> 'a \<times> rl_result \<times> go_err option) \<Rightarrow> 'a \<times> 'b \<times> 'c \<Rightarrow> 'x \<Rightarrow> string \<Rightarrow> ('a \<times> 'b \<times> 'c) \<times> rl_result \<times> go_err option" where
  "on_ip allow s x k = (case s of (a, b, c) \<Rightarrow> case allow a x k of (a', res, e) \<Rightarrow> ((a', b, c), res, e))"

definition on_principal ::
  "('b \<Rightarrow> 'y \<Rightarrow> string \<Rightarrow> 'b \<times> rl_result \<times> go_err option) \<Rightarrow> 'a \<times> 'b \<times> 'c \<Rightarrow> 'y \<Rightarrow> string \<Rightarrow> ('a \<times> 'b \<times> 'c) \<times> rl_result \<times> go_err option" where
  "on_principal allow s y k = (case s of (a, b, c) \<Rightarrow> case allow b y k of (b', res, e) \<Rightarrow> ((a, b', c), res, e))"

definition applyEdgeSecurity ::
  "code_registry \<Rightarrow> gateway_config \<Rightarrow> ('s \<Rightarrow> 'x \<Rightarrow> string \<Rightarrow> 's \<times> rl_result \<times> go_err option) \<Rightarrow> 'x \<Rightarrow> 's handler \<Rightarrow> 's handler" where
  "applyEdgeSecurity reg cfg allow x h =
     CORS reg \<lparr>AllowedOrigins = CORSOrigins cfg, AllowedMethods = [''GET'', ''POST'', ''PUT'', ''PATCH'', ''DELETE'', ''OPTIONS''],
               AllowedHeaders = [''Content-Type'', ''Authorization'', ''X-Request-Id''], MaxAge = 0\<rparr>
       (RateLimitPer reg allow x (ClientIPKey (g_trusted cfg)) h)"

definition newAuthedRateLimit ::
  "code_registry \<Rightarrow> gateway_config \<Rightarrow> ('s \<Rightarrow> 'y \<Rightarrow> string \<Rightarrow> 's \<times> rl_result \<times> go_err option) \<Rightarrow> 'y \<Rightarrow> 's handler \<Rightarrow> 's handler" where
  "newAuthedRateLimit reg cfg allow y h =
     (if authed_tier cfg then RateLimitPer reg allow y (PrincipalKey (ClientIPKey (g_trusted cfg))) h else h)"

text \<open>The API routes: authentication, except for the health route, then the limit per principal.\<close>

definition mountAPIRoutes ::
  "code_registry \<Rightarrow> gateway_config \<Rightarrow> ('s \<Rightarrow> 'y \<Rightarrow> string \<Rightarrow> 's \<times> rl_result \<times> go_err option) \<Rightarrow> 'y \<Rightarrow> 's handler \<Rightarrow> 's handler" where
  "mountAPIRoutes reg cfg allow y h =
     (let inner = newAuthedRateLimit reg cfg allow y h in
      if AuthDisabled cfg then inner
      else (\<lambda>r hs s. if hr_path r = ''/healthz'' then inner r hs s
                     else auth_Middleware reg (g_verifier cfg) (WithMaxTokenBytes (AuthMaxTokenBytes cfg) DefaultMaxTokenBytes) inner r hs s))"

text \<open>The attachment and event-stream routes: authentication, then the limit per principal.\<close>

definition mountAuthedRoutes ::
  "code_registry \<Rightarrow> gateway_config \<Rightarrow> ('s \<Rightarrow> 'y \<Rightarrow> string \<Rightarrow> 's \<times> rl_result \<times> go_err option) \<Rightarrow> 'y \<Rightarrow> 's handler \<Rightarrow> 's handler" where
  "mountAuthedRoutes reg cfg allow y h =
     (let inner = newAuthedRateLimit reg cfg allow y h in
      if AuthDisabled cfg then inner
      else auth_Middleware reg (g_verifier cfg) (WithMaxTokenBytes (AuthMaxTokenBytes cfg) DefaultMaxTokenBytes) inner)"

definition on_rest :: "'c handler \<Rightarrow> ('a \<times> 'b \<times> 'c) handler" where
  "on_rest h r hs s = (case s of (a, b, c) \<Rightarrow> case h r hs c of (c', as, out) \<Rightarrow> ((a, b, c'), as, out))"

definition gateway_chain ::
  "code_registry \<Rightarrow> gateway_config \<Rightarrow> nat list
     \<Rightarrow> ('a \<Rightarrow> 'x \<Rightarrow> string \<Rightarrow> 'a \<times> rl_result \<times> go_err option) \<Rightarrow> 'x
     \<Rightarrow> ('b \<Rightarrow> 'y \<Rightarrow> string \<Rightarrow> 'b \<times> rl_result \<times> go_err option) \<Rightarrow> 'y
     \<Rightarrow> 'c handler \<Rightarrow> ('a \<times> 'b \<times> 'c) handler" where
  "gateway_chain reg cfg rnd ipLim x prLim y h =
     server_stack (g_server cfg) rnd
       (applyEdgeSecurity reg cfg (on_ip ipLim) x (mountAPIRoutes reg cfg (on_principal prLim) y (on_rest h)))"

section \<open>A client cannot choose its key\<close>

lemma xff_walk_skips:
  assumes "\<forall>(i, hop) \<in> set ps. i \<noteq> 0 \<and> (\<forall>a. ParseAddr (trim_space hop) = Some a \<longrightarrow> inAny a trusted)"
  shows "\<exists>l. xff_walk trusted (ps @ qs) leftmost = xff_walk trusted qs l"
  using assms
proof (induction ps arbitrary: leftmost)
  case (Cons p ps)
  obtain i hop where p: "p = (i, hop)" by (cases p)
  from Cons.IH Cons.prems have "\<exists>l. xff_walk trusted (ps @ qs) m = xff_walk trusted qs l" for m by simp
  then show ?case using Cons.prems p by (auto simp: Let_def split: option.splits)
qed auto

text \<open>The hops behind the first untrusted one, seen from the right, do not matter.\<close>

lemma xff_first_untrusted:
  assumes "hops = left @ hop # right" "ParseAddr (trim_space hop) = Some c" "\<not> inAny c trusted"
    "\<forall>q \<in> set right. \<forall>a. ParseAddr (trim_space q) = Some a \<longrightarrow> inAny a trusted"
  shows "xff_walk trusted (rev (zip [0..<length hops] hops)) leftmost = Inr (addr_String c)"
proof -
  let ?n = "length left"
  have z: "zip [0..<length hops] hops = zip [0..<?n] left @ (?n, hop) # zip [Suc ?n..<length hops] right"
  proof -
    have l: "?n < length hops" using assms(1) by simp
    have "[0..<length hops] = [0..<?n] @ [?n..<length hops]" using l upt_add_eq_append [of 0 ?n "length hops - ?n"] by simp
    also have "\<dots> = [0..<?n] @ ?n # [Suc ?n..<length hops]" using upt_conv_Cons [OF l] by simp
    finally have "zip [0..<length hops] hops = zip ([0..<?n] @ ?n # [Suc ?n..<length hops]) (left @ hop # right)"
      using assms(1) by (simp only:)
    then show ?thesis by simp
  qed
  have "\<forall>(i, q) \<in> set (rev (zip [Suc ?n..<length hops] right)). i \<noteq> 0 \<and> (\<forall>a. ParseAddr (trim_space q) = Some a \<longrightarrow> inAny a trusted)"
    using assms(4) by (auto dest: set_zip_leftD set_zip_rightD)
  from xff_walk_skips [OF this, of "(?n, hop) # rev (zip [0..<?n] left)" leftmost] show ?thesis
    unfolding z using assms(2,3) by (auto simp: Let_def)
qed

definition peer_addr :: "http_req \<Rightarrow> ip_addr option" where
  "peer_addr r = ParseAddr (case SplitHostPort (hr_remote r) of Some (h, _) \<Rightarrow> h | None \<Rightarrow> hr_remote r)"

text \<open>C28. A client cannot choose the key it is limited by. Let \<open>a\<close> be the address of the peer. If the peer is not a
  trusted proxy, the key is that address, whatever headers the request has. If it is, take what the trusted
  proxies appended to \<open>X-Forwarded-For\<close>: the address \<open>c\<close> from which the first of them was reached, which is not
  trusted, and hops that are trusted or no addresses. Then the key is \<open>c\<close>, whatever the client itself
  had put in front of it.\<close>

theorem client_key_unspoofable:
  assumes "peer_addr r = Some a"
    "inAny a trusted \<longrightarrow> hr_header r ''X-Forwarded-For'' \<in> {seen, forged @ CHR '','' # seen} \<and> str_split (CHR '','') seen = hop # right
       \<and> ParseAddr (trim_space hop) = Some c \<and> \<not> inAny c trusted
       \<and> (\<forall>q \<in> set right. \<forall>b. ParseAddr (trim_space q) = Some b \<longrightarrow> inAny b trusted)"
  shows "ClientIPKey trusted r = addr_String (if inAny a trusted then c else a)"
proof (cases "inAny a trusted")
  case False
  then show ?thesis using assms(1) by (simp add: ClientIPKey_def peer_addr_def Let_def)
next
  case True
  let ?xff = "hr_header r ''X-Forwarded-For''"
  have ne: "trusted \<noteq> []" using True by (auto simp: inAny_def)
  have c: "ParseAddr (trim_space hop) = Some c" "\<not> inAny c trusted"
    and right: "\<forall>q \<in> set right. \<forall>b. ParseAddr (trim_space q) = Some b \<longrightarrow> inAny b trusted"
    using assms(2) True by blast+
  have hops: "\<exists>left. str_split (CHR '','') ?xff = left @ hop # right"
    using assms(2) True by (auto simp: str_split_append_any)
  then obtain left where hops: "str_split (CHR '','') ?xff = left @ hop # right" by blast
  have "ParseAddr (trim_space '''') = None" by code_simp
  moreover have "hop = ''''" if "?xff = ''''" using hops that by (cases left) auto
  ultimately have "?xff \<noteq> ''''" using c(1) by auto
  then show ?thesis
    using xff_first_untrusted [OF hops c right] True ne assms(1) by (simp add: ClientIPKey_def peer_addr_def Let_def)
qed

text \<open>A proxy in 10.0.0.0/8, a client that forges an address: the key is the address the proxy saw.\<close>

definition edge_req :: http_req where
  "edge_req = demo_req\<lparr>hr_header := (\<lambda>k. if k = ''X-Forwarded-For'' then ''8.8.8.8, 203.0.113.9, 10.0.0.2'' else '''')\<rparr>"

theorem client_key_unspoofable_witness: "ClientIPKey [(V4 [10, 0, 0, 0], 8)] edge_req = ''203.0.113.9''"
proof -
  have a: "peer_addr edge_req = Some (V4 [10, 0, 0, 1])"
    unfolding peer_addr_def edge_req_def demo_req_def by (simp, code_simp)
  have t: "inAny (V4 [10, 0, 0, 1]) [(V4 [10, 0, 0, 0], 8)]" "\<not> inAny (V4 [203, 0, 113, 9]) [(V4 [10, 0, 0, 0], 8)]"
    "inAny (V4 [10, 0, 0, 2]) [(V4 [10, 0, 0, 0], 8)]" by code_simp+
  have p: "str_split (CHR '','') '' 203.0.113.9, 10.0.0.2'' = ['' 203.0.113.9'', '' 10.0.0.2'']"
    "ParseAddr (trim_space '' 203.0.113.9'') = Some (V4 [203, 0, 113, 9])"
    "ParseAddr (trim_space '' 10.0.0.2'') = Some (V4 [10, 0, 0, 2])" "addr_String (V4 [203, 0, 113, 9]) = ''203.0.113.9''"
    by code_simp+
  have "ClientIPKey [(V4 [10, 0, 0, 0], 8)] edge_req
    = addr_String (if inAny (V4 [10, 0, 0, 1]) [(V4 [10, 0, 0, 0], 8)] then V4 [203, 0, 113, 9] else V4 [10, 0, 0, 1])"
    by (rule client_key_unspoofable [OF a, where seen = "'' 203.0.113.9, 10.0.0.2''" and forged = "''8.8.8.8''"
          and hop = "'' 203.0.113.9''" and right = "['' 10.0.0.2'']"])
      (use p t in \<open>simp add: edge_req_def\<close>)
  then show ?thesis using t p by simp
qed

text \<open>When every hop is trusted, the key is the rightmost address of the header, not the leftmost.\<close>

lemma all_trusted_rightmost:
  "ClientIPKey [(V4 [10, 0, 0, 0], 8)] (demo_req\<lparr>hr_header := (\<lambda>k. if k = ''X-Forwarded-For'' then ''10.1.1.1, 10.2.2.2'' else '''')\<rparr>)
     = ''10.2.2.2''"
  by code_simp

text \<open>A trusted peer that sends one hop which is no address makes that text the key, the key of a principal included.\<close>

lemma principal_key_collision:
  "PrincipalKey (ClientIPKey [(V4 [10, 0, 0, 0], 8)]) (demo_req\<lparr>hr_header := (\<lambda>k. if k = ''X-Forwarded-For'' then ''sub:alice'' else '''')\<rparr>)
     = PrincipalKey (ClientIPKey []) (demo_req\<lparr>hr_principal := Some \<lparr>p_subject = ''alice'', p_username = '''', p_roles = []\<rparr>\<rparr>)"
  by code_simp

section \<open>Statuses\<close>

lemma register_all_codes: "register_all reg cs = register_codes reg (map (\<lambda>(c, st, p, m). (c, st, p, m, [])) cs)"
  by (induction cs arbitrary: reg) (auto split: option.splits)

lemma platform_code_status:
  assumes "gateway_registry = Some reg" "(c, st, p, m) \<in> set platform_codes"
  shows "status (app_New reg c) = st"
proof -
  let ?cs = "map (\<lambda>(c, st, p, m). (c, st, p, m, [] :: string list)) platform_codes"
  have "distinct (map fst ?cs)" by (simp add: platform_codes_def)
  from register_codes_lookup [OF this, of Map.empty] obtain reg0 where
    r0: "register_all Map.empty platform_codes = Some reg0" "\<forall>x \<in> set ?cs. registered_as reg0 x" "dom reg0 = set (map fst ?cs)"
    by (auto simp: register_all_codes)
  have "\<exists>reg'. register_codes reg0 gateway_codes = Some reg' \<and> dom reg' = dom reg0 \<union> set (map fst gateway_codes)
     \<and> (\<forall>x \<in> set gateway_codes. registered_as reg' x) \<and> (\<forall>c. c \<notin> set (map fst gateway_codes) \<longrightarrow> reg' c = reg0 c)"
    by (rule register_codes_lookup) (simp_all add: gateway_codes_def r0(3) platform_codes_def)
  then have "c \<notin> set (map fst gateway_codes) \<longrightarrow> reg c = reg0 c"
    using assms(1) r0(1) by (auto simp: gateway_registry_def)
  moreover have "c \<notin> set (map fst gateway_codes)"
    using assms(2) by (auto simp: platform_codes_def gateway_codes_def)
  moreover have "registered_as reg0 (c, st, p, m, [])" using r0(2) assms(2) by force
  ultimately show ?thesis by (auto simp: registered_as_def app_New_def)
qed

lemma edge_statuses:
  assumes "gateway_registry = Some reg"
  shows "status (app_New reg CodeAuthUnauthenticated) = 401" "status (app_New reg CodeAuthForbidden) = 403"
    "status (app_New reg CodeRateLimited) = 429" "status (app_New reg CodeRateLimitUnavailable) = 503"
proof -
  have "status (app_New reg c) = st" if "map_of (map (\<lambda>(c, st, p, m). (c, st)) platform_codes) c = Some st" for c st
    using platform_code_status [OF assms] map_of_SomeD [OF that] by auto
  then show "status (app_New reg CodeAuthUnauthenticated) = 401" "status (app_New reg CodeAuthForbidden) = 403"
    "status (app_New reg CodeRateLimited) = 429" "status (app_New reg CodeRateLimitUnavailable) = 503"
    by (simp_all add: platform_codes_def CodeAuthUnauthenticated_def CodeAuthForbidden_def CodeRateLimited_def
        CodeRateLimitUnavailable_def)
qed

lemma status_WithParam [simp]: "status (WithParam ae k v) = status ae"
  by (simp add: WithParam_def WithParams_def)

lemma WriteError_status: "status ae \<noteq> 0 \<Longrightarrow> fst (WriteError reg loc path (HErr (ErrApp ae c))) = status ae"
  using localize_contract by (auto simp: WriteError_def FromError_def WriteProblem_def Let_def problem0_def split: option.splits)

lemma write_error_status:
  assumes "status ae \<in> {401, 403, 429, 503}" "list_all header_call pre"
  shows "resp_status (pre @ write_error reg r (ErrApp ae c)) = status ae"
proof -
  have w: "fst (WriteError reg (hr_localizer r) (hr_path r) (HErr (ErrApp ae c))) = status ae"
    by (rule WriteError_status) (use assms(1) in auto)
  then have "\<not> informational (fst (WriteError reg (hr_localizer r) (hr_path r) (HErr (ErrApp ae c))))"
    using assms(1) by (auto simp: informational_def)
  from resp_status_problem [OF this] show ?thesis
    using resp_status_prefix [OF assms(2)] w by (simp add: write_error_def)
qed

section \<open>The rate limit behind any limiter\<close>

lemma rate_headers_calls: "list_all header_call (setRateLimitHeaders hs res)"
  by (simp add: setRateLimitHeaders_def Let_def)

lemma retryAfter_covers: "d \<le> retryAfterSeconds d * 1000000000 \<and> 1 \<le> retryAfterSeconds d"
proof -
  have "(- d) div 1000000000 * 1000000000 \<le> - d"
    using div_mult_mod_eq [of "- d" 1000000000] pos_mod_sign [of 1000000000 "- d"] by linarith
  then have "d \<le> ceil_seconds d * 1000000000" by (simp add: ceil_seconds_def)
  then show ?thesis by (auto simp: retryAfterSeconds_def Let_def)
qed

text \<open>Of two chained tiers the headers name the one closer to its limit.\<close>

lemma chained_headers:
  assumes "hGet hs ''RateLimit-Remaining'' = itoa m" "0 \<le> m" "m \<le> max_int64" "0 \<le> Remaining res"
  shows "hGet (header_acts (setRateLimitHeaders hs res) hs) ''RateLimit-Remaining'' = itoa (min m (Remaining res))
    \<and> (m \<le> Remaining res \<longrightarrow> setRateLimitHeaders hs res = [])"
proof -
  have "parse_int64 (itoa m) = Some m"
    using assms(2,3) by (intro parse_int64_itoa) (auto simp: max_int64_def min_int64_def)
  moreover have "itoa m \<noteq> ''''" using \<open>parse_int64 (itoa m) = Some m\<close> by (auto simp: parse_int64_def)
  ultimately show ?thesis
    using assms(1,4) by (auto simp: setRateLimitHeaders_def header_acts_def hGet_def Let_def min_def)
qed

text \<open>With a fail-open inner tier, whose budget is unknown, the limit becomes the inner one's and the remaining budget
  stays the outer one's.\<close>

lemma fail_open_mixes_headers:
  assumes "hs ''RateLimit-Limit'' = Some [''10'']" "hs ''RateLimit-Remaining'' = Some [''5'']"
    "redis_reply r (Inl e) = (res, None)" "rburst r = 100"
  shows "(let hs' = header_acts (setRateLimitHeaders hs res) hs
          in hGet hs' ''RateLimit-Limit'' = itoa 100 \<and> hGet hs' ''RateLimit-Remaining'' = ''5'')"
  using assms by (auto simp: redis_reply_def errResult_def setRateLimitHeaders_def header_acts_def hGet_def Let_def split: if_splits)

context limiter
begin

text \<open>The three ways a limited request goes.\<close>

lemma rate_limit_cases:
  assumes "RateLimitPer reg allow x key h r hs s = (s', as, out)" "gateway_registry = Some reg"
    "allow s x (if key r = '''' then hr_remote r else key r) = (s1, res, err)"
  shows "(Allowed res \<longrightarrow> (\<exists>bs. h r (header_acts (setRateLimitHeaders hs res) hs) s1 = (s', bs, out) \<and> as = setRateLimitHeaders hs res @ bs))
    \<and> (\<not> Allowed res \<longrightarrow> s' = s1 \<and> out = None
         \<and> resp_status as = (if err = None then 429 else 503)
         \<and> (err = None \<longrightarrow> (\<exists>secs. 1 \<le> secs \<and> RetryAfter res \<le> secs * 1000000000 \<and> resp_header as ''Retry-After'' = Some [itoa secs])))"
proof (intro conjI impI)
  assume ok: "Allowed res"
  then have "err = None" using error_denies assms(3) by (cases err) auto
  then show "\<exists>bs. h r (header_acts (setRateLimitHeaders hs res) hs) s1 = (s', bs, out) \<and> as = setRateLimitHeaders hs res @ bs"
    using assms(1,3) ok by (auto simp: RateLimitPer_def Let_def with_acts_def split: prod.splits)
next
  assume no: "\<not> Allowed res"
  note st = edge_statuses [OF assms(2)]
  let ?pre = "setRateLimitHeaders hs res" and ?secs = "retryAfterSeconds (RetryAfter res)"
  show "s' = s1" "out = None" using assms(1,3) no by (auto simp: RateLimitPer_def Let_def split: if_splits)
  show "resp_status as = (if err = None then 429 else 503)"
  proof (cases err)
    case (Some e)
    then have "as = ?pre @ write_error reg r (ErrApp (app_New reg CodeRateLimitUnavailable) None)"
      using assms(1,3) by (auto simp: RateLimitPer_def Let_def)
    then show ?thesis using Some st rate_headers_calls write_error_status [of "app_New reg CodeRateLimitUnavailable" ?pre] by simp
  next
    case None
    then have "as = (?pre @ [ASet ''Retry-After'' (itoa ?secs)])
        @ write_error reg r (ErrApp (WithParam (app_New reg CodeRateLimited) ''retry_after_seconds'' (itoa ?secs)) None)"
      using assms(1,3) no by (auto simp: RateLimitPer_def Let_def)
    then show ?thesis
      using None st rate_headers_calls
        write_error_status [of "WithParam (app_New reg CodeRateLimited) ''retry_after_seconds'' (itoa ?secs)" "?pre @ [ASet ''Retry-After'' (itoa ?secs)]"]
      by simp
  qed
  assume None: "err = None"
  then have as: "as = (?pre @ [ASet ''Retry-After'' (itoa ?secs)])
      @ write_error reg r (ErrApp (WithParam (app_New reg CodeRateLimited) ''retry_after_seconds'' (itoa ?secs)) None)"
    using assms(1,3) no by (auto simp: RateLimitPer_def Let_def)
  have "stands ''Retry-After'' (Some [itoa ?secs]) (fold resp_act (?pre @ [ASet ''Retry-After'' (itoa ?secs)]) resp0)"
    using fold_header_calls [OF rate_headers_calls, of hs res resp0] by (simp add: stands_def resp0_def)
  then have "resp_header as ''Retry-After'' = Some [itoa ?secs]"
    unfolding as by (rule resp_header_stands) (simp add: write_error_def)
  then show "\<exists>secs. 1 \<le> secs \<and> RetryAfter res \<le> secs * 1000000000 \<and> resp_header as ''Retry-After'' = Some [itoa secs]"
    using retryAfter_covers by blast
qed

end

section \<open>Admission\<close>

lemma cors_cases:
  assumes "CORS reg opts h r hs s = (s', as, out)" "gateway_registry = Some reg"
  shows "(s' = s \<and> out = None \<and> resp_status as \<in> {204, 403})
    \<or> (\<exists>hs' pre bs. h r hs' s = (s', bs, out) \<and> as = pre @ bs \<and> list_all header_call pre)"
proof -
  let ?e = "WithParam (app_New reg CodeAuthForbidden) ''reason'' ''origin not allowed''" and ?v = "AAdd ''Vary'' ''Origin''"
  consider (refused) "s' = s" "out = None" "as = [?v] @ write_error reg r (ErrApp ?e None)"
    | (granted) "s' = s" "out = None" "\<exists>pre. as = pre @ [AWriteHeader 204] \<and> list_all header_call pre"
    | (passed) "\<exists>hs' pre bs. h r hs' s = (s', bs, out) \<and> as = pre @ bs \<and> list_all header_call pre"
  proof (cases "is_preflight r")
    case True
    then show thesis
      using assms(1) that(1,2) by (cases "cors_allowed opts (hr_header r ''Origin'')") (auto simp: CORS_def is_preflight_def Let_def)
  next
    case False
    have w: "\<exists>hs' pre bs. h r hs' s = (s', bs, out) \<and> as = pre @ bs \<and> list_all header_call pre"
      if "with_acts pre h r hs s = (s', as, out)" "list_all header_call pre" for pre
      using that by (auto simp: with_acts_def split: prod.splits)
    show thesis
      using assms(1) False that(3) w by (auto simp: CORS_def is_preflight_def Let_def split: if_splits)
  qed
  then show ?thesis
  proof cases
    case refused
    have "resp_status as = 403"
      unfolding refused using write_error_status [of ?e "[?v]" reg r None] edge_statuses [OF assms(2)] by simp
    then show ?thesis using refused by simp
  next
    case granted
    then obtain pre where "as = pre @ [AWriteHeader 204]" "list_all header_call pre" by blast
    then have "resp_status as = resp_status [AWriteHeader 204]" using resp_status_prefix by blast
    then have "resp_status as = 204" by (simp add: resp_status_def respond_def commit_resp_def informational_def resp0_def)
    then show ?thesis using granted by simp
  qed blast
qed

text \<open>Two limiters, each behind its own key.\<close>

locale edge = ip: limiter ipLim + pr: limiter prLim
  for ipLim :: "'a \<Rightarrow> 'x \<Rightarrow> string \<Rightarrow> 'a \<times> rl_result \<times> go_err option"
    and prLim :: "'b \<Rightarrow> 'y \<Rightarrow> string \<Rightarrow> 'b \<times> rl_result \<times> go_err option"
begin

lemma on_ip_limiter: "limiter (on_ip ipLim)"
  by unfold_locales
    (auto simp: on_ip_def split: prod.splits dest: ip.error_denies ip.budget ip.waits)

lemma on_principal_limiter: "limiter (on_principal prLim)"
  by unfold_locales
    (auto simp: on_principal_def split: prod.splits dest: pr.error_denies pr.budget pr.waits)

text \<open>What it takes to get past the limit per principal.\<close>

definition principal_ok :: "gateway_config \<Rightarrow> 'b \<Rightarrow> 'y \<Rightarrow> Principal \<Rightarrow> 'b \<Rightarrow> bool" where
  "principal_ok cfg b y p b' \<longleftrightarrow>
     (if authed_tier cfg then \<exists>res. prLim b y (''sub:'' @ p_subject p) = (b', res, None) \<and> Allowed res else b' = b)"

lemma authed_tier_cases:
  assumes run: "newAuthedRateLimit reg cfg (on_principal prLim) y (on_rest h) r hs (a, b, c) = ((a', b', c'), as, out)"
    and reg: "gateway_registry = Some reg" and p: "hr_principal r = Some p" "p_subject p \<noteq> ''''"
  shows "a' = a \<and> ((\<exists>hs' bs pre. h r hs' c = (c', bs, out) \<and> as = pre @ bs \<and> list_all header_call pre \<and> principal_ok cfg b y p b')
    \<or> (c' = c \<and> out = None \<and> resp_status as \<in> {429, 503}))"
proof (cases "authed_tier cfg")
  case False
  then have "h r hs c = (c', as, out)" "a' = a" "b' = b"
    using run by (auto simp: newAuthedRateLimit_def on_rest_def split: prod.splits)
  then show ?thesis
    using False by (intro conjI disjI1 exI [of _ hs] exI [of _ as] exI [of _ "[]"]) (auto simp: principal_ok_def)
next
  case True
  let ?key = "PrincipalKey (ClientIPKey (g_trusted cfg))"
  have k: "?key r = ''sub:'' @ p_subject p" using p by (simp add: PrincipalKey_def)
  obtain b1 res err where al: "prLim b y (''sub:'' @ p_subject p) = (b1, res, err)" by (metis prod_cases3)
  have run': "RateLimitPer reg (on_principal prLim) y ?key (on_rest h) r hs (a, b, c) = ((a', b', c'), as, out)"
    using run True by (simp add: newAuthedRateLimit_def)
  have al': "on_principal prLim (a, b, c) y (if ?key r = '''' then hr_remote r else ?key r) = ((a, b1, c), res, err)"
    using al k by (simp add: on_principal_def)
  note cases = limiter.rate_limit_cases [OF on_principal_limiter run' reg al']
  show ?thesis
  proof (cases "Allowed res")
    case ok: True
    then have "err = None" using pr.error_denies al by (cases err) auto
    moreover from cases ok obtain bs where
      bs: "on_rest h r (header_acts (setRateLimitHeaders hs res) hs) (a, b1, c) = ((a', b', c'), bs, out)"
        "as = setRateLimitHeaders hs res @ bs" by blast
    ultimately show ?thesis
      using ok al True rate_headers_calls [of hs res] unfolding on_rest_def principal_ok_def
      by (auto split: prod.splits intro!: exI [of _ "setRateLimitHeaders hs res"])
  next
    case False
    then show ?thesis using cases by (cases "err = None") auto
  qed
qed

lemma api_route_cases:
  assumes run: "mountAPIRoutes reg cfg (on_principal prLim) y (on_rest h) r hs (a, b, c) = ((a', b', c'), as, out)"
    and reg: "gateway_registry = Some reg" and auth: "\<not> AuthDisabled cfg" "hr_path r \<noteq> ''/healthz''"
  shows "a' = a \<and> ((\<exists>p hs' bs pre. Middleware (g_verifier cfg) (WithMaxTokenBytes (AuthMaxTokenBytes cfg) DefaultMaxTokenBytes)
           (hr_header r ''Authorization'') = Passed p \<and> h (r\<lparr>hr_principal := Some p\<rparr>) hs' c = (c', bs, out)
           \<and> as = pre @ bs \<and> list_all header_call pre \<and> principal_ok cfg b y p b')
    \<or> (c' = c \<and> out = None \<and> resp_status as \<in> {401, 403, 429, 503}))"
proof (cases "Middleware (g_verifier cfg) (WithMaxTokenBytes (AuthMaxTokenBytes cfg) DefaultMaxTokenBytes) (hr_header r ''Authorization'')")
  case (Passed p)
  have sub: "p_subject p \<noteq> ''''"
    using Passed Verify_subject
    by (auto simp: Middleware_def split: option.splits sum.splits verify_error.splits if_splits)
  have "newAuthedRateLimit reg cfg (on_principal prLim) y (on_rest h) (r\<lparr>hr_principal := Some p\<rparr>) hs (a, b, c) = ((a', b', c'), as, out)"
    using run auth Passed by (simp add: mountAPIRoutes_def Let_def auth_Middleware_def)
  from authed_tier_cases [OF this reg _ sub] Passed show ?thesis by auto
next
  case (Denied401 reason)
  then show ?thesis
    using run auth write_error_status [of "WithParam (app_New reg CodeAuthUnauthenticated) ''reason'' reason" "[]"] edge_statuses [OF reg]
    by (auto simp: mountAPIRoutes_def Let_def auth_Middleware_def)
next
  case (Denied403 role)
  then show ?thesis
    using run auth write_error_status [of "WithParam (app_New reg CodeAuthForbidden) ''required_role'' role" "[]"] edge_statuses [OF reg]
    by (auto simp: mountAPIRoutes_def Let_def auth_Middleware_def)
qed

definition ip_ok :: "gateway_config \<Rightarrow> 'a \<Rightarrow> 'x \<Rightarrow> http_req \<Rightarrow> 'a \<Rightarrow> bool" where
  "ip_ok cfg a x r a' \<longleftrightarrow>
     (\<exists>res. ipLim a x (if ClientIPKey (g_trusted cfg) r = '''' then hr_remote r else ClientIPKey (g_trusted cfg) r) = (a', res, None)
        \<and> Allowed res)"

lemma edge_cases:
  assumes run: "applyEdgeSecurity reg cfg (on_ip ipLim) x (mountAPIRoutes reg cfg (on_principal prLim) y (on_rest h)) r hs (a, b, c)
      = ((a', b', c'), as, out)"
    and reg: "gateway_registry = Some reg" and auth: "\<not> AuthDisabled cfg" "hr_path r \<noteq> ''/healthz''"
  shows "(\<exists>p hs' bs pre. Middleware (g_verifier cfg) (WithMaxTokenBytes (AuthMaxTokenBytes cfg) DefaultMaxTokenBytes)
           (hr_header r ''Authorization'') = Passed p \<and> h (r\<lparr>hr_principal := Some p\<rparr>) hs' c = (c', bs, out)
           \<and> as = pre @ bs \<and> list_all header_call pre \<and> principal_ok cfg b y p b' \<and> ip_ok cfg a x r a')
    \<or> (c' = c \<and> out = None \<and> resp_status as \<in> {204, 401, 403, 429, 503})"
proof -
  let ?key = "ClientIPKey (g_trusted cfg)" and ?api = "mountAPIRoutes reg cfg (on_principal prLim) y (on_rest h)"
  from cors_cases [OF run [unfolded applyEdgeSecurity_def] reg] show ?thesis
  proof
    assume "\<exists>hs' pre bs. RateLimitPer reg (on_ip ipLim) x ?key ?api r hs' (a, b, c) = ((a', b', c'), bs, out)
      \<and> as = pre @ bs \<and> list_all header_call pre"
    then obtain hs' pre bs where lim: "RateLimitPer reg (on_ip ipLim) x ?key ?api r hs' (a, b, c) = ((a', b', c'), bs, out)"
      and as: "as = pre @ bs" and pre: "list_all header_call pre" by blast
    obtain a1 res err where al: "ipLim a x (if ?key r = '''' then hr_remote r else ?key r) = (a1, res, err)" by (metis prod_cases3)
    have al': "on_ip ipLim (a, b, c) x (if ?key r = '''' then hr_remote r else ?key r) = ((a1, b, c), res, err)"
      using al by (simp add: on_ip_def)
    note cases = limiter.rate_limit_cases [OF on_ip_limiter lim reg al']
    show ?thesis
    proof (cases "Allowed res")
      case False
      then show ?thesis using cases resp_status_prefix [OF pre] by (cases "err = None") (auto simp: as)
    next
      case ok: True
      then have none: "err = None" using ip.error_denies al by (cases err) auto
      from cases ok obtain hs1 cs where inner: "?api r hs1 (a1, b, c) = ((a', b', c'), cs, out)"
        and bs: "bs = setRateLimitHeaders hs' res @ cs" by blast
      have as': "as = (pre @ setRateLimitHeaders hs' res) @ cs" by (simp add: as bs)
      have calls: "list_all header_call (pre @ setRateLimitHeaders hs' res)" using pre rate_headers_calls by simp
      from api_route_cases [OF inner reg auth] have a': "a' = a1" and
        alt: "(\<exists>p hs' ds pre'. Middleware (g_verifier cfg) (WithMaxTokenBytes (AuthMaxTokenBytes cfg) DefaultMaxTokenBytes)
            (hr_header r ''Authorization'') = Passed p \<and> h (r\<lparr>hr_principal := Some p\<rparr>) hs' c = (c', ds, out)
            \<and> cs = pre' @ ds \<and> list_all header_call pre' \<and> principal_ok cfg b y p b')
          \<or> (c' = c \<and> out = None \<and> resp_status cs \<in> {401, 403, 429, 503})" by blast+
      have ip: "ip_ok cfg a x r a'" using al ok none a' by (auto simp: ip_ok_def)
      from alt show ?thesis
      proof
        assume "c' = c \<and> out = None \<and> resp_status cs \<in> {401, 403, 429, 503}"
        then show ?thesis using resp_status_prefix [OF calls, of cs] as' by auto
      next
        assume "\<exists>p hs' ds pre'. Middleware (g_verifier cfg) (WithMaxTokenBytes (AuthMaxTokenBytes cfg) DefaultMaxTokenBytes)
            (hr_header r ''Authorization'') = Passed p \<and> h (r\<lparr>hr_principal := Some p\<rparr>) hs' c = (c', ds, out)
            \<and> cs = pre' @ ds \<and> list_all header_call pre' \<and> principal_ok cfg b y p b'"
        then obtain p hs2 ds pre' where "Middleware (g_verifier cfg) (WithMaxTokenBytes (AuthMaxTokenBytes cfg) DefaultMaxTokenBytes)
            (hr_header r ''Authorization'') = Passed p" "h (r\<lparr>hr_principal := Some p\<rparr>) hs2 c = (c', ds, out)"
            "cs = pre' @ ds" "list_all header_call pre'" "principal_ok cfg b y p b'" by blast
        with ip as' calls show ?thesis
          by (intro disjI1 exI [of _ p] exI [of _ hs2] exI [of _ ds] exI [of _ "pre @ setRateLimitHeaders hs' res @ pre'"]) auto
      qed
    qed
  qed auto
qed

lemma ClientIPKey_cong: "ClientIPKey t (r\<lparr>hr_id := i, hr_body_limit := l\<rparr>) = ClientIPKey t r"
  by (simp add: ClientIPKey_def Let_def cong: option.case_cong if_cong)

lemma admission:
  assumes "gateway_chain reg cfg rnd ipLim x prLim y h r hs (a, b, c) = ((a', b', c'), as, out)"
    "gateway_registry = Some reg" "\<not> AuthDisabled cfg" "hr_path r \<noteq> ''/healthz''" "length rnd = 16"
  shows "(\<exists>p r' hs' bs pn. Middleware (g_verifier cfg) (WithMaxTokenBytes (AuthMaxTokenBytes cfg) DefaultMaxTokenBytes)
           (hr_header r ''Authorization'') = Passed p \<and> hr_principal r' = Some p \<and> hr_path r' = hr_path r \<and> hr_header r' = hr_header r
           \<and> h r' hs' c = (c', bs, pn) \<and> principal_ok cfg b y p b' \<and> ip_ok cfg a x r a')
    \<or> (c' = c \<and> out = None \<and> resp_status as \<in> {204, 401, 403, 429, 503})"
proof -
  from server_stack_form [OF assms(1) [unfolded gateway_chain_def] assms(5)] obtain i l hs' bs pn where
    inner: "applyEdgeSecurity reg cfg (on_ip ipLim) x (mountAPIRoutes reg cfg (on_principal prLim) y (on_rest h))
        (r\<lparr>hr_id := i, hr_body_limit := l\<rparr>) hs' (a, b, c) = ((a', b', c'), bs, pn)"
    and as: "as = security_acts (HSTSMaxAge (g_server cfg)) @ [ASet ''X-Request-Id'' i] @ recovered bs pn"
    and out: "out = (if pn = Some PanicAbort then pn else None)" by blast
  have ip: "ip_ok cfg a x (r\<lparr>hr_id := i, hr_body_limit := l\<rparr>) a' = ip_ok cfg a x r a'"
    by (simp add: ip_ok_def ClientIPKey_cong)
  have st: "resp_status as = resp_status (recovered bs pn)"
    using resp_status_prefix [of "security_acts (HSTSMaxAge (g_server cfg)) @ [ASet ''X-Request-Id'' i]"] security_acts_header_calls
    by (simp add: as)
  have path: "hr_path (r\<lparr>hr_id := i, hr_body_limit := l\<rparr>) \<noteq> ''/healthz''" using assms(4) by simp
  from edge_cases [OF inner assms(2,3) path] show ?thesis
    unfolding ip
  proof (elim disjE, goal_cases)
    case 1
    then obtain p hs2 ds pre where d: "Middleware (g_verifier cfg) (WithMaxTokenBytes (AuthMaxTokenBytes cfg) DefaultMaxTokenBytes)
        (hr_header r ''Authorization'') = Passed p"
      "h (r\<lparr>hr_id := i, hr_body_limit := l, hr_principal := Some p\<rparr>) hs2 c = (c', ds, pn)" "principal_ok cfg b y p b'" "ip_ok cfg a x r a'"
      by auto
    then show ?case
      by (intro disjI1 exI [of _ p] exI [of _ "r\<lparr>hr_id := i, hr_body_limit := l, hr_principal := Some p\<rparr>"] exI [of _ hs2]
          exI [of _ ds] exI [of _ pn]) simp
  next
    case 2
    then show ?case using st out by (simp add: recovered_def)
  qed
qed

end

interpretation mem_edge: edge "memory_allow L" "memory_allow M" for L :: "'l limiter_ops" and M :: "'m limiter_ops" ..

interpretation redis_edge: edge "redis_allow q" "redis_allow q'" for q q' ..


text \<open>A request without a token behind the chain: the counting handler is not run.\<close>

definition edge_cfg :: gateway_config where
  "edge_cfg = \<lparr>g_server = \<lparr>MaxBodyBytes = 0, HSTSMaxAge = 0, noMaxBytes = True\<rparr>, CORSOrigins = [], g_trusted = [], AuthDisabled = False,
     AuthMaxTokenBytes = 0, g_verifier = sample_verifier, authed_tier = True\<rparr>"


end
