(* ===== verification/Transact.thy ===== *)
theory Transact
  imports Kafka_Consumer
begin

text \<open>
  \<open>platform/messaging/kafka/transact.go\<close>: the consumer that reads records, maps each to output records and commits
  the outputs together with the input offsets in one Kafka transaction. The transactional session is the
  client's: what its calls answer is an argument of the model. Its documented effect is kept: a transaction that
  commits makes its outputs visible to read-committed readers and moves the input offsets, at once; one that
  does not leaves both as they were, and the batch is read again. An error of \<open>End\<close> may hide either.
\<close>

section \<open>NewTransactConsumer\<close>

definition NewTransactConsumer :: "go_err option \<Rightarrow> string \<Rightarrow> string \<Rightarrow> string list \<Rightarrow> (go_err, unit) result" where
  "NewTransactConsumer session_err txnID groupID topics =
     (if txnID = '''' then Inl (ErrText ''kafka: NewTransactConsumer: txnID must not be empty'')
      else if groupID = '''' then Inl (ErrText ''kafka: NewTransactConsumer: groupID must not be empty'')
      else if topics = [] then Inl (ErrText ''kafka: NewTransactConsumer: at least one topic must be provided'')
      else case session_err of Some e \<Rightarrow> Inl (ErrWrap ''kafka: NewTransactConsumer'' e) | None \<Rightarrow> Inr ())"

section \<open>recordToKGO\<close>

text \<open>\<open>ks\<close> are the header keys in the order of the range over the map.\<close>

definition recordToKGO :: "string list \<Rightarrow> kafka_record \<Rightarrow> kgo_record" where
  "recordToKGO ks rec =
     \<lparr>kTopic = Topic rec, kKey = Key rec, kValue = Value rec,
      kHeaders = map (\<lambda>k. (k, case Headers rec k of Some v \<Rightarrow> v | None \<Rightarrow> '''')) ks, kPartition = 0, kOffset = 0\<rparr>"

section \<open>Run\<close>

datatype fetch_err = FetchCtx go_err | FetchClosed | FetchOther go_err

datatype end_answer = EndCommitted | EndAborted | EndError go_err bool

text \<open>What the calls of one round answer: the poll, \<open>Begin\<close>, the promises of the produced records in order,
  and \<open>End\<close> when it tries to commit (an error with whether the broker had committed).\<close>

record tx_round =
  tr_ctx :: "go_err option"
  tr_closed :: bool
  tr_errs :: "fetch_err list"
  tr_recs :: "kgo_record list"
  tr_begin :: "go_err option"
  tr_promises :: "nat \<Rightarrow> go_err option"
  tr_end :: end_answer

text \<open>The broker, as a reader with read-committed isolation sees it: the consumed offsets per partition, as a number
  of records, and the visible outputs.\<close>

record tx_state =
  tx_consumed :: "tp \<Rightarrow> nat"
  tx_visible :: "kafka_record list"

fun fetch_errors :: "fetch_err list \<Rightarrow> go_err option option" where
  "fetch_errors [] = None"
| "fetch_errors (FetchCtx e # es) = Some (Some e)"
| "fetch_errors (FetchClosed # es) = Some None"
| "fetch_errors (FetchOther e # es) = fetch_errors es"

text \<open>The records of the batch, one after the other: after the first error of \<open>fn\<close> the rest is skipped. The
  answer pairs each processed record with its outputs.\<close>

fun process_batch :: "(kafka_record \<Rightarrow> (go_err, kafka_record list) result) \<Rightarrow> kgo_record list
    \<Rightarrow> (kgo_record \<times> kafka_record list) list \<times> bool" where
  "process_batch fn [] = ([], True)"
| "process_batch fn (rec # recs) =
     (case fn (RecordFromKGO rec) of
        Inl e \<Rightarrow> ([], False)
      | Inr outs \<Rightarrow> (case process_batch fn recs of (ps, ok) \<Rightarrow> ((rec, outs) # ps, ok)))"

definition outputs :: "(kgo_record \<times> kafka_record list) list \<Rightarrow> kafka_record list" where
  "outputs ps = concat (map snd ps)"

text \<open>A committed transaction.\<close>

definition tx_commit :: "(kgo_record \<times> kafka_record list) list \<Rightarrow> tx_state \<Rightarrow> tx_state" where
  "tx_commit ps st =
     st\<lparr>tx_consumed := (\<lambda>k. tx_consumed st k + length (filter (\<lambda>p. rec_tp (fst p) = k) ps)),
        tx_visible := tx_visible st @ outputs ps\<rparr>"

datatype tx_result = Again | Returned "go_err option"

definition transact_round ::
  "(kafka_record \<Rightarrow> (go_err, kafka_record list) result) \<Rightarrow> tx_round \<Rightarrow> tx_state \<Rightarrow> tx_state \<times> tx_result" where
  "transact_round fn rd st =
     (case tr_ctx rd of Some e \<Rightarrow> (st, Returned (Some e)) | None \<Rightarrow>
      if tr_closed rd then (st, Returned None)
      else case fetch_errors (tr_errs rd) of Some r \<Rightarrow> (st, Returned r) | None \<Rightarrow>
      if tr_recs rd = [] then (st, Again)
      else case tr_begin rd of Some e \<Rightarrow> (st, Returned (Some (ErrWrap ''kafka: TransactConsumer: Begin'' e))) | None \<Rightarrow>
      (case process_batch fn (tr_recs rd) of (ps, ok0) \<Rightarrow>
        let produceErr = (\<exists>i < length (outputs ps). tr_promises rd i \<noteq> None);
            ok = (ok0 \<and> \<not> produceErr)
        in case tr_end rd of
             EndError e landed \<Rightarrow>
               (if ok \<and> landed then tx_commit ps st else st, Returned (Some (ErrWrap ''kafka: TransactConsumer: End'' e)))
           | EndCommitted \<Rightarrow> (if ok then tx_commit ps st else st, Again)
           | EndAborted \<Rightarrow> (st, Again)))"

text \<open>The loop, over the rounds that take place and the function each of them calls; it stops when a round
  returns. \<open>None\<close>: the loop goes on after the last round.\<close>

fun transact_Run :: "((kafka_record \<Rightarrow> (go_err, kafka_record list) result) \<times> tx_round) list \<Rightarrow> tx_state
    \<Rightarrow> tx_state \<times> go_err option option" where
  "transact_Run [] st = (st, None)"
| "transact_Run ((fn, rd) # rds) st =
     (case transact_round fn rd st of
        (st', Returned r) \<Rightarrow> (st', Some r)
      | (st', Again) \<Rightarrow> transact_Run rds st')"

section \<open>Exactly once\<close>

text \<open>What a poll documents: of each partition, the records that follow the committed ones, in order.\<close>

definition batch_from :: "(tp \<Rightarrow> kgo_record list) \<Rightarrow> tx_state \<Rightarrow> kgo_record list \<Rightarrow> bool" where
  "batch_from tlog st recs \<longleftrightarrow>
     (\<forall>k. \<exists>n. filter (\<lambda>r. rec_tp r = k) recs = take n (drop (tx_consumed st k) (tlog k)))"

text \<open>The runs: rounds with any answers and any functions, restarts included (a restart resumes from the broker's
  state). \<open>Fs\<close> is the set of functions the processes run.\<close>

inductive tx_reach :: "(kafka_record \<Rightarrow> (go_err, kafka_record list) result) set \<Rightarrow> (tp \<Rightarrow> kgo_record list) \<Rightarrow> tx_state \<Rightarrow> bool"
  for Fs tlog where
  start: "tx_consumed st = (\<lambda>_. 0) \<Longrightarrow> tx_visible st = [] \<Longrightarrow> tx_reach Fs tlog st"
| round: "tx_reach Fs tlog st \<Longrightarrow> fn \<in> Fs \<Longrightarrow> batch_from tlog st (tr_recs rd) \<Longrightarrow> transact_round fn rd st = (st', r) \<Longrightarrow> tx_reach Fs tlog st'"

lemma process_batch_all:
  "process_batch fn recs = (ps, True) \<Longrightarrow> map fst ps = recs \<and> (\<forall>(r, outs) \<in> set ps. fn (RecordFromKGO r) = Inr outs)"
  by (induction recs arbitrary: ps) (auto split: sum.splits prod.splits)

text \<open>A round either leaves the broker alone or commits the whole batch.\<close>

lemma transact_round_cases:
  assumes "transact_round fn rd st = (st', r)"
  shows "st' = st \<or> (\<exists>ps. st' = tx_commit ps st \<and> map fst ps = tr_recs rd \<and> (\<forall>(r, outs) \<in> set ps. fn (RecordFromKGO r) = Inr outs)
    \<and> (\<forall>i < length (outputs ps). tr_promises rd i = None))"
proof -
  obtain ps ok where pb: "process_batch fn (tr_recs rd) = (ps, ok)" by fastforce
  have "st' = st \<or> (st' = tx_commit ps st \<and> ok \<and> (\<forall>i < length (outputs ps). tr_promises rd i = None))"
    using assms pb by (auto simp: transact_round_def Let_def split: option.splits if_splits end_answer.splits)
  moreover have "map fst ps = tr_recs rd \<and> (\<forall>(r, outs) \<in> set ps. fn (RecordFromKGO r) = Inr outs)" if ok
    using process_batch_all pb that by simp
  ultimately show ?thesis by (elim disjE conjE, simp) (intro disjI2 exI [of _ ps], simp)
qed

text \<open>The committed history: pairs of an input and its outputs.\<close>

definition tx_history :: "(kafka_record \<Rightarrow> (go_err, kafka_record list) result) set \<Rightarrow> (tp \<Rightarrow> kgo_record list) \<Rightarrow> tx_state
    \<Rightarrow> (kgo_record \<times> kafka_record list) list \<Rightarrow> bool" where
  "tx_history Fs tlog st H \<longleftrightarrow>
     tx_visible st = outputs H
     \<and> (\<forall>k. filter (\<lambda>r. rec_tp r = k) (map fst H) = take (tx_consumed st k) (tlog k) \<and> tx_consumed st k \<le> length (tlog k))
     \<and> (\<forall>(r, outs) \<in> set H. \<exists>fn \<in> Fs. fn (RecordFromKGO r) = Inr outs)"

lemma tx_commit_history:
  assumes H: "tx_history Fs tlog st H" and b: "batch_from tlog st (map fst ps)" and fn: "fn \<in> Fs"
    "\<forall>(r, outs) \<in> set ps. fn (RecordFromKGO r) = Inr outs"
  shows "tx_history Fs tlog (tx_commit ps st) (H @ ps)"
proof -
  have "filter (\<lambda>r. rec_tp r = k) (map fst (H @ ps)) = take (tx_consumed (tx_commit ps st) k) (tlog k)
      \<and> tx_consumed (tx_commit ps st) k \<le> length (tlog k)" for k
  proof -
    let ?c = "tx_consumed st k" and ?f = "filter (\<lambda>r. rec_tp r = k) (map fst ps)"
    obtain n where n: "?f = take n (drop ?c (tlog k))" using b unfolding batch_from_def by blast
    have l: "length (filter (\<lambda>p. rec_tp (fst p) = k) ps) = length ?f" by (simp add: filter_map o_def)
    have c: "?c \<le> length (tlog k)" and h: "filter (\<lambda>r. rec_tp r = k) (map fst H) = take ?c (tlog k)"
      using H unfolding tx_history_def by blast+
    have "?f = take (length ?f) (drop ?c (tlog k))" unfolding n by (simp add: min_def)
    then have "take ?c (tlog k) @ ?f = take (?c + length ?f) (tlog k)" by (metis take_add)
    moreover have "?c + length ?f \<le> length (tlog k)" using n c by simp
    ultimately show ?thesis using h l by (simp add: tx_commit_def)
  qed
  moreover have "tx_visible (tx_commit ps st) = outputs (H @ ps)"
    using H by (simp add: tx_commit_def tx_history_def outputs_def)
  moreover have "\<forall>(r, outs) \<in> set (H @ ps). \<exists>fn \<in> Fs. fn (RecordFromKGO r) = Inr outs"
    using H fn by (fastforce simp: tx_history_def)
  ultimately show ?thesis by (simp add: tx_history_def)
qed

lemma tx_reach_history: "tx_reach Fs tlog st \<Longrightarrow> \<exists>H. tx_history Fs tlog st H"
proof (induction rule: tx_reach.induct)
  case (start st)
  then show ?case by (intro exI [of _ "[]"]) (simp add: tx_history_def outputs_def)
next
  case (round st fn rd st' r)
  from round.IH obtain H where H: "tx_history Fs tlog st H" by blast
  from transact_round_cases [OF round.hyps(4)] show ?case
  proof
    assume "\<exists>ps. st' = tx_commit ps st \<and> map fst ps = tr_recs rd \<and> (\<forall>(r, outs) \<in> set ps. fn (RecordFromKGO r) = Inr outs)
      \<and> (\<forall>i < length (outputs ps). tr_promises rd i = None)"
    then obtain ps where "st' = tx_commit ps st" "map fst ps = tr_recs rd" "\<forall>(r, outs) \<in> set ps. fn (RecordFromKGO r) = Inr outs" by blast
    moreover from this have "batch_from tlog st (map fst ps)" using round.hyps(3) by simp
    ultimately show ?thesis using tx_commit_history [OF H _ round.hyps(2)] by blast
  qed (use H in blast)
qed


text \<open>And it makes progress: a round in which nothing fails commits its batch.\<close>

lemma transact_progress:
  assumes "tr_ctx rd = None" "\<not> tr_closed rd" "fetch_errors (tr_errs rd) = None" "tr_begin rd = None" "tr_end rd = EndCommitted"
    "\<forall>i. tr_promises rd i = None" "\<forall>r \<in> set (tr_recs rd). \<exists>outs. fn (RecordFromKGO r) = Inr outs" "tr_recs rd \<noteq> []"
  shows "\<exists>ps. map fst ps = tr_recs rd \<and> transact_round fn rd st = (tx_commit ps st, Again)"
proof -
  have "\<exists>ps. process_batch fn recs = (ps, True)" if "\<forall>r \<in> set recs. \<exists>outs. fn (RecordFromKGO r) = Inr outs" for recs
    using that by (induction recs) (auto split: sum.splits prod.splits)
  then obtain ps where ps: "process_batch fn (tr_recs rd) = (ps, True)" using assms(7) by blast
  then have "map fst ps = tr_recs rd" using process_batch_all by blast
  then show ?thesis using assms ps by (auto simp: transact_round_def Let_def)
qed

lemma recordToKGO_roundtrip:
  assumes "distinct ks" "set ks = dom (Headers rec)"
  shows "RecordFromKGO (recordToKGO ks rec) = rec\<lparr>Partition := 0, Offset := 0\<rparr>"
proof -
  let ?hs = "map (\<lambda>k. (k, case Headers rec k of Some v \<Rightarrow> v | None \<Rightarrow> '''')) ks"
  have "distinct (map fst ?hs)" using assms(1) by (simp add: o_def)
  then have "HeadersFromKGO ?hs = map_of ?hs" by (rule HeadersFromKGO_map_of)
  moreover have "map_of ?hs = Headers rec"
    using assms(2) by (auto simp: map_of_map_restrict restrict_map_def fun_eq_iff domIff)
  ultimately have "HeadersFromKGO ?hs = Headers rec" by simp
  then show ?thesis by (simp add: RecordFromKGO_def recordToKGO_def)
qed

text \<open>Two records; the first attempt aborts because the second output was not stored, the second commits.\<close>

definition demo_fn :: "kafka_record \<Rightarrow> (go_err, kafka_record list) result" where
  "demo_fn rec = Inr [rec\<lparr>Topic := ''out''\<rparr>]"

definition demo_round :: "(nat \<Rightarrow> go_err option) \<Rightarrow> tx_round" where
  "demo_round promises = \<lparr>tr_ctx = None, tr_closed = False, tr_errs = [], tr_recs = [demo_rec 0, demo_rec 1], tr_begin = None,
     tr_promises = promises, tr_end = EndCommitted\<rparr>"


end
