(* ===== verification/Cqrs.thy ===== *)
theory Cqrs
  imports Auth
begin

text \<open>
  \<open>platform/cqrs\<close>: handlers, behaviours that decorate them, and the builder of the standard pipeline. A handler
  is a function of the context, the command and a world, which holds the telemetry written so far and the
  database; it ends with a result, an error or a panic. Validation of a struct, the policy, the codec and what
  a cache answers are arguments.
\<close>

section \<open>cqrs.go\<close>

datatype cq_event =
    SpanStart string
  | SpanEnd string bool
  | LogLine string string bool
  | Metric string string

record 's cq_world =
  cq_obs :: "cq_event list"
  cq_db :: 's

record cq_ctx =
  cq_principal :: "Principal option"
  cq_span :: bool
  cq_tx :: bool

datatype 'r cq_outcome = Ret 'r | Err go_err | Panic string

type_synonym ('c, 'r, 's) cq_handler = "cq_ctx \<Rightarrow> 'c \<Rightarrow> 's cq_world \<Rightarrow> 's cq_world \<times> 'r cq_outcome"

type_synonym ('c, 'r, 's) behavior = "('c, 'r, 's) cq_handler \<Rightarrow> ('c, 'r, 's) cq_handler"

definition Decorate :: "('c, 'r, 's) cq_handler \<Rightarrow> ('c, 'r, 's) behavior list \<Rightarrow> ('c, 'r, 's) cq_handler" where
  "Decorate h behaviors = foldr (\<lambda>b h. b h) behaviors h"

definition note_event :: "cq_event \<Rightarrow> 's cq_world \<Rightarrow> 's cq_world" where
  "note_event e w = w\<lparr>cq_obs := cq_obs w @ [e]\<rparr>"

section \<open>tracing.go, logging.go, metrics.go\<close>

fun failed_outcome :: "'r cq_outcome \<Rightarrow> bool" where
  "failed_outcome (Ret _) = False"
| "failed_outcome _ = True"

definition Tracing :: "string \<Rightarrow> ('c, 'r, 's) behavior" where
  "Tracing name nxt ctx cmd w =
     (case nxt (ctx\<lparr>cq_span := True\<rparr>) cmd (note_event (SpanStart name) w) of
        (w1, res) \<Rightarrow> (note_event (SpanEnd name (failed_outcome res)) w1, res))"

fun log_text :: "'r cq_outcome \<Rightarrow> string" where
  "log_text (Ret _) = ''handler succeeded''"
| "log_text (Err _) = ''handler failed''"
| "log_text (Panic _) = ''handler panicked''"

definition Logging :: "string \<Rightarrow> ('c, 'r, 's) behavior" where
  "Logging name nxt ctx cmd w =
     (case nxt ctx cmd (note_event (LogLine name ''handler started'' (cq_span ctx)) w) of
        (w1, res) \<Rightarrow> (note_event (LogLine name (log_text res) (cq_span ctx)) w1, res))"

fun metric_status :: "'r cq_outcome \<Rightarrow> string" where
  "metric_status (Ret _) = ''ok''"
| "metric_status (Err _) = ''error''"
| "metric_status (Panic _) = ''panic''"

definition Metrics :: "string \<Rightarrow> ('c, 'r, 's) behavior" where
  "Metrics name nxt ctx cmd w =
     (case nxt ctx cmd w of (w1, res) \<Rightarrow> (note_event (Metric name (metric_status res)) w1, res))"

section \<open>deadline.go\<close>

text \<open>\<open>fired\<close>: the deadline of this behaviour passed while the caller's context was alive; \<open>is_deadline\<close> is
  \<open>errors.Is(err, context.DeadlineExceeded)\<close>.\<close>

record deadline_env =
  fired :: bool
  is_deadline :: "go_err \<Rightarrow> bool"
  budget_text :: string

definition Deadline :: "deadline_env \<Rightarrow> ('c, 'r, 's) behavior" where
  "Deadline E nxt ctx cmd w =
     (case nxt ctx cmd w of
        (w1, Err e) \<Rightarrow>
          (w1, if fired E \<and> is_deadline E e
               then Err (ErrText (''cqrs: handler deadline exceeded: context deadline exceeded (budget '' @ budget_text E @ '')''))
               else Err e)
      | (w1, res) \<Rightarrow> (w1, res))"

section \<open>validation.go\<close>

datatype struct_error = FieldErrors go_err string | InvalidValue go_err

datatype cmd_kind = Validatable "go_err option" | NotStruct | Struct "struct_error option"

definition CodeValidationFailed :: string where "CodeValidationFailed = ''VALIDATION_FAILED''"

fun validationAppErr :: "code_registry \<Rightarrow> struct_error \<Rightarrow> go_err" where
  "validationAppErr reg (InvalidValue e) = ErrWrap ''cqrs: validation'' e"
| "validationAppErr reg (FieldErrors raw fs) =
     ErrApp (WithParam (app_New reg CodeValidationFailed) ''fields'' fs) (Some raw)"

definition Validation :: "code_registry \<Rightarrow> ('c \<Rightarrow> cmd_kind) \<Rightarrow> ('c, 'r, 's) behavior" where
  "Validation reg kind nxt ctx cmd w =
     (case kind cmd of
        Validatable (Some e) \<Rightarrow> (w, Err (ErrWrap ''cqrs: validation'' e))
      | Struct (Some e) \<Rightarrow> (w, Err (validationAppErr reg e))
      | _ \<Rightarrow> nxt ctx cmd w)"

section \<open>transaction.go\<close>

text \<open>\<open>pg.RunInTx\<close> around the handler: an error or a panic rolls the database back. The arguments are the errors of
  begin and commit; the error of a failed rollback, which is joined to the handler's, is left out.\<close>

definition cq_Transaction :: "go_err option \<Rightarrow> go_err option \<Rightarrow> ('c, 'r, 's) behavior" where
  "cq_Transaction beginErr commitErr nxt ctx cmd w =
     (case beginErr of
        Some e \<Rightarrow> (w, Err (ErrWrap ''pg: begin tx'' e))
      | None \<Rightarrow>
          (case nxt (ctx\<lparr>cq_tx := True\<rparr>) cmd w of
             (w1, Ret r) \<Rightarrow>
               (case commitErr of
                  Some e \<Rightarrow> (w1\<lparr>cq_db := cq_db w\<rparr>, Err (ErrWrap ''pg: commit'' e))
                | None \<Rightarrow> (w1, Ret r))
           | (w1, res) \<Rightarrow> (w1\<lparr>cq_db := cq_db w\<rparr>, res)))"

section \<open>pipeline.go: authorize\<close>

type_synonym 'c authz_policy = "Principal \<Rightarrow> string \<Rightarrow> 'c \<Rightarrow> go_err option"

definition authorize :: "code_registry \<Rightarrow> 'c authz_policy \<Rightarrow> string \<Rightarrow> ('c, 'r, 's) behavior" where
  "authorize reg policy action nxt ctx cmd w =
     (case cq_principal ctx of
        None \<Rightarrow> (w, Err (ErrUnauthenticated reg))
      | Some pr \<Rightarrow> (case policy pr action cmd of Some e \<Rightarrow> (w, Err e) | None \<Rightarrow> nxt ctx cmd w))"

section \<open>caching.go\<close>

text \<open>What one \<open>GetOrLoad\<close> does: it answers from the cache, it runs the loader of this call, this call waits for
  the loader of another one, whose answer it shares, or the context of the call ends while a load is still under
  way: then \<open>GetOrLoad\<close> returns the context's error at once and the load goes on in the background. In that case
  the loader of this call may not have been run (another call's, or none yet), may be in the middle of the handler,
  or may have finished it; what a handler still running does later is not part of the answer.\<close>

datatype load_progress = NotRun | Running | Finished

datatype cache_answer =
    CacheHit string
  | RanLoader
  | Shared "(go_err, string) result"
  | CallerGone go_err load_progress

record ('c, 'r) caching_env =
  keyFor :: "'c \<Rightarrow> string"
  ttl_of :: int
  marshal :: "'r \<Rightarrow> string option"
  unmarshal :: "string \<Rightarrow> 'r option"
  zero_res :: 'r
  answer :: cache_answer

text \<open>The sets the behaviour and the cache make: key and value.\<close>

definition run_loader :: "('c, 'r) caching_env \<Rightarrow> ('c, 'r, 's) cq_handler \<Rightarrow> cq_ctx \<Rightarrow> 'c \<Rightarrow> 's cq_world
    \<Rightarrow> 's cq_world \<times> 'r cq_outcome \<times> (string \<times> string) list" where
  "run_loader E nxt ctx cmd w =
     (case nxt ctx cmd w of
        (w1, Ret r) \<Rightarrow>
          (case marshal E r of
             None \<Rightarrow> (w1, Ret r, [])
           | Some raw \<Rightarrow> (w1, Ret (case unmarshal E raw of Some r' \<Rightarrow> r' | None \<Rightarrow> r), [(keyFor E cmd, raw)]))
      | (w1, res) \<Rightarrow> (w1, res, []))"

definition Caching :: "('c, 'r) caching_env \<Rightarrow> ('c, 'r, 's) cq_handler \<Rightarrow> cq_ctx \<Rightarrow> 'c \<Rightarrow> 's cq_world
    \<Rightarrow> 's cq_world \<times> 'r cq_outcome \<times> (string \<times> string) list" where
  "Caching E nxt ctx cmd w =
     (let direct = (case nxt ctx cmd w of
                      (w1, Ret r) \<Rightarrow> (w1, Ret r, case marshal E r of Some raw \<Rightarrow> [(keyFor E cmd, raw)] | None \<Rightarrow> [])
                    | (w1, res) \<Rightarrow> (w1, res, []))
      in case answer E of
           RanLoader \<Rightarrow> run_loader E nxt ctx cmd w
         | Shared (Inl e) \<Rightarrow> (w, Err e, [])
         | CallerGone e NotRun \<Rightarrow> (w, Err e, [])
         | CallerGone e Running \<Rightarrow> (w, Ret (zero_res E), [])
         | CallerGone e Finished \<Rightarrow> (case nxt ctx cmd w of (w1, res) \<Rightarrow> (w1, res, []))
         | Shared (Inr raw) \<Rightarrow> (case unmarshal E raw of Some r \<Rightarrow> (w, Ret r, []) | None \<Rightarrow> direct)
         | CacheHit raw \<Rightarrow> (case unmarshal E raw of Some r \<Rightarrow> (w, Ret r, []) | None \<Rightarrow> direct))"

definition CachingBehavior :: "('c, 'r) caching_env \<Rightarrow> ('c, 'r, 's) behavior" where
  "CachingBehavior E nxt ctx cmd w = (case Caching E nxt ctx cmd w of (w1, res, _) \<Rightarrow> (w1, res))"

section \<open>consistency.go\<close>

record ConsistencyPolicy =
  Transactional :: bool
  SyncAudit :: bool
  SyncRYW :: bool
  SyncProjection :: bool

definition Strong :: ConsistencyPolicy where
  "Strong = \<lparr>Transactional = True, SyncAudit = True, SyncRYW = True, SyncProjection = True\<rparr>"

definition Eventual :: ConsistencyPolicy where
  "Eventual = \<lparr>Transactional = True, SyncAudit = False, SyncRYW = False, SyncProjection = False\<rparr>"

definition policy_With :: "(ConsistencyPolicy \<Rightarrow> ConsistencyPolicy) list \<Rightarrow> ConsistencyPolicy \<Rightarrow> ConsistencyPolicy" where
  "policy_With opts p = foldl (\<lambda>p f. f p) p opts"

section \<open>pipeline.go: the builder\<close>

text \<open>A pool, as the errors its begin and its commit give the command; a nil policy, cache or pool is \<open>None\<close>.\<close>

type_synonym pool_env = "go_err option \<times> go_err option"

record ('c, 'r, 's) pipeline =
  pl_name :: string
  pl_deadline :: "(int \<times> deadline_env) option"
  pl_authz :: "'c authz_policy option"
  pl_action :: string
  pl_cache :: "('c, 'r) caching_env option"
  pl_tx :: "pool_env option"
  usesOutbox :: bool
  extra :: "('c, 'r, 's) behavior list"

definition StandardPipeline :: "string \<Rightarrow> ('c, 'r, 's) pipeline" where
  "StandardPipeline name = \<lparr>pl_name = name, pl_deadline = None, pl_authz = None, pl_action = [], pl_cache = None, pl_tx = None,
     usesOutbox = False, extra = []\<rparr>"

datatype ('c, 'r, 's) pl_option =
    WithDeadline int deadline_env
  | WithAuthz "'c authz_policy option" string
  | WithCache "('c, 'r) caching_env option"
  | WithTransaction "pool_env option"
  | WithOutbox
  | WithConsistency ConsistencyPolicy "pool_env option"
  | UseBehaviors "('c, 'r, 's) behavior list"

text \<open>One call of the builder; \<open>None\<close> is the panic of \<open>WithConsistency\<close>.\<close>

fun pl_apply :: "('c, 'r, 's) pl_option \<Rightarrow> ('c, 'r, 's) pipeline \<Rightarrow> ('c, 'r, 's) pipeline option" where
  "pl_apply (WithDeadline d E) p = Some (p\<lparr>pl_deadline := Some (d, E)\<rparr>)"
| "pl_apply (WithAuthz policy action) p = Some (p\<lparr>pl_authz := policy, pl_action := action\<rparr>)"
| "pl_apply (WithCache E) p = Some (p\<lparr>pl_cache := E\<rparr>)"
| "pl_apply (WithTransaction pool) p = Some (p\<lparr>pl_tx := pool\<rparr>)"
| "pl_apply WithOutbox p = Some (p\<lparr>usesOutbox := True\<rparr>)"
| "pl_apply (WithConsistency policy pool) p =
     (if \<not> Transactional policy \<and> usesOutbox p then None
      else Some (if Transactional policy then p\<lparr>pl_tx := pool\<rparr> else p))"
| "pl_apply (UseBehaviors bs) p = Some (p\<lparr>extra := extra p @ bs\<rparr>)"

fun pl_build :: "('c, 'r, 's) pl_option list \<Rightarrow> ('c, 'r, 's) pipeline \<Rightarrow> ('c, 'r, 's) pipeline option" where
  "pl_build [] p = Some p"
| "pl_build (x # xs) p = Option.bind (pl_apply x p) (pl_build xs)"

definition Behaviors :: "code_registry \<Rightarrow> ('c \<Rightarrow> cmd_kind) \<Rightarrow> ('c, 'r, 's) pipeline \<Rightarrow> ('c, 'r, 's) behavior list" where
  "Behaviors reg kind p =
     [Tracing (pl_name p), Logging (pl_name p), Metrics (pl_name p)]
     @ (case pl_deadline p of Some (d, E) \<Rightarrow> if d > 0 then [Deadline E] else [] | None \<Rightarrow> [])
     @ [Validation reg kind]
     @ (case pl_authz p of Some policy \<Rightarrow> [authorize reg policy (pl_action p)] | None \<Rightarrow> [])
     @ (case pl_cache p of Some E \<Rightarrow> [CachingBehavior E] | None \<Rightarrow> [])
     @ (case pl_tx p of Some (b, k) \<Rightarrow> [cq_Transaction b k] | None \<Rightarrow> [])
     @ extra p"

definition pl_Decorate :: "code_registry \<Rightarrow> ('c \<Rightarrow> cmd_kind) \<Rightarrow> ('c, 'r, 's) pipeline \<Rightarrow> ('c, 'r, 's) cq_handler \<Rightarrow> ('c, 'r, 's) cq_handler" where
  "pl_Decorate reg kind p h = Decorate h (Behaviors reg kind p)"

section \<open>The builder\<close>

text \<open>The group of fields a builder call sets.\<close>

fun pl_axis :: "('c, 'r, 's) pl_option \<Rightarrow> nat" where
  "pl_axis (WithDeadline _ _) = 0"
| "pl_axis (WithAuthz _ _) = 1"
| "pl_axis (WithCache _) = 2"
| "pl_axis (WithTransaction _) = 3"
| "pl_axis (WithConsistency _ _) = 3"
| "pl_axis WithOutbox = 4"
| "pl_axis (UseBehaviors _) = 5"

fun pl_guarded :: "('c, 'r, 's) pl_option \<Rightarrow> bool" where
  "pl_guarded (WithConsistency policy _) = (\<not> Transactional policy)"
| "pl_guarded _ = False"

lemma pl_build_append: "pl_build (xs @ ys) p = Option.bind (pl_build xs p) (pl_build ys)"
  by (induction xs arbitrary: p) (auto split: bind_splits)

lemma pl_build_Cons_ext: "pl_build (x # xs) = (\<lambda>p. Option.bind (pl_apply x p) (pl_build xs))"
  by (rule ext) simp

lemma pl_apply_commute:
  assumes "pl_axis x \<noteq> pl_axis y" "\<not> (x = WithOutbox \<and> pl_guarded y)" "\<not> (y = WithOutbox \<and> pl_guarded x)"
  shows "Option.bind (pl_apply x p) (pl_apply y) = Option.bind (pl_apply y p) (pl_apply x)"
proof (cases x)
  case (WithDeadline d E)
  then show ?thesis using assms by (cases y) simp_all
next
  case (WithAuthz a b)
  then show ?thesis using assms by (cases y) simp_all
next
  case (WithCache a)
  then show ?thesis using assms by (cases y) simp_all
next
  case (WithTransaction a)
  then show ?thesis using assms by (cases y) simp_all
next
  case WithOutbox
  then show ?thesis using assms by (cases y) simp_all
next
  case (WithConsistency a b)
  then show ?thesis using assms by (cases y) simp_all
next
  case (UseBehaviors a)
  then show ?thesis using assms by (cases y) simp_all
qed

lemma pl_swap:
  assumes "pl_axis x \<noteq> pl_axis y" "\<not> (x = WithOutbox \<and> pl_guarded y)" "\<not> (y = WithOutbox \<and> pl_guarded x)"
  shows "pl_build (xs @ x # y # ys) p = pl_build (xs @ y # x # ys) p"
proof -
  have "Option.bind (pl_apply x q) (\<lambda>r. Option.bind (pl_apply y r) (pl_build ys))
      = Option.bind (pl_apply y q) (\<lambda>r. Option.bind (pl_apply x r) (pl_build ys))" for q
    using arg_cong [OF pl_apply_commute [OF assms, of q], of "\<lambda>z. Option.bind z (pl_build ys)"]
    by (simp add: bind_assoc)
  then show ?thesis
    by (cases "pl_build xs p") (simp_all add: pl_build_append pl_build_Cons_ext del: pl_build.simps(2))
qed

lemma pl_apply_name: "pl_apply x p = Some q \<Longrightarrow> pl_name q = pl_name p"
  by (cases x) (auto split: if_splits)

lemma pl_build_name: "pl_build xs p = Some q \<Longrightarrow> pl_name q = pl_name p"
  by (induction xs arbitrary: p) (auto simp: bind_eq_Some_conv dest: pl_apply_name)

section \<open>What the standard stack keeps of a handler\<close>

text \<open>The behaviours around the transaction, outermost first.\<close>

definition outer_stack :: "code_registry \<Rightarrow> ('c \<Rightarrow> cmd_kind) \<Rightarrow> ('c, 'r, 's) pipeline \<Rightarrow> ('c, 'r, 's) behavior list" where
  "outer_stack reg kind p =
     (case pl_deadline p of Some (d, E) \<Rightarrow> if d > 0 then [Deadline E] else [] | None \<Rightarrow> [])
     @ [Validation reg kind]
     @ (case pl_authz p of Some policy \<Rightarrow> [authorize reg policy (pl_action p)] | None \<Rightarrow> [])
     @ (case pl_cache p of Some E \<Rightarrow> [CachingBehavior E] | None \<Rightarrow> [])"

definition tx_stack :: "('c, 'r, 's) pipeline \<Rightarrow> ('c, 'r, 's) behavior list" where
  "tx_stack p = (case pl_tx p of Some (b, k) \<Rightarrow> [cq_Transaction b k] | None \<Rightarrow> [])"

lemma Decorate_simps [simp]:
  "Decorate h [] = h" "Decorate h (b # bs) = b (Decorate h bs)" "Decorate h (xs @ ys) = Decorate (Decorate h ys) xs"
  by (simp_all add: Decorate_def)

lemma pl_Decorate_stacks:
  "pl_Decorate reg kind p h =
     Tracing (pl_name p) (Logging (pl_name p) (Metrics (pl_name p)
       (Decorate (Decorate (Decorate h (extra p)) (tx_stack p)) (outer_stack reg kind p))))"
  by (simp add: pl_Decorate_def Behaviors_def outer_stack_def tx_stack_def)

text \<open>A property of handlers that the behaviours between the metrics and the transaction keep holds of the whole
  of them around such a handler.\<close>

locale kept_by_stack =
  fixes Q :: "('c, 'r, 's) cq_handler \<Rightarrow> bool"
  assumes deadline: "Q h \<Longrightarrow> Q (Deadline D h)"
    and validation: "Q h \<Longrightarrow> Q (Validation reg kind h)"
    and authz: "Q h \<Longrightarrow> Q (authorize reg policy action h)"
    and caching: "Q h \<Longrightarrow> Q (CachingBehavior E h)"
begin

lemma outer: "Q h \<Longrightarrow> Q (Decorate h (outer_stack reg kind p))"
  unfolding outer_stack_def
  by (auto intro!: deadline validation authz caching split: option.splits prod.splits)

end

definition appends_obs :: "('c, 'r, 's) cq_handler \<Rightarrow> bool" where
  "appends_obs h \<longleftrightarrow> (\<forall>ctx cmd w. \<exists>es. cq_obs (fst (h ctx cmd w)) = cq_obs w @ es)"

definition rolls_back :: "('c, 'r, 's) cq_handler \<Rightarrow> bool" where
  "rolls_back h \<longleftrightarrow> (\<forall>ctx cmd w. failed_outcome (snd (h ctx cmd w)) \<longrightarrow> cq_db (fst (h ctx cmd w)) = cq_db w)"

lemma fst_Deadline [simp]: "fst (Deadline D h ctx cmd w) = fst (h ctx cmd w)"
  by (auto simp: Deadline_def split: prod.splits cq_outcome.splits)

lemma failed_Deadline [simp]: "failed_outcome (snd (Deadline D h ctx cmd w)) = failed_outcome (snd (h ctx cmd w))"
  by (auto simp: Deadline_def split: prod.splits cq_outcome.splits)

text \<open>Each of these behaviours either answers by itself and leaves the world alone, or hands on the world of the
  handler and the kind of its outcome.\<close>

definition decides_or_passes :: "('c, 'r, 's) cq_handler \<Rightarrow> ('c, 'r, 's) cq_handler \<Rightarrow> bool" where
  "decides_or_passes h g \<longleftrightarrow> (\<forall>ctx cmd w. fst (g ctx cmd w) = w
     \<or> fst (g ctx cmd w) = fst (h ctx cmd w) \<and> failed_outcome (snd (g ctx cmd w)) = failed_outcome (snd (h ctx cmd w)))"

lemma stack_decides_or_passes:
  shows "decides_or_passes h (Deadline D h)" and "decides_or_passes h (Validation reg kind h)"
    and "decides_or_passes h (authorize reg policy action h)" and "decides_or_passes h (CachingBehavior E h)"
     apply (simp add: decides_or_passes_def)
    apply (auto simp: decides_or_passes_def Validation_def split: cmd_kind.splits option.splits)[1]
   apply (auto simp: decides_or_passes_def authorize_def split: option.splits)[1]
  apply (auto simp: decides_or_passes_def CachingBehavior_def Caching_def run_loader_def Let_def
      split: cache_answer.splits load_progress.splits sum.splits option.splits prod.splits cq_outcome.splits)
  done

lemma appends_obs_pass: "appends_obs h \<Longrightarrow> decides_or_passes h g \<Longrightarrow> appends_obs g"
  unfolding appends_obs_def decides_or_passes_def by (metis append_Nil2)

lemma rolls_back_pass: "rolls_back h \<Longrightarrow> decides_or_passes h g \<Longrightarrow> rolls_back g"
  unfolding rolls_back_def decides_or_passes_def by metis

interpretation obs_stack: kept_by_stack appends_obs
  by unfold_locales (erule appends_obs_pass, rule stack_decides_or_passes)+

interpretation db_stack: kept_by_stack rolls_back
  by unfold_locales (erule rolls_back_pass, rule stack_decides_or_passes)+

lemma tx_obs:
  "cq_obs (fst (cq_Transaction b k h ctx cmd w)) = cq_obs w
   \<or> cq_obs (fst (cq_Transaction b k h ctx cmd w)) = cq_obs (fst (h (ctx\<lparr>cq_tx := True\<rparr>) cmd w))"
  by (auto simp: cq_Transaction_def split: option.splits prod.splits cq_outcome.splits)

lemma appends_obs_tx: "appends_obs h \<Longrightarrow> appends_obs (cq_Transaction b k h)"
  unfolding appends_obs_def using tx_obs by (metis append_Nil2)

lemma rolls_back_tx: "rolls_back (cq_Transaction b k h)"
  unfolding rolls_back_def cq_Transaction_def
  by (auto split: option.splits prod.splits cq_outcome.splits)

lemma outer_stack_obs: "appends_obs h \<Longrightarrow> appends_obs (Decorate (Decorate h (tx_stack p)) (outer_stack reg kind p))"
  by (rule obs_stack.outer) (auto simp: tx_stack_def intro: appends_obs_tx split: option.splits)

lemma outer_stack_db: "pl_tx p \<noteq> None \<Longrightarrow> rolls_back (Decorate (Decorate h (tx_stack p)) (outer_stack reg kind p))"
  by (rule db_stack.outer) (auto simp: tx_stack_def intro: rolls_back_tx split: option.splits)

section \<open>Which calls reach the handler\<close>

definition passes_validation :: "('c \<Rightarrow> cmd_kind) \<Rightarrow> 'c \<Rightarrow> bool" where
  "passes_validation kind cmd = (case kind cmd of Validatable e \<Rightarrow> e = None | NotStruct \<Rightarrow> True | Struct e \<Rightarrow> e = None)"

definition passes_authz :: "('c, 'r, 's) pipeline \<Rightarrow> cq_ctx \<Rightarrow> 'c \<Rightarrow> bool" where
  "passes_authz p ctx cmd =
     (case pl_authz p of
        None \<Rightarrow> True
      | Some policy \<Rightarrow> (case cq_principal ctx of None \<Rightarrow> False | Some pr \<Rightarrow> policy pr (pl_action p) cmd = None))"

definition admits :: "('c \<Rightarrow> cmd_kind) \<Rightarrow> ('c, 'r, 's) pipeline \<Rightarrow> cq_ctx \<Rightarrow> 'c \<Rightarrow> bool" where
  "admits kind p ctx cmd \<longleftrightarrow> passes_validation kind cmd \<and> passes_authz p ctx cmd"

text \<open>The handler with every call that was not admitted, or that is outside the span or the transaction,
  answered by another one.\<close>

definition guarded_by :: "('c \<Rightarrow> cmd_kind) \<Rightarrow> ('c, 'r, 's) pipeline \<Rightarrow> ('c, 'r, 's) cq_handler \<Rightarrow> ('c, 'r, 's) cq_handler \<Rightarrow> ('c, 'r, 's) cq_handler" where
  "guarded_by kind p alt h ctx cmd w =
     (if admits kind p ctx cmd \<and> cq_span ctx \<and> (pl_tx p \<noteq> None \<longrightarrow> cq_tx ctx) then h ctx cmd w else alt ctx cmd w)"

lemma outer_refused:
  assumes "\<not> admits kind p ctx cmd"
  shows "\<exists>e. Decorate h (outer_stack reg kind p) ctx cmd w = (w, Err e)"
  using assms
  by (auto simp: outer_stack_def admits_def passes_validation_def passes_authz_def Deadline_def Validation_def authorize_def
      split: option.splits prod.splits cmd_kind.splits if_splits)

lemma Deadline_cong: "f ctx cmd w = g ctx cmd w \<Longrightarrow> Deadline D f ctx cmd w = Deadline D g ctx cmd w"
  by (simp add: Deadline_def)

lemma Caching_cong:
  assumes "f ctx cmd w = g ctx cmd w"
  shows "CachingBehavior E f ctx cmd w = CachingBehavior E g ctx cmd w"
  unfolding CachingBehavior_def Caching_def run_loader_def assms ..

lemma outer_cong:
  assumes "admits kind p ctx cmd \<Longrightarrow> f ctx cmd w = g ctx cmd w"
  shows "Decorate f (outer_stack reg kind p) ctx cmd w = Decorate g (outer_stack reg kind p) ctx cmd w"
  using assms
  by (auto simp: outer_stack_def admits_def passes_validation_def passes_authz_def Validation_def authorize_def
      intro!: Deadline_cong Caching_cong split: option.splits prod.splits cmd_kind.splits if_splits)

lemma stack_guarded:
  assumes "cq_span ctx"
  shows "Decorate (Decorate f (tx_stack p)) (outer_stack reg kind p) ctx cmd w
       = Decorate (Decorate (guarded_by kind p alt f) (tx_stack p)) (outer_stack reg kind p) ctx cmd w"
proof (rule outer_cong)
  assume *: "admits kind p ctx cmd"
  have "admits kind p (ctx\<lparr>cq_tx := True\<rparr>) cmd" using * by (simp add: admits_def passes_authz_def split: option.splits)
  then show "Decorate f (tx_stack p) ctx cmd w = Decorate (guarded_by kind p alt f) (tx_stack p) ctx cmd w"
    using * assms by (auto simp: tx_stack_def guarded_by_def cq_Transaction_def split: option.splits)
qed

lemma admits_span [simp]: "admits kind p (ctx\<lparr>cq_span := b\<rparr>) cmd = admits kind p ctx cmd"
  by (simp add: admits_def passes_authz_def split: option.splits)

lemma pl_Decorate_run:
  "pl_Decorate reg kind p h ctx cmd w =
     (case Decorate (Decorate (Decorate h (extra p)) (tx_stack p)) (outer_stack reg kind p) (ctx\<lparr>cq_span := True\<rparr>) cmd
             (note_event (LogLine (pl_name p) ''handler started'' True) (note_event (SpanStart (pl_name p)) w)) of
        (w1, res) \<Rightarrow>
          (note_event (SpanEnd (pl_name p) (failed_outcome res))
            (note_event (LogLine (pl_name p) (log_text res) True)
              (note_event (Metric (pl_name p) (metric_status res)) w1)), res))"
  by (simp add: pl_Decorate_stacks Tracing_def Logging_def Metrics_def split: prod.splits)

lemma note_event_simps [simp]:
  "cq_db (note_event e w) = cq_db w" "cq_obs (note_event e w) = cq_obs w @ [e]"
  by (simp_all add: note_event_def)

text \<open>C12. Whatever the calls of the builder, the pipeline they build guards its handler. The handler and the behaviours
  given to \<open>Use\<close> only ever run inside the span, inside the transaction when there is a pool, and for a command that
  passed validation and, when there is a policy, whose principal the policy admits: replacing them by anything else
  on all other calls changes nothing. A command that is refused ends with an error and leaves the database alone. With
  a pool, a run that ends with an error or a panic leaves the database as it was. And when the handler only adds to the
  telemetry, every run, refused and panicking ones included, is one span that is opened first and closed last, marked
  as failed exactly when the run failed, with a start and an end line logged inside it and one metric.\<close>

theorem pipeline_guards:
  assumes "pl_build opts (StandardPipeline name) = Some p"
  shows "pl_Decorate reg kind p h ctx cmd w
           = pl_Decorate reg kind (p\<lparr>extra := []\<rparr>) (guarded_by kind p alt (Decorate h (extra p))) ctx cmd w
    \<and> (\<not> admits kind p ctx cmd \<longrightarrow>
         (\<exists>e. snd (pl_Decorate reg kind p h ctx cmd w) = Err e) \<and> cq_db (fst (pl_Decorate reg kind p h ctx cmd w)) = cq_db w)
    \<and> (pl_tx p \<noteq> None \<and> failed_outcome (snd (pl_Decorate reg kind p h ctx cmd w)) \<longrightarrow>
         cq_db (fst (pl_Decorate reg kind p h ctx cmd w)) = cq_db w)
    \<and> (appends_obs (Decorate h (extra p)) \<longrightarrow>
         (case pl_Decorate reg kind p h ctx cmd w of
            (w1, res) \<Rightarrow> \<exists>mid. cq_obs w1 = cq_obs w @ [SpanStart name, LogLine name ''handler started'' True] @ mid
              @ [Metric name (metric_status res), LogLine name (log_text res) True, SpanEnd name (failed_outcome res)]))"
    (is "?A \<and> ?B \<and> ?C \<and> ?D")
proof (intro conjI)
  have nm: "pl_name p = name" using pl_build_name [OF assms] by (simp add: StandardPipeline_def)
  have tx0: "tx_stack (p\<lparr>extra := []\<rparr>) = tx_stack p" and out0: "outer_stack reg kind (p\<lparr>extra := []\<rparr>) = outer_stack reg kind p"
    by (simp_all add: tx_stack_def outer_stack_def split: option.splits)
  let ?h = "Decorate h (extra p)"
  let ?w = "note_event (LogLine name ''handler started'' True) (note_event (SpanStart name) w)"
  let ?inner = "\<lambda>f. Decorate (Decorate f (tx_stack p)) (outer_stack reg kind p) (ctx\<lparr>cq_span := True\<rparr>) cmd ?w"
  have "?inner ?h = ?inner (guarded_by kind p alt ?h)" by (rule stack_guarded) simp
  then show ?A by (simp add: pl_Decorate_run tx0 out0 nm)
  show ?B
  proof
    assume "\<not> admits kind p ctx cmd"
    then obtain e where "?inner ?h = (?w, Err e)" using outer_refused [of kind p "ctx\<lparr>cq_span := True\<rparr>"] by fastforce
    then show "(\<exists>e. snd (pl_Decorate reg kind p h ctx cmd w) = Err e) \<and> cq_db (fst (pl_Decorate reg kind p h ctx cmd w)) = cq_db w"
      by (simp add: pl_Decorate_run nm)
  qed
  show ?C
    using outer_stack_db [of p ?h reg kind] nm unfolding rolls_back_def
    by (simp add: pl_Decorate_run split: prod.splits) (metis fst_conv snd_conv note_event_simps(1))
  show ?D
  proof
    assume "appends_obs ?h"
    then obtain mid where "cq_obs (fst (?inner ?h)) = cq_obs ?w @ mid"
      using outer_stack_obs [of ?h p reg kind] unfolding appends_obs_def by metis
    then show "case pl_Decorate reg kind p h ctx cmd w of
        (w1, res) \<Rightarrow> \<exists>mid. cq_obs w1 = cq_obs w @ [SpanStart name, LogLine name ''handler started'' True] @ mid
          @ [Metric name (metric_status res), LogLine name (log_text res) True, SpanEnd name (failed_outcome res)]"
      by (auto simp: pl_Decorate_run nm split: prod.splits)
  qed
qed

text \<open>A pipeline with a policy and a pool, around a handler that writes and then panics: a principal without the role is
  refused before the handler, and for one with it the write is rolled back and the panic reported.\<close>

definition demo_opts :: "(nat, nat, nat) pl_option list" where
  "demo_opts = [WithTransaction (Some (None, None)),
     WithAuthz (Some (\<lambda>pr action cmd. if ''admin'' \<in> set (p_roles pr) then None else Some (ErrText ''forbidden''))) ''pay'']"

definition demo_pl_handler :: "(nat, nat, nat) cq_handler" where
  "demo_pl_handler ctx cmd w = (note_event (LogLine ''h'' ''writing'' (cq_span ctx)) w\<lparr>cq_db := cmd\<rparr>, Panic ''boom'')"

definition demo_ctx :: "string list \<Rightarrow> cq_ctx" where
  "demo_ctx roles = \<lparr>cq_principal = Some \<lparr>p_subject = ''u'', p_username = ''u'', p_roles = roles\<rparr>, cq_span = False, cq_tx = False\<rparr>"

definition demo_pipeline :: "(nat, nat, nat) pipeline" where
  "demo_pipeline = the (pl_build demo_opts (StandardPipeline ''Pay''))"

lemma demo_pipeline: "pl_build demo_opts (StandardPipeline ''Pay'') = Some demo_pipeline"
  by (simp add: demo_pipeline_def demo_opts_def StandardPipeline_def)

lemmas demo_defs = demo_pipeline_def demo_opts_def StandardPipeline_def demo_ctx_def demo_pl_handler_def
  admits_def passes_validation_def passes_authz_def

theorem pipeline_guards_witness:
  "cq_db (fst (pl_Decorate (\<lambda>_. None) (\<lambda>_. NotStruct) demo_pipeline demo_pl_handler (demo_ctx []) 7 \<lparr>cq_obs = [], cq_db = 5\<rparr>)) = 5
   \<and> cq_db (fst (pl_Decorate (\<lambda>_. None) (\<lambda>_. NotStruct) demo_pipeline demo_pl_handler (demo_ctx [''admin'']) 7 \<lparr>cq_obs = [], cq_db = 5\<rparr>)) = 5
   \<and> (case pl_Decorate (\<lambda>_. None) (\<lambda>_. NotStruct) demo_pipeline demo_pl_handler (demo_ctx [''admin'']) 7 \<lparr>cq_obs = [], cq_db = 5\<rparr> of
        (w1, res) \<Rightarrow> res = Panic ''boom'' \<and> length (cq_obs w1) = 6 \<and> last (cq_obs w1) = SpanEnd ''Pay'' True)"
proof -
  let ?run = "\<lambda>roles. pl_Decorate (\<lambda>_. None) (\<lambda>_. NotStruct) demo_pipeline demo_pl_handler (demo_ctx roles) 7 \<lparr>cq_obs = [], cq_db = 5\<rparr>"
  note G = pipeline_guards [OF demo_pipeline, of "\<lambda>_. None" "\<lambda>_. NotStruct" demo_pl_handler _ 7 "\<lparr>cq_obs = [], cq_db = 5\<rparr>" demo_pl_handler]
  have "\<not> admits (\<lambda>_. NotStruct) demo_pipeline (demo_ctx []) 7" by (simp add: demo_defs)
  then have 1: "cq_db (fst (?run [])) = 5" using G [of "demo_ctx []", THEN conjunct2, THEN conjunct1] by simp
  have r: "?run [''admin''] = (\<lparr>cq_obs = [SpanStart ''Pay'', LogLine ''Pay'' ''handler started'' True, LogLine ''h'' ''writing'' True,
      Metric ''Pay'' ''panic'', LogLine ''Pay'' ''handler panicked'' True, SpanEnd ''Pay'' True], cq_db = 5\<rparr>, Panic ''boom'')"
    by (simp add: pl_Decorate_run demo_defs outer_stack_def tx_stack_def Validation_def authorize_def cq_Transaction_def note_event_def)
  have "pl_tx demo_pipeline \<noteq> None" by (simp add: demo_defs)
  then have 2: "cq_db (fst (?run [''admin''])) = 5" using G [of "demo_ctx [''admin'']", THEN conjunct2, THEN conjunct2, THEN conjunct1] r by simp
  show ?thesis using 1 2 by (simp add: r)
qed

section \<open>Where the builder and the cache do less than their comments say\<close>

text \<open>The guard of \<open>WithConsistency\<close> looks at the calls made so far: before \<open>WithOutbox\<close> the combination it is there to
  refuse is built, without a transaction.\<close>

lemma consistency_guard_order:
  assumes "\<not> Transactional policy"
  shows "pl_build [WithOutbox, WithConsistency policy pool] (StandardPipeline name) = None"
    and "\<exists>p. pl_build [WithConsistency policy pool, WithOutbox] (StandardPipeline name) = Some p
          \<and> usesOutbox p \<and> pl_tx p = None \<and> Behaviors reg kind p = Behaviors reg kind (StandardPipeline name)"
  using assms by (simp_all add: StandardPipeline_def Behaviors_def)

text \<open>A policy that is not transactional leaves a transaction set before in place.\<close>

lemma consistency_keeps_tx:
  assumes "\<not> Transactional policy"
  shows "\<exists>p. pl_build [WithTransaction (Some pool), WithConsistency policy pool'] (StandardPipeline name) = Some p
          \<and> pl_tx p = Some pool"
  using assms by (simp add: StandardPipeline_def)

text \<open>Axes that are not the guarded pair can be set in any order; the list of behaviours is the same.\<close>

lemma canonical_order:
  assumes "pl_axis x \<noteq> pl_axis y" "\<not> (x = WithOutbox \<and> pl_guarded y)" "\<not> (y = WithOutbox \<and> pl_guarded x)"
  shows "map_option (Behaviors reg kind) (pl_build (xs @ x # y # ys) (StandardPipeline name))
       = map_option (Behaviors reg kind) (pl_build (xs @ y # x # ys) (StandardPipeline name))"
  by (simp only: pl_swap [OF assms])

text \<open>A query whose context ends while its own load is under way answers with the zero result and no error, also
  when that end is the deadline of the pipeline, which then has no error to report.\<close>

lemma cancelled_query_answers_zero:
  assumes "answer E = CallerGone e Running" "passes_validation kind cmd"
  shows "\<exists>p. pl_build [WithDeadline d D, WithCache (Some E)] (StandardPipeline name) = Some p
          \<and> snd (pl_Decorate reg kind p h ctx cmd w) = Ret (zero_res E)"
  using assms
  by (auto simp: StandardPipeline_def pl_Decorate_run outer_stack_def tx_stack_def Deadline_def Validation_def
      CachingBehavior_def Caching_def passes_validation_def split: cmd_kind.splits option.splits)

text \<open>In every other case the answer of a cached query is the handler's, the shared answer of another call, or a value the
  codec reads back, and it stores what it marshalled under the key of the command only.\<close>

lemma caching_answers:
  assumes "\<And>e. answer E \<noteq> CallerGone e Running" "Caching E h ctx cmd w = (w1, Ret r, sets)"
  shows "snd (h ctx cmd w) = Ret r \<or> (\<exists>raw. unmarshal E raw = Some r \<and>
           (answer E = CacheHit raw \<or> answer E = Shared (Inr raw) \<or> (\<exists>r0. snd (h ctx cmd w) = Ret r0 \<and> marshal E r0 = Some raw)))"
    and "\<forall>(k, raw) \<in> set sets. k = keyFor E cmd \<and> (\<exists>r0. snd (h ctx cmd w) = Ret r0 \<and> marshal E r0 = Some raw)"
  using assms
  by (auto simp: Caching_def run_loader_def Let_def
      split: cache_answer.splits load_progress.splits sum.splits option.splits prod.splits cq_outcome.splits)

end
