(* ===== verification/Lifecycle.thy ===== *)
theory Lifecycle
  imports Retry_Topics Consume "HOL-Library.Multiset"
begin

text \<open>
  The life of a service: \<open>run/closer.go\<close> (teardown callbacks, last registered first), \<open>servicekit\<close> (\<open>New\<close>, the
  registration of consumers, relays, workers and HTTP servers, \<open>Start\<close>, \<open>Stop\<close> and \<open>runMain\<close>) and the readiness
  probe of \<open>observability/health\<close>. Time is a number of nanoseconds that teardown steps consume; how long each takes,
  which calls of other packages fail and how fast a cancelled goroutine returns are arguments.
\<close>

section \<open>run/closer.go\<close>

type_synonym 'w teardown_fn = "'w \<Rightarrow> 'w \<times> go_err option"

record 'w closer =
  cl_items :: "(string \<times> 'w teardown_fn) list"
  cl_closed :: bool

definition NewCloser :: "'w closer" where
  "NewCloser = \<lparr>cl_items = [], cl_closed = False\<rparr>"

definition closer_Add :: "string \<Rightarrow> 'w teardown_fn \<Rightarrow> 'w closer \<times> 'w \<Rightarrow> 'w closer \<times> 'w" where
  "closer_Add name f s =
     (case s of (c, w) \<Rightarrow>
        if cl_closed c then (c, fst (f w)) else (c\<lparr>cl_items := cl_items c @ [(name, f)]\<rparr>, w))"

text \<open>\<open>ctxErr\<close> is \<open>ctx.Err()\<close>, read before every callback.\<close>

fun close_items :: "('w \<Rightarrow> go_err option) \<Rightarrow> bool \<Rightarrow> (string \<times> 'w teardown_fn) list \<Rightarrow> 'w \<Rightarrow> 'w \<times> go_err list" where
  "close_items ctxErr noted [] w = (w, [])"
| "close_items ctxErr noted ((name, f) # rest) w =
     (let budget = (case ctxErr w of
                      Some e \<Rightarrow> if noted then [] else [ErrWrap (''run: teardown budget exhausted before '' @ name) e]
                    | None \<Rightarrow> [])
      in case f w of (w1, r) \<Rightarrow>
           (case close_items ctxErr (noted \<or> ctxErr w \<noteq> None) rest w1 of (w2, errs) \<Rightarrow>
              (w2, budget @ (case r of Some e \<Rightarrow> [ErrWrap name e] | None \<Rightarrow> []) @ errs)))"

definition closer_Close :: "('w \<Rightarrow> go_err option) \<Rightarrow> 'w closer \<times> 'w \<Rightarrow> ('w closer \<times> 'w) \<times> go_err list" where
  "closer_Close ctxErr s =
     (case s of (c, w) \<Rightarrow>
        if cl_closed c then ((c, w), [])
        else case close_items ctxErr False (rev (cl_items c)) w of
               (w1, errs) \<Rightarrow> ((\<lparr>cl_items = [], cl_closed = True\<rparr>, w1), errs))"

section \<open>servicekit: the service and its registrations\<close>

datatype teardown =
    TdAdminServer | TdLogSync | TdTelemetry | TdPyroscope | TdPg | TdKafkaProducer
  | TdConsumer string | TdRetryConsumer string | TdAuditAdminPool | TdService string
  | TdConsumersCancel | TdHttpServer string | TdDrainGate

fun td_name :: "teardown \<Rightarrow> string" where
  "td_name TdAdminServer = ''admin-server''"
| "td_name TdLogSync = ''log-sync''"
| "td_name TdTelemetry = ''telemetry''"
| "td_name TdPyroscope = ''pyroscope''"
| "td_name TdPg = ''pg''"
| "td_name TdKafkaProducer = ''kafka-producer''"
| "td_name (TdConsumer g) = ''kafka-consumer-'' @ g"
| "td_name (TdRetryConsumer g) = ''retry-consumer-'' @ g"
| "td_name TdAuditAdminPool = ''audit-admin-pool''"
| "td_name (TdService n) = n"
| "td_name TdConsumersCancel = ''consumers-cancel''"
| "td_name (TdHttpServer n) = ''http-server-'' @ n"
| "td_name TdDrainGate = ''drain-gate''"

datatype goroutine =
    GWorker string
  | GPeriodic string int int bool
  | GConsumer string "string list"
  | GBatchConsumer string "string list"
  | GRetryConsumer string "string list"
  | GRelay nat nat "nat option" bool string
  | GCleaner nat int int
  | GAuditWriter
  | GAuditDrain nat string int

record svc_cfg =
  withoutPG :: bool
  withoutKafka :: bool
  production :: bool
  InboxRetention :: int
  TopicRetention :: int
  InboxCleanupInterval :: int
  PyroscopeAddr :: string
  SerdeSRURL :: string
  MigrateOnStart :: bool
  pgShards :: nat
  EnsureTopicsOn :: bool
  AuditAdminURL :: string
  AdminBindOptional :: bool
  DrainGrace :: int

text \<open>What the calls of other packages answer.\<close>

record svc_env =
  en_telemetry :: "go_err option"
  en_pyroscope :: "go_err option"
  en_pg :: "go_err option"
  en_migrate :: "go_err option"
  en_kafka :: "go_err option"
  en_serde :: "go_err option"
  en_topics :: "string list \<Rightarrow> go_err option"
  en_consumer :: "string \<Rightarrow> go_err option"
  en_retry :: "string \<Rightarrow> go_err option"
  en_admin_pool :: "go_err option"
  en_schema :: "string \<Rightarrow> string \<Rightarrow> go_err option"

record service =
  sv_cfg :: svc_cfg
  sv_closers :: "teardown list"
  sv_pg :: bool
  sv_kafka :: bool
  sv_serde :: bool
  sv_goroutines :: "goroutine list"
  sv_servers :: "string list"
  sv_topics :: "string list"
  sv_started :: bool

definition RetentionInvariantViolated :: "svc_cfg \<Rightarrow> bool" where
  "RetentionInvariantViolated cfg \<longleftrightarrow> 0 < TopicRetention cfg \<and> InboxRetention cfg < TopicRetention cfg"

definition check_err :: "bool \<Rightarrow> go_err option \<Rightarrow> go_err option" where
  "check_err on r = (if on then r else None)"

definition svc_New :: "svc_env \<Rightarrow> bool \<Rightarrow> svc_cfg \<Rightarrow> (go_err, service) result" where
  "svc_New E migrations cfg =
     (if RetentionInvariantViolated cfg \<and> production cfg
      then Inl (ErrText ''servicekit: INBOX_RETENTION is shorter than TOPIC_RETENTION in production'')
      else case en_telemetry E of Some e \<Rightarrow> Inl e | None \<Rightarrow>
        (let pyro = PyroscopeAddr cfg \<noteq> []; pg = \<not> withoutPG cfg; kafka = \<not> withoutKafka cfg;
             sr = SerdeSRURL cfg \<noteq> [];
             cl0 = [TdAdminServer, TdLogSync, TdTelemetry];
             cl1 = cl0 @ (if pyro then [TdPyroscope] else []);
             cl2 = cl1 @ (if pg then [TdPg] else []);
             cl3 = cl2 @ (if kafka then [TdKafkaProducer] else [])
         in case check_err pyro (en_pyroscope E) of
              Some e \<Rightarrow> Inl (ErrWrap ''servicekit: starting pyroscope profiler'' e)
            | None \<Rightarrow> (case check_err pg (en_pg E) of Some e \<Rightarrow> Inl e | None \<Rightarrow>
               (case check_err (pg \<and> MigrateOnStart cfg \<and> migrations) (en_migrate E) of Some e \<Rightarrow> Inl e | None \<Rightarrow>
                 (case check_err kafka (en_kafka E) of Some e \<Rightarrow> Inl e | None \<Rightarrow>
                   (case check_err sr (en_serde E) of Some e \<Rightarrow> Inl e | None \<Rightarrow>
                      Inr \<lparr>sv_cfg = cfg, sv_closers = cl3, sv_pg = pg, sv_kafka = kafka, sv_serde = sr,
                           sv_goroutines = [], sv_servers = [], sv_topics = [], sv_started = False\<rparr>))))))"

definition add_goroutine :: "goroutine \<Rightarrow> service \<Rightarrow> service" where
  "add_goroutine g s = s\<lparr>sv_goroutines := sv_goroutines s @ [g]\<rparr>"

definition add_closer :: "teardown \<Rightarrow> service \<Rightarrow> service" where
  "add_closer td s = s\<lparr>sv_closers := sv_closers s @ [td]\<rparr>"

definition errNoKafka :: "string \<Rightarrow> go_err" where
  "errNoKafka m = ErrText (''servicekit: '' @ m @ '' requires kafka, but the service was built with WithoutKafka()'')"

definition svc_EnsureTopics :: "svc_env \<Rightarrow> string list \<Rightarrow> service \<Rightarrow> service \<times> go_err option" where
  "svc_EnsureTopics E topics s =
     (if \<not> EnsureTopicsOn (sv_cfg s) then (s, None)
      else if \<not> sv_kafka s then (s, Some (errNoKafka ''EnsureTopics''))
      else case en_topics E topics of
             Some e \<Rightarrow> (s, Some e)
           | None \<Rightarrow> (s\<lparr>sv_topics := sv_topics s @ topics\<rparr>, None))"

definition svc_AddWorker :: "string \<Rightarrow> service \<Rightarrow> service \<times> go_err option" where
  "svc_AddWorker name s =
     (if sv_started s then (s, Some (ErrText (''servicekit: AddWorker '' @ name @ '' called after Start'')))
      else (add_goroutine (GWorker name) s, None))"

definition svc_AddHTTPServer :: "string \<Rightarrow> service \<Rightarrow> service \<times> go_err option" where
  "svc_AddHTTPServer name s = (s\<lparr>sv_servers := sv_servers s @ [name]\<rparr>, None)"

definition svc_AddPeriodicWorker :: "string \<Rightarrow> int \<Rightarrow> int \<Rightarrow> bool \<Rightarrow> service \<Rightarrow> service \<times> go_err option" where
  "svc_AddPeriodicWorker name interval jitter singleActive s =
     (if sv_started s then (s, Some (ErrText (''servicekit: AddPeriodicWorker '' @ name @ '' called after Start'')))
      else if interval \<le> 0 then (s, Some (ErrText (''servicekit: AddPeriodicWorker '' @ name @ '': interval must be positive'')))
      else if singleActive \<and> \<not> sv_pg s
        then (s, Some (ErrText ''servicekit: AddPeriodicWorker with singleActive requires postgres''))
      else (add_goroutine (GPeriodic name interval jitter singleActive) s, None))"

text \<open>\<open>AddConsumer\<close> and \<open>AddBatchConsumer\<close> differ in the loop their goroutine runs.\<close>

definition add_consumer :: "svc_env \<Rightarrow> string \<Rightarrow> goroutine \<Rightarrow> string \<Rightarrow> string list \<Rightarrow> service \<Rightarrow> service \<times> go_err option" where
  "add_consumer E m g groupID topics s =
     (if \<not> sv_kafka s then (s, Some (errNoKafka m))
      else case svc_EnsureTopics E (topics @ map (\<lambda>t. t @ ''.DLT'') topics) s of
             (s1, Some e) \<Rightarrow> (s1, Some e)
           | (s1, None) \<Rightarrow>
               (case en_consumer E groupID of
                  Some e \<Rightarrow> (s1, Some e)
                | None \<Rightarrow> (add_goroutine g (add_closer (TdConsumer groupID) s1), None)))"

definition svc_AddConsumer :: "svc_env \<Rightarrow> string \<Rightarrow> string list \<Rightarrow> service \<Rightarrow> service \<times> go_err option" where
  "svc_AddConsumer E groupID topics = add_consumer E ''AddConsumer'' (GConsumer groupID topics) groupID topics"

definition svc_AddBatchConsumer :: "svc_env \<Rightarrow> string \<Rightarrow> string list \<Rightarrow> service \<Rightarrow> service \<times> go_err option" where
  "svc_AddBatchConsumer E groupID topics = add_consumer E ''AddBatchConsumer'' (GBatchConsumer groupID topics) groupID topics"

definition retry_topics :: "policy \<Rightarrow> string list \<Rightarrow> string list" where
  "retry_topics pol topics =
     topics @ concat (map (\<lambda>base. map (\<lambda>i. TierTopic base (int i)) [0..<length (Tiers pol)] @ [DLTTopic base]) topics)"

definition svc_AddConsumerWithRetry :: "svc_env \<Rightarrow> string \<Rightarrow> string list \<Rightarrow> policy \<Rightarrow> service \<Rightarrow> service \<times> go_err option" where
  "svc_AddConsumerWithRetry E groupID topics pol s =
     (if \<not> sv_kafka s then (s, Some (errNoKafka ''AddConsumerWithRetry''))
      else case svc_EnsureTopics E (retry_topics pol topics) s of
             (s1, Some e) \<Rightarrow> (s1, Some e)
           | (s1, None) \<Rightarrow>
               (case en_consumer E groupID of
                  Some e \<Rightarrow> (s1, Some e)
                | None \<Rightarrow>
                    (let s2 = add_goroutine (GConsumer groupID topics) (add_closer (TdConsumer groupID) s1)
                     in case en_retry E (groupID @ ''.retry'') of
                          Some e \<Rightarrow> (s2, Some e)
                        | None \<Rightarrow> (add_goroutine (GRetryConsumer (groupID @ ''.retry'') topics)
                                     (add_closer (TdRetryConsumer groupID) s2), None))))"

record relay_cfg =
  rc_Shards :: int
  rc_SingleActive :: bool
  rc_Retention :: int
  rc_CleanupInterval :: int

definition relay_fleet :: "relay_cfg \<Rightarrow> nat \<Rightarrow> nat \<Rightarrow> goroutine list" where
  "relay_fleet cfg physical pIdx =
     (let shards = (if rc_Shards cfg < 1 then 1 else nat (rc_Shards cfg));
          suffix = (if 1 < physical then '':pshard:'' @ itoa (int pIdx) else []);
          retention = (if rc_Retention cfg = 0 then 86400000000000 else rc_Retention cfg);
          interval = (if rc_CleanupInterval cfg = 0 then 3600000000000 else rc_CleanupInterval cfg)
      in map (\<lambda>i. if 1 < shards then GRelay pIdx i (Some shards) True suffix
                  else GRelay pIdx i None (rc_SingleActive cfg) suffix) [0..<shards]
         @ [GCleaner pIdx interval retention])"

definition svc_AddOutboxRelay :: "relay_cfg \<Rightarrow> service \<Rightarrow> service \<times> go_err option" where
  "svc_AddOutboxRelay cfg s =
     (if \<not> sv_pg s then (s, Some (ErrText ''servicekit: AddOutboxRelay requires postgres''))
      else (let m = pgShards (sv_cfg s)
            in (s\<lparr>sv_goroutines := sv_goroutines s @ concat (map (relay_fleet cfg m) [0..<m])\<rparr>, None)))"

definition svc_AddAuditWriter :: "service \<Rightarrow> service \<times> go_err option" where
  "svc_AddAuditWriter s =
     (if sv_started s then (s, Some (ErrText ''servicekit: AddAuditWriter called after Start''))
      else (add_goroutine GAuditWriter s, None))"

definition svc_AddAuditDrain :: "int \<Rightarrow> service \<Rightarrow> service \<times> go_err option" where
  "svc_AddAuditDrain interval s =
     (if interval \<le> 0 then (s, None)
      else if sv_started s then (s, Some (ErrText ''servicekit: AddAuditDrain called after Start''))
      else if \<not> sv_pg s then (s, Some (ErrText ''servicekit: AddAuditDrain requires postgres''))
      else (let m = pgShards (sv_cfg s)
            in (s\<lparr>sv_goroutines := sv_goroutines s @
                  map (\<lambda>i. GAuditDrain i (if 1 < m then ''audit_drain:pshard:'' @ itoa (int i) else ''audit_drain'') interval) [0..<m]\<rparr>, None)))"

text \<open>The error of \<open>AddPeriodicWorker\<close> is dropped here and in \<open>registerInboxCleanup\<close>.\<close>

definition svc_AddAuditCleanup :: "svc_env \<Rightarrow> int \<Rightarrow> service \<Rightarrow> service \<times> go_err option" where
  "svc_AddAuditCleanup E interval s =
     (if interval \<le> 0 then (s, None)
      else (let s1 = (if AuditAdminURL (sv_cfg s) \<noteq> [] \<and> en_admin_pool E = None then add_closer TdAuditAdminPool s else s)
            in (fst (svc_AddPeriodicWorker ''audit-cleanup'' interval 0 False s1), None)))"

definition registerInboxCleanup :: "service \<Rightarrow> service" where
  "registerInboxCleanup s =
     (if InboxCleanupInterval (sv_cfg s) \<le> 0 \<or> \<not> sv_pg s then s
      else fst (svc_AddPeriodicWorker ''inbox-cleanup'' (InboxCleanupInterval (sv_cfg s)) 0 False s))"

text \<open>\<open>AddOutboxPartitionMaintenance\<close>: hours in nanoseconds, the division of \<open>time.Duration\<close> truncates.\<close>

definition quot_int :: "int \<Rightarrow> int \<Rightarrow> int" where
  "quot_int x k = (if x < 0 then - ((- x) div k) else x div k)"

definition partition_cadence :: "int \<Rightarrow> int" where
  "partition_cadence interval =
     (let c0 = quot_int interval 4;
          c1 = (if 86400000000000 < c0 then 86400000000000 else c0);
          c2 = (if c1 < 3600000000000 then 3600000000000 else c1)
      in if 0 < interval \<and> interval < c2 then interval else c2)"

definition svc_AddOutboxPartitionMaintenance :: "bool \<Rightarrow> int \<Rightarrow> service \<Rightarrow> service \<times> go_err option" where
  "svc_AddOutboxPartitionMaintenance partitioned interval s =
     (if \<not> partitioned then (s, None)
      else if \<not> sv_pg s then (s, Some (ErrText ''servicekit: AddOutboxPartitionMaintenance requires postgres''))
      else svc_AddPeriodicWorker ''outbox-partition-maintenance'' (partition_cadence interval)
             (quot_int (partition_cadence interval) 10) True s)"

definition svc_RegisterSchema :: "svc_env \<Rightarrow> string \<Rightarrow> string \<Rightarrow> service \<Rightarrow> service \<times> go_err option" where
  "svc_RegisterSchema E topic eventType s =
     (if \<not> sv_serde s then (s, None)
      else (s, map_option (ErrWrap (''servicekit: register schema for '' @ eventType @ '' on '' @ topic)) (en_schema E (topic @ ''-value'') eventType)))"

definition svc_CloserAdd :: "string \<Rightarrow> service \<Rightarrow> service \<times> go_err option" where
  "svc_CloserAdd name s = (add_closer (TdService name) s, None)"

text \<open>A service's \<open>NewApp\<close>: \<open>New\<close>, then registrations up to the first that fails.\<close>

datatype svc_op =
    OpEnsureTopics "string list"
  | OpWorker string
  | OpHTTPServer string
  | OpPeriodic string int int bool
  | OpConsumer string "string list"
  | OpBatchConsumer string "string list"
  | OpConsumerWithRetry string "string list" policy
  | OpOutboxRelay relay_cfg
  | OpAuditWriter
  | OpAuditDrain int
  | OpAuditCleanup int
  | OpPartitionMaintenance bool int
  | OpCloser string
  | OpRegisterSchema string string

fun svc_do :: "svc_env \<Rightarrow> svc_op \<Rightarrow> service \<Rightarrow> service \<times> go_err option" where
  "svc_do E (OpEnsureTopics ts) = svc_EnsureTopics E ts"
| "svc_do E (OpWorker n) = svc_AddWorker n"
| "svc_do E (OpHTTPServer n) = svc_AddHTTPServer n"
| "svc_do E (OpPeriodic n i j a) = svc_AddPeriodicWorker n i j a"
| "svc_do E (OpConsumer g ts) = svc_AddConsumer E g ts"
| "svc_do E (OpBatchConsumer g ts) = svc_AddBatchConsumer E g ts"
| "svc_do E (OpConsumerWithRetry g ts pol) = svc_AddConsumerWithRetry E g ts pol"
| "svc_do E (OpOutboxRelay c) = svc_AddOutboxRelay c"
| "svc_do E OpAuditWriter = svc_AddAuditWriter"
| "svc_do E (OpAuditDrain i) = svc_AddAuditDrain i"
| "svc_do E (OpAuditCleanup i) = svc_AddAuditCleanup E i"
| "svc_do E (OpPartitionMaintenance on i) = svc_AddOutboxPartitionMaintenance on i"
| "svc_do E (OpCloser n) = svc_CloserAdd n"
| "svc_do E (OpRegisterSchema topic et) = svc_RegisterSchema E topic et"

fun svc_ops :: "svc_env \<Rightarrow> svc_op list \<Rightarrow> service \<Rightarrow> (go_err, service) result" where
  "svc_ops E [] s = Inr s"
| "svc_ops E (op # rest) s = (case svc_do E op s of (s1, Some e) \<Rightarrow> Inl e | (s1, None) \<Rightarrow> svc_ops E rest s1)"

definition NewApp :: "svc_env \<Rightarrow> bool \<Rightarrow> svc_cfg \<Rightarrow> svc_op list \<Rightarrow> (go_err, service) result" where
  "NewApp E migrations cfg ops = (case svc_New E migrations cfg of Inl e \<Rightarrow> Inl e | Inr s \<Rightarrow> svc_ops E ops s)"

text \<open>The registrations of the services, in the order of their \<open>NewApp\<close>.\<close>

definition orders_ops :: "string \<Rightarrow> string \<Rightarrow> relay_cfg \<Rightarrow> bool \<Rightarrow> int \<Rightarrow> int \<Rightarrow> int \<Rightarrow> svc_op list" where
  "orders_ops commandsTopic paymentsTopic relay partitioned pinterval unpaid auditInterval =
     [OpEnsureTopics [commandsTopic, ''orders.events'', paymentsTopic],
      OpRegisterSchema commandsTopic (EventTypeFor ''orders.v1.CreateOrderCommand'' 1),
      OpRegisterSchema ''orders.events'' (EventTypeFor ''orders.v1.OrderCreated'' 1),
      OpRegisterSchema ''orders.events'' (EventTypeFor ''orders.v1.OrderPaymentTimedOut'' 1),
      OpRegisterSchema paymentsTopic (EventTypeFor ''orders.v1.PaymentProcessed'' 1),
      OpRegisterSchema paymentsTopic (EventTypeFor ''orders.v1.PaymentFailed'' 1),
      OpOutboxRelay relay,
      OpPartitionMaintenance partitioned pinterval,
      OpConsumerWithRetry ''orders-consumer'' [commandsTopic] DefaultPolicy,
      OpConsumer ''orders-payments'' [paymentsTopic],
      OpPeriodic ''unpaid-watcher'' unpaid 0 True,
      OpAuditCleanup auditInterval]"

definition payments_ops :: "string \<Rightarrow> string \<Rightarrow> relay_cfg \<Rightarrow> bool \<Rightarrow> int \<Rightarrow> int \<Rightarrow> svc_op list" where
  "payments_ops eventsTopic outTopic relay partitioned pinterval auditInterval =
     [OpEnsureTopics [eventsTopic, outTopic],
      OpRegisterSchema eventsTopic (EventTypeFor ''orders.v1.OrderCreated'' 1),
      OpRegisterSchema outTopic (EventTypeFor ''orders.v1.PaymentProcessed'' 1),
      OpRegisterSchema outTopic (EventTypeFor ''orders.v1.PaymentFailed'' 1),
      OpOutboxRelay relay,
      OpPartitionMaintenance partitioned pinterval,
      OpConsumer ''payments'' [eventsTopic],
      OpAuditCleanup auditInterval]"

definition notifications_ops :: "string \<Rightarrow> svc_op list" where
  "notifications_ops paymentsTopic =
     [OpEnsureTopics [paymentsTopic],
      OpRegisterSchema paymentsTopic (EventTypeFor ''orders.v1.PaymentProcessed'' 1),
      OpRegisterSchema paymentsTopic (EventTypeFor ''orders.v1.PaymentFailed'' 1),
      OpConsumer ''notifications'' [paymentsTopic]]"

section \<open>servicekit/lifecycle.go\<close>

text \<open>What runs and listens. The trace has one entry per teardown callback, with the readiness, the goroutines and
  the HTTP servers at the moment it starts.\<close>

type_synonym td_entry = "teardown \<times> bool \<times> goroutine list \<times> string list"

record svc_world =
  w_ready :: bool
  w_admin :: bool
  w_http :: "string list"
  w_running :: "goroutine list"
  w_cancelled :: bool
  w_clock :: int
  w_trace :: "td_entry list"

definition boot_world :: "int \<Rightarrow> svc_world" where
  "boot_world t = \<lparr>w_ready = True, w_admin = False, w_http = [], w_running = [], w_cancelled = False, w_clock = t, w_trace = []\<rparr>"

record start_env =
  st_admin :: "go_err option"
  st_bind :: "string \<Rightarrow> go_err option"

fun start_servers :: "start_env \<Rightarrow> string list \<Rightarrow> service \<times> svc_world \<Rightarrow> service \<times> svc_world \<times> go_err option" where
  "start_servers S [] (s, w) = (s, w, None)"
| "start_servers S (n # ns) (s, w) =
     (case st_bind S n of
        Some e \<Rightarrow> (s, w\<lparr>w_cancelled := True\<rparr>, Some (ErrWrap (''servicekit: http server '' @ n @ '' failed to start'') e))
      | None \<Rightarrow> start_servers S ns (add_closer (TdHttpServer n) s, w\<lparr>w_http := w_http w @ [n]\<rparr>))"

definition svc_Start :: "start_env \<Rightarrow> service \<Rightarrow> svc_world \<Rightarrow> service \<times> svc_world \<times> go_err option" where
  "svc_Start S s w =
     (let s0 = s\<lparr>sv_started := True\<rparr>
      in if st_admin S \<noteq> None \<and> \<not> AdminBindOptional (sv_cfg s)
         then (s0, w, Some (ErrWrap ''servicekit: admin server failed to start'' (the (st_admin S))))
         else
           let s1 = registerInboxCleanup s0;
               w1 = w\<lparr>w_admin := st_admin S = None, w_running := sv_goroutines s1\<rparr>
           in case start_servers S (sv_servers s1) (add_closer TdConsumersCancel s1, w1) of
                (s2, w2, Some e) \<Rightarrow> (s2, w2, Some e)
              | (s2, w2, None) \<Rightarrow> (add_closer TdDrainGate s2, w2, None))"

text \<open>The callbacks. \<open>deadline_at\<close> is the end of the teardown budget; \<open>td_time\<close> and \<open>td_err\<close> are what closing one
  resource takes and answers; \<open>exit_in\<close> is how long a goroutine runs on after its context was cancelled, and
  \<open>pick_done\<close> which case a select takes when the goroutines are gone and the budget is too.\<close>

record stop_env =
  deadline_at :: int
  td_time :: "teardown \<Rightarrow> int"
  td_err :: "teardown \<Rightarrow> go_err option"
  exit_in :: "goroutine \<Rightarrow> int"
  pick_done :: bool

definition ctx_deadline :: "stop_env \<Rightarrow> svc_world \<Rightarrow> go_err option" where
  "ctx_deadline T w = (if deadline_at T \<le> w_clock w then Some (ErrText ''context deadline exceeded'') else None)"

definition drain_gate :: "int \<Rightarrow> stop_env \<Rightarrow> svc_world teardown_fn" where
  "drain_gate grace T w =
     (w\<lparr>w_ready := False,
        w_clock := (if grace \<le> 0 then w_clock w else max (w_clock w) (min (w_clock w + grace) (deadline_at T)))\<rparr>, None)"

definition consumers_cancel :: "stop_env \<Rightarrow> svc_world teardown_fn" where
  "consumers_cancel T w =
     (let late = filter (\<lambda>g. deadline_at T < w_clock w + exit_in T g) (w_running w);
          fin = fold (\<lambda>g t. max t (w_clock w + exit_in T g)) (w_running w) (w_clock w)
      in if late = [] \<and> (fin < deadline_at T \<or> pick_done T)
         then (w\<lparr>w_cancelled := True, w_running := [], w_clock := fin\<rparr>, None)
         else (w\<lparr>w_cancelled := True, w_running := late, w_clock := max (w_clock w) (deadline_at T)\<rparr>,
               Some (ErrText ''servicekit: consumers did not stop before teardown budget: context deadline exceeded'')))"

definition close_resource :: "stop_env \<Rightarrow> teardown \<Rightarrow> svc_world teardown_fn" where
  "close_resource T td w = (w\<lparr>w_clock := w_clock w + td_time T td\<rparr>, td_err T td)"

definition td_action :: "int \<Rightarrow> stop_env \<Rightarrow> teardown \<Rightarrow> svc_world teardown_fn" where
  "td_action grace T td w =
     (case td of
        TdDrainGate \<Rightarrow> drain_gate grace T w
      | TdConsumersCancel \<Rightarrow> consumers_cancel T w
      | TdHttpServer n \<Rightarrow> close_resource T td (w\<lparr>w_http := remove1 n (w_http w)\<rparr>)
      | TdAdminServer \<Rightarrow> close_resource T td (w\<lparr>w_admin := False\<rparr>)
      | _ \<Rightarrow> close_resource T td w)"

definition exec_td :: "int \<Rightarrow> stop_env \<Rightarrow> teardown \<Rightarrow> svc_world teardown_fn" where
  "exec_td grace T td w = td_action grace T td (w\<lparr>w_trace := w_trace w @ [(td, w_ready w, w_running w, w_http w)]\<rparr>)"

definition svc_closer :: "stop_env \<Rightarrow> service \<Rightarrow> svc_world closer" where
  "svc_closer T s = \<lparr>cl_items = map (\<lambda>td. (td_name td, exec_td (DrainGrace (sv_cfg s)) T td)) (sv_closers s), cl_closed = False\<rparr>"

definition svc_Stop :: "stop_env \<Rightarrow> service \<Rightarrow> svc_world \<Rightarrow> (svc_world closer \<times> svc_world) \<times> go_err list" where
  "svc_Stop T s w = closer_Close (ctx_deadline T) (svc_closer T s, w)"

text \<open>\<open>watchServe\<close>: a listener that died flips readiness and reports once.\<close>

definition watchServe :: "go_err option \<Rightarrow> svc_world \<times> go_err option \<Rightarrow> svc_world \<times> go_err option" where
  "watchServe notify st =
     (case st of (w, fatal) \<Rightarrow>
        (case notify of
           None \<Rightarrow> (w, fatal)
         | Some e \<Rightarrow> (w\<lparr>w_ready := False\<rparr>, if fatal = None then Some e else fatal)))"

section \<open>servicekit/main.go\<close>

text \<open>Between the start and the teardown the listeners of \<open>deaths\<close> die; with none, a signal ends the run.\<close>

definition runMain :: "(go_err, service) result \<Rightarrow> start_env \<Rightarrow> go_err list \<Rightarrow> stop_env \<Rightarrow> svc_world \<Rightarrow> int \<times> svc_world" where
  "runMain built S deaths T w =
     (case built of
        Inl e \<Rightarrow> (1, w)
      | Inr s \<Rightarrow>
          (case svc_Start S s w of
             (s1, w1, Some e) \<Rightarrow> (case svc_Stop T s1 w1 of ((c, w2), errs) \<Rightarrow> (1, w2))
           | (s1, w1, None) \<Rightarrow>
               (case fold (\<lambda>e. watchServe (Some e)) deaths (w1, None) of
                  (w2, fatal) \<Rightarrow>
                    (case svc_Stop T s1 w2 of
                       ((c, w3), errs) \<Rightarrow> (if errs \<noteq> [] \<or> fatal \<noteq> None then 1 else 0, w3)))))"

section \<open>observability/health\<close>

text \<open>A probe: its checks in the iteration order of the map, each with what it answers within its timeout.\<close>

datatype check_result = CheckOk | CheckFails string | CheckPanics string | CheckTimeout

fun check_text :: "check_result \<Rightarrow> string" where
  "check_text CheckOk = []"
| "check_text (CheckFails e) = e"
| "check_text (CheckPanics p) = ''panic: '' @ p"
| "check_text CheckTimeout = ''timeout''"

definition ReadyzHandler :: "bool \<Rightarrow> (string \<times> check_result) list \<Rightarrow> int \<times> string \<times> (string \<times> string) list" where
  "ReadyzHandler ready checks =
     (if \<not> ready then (503, ''unavailable'', [])
      else (let cm = map (\<lambda>(n, r). (n, if check_text r \<noteq> [] then check_text r else ''ok'')) checks
            in if \<forall>(n, r) \<in> set checks. check_text r = [] then (200, ''ok'', cm) else (503, ''unavailable'', cm)))"

definition LivezHandler :: "bool \<Rightarrow> int" where
  "LivezHandler live = (if live then 200 else 503)"

section \<open>The closer\<close>

text \<open>Every callback runs once, in the reverse of the order of registration, whatever the others answer.\<close>

lemma close_items_world: "fst (close_items ctxErr b items w) = fold (\<lambda>(n, f) w. fst (f w)) items w"
proof (induction items arbitrary: b w)
  case (Cons a items)
  then show ?case by (cases a) (simp add: case_prod_unfold Let_def)
qed simp

lemma closer_Close_world:
  "\<not> cl_closed c \<Longrightarrow> fst (closer_Close ctxErr (c, w)) =
     (\<lparr>cl_items = [], cl_closed = True\<rparr>, fold (\<lambda>(n, f) w. fst (f w)) (rev (cl_items c)) w)"
  using close_items_world [of ctxErr False "rev (cl_items c)" w]
  by (auto simp: closer_Close_def split: prod.splits)

lemma closer_Close_idem: "closer_Close ctxErr (fst (closer_Close ctxErr' (c, w))) = (fst (closer_Close ctxErr' (c, w)), [])"
  by (auto simp: closer_Close_def split: prod.splits)

text \<open>No callback is lost: one registered before the closing runs in it, one registered after it runs at once.\<close>

lemma closer_Add_then_Close:
  "\<not> cl_closed c \<Longrightarrow> fst (closer_Close ctxErr (closer_Add n f (c, w))) =
     (\<lparr>cl_items = [], cl_closed = True\<rparr>, fold (\<lambda>(n, f) w. fst (f w)) (rev (cl_items c)) (fst (f w)))"
  by (simp add: closer_Add_def closer_Close_world)

lemma closer_Close_then_Add:
  "closer_Add n f (fst (closer_Close ctxErr (c, w))) =
     (fst (fst (closer_Close ctxErr (c, w))), fst (f (snd (fst (closer_Close ctxErr (c, w))))))"
  by (auto simp: closer_Add_def closer_Close_def split: prod.splits)

text \<open>A closing without error: no callback failed and the budget lasted up to the last of them.\<close>

fun clean :: "('w \<Rightarrow> go_err option) \<Rightarrow> (string \<times> 'w teardown_fn) list \<Rightarrow> 'w \<Rightarrow> bool" where
  "clean ctxErr [] w = True"
| "clean ctxErr ((n, f) # rest) w = (ctxErr w = None \<and> snd (f w) = None \<and> clean ctxErr rest (fst (f w)))"

lemma close_items_clean: "snd (close_items ctxErr False items w) = [] \<longleftrightarrow> clean ctxErr items w"
  by (induction ctxErr items w rule: clean.induct) (auto simp: case_prod_unfold Let_def split: option.splits)

lemma clean_append:
  "clean ctxErr (xs @ ys) w \<longleftrightarrow> clean ctxErr xs w \<and> clean ctxErr ys (fold (\<lambda>(n, f) w. fst (f w)) xs w)"
  by (induction ctxErr xs w rule: clean.induct) simp_all

section \<open>The teardown of a service\<close>

abbreviation td_item :: "int \<Rightarrow> stop_env \<Rightarrow> teardown \<Rightarrow> string \<times> svc_world teardown_fn" where
  "td_item grace T td \<equiv> (td_name td, exec_td grace T td)"

abbreviation td_steps :: "int \<Rightarrow> stop_env \<Rightarrow> teardown list \<Rightarrow> svc_world \<Rightarrow> svc_world" where
  "td_steps grace T tds \<equiv> fold (\<lambda>(n, f) w. fst (f w)) (map (td_item grace T) tds)"

lemma svc_Stop_parts:
  "svc_Stop T s w = ((c, w'), errs) \<longleftrightarrow>
     c = \<lparr>cl_items = [], cl_closed = True\<rparr> \<and> w' = td_steps (DrainGrace (sv_cfg s)) T (rev (sv_closers s)) w
     \<and> errs = snd (close_items (ctx_deadline T) False (map (td_item (DrainGrace (sv_cfg s)) T) (rev (sv_closers s))) w)"
  using close_items_world [of "ctx_deadline T" False "map (td_item (DrainGrace (sv_cfg s)) T) (rev (sv_closers s))" w]
  by (auto simp: svc_Stop_def closer_Close_def svc_closer_def rev_map split: prod.splits)

lemma exec_td_trace [simp]:
  "w_trace (fst (exec_td grace T td w)) = w_trace w @ [(td, w_ready w, w_running w, w_http w)]"
  by (auto simp: exec_td_def td_action_def drain_gate_def consumers_cancel_def close_resource_def Let_def split: teardown.splits)

lemma td_steps_trace: "map fst (w_trace (td_steps grace T tds w)) = map fst (w_trace w) @ tds"
  by (induction tds arbitrary: w) auto

lemma exec_td_http [simp]:
  "w_http (fst (exec_td grace T td w)) = (case td of TdHttpServer n \<Rightarrow> remove1 n (w_http w) | _ \<Rightarrow> w_http w)"
  by (auto simp: exec_td_def td_action_def drain_gate_def consumers_cancel_def close_resource_def Let_def split: teardown.splits)

lemma exec_td_ready: "w_ready (fst (exec_td grace T td w)) = (td \<noteq> TdDrainGate \<and> w_ready w)"
  by (auto simp: exec_td_def td_action_def drain_gate_def consumers_cancel_def close_resource_def Let_def split: teardown.splits)

lemma exec_td_running:
  "td \<noteq> TdConsumersCancel \<Longrightarrow> w_running (fst (exec_td grace T td w)) = w_running w"
  "snd (exec_td grace T TdConsumersCancel w) = None \<Longrightarrow> w_running (fst (exec_td grace T TdConsumersCancel w)) = []"
  by (auto simp: exec_td_def td_action_def drain_gate_def consumers_cancel_def close_resource_def Let_def
      split: teardown.splits if_splits)

text \<open>Once nothing runs and nothing listens, it stays so, and every later callback finds it so.\<close>

definition quiet :: "bool \<Rightarrow> svc_world \<Rightarrow> bool" where
  "quiet gated w \<longleftrightarrow> w_running w = [] \<and> w_http w = [] \<and> (gated \<longrightarrow> \<not> w_ready w)"

definition quiet_entry :: "bool \<Rightarrow> td_entry \<Rightarrow> bool" where
  "quiet_entry gated x = (case x of (td, ready, running, http) \<Rightarrow> running = [] \<and> http = [] \<and> (gated \<longrightarrow> \<not> ready))"

lemma exec_td_quiet: "quiet gated w \<Longrightarrow> quiet gated (fst (exec_td grace T td w))"
proof -
  assume "quiet gated w"
  moreover have "w_running w = [] \<Longrightarrow> w_running (fst (exec_td grace T td w)) = []"
    by (auto simp: exec_td_def td_action_def drain_gate_def consumers_cancel_def close_resource_def Let_def split: teardown.splits)
  ultimately show ?thesis
    unfolding quiet_def by (auto simp: exec_td_ready split: teardown.splits)
qed

lemma td_steps_quiet:
  assumes "quiet gated w"
  shows "quiet gated (td_steps grace T tds w)
    \<and> (\<exists>xs. w_trace (td_steps grace T tds w) = w_trace w @ xs \<and> map fst xs = tds \<and> list_all (quiet_entry gated) xs)"
  using assms
proof (induction tds arbitrary: w)
  case (Cons td tds)
  let ?w = "fst (exec_td grace T td w)"
  obtain xs where q: "quiet gated (td_steps grace T tds ?w)" and t: "w_trace (td_steps grace T tds ?w) = w_trace ?w @ xs"
    and m: "map fst xs = tds" and a: "list_all (quiet_entry gated) xs"
    using Cons.IH [OF exec_td_quiet [OF Cons.prems]] by blast
  have e: "quiet_entry gated (td, w_ready w, w_running w, w_http w)" using Cons.prems by (simp add: quiet_def quiet_entry_def)
  show ?case
    using q t m a e by (intro conjI exI [of _ "(td, w_ready w, w_running w, w_http w) # xs"]) auto
qed auto

section \<open>From registration to teardown\<close>

fun own_closer :: "teardown \<Rightarrow> bool" where
  "own_closer (TdConsumer _) = True"
| "own_closer (TdRetryConsumer _) = True"
| "own_closer TdAuditAdminPool = True"
| "own_closer (TdService _) = True"
| "own_closer _ = False"

definition base_closers :: "svc_cfg \<Rightarrow> teardown list" where
  "base_closers cfg = [TdAdminServer, TdLogSync, TdTelemetry] @ (if PyroscopeAddr cfg \<noteq> [] then [TdPyroscope] else [])
     @ (if \<not> withoutPG cfg then [TdPg] else []) @ (if \<not> withoutKafka cfg then [TdKafkaProducer] else [])"

definition grown :: "service \<Rightarrow> service \<Rightarrow> bool" where
  "grown s s' \<longleftrightarrow> sv_cfg s' = sv_cfg s \<and> sv_started s' = sv_started s
     \<and> (\<exists>own. sv_closers s' = sv_closers s @ own \<and> list_all own_closer own)"

lemma grown_refl [simp]: "grown s s" by (simp add: grown_def)

lemma grown_trans: "grown s s1 \<Longrightarrow> grown s1 s2 \<Longrightarrow> grown s s2"
  by (auto simp: grown_def)

lemma grown_steps [simp]:
  "grown s (add_goroutine g s)" "own_closer td \<Longrightarrow> grown s (add_closer td s)"
  "grown s (s\<lparr>sv_topics := ts\<rparr>)" "grown s (s\<lparr>sv_goroutines := gs\<rparr>)" "grown s (s\<lparr>sv_servers := ns\<rparr>)"
  by (simp_all add: grown_def add_goroutine_def add_closer_def)

lemma grown_topics: "grown s (fst (svc_EnsureTopics E ts s))"
  by (simp add: svc_EnsureTopics_def split: option.splits)

lemma grown_periodic: "grown s (fst (svc_AddPeriodicWorker n i j a s))"
  by (simp add: svc_AddPeriodicWorker_def)

lemma grown_consumer: "grown s (fst (add_consumer E m g gid ts s))"
proof -
  obtain s1 r where t: "svc_EnsureTopics E (ts @ map (\<lambda>t. t @ ''.DLT'') ts) s = (s1, r)" by fastforce
  have "grown s s1" using grown_topics [of s E "ts @ map (\<lambda>t. t @ ''.DLT'') ts"] t by simp
  then have "grown s (add_goroutine g (add_closer (TdConsumer gid) s1))"
    by (meson grown_steps(1,2) grown_trans own_closer.simps(1))
  then show ?thesis using t \<open>grown s s1\<close> by (auto simp: add_consumer_def split: option.splits)
qed

lemma grown_consumer_retry: "grown s (fst (svc_AddConsumerWithRetry E gid ts pol s))"
proof -
  obtain s1 r where t: "svc_EnsureTopics E (retry_topics pol ts) s = (s1, r)" by fastforce
  have 1: "grown s s1" using grown_topics [of s E "retry_topics pol ts"] t by simp
  then have 2: "grown s (add_goroutine g (add_closer (TdConsumer gid) s1))" for g
    by (meson grown_steps(1,2) grown_trans own_closer.simps(1))
  have 3: "grown s (add_goroutine g (add_closer (TdRetryConsumer gid) (add_goroutine g' (add_closer (TdConsumer gid) s1))))" for g g'
    using 2 [of g'] by (meson grown_steps(1,2) grown_trans own_closer.simps(2))
  show ?thesis using t 1 2 3 by (auto simp: svc_AddConsumerWithRetry_def Let_def split: option.splits)
qed

lemma grown_do: "grown s (fst (svc_do E op s))"
proof (cases op)
  case (OpConsumerWithRetry g ts pol)
  then show ?thesis by (simp add: grown_consumer_retry)
next
  case (OpAuditCleanup i)
  have "grown s (fst (svc_AddPeriodicWorker n i j a (add_closer TdAuditAdminPool s)))" for n i j a
    by (rule grown_trans [OF grown_steps(2) grown_periodic]) simp
  then show ?thesis using OpAuditCleanup by (simp add: svc_AddAuditCleanup_def Let_def grown_periodic)
qed (simp_all add: grown_topics grown_periodic grown_consumer svc_AddWorker_def svc_AddHTTPServer_def svc_AddConsumer_def
    svc_AddBatchConsumer_def svc_AddOutboxRelay_def svc_AddAuditWriter_def svc_AddAuditDrain_def Let_def
    svc_AddOutboxPartitionMaintenance_def svc_CloserAdd_def svc_RegisterSchema_def)

lemma grown_ops: "svc_ops E ops s = Inr s' \<Longrightarrow> grown s s'"
proof (induction ops arbitrary: s)
  case (Cons op ops)
  then show ?case
    using grown_do [of s E op] by (auto split: prod.splits option.splits intro: grown_trans)
qed simp

lemma svc_New_Inr:
  "svc_New E m cfg = Inr s \<Longrightarrow> sv_cfg s = cfg \<and> sv_closers s = base_closers cfg \<and> \<not> sv_started s"
  by (auto simp: svc_New_def base_closers_def Let_def split: if_splits option.splits)

lemma NewApp_closers:
  assumes "NewApp E m cfg ops = Inr s"
  shows "sv_cfg s = cfg \<and> \<not> sv_started s \<and> (\<exists>own. sv_closers s = base_closers cfg @ own \<and> list_all own_closer own)"
proof -
  obtain s0 where "svc_New E m cfg = Inr s0" "svc_ops E ops s0 = Inr s"
    using assms by (auto simp: NewApp_def split: sum.splits)
  then show ?thesis using svc_New_Inr grown_ops by (fastforce simp: grown_def)
qed

text \<open>\<open>Start\<close> marks the service as started before it registers the cleanup of the inbox, so that registration is
  refused, and the refusal is dropped: no start of a service ever runs it.\<close>

lemma registerInboxCleanup_started: "sv_started s \<Longrightarrow> registerInboxCleanup s = s"
  by (simp add: registerInboxCleanup_def svc_AddPeriodicWorker_def)

lemma start_servers_parts:
  "start_servers S ns (s, w) =
     (let up = takeWhile (\<lambda>n. st_bind S n = None) ns; all = (up = ns)
      in (s\<lparr>sv_closers := sv_closers s @ map TdHttpServer up\<rparr>,
          w\<lparr>w_http := w_http w @ up, w_cancelled := w_cancelled w \<or> \<not> all\<rparr>,
          snd (snd (start_servers S ns (s, w)))))
   \<and> (snd (snd (start_servers S ns (s, w))) = None \<longleftrightarrow> takeWhile (\<lambda>n. st_bind S n = None) ns = ns)"
proof (induction ns arbitrary: s w)
  case (Cons n ns)
  show ?case
    using Cons.IH [of "add_closer (TdHttpServer n) s" "w\<lparr>w_http := w_http w @ [n]\<rparr>"]
    by (auto simp: add_closer_def Let_def split: option.splits)
qed (simp add: Let_def)

definition admin_fatal :: "start_env \<Rightarrow> svc_cfg \<Rightarrow> bool" where
  "admin_fatal S cfg \<longleftrightarrow> st_admin S \<noteq> None \<and> \<not> AdminBindOptional cfg"

definition servers_up :: "start_env \<Rightarrow> service \<Rightarrow> string list" where
  "servers_up S s = takeWhile (\<lambda>n. st_bind S n = None) (sv_servers s)"

lemma svc_Start_parts:
  assumes "\<not> sv_started s" "svc_Start S s (boot_world t) = (s1, w1, r)"
  shows "sv_cfg s1 = sv_cfg s"
    and "admin_fatal S (sv_cfg s) \<Longrightarrow> sv_closers s1 = sv_closers s \<and> w1 = boot_world t \<and> r \<noteq> None"
    and "\<not> admin_fatal S (sv_cfg s) \<Longrightarrow>
       sv_closers s1 = sv_closers s @ TdConsumersCancel # map TdHttpServer (servers_up S s) @ (if r = None then [TdDrainGate] else [])
       \<and> w_http w1 = servers_up S s \<and> w_running w1 = sv_goroutines s \<and> w_trace w1 = [] \<and> w_ready w1
       \<and> (r = None \<longleftrightarrow> servers_up S s = sv_servers s)"
proof -
  let ?s = "s\<lparr>sv_started := True\<rparr>"
  let ?w = "(boot_world t)\<lparr>w_admin := st_admin S = None, w_running := sv_goroutines s\<rparr>"
  note P = start_servers_parts [of S "sv_servers s" "add_closer TdConsumersCancel ?s" ?w]
  have "sv_cfg s1 = sv_cfg s \<and> (admin_fatal S (sv_cfg s) \<longrightarrow> sv_closers s1 = sv_closers s \<and> w1 = boot_world t \<and> r \<noteq> None)
    \<and> (\<not> admin_fatal S (sv_cfg s) \<longrightarrow>
       sv_closers s1 = sv_closers s @ TdConsumersCancel # map TdHttpServer (servers_up S s) @ (if r = None then [TdDrainGate] else [])
       \<and> w_http w1 = servers_up S s \<and> w_running w1 = sv_goroutines s \<and> w_trace w1 = [] \<and> w_ready w1
       \<and> (r = None \<longleftrightarrow> servers_up S s = sv_servers s))"
  proof (cases "admin_fatal S (sv_cfg s)")
    case True
    then show ?thesis using assms(2) by (auto simp: svc_Start_def admin_fatal_def Let_def)
  next
    case False
    obtain s2 w2 r2 where st: "start_servers S (sv_servers s) (add_closer TdConsumersCancel ?s, ?w) = (s2, w2, r2)"
      by (metis prod.collapse)
    then have "svc_Start S s (boot_world t) = (if r2 = None then add_closer TdDrainGate s2 else s2, w2, r2)"
      using False by (auto simp: svc_Start_def admin_fatal_def registerInboxCleanup_started Let_def split: option.splits)
    then show ?thesis
      using False assms(2) P st by (auto simp: Let_def add_closer_def servers_up_def boot_world_def split: if_splits)
  qed
  then show "sv_cfg s1 = sv_cfg s"
    and "admin_fatal S (sv_cfg s) \<Longrightarrow> sv_closers s1 = sv_closers s \<and> w1 = boot_world t \<and> r \<noteq> None"
    and "\<not> admin_fatal S (sv_cfg s) \<Longrightarrow>
       sv_closers s1 = sv_closers s @ TdConsumersCancel # map TdHttpServer (servers_up S s) @ (if r = None then [TdDrainGate] else [])
       \<and> w_http w1 = servers_up S s \<and> w_running w1 = sv_goroutines s \<and> w_trace w1 = [] \<and> w_ready w1
       \<and> (r = None \<longleftrightarrow> servers_up S s = sv_servers s)" by blast+
qed

lemma mset_fold_remove1: "mset (fold remove1 ys xs) = mset xs - mset ys"
  by (induction ys arbitrary: xs) auto

lemma http_steps:
  "w_http (td_steps grace T (map TdHttpServer ns) w) = fold remove1 ns (w_http w)"
  "w_ready (td_steps grace T (map TdHttpServer ns) w) = w_ready w"
  by (induction ns arbitrary: w) (simp_all add: exec_td_ready)

lemma servers_shut:
  assumes "w_http w = ns"
  shows "w_http (td_steps grace T (rev (map TdHttpServer ns)) w) = []"
proof -
  have "mset (fold remove1 (rev ns) ns) = {#}" by (simp add: mset_fold_remove1)
  then show ?thesis unfolding rev_map http_steps(1) assms by simp
qed

lemma drained_quiet:
  assumes "w_http w = ns"
    and "clean (ctx_deadline T) (map (td_item grace T) ((if gated then [TdDrainGate] else []) @ rev (map TdHttpServer ns) @ [TdConsumersCancel])) w"
  shows "quiet gated (td_steps grace T ((if gated then [TdDrainGate] else []) @ rev (map TdHttpServer ns) @ [TdConsumersCancel]) w)"
proof -
  let ?g = "if gated then [TdDrainGate] else []"
  let ?w1 = "td_steps grace T ?g w"
  let ?w2 = "td_steps grace T (rev (map TdHttpServer ns)) ?w1"
  have 1: "w_http ?w1 = ns" "gated \<longrightarrow> \<not> w_ready ?w1" using assms(1) by (auto simp: exec_td_ready)
  have 2: "w_http ?w2 = []" by (rule servers_shut [OF 1(1)])
  have 3: "gated \<longrightarrow> \<not> w_ready ?w2" using 1(2) unfolding rev_map http_steps(2) .
  have "snd (exec_td grace T TdConsumersCancel ?w2) = None" using assms(2) by (auto simp: clean_append)
  then have "quiet gated (fst (exec_td grace T TdConsumersCancel ?w2))"
    using 2 3 exec_td_running(2) by (simp add: quiet_def exec_td_ready)
  then show ?thesis by simp
qed

lemma gate_entries:
  assumes "map fst xs = (if gated then [TdDrainGate] else []) @ rev (map TdHttpServer ns) @ [TdConsumersCancel]" "x \<in> set xs"
  shows "\<not> own_closer (fst x) \<and> fst x \<notin> set (base_closers cfg)"
proof -
  have "fst x \<in> set (map fst xs)" using assms(2) by simp
  then show ?thesis unfolding assms(1) by (auto simp: base_closers_def split: if_splits)
qed


text \<open>A service with a consumer and an HTTP server, started and stopped well within its budget.\<close>

definition demo_svc_cfg :: svc_cfg where
  "demo_svc_cfg = \<lparr>withoutPG = False, withoutKafka = False, production = True, InboxRetention = 7, TopicRetention = 7,
     InboxCleanupInterval = 1, PyroscopeAddr = [], SerdeSRURL = [], MigrateOnStart = True, pgShards = 1, EnsureTopicsOn = True,
     AuditAdminURL = [], AdminBindOptional = False, DrainGrace = 5\<rparr>"

definition demo_svc_env :: svc_env where
  "demo_svc_env = \<lparr>en_telemetry = None, en_pyroscope = None, en_pg = None, en_migrate = None, en_kafka = None, en_serde = None,
     en_topics = (\<lambda>_. None), en_consumer = (\<lambda>_. None), en_retry = (\<lambda>_. None), en_admin_pool = None, en_schema = (\<lambda>_ _. None)\<rparr>"

definition demo_svc :: service where
  "demo_svc = \<lparr>sv_cfg = demo_svc_cfg, sv_closers = [TdAdminServer, TdLogSync, TdTelemetry, TdPg, TdKafkaProducer, TdConsumer ''notifications''],
     sv_pg = True, sv_kafka = True, sv_serde = False, sv_goroutines = [GConsumer ''notifications'' [''payments.events'']],
     sv_servers = [''api''], sv_topics = [''payments.events'', ''payments.events'', ''payments.events.DLT''], sv_started = False\<rparr>"

lemma demo_NewApp:
  "NewApp demo_svc_env True demo_svc_cfg (notifications_ops ''payments.events'' @ [OpHTTPServer ''api'']) = Inr demo_svc"
  by (simp add: NewApp_def svc_New_def demo_svc_cfg_def demo_svc_env_def RetentionInvariantViolated_def check_err_def Let_def
      notifications_ops_def svc_EnsureTopics_def svc_RegisterSchema_def svc_AddConsumer_def add_consumer_def svc_AddHTTPServer_def
      add_goroutine_def add_closer_def demo_svc_def)

definition demo_stop :: stop_env where
  "demo_stop = \<lparr>deadline_at = 100, td_time = (\<lambda>_. 1), td_err = (\<lambda>_. None), exit_in = (\<lambda>_. 2), pick_done = False\<rparr>"

lemmas teardown_eval = svc_Stop_def closer_Close_def svc_closer_def exec_td_def td_action_def drain_gate_def consumers_cancel_def
  close_resource_def ctx_deadline_def Let_def


section \<open>runMain and the probes\<close>

lemma watch_deaths: "fold (\<lambda>e. watchServe (Some e)) deaths (w, fatal) =
    (if deaths = [] then w else w\<lparr>w_ready := False\<rparr>, if fatal \<noteq> None \<or> deaths = [] then fatal else Some (hd deaths))"
  by (induction deaths arbitrary: w fatal) (auto simp: watchServe_def)

text \<open>The process exits with 0 exactly when it was built and started, no listener died, and the teardown reported no error;
  the death of a listener always ends in a teardown and a non-zero exit.\<close>

lemma runMain_exit_code:
  "fst (runMain built S deaths T w) = 0 \<longleftrightarrow>
     (\<exists>s s1 w1. built = Inr s \<and> svc_Start S s w = (s1, w1, None) \<and> deaths = [] \<and> snd (svc_Stop T s1 w1) = [])"
  by (auto simp: runMain_def watch_deaths split: sum.splits prod.splits option.splits)

lemma readyz_ok: "fst (ReadyzHandler ready checks) = 200 \<longleftrightarrow> ready \<and> (\<forall>(n, r) \<in> set checks. check_text r = [])"
  by (auto simp: ReadyzHandler_def Let_def)

text \<open>A check whose error has an empty text counts as passed.\<close>

lemma readyz_empty_error: "ReadyzHandler True [(''db'', CheckFails [])] = (200, ''ok'', [(''db'', ''ok'')])"
  by (simp add: ReadyzHandler_def)

section \<open>The cleanup of the inbox\<close>

fun cleans_inbox :: "goroutine \<Rightarrow> bool" where
  "cleans_inbox (GPeriodic n _ _ _) = (n = ''inbox-cleanup'')"
| "cleans_inbox _ = False"

fun named_cleanup :: "svc_op \<Rightarrow> bool" where
  "named_cleanup (OpPeriodic n _ _ _) = (n = ''inbox-cleanup'')"
| "named_cleanup _ = False"

lemma no_cleanup_do:
  assumes "\<not> named_cleanup op" "svc_do E op s = (s', r)" "\<forall>g \<in> set (sv_goroutines s). \<not> cleans_inbox g"
  shows "\<forall>g \<in> set (sv_goroutines s'). \<not> cleans_inbox g"
  using assms
  by (cases op)
    (auto simp: svc_EnsureTopics_def svc_AddWorker_def svc_AddHTTPServer_def svc_AddConsumer_def
      svc_AddBatchConsumer_def svc_AddConsumerWithRetry_def add_consumer_def svc_AddOutboxRelay_def relay_fleet_def svc_AddAuditWriter_def
      svc_AddAuditDrain_def svc_AddAuditCleanup_def svc_AddPeriodicWorker_def svc_AddOutboxPartitionMaintenance_def svc_CloserAdd_def
      svc_RegisterSchema_def add_goroutine_def add_closer_def Let_def split: if_splits option.splits prod.splits)

lemma no_cleanup_ops:
  assumes "svc_ops E ops s = Inr s'" "list_all (\<lambda>op. \<not> named_cleanup op) ops" "\<forall>g \<in> set (sv_goroutines s). \<not> cleans_inbox g"
  shows "\<forall>g \<in> set (sv_goroutines s'). \<not> cleans_inbox g"
  using assms
proof (induction ops arbitrary: s)
  case (Cons op ops)
  obtain s1 r where d: "svc_do E op s = (s1, r)" by fastforce
  then have "r = None" "svc_ops E ops s1 = Inr s'" using Cons.prems(1) by (auto split: option.splits)
  then show ?case using Cons.IH no_cleanup_do [OF _ d] Cons.prems(2,3) by simp
qed simp

text \<open>C40. No service ever runs the cleanup of its inbox: whatever the configuration, after \<open>Start\<close> no goroutine named
  \<open>inbox-cleanup\<close> is running, although the interval is set and there is a pool, unless the service registered a worker
  of that name itself. \<open>Start\<close> sets the started flag first, and \<open>AddPeriodicWorker\<close> then refuses the registration.\<close>

theorem inbox_cleanup_never_runs:
  assumes "NewApp E m cfg ops = Inr s" "list_all (\<lambda>op. \<not> named_cleanup op) ops" "svc_Start S s (boot_world t) = (s1, w1, r)"
  shows "\<forall>g \<in> set (w_running w1). \<not> cleans_inbox g"
proof -
  obtain s0 where n: "svc_New E m cfg = Inr s0" and o: "svc_ops E ops s0 = Inr s"
    using assms(1) by (auto simp: NewApp_def split: sum.splits)
  have "sv_goroutines s0 = []" using n by (auto simp: svc_New_def Let_def split: if_splits option.splits)
  then have gs: "\<forall>g \<in> set (sv_goroutines s). \<not> cleans_inbox g" using no_cleanup_ops [OF o assms(2)] by simp
  note P = svc_Start_parts [OF _ assms(3)]
  have "\<not> sv_started s" using NewApp_closers [OF assms(1)] by blast
  then show ?thesis using P(2,3) gs by (cases "admin_fatal S (sv_cfg s)") (auto simp: boot_world_def)
qed

theorem inbox_cleanup_never_runs_witness:
  "0 < InboxCleanupInterval demo_svc_cfg \<and> \<not> withoutPG demo_svc_cfg \<and>
   filter cleans_inbox (w_running (fst (snd (svc_Start \<lparr>st_admin = None, st_bind = (\<lambda>_. None)\<rparr> demo_svc (boot_world 0))))) = []"
proof -
  let ?R = "svc_Start \<lparr>st_admin = None, st_bind = (\<lambda>_. None)\<rparr> demo_svc (boot_world 0)"
  obtain s1 w1 r where eq: "?R = (s1, w1, r)" by (metis prod.collapse)
  have "list_all (\<lambda>op. \<not> named_cleanup op) (notifications_ops ''payments.events'' @ [OpHTTPServer ''api''])"
    by (simp add: notifications_ops_def)
  from inbox_cleanup_never_runs [OF demo_NewApp this eq] show ?thesis by (simp add: eq demo_svc_cfg_def filter_empty_conv)
qed

text \<open>Registered before the flag is set, the worker would be there.\<close>

lemma inbox_cleanup_if_not_started:
  assumes "0 < InboxCleanupInterval (sv_cfg s)" "sv_pg s" "\<not> sv_started s"
  shows "GPeriodic ''inbox-cleanup'' (InboxCleanupInterval (sv_cfg s)) 0 False \<in> set (sv_goroutines (registerInboxCleanup s))"
  using assms by (simp add: registerInboxCleanup_def svc_AddPeriodicWorker_def add_goroutine_def)

end
