(* ===== verification/Notifications.thy ===== *)
theory Notifications
  imports Payments
begin

text \<open>
  \<open>examples/notifications\<close>: the rules of \<open>internal/domain/notification\<close> and the consumer of
  \<open>internal/transport/consumer.go\<close>. What was delivered to customers is outside the database: it is the memory of
  the transaction, which a rollback does not take back.
\<close>

type_synonym notification = "string \<times> string \<times> string"

section \<open>domain/notification/service.go\<close>

definition notify_PaymentProcessed :: "string \<Rightarrow> string \<Rightarrow> string \<Rightarrow> notification" where
  "notify_PaymentProcessed orderID paymentID st = (orderID, paymentID, st)"

definition notify_PaymentFailed :: "string \<Rightarrow> notification" where
  "notify_PaymentFailed orderID = (orderID, [], ''failed'')"

section \<open>transport/consumer.go\<close>

fun notification_of :: "payment_event \<Rightarrow> notification" where
  "notification_of (EvProcessed orderID paymentID st) = notify_PaymentProcessed orderID paymentID st"
| "notification_of (EvFailed orderID reason t) = notify_PaymentFailed orderID"

text \<open>One delivery of a decoded event under its message id; the deliveries made are kept with the id.\<close>

definition NewEventHandler ::
  "tx_env \<Rightarrow> string \<Rightarrow> payment_event \<Rightarrow> unit shard \<Rightarrow> (string \<times> notification) list
     \<Rightarrow> unit shard \<times> (string \<times> notification) list \<times> bool \<times> go_err option" where
  "NewEventHandler T messageID ev s c =
     ProcessOnce T ''notifications'' messageID (\<lambda>d c. (d, c @ [(messageID, notification_of ev)], None)) s c"

text \<open>Any sequence of deliveries, repeated ones included.\<close>

fun notify_all :: "(tx_env \<times> string \<times> payment_event) list \<Rightarrow> unit shard \<Rightarrow> (string \<times> notification) list
    \<Rightarrow> unit shard \<times> (string \<times> notification) list" where
  "notify_all [] s c = (s, c)"
| "notify_all ((T, i, ev) # ds) s c =
     (case NewEventHandler T i ev s c of (s1, c1, _, _) \<Rightarrow> notify_all ds s1 c1)"

section \<open>Lemmas\<close>

abbreviation told :: "string \<Rightarrow> (string \<times> notification) list \<Rightarrow> nat" where
  "told i c \<equiv> length (filter (\<lambda>x. fst x = i) c)"

lemma NewEventHandler_steps:
  assumes "NewEventHandler T i ev s c = (s', c', p, e)"
  obtains (same) "s' = s" "c' = c" "e \<noteq> None \<or> (''notifications'', i) \<in> set (inbox_keys s)"
  | (lost) "s' = s" "c' = c @ [(i, notification_of ev)]" "e \<noteq> None" "commit_err T \<noteq> None" "(''notifications'', i) \<notin> set (inbox_keys s)"
  | (kept) "set (inbox_keys s') = insert (''notifications'', i) (set (inbox_keys s))" "c' = c @ [(i, notification_of ev)]" "e = None"
      "(''notifications'', i) \<notin> set (inbox_keys s)"
proof -
  let ?k = "(''notifications'', i)"
  note defs = NewEventHandler_def ProcessOnce_def RunInTx_mem_def once_body_def insert_inbox_def
  consider "begin_err T \<noteq> None \<or> insert_err T i \<noteq> None \<or> ?k \<in> set (inbox_keys s)"
    | "begin_err T = None" "insert_err T i = None" "?k \<notin> set (inbox_keys s)" by blast
  then show thesis
  proof cases
    case 1
    then have "s' = s \<and> c' = c \<and> (e \<noteq> None \<or> ?k \<in> set (inbox_keys s))"
      using assms by (auto simp: defs dest: sym [of "Some _"] split: option.splits if_splits)
    then show thesis using same by blast
  next
    case 2
    show thesis
    proof (cases "commit_err T")
      case None
      then show thesis using kept 2 assms by (auto simp: defs inbox_keys_def)
    next
      case (Some x)
      then show thesis using lost 2 assms by (auto simp: defs dest: sym [of "Some _"])
    qed
  qed
qed

text \<open>What is recorded was told, and every further telling is a commit that failed after it.\<close>

definition told_inv :: "(string \<Rightarrow> payment_event) \<Rightarrow> (string \<Rightarrow> nat) \<Rightarrow> unit shard \<Rightarrow> (string \<times> notification) list \<Rightarrow> bool" where
  "told_inv src lost s c \<longleftrightarrow>
     (\<forall>i. told i c \<le> lost i + (if (''notifications'', i) \<in> set (inbox_keys s) then 1 else 0))
   \<and> (\<forall>i. (''notifications'', i) \<in> set (inbox_keys s) \<longrightarrow> 0 < told i c)
   \<and> (\<forall>(i, n) \<in> set c. n = notification_of (src i))"

abbreviation lost_commits :: "string \<Rightarrow> (tx_env \<times> string \<times> payment_event) list \<Rightarrow> nat" where
  "lost_commits i ds \<equiv> length (filter (\<lambda>(T, j, ev). j = i \<and> commit_err T \<noteq> None) ds)"

lemma told_step:
  assumes "told_inv src lost s c" "NewEventHandler T i (src i) s c = (s', c', p, e)"
  shows "told_inv src (\<lambda>j. lost j + (if j = i \<and> commit_err T \<noteq> None then 1 else 0)) s' c'"
proof -
  let ?k = "\<lambda>j. (''notifications'', j) \<in> set (inbox_keys s)"
  have b: "told j c \<le> lost j + (if ?k j then 1 else 0)" and k: "?k j \<Longrightarrow> 0 < told j c" for j
    using assms(1) unfolding told_inv_def by blast+
  have n: "\<forall>(j, n) \<in> set c. n = notification_of (src j)" using assms(1) unfolding told_inv_def by blast
  from assms(2) show ?thesis
  proof (cases rule: NewEventHandler_steps)
    case same
    have "told j c \<le> lost j + (if j = i \<and> commit_err T \<noteq> None then 1 else 0) + (if ?k j then 1 else 0)" for j
      using b [of j] by simp
    then show ?thesis using same k n unfolding told_inv_def by blast
  next
    case lost
    have "told j c' \<le> lost j + (if j = i \<and> commit_err T \<noteq> None then 1 else 0) + (if ?k j then 1 else 0)" for j
      using b [of j] lost by (auto split: if_splits)
    moreover have "?k j \<Longrightarrow> 0 < told j c'" for j using k [of j] lost(2) by simp
    moreover have "\<forall>(j, n) \<in> set c'. n = notification_of (src j)" using n lost(2) by auto
    ultimately show ?thesis using lost(1) unfolding told_inv_def by blast
  next
    case kept
    have k': "(''notifications'', j) \<in> set (inbox_keys s') \<longleftrightarrow> j = i \<or> ?k j" for j using kept(1) by auto
    have "told j c' \<le> lost j + (if j = i \<and> commit_err T \<noteq> None then 1 else 0) + (if (''notifications'', j) \<in> set (inbox_keys s') then 1 else 0)" for j
      using b [of j] kept(2,4) by (auto simp: k' split: if_splits)
    moreover have "(''notifications'', j) \<in> set (inbox_keys s') \<Longrightarrow> 0 < told j c'" for j
      using k [of j] kept(2) by (auto simp: k')
    moreover have "\<forall>(j, n) \<in> set c'. n = notification_of (src j)" using n kept(2) by auto
    ultimately show ?thesis unfolding told_inv_def by blast
  qed
qed

lemma told_run:
  assumes "told_inv src lost s c" "\<forall>(T, i, ev) \<in> set ds. ev = src i" "notify_all ds s c = (s', c')"
  shows "told_inv src (\<lambda>i. lost i + lost_commits i ds) s' c'"
  using assms
proof (induction ds arbitrary: s c lost)
  case (Cons d ds)
  obtain T i ev where d: "d = (T, i, ev)" by (cases d) auto
  obtain s1 c1 p e where h: "NewEventHandler T i (src i) s c = (s1, c1, p, e)" by (metis prod_cases4)
  have "told_inv src (\<lambda>j. lost j + (if j = i \<and> commit_err T \<noteq> None then 1 else 0)) s1 c1"
    using Cons.prems(1) h by (rule told_step)
  moreover have "\<forall>(T, i, ev) \<in> set ds. ev = src i" using Cons.prems(2) by simp
  moreover have "notify_all ds s1 c1 = (s', c')" using Cons.prems(2,3) h by (simp add: d)
  ultimately have "told_inv src (\<lambda>j. lost j + (if j = i \<and> commit_err T \<noteq> None then 1 else 0) + lost_commits j ds) s' c'"
    by (rule Cons.IH)
  moreover have "lost j + (if j = i \<and> commit_err T \<noteq> None then 1 else 0) + lost_commits j ds = lost j + lost_commits j (d # ds)" for j
    by (cases "j = i"; cases "commit_err T") (simp_all add: d)
  ultimately show ?case by (simp only:)
qed simp

text \<open>C32. A payment event is told to the customer at least once, and again only for commits that failed. Over any
  sequence of deliveries, in any order and with any repetition, in which one message id always carries the same event:
  an id that the inbox recorded was told what its event says (the order, the payment and its status, or the order with
  no payment and the status failed), nothing else was ever told under it, and it
  was told at most once more than there were deliveries of it whose commit failed; so exactly once when none did.
  A delivery that ends without an error has its id recorded.\<close>

theorem notified_at_least_once:
  assumes "\<forall>(T, i, ev) \<in> set ds. ev = src i" "notify_all ds \<lparr>inbox = [], app = ()\<rparr> [] = (s, c)"
  shows "(\<forall>i. told i c \<le> lost_commits i ds + (if (''notifications'', i) \<in> set (inbox_keys s) then 1 else 0))
    \<and> (\<forall>i. (''notifications'', i) \<in> set (inbox_keys s) \<longrightarrow> 0 < told i c)
    \<and> (\<forall>(i, n) \<in> set c. n = (case src i of EvProcessed orderID paymentID st \<Rightarrow> (orderID, paymentID, st)
                                      | EvFailed orderID reason t \<Rightarrow> (orderID, '''', ''failed'')))
    \<and> (\<forall>T i ev. snd (snd (snd (NewEventHandler T i ev s c))) = None \<longrightarrow>
         (''notifications'', i) \<in> set (inbox_keys (fst (NewEventHandler T i ev s c))))"
proof -
  have "told_inv src (\<lambda>_. 0) \<lparr>inbox = [], app = ()\<rparr> []" by (simp add: told_inv_def inbox_keys_def)
  from told_run [OF this assms] have inv: "told_inv src (\<lambda>i. lost_commits i ds) s c" by simp
  have "(''notifications'', i) \<in> set (inbox_keys s')" if "NewEventHandler T i ev s c = (s', c', p, None)" for T i ev s' c' p
    using that by (cases rule: NewEventHandler_steps) auto
  then have "\<forall>T i ev. snd (snd (snd (NewEventHandler T i ev s c))) = None \<longrightarrow>
      (''notifications'', i) \<in> set (inbox_keys (fst (NewEventHandler T i ev s c)))"
    by (metis prod.collapse)
  moreover have "notification_of ev = (case ev of EvProcessed orderID paymentID st \<Rightarrow> (orderID, paymentID, st)
      | EvFailed orderID reason t \<Rightarrow> (orderID, '''', ''failed''))" for ev
    by (cases ev) (simp_all add: notify_PaymentProcessed_def notify_PaymentFailed_def)
  ultimately show ?thesis using inv unfolding told_inv_def by simp
qed

text \<open>A first delivery whose commit fails after the customer was told, and the redelivery that succeeds: told twice.\<close>

lemma notified_twice:
  "notify_all [(calm\<lparr>commit_err := Some (ErrText ''eof'')\<rparr>, ''m'', EvFailed ''o'' ''declined'' 1), (calm, ''m'', EvFailed ''o'' ''declined'' 1)]
     \<lparr>inbox = [], app = ()\<rparr> [] = (\<lparr>inbox = [((''notifications'', ''m''), 0)], app = ()\<rparr>,
       [(''m'', ''o'', [], ''failed''), (''m'', ''o'', [], ''failed'')])"
  by (simp add: NewEventHandler_def ProcessOnce_def RunInTx_mem_def once_body_def insert_inbox_def inbox_keys_def calm_def
      notify_PaymentFailed_def)

theorem notified_at_least_once_witness:
  "told ''m'' [(''m'', ''o'', [], ''failed''), (''m'', ''o'', [], ''failed'')] \<le> 1 + 1
   \<and> (''o'', [], ''failed'') = (case EvFailed ''o'' ''declined'' 1 of EvProcessed orderID paymentID st \<Rightarrow> (orderID, paymentID, st)
        | EvFailed orderID reason t \<Rightarrow> (orderID, '''', ''failed''))"
  using notified_at_least_once [OF _ notified_twice, of "\<lambda>_. EvFailed ''o'' ''declined'' 1"]
  by (simp add: inbox_keys_def)

end
