(* ===== verification/Leader.thy ===== *)
theory Leader
  imports Apperr
begin

text \<open>
  Leader election, \<open>storage/pg/leader.go\<close>: every instance tries to take a session-scoped advisory lock on a connection
  of its pool; the one that has it runs the worker and checks the connection on every tick. The database is the lock
  and the set of live sessions; sessions may end at any moment. One step is one transition of one instance or the end of
  a session, in any interleaving.
\<close>

section \<open>The election\<close>

text \<open>A connection is numbered within its instance. The worker \<open>fn\<close> runs while an instance is leading or waits for it
  to return.\<close>

datatype end_reason = SessionLost | CtxDone

datatype lead_phase =
    Standby
  | Leading nat
  | Awaiting end_reason nat
  | Returned

type_synonym session = "nat \<times> nat"

record election =
  lock_owner :: "session option"
  live :: "session set"
  phases :: "nat \<Rightarrow> lead_phase"

definition set_phase :: "nat \<Rightarrow> lead_phase \<Rightarrow> election \<Rightarrow> election" where
  "set_phase i ph s = s\<lparr>phases := (phases s)(i := ph)\<rparr>"

text \<open>The end of a session: the server gives its lock back.\<close>

definition end_session :: "session \<Rightarrow> election \<Rightarrow> election" where
  "end_session c s = s\<lparr>live := live s - {c}, lock_owner := (if lock_owner s = Some c then None else lock_owner s)\<rparr>"

text \<open>\<open>pg_try_advisory_lock\<close> on a session: granted when nobody else has the lock; a session that has it gets it again.\<close>

definition try_lock :: "session \<Rightarrow> election \<Rightarrow> bool" where
  "try_lock c s \<longleftrightarrow> c \<in> live s \<and> (lock_owner s = None \<or> lock_owner s = Some c)"

text \<open>\<open>tryAcquireLeaderLock\<close> with connection \<open>k\<close> of the pool; \<open>err\<close> says that acquiring it or the query failed.\<close>

definition tryAcquireLeaderLock :: "nat \<Rightarrow> nat \<Rightarrow> bool \<Rightarrow> election \<Rightarrow> election" where
  "tryAcquireLeaderLock i k err s =
     (if \<not> err \<and> try_lock (i, k) s then set_phase i (Leading k) (s\<lparr>lock_owner := Some (i, k)\<rparr>) else s)"

text \<open>\<open>releaseLeaderLock\<close>: unlock, or end the session when the unlock fails; on a dead session it fails.\<close>

definition releaseLeaderLock :: "session \<Rightarrow> bool \<Rightarrow> election \<Rightarrow> election" where
  "releaseLeaderLock c unlockErr s =
     (if c \<in> live s \<and> \<not> unlockErr then s\<lparr>lock_owner := (if lock_owner s = Some c then None else lock_owner s)\<rparr>
      else end_session c s)"

text \<open>The cases of the select in \<open>leadTerm\<close>, and the two waits for \<open>fn\<close>. A health check of a dead session fails; that of a
  live one may (a timeout).\<close>

datatype lead_event = EvCtxDone | EvFnDone | EvTick bool

fun leadTerm :: "nat \<Rightarrow> nat \<Rightarrow> lead_event \<Rightarrow> bool \<Rightarrow> election \<Rightarrow> election" where
  "leadTerm i k EvCtxDone unlockErr s = set_phase i (Awaiting CtxDone k) s"
| "leadTerm i k EvFnDone unlockErr s = set_phase i Returned (releaseLeaderLock (i, k) unlockErr s)"
| "leadTerm i k (EvTick timedOut) unlockErr s =
     (if (i, k) \<in> live s \<and> \<not> timedOut then s else set_phase i (Awaiting SessionLost k) s)"

fun fn_returned :: "nat \<Rightarrow> end_reason \<Rightarrow> nat \<Rightarrow> bool \<Rightarrow> election \<Rightarrow> election" where
  "fn_returned i CtxDone k unlockErr s = set_phase i Returned (releaseLeaderLock (i, k) unlockErr s)"
| "fn_returned i SessionLost k unlockErr s = set_phase i Standby (end_session (i, k) s)"

fun runs_on :: "lead_phase \<Rightarrow> nat option" where
  "runs_on (Leading k) = Some k"
| "runs_on (Awaiting _ k) = Some k"
| "runs_on _ = None"

text \<open>\<open>runAsLeader\<close> on every instance, with sessions opened and ended by the pools and the server.\<close>

inductive lead_step :: "election \<Rightarrow> election \<Rightarrow> bool" where
  try_it: "phases s i = Standby \<Longrightarrow> lead_step s (tryAcquireLeaderLock i k err s)"
| stop_standby: "phases s i = Standby \<Longrightarrow> lead_step s (set_phase i Returned s)"
| lead: "phases s i = Leading k \<Longrightarrow> lead_step s (leadTerm i k ev unlockErr s)"
| await: "phases s i = Awaiting why k \<Longrightarrow> lead_step s (fn_returned i why k unlockErr s)"
| open_session: "runs_on (phases s (fst c)) \<noteq> Some (snd c) \<Longrightarrow> lead_step s (s\<lparr>live := insert c (live s)\<rparr>)"
| session_ends: "lead_step s (end_session c s)"

definition election_init :: election where
  "election_init = \<lparr>lock_owner = None, live = {}, phases = (\<lambda>_. Standby)\<rparr>"

inductive elected :: "election \<Rightarrow> bool" where
  init: "elected election_init"
| step: "elected s \<Longrightarrow> lead_step s s' \<Longrightarrow> elected s'"


section \<open>The term of a leader in time\<close>

text \<open>The ticker fires every \<open>interval\<close>; the check at time \<open>t\<close> takes \<open>dur t\<close>, at most one interval. When the session ended at
  time \<open>d\<close>, the first check that starts after that fails and the worker is cancelled when it does.\<close>

function cancelled_at :: "int \<Rightarrow> (int \<Rightarrow> int) \<Rightarrow> int \<Rightarrow> int \<Rightarrow> int" where
  "cancelled_at interval dur d t =
     (if interval \<le> 0 \<or> d \<le> t then t + dur t else cancelled_at interval dur d (t + interval))"
  by auto
termination
  by (relation "measure (\<lambda>(interval, dur, d, t). nat (d - t))") auto

declare cancelled_at.simps [simp del]

lemma cancelled_at_bound:
  assumes "0 < interval" "\<forall>t. dur t \<le> interval" "t < d + interval"
  shows "cancelled_at interval dur d t \<le> d + 2 * interval"
  using assms
proof (induction interval dur d t rule: cancelled_at.induct)
  case (1 interval dur d t)
  show ?case
  proof (cases "d \<le> t")
    case True
    have "dur t \<le> interval" using 1(3) by blast
    then show ?thesis using True 1(4) by (subst cancelled_at.simps) simp
  next
    case False
    then have "cancelled_at interval dur d (t + interval) \<le> d + 2 * interval" using 1 by simp
    then show ?thesis using False 1(2) by (subst cancelled_at.simps) simp
  qed
qed

text \<open>The window in which a leader that lost its session goes on is longer than the one interval the comment gives.\<close>

lemma stale_leader_window: "cancelled_at 10 (\<lambda>_. 10) 1 0 = 20"
  by (simp add: cancelled_at.simps)

section \<open>Exclusion\<close>

definition lock_inv :: "election \<Rightarrow> bool" where
  "lock_inv s \<longleftrightarrow> (\<forall>i k. lock_owner s = Some (i, k) \<longleftrightarrow> runs_on (phases s i) = Some k \<and> (i, k) \<in> live s)"

lemmas election_defs = tryAcquireLeaderLock_def try_lock_def set_phase_def end_session_def releaseLeaderLock_def

lemma lock_invD: "lock_inv s \<Longrightarrow> lock_owner s = Some c \<longleftrightarrow> runs_on (phases s (fst c)) = Some (snd c) \<and> c \<in> live s"
  by (cases c) (simp add: lock_inv_def)

lemma lock_invI: "(\<And>c. lock_owner s = Some c \<longleftrightarrow> runs_on (phases s (fst c)) = Some (snd c) \<and> c \<in> live s) \<Longrightarrow> lock_inv s"
  by (simp add: lock_inv_def)

lemma lock_inv_end_session:
  assumes "lock_inv s"
  shows "lock_inv (end_session c s)"
proof (rule lock_invI)
  show "lock_owner (end_session c s) = Some d \<longleftrightarrow>
      runs_on (phases (end_session c s) (fst d)) = Some (snd d) \<and> d \<in> live (end_session c s)" for d
    using lock_invD [OF assms, of d] by (auto simp: end_session_def)
qed

lemma lock_inv_cancel:
  assumes "lock_inv s" "runs_on ph = runs_on (phases s i)"
  shows "lock_inv (set_phase i ph s)"
proof (rule lock_invI)
  show "lock_owner (set_phase i ph s) = Some d \<longleftrightarrow>
      runs_on (phases (set_phase i ph s) (fst d)) = Some (snd d) \<and> d \<in> live (set_phase i ph s)" for d
    using lock_invD [OF assms(1), of d] assms(2) by (auto simp: set_phase_def)
qed

lemma lock_inv_leave:
  assumes "lock_inv s" "runs_on (phases s i) = Some k" "runs_on ph = None"
  shows "lock_inv (set_phase i ph (releaseLeaderLock (i, k) u s))" and "lock_inv (set_phase i ph (end_session (i, k) s))"
proof -
  have *: "lock_owner s = Some d \<and> d \<noteq> (i, k) \<longleftrightarrow> fst d \<noteq> i \<and> runs_on (phases s (fst d)) = Some (snd d) \<and> d \<in> live s" for d
    using lock_invD [OF assms(1), of d] assms(2) by (cases d) auto
  show "lock_inv (set_phase i ph (end_session (i, k) s))"
  proof (rule lock_invI)
    show "lock_owner (set_phase i ph (end_session (i, k) s)) = Some d \<longleftrightarrow>
        runs_on (phases (set_phase i ph (end_session (i, k) s)) (fst d)) = Some (snd d) \<and> d \<in> live (set_phase i ph (end_session (i, k) s))" for d
      using * [of d] assms(3) by (auto simp: set_phase_def end_session_def)
  qed
  then show "lock_inv (set_phase i ph (releaseLeaderLock (i, k) u s))"
  proof (cases "(i, k) \<in> live s \<and> \<not> u")
    case True
    show ?thesis
    proof (rule lock_invI)
      show "lock_owner (set_phase i ph (releaseLeaderLock (i, k) u s)) = Some d \<longleftrightarrow>
          runs_on (phases (set_phase i ph (releaseLeaderLock (i, k) u s)) (fst d)) = Some (snd d)
          \<and> d \<in> live (set_phase i ph (releaseLeaderLock (i, k) u s))" for d
        using True * [of d] assms(3) by (auto simp: set_phase_def releaseLeaderLock_def)
    qed
  qed (auto simp: releaseLeaderLock_def)
qed

lemma lock_inv_try:
  assumes "lock_inv s" "phases s i = Standby"
  shows "lock_inv (tryAcquireLeaderLock i k err s)"
proof (cases "\<not> err \<and> try_lock (i, k) s")
  case True
  have "\<not> (runs_on (phases s (fst d)) = Some (snd d) \<and> d \<in> live s)" for d
    using lock_invD [OF assms(1), of d] lock_invD [OF assms(1), of "(i, k)"] True assms(2) by (auto simp: try_lock_def)
  then show ?thesis using True by (intro lock_invI) (auto simp: tryAcquireLeaderLock_def try_lock_def set_phase_def)
qed (auto simp: tryAcquireLeaderLock_def assms)

lemma lock_inv_step:
  assumes "lock_inv s" "lead_step s s'"
  shows "lock_inv s'"
  using assms(2,1)
proof (cases rule: lead_step.cases)
  case (lead i k ev u)
  then show ?thesis using assms(1) lock_inv_leave(1) [of s i k Returned u]
    by (cases ev) (auto intro: lock_inv_cancel)
next
  case (await i why k u)
  then show ?thesis using assms(1) lock_inv_leave [of s i k] by (cases why) auto
next
  case (open_session c)
  show ?thesis unfolding open_session(1)
  proof (rule lock_invI)
    show "lock_owner (s\<lparr>live := insert c (live s)\<rparr>) = Some d \<longleftrightarrow>
        runs_on (phases (s\<lparr>live := insert c (live s)\<rparr>) (fst d)) = Some (snd d) \<and> d \<in> live (s\<lparr>live := insert c (live s)\<rparr>)" for d
      using lock_invD [OF assms(1), of d] open_session(2) by auto
  qed
next
  case (stop_standby i)
  then show ?thesis using assms(1) by (auto intro: lock_inv_cancel)
qed (auto intro: lock_inv_try lock_inv_end_session)

lemma elected_inv: "elected s \<Longrightarrow> lock_inv s"
proof (induction rule: elected.induct)
  case init
  show ?case by (simp add: election_init_def lock_inv_def)
next
  case (step s s')
  then show ?case by (blast intro: lock_inv_step)
qed

text \<open>C21. At most one instance runs the worker on a live session. In every reachable state of the election, of two
  instances that both run it at least one has lost its session; the lock belongs to an instance that runs the worker on
  a live session, so it is never left behind with a standby; a leader whose session is gone cancels its worker at the next
  tick, whatever that check answers; and when nobody has the lock a standby with a live connection becomes leader at its
  next attempt.\<close>

theorem leader_exclusive:
  assumes "elected s"
  shows "(\<forall>i j k l. i \<noteq> j \<and> runs_on (phases s i) = Some k \<and> runs_on (phases s j) = Some l \<longrightarrow>
            (i, k) \<notin> live s \<or> (j, l) \<notin> live s)
    \<and> (\<forall>i k. lock_owner s = Some (i, k) \<longrightarrow> runs_on (phases s i) = Some k \<and> (i, k) \<in> live s)
    \<and> (\<forall>i k timedOut u. phases s i = Leading k \<and> (i, k) \<notin> live s \<longrightarrow>
          phases (leadTerm i k (EvTick timedOut) u s) i = Awaiting SessionLost k)
    \<and> (\<forall>i k. lock_owner s = None \<and> phases s i = Standby \<and> (i, k) \<in> live s \<longrightarrow>
          phases (tryAcquireLeaderLock i k False s) i = Leading k \<and> lead_step s (tryAcquireLeaderLock i k False s))"
proof (intro conjI)
  have inv: "lock_inv s" using assms by (rule elected_inv)
  show "\<forall>i j k l. i \<noteq> j \<and> runs_on (phases s i) = Some k \<and> runs_on (phases s j) = Some l \<longrightarrow>
      (i, k) \<notin> live s \<or> (j, l) \<notin> live s"
    using lock_invD [OF inv] by (metis fst_conv option.inject snd_conv)
  show "\<forall>i k. lock_owner s = Some (i, k) \<longrightarrow> runs_on (phases s i) = Some k \<and> (i, k) \<in> live s"
    using lock_invD [OF inv] by simp
  show "\<forall>i k timedOut u. phases s i = Leading k \<and> (i, k) \<notin> live s \<longrightarrow>
      phases (leadTerm i k (EvTick timedOut) u s) i = Awaiting SessionLost k"
    by (simp add: set_phase_def)
  show "\<forall>i k. lock_owner s = None \<and> phases s i = Standby \<and> (i, k) \<in> live s \<longrightarrow>
      phases (tryAcquireLeaderLock i k False s) i = Leading k \<and> lead_step s (tryAcquireLeaderLock i k False s)"
    by (simp add: lead_step.try_it) (simp add: tryAcquireLeaderLock_def try_lock_def set_phase_def)
qed

text \<open>Instance 0 leads on session 1 and loses it; instance 1 takes over while 0 has not noticed: both run, one of them on
  a dead session.\<close>

definition overlap_state :: election where
  "overlap_state = \<lparr>lock_owner = Some (1, 1), live = {(1, 1)}, phases = (\<lambda>_. Standby)(0 := Leading 1, 1 := Leading 1)\<rparr>"

lemma overlap_reached: "elected overlap_state"
proof -
  let ?s1 = "election_init\<lparr>live := {(0, 1)}\<rparr>"
  let ?s2 = "tryAcquireLeaderLock 0 1 False ?s1"
  let ?s3 = "?s2\<lparr>live := insert (1, 1) (live ?s2)\<rparr>"
  let ?s4 = "end_session (0, 1) ?s3"
  have "lead_step election_init (election_init\<lparr>live := insert (0, 1) (live election_init)\<rparr>)"
    by (rule lead_step.open_session) (simp add: election_init_def)
  then have 1: "elected ?s1" using elected.init elected.step by (fastforce simp: election_init_def)
  have 2: "elected ?s2" by (rule elected.step [OF 1 lead_step.try_it]) (simp add: election_init_def)
  have 3: "elected ?s3"
    by (rule elected.step [OF 2 lead_step.open_session]) (simp add: election_defs election_init_def)
  have 4: "elected ?s4" by (rule elected.step [OF 3 lead_step.session_ends])
  have "elected (tryAcquireLeaderLock 1 1 False ?s4)"
    by (rule elected.step [OF 4 lead_step.try_it]) (simp add: election_defs election_init_def)
  also have "tryAcquireLeaderLock 1 1 False ?s4 = overlap_state"
    by (auto simp: election_defs election_init_def overlap_state_def)
  finally show ?thesis .
qed

theorem leader_exclusive_witness:
  "runs_on (phases overlap_state 0) = Some 1 \<and> runs_on (phases overlap_state 1) = Some 1 \<and> (0, 1) \<notin> live overlap_state
   \<and> phases (leadTerm 0 1 (EvTick False) False overlap_state) 0 = Awaiting SessionLost 1
   \<and> lock_owner overlap_state = Some (1, 1) \<and> (1, 1) \<in> live overlap_state"
proof -
  note L = leader_exclusive [OF overlap_reached]
  have r: "runs_on (phases overlap_state 0) = Some 1" "runs_on (phases overlap_state 1) = Some 1"
    and o: "lock_owner overlap_state = Some (1, 1)" and p: "phases overlap_state 0 = Leading 1"
    by (simp_all add: overlap_state_def)
  have l: "(1, 1) \<in> live overlap_state" using L [THEN conjunct2, THEN conjunct1] o by blast
  then have d: "(0, 1) \<notin> live overlap_state" using L [THEN conjunct1] r by (metis zero_neq_one)
  then have "phases (leadTerm 0 1 (EvTick False) False overlap_state) 0 = Awaiting SessionLost 1"
    using L [THEN conjunct2, THEN conjunct2, THEN conjunct1] p by blast
  then show ?thesis using r o l d by blast
qed

end
