(* ===== verification/Spec2Isabelle.thy ===== *)
theory Spec2Isabelle
  imports Money_Alloc Money_Codec Ledger Retry_Topics Choreography Sse Attachments Redrive Http_Edge Transact Cqrs
    Lifecycle Notifications Leader
begin

text \<open>
  Verification of the go-boilerplate repository: the platform libraries that carry its guarantees (exact money,
  a double-entry ledger, transactions over sharded Postgres, at-least-once messaging with an inbox and an
  outbox, a tamper-evident audit log, a CQRS pipeline, rate limits, the life cycle of a service) and the example
  services built on them.

  \<^bold>\<open>How the program is put together.\<close> A service handles a command or an event in one database transaction
  (\<open>platform/storage/pg\<close>), writes its rows and, in the same transaction, rows of an outbox
  (\<open>platform/messaging/outbox\<close>). A relay publishes outbox rows to Kafka (\<open>outboxkafka\<close>, \<open>kafka/producer.go\<close>).
  The consumer loop (\<open>kafka/run.go\<close>) hands records to the typed consumer (\<open>consume\<close>), which runs the handler
  inside an inbox transaction (\<open>inbox\<close>), so that redelivery has no second effect; failures are retried in place,
  escalated to retry topics (\<open>retry\<close>) or dead-lettered (\<open>kafka/dlq.go\<close>), from where \<open>cmd/redrive\<close> sends them back.
  Orders, payments and notifications (\<open>examples/\<close>) are services that exchange events this way; amounts are
  \<open>platform/money\<close> values and the ledger (\<open>platform/ledger\<close>) posts them. The gateway (\<open>examples/gateway\<close>) is the
  edge: a request passes the server's middleware (\<open>web/httpserver\<close>), the rate limiters (\<open>web/ratelimit\<close>), token
  verification (\<open>security/auth\<close>) and the API handlers, which publish commands and read a projection that follows the
  events of the services; listings, the event stream and attachments answer from it. Commands are audited
  (\<open>security/audit\<close>) and decorated by the pipeline of \<open>platform/cqrs\<close>. \<open>platform/servicekit\<close> builds, starts and tears
  down all of it, with workers that must run once elected by \<open>pg/leader.go\<close>.

  \<^bold>\<open>Theories.\<close> Names of definitions are the names of the Go functions where possible; a prefix
  (\<open>money_\<close>, \<open>mem_\<close>, \<open>pg_\<close>, \<open>svc_\<close>, \<open>repo_\<close>, \<open>cq_\<close>, \<open>pl_\<close>) tells methods of the same name apart.
  \<^item> \<open>Go_Prelude\<close>: results, Go integers with their wrap-around, decimal digits, and the shared simplification
    rules. \<open>Decimal_Lib\<close>: the interface of \<open>shopspring/decimal\<close> as a record of operations and the locale
    \<open>decimal_lib\<close> with its documented laws, interpreted on a concrete decimal.
  \<^item> \<open>Money_Core\<close>, \<open>Money_Alloc\<close>, \<open>Money_Codec\<close>: \<open>money.go\<close>, \<open>arith.go\<close>, \<open>asset.go\<close>, \<open>round.go\<close>, \<open>rate.go\<close>,
    \<open>alloc.go\<close>, \<open>validate.go\<close>, \<open>format.go\<close> and the codecs. Arithmetic is exact, allocation conserves the amount,
    minor units and texts round-trip; the lemmas also record where the code falls short (a wrapping ratio total).
  \<^item> \<open>Ledger\<close>: \<open>validate.go\<close>, \<open>mem.go\<close>, \<open>pg.go\<close>. The locale \<open>ledger_store\<close> is the contract of a store; both stores
    are instances, balances net to zero per asset in every reachable state, and the Postgres store refines the
    in-memory one.
  \<^item> \<open>Apperr\<close>: coded errors. \<open>Pg_Tx\<close>, \<open>Pg_Shards\<close>: \<open>RunInTx\<close>, the shard router, keyed transactions, the context values.
  \<^item> \<open>Kafka_Consumer\<close>: one iteration of the poll loop as a function of the broker's answers, and the reachable
    states of the loop. The locale \<open>partition_processor\<close> is what the loop needs of a processor; the record and the
    batch processor are instances. No offset is passed or committed whose record was not handled.
  \<^item> \<open>Retry_Topics\<close>: escalation and the retry consumer with held batches. \<open>Redrive\<close>: the tool that republishes dead
    letters; it can be stopped anywhere and run again without losing one. \<open>Transact\<close>: the transactional consumer of
    \<open>kafka/transact.go\<close>; its visible outputs are those of the consumed records, each once.
  \<^item> \<open>Inbox\<close>, \<open>Consume\<close>: the inbox table and the typed consumer. The locale \<open>once_deliverer\<close> has what a delivery
    path promises; the per-record and the batch path are instances. Every message takes effect at most once.
  \<^item> \<open>Outbox\<close>, \<open>Outbox_Partition\<close>, \<open>Outbox_Kafka\<close>: enqueue, relay, cleanup, partitions, publisher and producer. The
    locale \<open>transport\<close> is what the relay needs of a publisher; both Kafka publish paths are instances. A committed
    event stays in the table until it is on the broker, whatever fails and whatever is cleaned up.
  \<^item> \<open>Orders\<close>, \<open>Payments\<close>: the domain services, their repositories, command handlers and the unpaid watcher, with an
    inductive set of reachable databases. \<open>Choreography\<close>: both services joined by their events; an order is charged
    at most once and its status agrees with its payment. \<open>Notifications\<close>: customers are told of every recorded
    outcome, and again only after a commit that failed.
  \<^item> \<open>Projection\<close>: the gateway's read model with its monotone upserts and the pending batcher; it holds what the
    history of events says, in whatever order they arrive. \<open>Order_Listing\<close> (with \<open>Base64\<close>): cached reads, cursors, pages
    per shard and their merge; following the cursors lists every order once. \<open>Sse\<close>: mailboxes, subscriber and stream
    handler cut at their blocking points; when notifications are published and reads do not lag, every open stream gets to
    the current status.
  \<^item> \<open>Sha256\<close>, \<open>Audit_Chain\<close>, \<open>Audit_Writer\<close>: the hash chain with its pending table and drain, verification, and the
    decorators and writers that feed it. Each staged action is chained exactly once, and a change of a chained
    row is found unless it gives a collision of the hash.
  \<^item> \<open>Auth\<close>: token verification, principals and roles. \<open>Gateway_Api\<close>: the handlers of the API; nobody reads another's
    orders, and a repeated idempotency key gives the same order. \<open>Attachments\<close>: upload and download with their checks.
    \<open>Httpx\<close>: problem documents from errors.
  \<^item> \<open>Ratelimit\<close>: the in-memory and the Redis limiter. The locale \<open>limiter\<close> is what the middleware needs of one; both
    are instances; the memory of the first is bounded, and the second admits no more than the burst and the rate allow. \<open>Netip\<close>: addresses and
    prefixes. \<open>Http_Server\<close>: the middleware stack. \<open>Http_Edge\<close>: client keys, the rate-limit middleware and the chain of
    the gateway; the locale \<open>edge\<close> has what holds for any limiter, with an instance for each.
  \<^item> \<open>Cqrs\<close>: behaviours and the pipeline builder. The locale \<open>kept_by_stack\<close> carries a property of handlers through the
    standard stack; the telemetry and the rollback are instances. A handler only runs for validated and authorised
    commands, inside its span and its transaction.
  \<^item> \<open>Lifecycle\<close>: the closer, the harness of \<open>servicekit\<close> from \<open>New\<close> to \<open>runMain\<close>, and the readiness probe. Resources
    are closed after the goroutines and servers that use them. \<open>Leader\<close>: the election as an inductive step
    relation; at most one instance runs a worker on a live session.

  \<^bold>\<open>State, errors, loops.\<close> A database is a record of tables (lists of rows); a transaction is a function from
  database to database and error that \<open>RunInTx\<close> applies or rolls back. Errors are values of \<open>go_err\<close> or of the
  package's own error type; panics are values where the code recovers from them. What a server, broker, clock or
  generator decides is an argument: each statement has an outcome in an environment record, so every theorem about
  reachable states holds for every pattern of faults. Goroutines that share state (streams, leaders, limiters) are
  steps between their blocking points, in any interleaving. Loops that need not end (\<open>drain\<close>, \<open>pollShard\<close>) are
  partial functions into an option, and their termination is a theorem; loops that run for ever are functions of one
  iteration, run over the list of what happens to them; all others are structurally recursive or have a
  termination proof. No fuel is used. Integers are mathematical integers with \<open>wrap64\<close> and \<open>wrap32\<close> written out where
  the code can overflow, and words in the hash; the floating-point numbers of the limiters are rationals.

  \<^bold>\<open>Parameters.\<close> The decimal package, UUID parsing and generation, protobuf marshalling, JSON encoding, struct
  validation, the hash of Postgres, the schema-registry encoder, the parsers of media types and tokens with the key
  set, the clients of S3, Redis and Kafka, \<open>x/time/rate\<close> and the iteration order of Go maps are outside the
  repository: they are arguments, with laws as named hypotheses (\<open>decimal_lib\<close>, \<open>pg_numeric\<close>, \<open>codec_ok\<close>) and an
  instance in the witnesses.

  \<^bold>\<open>Not modelled.\<close> The two-tier cache and its invalidation channel, the schema-registry client, migrations, tracing,
  metrics, log output, configuration, feature flags, message catalogues, resilience wrappers, mocks, traffic generators,
  code generators and generated code: they are I/O, plumbing over libraries, or output of generators. Of modelled
  components the ticker loops, gauges and constructors that only store their arguments are left out, and of the HTTP
  server the timeout handler, the listener and socket deadlines. Interleaving of two transactions on one database is
  not modelled below the granularity of a transaction; the compare-and-set updates are single statements, as in the code.
\<close>

end
